(* ===== verification/DFT_Prelude.thy ===== *)
theory DFT_Prelude
  imports Main "HOL-Library.Word" "HOL-Library.Sublist"
begin

text \<open>
  Shared vocabulary of the development: the machine types, the collections that
  carry the component proofs, little-endian byte encodings of machine integers
  (both hosts of the ring ABI, x86-64 and aarch64, are little endian), reads and
  writes of a range of a byte array, and a few facts on bitwise operators that the
  ring geometry needs.
\<close>

unbundle bit_operations_syntax

type_synonym byte = "8 word"
type_synonym u16 = "16 word"
type_synonym u32 = "32 word"
type_synonym u64 = "64 word"

named_theorems bytes_simps "reading and writing ranges of byte arrays"
named_theorems layout_defs "constants of the shared segment"

lemma unat_bound: "unat (w :: 'a::len word) < 2 ^ LENGTH('a)"
  by (rule unsigned_less)

lemma unat_succ_less: "(s :: 'a::len word) < h \<Longrightarrow> unat (s + 1) = unat s + 1"
proof -
  assume "s < h"
  then have "unat s + 1 \<le> unat h" by (simp add: word_less_nat_alt)
  then have "unat s + 1 < 2 ^ LENGTH('a)" using unat_bound[of h] by (rule le_less_trans)
  then show ?thesis by (simp add: unat_word_ariths)
qed

lemma unat_of_nat_small: "n < 2 ^ LENGTH('a) \<Longrightarrow> unat (of_nat n :: 'a::len word) = n"
  by (simp only: unsigned_of_nat take_bit_nat_eq_self of_nat_id)

lemma unat_exp: "m < LENGTH('a) \<Longrightarrow> unat (2 ^ m :: 'a::len word) = 2 ^ m"
  by (metis unsigned_of_nat of_nat_numeral of_nat_power take_bit_nat_eq_self
      power_strict_increasing one_less_numeral_iff semiring_norm(76))

section \<open>Little-endian integers\<close>

fun le_bytes :: "nat \<Rightarrow> nat \<Rightarrow> byte list" where
  "le_bytes 0 v = []"
| "le_bytes (Suc n) v = of_nat v # le_bytes n (v div 256)"

fun le_nat :: "byte list \<Rightarrow> nat" where
  "le_nat [] = 0"
| "le_nat (b # bs) = unat b + 256 * le_nat bs"

lemma length_le_bytes [simp]: "length (le_bytes n v) = n"
  by (induction n arbitrary: v) auto

lemma unat_byte_of_nat [simp]: "unat (of_nat v :: byte) = v mod 256"
  by (simp add: unsigned_of_nat take_bit_eq_mod)

lemma le_nat_le_bytes [simp]: "le_nat (le_bytes n v) = v mod 256 ^ n"
proof (induction n arbitrary: v)
  case (Suc n)
  show ?case
    by (simp add: Suc mod_mult2_eq)
qed simp

lemma le_nat_bound: "le_nat bs < 256 ^ length bs"
proof (induction bs)
  case (Cons b bs)
  have "unat b < 256" using unat_bound[of b] by simp
  then show ?case using Cons by simp
qed simp

lemma le_bytes_le_nat [simp]: "length bs = n \<Longrightarrow> le_bytes n (le_nat bs) = bs"
proof (induction bs arbitrary: n)
  case (Cons b bs)
  have b: "unat b < 256" using unat_bound[of b] by simp
  then have "(of_nat (unat b + 256 * le_nat bs) :: byte) = b"
    by (simp add: word_unat_eq_iff del: of_nat_add of_nat_mult)
  moreover have "(unat b + 256 * le_nat bs) div 256 = le_nat bs" using b by simp
  ultimately show ?case using Cons by auto
qed simp

definition bytes_u16 :: "u16 \<Rightarrow> byte list" where "bytes_u16 w = le_bytes 2 (unat w)"
definition bytes_u32 :: "u32 \<Rightarrow> byte list" where "bytes_u32 w = le_bytes 4 (unat w)"
definition bytes_u64 :: "u64 \<Rightarrow> byte list" where "bytes_u64 w = le_bytes 8 (unat w)"

definition u16_of :: "byte list \<Rightarrow> u16" where "u16_of bs = of_nat (le_nat bs)"
definition u32_of :: "byte list \<Rightarrow> u32" where "u32_of bs = of_nat (le_nat bs)"
definition u64_of :: "byte list \<Rightarrow> u64" where "u64_of bs = of_nat (le_nat bs)"

lemma length_bytes_u [simp]:
  "length (bytes_u16 a) = 2" "length (bytes_u32 b) = 4" "length (bytes_u64 c) = 8"
  by (simp_all add: bytes_u16_def bytes_u32_def bytes_u64_def)

lemma u16_of_bytes [simp]: "u16_of (bytes_u16 w) = w"
  using unat_bound[of w] by (simp add: u16_of_def bytes_u16_def)

lemma u32_of_bytes [simp]: "u32_of (bytes_u32 w) = w"
  using unat_bound[of w] by (simp add: u32_of_def bytes_u32_def)

lemma u64_of_bytes [simp]: "u64_of (bytes_u64 w) = w"
  using unat_bound[of w] by (simp add: u64_of_def bytes_u64_def)

section \<open>Ranges of a byte array\<close>

text \<open>A read of \<open>n\<close> bytes at an offset and a store of a byte string at an offset.\<close>

definition take_at :: "nat \<Rightarrow> nat \<Rightarrow> 'a list \<Rightarrow> 'a list" where
  "take_at off n xs = take n (drop off xs)"

definition put_at :: "nat \<Rightarrow> 'a list \<Rightarrow> 'a list \<Rightarrow> 'a list" where
  "put_at off ys xs = take off xs @ ys @ drop (off + length ys) xs"

lemma length_put_at [bytes_simps]:
  "off + length ys \<le> length xs \<Longrightarrow> length (put_at off ys xs) = length xs"
  by (simp add: put_at_def)

lemma length_take_at [bytes_simps]:
  "off + n \<le> length xs \<Longrightarrow> length (take_at off n xs) = n"
  by (simp add: take_at_def)

lemma nth_put_at:
  "off + length ys \<le> length xs \<Longrightarrow> i < length xs \<Longrightarrow>
   put_at off ys xs ! i =
     (if off \<le> i \<and> i < off + length ys then ys ! (i - off) else xs ! i)"
  by (auto simp: put_at_def nth_append min_def)

lemma take_at_eq_nth:
  "off + n \<le> length xs \<Longrightarrow> take_at off n xs = map (\<lambda>i. xs ! (off + i)) [0..<n]"
  by (auto simp: take_at_def intro!: nth_equalityI)

lemma take_at_put_at_same [bytes_simps]:
  "off + length ys \<le> length xs \<Longrightarrow> n = length ys \<Longrightarrow> take_at off n (put_at off ys xs) = ys"
  by (simp add: take_at_def put_at_def)

lemma take_at_put_at_disjoint [bytes_simps]:
  assumes "off + length ys \<le> length xs" "off' + n \<le> length xs"
    and "off' + n \<le> off \<or> off + length ys \<le> off'"
  shows "take_at off' n (put_at off ys xs) = take_at off' n xs"
proof -
  have "put_at off ys xs ! (off' + i) = xs ! (off' + i)" if "i < n" for i
    using assms that by (auto simp: nth_put_at)
  then show ?thesis
    using assms by (simp add: take_at_eq_nth length_put_at)
qed

lemma take_at_take_at [bytes_simps]:
  "off' + m \<le> n \<Longrightarrow> take_at off' m (take_at off n xs) = take_at (off + off') m xs"
  by (simp add: take_at_def drop_take add.commute)

lemma take_at_append_left [bytes_simps]:
  "off + n \<le> length xs \<Longrightarrow> take_at off n (xs @ ys) = take_at off n xs"
  by (simp add: take_at_def)

lemma take_at_append_right [bytes_simps]:
  "length xs \<le> off \<Longrightarrow> take_at off n (xs @ ys) = take_at (off - length xs) n ys"
  by (simp add: take_at_def)

lemma take_put_at [bytes_simps]:
  "n \<le> off \<Longrightarrow> off \<le> length xs \<Longrightarrow> take n (put_at off ys xs) = take n xs"
  by (simp add: put_at_def min_def)

lemma put_at_put_at_same [bytes_simps]:
  "off + length ys \<le> length xs \<Longrightarrow> length ys = length zs \<Longrightarrow>
   put_at off zs (put_at off ys xs) = put_at off zs xs"
  by (simp add: put_at_def)

lemma put_at_append [bytes_simps]:
  "length ys = length ys' \<Longrightarrow> put_at (length xs) ys' (xs @ ys @ zs) = xs @ ys' @ zs"
  by (simp add: put_at_def)

lemma put_at_middle:
  "off = length xs \<Longrightarrow> length ys = length ys' \<Longrightarrow> put_at off ys' (xs @ ys @ zs) = xs @ ys' @ zs"
  by (simp add: put_at_def)

lemma split_at: "n \<le> length xs \<Longrightarrow> \<exists>ys zs. xs = ys @ zs \<and> length ys = n"
  by (rule exI[of _ "take n xs"], rule exI[of _ "drop n xs"]) simp

section \<open>Bitwise facts\<close>

lemma unat_take_bit: "unat (take_bit k w) = unat w mod 2 ^ k"
  by (subst unsigned_take_bit_eq) (rule take_bit_eq_mod)

lemma unat_drop_bit: "unat (drop_bit k (w :: 'a::len word)) = unat w div 2 ^ k"
proof -
  have "take_bit LENGTH('a) (unat w) = unat w"
    by (rule take_bit_nat_eq_self) (rule unat_bound)
  then show ?thesis by (subst unsigned_drop_bit_eq) (simp add: drop_bit_eq_div)
qed

lemma unat_ucast_up [simp]: "unat (ucast (w :: u32) :: u64) = unat w"
  using unat_bound[of w] by (simp add: unsigned_ucast_eq take_bit_nat_eq_self)

lemma of_nat_word_eq_iff:
  "(of_nat m :: 'a::len word) = of_nat n \<longleftrightarrow> m mod 2 ^ LENGTH('a) = n mod 2 ^ LENGTH('a)"
  by (simp only: word_unat_eq_iff unsigned_of_nat take_bit_eq_mod of_nat_id)

lemma nat_and_pred_zero:
  "0 < n \<Longrightarrow> (n :: nat) AND (n - 1) = 0 \<Longrightarrow> \<exists>k. n = 2 ^ k"
proof (induction n rule: less_induct)
  case (less n)
  show ?case
  proof (cases "even n")
    case True
    then obtain m where m: "n = 2 * m" by (elim evenE)
    with less.prems have m0: "0 < m" by simp
    then obtain j where j: "m = Suc j" by (cases m) auto
    have "(2 * m) AND (2 * m - 1) = 2 * (m AND (m - 1))"
      by (subst and_rec) (simp add: j)
    with less.prems m have "m AND (m - 1) = 0" by simp
    with less.IH[of m] m m0 obtain k where "m = 2 ^ k" by auto
    with m have "n = 2 ^ Suc k" by simp
    then show ?thesis by blast
  next
    case False
    then obtain m where m: "n = 2 * m + 1" by (elim oddE)
    have "(2 * m + 1) AND (2 * m) = 2 * (m AND m)"
      by (subst and_rec) simp
    with less.prems m have "n = 2 ^ 0" by simp
    then show ?thesis by blast
  qed
qed

text \<open>\<open>(x + a - 1) & ~(a - 1)\<close> for a power of two \<open>a\<close>, in a range where nothing wraps.\<close>

definition align_to :: "nat \<Rightarrow> nat \<Rightarrow> nat" where
  "align_to a x = (x + a - 1) div a * a"

lemma align_up:
  fixes x :: nat
  assumes "0 < a"
  shows "x \<le> align_to a x" "align_to a x < x + a" "a dvd align_to a x"
  unfolding align_to_def
proof -
  have d: "(x + a - 1) div a * a + (x + a - 1) mod a = x + a - 1" by simp
  have m: "(x + a - 1) mod a < a" using assms by simp
  show "x \<le> (x + a - 1) div a * a" using d m by linarith
  show "(x + a - 1) div a * a < x + a" using d assms by linarith
  show "a dvd (x + a - 1) div a * a" by simp
qed

end
