(* ===== verification/Ring_Layout.thy ===== *)
theory Ring_Layout
  imports DFT_Prelude
begin

text \<open>
  The shared segment (\<open>core/ipc/shm_layout.h\<close>, with the structures of
  \<open>core/common/datastructure.h\<close> and the codes of \<open>core/common/enumeration.h\<close>): the
  words that pack an epoch with a length or an owner, the geometry of the segment, the
  formatting of a fresh one and the map from block sequence numbers to slots and laps.
  Byte counts and offsets are \<open>nat\<close>: \<open>bytes_for_fits\<close> shows that with a valid
  geometry none of the \<open>size_t\<close> expressions wraps.
\<close>

section \<open>Constants and codes\<close>

definition DFT_SHM_SEGMENT_MAGIC :: u64 where
  [layout_defs]: "DFT_SHM_SEGMENT_MAGIC = 0x314d485352544644"
definition DFT_SHM_ABI_VERSION :: u32 where [layout_defs]: "DFT_SHM_ABI_VERSION = 5"
definition DFT_SHM_CACHE_LINE :: nat where [layout_defs, simp]: "DFT_SHM_CACHE_LINE = 64"
definition DFT_SHM_RECORD_ALIGN :: nat where [layout_defs, simp]: "DFT_SHM_RECORD_ALIGN = 16"
definition DFT_SHM_DATA_ALIGN :: nat where [layout_defs, simp]: "DFT_SHM_DATA_ALIGN = 4096"
definition DFT_SHM_BLOCK_CLAIMED :: u64 where
  [layout_defs]: "DFT_SHM_BLOCK_CLAIMED = push_bit 31 1"
definition DFT_SHM_MAX_RECORD_LENGTH :: nat where
  [layout_defs, simp]: "DFT_SHM_MAX_RECORD_LENGTH = 2 ^ 24 - DFT_SHM_RECORD_ALIGN"
definition DFT_SHM_MIN_BLOCKS :: u32 where [layout_defs]: "DFT_SHM_MIN_BLOCKS = 16"
definition DFT_SHM_MIN_BLOCK_SIZE :: u32 where
  [layout_defs]: "DFT_SHM_MIN_BLOCK_SIZE = 65536"

text \<open>Sizes of the structures, alignment padding included.\<close>

definition sizeof_SegmentHeader :: nat where [layout_defs]: "sizeof_SegmentHeader = 256"
definition sizeof_BlockControl :: nat where [layout_defs]: "sizeof_BlockControl = 192"
definition sizeof_RecordHeader :: nat where [layout_defs, simp]: "sizeof_RecordHeader = 16"

datatype ShmSegmentState =
  SHM_SEGMENT_INITIALIZING | SHM_SEGMENT_ACCEPTING | SHM_SEGMENT_DRAINING | SHM_SEGMENT_CLOSED

fun segment_state_code :: "ShmSegmentState \<Rightarrow> u32" where
  "segment_state_code SHM_SEGMENT_INITIALIZING = 0"
| "segment_state_code SHM_SEGMENT_ACCEPTING = 1"
| "segment_state_code SHM_SEGMENT_DRAINING = 2"
| "segment_state_code SHM_SEGMENT_CLOSED = 3"

datatype ShmRecordState = SHM_RECORD_RESERVED | SHM_RECORD_COMMITTED | SHM_RECORD_PAD

fun record_state_code :: "ShmRecordState \<Rightarrow> byte" where
  "record_state_code SHM_RECORD_RESERVED = 0x5E"
| "record_state_code SHM_RECORD_COMMITTED = 0xC5"
| "record_state_code SHM_RECORD_PAD = 0xA7"

datatype ShmRecordKind =
    SHM_KIND_PAD | SHM_KIND_HELLO | SHM_KIND_SET_APP_NAME | SHM_KIND_SET_RANK
  | SHM_KIND_DATA | SHM_KIND_COUNTER | SHM_KIND_METADATA | SHM_KIND_RECORD
  | SHM_KIND_GOODBYE | SHM_KIND_RAW

fun record_kind_code :: "ShmRecordKind \<Rightarrow> u16" where
  "record_kind_code SHM_KIND_PAD = 0"
| "record_kind_code SHM_KIND_HELLO = 1"
| "record_kind_code SHM_KIND_SET_APP_NAME = 2"
| "record_kind_code SHM_KIND_SET_RANK = 3"
| "record_kind_code SHM_KIND_DATA = 4"
| "record_kind_code SHM_KIND_COUNTER = 5"
| "record_kind_code SHM_KIND_METADATA = 6"
| "record_kind_code SHM_KIND_RECORD = 7"
| "record_kind_code SHM_KIND_GOODBYE = 8"
| "record_kind_code SHM_KIND_RAW = 0x7fff"

datatype ShmBlockOwner =
  SHM_OWNER_NONE | SHM_OWNER_IDLE | SHM_OWNER_WRITING | SHM_OWNER_PUBLISHED | SHM_OWNER_TAKEN

fun block_owner_code :: "ShmBlockOwner \<Rightarrow> byte" where
  "block_owner_code SHM_OWNER_NONE = 0"
| "block_owner_code SHM_OWNER_IDLE = 1"
| "block_owner_code SHM_OWNER_WRITING = 2"
| "block_owner_code SHM_OWNER_PUBLISHED = 3"
| "block_owner_code SHM_OWNER_TAKEN = 4"

datatype ShmReserveResult = OK | FULL | TOO_LARGE

lemma record_state_code_inj [simp]:
  "record_state_code a = record_state_code b \<longleftrightarrow> a = b"
  by (cases a; cases b) simp_all

lemma record_kind_code_inj [simp]:
  "record_kind_code a = record_kind_code b \<longleftrightarrow> a = b"
  by (cases a; cases b) simp_all

lemma block_owner_code_inj [simp]:
  "block_owner_code a = block_owner_code b \<longleftrightarrow> a = b"
  by (cases a; cases b) simp_all

section \<open>Packed words\<close>

definition pack_record_word :: "u32 \<Rightarrow> u32 \<Rightarrow> byte \<Rightarrow> u64" where
  "pack_record_word epoch len state =
     (push_bit 32 (ucast epoch) OR push_bit 8 (ucast len)) OR ucast state"

definition record_epoch :: "u64 \<Rightarrow> u32" where
  "record_epoch word = ucast (drop_bit 32 word)"

definition record_length :: "u64 \<Rightarrow> u32" where
  "record_length word = ucast (drop_bit 8 word) AND 0xffffff"

definition record_state :: "u64 \<Rightarrow> byte" where
  "record_state word = ucast (word AND 0xff)"

definition align_record :: "nat \<Rightarrow> u32" where
  "align_record bytes = ucast ((of_nat (bytes + DFT_SHM_RECORD_ALIGN - 1) :: u64)
     AND NOT (of_nat (DFT_SHM_RECORD_ALIGN - 1)))"

definition published_word :: "u32 \<Rightarrow> u32 \<Rightarrow> u64" where
  "published_word epoch block_size = push_bit 32 (ucast epoch) OR ucast block_size"

definition claimed_word :: "u32 \<Rightarrow> u32 \<Rightarrow> u64" where
  "claimed_word epoch block_size = published_word epoch block_size OR DFT_SHM_BLOCK_CLAIMED"

definition owner_word :: "u32 \<Rightarrow> ShmBlockOwner \<Rightarrow> u64" where
  "owner_word epoch who = push_bit 8 (ucast epoch) OR ucast (block_owner_code who)"

lemma mask_ff: "(0xff :: 'a::len word) = mask 8" by (simp add: mask_eq_exp_minus_1)
lemma mask_ffffff: "(0xffffff :: 'a::len word) = mask 24" by (simp add: mask_eq_exp_minus_1)

lemma bit_below_bound: "bit (w :: 'a::len word) n \<Longrightarrow> w < 2 ^ m \<Longrightarrow> m < LENGTH('a) \<Longrightarrow> n < m"
proof (rule ccontr)
  assume b: "bit w n" and w: "w < 2 ^ m" and m: "m < LENGTH('a)" and n: "\<not> n < m"
  have "unat w < 2 ^ m" using w m by (simp add: word_less_nat_alt unat_exp)
  then have "take_bit m (unat w) = unat w" by (simp add: take_bit_nat_eq_self)
  then have "\<not> bit (unat w) n" using n by (metis bit_take_bit_iff)
  moreover have "n < LENGTH('a)" using b by (rule bit_imp_le_length)
  ultimately show False using b by (simp add: bit_unsigned_iff)
qed

lemma pack_record_epoch: "len < 2 ^ 24 \<Longrightarrow>
  record_epoch (pack_record_word epoch len state) = epoch"
  by (rule bit_word_eqI)
    (auto simp: record_epoch_def pack_record_word_def bit_simps
          dest: bit_below_bound[where m=24] bit_imp_le_length)

lemma pack_record_length: "len < 2 ^ 24 \<Longrightarrow>
  record_length (pack_record_word epoch len state) = len"
  by (rule bit_word_eqI)
    (auto simp: record_length_def pack_record_word_def bit_simps mask_ffffff
          dest: bit_below_bound[where m=24] bit_imp_le_length)

lemma pack_record_state:
  "record_state (pack_record_word epoch len state) = state"
  by (rule bit_word_eqI)
    (auto simp: record_state_def pack_record_word_def bit_simps mask_ff
          dest: bit_imp_le_length)

lemmas pack_record_fields = pack_record_epoch pack_record_length pack_record_state

lemma record_length_bound: "unat (record_length w) < 2 ^ 24"
proof -
  have "record_length w = take_bit 24 (ucast (drop_bit 8 w))"
    by (simp add: record_length_def mask_ffffff take_bit_eq_mask)
  then show ?thesis
    by (simp only: unsigned_take_bit_eq take_bit_nat_less_exp)
qed

lemma ucast_u32_u64_inj: "(ucast (a :: u32) :: u64) = ucast b \<longleftrightarrow> a = b"
proof
  assume "(ucast a :: u64) = ucast b"
  then have "(ucast (ucast a :: u64) :: u32) = ucast (ucast b :: u64)" by simp
  moreover have "ucast (ucast x :: u64) = x" for x :: u32
    by (rule bit_word_eqI) (auto simp: bit_simps)
  ultimately show "a = b" by simp
qed simp

lemma drop_published: "drop_bit 32 (published_word e b) = ucast e"
  by (rule bit_word_eqI)
    (auto simp: published_word_def bit_simps dest: bit_imp_le_length)

lemma drop_claimed: "drop_bit 32 (claimed_word e b) = ucast e"
  by (rule bit_word_eqI)
    (auto simp: claimed_word_def published_word_def DFT_SHM_BLOCK_CLAIMED_def bit_simps
          dest: bit_imp_le_length)

lemma drop_owner: "drop_bit 8 (owner_word e w) = ucast e"
  by (rule bit_word_eqI)
    (auto simp: owner_word_def bit_simps dest: bit_imp_le_length)

lemma take_owner: "ucast (owner_word e w) = block_owner_code w"
  by (rule bit_word_eqI)
    (auto simp: owner_word_def bit_simps dest: bit_imp_le_length)

lemma published_word_inj: "published_word e b = published_word e' b' \<longleftrightarrow> e = e' \<and> b = b'"
proof
  assume eq: "published_word e b = published_word e' b'"
  have low: "ucast (published_word x y) = y" for x y :: u32
    by (rule bit_word_eqI) (auto simp: published_word_def bit_simps)
  from eq have "e = e'" by (metis drop_published ucast_u32_u64_inj)
  moreover from eq have "b = b'" by (metis low)
  ultimately show "e = e' \<and> b = b'" by simp
qed simp

lemma owner_word_inj: "owner_word e w = owner_word e' w' \<longleftrightarrow> e = e' \<and> w = w'"
proof
  assume eq: "owner_word e w = owner_word e' w'"
  then have "e = e'" by (metis drop_owner ucast_u32_u64_inj)
  moreover from eq have "w = w'" by (metis take_owner block_owner_code_inj)
  ultimately show "e = e' \<and> w = w'" by simp
qed simp

lemma claimed_word_inj: "claimed_word e b = claimed_word e' b \<longleftrightarrow> e = e'"
  by (metis drop_claimed ucast_u32_u64_inj)

lemma claimed_not_published:
  assumes "b < 2 ^ 31"
  shows "claimed_word e b \<noteq> published_word e' b"
proof
  assume "claimed_word e b = published_word e' b"
  moreover have "bit (claimed_word e b) 31"
    by (simp add: claimed_word_def DFT_SHM_BLOCK_CLAIMED_def bit_simps)
  ultimately have "bit (published_word e' b) 31" by simp
  then have "bit b 31" by (simp add: published_word_def bit_simps)
  with assms show False using bit_below_bound[of b 31 31] by simp
qed

lemma word_of_epoch_nonzero:
  assumes "e \<noteq> 0"
  shows "published_word e b \<noteq> 0" "claimed_word e b \<noteq> 0" "owner_word e w \<noteq> 0"
proof -
  have z: "(ucast e :: u64) \<noteq> 0" using assms ucast_u32_u64_inj[of e 0] by simp
  show "published_word e b \<noteq> 0" using drop_published[of e b] z by auto
  show "claimed_word e b \<noteq> 0" using drop_claimed[of e b] z by auto
  show "owner_word e w \<noteq> 0" using drop_owner[of e w] z by auto
qed

lemmas word_injs = published_word_inj owner_word_inj claimed_word_inj

section \<open>Geometry\<close>

definition pow2 :: "u32 \<Rightarrow> bool" where
  "pow2 v \<longleftrightarrow> v \<noteq> 0 \<and> v AND (v - 1) = 0"

definition valid_geometry :: "u32 \<Rightarrow> u32 \<Rightarrow> bool" where
  "valid_geometry block_count block_size \<longleftrightarrow>
     pow2 block_count \<and> block_count \<ge> 2 \<and> pow2 block_size \<and>
     block_size \<ge> 4096 \<and> block_size \<le> 2 ^ 24"

definition control_offset :: nat where
  "control_offset = align_to DFT_SHM_CACHE_LINE sizeof_SegmentHeader"

definition data_offset :: "u32 \<Rightarrow> nat" where
  "data_offset block_count =
     align_to DFT_SHM_DATA_ALIGN (control_offset + sizeof_BlockControl * unat block_count)"

definition bytes_for :: "u32 \<Rightarrow> u32 \<Rightarrow> nat" where
  "bytes_for block_count block_size =
     data_offset block_count + unat block_count * unat block_size"

lemma pow2_iff: "pow2 v \<longleftrightarrow> (\<exists>k<32. unat v = 2 ^ k)"
proof
  assume p: "pow2 v"
  then have v: "0 < unat v" by (simp add: pow2_def word_greater_zero_iff unat_gt_0)
  have "unat (v - 1) = unat v - 1" using p by (simp add: pow2_def unat_minus_one)
  then have "unat v AND (unat v - 1) = 0"
    using p by (metis pow2_def unsigned_and_eq unsigned_0)
  with v obtain k where k: "unat v = 2 ^ k" using nat_and_pred_zero by blast
  have "(2::nat) ^ k < 2 ^ 32" using unat_bound[of v] k by simp
  then have "k < 32" by (rule power_less_imp_less_exp[rotated]) simp
  with k show "\<exists>k<32. unat v = 2 ^ k" by blast
next
  assume "\<exists>k<32. unat v = 2 ^ k"
  then obtain k where k: "k < 32" "unat v = 2 ^ k" by blast
  then have v: "v = 2 ^ k" by (simp add: word_unat_eq_iff unat_exp)
  have nz: "v \<noteq> 0" using k by auto
  have "v - 1 = mask k" by (simp add: v mask_eq_exp_minus_1)
  then have "v AND (v - 1) = take_bit k v" by (simp add: take_bit_eq_mask)
  also have "\<dots> = 0" by (rule bit_word_eqI) (auto simp: v bit_simps)
  finally show "pow2 v" using nz by (simp add: pow2_def)
qed

function fit_count :: "u32 \<Rightarrow> u32 \<Rightarrow> nat \<Rightarrow> u32" where
  "fit_count block_count block_size room =
     (if bytes_for block_count block_size > room \<and> block_count > DFT_SHM_MIN_BLOCKS
      then fit_count (block_count div 2) block_size room else block_count)"
  by pat_completeness auto
termination
  by (relation "measure (\<lambda>(c, _, _). unat c)")
    (auto simp: DFT_SHM_MIN_BLOCKS_def word_less_nat_alt unat_div)

function fit_size :: "u32 \<Rightarrow> u32 \<Rightarrow> nat \<Rightarrow> u32" where
  "fit_size block_count block_size room =
     (if bytes_for block_count block_size > room \<and> block_size > DFT_SHM_MIN_BLOCK_SIZE
      then fit_size block_count (block_size div 2) room else block_size)"
  by pat_completeness auto
termination
  by (relation "measure (\<lambda>(_, s, _). unat s)")
    (auto simp: DFT_SHM_MIN_BLOCK_SIZE_def word_less_nat_alt unat_div)

declare fit_count.simps [simp del] fit_size.simps [simp del]

text \<open>The final geometry and whether it fits.\<close>

definition fit :: "u32 \<Rightarrow> u32 \<Rightarrow> nat \<Rightarrow> u32 \<times> u32 \<times> bool" where
  "fit block_count block_size room =
     (let c = fit_count block_count block_size room;
          s = fit_size c block_size room
      in (c, s, bytes_for c s \<le> room))"

lemma data_offset_bounds:
  "control_offset + sizeof_BlockControl * unat c \<le> data_offset c"
  "data_offset c < control_offset + sizeof_BlockControl * unat c + 4096"
  "4096 dvd data_offset c"
  using align_up[of 4096 "control_offset + sizeof_BlockControl * unat c"]
  by (simp_all add: data_offset_def)

lemma control_offset_eq: "control_offset = 256"
  by (simp add: control_offset_def align_to_def sizeof_SegmentHeader_def)

lemma bytes_for_fits:
  assumes "valid_geometry c s"
  shows "bytes_for c s < 2 ^ 64"
proof -
  have c: "unat c \<le> 2 ^ 32" using unat_bound[of c] by simp
  have s: "unat s \<le> 2 ^ 24"
    using assms by (simp add: valid_geometry_def word_le_nat_alt)
  have "unat c * unat s \<le> 2 ^ 32 * 2 ^ 24" using c s by (rule mult_mono) auto
  then show ?thesis using data_offset_bounds(2)[of c] c
    by (simp add: bytes_for_def control_offset_eq sizeof_BlockControl_def)
qed

lemma pow2_half:
  assumes "pow2 v" "a < v" "a = 2 ^ m" "m < 31"
  shows "pow2 (v div 2)" "a \<le> v div 2" "v div 2 < v" "unat (v div 2) = unat v div 2"
    "2 * unat (v div 2) = unat v"
proof -
  obtain k where k: "k < 32" "unat v = 2 ^ k" using assms(1) pow2_iff by blast
  have am: "unat a = 2 ^ m" using assms(3,4) by (simp add: unat_exp)
  have "(2::nat) ^ m < 2 ^ k" using assms(2) am k by (simp add: word_less_nat_alt)
  then have mk: "m < k" by (rule power_less_imp_less_exp[rotated]) simp
  then obtain j where j: "k = Suc j" by (cases k) auto
  have d: "unat (v div 2) = unat v div 2" by (simp add: unat_div)
  then show "unat (v div 2) = unat v div 2" .
  have h: "unat (v div 2) = 2 ^ j" using d k j by simp
  then show "2 * unat (v div 2) = unat v" using k j by simp
  show "pow2 (v div 2)" using h k j pow2_iff by (metis Suc_lessD)
  have "(2::nat) ^ m \<le> 2 ^ j" using mk j by (intro power_increasing) auto
  then show "a \<le> v div 2" using am h by (simp add: word_le_nat_alt)
  show "v div 2 < v" using d k by (simp add: word_less_nat_alt)
qed

lemma half_le: "(v :: u32) div 2 \<le> v"
  by (simp add: word_le_nat_alt unat_div)

lemma fit_count_props:
  assumes "pow2 c"
  shows "pow2 (fit_count c s room)" "fit_count c s room \<le> c"
    "min c DFT_SHM_MIN_BLOCKS \<le> fit_count c s room"
    "bytes_for (fit_count c s room) s \<le> room \<or> fit_count c s room \<le> DFT_SHM_MIN_BLOCKS"
    "fit_count c s room < c \<Longrightarrow> \<exists>c'. unat c' = 2 * unat (fit_count c s room) \<and> bytes_for c' s > room"
  using assms
proof (induction c s room rule: fit_count.induct)
  case (1 c s room)
  have m: "DFT_SHM_MIN_BLOCKS = 2 ^ 4" by (simp add: DFT_SHM_MIN_BLOCKS_def)
  {
    case 1 then show ?case using "1.IH"(1) pow2_half(1)[OF _ _ m]
      by (subst fit_count.simps) auto
  next
    case 2 then show ?case using "1.IH"(2) pow2_half(1)[OF _ _ m]
      by (subst fit_count.simps) (auto intro: order_trans[OF _ half_le])
  next
    case 3
    have "min c M \<le> min (c div 2) M" if "M < c" "M = DFT_SHM_MIN_BLOCKS"for M
      using pow2_half(2)[OF 3 _ m] that by (simp add: min_absorb2)
    then show ?case using "1.IH"(3) pow2_half(1)[OF 3 _ m]
      by (subst fit_count.simps) (auto intro: order_trans)
  next
    case 4 then show ?case using "1.IH"(4) pow2_half(1)[OF _ _ m]
      by (subst (1 2) fit_count.simps) auto
  next
    case 5
    show ?case
    proof (cases "bytes_for c s > room \<and> c > DFT_SHM_MIN_BLOCKS")
      case True
      then have e: "fit_count c s room = fit_count (c div 2) s room"
        by (subst fit_count.simps) simp
      note h = pow2_half[OF \<open>pow2 c\<close> _ m]
      show ?thesis
      proof (cases "fit_count (c div 2) s room < c div 2")
        case True with "1.IH"(5) \<open>bytes_for c s > room \<and> _\<close> h e show ?thesis by simp
      next
        case False
        then have "fit_count (c div 2) s room = c div 2"
          using "1.IH"(2) \<open>bytes_for c s > room \<and> _\<close> h(1) by simp
        then show ?thesis using e h(5) True by auto
      qed
    next
      case False
      then have "fit_count c s room = c" by (subst fit_count.simps) auto
      with 5 show ?thesis by simp
    qed
  }
qed

lemma fit_size_props:
  assumes "pow2 s"
  shows "pow2 (fit_size c s room)" "fit_size c s room \<le> s"
    "min s DFT_SHM_MIN_BLOCK_SIZE \<le> fit_size c s room"
    "bytes_for c (fit_size c s room) \<le> room \<or> fit_size c s room \<le> DFT_SHM_MIN_BLOCK_SIZE"
    "fit_size c s room < s \<Longrightarrow> \<exists>s'. unat s' = 2 * unat (fit_size c s room) \<and> bytes_for c s' > room"
  using assms
proof (induction c s room rule: fit_size.induct)
  case (1 c s room)
  have m: "DFT_SHM_MIN_BLOCK_SIZE = 2 ^ 16" by (simp add: DFT_SHM_MIN_BLOCK_SIZE_def)
  {
    case 1 then show ?case using "1.IH"(1) pow2_half(1)[OF _ _ m]
      by (subst fit_size.simps) auto
  next
    case 2 then show ?case using "1.IH"(2) pow2_half(1)[OF _ _ m]
      by (subst fit_size.simps) (auto intro: order_trans[OF _ half_le])
  next
    case 3
    have "min s M \<le> min (s div 2) M" if "M < s" "M = DFT_SHM_MIN_BLOCK_SIZE"for M
      using pow2_half(2)[OF 3 _ m] that by (simp add: min_absorb2)
    then show ?case using "1.IH"(3) pow2_half(1)[OF 3 _ m]
      by (subst fit_size.simps) (auto intro: order_trans)
  next
    case 4 then show ?case using "1.IH"(4) pow2_half(1)[OF _ _ m]
      by (subst (1 2) fit_size.simps) auto
  next
    case 5
    show ?case
    proof (cases "bytes_for c s > room \<and> s > DFT_SHM_MIN_BLOCK_SIZE")
      case True
      then have e: "fit_size c s room = fit_size c (s div 2) room"
        by (subst fit_size.simps) simp
      note h = pow2_half[OF \<open>pow2 s\<close> _ m]
      show ?thesis
      proof (cases "fit_size c (s div 2) room < s div 2")
        case True with "1.IH"(5) \<open>bytes_for c s > room \<and> _\<close> h e show ?thesis by simp
      next
        case False
        then have "fit_size c (s div 2) room = s div 2"
          using "1.IH"(2) \<open>bytes_for c s > room \<and> _\<close> h(1) by simp
        then show ?thesis using e h(5) True by auto
      qed
    next
      case False
      then have "fit_size c s room = s" by (subst fit_size.simps) auto
      with 5 show ?thesis by simp
    qed
  }
qed

text \<open>The smallest segment tried is no smaller than what was asked or the minimum.\<close>

lemma fit_geometry:
  assumes "valid_geometry c s" "fit c s room = (c', s', ok)"
  shows "valid_geometry c' s'" "c' \<le> c" "s' \<le> s"
    "ok \<longleftrightarrow> bytes_for c' s' \<le> room"
    "ok \<or> c' \<le> DFT_SHM_MIN_BLOCKS \<and> s' \<le> DFT_SHM_MIN_BLOCK_SIZE"
    "min c DFT_SHM_MIN_BLOCKS \<le> c'" "min s DFT_SHM_MIN_BLOCK_SIZE \<le> s'"
proof -
  have c': "c' = fit_count c s room" and s': "s' = fit_size c' s room"
    and ok: "ok \<longleftrightarrow> bytes_for c' s' \<le> room"
    using assms(2) by (auto simp: fit_def Let_def)
  note v = assms(1)[unfolded valid_geometry_def]
  note fc = fit_count_props[of c s room, folded c']
  note fs = fit_size_props[of s c' room, folded s']
  show "c' \<le> c" "s' \<le> s" "ok \<longleftrightarrow> bytes_for c' s' \<le> room"
    "min c DFT_SHM_MIN_BLOCKS \<le> c'" "min s DFT_SHM_MIN_BLOCK_SIZE \<le> s'"
    using v fc fs ok by auto
  have "2 \<le> c'" using v fc(3)
    by (auto simp: DFT_SHM_MIN_BLOCKS_def min_def word_le_nat_alt split: if_splits)
  moreover have "4096 \<le> s'" using v fs(3)
    by (auto simp: DFT_SHM_MIN_BLOCK_SIZE_def min_def word_le_nat_alt split: if_splits)
  moreover have "s' \<le> 2 ^ 24" using v fs(2) by (auto intro: order_trans)
  ultimately show "valid_geometry c' s'"
    using v fc(1) fs(1) by (simp add: valid_geometry_def)
  show "ok \<or> c' \<le> DFT_SHM_MIN_BLOCKS \<and> s' \<le> DFT_SHM_MIN_BLOCK_SIZE"
  proof (cases "c' \<le> DFT_SHM_MIN_BLOCKS")
    case True then show ?thesis using v fs(4) ok by auto
  next
    case False
    then have fits: "bytes_for c' s \<le> room" using v fc(4) by auto
    then have "s' = s" unfolding s' by (subst fit_size.simps) simp
    with fits ok show ?thesis by simp
  qed
qed

section \<open>The segment\<close>

record segment_header =
  magic :: u64
  abi_version :: u32
  sh_block_count :: u32
  sh_block_size :: u32
  sh_block_shift :: u32
  sh_state :: u32
  service_pid :: u32
  service_start_time :: u64
  heartbeat_ns :: u64
  announced :: u32
  head :: u64
  tail :: u64
  dropped :: u64
  spilled :: u64

record block_control =
  armed :: u64
  claim_ns :: u64
  owner_pid :: u32
  owner_tid :: u32
  committed :: u64
  owner :: u64

record segment =
  seg_header :: segment_header
  seg_blocks :: "block_control list"
  seg_data :: "byte list list"

record ring_view =
  rv_block_count :: u32
  rv_block_size :: u32
  rv_block_shift :: u32
  rv_mask :: u64

definition ring_view_of :: "segment_header \<Rightarrow> ring_view" where
  "ring_view_of h = \<lparr>rv_block_count = sh_block_count h, rv_block_size = sh_block_size h,
     rv_block_shift = sh_block_shift h, rv_mask = ucast (sh_block_count h - 1)\<rparr>"

definition block_index :: "ring_view \<Rightarrow> u64 \<Rightarrow> nat" where
  "block_index rv seq = unat (seq AND rv_mask rv)"

definition block_data_offset :: "ring_view \<Rightarrow> u64 \<Rightarrow> nat" where
  "block_data_offset rv seq = block_index rv seq * unat (rv_block_size rv)"

definition epoch :: "ring_view \<Rightarrow> u64 \<Rightarrow> u32" where
  "epoch rv seq = ucast (drop_bit (unat (rv_block_shift rv)) seq) + 1"

text \<open>\<open>__builtin_ctz\<close>: the number of trailing zero bits.\<close>

definition ctz :: "u32 \<Rightarrow> u32" where
  "ctz v = of_nat (List.length (takeWhile (\<lambda>i. \<not> bit v i) [0..<32]))"

definition zero_header :: segment_header where
  "zero_header = \<lparr>magic = 0, abi_version = 0, sh_block_count = 0, sh_block_size = 0,
     sh_block_shift = 0, sh_state = 0, service_pid = 0, service_start_time = 0,
     heartbeat_ns = 0, announced = 0, head = 0, tail = 0, dropped = 0, spilled = 0\<rparr>"

definition format_block :: "ring_view \<Rightarrow> u64 \<Rightarrow> block_control" where
  "format_block rv i = \<lparr>armed = ucast (epoch rv i), claim_ns = 0, owner_pid = 0,
     owner_tid = 0, committed = 0, owner = 0\<rparr>"

text \<open>
  The header and control area are zeroed, then filled; the data area keeps the bytes it
  had.
\<close>

definition format :: "byte list list \<Rightarrow> u32 \<Rightarrow> u32 \<Rightarrow> segment" where
  "format old_data block_count block_size =
     (let h = zero_header\<lparr>magic := DFT_SHM_SEGMENT_MAGIC, abi_version := DFT_SHM_ABI_VERSION,
            sh_block_count := block_count, sh_block_size := block_size,
            sh_block_shift := ctz block_count,
            sh_state := segment_state_code SHM_SEGMENT_INITIALIZING,
            head := 0, tail := 0, dropped := 0, spilled := 0\<rparr>;
          view = ring_view_of h
      in \<lparr>seg_header = h,
          seg_blocks = map (\<lambda>i. format_block view (of_nat i)) [0..<unat block_count],
          seg_data = old_data\<rparr>)"

section \<open>Slots and laps\<close>

definition view_of :: "u32 \<Rightarrow> u32 \<Rightarrow> ring_view" where
  "view_of block_count block_size = ring_view_of (zero_header\<lparr>sh_block_count := block_count,
     sh_block_size := block_size, sh_block_shift := ctz block_count\<rparr>)"

lemma view_of_sel [simp]:
  "rv_block_count (view_of c s) = c" "rv_block_size (view_of c s) = s"
  "rv_block_shift (view_of c s) = ctz c" "rv_mask (view_of c s) = ucast (c - 1)"
  by (simp_all add: view_of_def ring_view_of_def)

lemma format_view: "ring_view_of (seg_header (format d c s)) = view_of c s"
  by (simp add: format_def Let_def view_of_def ring_view_of_def)

lemma takeWhile_upt: "k \<le> n \<Longrightarrow> takeWhile (\<lambda>i. i \<noteq> k) [0..<n] = [0..<k]"
  by (induction n) (auto simp: le_Suc_eq takeWhile_append)

lemma ctz_pow2: "k < 32 \<Longrightarrow> unat c = 2 ^ k \<Longrightarrow> unat (ctz c) = k"
proof -
  assume k: "k < 32" "unat c = 2 ^ k"
  then have c: "c = 2 ^ k" by (simp add: word_unat_eq_iff unat_exp)
  have "takeWhile (\<lambda>i. \<not> bit c i) [0..<32] = takeWhile (\<lambda>i. i \<noteq> k) [0..<32]"
    by (rule takeWhile_cong) (auto simp: c bit_simps)
  also have "\<dots> = [0..<k]" using k by (intro takeWhile_upt) simp
  finally have "ctz c = of_nat k" by (simp add: ctz_def)
  then show ?thesis using k(1) by (simp add: unsigned_of_nat take_bit_nat_eq_self)
qed

lemma block_index_mod:
  assumes "pow2 c"
  shows "block_index (view_of c s) seq = unat seq mod unat c"
proof -
  obtain k where k: "k < 32" "unat c = 2 ^ k" using assms pow2_iff by blast
  have "c = 2 ^ k" using k by (simp add: word_unat_eq_iff unat_exp)
  then have "c - 1 = mask k" by (simp add: mask_eq_exp_minus_1)
  then have "(ucast (c - 1) :: u64) = mask k"
    using k(1) by (intro bit_word_eqI) (auto simp: bit_simps)
  then have "seq AND rv_mask (view_of c s) = take_bit k seq"
    by (simp add: take_bit_eq_mask)
  then show ?thesis
    using k(2) by (simp only: block_index_def unat_take_bit)
qed

lemma epoch_div:
  assumes "pow2 c"
  shows "epoch (view_of c s) seq = of_nat (unat seq div unat c + 1)"
proof -
  obtain k where k: "k < 32" "unat c = 2 ^ k" using assms pow2_iff by blast
  have "(ucast (drop_bit k seq) :: u32) = of_nat (unat (drop_bit k seq))"
    by simp
  also have "unat (drop_bit k seq) = unat seq div unat c"
    using k(2) by (simp only: unat_drop_bit)
  finally show ?thesis using ctz_pow2[OF k] by (simp add: epoch_def)
qed

lemma block_index_bound: "pow2 c \<Longrightarrow> block_index (view_of c s) seq < unat c"
  by (simp add: block_index_mod) (simp add: pow2_def unat_gt_0)

lemma div_mod_eqI: "(a::nat) div m = b div m \<Longrightarrow> a mod m = b mod m \<Longrightarrow> a = b"
  by (metis div_mult_mod_eq)

lemma epoch_eq_iff:
  assumes "pow2 c"
    and "unat a div (unat c * 2 ^ 32) = unat b div (unat c * 2 ^ 32)"
  shows "epoch (view_of c s) a = epoch (view_of c s) b
    \<longleftrightarrow> unat a div unat c = unat b div unat c"
proof
  let ?A = "unat a div unat c" and ?B = "unat b div unat c"
  assume "epoch (view_of c s) a = epoch (view_of c s) b"
  then have "(of_nat ?A :: u32) = of_nat ?B"
    using assms(1) by (simp add: epoch_div)
  then have "?A mod 2 ^ 32 = ?B mod 2 ^ 32"
    by (simp only: of_nat_word_eq_iff len_bit0 len_num1) simp
  moreover have "?A div 2 ^ 32 = ?B div 2 ^ 32"
    using assms(2) by (simp add: div_mult2_eq)
  ultimately show "?A = ?B" by (rule div_mod_eqI[rotated])
qed (simp add: epoch_div assms)

text \<open>
  C1: a block is identified by its slot and its epoch. Slots are below \<open>block_count\<close>,
  one lap advances the epoch by one and keeps the slot, and two sequence numbers with the
  same slot and the same epoch are equal as long as they lie in the same 2^32 laps.
\<close>

theorem slot_and_lap_identify_block:
  assumes "valid_geometry c s"
  shows "block_index (view_of c s) a < unat c \<and>
    (unat a + unat c < 2 ^ 64 \<longrightarrow>
      block_index (view_of c s) (a + ucast c) = block_index (view_of c s) a \<and>
      epoch (view_of c s) (a + ucast c) = epoch (view_of c s) a + 1) \<and>
    (block_index (view_of c s) a = block_index (view_of c s) b \<and>
      epoch (view_of c s) a = epoch (view_of c s) b \<and>
      unat a div (unat c * 2 ^ 32) = unat b div (unat c * 2 ^ 32) \<longrightarrow> a = b)"
proof (intro conjI impI; (elim conjE)?)
  have p: "pow2 c" using assms by (simp add: valid_geometry_def)
  show "block_index (view_of c s) a < unat c" using p by (rule block_index_bound)
  show "block_index (view_of c s) (a + ucast c) = block_index (view_of c s) a"
    "epoch (view_of c s) (a + ucast c) = epoch (view_of c s) a + 1"
    if "unat a + unat c < 2 ^ 64"
  proof -
    have "unat (a + ucast c) = unat a + unat c"
      using that by (simp add: unat_word_ariths)
    moreover have "0 < unat c" using p by (simp add: pow2_def unat_gt_0)
    moreover from this have "(unat a + unat c) div unat c = Suc (unat a div unat c)"
      using div_add_self2[of "unat c" "unat a"] by simp
    ultimately show "block_index (view_of c s) (a + ucast c) = block_index (view_of c s) a"
      "epoch (view_of c s) (a + ucast c) = epoch (view_of c s) a + 1"
      by (simp_all add: block_index_mod[OF p] epoch_div[OF p])
  qed
  show "a = b" if "block_index (view_of c s) a = block_index (view_of c s) b"
    "epoch (view_of c s) a = epoch (view_of c s) b"
    "unat a div (unat c * 2 ^ 32) = unat b div (unat c * 2 ^ 32)"
    using that epoch_eq_iff[OF p that(3)]
    by (auto simp: block_index_mod[OF p] word_unat_eq_iff intro: div_mod_eqI)
qed

lemma slot_and_lap_identify_block_witness:
  "valid_geometry 4 4096 \<and> block_index (view_of 4 4096) 6 = 2 \<and>
   block_index (view_of 4 4096) (6 + 4) = 2 \<and> epoch (view_of 4 4096) (6 + 4) = 3 \<and>
   epoch (view_of 4 4096) 10 \<noteq> epoch (view_of 4 4096) 6"
proof -
  have v: "valid_geometry 4 4096" by (simp add: valid_geometry_def pow2_def)
  have p: "pow2 4" by (simp add: pow2_def)
  have i: "block_index (view_of 4 4096) 6 = 2" "epoch (view_of 4 4096) 6 = 2"
    "block_index (view_of 4 4096) 10 = 2"
    by (simp_all add: block_index_mod[OF p] epoch_div[OF p])
  have "(ucast (4 :: u32) :: u64) = 4" by simp
  then show ?thesis
    using slot_and_lap_identify_block[OF v, of 6 10] i v by auto
qed

text \<open>
  Shrinking a valid geometry to the room in \<open>/dev/shm\<close> terminates with a valid
  geometry no larger than the one asked for and no smaller than the minimum (or than what
  was asked), reports success exactly if the segment then fits, and fails only at the
  smallest geometry.
\<close>

lemma fit_shrinks_to_room:
  assumes "valid_geometry c s" "fit c s room = (c', s', ok)"
  shows "valid_geometry c' s' \<and> c' \<le> c \<and> s' \<le> s \<and>
    min c DFT_SHM_MIN_BLOCKS \<le> c' \<and> min s DFT_SHM_MIN_BLOCK_SIZE \<le> s' \<and>
    (ok \<longleftrightarrow> bytes_for c' s' \<le> room) \<and>
    (\<not> ok \<longrightarrow> c' \<le> DFT_SHM_MIN_BLOCKS \<and> s' \<le> DFT_SHM_MIN_BLOCK_SIZE) \<and>
    bytes_for c' s' < 2 ^ 64"
  using fit_geometry[OF assms] bytes_for_fits by blast

lemma fit_shrinks_to_room_witness:
  "valid_geometry 64 65536 \<and> fit 64 65536 2200000 = (32, 65536, True) \<and>
   valid_geometry 32 65536 \<and> bytes_for 32 65536 \<le> 2200000"
proof -
  have v: "valid_geometry 64 65536" by (simp add: valid_geometry_def pow2_def)
  have b: "bytes_for 64 65536 = 4210688" "bytes_for 32 65536 = 2105344"
    by (simp_all add: bytes_for_def data_offset_def control_offset_eq align_to_def
        sizeof_BlockControl_def)
  have c: "fit_count 64 65536 2200000 = 32"
    by (subst fit_count.simps, subst fit_count.simps) (simp add: b DFT_SHM_MIN_BLOCKS_def)
  have f: "fit 64 65536 2200000 = (32, 65536, True)"
    unfolding fit_def c Let_def by (subst (1 2) fit_size.simps) (simp add: b)
  from fit_shrinks_to_room[OF v f] show ?thesis using v f by simp
qed

section \<open>A formatted segment\<close>

lemma format_sel:
  "seg_data (format d c s) = d" "List.length (seg_blocks (format d c s)) = unat c"
  "head (seg_header (format d c s)) = 0" "tail (seg_header (format d c s)) = 0"
  "sh_state (seg_header (format d c s)) = segment_state_code SHM_SEGMENT_INITIALIZING"
  by (simp_all add: format_def Let_def)

lemma format_nth:
  "i < unat c \<Longrightarrow> seg_blocks (format d c s) ! i = format_block (view_of c s) (of_nat i)"
  by (simp add: format_def Let_def view_of_def ring_view_of_def)

text \<open>
  In a freshly formatted ring every block of the first lap may be claimed (it is armed
  for the epoch of that lap, which is 1), and none of its words reads as published, claimed
  or owned in that lap.
\<close>

lemma format_arms_first_lap:
  assumes "valid_geometry c s" "unat seq < unat c"
  shows "let seg = format d c s; view = view_of c s; b = seg_blocks seg ! block_index view seq
    in head (seg_header seg) = 0 \<and> tail (seg_header seg) = 0 \<and> epoch view seq = 1 \<and>
       armed b = ucast (epoch view seq) \<and> committed b \<noteq> published_word (epoch view seq) s \<and>
       committed b \<noteq> claimed_word (epoch view seq) s \<and>
       (\<forall>who. owner b \<noteq> owner_word (epoch view seq) who)"
proof -
  have p: "pow2 c" using assms(1) by (simp add: valid_geometry_def)
  have i: "block_index (view_of c s) seq = unat seq"
    using assms(2) by (simp add: block_index_mod[OF p])
  have e: "epoch (view_of c s) seq = 1" using assms(2) by (simp add: epoch_div[OF p])
  show ?thesis
    using word_of_epoch_nonzero[of 1] assms(2) e
    by (simp add: Let_def i format_sel format_nth format_block_def)
qed

lemma format_arms_first_lap_witness:
  "armed (seg_blocks (format [] 4 4096) ! 3) = 1 \<and>
   committed (seg_blocks (format [] 4 4096) ! 3) \<noteq> published_word 1 4096"
proof -
  have v: "valid_geometry 4 4096" by (simp add: valid_geometry_def pow2_def)
  have p: "pow2 4" by (simp add: pow2_def)
  have "block_index (view_of 4 4096) 3 = 3" "epoch (view_of 4 4096) 3 = 1"
    by (simp_all add: block_index_mod[OF p] epoch_div[OF p])
  then show ?thesis
    using format_arms_first_lap[OF v, of 3 "[]"] by (simp add: Let_def)
qed

end
