(* ===== verification/Ring_Block.thy ===== *)
theory Ring_Block
  imports Ring_Layout
begin

text \<open>
  The contents of one block, byte for byte: record headers as the producer stores them
  (\<open>core/ipc/ring_producer.h\<close>, \<open>write_pad\<close> of \<open>core/ipc/shm_layout.h\<close>) and the two
  walks over them of \<open>service/pipeline/block_tracker.h\<close>, \<open>verify_block\<close> and
  \<open>for_each_record\<close>. The abstract contents of a block is a list of entries, and
  \<open>image\<close> is its byte representation.
\<close>

section \<open>Record headers\<close>

record record_header =
  rh_word :: u64
  rh_pid :: u32
  rh_kind :: u16
  rh_flags :: u16

definition header_bytes :: "record_header \<Rightarrow> byte list" where
  "header_bytes h =
     bytes_u64 (rh_word h) @ bytes_u32 (rh_pid h) @ bytes_u16 (rh_kind h) @ bytes_u16 (rh_flags h)"

definition read_header :: "nat \<Rightarrow> byte list \<Rightarrow> record_header" where
  "read_header off blk = \<lparr>rh_word = u64_of (take_at off 8 blk),
     rh_pid = u32_of (take_at (off + 8) 4 blk), rh_kind = u16_of (take_at (off + 12) 2 blk),
     rh_flags = u16_of (take_at (off + 14) 2 blk)\<rparr>"

definition write_header :: "nat \<Rightarrow> record_header \<Rightarrow> byte list \<Rightarrow> byte list" where
  "write_header off h blk = put_at off (header_bytes h) blk"

text \<open>A store of the word alone, as \<open>commit\<close> does.\<close>

definition store_word :: "nat \<Rightarrow> u64 \<Rightarrow> byte list \<Rightarrow> byte list" where
  "store_word off w blk = put_at off (bytes_u64 w) blk"

definition write_pad :: "nat \<Rightarrow> u32 \<Rightarrow> u32 \<Rightarrow> u32 \<Rightarrow> byte list \<Rightarrow> byte list" where
  "write_pad at_off ep len pid blk =
     write_header at_off \<lparr>rh_word = pack_record_word ep len (record_state_code SHM_RECORD_PAD),
       rh_pid = pid, rh_kind = record_kind_code SHM_KIND_PAD, rh_flags = 0\<rparr> blk"

lemma length_header_bytes [simp]: "length (header_bytes h) = 16"
  by (simp add: header_bytes_def)

lemma read_header_bytes:
  assumes "take_at off 16 blk = header_bytes h"
  shows "read_header off blk = h"
proof -
  have "take_at off 8 blk = take_at 0 8 (take_at off 16 blk)"
    "take_at (off + 8) 4 blk = take_at 8 4 (take_at off 16 blk)"
    "take_at (off + 12) 2 blk = take_at 12 2 (take_at off 16 blk)"
    "take_at (off + 14) 2 blk = take_at 14 2 (take_at off 16 blk)"
    by (simp_all add: take_at_take_at)
  then show ?thesis
    unfolding read_header_def assms by (simp add: header_bytes_def take_at_def)
qed

section \<open>The walks of the consumer\<close>

text \<open>A header that cannot be one of this lap's.\<close>

definition bad_header :: "nat \<Rightarrow> u32 \<Rightarrow> nat \<Rightarrow> u64 \<Rightarrow> bool" where
  "bad_header block_size ep offset word \<longleftrightarrow>
     record_epoch word \<noteq> ep \<or>
     (record_state word \<noteq> record_state_code SHM_RECORD_COMMITTED \<and>
      record_state word \<noteq> record_state_code SHM_RECORD_PAD) \<or>
     unat (record_length word) < sizeof_RecordHeader \<or>
     unat (record_length word) mod DFT_SHM_RECORD_ALIGN \<noteq> 0 \<or>
     offset + unat (record_length word) > block_size"

text \<open>
  \<open>BlockTracker::verify_block\<close>: \<open>None\<close> if every header checks out, otherwise the
  offending word and its offset (\<open>bad_word_\<close>, \<open>bad_offset_\<close>).
\<close>

function verify_from :: "nat \<Rightarrow> u32 \<Rightarrow> byte list \<Rightarrow> nat \<Rightarrow> (u64 \<times> nat) option" where
  "verify_from block_size ep blk offset =
     (if offset < block_size then
        let word = rh_word (read_header offset blk) in
        if bad_header block_size ep offset word then Some (word, offset)
        else verify_from block_size ep blk (offset + unat (record_length word))
      else None)"
  by pat_completeness auto
termination
  by (relation "measure (\<lambda>(n, _, _, off). n - off)") (auto simp: bad_header_def)

declare verify_from.simps [simp del]

definition verify_block :: "nat \<Rightarrow> u32 \<Rightarrow> byte list \<Rightarrow> (u64 \<times> nat) option" where
  "verify_block block_size ep blk = verify_from block_size ep blk 0"

text \<open>
  \<open>for_each_record\<close>: the headers and payloads handed to \<open>fn\<close>, in order, and the number
  of reservations that were never committed. A walk that does not end (only a record
  length of zero can cause one) is \<open>None\<close>.
\<close>

type_synonym drained_record = "record_header \<times> byte list"

partial_function (option) walk_records ::
  "nat \<Rightarrow> u32 \<Rightarrow> bool \<Rightarrow> byte list \<Rightarrow> nat \<Rightarrow> drained_record list \<Rightarrow> nat
     \<Rightarrow> (drained_record list \<times> nat) option" where
  "walk_records block_size ep salvage blk offset acc uncommitted =
     (if offset + sizeof_RecordHeader \<le> block_size then
        let hdr = read_header offset blk; word = rh_word hdr; len = record_length word;
            state = record_state word
        in if salvage \<and> bad_header block_size ep offset word then Some (acc, uncommitted)
           else if state = record_state_code SHM_RECORD_COMMITTED then
             walk_records block_size ep salvage blk (offset + unat len)
               (acc @ [(hdr, take_at (offset + sizeof_RecordHeader) (unat (len - 16)) blk)])
               uncommitted
           else
             walk_records block_size ep salvage blk (offset + unat len) acc
               (if salvage \<and> rh_kind hdr \<noteq> record_kind_code SHM_KIND_PAD
                then uncommitted + 1 else uncommitted)
      else Some (acc, uncommitted))"

definition for_each_record ::
  "nat \<Rightarrow> u32 \<Rightarrow> bool \<Rightarrow> byte list \<Rightarrow> (drained_record list \<times> nat) option" where
  "for_each_record block_size ep salvage blk =
     walk_records block_size ep salvage blk 0 [] 0"

section \<open>Abstract contents\<close>

text \<open>
  A committed record, or a hole: a reservation that is not committed, or padding. The
  payload of an entry includes the slack up to the record alignment.
\<close>

datatype entry =
  Rec (entry_pid: u32) (entry_kind: u16) (entry_payload: "byte list")
| Hole (entry_pid: u32) (entry_kind: u16) (entry_payload: "byte list")

fun entry_state :: "entry \<Rightarrow> ShmRecordState" where
  "entry_state (Rec _ _ _) = SHM_RECORD_COMMITTED"
| "entry_state (Hole _ _ _) = SHM_RECORD_PAD"

definition entry_len :: "entry \<Rightarrow> nat" where
  "entry_len e = sizeof_RecordHeader + length (entry_payload e)"

definition entry_header :: "u32 \<Rightarrow> entry \<Rightarrow> record_header" where
  "entry_header ep e =
     \<lparr>rh_word = pack_record_word ep (of_nat (entry_len e)) (record_state_code (entry_state e)),
      rh_pid = entry_pid e, rh_kind = entry_kind e, rh_flags = 0\<rparr>"

definition entry_bytes :: "u32 \<Rightarrow> entry \<Rightarrow> byte list" where
  "entry_bytes ep e = header_bytes (entry_header ep e) @ entry_payload e"

definition image :: "u32 \<Rightarrow> entry list \<Rightarrow> byte list" where
  "image ep es = concat (map (entry_bytes ep) es)"

definition entry_ok :: "entry \<Rightarrow> bool" where
  "entry_ok e \<longleftrightarrow> entry_len e mod DFT_SHM_RECORD_ALIGN = 0 \<and> entry_len e < 2 ^ 24"

fun delivered :: "u32 \<Rightarrow> entry list \<Rightarrow> drained_record list" where
  "delivered ep [] = []"
| "delivered ep (Rec p k d # es) = (entry_header ep (Rec p k d), d) # delivered ep es"
| "delivered ep (Hole p k d # es) = delivered ep es"

fun unfinished :: "entry list \<Rightarrow> nat" where
  "unfinished [] = 0"
| "unfinished (Rec p k d # es) = unfinished es"
| "unfinished (Hole p k d # es) =
     (if k \<noteq> record_kind_code SHM_KIND_PAD then 1 else 0) + unfinished es"

section \<open>The walks on an image\<close>

lemma image_simps [simp]:
  "image ep [] = []" "image ep (e # es) = entry_bytes ep e @ image ep es"
  "image ep (es @ es') = image ep es @ image ep es'"
  by (simp_all add: image_def)

lemma length_entry_bytes [simp]: "length (entry_bytes ep e) = entry_len e"
  by (simp add: entry_bytes_def entry_len_def)

lemma entry_len_ge [simp]: "16 \<le> entry_len e" by (simp add: entry_len_def)

lemma entry_header_fields:
  assumes "entry_ok e"
  shows "record_epoch (rh_word (entry_header ep e)) = ep"
    "unat (record_length (rh_word (entry_header ep e))) = entry_len e"
    "record_state (rh_word (entry_header ep e)) = record_state_code (entry_state e)"
proof -
  let ?l = "of_nat (entry_len e) :: u32"
  have u: "unat ?l = entry_len e"
    using assms by (simp add: entry_ok_def unsigned_of_nat take_bit_nat_eq_self)
  then have "?l < 2 ^ 24" using assms by (simp add: entry_ok_def word_less_nat_alt)
  then show "record_epoch (rh_word (entry_header ep e)) = ep"
    "record_state (rh_word (entry_header ep e)) = record_state_code (entry_state e)"
    "unat (record_length (rh_word (entry_header ep e))) = entry_len e"
    using u by (simp_all add: entry_header_def pack_record_fields)
qed

lemma entry_header_sel [simp]:
  "rh_pid (entry_header ep e) = entry_pid e" "rh_kind (entry_header ep e) = entry_kind e"
  "rh_flags (entry_header ep e) = 0"
  by (simp_all add: entry_header_def)

lemma payload_length:
  assumes "entry_ok e"
  shows "unat (record_length (rh_word (entry_header ep e)) - 16) = length (entry_payload e)"
  using entry_header_fields(2)[OF assms, of ep]
  by (subst unat_sub) (simp_all add: word_le_nat_alt entry_len_def)

lemma entry_state_cases: "entry_state e = SHM_RECORD_COMMITTED \<or> entry_state e = SHM_RECORD_PAD"
  by (cases e) simp_all

lemma good_header:
  assumes "entry_ok e" "off + entry_len e \<le> n"
  shows "\<not> bad_header n ep off (rh_word (entry_header ep e))"
  using assms entry_state_cases[of e] entry_len_ge[of e, THEN leD]
  by (auto simp: bad_header_def entry_header_fields entry_ok_def)

text \<open>What lies at an offset of a block that starts with an image.\<close>

definition holds_at :: "nat \<Rightarrow> byte list \<Rightarrow> byte list \<Rightarrow> bool" where
  "holds_at off bs blk \<longleftrightarrow> off + length bs \<le> length blk \<and> take_at off (length bs) blk = bs"

lemma holds_at_append:
  "holds_at off (as @ bs) blk \<longleftrightarrow> holds_at off as blk \<and> holds_at (off + length as) bs blk"
proof
  assume h: "holds_at off (as @ bs) blk"
  then have eq: "take (length as + length bs) (drop off blk) = as @ bs"
    by (simp add: holds_at_def take_at_def)
  have "take (length as) (drop off blk) = as"
    using arg_cong[OF eq, of "take (length as)"] by (simp add: min_def)
  moreover have "take (length bs) (drop (off + length as) blk) = bs"
    using arg_cong[OF eq, of "drop (length as)"] by (simp add: drop_take add.commute)
  ultimately show "holds_at off as blk \<and> holds_at (off + length as) bs blk"
    using h
    by (simp add: holds_at_def take_at_def)
next
  assume "holds_at off as blk \<and> holds_at (off + length as) bs blk"
  then show "holds_at off (as @ bs) blk"
    by (simp add: holds_at_def take_at_def take_add drop_drop add.commute)
qed

lemma holds_at_entry:
  assumes "holds_at off (entry_bytes ep e) blk"
  shows "read_header off blk = entry_header ep e"
    "take_at (off + 16) (length (entry_payload e)) blk = entry_payload e"
    "off + entry_len e \<le> length blk"
proof -
  have h: "holds_at off (header_bytes (entry_header ep e)) blk"
    and p: "holds_at (off + 16) (entry_payload e) blk"
    using assms by (simp_all add: entry_bytes_def holds_at_append)
  show "read_header off blk = entry_header ep e"
    using h by (intro read_header_bytes) (simp add: holds_at_def)
  show "take_at (off + 16) (length (entry_payload e)) blk = entry_payload e"
    using p by (simp add: holds_at_def)
  show "off + entry_len e \<le> length blk" using assms by (simp add: holds_at_def)
qed

lemma verify_image:
  assumes "holds_at off (image ep es) blk" "\<forall>e\<in>set es. entry_ok e"
  shows "verify_from (length blk) ep blk off =
    verify_from (length blk) ep blk (off + length (image ep es))"
  using assms
proof (induction es arbitrary: off)
  case (Cons e es)
  have e: "holds_at off (entry_bytes ep e) blk"
    and r: "holds_at (off + entry_len e) (image ep es) blk"
    using Cons.prems(1) by (simp_all add: holds_at_append)
  note f = holds_at_entry[OF e]
  have "off < length blk" using f(3) entry_len_ge[of e] by linarith
  moreover have "\<not> bad_header (length blk) ep off (rh_word (read_header off blk))"
    using Cons.prems(2) f by (simp add: good_header)
  ultimately have "verify_from (length blk) ep blk off =
      verify_from (length blk) ep blk (off + entry_len e)"
    using Cons.prems(2) f by (subst verify_from.simps) (simp add: Let_def entry_header_fields)
  then show ?case using Cons.IH[OF r] Cons.prems(2) by (simp add: add.assoc)
qed simp

lemma walk_image:
  assumes "holds_at off (image ep es) blk" "\<forall>e\<in>set es. entry_ok e"
  shows "walk_records (length blk) ep salvage blk off acc u =
    walk_records (length blk) ep salvage blk (off + length (image ep es))
      (acc @ delivered ep es) (if salvage then u + unfinished es else u)"
  using assms
proof (induction es arbitrary: off acc u)
  case (Cons e es)
  have e: "holds_at off (entry_bytes ep e) blk"
    and r: "holds_at (off + entry_len e) (image ep es) blk"
    using Cons.prems(1) by (simp_all add: holds_at_append)
  note f = holds_at_entry[OF e]
  have ok: "entry_ok e" using Cons.prems(2) by simp
  have b: "off + 16 \<le> length blk" using f(3) entry_len_ge[of e] by linarith
  have g: "\<not> bad_header (length blk) ep off (rh_word (read_header off blk))"
    using ok f by (simp add: good_header)
  note pl = payload_length[OF ok, of ep]
  show ?case
  proof (cases e)
    case (Rec p k d)
    then have "walk_records (length blk) ep salvage blk off acc u =
        walk_records (length blk) ep salvage blk (off + entry_len e)
          (acc @ [(entry_header ep e, d)]) u"
      using b g f ok pl by (subst walk_records.simps) (simp add: Let_def entry_header_fields)
    then show ?thesis using Cons.IH[OF r] Cons.prems(2) Rec by (simp add: add.assoc)
  next
    case (Hole p k d)
    then have "walk_records (length blk) ep salvage blk off acc u =
        walk_records (length blk) ep salvage blk (off + entry_len e) acc
          (if salvage \<and> k \<noteq> record_kind_code SHM_KIND_PAD then u + 1 else u)"
      using b g f ok by (subst walk_records.simps)
        (simp add: Let_def entry_header_fields)
    then show ?thesis using Cons.IH[OF r] Cons.prems(2) Hole by (simp add: add.assoc)
  qed
qed simp

text \<open>A complete block: its bytes are an image.\<close>

lemma holds_whole: "holds_at 0 blk blk"
  by (simp add: holds_at_def take_at_def)

lemma verify_complete:
  assumes "blk = image ep es" "\<forall>e\<in>set es. entry_ok e"
  shows "verify_block (length blk) ep blk = None"
proof -
  have "verify_from (length blk) ep blk 0 = verify_from (length blk) ep blk (length blk)"
    using verify_image[of 0 ep es blk] assms holds_whole[of blk] by simp
  also have "\<dots> = None" by (subst verify_from.simps) simp
  finally show ?thesis by (simp add: verify_block_def)
qed

lemma walk_complete:
  assumes "blk = image ep es" "\<forall>e\<in>set es. entry_ok e"
  shows "for_each_record (length blk) ep salvage blk =
    Some (delivered ep es, if salvage then unfinished es else 0)"
proof -
  have "walk_records (length blk) ep salvage blk 0 [] 0 =
      walk_records (length blk) ep salvage blk (length blk) (delivered ep es)
        (if salvage then unfinished es else 0)"
    using walk_image[of 0 ep es blk salvage "[]" 0] assms holds_whole[of blk] by simp
  also have "\<dots> = Some (delivered ep es, if salvage then unfinished es else 0)"
    by (subst walk_records.simps) simp
  finally show ?thesis by (simp add: for_each_record_def)
qed

text \<open>
  A block taken over from its producer: an image up to \<open>used\<close>, then bytes whose first
  header is not one of this lap.
\<close>

definition stale_at :: "u32 \<Rightarrow> byte list \<Rightarrow> nat \<Rightarrow> bool" where
  "stale_at ep blk off \<longleftrightarrow>
     off + sizeof_RecordHeader \<le> length blk \<longrightarrow>
     bad_header (length blk) ep off (rh_word (read_header off blk))"

lemma walk_salvage:
  assumes "take (length (image ep es)) blk = image ep es" "\<forall>e\<in>set es. entry_ok e"
    and "stale_at ep blk (length (image ep es))"
  shows "for_each_record (length blk) ep True blk = Some (delivered ep es, unfinished es)"
proof -
  have "length (image ep es) \<le> length blk"
    using arg_cong[OF assms(1), of length] by simp
  then have h: "holds_at 0 (image ep es) blk"
    using assms(1) by (simp add: holds_at_def take_at_def)
  have "walk_records (length blk) ep True blk 0 [] 0 =
      walk_records (length blk) ep True blk (length (image ep es)) (delivered ep es) (unfinished es)"
    using walk_image[OF h assms(2), of True "[]" 0] by simp
  also have "\<dots> = Some (delivered ep es, unfinished es)"
    using assms(3) by (subst walk_records.simps) (simp add: Let_def stale_at_def)
  finally show ?thesis by (simp add: for_each_record_def)
qed

text \<open>Whatever the bytes are, a salvage walk ends.\<close>

lemma walk_salvage_total:
  "\<exists>r. walk_records n ep True blk off acc u = Some r"
proof (induction "n - off" arbitrary: off acc u rule: less_induct)
  case less
  let ?h = "read_header off blk"
  let ?len = "unat (record_length (rh_word ?h))"
  show ?case
  proof (cases "off + 16 \<le> n \<and> \<not> bad_header n ep off (rh_word ?h)")
    case True
    then have "16 \<le> ?len" by (simp add: bad_header_def)
    then have m: "n - (off + ?len) < n - off" using True by linarith
    show ?thesis
      using True less[OF m] by (subst walk_records.simps) (auto simp: Let_def)
  next
    case False
    then show ?thesis by (subst walk_records.simps) (auto simp: Let_def)
  qed
qed

lemma delivered_append: "delivered ep (es @ es') = delivered ep es @ delivered ep es'"
  by (induction es rule: delivered.induct) auto

lemma unfinished_append: "unfinished (es @ es') = unfinished es + unfinished es'"
  by (induction es rule: unfinished.induct) auto

section \<open>Placing records\<close>

text \<open>
  The bytes of a block after a reservation at \<open>used\<close>, the copy of the payload and the
  store of another header word.
\<close>

lemma place_record:
  assumes "used + len \<le> length blk" "16 + length bs \<le> len"
  shows "length (store_word used w (put_at (used + 16) bs (write_header used h blk))) = length blk"
    and "take (used + len) (store_word used w (put_at (used + 16) bs (write_header used h blk))) =
      take used blk @ header_bytes (h\<lparr>rh_word := w\<rparr>) @ bs @
      take_at (used + 16 + length bs) (len - 16 - length bs) blk"
    and "drop (used + len) (store_word used w (put_at (used + 16) bs (write_header used h blk))) =
      drop (used + len) blk"
proof -
  obtain A X1 where 1: "blk = A @ X1" "length A = used" using split_at[of used blk] assms by auto
  obtain H X2 where 2: "X1 = H @ X2" "length H = 16" using split_at[of 16 X1] assms 1 by auto
  obtain P X3 where 3: "X2 = P @ X3" "length P = length bs"
    using split_at[of "length bs" X2] assms 1 2 by auto
  have "len - 16 - length bs \<le> length X3" using assms 1 2 3 by auto
  from split_at[OF this] obtain Q R where 4: "X3 = Q @ R" "length Q = len - 16 - length bs"
    by blast
  let ?tl = "bytes_u32 (rh_pid h) @ bytes_u16 (rh_kind h) @ bytes_u16 (rh_flags h)"
  have wh: "write_header used h blk = A @ header_bytes h @ P @ Q @ R"
    using 1 2 3 4 put_at_middle[of used A H "header_bytes h" "P @ Q @ R"]
    by (simp add: write_header_def)
  have pb: "put_at (used + 16) bs (write_header used h blk) = A @ header_bytes h @ bs @ Q @ R"
    unfolding wh using 1(2) 3(2) put_at_middle[of "used + 16" "A @ header_bytes h" P bs "Q @ R"]
    by simp
  have "store_word used w (A @ header_bytes h @ bs @ Q @ R) =
      A @ bytes_u64 w @ ?tl @ bs @ Q @ R"
    using 1 put_at_middle[of used A "bytes_u64 (rh_word h)" "bytes_u64 w" "?tl @ bs @ Q @ R"]
    by (simp add: store_word_def header_bytes_def)
  then have sw: "store_word used w (put_at (used + 16) bs (write_header used h blk)) =
      A @ header_bytes (h\<lparr>rh_word := w\<rparr>) @ bs @ Q @ R"
    by (simp add: pb header_bytes_def)
  show "length (store_word used w (put_at (used + 16) bs (write_header used h blk))) = length blk"
    unfolding sw using 1 2 3 4 by simp
  have q: "take_at (used + 16 + length bs) (len - 16 - length bs) blk = Q"
    using 1 2 3 4 by (simp add: take_at_def)
  show "take (used + len) (store_word used w (put_at (used + 16) bs (write_header used h blk))) =
      take used blk @ header_bytes (h\<lparr>rh_word := w\<rparr>) @ bs @
      take_at (used + 16 + length bs) (len - 16 - length bs) blk"
    unfolding sw q using 1 2 3 4 assms by simp
  show "drop (used + len) (store_word used w (put_at (used + 16) bs (write_header used h blk))) =
      drop (used + len) blk"
    unfolding sw using 1 2 3 4 assms by simp
qed

text \<open>Padding out the rest of a block.\<close>

lemma write_pad_image:
  assumes "take used blk = image ep es" "length (image ep es) = used"
    and "used + 16 \<le> length blk" "length blk - used < 2 ^ 24"
  shows "write_pad used ep (of_nat (length blk - used)) pid blk =
    image ep (es @ [Hole pid (record_kind_code SHM_KIND_PAD) (drop (used + 16) blk)])"
proof -
  obtain A X1 where 1: "blk = A @ X1" "length A = used" using split_at[of used blk] assms by auto
  obtain H R where 2: "X1 = H @ R" "length H = 16" using split_at[of 16 X1] assms 1 by auto
  have "A = image ep es" using assms(1) 1 by simp
  moreover have "write_header used h blk = A @ header_bytes h @ R" for h
    using 1 2 put_at_middle[of used A H "header_bytes h" R] by (simp add: write_header_def)
  moreover have "drop (used + 16) blk = R" "length blk - used = 16 + length R"
    using 1 2 by simp_all
  ultimately show ?thesis
    by (simp add: write_pad_def entry_bytes_def entry_header_def entry_len_def)
qed

text \<open>\<open>align_record\<close> rounds up to the record alignment.\<close>

lemma align_record_eq:
  assumes "n < 2 ^ 24"
  shows "unat (align_record n) = align_to 16 n"
proof -
  have b: "(n + 15) div 16 * 16 < 2 ^ 25" using assms by simp
  have m: "(of_nat (DFT_SHM_RECORD_ALIGN - 1) :: u64) = mask 4"
    by (simp add: mask_eq_exp_minus_1)
  have "x AND NOT (mask 4) = push_bit 4 (drop_bit 4 x)" for x :: u64
    by (rule bit_word_eqI) (auto simp: bit_simps)
  moreover have "n + DFT_SHM_RECORD_ALIGN - 1 = n + 15" by simp
  ultimately have "align_record n = ucast (push_bit 4 (drop_bit 4 (of_nat (n + 15) :: u64)))"
    by (simp only: align_record_def m)
  also have "push_bit 4 (drop_bit 4 (of_nat (n + 15) :: u64)) = of_nat ((n + 15) div 16 * 16)"
  proof -
    have u: "unat (of_nat (n + 15) :: u64) = n + 15"
      using assms by (intro unat_of_nat_small) simp
    have "unat (drop_bit 4 (of_nat (n + 15) :: u64)) = (n + 15) div 16"
      by (simp only: unat_drop_bit u) simp
    moreover have "unat (of_nat ((n + 15) div 16) :: u64) = (n + 15) div 16"
      using assms by (intro unat_of_nat_small) simp
    ultimately have "drop_bit 4 (of_nat (n + 15) :: u64) = of_nat ((n + 15) div 16)"
      by (simp only: word_unat_eq_iff)
    then show ?thesis by (simp add: push_bit_eq_mult)
  qed
  finally have "align_record n = ucast (of_nat ((n + 15) div 16 * 16) :: u64)" .
  then have "unat (align_record n) = take_bit 32 (unat (of_nat ((n + 15) div 16 * 16) :: u64))"
    by (simp only: unsigned_ucast_eq) simp
  also have "unat (of_nat ((n + 15) div 16 * 16) :: u64) = (n + 15) div 16 * 16"
    using b by (intro unat_of_nat_small) simp
  also have "take_bit 32 ((n + 15) div 16 * 16) = (n + 15) div 16 * 16 mod 2 ^ 32"
    by (rule take_bit_eq_mod)
  also have "\<dots> = (n + 15) div 16 * 16"
    using b by (intro mod_less) simp
  finally show ?thesis by (simp add: align_to_def)
qed

end
