(* ===== verification/Ring_Producer.thy ===== *)
theory Ring_Producer
  imports Ring_Block
begin

text \<open>
  \<open>RingProducer\<close> (\<open>core/ipc/ring_producer.h\<close>): one operation per member function, on
  the segment and the producer's own members. Each operation here runs without
  interference; the retries that only another thread can cause (a CAS that loses, a
  \<open>head\<close> that moves between two loads) are the steps of \<open>Ring_Protocol\<close>, where every
  access of the shared words is a step of its own.
\<close>

section \<open>State\<close>

record ring_producer =
  rp_pid :: u32
  rp_tid :: u32
  rp_slot :: "nat option"  \<comment> \<open>\<open>block_\<close> and \<open>data_\<close>; \<open>None\<close> is \<open>data_ == nullptr\<close>\<close>
  rp_epoch :: u32
  rp_used :: nat
  rp_claim_ns :: u64
  rp_writing :: bool
  rp_taken :: u64

record reservation =
  rs_slot :: nat
  rs_offset :: nat
  rs_epoch :: u32
  rs_length :: u32

definition new_producer :: "u32 \<Rightarrow> u32 \<Rightarrow> ring_producer" where
  "new_producer pid tid = \<lparr>rp_pid = pid, rp_tid = tid, rp_slot = None, rp_epoch = 0,
     rp_used = 0, rp_claim_ns = 0, rp_writing = False, rp_taken = 0\<rparr>"

abbreviation view :: "segment \<Rightarrow> ring_view" where
  "view seg \<equiv> ring_view_of (seg_header seg)"

abbreviation block_at :: "segment \<Rightarrow> nat \<Rightarrow> block_control" where
  "block_at seg i \<equiv> seg_blocks seg ! i"

definition upd_block :: "nat \<Rightarrow> (block_control \<Rightarrow> block_control) \<Rightarrow> segment \<Rightarrow> segment" where
  "upd_block i f seg = seg\<lparr>seg_blocks := (seg_blocks seg)[i := f (seg_blocks seg ! i)]\<rparr>"

definition upd_data :: "nat \<Rightarrow> (byte list \<Rightarrow> byte list) \<Rightarrow> segment \<Rightarrow> segment" where
  "upd_data i f seg = seg\<lparr>seg_data := (seg_data seg)[i := f (seg_data seg ! i)]\<rparr>"

lemma upd_sel [simp]:
  "seg_header (upd_block i f seg) = seg_header seg"
  "seg_header (upd_data i g seg) = seg_header seg"
  "seg_data (upd_block i f seg) = seg_data seg"
  "seg_blocks (upd_data i g seg) = seg_blocks seg"
  "length (seg_blocks (upd_block i f seg)) = length (seg_blocks seg)"
  "length (seg_data (upd_data i g seg)) = length (seg_data seg)"
  by (simp_all add: upd_block_def upd_data_def)

lemma upd_block_data_id [simp]:
  "(upd_block i f seg)\<lparr>seg_data := seg_data seg\<rparr> = upd_block i f seg"
  by (simp add: upd_block_def)

lemma upd_block_nth [simp]:
  "i < length (seg_blocks seg) \<Longrightarrow>
   seg_blocks (upd_block i f seg) ! j =
     (if j = i then f (seg_blocks seg ! i) else seg_blocks seg ! j)"
  by (simp add: upd_block_def)

lemma upd_data_nth [simp]:
  "i < length (seg_data seg) \<Longrightarrow>
   seg_data (upd_data i g seg) ! j = (if j = i then g (seg_data seg ! i) else seg_data seg ! j)"
  by (simp add: upd_data_def)

section \<open>Operations\<close>

definition drop_blk :: "ring_producer \<Rightarrow> ring_producer" where
  "drop_blk p = p\<lparr>rp_slot := None, rp_writing := False\<rparr>"

definition holding :: "ring_producer \<Rightarrow> bool" where
  "holding p \<longleftrightarrow> rp_slot p \<noteq> None"

definition claim :: "u64 \<Rightarrow> segment \<times> ring_producer \<Rightarrow> bool \<times> segment \<times> ring_producer" where
  "claim now st = (case st of (seg, p) \<Rightarrow>
     let seq = head (seg_header seg); i = block_index (view seg) seq; ep = epoch (view seg) seq
     in if armed (block_at seg i) \<noteq> ucast ep then (False, seg, p)
        else
          (True,
           upd_block i (\<lambda>b. b\<lparr>claim_ns := now, owner_pid := rp_pid p, owner_tid := rp_tid p,
               owner := owner_word ep SHM_OWNER_IDLE\<rparr>)
             (seg\<lparr>seg_header := (seg_header seg)\<lparr>head := seq + 1\<rparr>\<rparr>),
           p\<lparr>rp_claim_ns := now, rp_epoch := ep, rp_slot := Some i, rp_used := 0\<rparr>))"

definition begin_write :: "segment \<times> ring_producer \<Rightarrow> bool \<times> segment \<times> ring_producer" where
  "begin_write st = (case st of (seg, p) \<Rightarrow>
     if rp_writing p then (True, seg, p)
     else let i = the (rp_slot p) in
       if owner (block_at seg i) = owner_word (rp_epoch p) SHM_OWNER_IDLE then
         (True, upd_block i (\<lambda>b. b\<lparr>owner := owner_word (rp_epoch p) SHM_OWNER_WRITING\<rparr>) seg,
          p\<lparr>rp_writing := True\<rparr>)
       else (False, seg, p\<lparr>rp_taken := rp_taken p + 1\<rparr>))"

definition end_write :: "segment \<times> ring_producer \<Rightarrow> segment \<times> ring_producer" where
  "end_write st = (case st of (seg, p) \<Rightarrow>
     (upd_block (the (rp_slot p)) (\<lambda>b. b\<lparr>owner := owner_word (rp_epoch p) SHM_OWNER_IDLE\<rparr>) seg,
      p\<lparr>rp_writing := False\<rparr>))"

definition publish :: "segment \<times> ring_producer \<Rightarrow> segment \<times> ring_producer" where
  "publish st = (case st of (seg, p) \<Rightarrow>
     (case rp_slot p of
        None \<Rightarrow> (seg, p)
      | Some i \<Rightarrow>
         (case begin_write (seg, p) of
            (False, seg', p') \<Rightarrow> (seg', drop_blk p')
          | (True, seg', p') \<Rightarrow>
             let size = rv_block_size (view seg');
                 seg1 = (if rp_used p' < unat size
                   then upd_data i (write_pad (rp_used p') (rp_epoch p')
                          (size - of_nat (rp_used p')) (rp_pid p')) seg'
                   else seg');
                 seg2 = upd_block i (\<lambda>b. b\<lparr>committed := published_word (rp_epoch p') size\<rparr>) seg1;
                 seg3 = upd_block i (\<lambda>b. b\<lparr>owner := owner_word (rp_epoch p') SHM_OWNER_PUBLISHED\<rparr>) seg2
             in (seg3, drop_blk p'))))"

definition flush :: "segment \<times> ring_producer \<Rightarrow> segment \<times> ring_producer" where
  "flush st = publish st"

definition flush_if_older ::
  "u64 \<Rightarrow> u64 \<Rightarrow> segment \<times> ring_producer \<Rightarrow> bool \<times> segment \<times> ring_producer" where
  "flush_if_older now_ns max_age_ns st = (case st of (seg, p) \<Rightarrow>
     if rp_slot p = None \<or> now_ns - rp_claim_ns p < max_age_ns then (False, seg, p)
     else (True, publish (seg, p)))"

text \<open>
  The loop of \<open>try_reserve\<close>: find a block that is held, writable and has room.
\<close>

partial_function (option) acquire_block ::
  "u64 \<Rightarrow> nat \<Rightarrow> segment \<times> ring_producer \<Rightarrow> (bool \<times> segment \<times> ring_producer) option" where
  "acquire_block now len st =
     (let r = (if rp_slot (snd st) = None \<or>
                  rp_used (snd st) + len > unat (rv_block_size (view (fst st)))
               then claim now (publish st) else (True, st))
      in if \<not> fst r then Some (False, snd r)
         else let w = begin_write (snd r) in
           if fst w then Some (True, snd w)
           else acquire_block now len (fst (snd w), drop_blk (snd (snd w))))"

definition try_reserve ::
  "u64 \<Rightarrow> nat \<Rightarrow> ShmRecordKind \<Rightarrow> segment \<times> ring_producer
     \<Rightarrow> (ShmReserveResult \<times> reservation option \<times> segment \<times> ring_producer) option" where
  "try_reserve now payload_bytes kind st =
     (if payload_bytes > DFT_SHM_MAX_RECORD_LENGTH - sizeof_RecordHeader
      then Some (TOO_LARGE, None, st)
      else let len = align_record (sizeof_RecordHeader + payload_bytes) in
        if len > rv_block_size (view (fst st)) then Some (TOO_LARGE, None, st)
        else (case acquire_block now (unat len) st of
            None \<Rightarrow> None
          | Some (False, st') \<Rightarrow> Some (FULL, None, st')
          | Some (True, seg, p) \<Rightarrow>
             let i = the (rp_slot p);
                 seg' = upd_data i (write_header (rp_used p)
                   \<lparr>rh_word = pack_record_word (rp_epoch p) len (record_state_code SHM_RECORD_PAD),
                    rh_pid = rp_pid p, rh_kind = record_kind_code kind, rh_flags = 0\<rparr>) seg
             in Some (OK,
                  Some \<lparr>rs_slot = i, rs_offset = rp_used p, rs_epoch = rp_epoch p, rs_length = len\<rparr>,
                  seg', p\<lparr>rp_used := rp_used p + unat len\<rparr>)))"

text \<open>The caller's copy into the reserved payload.\<close>

definition fill_payload :: "reservation \<Rightarrow> byte list \<Rightarrow> segment \<Rightarrow> segment" where
  "fill_payload r bs seg =
     upd_data (rs_slot r) (put_at (rs_offset r + sizeof_RecordHeader) bs) seg"

definition commit :: "reservation \<Rightarrow> segment \<times> ring_producer \<Rightarrow> segment \<times> ring_producer" where
  "commit r st = (case st of (seg, p) \<Rightarrow>
     end_write
       (upd_data (rs_slot r) (store_word (rs_offset r)
          (pack_record_word (rs_epoch r) (rs_length r) (record_state_code SHM_RECORD_COMMITTED))) seg,
        p))"

text \<open>Reserve, copy, commit: one record pushed.\<close>

definition push_record ::
  "u64 \<Rightarrow> ShmRecordKind \<Rightarrow> byte list \<Rightarrow> segment \<times> ring_producer
     \<Rightarrow> (ShmReserveResult \<times> segment \<times> ring_producer) option" where
  "push_record now kind bs st =
     (case try_reserve now (length bs) kind st of
        None \<Rightarrow> None
      | Some (OK, Some r, seg, p) \<Rightarrow> Some (OK, commit r (fill_payload r bs seg, p))
      | Some (res, _, st') \<Rightarrow> Some (res, st'))"

section \<open>Waiting for room\<close>

text \<open>
  \<open>reserve\<close>: retries while the ring is full. Between two attempts other threads run:
  \<open>env n\<close> is what they do to the segment before attempt \<open>n\<close>, \<open>clock n\<close> is the monotonic
  clock during it. The clock is compared with the deadline after every sixteenth attempt.
\<close>

type_synonym reserve_result =
  "ShmReserveResult \<times> reservation option \<times> segment \<times> ring_producer"

partial_function (option) reserve_loop ::
  "(nat \<Rightarrow> u64) \<Rightarrow> (nat \<Rightarrow> segment \<Rightarrow> segment) \<Rightarrow> u64 \<Rightarrow> nat \<Rightarrow> ShmRecordKind \<Rightarrow> nat
     \<Rightarrow> segment \<times> ring_producer \<Rightarrow> reserve_result option" where
  "reserve_loop clock env deadline payload_bytes kind attempt st =
     (case try_reserve (clock attempt) payload_bytes kind (env attempt (fst st), snd st) of
        None \<Rightarrow> None
      | Some (res, r, st') \<Rightarrow>
          if res \<noteq> FULL \<or> (attempt mod 16 = 15 \<and> clock attempt \<ge> deadline)
          then Some (res, r, st')
          else reserve_loop clock env deadline payload_bytes kind (Suc attempt) st')"

definition reserve ::
  "u64 \<Rightarrow> (nat \<Rightarrow> u64) \<Rightarrow> (nat \<Rightarrow> segment \<Rightarrow> segment) \<Rightarrow> nat \<Rightarrow> ShmRecordKind \<Rightarrow> u64
     \<Rightarrow> segment \<times> ring_producer \<Rightarrow> reserve_result option" where
  "reserve now clock env payload_bytes kind wait_ns st =
     (case try_reserve now payload_bytes kind st of
        None \<Rightarrow> None
      | Some (res, r, st') \<Rightarrow>
          if res \<noteq> FULL \<or> wait_ns = 0 then Some (res, r, st')
          else reserve_loop clock env (now + wait_ns) payload_bytes kind 0 st')"

text \<open>Slots are indices of the control area.\<close>

definition slots_ok :: "segment \<Rightarrow> bool" where
  "slots_ok seg \<longleftrightarrow> (\<forall>seq. block_index (view seg) seq < length (seg_blocks seg))"

definition between_calls :: "ring_producer \<Rightarrow> bool" where
  "between_calls p \<longleftrightarrow> (rp_writing p \<longrightarrow> rp_slot p \<noteq> None)"

lemma slots_ok_upd [simp]:
  "slots_ok (upd_block i f seg) = slots_ok seg" "slots_ok (upd_data i g seg) = slots_ok seg"
  by (simp_all add: slots_ok_def)

lemma begin_write_keeps:
  assumes "begin_write (seg, p) = (ok, seg', p')"
  shows "slots_ok seg' = slots_ok seg" "rp_slot p' = rp_slot p"
    "seg_header seg' = seg_header seg" "ok \<Longrightarrow> rp_writing p'"
  using assms by (auto simp: begin_write_def Let_def split: if_splits)

lemma publish_keeps:
  assumes "publish (seg, p) = (seg', p')" "between_calls p"
  shows "slots_ok seg' = slots_ok seg" "rp_slot p' = None" "\<not> rp_writing p'"
    "seg_header seg' = seg_header seg"
  using assms begin_write_keeps
  by (auto simp: publish_def drop_blk_def between_calls_def Let_def
      split: option.splits prod.splits bool.splits if_splits)

lemma claim_then_write:
  assumes "claim now (seg, p) = (True, seg', p')" "slots_ok seg" "\<not> rp_writing p"
  shows "fst (begin_write (seg', p'))" "slots_ok seg'"
  using assms by (auto simp: claim_def begin_write_def Let_def slots_ok_def ring_view_of_def
      split: if_splits)

lemma claim_keeps:
  assumes "claim now (seg, p) = (ok, seg', p')" "\<not> rp_writing p"
  shows "slots_ok seg' = slots_ok seg" "\<not> rp_writing p'" "\<not> ok \<Longrightarrow> p' = p"
  using assms by (auto simp: claim_def Let_def slots_ok_def ring_view_of_def split: if_splits)

lemma acquire_fresh:
  assumes "slots_ok (fst st)" "rp_slot (snd st) = None \<or>
      rp_used (snd st) + n > unat (rv_block_size (view (fst st)))" "between_calls (snd st)"
  shows "\<exists>ok seg p. acquire_block now n st = Some (ok, seg, p) \<and> slots_ok seg \<and>
    (\<not> ok \<longrightarrow> between_calls p)"
proof -
  obtain seg0 p0 where st: "st = (seg0, p0)" by (cases st)
  obtain seg1 p1 where pub: "publish (seg0, p0) = (seg1, p1)" by (cases "publish (seg0, p0)")
  note pk = publish_keeps[OF pub] 
  have p1: "slots_ok seg1" "rp_slot p1 = None" "\<not> rp_writing p1"
    using pk assms by (simp_all add: st)
  obtain ok seg2 p2 where cl: "claim now (seg1, p1) = (ok, seg2, p2)"
    by (cases "claim now (seg1, p1)")
  note ck = claim_keeps[OF cl p1(3)]
  show ?thesis
  proof (cases ok)
    case True
    then have w: "fst (begin_write (seg2, p2))"
      using claim_then_write(1)[OF _ p1(1,3)] cl by simp
    obtain seg3 p3 where b: "begin_write (seg2, p2) = (True, seg3, p3)"
      using w by (cases "begin_write (seg2, p2)") auto
    have "acquire_block now n st = Some (True, seg3, p3)"
      using assms(2) pub cl True b by (subst acquire_block.simps) (simp add: Let_def st)
    then show ?thesis using begin_write_keeps(1)[OF b] ck(1) p1(1)
      by (intro exI[of _ True] exI[of _ seg3] exI[of _ p3]) simp
  next
    case False
    then have "acquire_block now n st = Some (False, seg2, p2)"
      using assms(2) pub cl by (subst acquire_block.simps) (simp add: Let_def st)
    then show ?thesis using ck p1 False
      by (intro exI[of _ False] exI[of _ seg2] exI[of _ p2]) (simp add: between_calls_def)
  qed
qed

lemma acquire_total:
  assumes "slots_ok (fst st)" "between_calls (snd st)"
  shows "\<exists>ok seg p. acquire_block now n st = Some (ok, seg, p) \<and> slots_ok seg \<and>
    (\<not> ok \<longrightarrow> between_calls p)"
proof (cases "rp_slot (snd st) = None \<or> rp_used (snd st) + n > unat (rv_block_size (view (fst st)))")
  case True
  then show ?thesis by (rule acquire_fresh[OF assms(1) _ assms(2)])
next
  case False
  then obtain i where held: "rp_slot (snd st) = Some i"
    "\<not> rp_used (snd st) + n > unat (rv_block_size (view (fst st)))" by auto
  obtain ok seg1 p1 where b: "begin_write st = (ok, seg1, p1)" by (cases "begin_write st")
  then have b': "begin_write (fst st, snd st) = (ok, seg1, p1)" by simp
  note bk = begin_write_keeps[OF b']
  show ?thesis
  proof (cases ok)
    case True
    then have "acquire_block now n st = Some (True, seg1, p1)"
      using held b by (subst acquire_block.simps) (simp add: Let_def)
    then show ?thesis using bk(1) assms(1)
      by (intro exI[of _ True] exI[of _ seg1] exI[of _ p1]) simp
  next
    case False
    then have "acquire_block now n st = acquire_block now n (seg1, drop_blk p1)"
      using held b by (subst acquire_block.simps) (simp add: Let_def)
    moreover have "slots_ok seg1" using bk(1) assms(1) by simp
    ultimately show ?thesis
      using acquire_fresh[of "(seg1, drop_blk p1)" n now] by (simp add: drop_blk_def between_calls_def)
  qed
qed

text \<open>A reservation attempt returns whatever other threads did to the owner words.\<close>

lemma try_reserve_total:
  assumes "slots_ok seg" "between_calls p"
  shows "\<exists>res r seg' p'. try_reserve now n kind (seg, p) = Some (res, r, seg', p') \<and>
    (res = FULL \<longrightarrow> slots_ok seg' \<and> between_calls p')"
proof -
  obtain ok sg q where a: "acquire_block now (unat (align_record (16 + n))) (seg, p) =
      Some (ok, sg, q)" "slots_ok sg" "\<not> ok \<longrightarrow> between_calls q"
    using acquire_total[of "(seg, p)" now "unat (align_record (16 + n))"] assms by auto
  then show ?thesis by (cases ok) (auto simp: try_reserve_def Let_def)
qed

lemma reserve_loop_returns:
  assumes "slots_ok seg" "between_calls p" "\<And>i sg. slots_ok sg \<Longrightarrow> slots_ok (env i sg)"
    and "attempt \<le> stop" "stop mod 16 = 15" "clock stop \<ge> deadline"
  shows "\<exists>res r st'. reserve_loop clock env deadline n kind attempt (seg, p) = Some (res, r, st')"
  using assms(1,2,4)
proof (induction "stop - attempt" arbitrary: attempt seg p)
  case 0
  then have e: "attempt = stop" by simp
  obtain res r seg' p' where "try_reserve (clock attempt) n kind (env attempt seg, p) =
      Some (res, r, seg', p')"
    using try_reserve_total[OF assms(3)[OF 0(2)] 0(3)] by blast
  then show ?case using assms(5,6) e by (subst reserve_loop.simps) simp
next
  case (Suc k)
  obtain res r seg' p' where t: "try_reserve (clock attempt) n kind (env attempt seg, p) =
      Some (res, r, seg', p')" "res = FULL \<longrightarrow> slots_ok seg' \<and> between_calls p'"
    using try_reserve_total[OF assms(3)[OF Suc.prems(1)] Suc.prems(2)] by blast
  have "k = stop - Suc attempt" "Suc attempt \<le> stop" using Suc.hyps(2) by simp_all
  from Suc.hyps(1)[OF this(1) _ _ this(2), of seg' p'] t
  show ?case by (subst reserve_loop.simps) auto
qed

lemma reserve_total:
  assumes "slots_ok seg" "between_calls p" "\<And>i sg. slots_ok sg \<Longrightarrow> slots_ok (env i sg)"
    and "\<And>i. i \<ge> late \<Longrightarrow> clock i \<ge> now + wait_ns"
  shows "\<exists>res r st'. reserve now clock env n kind wait_ns (seg, p) = Some (res, r, st')"
proof -
  obtain res r seg' p' where t: "try_reserve now n kind (seg, p) = Some (res, r, seg', p')"
    "res = FULL \<longrightarrow> slots_ok seg' \<and> between_calls p'"
    using try_reserve_total[OF assms(1,2)] by blast
  have "(16 * late + 15) mod 16 = 15" "late \<le> 16 * late + 15" by simp_all
  with t reserve_loop_returns[of seg' p' env 0 "16 * late + 15" "now + wait_ns" clock n kind] assms(3,4)
  show ?thesis by (simp add: reserve_def)
qed


definition demo_segment :: segment where
  "demo_segment = format (replicate 2 (replicate 4096 0)) 2 4096"

lemma demo_slots: "slots_ok demo_segment"
proof -
  have "pow2 2" by (simp add: pow2_def)
  from block_index_bound[OF this] show ?thesis
    by (simp add: slots_ok_def demo_segment_def format_view format_sel)
qed


end
