(* ===== verification/Ring_Consumer.thy ===== *)
theory Ring_Consumer
  imports Ring_Producer
begin

text \<open>
  The consumer's half of the ring (\<open>service/pipeline/block_tracker.h\<close>):
  \<open>BlockTracker\<close>, which completes and releases blocks in order, and
  \<open>ParallelBlockClaimer\<close>, which hands blocks out to several drain threads, takes over
  blocks that are held too long and lets the tail pass blocks released out of order. As in
  \<open>Ring_Producer\<close> an operation runs without interference here.
\<close>

section \<open>BlockTracker\<close>

record block_tracker =
  bt_tail :: u64
  bt_verify :: bool
  bt_corrupt :: u64
  bt_bad_word :: u64
  bt_bad_seq :: u64
  bt_bad_offset :: nat

definition new_tracker :: "segment \<Rightarrow> bool \<Rightarrow> block_tracker" where
  "new_tracker seg verify = \<lparr>bt_tail = tail (seg_header seg), bt_verify = verify,
     bt_corrupt = 0, bt_bad_word = 0, bt_bad_seq = 0, bt_bad_offset = 0\<rparr>"

definition tracker_verify :: "segment \<Rightarrow> u64 \<Rightarrow> block_tracker \<Rightarrow> bool \<times> block_tracker" where
  "tracker_verify seg seq bt =
     (case verify_block (unat (rv_block_size (view seg))) (epoch (view seg) seq)
        (seg_data seg ! block_index (view seg) seq) of
        None \<Rightarrow> (True, bt)
      | Some (word, offset) \<Rightarrow>
          (False, bt\<lparr>bt_corrupt := bt_corrupt bt + 1, bt_bad_word := word, bt_bad_seq := seq,
             bt_bad_offset := offset\<rparr>))"

definition poll :: "segment \<Rightarrow> block_tracker \<Rightarrow> u64 option \<times> block_tracker" where
  "poll seg bt =
     (let v = view seg in
      if bt_tail bt \<ge> head (seg_header seg) then (None, bt)
      else if committed (block_at seg (block_index v (bt_tail bt))) \<noteq>
          published_word (epoch v (bt_tail bt)) (rv_block_size v) then (None, bt)
      else if bt_verify bt then
        (case tracker_verify seg (bt_tail bt) bt of
           (False, bt') \<Rightarrow> (None, bt')
         | (True, bt') \<Rightarrow> (Some (bt_tail bt), bt'))
      else (Some (bt_tail bt), bt))"

text \<open>The stores of a release, in the order of the code.\<close>

definition rearm :: "ring_view \<Rightarrow> u64 \<Rightarrow> block_control \<Rightarrow> block_control" where
  "rearm v seq b = b\<lparr>claim_ns := 0, committed := 0, owner := 0,
     armed := ucast (epoch v seq + 1)\<rparr>"

definition tracker_release ::
  "u64 \<Rightarrow> segment \<times> block_tracker \<Rightarrow> segment \<times> block_tracker" where
  "tracker_release seq st = (case st of (seg, bt) \<Rightarrow>
     let seg' = upd_block (block_index (view seg) seq) (rearm (view seg) seq) seg
     in (seg'\<lparr>seg_header := (seg_header seg')\<lparr>tail := seq + 1\<rparr>\<rparr>, bt\<lparr>bt_tail := seq + 1\<rparr>))"

definition tracker_backlog :: "segment \<Rightarrow> block_tracker \<Rightarrow> u64" where
  "tracker_backlog seg bt = head (seg_header seg) - bt_tail bt"

section \<open>ParallelBlockClaimer\<close>

record block_claimer =
  bc_next :: u64
  bc_tail :: u64
  bc_released :: "u64 list"

definition new_claimer :: "segment \<Rightarrow> block_claimer" where
  "new_claimer seg = \<lparr>bc_next = tail (seg_header seg), bc_tail = tail (seg_header seg),
     bc_released = replicate (unat (rv_block_count (view seg))) 0\<rparr>"

definition done_with :: "segment \<Rightarrow> u64 \<Rightarrow> bool" where
  "done_with seg seq \<longleftrightarrow>
     (let v = view seg; b = block_at seg (block_index v seq); ep = epoch v seq in
      armed b \<noteq> ucast ep \<or> committed b = claimed_word ep (rv_block_size v) \<or>
      owner b = owner_word ep SHM_OWNER_TAKEN)"

text \<open>Scans run from a sequence number up to \<open>head\<close>.\<close>

function advance_from :: "segment \<Rightarrow> u64 \<Rightarrow> u64 \<Rightarrow> u64" where
  "advance_from seg lim s =
     (if s < lim \<and> done_with seg s then advance_from seg lim (s + 1) else s)"
  by pat_completeness auto
termination
  by (relation "measure (\<lambda>(_, h, s). unat h - unat s)")
    (auto simp: unat_succ_less word_less_nat_alt)

declare advance_from.simps [simp del]

definition advance :: "segment \<Rightarrow> u64 \<Rightarrow> block_claimer \<Rightarrow> u64 \<times> block_claimer" where
  "advance seg lim bc =
     (let s = advance_from seg lim (bc_next bc) in (s, bc\<lparr>bc_next := s\<rparr>))"

fun find_seq :: "(u64 \<Rightarrow> bool) \<Rightarrow> nat \<Rightarrow> u64 \<Rightarrow> u64 option" where
  "find_seq P 0 s = None"
| "find_seq P (Suc n) s = (if P s then Some s else find_seq P n (s + 1))"

text \<open>The loop \<open>for (s = first; s < head; ++s)\<close>, stopped at the first \<open>s\<close> that passes.\<close>

definition scan :: "(u64 \<Rightarrow> bool) \<Rightarrow> u64 \<Rightarrow> u64 \<Rightarrow> u64 option" where
  "scan P first lim = find_seq P (unat lim - unat first) first"

definition claimer_claim ::
  "segment \<times> block_claimer \<Rightarrow> u64 option \<times> segment \<times> block_claimer" where
  "claimer_claim st = (case st of (seg, bc) \<Rightarrow>
     let v = view seg; lim = head (seg_header seg); (s0, bc') = advance seg lim bc;
         complete = (\<lambda>s. committed (block_at seg (block_index v s)) =
           published_word (epoch v s) (rv_block_size v))
     in case scan complete s0 lim of
          None \<Rightarrow> (None, seg, bc')
        | Some s \<Rightarrow> (Some s, upd_block (block_index v s)
            (\<lambda>b. b\<lparr>committed := claimed_word (epoch v s) (rv_block_size v)\<rparr>) seg, bc'))"

text \<open>
  \<open>alive\<close> stands for \<open>kill(pid, 0)\<close>: whether the process exists; a pid of 0 counts as
  alive.
\<close>

definition claimer_alive :: "(u32 \<Rightarrow> bool) \<Rightarrow> u32 \<Rightarrow> bool" where
  "claimer_alive exists_pid pid \<longleftrightarrow> pid = 0 \<or> exists_pid pid"

definition can_take :: "(u32 \<Rightarrow> bool) \<Rightarrow> segment \<Rightarrow> u64 \<Rightarrow> u64 \<Rightarrow> bool" where
  "can_take exists_pid seg older_than s \<longleftrightarrow>
     (let v = view seg; b = block_at seg (block_index v s); ep = epoch v s in
      (owner b = owner_word ep SHM_OWNER_IDLE \<or> owner b = owner_word ep SHM_OWNER_WRITING) \<and>
      \<not> (claim_ns b = 0 \<or> claim_ns b > older_than) \<and>
      \<not> (owner b = owner_word ep SHM_OWNER_WRITING \<and> claimer_alive exists_pid (owner_pid b)))"

definition take_over ::
  "(u32 \<Rightarrow> bool) \<Rightarrow> u64 \<Rightarrow> segment \<times> block_claimer
     \<Rightarrow> (u64 \<times> u32) option \<times> segment \<times> block_claimer" where
  "take_over exists_pid older_than st = (case st of (seg, bc) \<Rightarrow>
     let v = view seg; lim = head (seg_header seg); (s0, bc') = advance seg lim bc
     in case scan (can_take exists_pid seg older_than) s0 lim of
          None \<Rightarrow> (None, seg, bc')
        | Some s \<Rightarrow>
            (Some (s, owner_pid (block_at seg (block_index v s))),
             upd_block (block_index v s)
               (\<lambda>b. b\<lparr>owner := owner_word (epoch v s) SHM_OWNER_TAKEN\<rparr>) seg, bc'))"

text \<open>
  The tail moves over every block released in order; the loop stops after a lap at the
  latest when no mark is ahead of it.
\<close>

partial_function (option) advance_tail :: "ring_view \<Rightarrow> u64 list \<Rightarrow> u64 \<Rightarrow> u64 option" where
  "advance_tail v released t =
     (if released ! block_index v t > t then advance_tail v released (t + 1) else Some t)"

definition claimer_release ::
  "u64 \<Rightarrow> segment \<times> block_claimer \<Rightarrow> (segment \<times> block_claimer) option" where
  "claimer_release seq st = (case st of (seg, bc) \<Rightarrow>
     let v = view seg;
         seg' = upd_block (block_index v seq) (rearm v seq) seg;
         released = (bc_released bc)[block_index v seq := seq + 1]
     in (case advance_tail v released (bc_tail bc) of
           None \<Rightarrow> None
         | Some t \<Rightarrow>
             Some (if t = bc_tail bc then seg'
                   else seg'\<lparr>seg_header := (seg_header seg')\<lparr>tail := t\<rparr>\<rparr>,
                   bc\<lparr>bc_tail := t, bc_released := released\<rparr>)))"

definition ready_blocks :: "segment \<times> block_claimer \<Rightarrow> nat \<times> block_claimer" where
  "ready_blocks st = (case st of (seg, bc) \<Rightarrow>
     let v = view seg; lim = head (seg_header seg); (s0, bc') = advance seg lim bc
     in (length (filter (\<lambda>n. let s = of_nat n in
           committed (block_at seg (block_index v s)) =
           published_word (epoch v s) (rv_block_size v)) [unat s0..<unat lim]), bc'))"

definition claimer_backlog :: "segment \<times> block_claimer \<Rightarrow> u64" where
  "claimer_backlog st = head (seg_header (fst st)) - bc_tail (snd st)"

end
