(* ===== verification/Ring_Fifo.thy ===== *)
theory Ring_Fifo
  imports Ring_Consumer
begin

text \<open>
  The contract of the ring for one producer and one in-order consumer: a first-in
  first-out channel of records. \<open>fifo_channel\<close> states the contract, its client lemma
  says that whatever is accepted is delivered once, in order; the model of
  \<open>RingProducer\<close> and \<open>BlockTracker\<close> is shown to satisfy it, down to the bytes.
\<close>

section \<open>The interface\<close>

datatype 'i channel_op = Push 'i | Flush | Drain

text \<open>
  Run a sequence of operations; the accepted items and the delivered records, in order.
\<close>

fun run_channel ::
  "('i \<Rightarrow> 's \<Rightarrow> (bool \<times> 's) option) \<Rightarrow> ('s \<Rightarrow> 's) \<Rightarrow> ('s \<Rightarrow> ('r list \<times> 's) option)
     \<Rightarrow> 'i channel_op list \<Rightarrow> 's \<Rightarrow> ('i list \<times> 'r list \<times> 's) option" where
  "run_channel push_op flush_op drain_op [] s = Some ([], [], s)"
| "run_channel push_op flush_op drain_op (Push i # ops) s =
     (case push_op i s of None \<Rightarrow> None
      | Some (ok, s') \<Rightarrow>
         (case run_channel push_op flush_op drain_op ops s' of None \<Rightarrow> None
          | Some (acc, out, s'') \<Rightarrow> Some (if ok then i # acc else acc, out, s'')))"
| "run_channel push_op flush_op drain_op (Flush # ops) s = run_channel push_op flush_op drain_op ops (flush_op s)"
| "run_channel push_op flush_op drain_op (Drain # ops) s =
     (case drain_op s of None \<Rightarrow> None
      | Some (rs, s') \<Rightarrow>
         (case run_channel push_op flush_op drain_op ops s' of None \<Rightarrow> None
          | Some (acc, out, s'') \<Rightarrow> Some (acc, rs @ out, s'')))"

text \<open>
  \<open>room n s\<close>: the invariant, with sequence numbers left for \<open>n\<close> more operations.
\<close>

locale fifo_channel =
  fixes room :: "nat \<Rightarrow> 's \<Rightarrow> bool"
    and contents :: "'s \<Rightarrow> 'r list"
    and push_op :: "'i \<Rightarrow> 's \<Rightarrow> (bool \<times> 's) option"
    and flush_op :: "'s \<Rightarrow> 's"
    and drain_op :: "'s \<Rightarrow> ('r list \<times> 's) option"
    and carries :: "'i \<Rightarrow> 'r \<Rightarrow> bool"
  assumes push_law: "room (Suc n) s \<Longrightarrow>
      \<exists>ok s'. push_op i s = Some (ok, s') \<and> room n s' \<and>
        (if ok then \<exists>r. carries i r \<and> contents s' = contents s @ [r] else contents s' = contents s)"
    and flush_law: "room (Suc n) s \<Longrightarrow> room n (flush_op s) \<and> contents (flush_op s) = contents s"
    and drain_law: "room (Suc n) s \<Longrightarrow>
      \<exists>out s'. drain_op s = Some (out, s') \<and> room n s' \<and> contents s = out @ contents s'"
begin

lemma run_fifo:
  "room (length ops) s \<Longrightarrow>
   \<exists>acc out s' rs. run_channel push_op flush_op drain_op ops s = Some (acc, out, s') \<and> room 0 s' \<and>
     list_all2 carries acc rs \<and> contents s @ rs = out @ contents s'"
proof (induction ops arbitrary: s)
  case Nil
  then show ?case by auto
next
  case (Cons op ops)
  have r: "room (Suc (length ops)) s" using Cons.prems by simp
  show ?case
  proof (cases op)
    case (Push i)
    obtain ok s1 where p: "push_op i s = Some (ok, s1)" "room (length ops) s1"
      "if ok then \<exists>r. carries i r \<and> contents s1 = contents s @ [r] else contents s1 = contents s"
      using push_law[OF r, of i] by blast
    obtain acc out s' rs where h: "run_channel push_op flush_op drain_op ops s1 = Some (acc, out, s')"
      "room 0 s'" "list_all2 carries acc rs" "contents s1 @ rs = out @ contents s'"
      using Cons.IH[OF p(2)] by blast
    show ?thesis
    proof (cases ok)
      case True
      then obtain x where "carries i x" "contents s1 = contents s @ [x]" using p(3) by auto
      then have "list_all2 carries (i # acc) (x # rs) \<and> contents s @ (x # rs) = out @ contents s'"
        using h by auto
      then show ?thesis using Push p h True by auto
    next
      case False
      then show ?thesis using Push p h by auto
    qed
  next
    case Flush
    note f = flush_law[OF r]
    from Cons.IH[of "flush_op s"] f obtain acc out s' rs where
      "run_channel push_op flush_op drain_op ops (flush_op s) = Some (acc, out, s')" "room 0 s'"
      "list_all2 carries acc rs" "contents (flush_op s) @ rs = out @ contents s'" by auto
    then show ?thesis using Flush f by auto
  next
    case Drain
    obtain o1 s1 where d: "drain_op s = Some (o1, s1)" "room (length ops) s1"
      "contents s = o1 @ contents s1"
      using drain_law[OF r] by blast
    obtain acc out s' rs where h: "run_channel push_op flush_op drain_op ops s1 = Some (acc, out, s')"
      "room 0 s'" "list_all2 carries acc rs" "contents s1 @ rs = out @ contents s'"
      using Cons.IH[OF d(2)] by blast
    then show ?thesis using Drain d by auto
  qed
qed

lemma run_room:
  "room (length ops + n) s \<Longrightarrow> run_channel push_op flush_op drain_op ops s = Some (acc, out, s') \<Longrightarrow>
   room n s'"
proof (induction ops arbitrary: s acc out)
  case Nil
  then show ?case by simp
next
  case (Cons op ops)
  have r: "room (Suc (length ops + n)) s" using Cons.prems(1) by simp
  show ?case
  proof (cases op)
    case (Push i)
    then show ?thesis
      using Cons.prems(2) push_law[OF r, of i] Cons.IH by (auto split: option.splits prod.splits)
  next
    case Flush
    then show ?thesis using Cons.prems(2) flush_law[OF r] Cons.IH by auto
  next
    case Drain
    then show ?thesis
      using Cons.prems(2) drain_law[OF r] Cons.IH by (auto split: option.splits prod.splits)
  qed
qed

end

section \<open>The ring as a channel\<close>

text \<open>A producer and a tracker on one segment.\<close>

type_synonym channel = "segment \<times> ring_producer \<times> block_tracker"

text \<open>What a block delivers, and everything the ring still holds.\<close>

definition block_records :: "nat \<Rightarrow> u32 \<Rightarrow> byte list \<Rightarrow> drained_record list" where
  "block_records n ep blk = fst (the (for_each_record n ep False blk))"

definition held_from :: "segment \<times> ring_producer \<Rightarrow> nat" where
  "held_from st = unat (head (seg_header (fst st))) - (if holding (snd st) then 1 else 0)"

definition ring_contents :: "channel \<Rightarrow> drained_record list" where
  "ring_contents ch = (case ch of (seg, p, bt) \<Rightarrow>
     concat (map (\<lambda>q. block_records (unat (rv_block_size (view seg))) (epoch (view seg) (of_nat q))
         (seg_data seg ! block_index (view seg) (of_nat q)))
       [unat (bt_tail bt)..<held_from (seg, p)]) @
     (case rp_slot p of
        None \<Rightarrow> []
      | Some i \<Rightarrow> block_records (rp_used p) (rp_epoch p) (take (rp_used p) (seg_data seg ! i))))"

definition push_channel ::
  "u64 \<times> ShmRecordKind \<times> byte list \<Rightarrow> channel \<Rightarrow> (bool \<times> channel) option" where
  "push_channel item ch = (case (item, ch) of ((now, kind, bs), (seg, p, bt)) \<Rightarrow>
     (case push_record now kind bs (seg, p) of
        None \<Rightarrow> None
      | Some (res, seg', p') \<Rightarrow> Some (res = OK, (seg', p', bt))))"

definition flush_channel :: "channel \<Rightarrow> channel" where
  "flush_channel ch = (case ch of (seg, p, bt) \<Rightarrow>
     (case flush (seg, p) of (seg', p') \<Rightarrow> (seg', p', bt)))"

text \<open>One round of a single-threaded consumer: poll, walk, release.\<close>

definition drain_channel :: "channel \<Rightarrow> (drained_record list \<times> channel) option" where
  "drain_channel ch = (case ch of (seg, p, bt) \<Rightarrow>
     (case poll seg bt of
        (None, bt') \<Rightarrow> Some ([], (seg, p, bt'))
      | (Some seq, bt') \<Rightarrow>
          (case for_each_record (unat (rv_block_size (view seg))) (epoch (view seg) seq) False
             (seg_data seg ! block_index (view seg) seq) of
             None \<Rightarrow> None
           | Some (rs, _) \<Rightarrow>
               (case tracker_release seq (seg, bt') of (seg', bt'') \<Rightarrow> Some (rs, (seg', p, bt''))))))"

text \<open>A record carries an item: its kind, and its bytes followed by alignment slack.\<close>

definition record_carries :: "u64 \<times> ShmRecordKind \<times> byte list \<Rightarrow> drained_record \<Rightarrow> bool" where
  "record_carries item r = (case item of (now, kind, bs) \<Rightarrow>
     rh_kind (fst r) = record_kind_code kind \<and> take (length bs) (snd r) = bs \<and>
     length (snd r) < length bs + DFT_SHM_RECORD_ALIGN)"

section \<open>The refinement\<close>

definition lap :: "u32 \<Rightarrow> nat \<Rightarrow> u32" where
  "lap c q = of_nat (q div unat c + 1)"

lemma view_of_nat:
  assumes "pow2 c" "q < 2 ^ 64"
  shows "block_index (view_of c s) (of_nat q) = q mod unat c"
    "epoch (view_of c s) (of_nat q) = lap c q"
proof -
  have "unat (of_nat q :: u64) = q" using assms(2) by (intro unat_of_nat_small) simp
  then show "block_index (view_of c s) (of_nat q) = q mod unat c"
    "epoch (view_of c s) (of_nat q) = lap c q"
    using assms(1) by (simp_all only: block_index_mod epoch_div lap_def)
qed

lemma lap_next: "0 < unat c \<Longrightarrow> lap c (q + unat c) = lap c q + 1"
proof -
  assume "0 < unat c"
  then have "unat c \<noteq> 0" by (simp only: neq0_conv)
  from div_add_self2[OF this, of q] show ?thesis by (simp only: lap_def of_nat_add of_nat_1)
qed

lemma slot_inj:
  assumes "(q :: nat) mod n = q' mod n" "t \<le> q" "q < t + n" "t \<le> q'" "q' < t + n"
  shows "q = q'"
proof -
  have lt: "a < b + n \<Longrightarrow> a mod n = b mod n \<Longrightarrow> b \<le> a \<Longrightarrow> a = b" for a b :: nat
  proof (rule ccontr)
    assume a: "a < b + n" "a mod n = b mod n" "b \<le> a" "a \<noteq> b"
    then have "n dvd a - b" by (simp add: mod_eq_dvd_iff_nat)
    moreover have "0 < a - b" "a - b < n" using a by auto
    ultimately show False by (auto dest: dvd_imp_le)
  qed
  show ?thesis using lt[of q q'] lt[of q' q] assms by (cases "q \<le> q'") auto
qed

text \<open>The shape of the segment, which no operation changes.\<close>

definition ring_shape :: "u32 \<Rightarrow> u32 \<Rightarrow> segment \<Rightarrow> bool" where
  "ring_shape c s seg \<longleftrightarrow> valid_geometry c s \<and> view seg = view_of c s \<and>
     length (seg_blocks seg) = unat c \<and> length (seg_data seg) = unat c \<and>
     (\<forall>i < unat c. length (seg_data seg ! i) = unat s)"

text \<open>
  Blocks \<open>[t, e)\<close> are published with contents \<open>cs\<close>; the blocks from \<open>e\<close> to the end of the
  lap hold nothing complete, and every block of the lap from \<open>t\<close> is armed for its epoch.
\<close>

definition blocks_rel :: "u32 \<Rightarrow> u32 \<Rightarrow> nat \<Rightarrow> nat \<Rightarrow> (nat \<Rightarrow> entry list) \<Rightarrow> segment \<Rightarrow> bool" where
  "blocks_rel c s t e cs seg \<longleftrightarrow>
     (\<forall>q. t \<le> q \<and> q < t + unat c \<longrightarrow> armed (block_at seg (q mod unat c)) = ucast (lap c q)) \<and>
     (\<forall>q. t \<le> q \<and> q < e \<longrightarrow>
        committed (block_at seg (q mod unat c)) = published_word (lap c q) s \<and>
        seg_data seg ! (q mod unat c) = image (lap c q) (cs q) \<and> (\<forall>x\<in>set (cs q). entry_ok x)) \<and>
     (\<forall>q. e \<le> q \<and> q < t + unat c \<longrightarrow> committed (block_at seg (q mod unat c)) = 0)"

text \<open>The block a producer holds: block \<open>h - 1\<close>, filled with the entries \<open>cur\<close>.\<close>

definition holds_block ::
  "u32 \<Rightarrow> u32 \<Rightarrow> nat \<Rightarrow> entry list \<Rightarrow> segment \<Rightarrow> ring_producer \<Rightarrow> bool" where
  "holds_block c s e cur seg p \<longleftrightarrow>
     rp_slot p = Some (e mod unat c) \<and> rp_epoch p = lap c e \<and> \<not> rp_writing p \<and>
     rp_used p = length (image (lap c e) cur) \<and> rp_used p \<le> unat s \<and> 16 dvd rp_used p \<and>
     take (rp_used p) (seg_data seg ! (e mod unat c)) = image (lap c e) cur \<and>
     (\<forall>x\<in>set cur. entry_ok x) \<and>
     owner (block_at seg (e mod unat c)) = owner_word (lap c e) SHM_OWNER_IDLE"

definition fifo_rel ::
  "u32 \<Rightarrow> u32 \<Rightarrow> nat \<Rightarrow> nat \<Rightarrow> (nat \<Rightarrow> entry list) \<Rightarrow> entry list \<Rightarrow> channel \<Rightarrow> bool" where
  "fifo_rel c s t e cs cur ch = (case ch of (seg, p, bt) \<Rightarrow>
     ring_shape c s seg \<and> blocks_rel c s t e cs seg \<and>
     head (seg_header seg) = of_nat (if holding p then e + 1 else e) \<and>
     bt_tail bt = of_nat t \<and> t \<le> e \<and>
     (if holding p then e + 1 else e) \<le> t + unat c \<and>
     (if holding p then e + 1 else e) < 2 ^ 64 \<and>
     (if holding p then holds_block c s e cur seg p \<and> 0 < rp_used p
      else cur = [] \<and> \<not> rp_writing p))"

lemma ring_shape_upd [simp]:
  "ring_shape c s (upd_block i f seg) = ring_shape c s seg"
  by (simp add: ring_shape_def)

lemma ring_shape_upd_data:
  "ring_shape c s seg \<Longrightarrow> i < unat c \<Longrightarrow> length (g (seg_data seg ! i)) = unat s \<Longrightarrow>
   ring_shape c s (upd_data i g seg)"
  by (simp add: ring_shape_def)

lemma ring_shape_facts:
  assumes "ring_shape c s seg"
  shows "pow2 c" "0 < unat c" "unat s \<le> 2 ^ 24" "16 dvd unat s" "4096 \<le> unat s"
    "rv_block_size (view seg) = s"
proof -
  have v: "valid_geometry c s" using assms by (simp add: ring_shape_def)
  then show "pow2 c" "0 < unat c" by (simp_all add: valid_geometry_def pow2_def unat_gt_0)
  show "unat s \<le> 2 ^ 24" "4096 \<le> unat s"
    using v by (simp_all add: valid_geometry_def word_le_nat_alt)
  show "rv_block_size (view seg) = s" using assms by (simp add: ring_shape_def)
  obtain k where k: "unat s = 2 ^ k" using v by (auto simp: valid_geometry_def pow2_iff)
  have "(2::nat) ^ 12 \<le> 2 ^ k" using \<open>4096 \<le> unat s\<close> k by simp
  then have "4 \<le> k" using power_le_imp_le_exp[of "2 :: nat" 12 k] by simp
  then have "(2::nat) ^ 4 dvd 2 ^ k" by (rule le_imp_power_dvd)
  then show "16 dvd unat s" using k by simp
qed

lemma image_len_dvd: "\<forall>e\<in>set es. entry_ok e \<Longrightarrow> 16 dvd length (image ep es)"
  by (induction es) (auto simp: entry_ok_def mod_eq_0_iff_dvd)

lemma blocks_rel_published:
  assumes "blocks_rel c s t e cs seg" "t \<le> q" "q < e"
  shows "committed (block_at seg (q mod unat c)) = published_word (lap c q) s"
    "seg_data seg ! (q mod unat c) = image (lap c q) (cs q)" "\<forall>x\<in>set (cs q). entry_ok x"
  using assms unfolding blocks_rel_def by blast+

lemma blocks_rel_upd_block:
  assumes "ring_shape c s seg" "blocks_rel c s t e cs seg" "t \<le> e" "e < t + unat c"
    and "\<And>b. armed (f b) = armed b" "\<And>b. committed (f b) = committed b"
  shows "blocks_rel c s t e cs (upd_block (e mod unat c) f seg)"
proof -
  have "e mod unat c < length (seg_blocks seg)"
    using assms(1) ring_shape_facts(2)[OF assms(1)] by (simp add: ring_shape_def)
  then have "armed (block_at (upd_block (e mod unat c) f seg) j) = armed (block_at seg j)"
    "committed (block_at (upd_block (e mod unat c) f seg) j) = committed (block_at seg j)" for j
    using assms(5,6) by simp_all
  then show ?thesis using assms(2) by (simp add: blocks_rel_def)
qed

lemma blocks_rel_upd_data:
  assumes "ring_shape c s seg" "blocks_rel c s t e cs seg" "t \<le> e" "e < t + unat c"
  shows "blocks_rel c s t e cs (upd_data (e mod unat c) g seg)"
proof -
  have "q mod unat c \<noteq> e mod unat c" if "t \<le> q" "q < e" for q
    using slot_inj[of q "unat c" e t] that assms(3,4) by auto
  moreover have "e mod unat c < length (seg_data seg)"
    using assms(1) ring_shape_facts(2)[OF assms(1)] by (simp add: ring_shape_def)
  ultimately show ?thesis using assms(2) by (auto simp: blocks_rel_def)
qed

lemma blocks_rel_header: "blocks_rel c s t e cs (seg\<lparr>seg_header := h\<rparr>) = blocks_rel c s t e cs seg"
  by (simp add: blocks_rel_def)

text \<open>The records the ring holds, abstractly.\<close>

definition abs_contents :: "u32 \<Rightarrow> nat \<Rightarrow> nat \<Rightarrow> (nat \<Rightarrow> entry list) \<Rightarrow> entry list \<Rightarrow> drained_record list" where
  "abs_contents c t e cs cur =
     concat (map (\<lambda>q. delivered (lap c q) (cs q)) [t..<e]) @ delivered (lap c e) cur"

lemma block_records_image:
  "length blk = n \<Longrightarrow> blk = image ep es \<Longrightarrow> \<forall>x\<in>set es. entry_ok x \<Longrightarrow>
   block_records n ep blk = delivered ep es"
  using walk_complete[of blk ep es False] by (simp add: block_records_def)

lemma contents_abs:
  assumes "fifo_rel c s t e cs cur ch"
  shows "ring_contents ch = abs_contents c t e cs cur"
proof -
  obtain seg p bt where ch: "ch = (seg, p, bt)" by (cases ch) auto
  note r = assms[unfolded fifo_rel_def ch prod.case]
  have sh: "ring_shape c s seg" and br: "blocks_rel c s t e cs seg" using r by auto
  note sf = ring_shape_facts[OF sh]
  have v: "view seg = view_of c s" using sh by (simp add: ring_shape_def)
  have hd: "held_from (seg, p) = e"
    using r by (auto simp: held_from_def unat_of_nat_small split: if_splits)
  have t: "unat (bt_tail bt) = t"
    using r by (auto simp: unat_of_nat_small split: if_splits)
  have "block_records (unat s) (epoch (view seg) (of_nat q))
      (seg_data seg ! block_index (view seg) (of_nat q)) = delivered (lap c q) (cs q)"
    if "q \<in> set [t..<e]" for q
  proof -
    have q: "t \<le> q" "q < e" "q < 2 ^ 64" using that r by (auto split: if_splits)
    note vq = view_of_nat[OF sf(1) q(3), of s]
    have "length (seg_data seg ! (q mod unat c)) = unat s"
      using sh sf(2) by (simp add: ring_shape_def)
    then show ?thesis
      unfolding v vq using br q by (intro block_records_image) (auto simp: blocks_rel_def)
  qed
  then have m: "map (\<lambda>q. block_records (unat s) (epoch (view seg) (of_nat q))
      (seg_data seg ! block_index (view seg) (of_nat q))) [t..<e] =
      map (\<lambda>q. delivered (lap c q) (cs q)) [t..<e]"
    by (intro map_cong) auto
  have cur: "(case rp_slot p of None \<Rightarrow> []
      | Some i \<Rightarrow> block_records (rp_used p) (rp_epoch p) (take (rp_used p) (seg_data seg ! i))) =
      delivered (lap c e) cur"
  proof (cases "holding p")
    case True
    then have h: "holds_block c s e cur seg p" using r by auto
    then have f: "rp_slot p = Some (e mod unat c)" "rp_epoch p = lap c e" "rp_used p \<le> unat s"
      "take (rp_used p) (seg_data seg ! (e mod unat c)) = image (lap c e) cur"
      "\<forall>x\<in>set cur. entry_ok x"
      unfolding holds_block_def by blast+
    have "length (seg_data seg ! (e mod unat c)) = unat s"
      using sh sf(2) by (simp add: ring_shape_def)
    then have "length (take (rp_used p) (seg_data seg ! (e mod unat c))) = rp_used p"
      using f(3) by simp
    then have "block_records (rp_used p) (lap c e) (take (rp_used p) (seg_data seg ! (e mod unat c)))
        = delivered (lap c e) cur"
      using f(4,5) by (rule block_records_image)
    then show ?thesis using f(1,2) by simp
  next
    case False then show ?thesis using r by (simp add: holding_def)
  qed
  show ?thesis
    unfolding ring_contents_def ch prod.case t hd sf(6) m cur abs_contents_def by (rule refl)
qed

text \<open>The block a producer holds is always free for the lap it was claimed in.\<close>

lemma publish_rel:
  assumes "fifo_rel c s t e cs cur (seg, p, bt)" "holding p"
  shows "\<exists>seg' p' pad. publish (seg, p) = (seg', p') \<and> delivered (lap c e) pad = [] \<and>
    fifo_rel c s t (e + 1) (cs(e := cur @ pad)) [] (seg', p', bt) \<and> \<not> holding p'"
proof -
  note r = assms(1)[unfolded fifo_rel_def prod.case]
  have sh: "ring_shape c s seg" and br: "blocks_rel c s t e cs seg"
    and hb: "holds_block c s e cur seg p" and used: "0 < rp_used p"
    and lim: "t \<le> e" "e < t + unat c" "e + 1 < 2 ^ 64" "e + 1 \<le> t + unat c"
    using r assms(2) by auto
  note sf = ring_shape_facts[OF sh]
  let ?i = "e mod unat c" and ?D = "seg_data seg ! (e mod unat c)" and ?ep = "lap c e"
  let ?u = "rp_used p"
  let ?pad = "if ?u < unat s then [Hole (rp_pid p) (record_kind_code SHM_KIND_PAD) (drop (?u + 16) ?D)]
    else []"
  have il: "?i < length (seg_blocks seg)" "?i < length (seg_data seg)" "?i < unat c"
    using sh sf(2) by (simp_all add: ring_shape_def)
  have dl: "length ?D = unat s" using sh il(3) by (simp add: ring_shape_def)
  have hold: "rp_slot p = Some ?i" "rp_epoch p = ?ep" "\<not> rp_writing p"
    "?u = length (image ?ep cur)" "?u \<le> unat s" "16 dvd ?u"
    "take ?u ?D = image ?ep cur" "\<forall>x\<in>set cur. entry_ok x"
    "owner (block_at seg ?i) = owner_word ?ep SHM_OWNER_IDLE"
    using hb unfolding holds_block_def by blast+
  have room16: "?u + 16 \<le> unat s" "unat s - ?u < 2 ^ 24" if "?u < unat s"
  proof -
    have "16 dvd unat s - ?u" using sf(4) hold(6) by (rule dvd_diff_nat)
    moreover have "0 < unat s - ?u" using that by simp
    ultimately have "16 \<le> unat s - ?u" by (rule dvd_imp_le)
    then show "?u + 16 \<le> unat s" by linarith
    have "unat s - ?u < unat s" using used that by (intro diff_less) simp_all
    then show "unat s - ?u < 2 ^ 24" using sf(3) by (rule less_le_trans)
  qed
  define D' where "D' = (if ?u < unat s
    then write_pad ?u ?ep (s - of_nat ?u) (rp_pid p) ?D else ?D)"
  have sub: "s - of_nat ?u = of_nat (unat s - ?u)" if "?u < unat s"
    using that by (simp add: of_nat_diff)
  have D': "D' = image ?ep (cur @ ?pad)"
  proof (cases "?u < unat s")
    case True
    have "?u + 16 \<le> length ?D" "length ?D - ?u < 2 ^ 24"
      unfolding dl by (rule room16[OF True])+
    from write_pad_image[OF hold(7) hold(4)[symmetric] this, of "rp_pid p"]
    show ?thesis unfolding D'_def sub[OF True] dl by (simp only: True if_True)
  next
    case False
    then have "?u = unat s" using hold(5) by simp
    then show ?thesis using hold(7) dl by (simp add: D'_def)
  qed
  have okpad: "\<forall>x\<in>set (cur @ ?pad). entry_ok x"
  proof -
    have "entry_ok (Hole (rp_pid p) (record_kind_code SHM_KIND_PAD) (drop (?u + 16) ?D))"
      if u: "?u < unat s"
    proof -
      have "entry_len (Hole (rp_pid p) (record_kind_code SHM_KIND_PAD) (drop (?u + 16) ?D))
          = unat s - ?u"
        using room16(1)[OF u] by (simp only: entry_len_def entry.sel length_drop dl) simp
      moreover have "(unat s - ?u) mod 16 = 0"
        using sf(4) hold(6) by (simp only: mod_eq_0_iff_dvd dvd_diff_nat)
      ultimately show ?thesis using room16(2)[OF u] by (simp add: entry_ok_def)
    qed
    then show ?thesis using hold(8) by auto
  qed
  define seg' where "seg' = upd_block ?i (\<lambda>b. b\<lparr>owner := owner_word ?ep SHM_OWNER_PUBLISHED\<rparr>)
    (upd_block ?i (\<lambda>b. b\<lparr>committed := published_word ?ep s\<rparr>)
     (upd_data ?i (\<lambda>_. D') (upd_block ?i (\<lambda>b. b\<lparr>owner := owner_word ?ep SHM_OWNER_WRITING\<rparr>) seg)))"
  define p' where "p' = drop_blk (p\<lparr>rp_writing := True\<rparr>)"
  have upd_same: "upd_data ?i (\<lambda>_. D') x = x" if "seg_data x = seg_data seg" "\<not> ?u < unat s" for x
    using that il(2) by (simp add: D'_def upd_data_def list_update_id)
  have pub: "publish (seg, p) = (seg', p')"
    using hold(1,2,3,9) sf(6) il upd_same
    by (simp add: publish_def begin_write_def Let_def seg'_def p'_def D'_def upd_data_def)
  have sh': "ring_shape c s seg'"
  proof -
    have "length D' = unat s"
      using dl room16 by (simp add: D'_def write_pad_def write_header_def length_put_at)
    then show ?thesis using sh il by (simp add: seg'_def ring_shape_upd_data)
  qed
  have ne: "q mod unat c \<noteq> ?i" if "t \<le> q" "q < t + unat c" "q \<noteq> e" for q
    using slot_inj[of q "unat c" e t] that lim by auto
  have b': "block_at seg' j = (if j = ?i then (block_at seg ?i)\<lparr>committed := published_word ?ep s,
      owner := owner_word ?ep SHM_OWNER_PUBLISHED\<rparr> else block_at seg j)" for j
    using il by (simp add: seg'_def)
  have d': "seg_data seg' ! j = (if j = ?i then D' else seg_data seg ! j)" for j
    using il by (simp add: seg'_def)
  have br': "blocks_rel c s t (e + 1) (cs(e := cur @ ?pad)) seg'"
    unfolding blocks_rel_def
  proof (intro conjI allI impI)
    fix q assume q: "t \<le> q \<and> q < t + unat c"
    moreover have "armed (block_at seg' j) = armed (block_at seg j)" for j by (simp add: b')
    ultimately show "armed (block_at seg' (q mod unat c)) = ucast (lap c q)"
      using br by (simp add: blocks_rel_def)
  next
    fix q assume q: "e + 1 \<le> q \<and> q < t + unat c"
    then show "committed (block_at seg' (q mod unat c)) = 0"
      using br ne[of q] lim by (auto simp: b' blocks_rel_def)
  next
    fix q assume q: "t \<le> q \<and> q < e + 1"
    show "committed (block_at seg' (q mod unat c)) = published_word (lap c q) s"
      using br ne[of q] lim q by (cases "q = e") (auto simp: b' blocks_rel_def)
    show "seg_data seg' ! (q mod unat c) = image (lap c q) ((cs(e := cur @ ?pad)) q)"
      using br ne[of q] lim q D' by (cases "q = e") (auto simp: d' blocks_rel_def)
    show "\<forall>x\<in>set ((cs(e := cur @ ?pad)) q). entry_ok x"
      using br q okpad by (cases "q = e") (auto simp: blocks_rel_def)
  qed
  have "head (seg_header seg') = of_nat (e + 1)" using r assms(2) by (simp add: seg'_def)
  moreover have "\<not> holding p'" "\<not> rp_writing p'"
    by (simp_all add: p'_def drop_blk_def holding_def)
  ultimately have "fifo_rel c s t (e + 1) (cs(e := cur @ ?pad)) [] (seg', p', bt)"
    using sh' br' lim r by (simp add: fifo_rel_def)
  then show ?thesis using pub \<open>\<not> holding p'\<close> by (intro exI[of _ seg'] exI[of _ p'] exI[of _ ?pad]) simp
qed

lemma claim_full:
  assumes "fifo_rel c s t e cs cur (seg, p, bt)" "\<not> holding p" "e = t + unat c"
  shows "claim now (seg, p) = (False, seg, p)"
proof -
  note r = assms(1)[unfolded fifo_rel_def prod.case]
  have sh: "ring_shape c s seg" and br: "blocks_rel c s t e cs seg" using r by auto
  note sf = ring_shape_facts[OF sh]
  have v: "view seg = view_of c s" using sh by (simp add: ring_shape_def)
  have e: "e < 2 ^ 64" "head (seg_header seg) = of_nat e" using r assms(2) by auto
  note vq = view_of_nat[OF sf(1) e(1), of s]
  have "e mod unat c = t mod unat c" using assms(3) by simp
  moreover have "armed (block_at seg (t mod unat c)) = ucast (lap c t)"
    using br sf(2) by (simp add: blocks_rel_def)
  moreover have "lap c e \<noteq> lap c t" using lap_next[OF sf(2), of t] assms(3) by simp
  ultimately show ?thesis
    by (simp only: claim_def prod.case Let_def v e(2) vq if_True ucast_u32_u64_inj
        not_sym simp_thms)
qed

lemma claim_free:
  assumes "fifo_rel c s t e cs cur (seg, p, bt)" "\<not> holding p" "e < t + unat c" "e + 1 < 2 ^ 64"
  shows "\<exists>seg' p'. claim now (seg, p) = (True, seg', p') \<and> ring_shape c s seg' \<and>
    blocks_rel c s t e cs seg' \<and> head (seg_header seg') = of_nat (e + 1) \<and>
    holds_block c s e [] seg' p' \<and> rp_used p' = 0 \<and> rp_pid p' = rp_pid p"
proof -
  note r = assms(1)[unfolded fifo_rel_def prod.case]
  have sh: "ring_shape c s seg" and br: "blocks_rel c s t e cs seg" and te: "t \<le> e"
    and nw: "\<not> rp_writing p" using r assms(2) by auto
  note sf = ring_shape_facts[OF sh]
  have v: "view seg = view_of c s" using sh by (simp add: ring_shape_def)
  have e: "e < 2 ^ 64" "head (seg_header seg) = of_nat e" using r assms(2) by auto
  note vq = view_of_nat[OF sf(1) e(1), of s]
  let ?i = "e mod unat c" and ?ep = "lap c e"
  let ?f = "\<lambda>b. b\<lparr>claim_ns := now, owner_pid := rp_pid p, owner_tid := rp_tid p,
    owner := owner_word ?ep SHM_OWNER_IDLE\<rparr>"
  let ?seg0 = "seg\<lparr>seg_header := (seg_header seg)\<lparr>head := of_nat e + 1\<rparr>\<rparr>"
  let ?seg' = "upd_block ?i ?f ?seg0"
  let ?p' = "p\<lparr>rp_claim_ns := now, rp_epoch := ?ep, rp_slot := Some ?i, rp_used := 0\<rparr>"
  have "armed (block_at seg ?i) = ucast ?ep" using br te assms(3) by (simp add: blocks_rel_def)
  then have c: "claim now (seg, p) = (True, ?seg', ?p')"
    by (simp only: claim_def prod.case Let_def v e(2) vq simp_thms if_False)
  have sh0: "ring_shape c s ?seg0"
    using sh by (simp add: ring_shape_def ring_view_of_def)
  have "blocks_rel c s t e cs ?seg0" using br by (simp add: blocks_rel_header)
  then have br': "blocks_rel c s t e cs ?seg'"
    by (rule blocks_rel_upd_block[OF sh0 _ te assms(3)]) simp_all
  have "?i < length (seg_blocks ?seg0)" using sh0 sf(2) by (simp add: ring_shape_def)
  then have "holds_block c s e [] ?seg' ?p'" using nw by (simp add: holds_block_def)
  then show ?thesis using c sh0 br' by (intro exI[of _ ?seg'] exI[of _ ?p']) simp
qed

text \<open>
  A record pushed into a held block with room for it: \<open>begin_write\<close>, the header, the
  payload, the committing store and \<open>end_write\<close>.
\<close>

definition push_into ::
  "u32 \<Rightarrow> ShmRecordKind \<Rightarrow> byte list \<Rightarrow> nat \<Rightarrow> u32 \<Rightarrow> segment \<times> ring_producer \<Rightarrow> segment \<times> ring_producer"
where
  "push_into len kind bs i ep st = (case begin_write st of (_, seg, p) \<Rightarrow>
     let r = \<lparr>rs_slot = i, rs_offset = rp_used p, rs_epoch = ep, rs_length = len\<rparr>;
         seg1 = upd_data i (write_header (rp_used p)
           \<lparr>rh_word = pack_record_word ep len (record_state_code SHM_RECORD_PAD),
            rh_pid = rp_pid p, rh_kind = record_kind_code kind, rh_flags = 0\<rparr>) seg
     in commit r (fill_payload r bs seg1, p\<lparr>rp_used := rp_used p + unat len\<rparr>))"

lemma push_into_rel:
  assumes sh: "ring_shape c s seg" and br: "blocks_rel c s t e cs seg"
    and te: "t \<le> e" "e < t + unat c" and hb: "holds_block c s e cur seg p"
    and len: "16 + length bs \<le> unat len" "16 dvd unat len" "unat len < 2 ^ 24"
      "rp_used p + unat len \<le> unat s"
  shows "\<exists>seg' p' slack. push_into len kind bs (e mod unat c) (lap c e) (seg, p) = (seg', p') \<and>
    ring_shape c s seg' \<and> blocks_rel c s t e cs seg' \<and> seg_header seg' = seg_header seg \<and>
    holds_block c s e (cur @ [Rec (rp_pid p) (record_kind_code kind) (bs @ slack)]) seg' p' \<and>
    0 < rp_used p' \<and> length slack = unat len - 16 - length bs"
proof -
  note sf = ring_shape_facts[OF sh]
  let ?i = "e mod unat c" and ?D = "seg_data seg ! (e mod unat c)" and ?ep = "lap c e"
  let ?u = "rp_used p"
  have il: "?i < length (seg_blocks seg)" "?i < length (seg_data seg)" "?i < unat c"
    using sh sf(2) by (simp_all add: ring_shape_def)
  have dl: "length ?D = unat s" using sh il(3) by (simp add: ring_shape_def)
  have hold: "rp_slot p = Some ?i" "rp_epoch p = ?ep" "\<not> rp_writing p"
    "?u = length (image ?ep cur)" "16 dvd ?u" "take ?u ?D = image ?ep cur"
    "\<forall>x\<in>set cur. entry_ok x" "owner (block_at seg ?i) = owner_word ?ep SHM_OWNER_IDLE"
    using hb unfolding holds_block_def by blast+
  let ?h = "\<lparr>rh_word = pack_record_word ?ep len (record_state_code SHM_RECORD_PAD),
    rh_pid = rp_pid p, rh_kind = record_kind_code kind, rh_flags = 0\<rparr>"
  let ?w = "pack_record_word ?ep len (record_state_code SHM_RECORD_COMMITTED)"
  let ?slack = "take_at (?u + 16 + length bs) (unat len - 16 - length bs) ?D"
  let ?e = "Rec (rp_pid p) (record_kind_code kind) (bs @ ?slack)"
  define D' where "D' = store_word ?u ?w (put_at (?u + 16) bs (write_header ?u ?h ?D))"
  have pl: "?u + unat len \<le> length ?D" using len(4) dl by simp
  note place = place_record[OF pl len(1), of ?w ?h, folded D'_def]
  have slen: "length ?slack = unat len - 16 - length bs"
    using pl len(1) by (intro length_take_at) linarith
  have el: "entry_len ?e = unat len" using slen len(1) by (simp add: entry_len_def)
  have eb: "entry_bytes ?ep ?e = header_bytes (?h\<lparr>rh_word := ?w\<rparr>) @ bs @ ?slack"
    unfolding entry_bytes_def entry_header_def el by simp
  have ti: "take (?u + unat len) D' = image ?ep (cur @ [?e])"
    using place(2) hold(6) eb by simp
  let ?seg' = "upd_block ?i (\<lambda>b. b\<lparr>owner := owner_word ?ep SHM_OWNER_IDLE\<rparr>)
    (upd_data ?i (\<lambda>_. D') (upd_block ?i (\<lambda>b. b\<lparr>owner := owner_word ?ep SHM_OWNER_WRITING\<rparr>) seg))"
  let ?p' = "p\<lparr>rp_writing := False, rp_used := ?u + unat len\<rparr>"
  have pi: "push_into len kind bs ?i ?ep (seg, p) = (?seg', ?p')"
    using hold(1,2,3,8) il(2)
    by (simp add: push_into_def begin_write_def Let_def commit_def fill_payload_def end_write_def
        D'_def upd_data_def)
  have "ring_shape c s (upd_block ?i (\<lambda>b. b\<lparr>owner := owner_word ?ep SHM_OWNER_WRITING\<rparr>) seg)"
    using sh by simp
  then have sh': "ring_shape c s ?seg'"
    using il place(1) dl by (simp add: ring_shape_upd_data)
  have b1: "blocks_rel c s t e cs (upd_block ?i (\<lambda>b. b\<lparr>owner := owner_word ?ep SHM_OWNER_WRITING\<rparr>) seg)"
    by (rule blocks_rel_upd_block[OF sh br te]) simp_all
  have sh1: "ring_shape c s (upd_block ?i (\<lambda>b. b\<lparr>owner := owner_word ?ep SHM_OWNER_WRITING\<rparr>) seg)"
    using sh by simp
  have b2: "blocks_rel c s t e cs (upd_data ?i (\<lambda>_. D')
      (upd_block ?i (\<lambda>b. b\<lparr>owner := owner_word ?ep SHM_OWNER_WRITING\<rparr>) seg))"
    by (rule blocks_rel_upd_data[OF sh1 b1 te])
  have sh2: "ring_shape c s (upd_data ?i (\<lambda>_. D')
      (upd_block ?i (\<lambda>b. b\<lparr>owner := owner_word ?ep SHM_OWNER_WRITING\<rparr>) seg))"
    using sh' by simp
  have br': "blocks_rel c s t e cs ?seg'"
    by (rule blocks_rel_upd_block[OF sh2 b2 te]) simp_all
  have hb': "holds_block c s e (cur @ [?e]) ?seg' ?p'"
  proof -
    have "length (image ?ep (cur @ [?e])) = ?u + unat len" using hold(4) el by simp
    moreover have "entry_ok ?e" using len(2,3) el by (simp add: entry_ok_def mod_eq_0_iff_dvd)
    moreover have "16 dvd ?u + unat len" using hold(5) len(2) by (rule dvd_add)
    moreover have "seg_data ?seg' ! ?i = D'" using il by simp
    moreover have "owner (block_at ?seg' ?i) = owner_word ?ep SHM_OWNER_IDLE" using il by simp
    ultimately show ?thesis
      using hold(1,2,7) ti len(4) unfolding holds_block_def by auto
  qed
  have "0 < rp_used ?p'" using len(1) by simp
  then show ?thesis using pi sh' br' hb' slen
    by (intro exI[of _ ?seg'] exI[of _ ?p'] exI[of _ ?slack]) simp
qed

lemma begin_write_held:
  assumes "holds_block c s e cur seg p"
  shows "begin_write (seg, p) = (True, snd (begin_write (seg, p)))"
    "rp_slot (snd (snd (begin_write (seg, p)))) = Some (e mod unat c)"
    "rp_epoch (snd (snd (begin_write (seg, p)))) = lap c e"
  using assms by (simp_all add: holds_block_def begin_write_def Let_def)

lemma acquire_held:
  assumes "holds_block c s e cur seg p" "rv_block_size (view seg) = s" "rp_used p + n \<le> unat s"
  shows "acquire_block now n (seg, p) = Some (True, snd (begin_write (seg, p)))"
proof -
  obtain i where "rp_slot p = Some i" using assms(1) by (auto simp: holds_block_def)
  moreover have "fst (begin_write (seg, p))" using begin_write_held(1)[OF assms(1)] by (metis fst_conv)
  ultimately show ?thesis
    using assms(2,3) by (subst acquire_block.simps) (simp add: Let_def)
qed

lemma acquire_claims:
  assumes "rp_slot (snd st) = None \<or> rp_used (snd st) + n > unat (rv_block_size (view (fst st)))"
    and "claim now (publish st) = (True, seg', p')" "holds_block c s e cur seg' p'"
  shows "acquire_block now n st = Some (True, snd (begin_write (seg', p')))"
proof -
  have "fst (begin_write (seg', p'))" using begin_write_held(1)[OF assms(3)] by (metis fst_conv)
  then show ?thesis using assms(1,2) by (subst acquire_block.simps) (simp add: Let_def)
qed

lemma acquire_full:
  assumes "rp_slot (snd st) = None \<or> rp_used (snd st) + n > unat (rv_block_size (view (fst st)))"
    and "claim now (publish st) = (False, st')"
  shows "acquire_block now n st = Some (False, st')"
  using assms by (subst acquire_block.simps) (simp add: Let_def)

lemma push_record_ok:
  assumes "length bs \<le> 2 ^ 24 - 32" "align_record (16 + length bs) \<le> rv_block_size (view (fst st))"
    and "acquire_block now (unat (align_record (16 + length bs))) st =
      Some (True, snd (begin_write (seg', p')))"
    and "holds_block c s e cur seg' p'"
  shows "push_record now kind bs st = Some (OK,
    push_into (align_record (16 + length bs)) kind bs (e mod unat c) (lap c e) (seg', p'))"
proof -
  obtain sg q where b: "snd (begin_write (seg', p')) = (sg, q)" by (cases "snd (begin_write (seg', p'))")
  note h = begin_write_held[OF assms(4), unfolded b snd_conv]
  show ?thesis
    unfolding push_record_def try_reserve_def
    using assms(1,2,3) h by (simp add: b push_into_def Let_def not_less)
qed

text \<open>What a push needs: the payload fits one block.\<close>

definition fits_block :: "u32 \<Rightarrow> byte list \<Rightarrow> bool" where
  "fits_block s bs \<longleftrightarrow> length bs \<le> 2 ^ 24 - 32 \<and> align_record (16 + length bs) \<le> s"

lemma push_too_large:
  assumes "\<not> fits_block (rv_block_size (view seg)) bs"
  shows "push_record now kind bs (seg, p) = Some (TOO_LARGE, seg, p)"
  using assms by (auto simp: push_record_def try_reserve_def fits_block_def Let_def)

lemma aligned_len:
  assumes "length bs \<le> 2 ^ 24 - 32"
  shows "16 + length bs \<le> unat (align_record (16 + length bs))"
    "unat (align_record (16 + length bs)) < 16 + length bs + 16"
    "16 dvd unat (align_record (16 + length bs))"
    "unat (align_record (16 + length bs)) < 2 ^ 24"
proof -
  have a: "unat (align_record (16 + length bs)) = align_to 16 (16 + length bs)"
    using assms by (intro align_record_eq) simp
  note u = align_up[of 16 "16 + length bs"]
  show 1: "16 + length bs \<le> unat (align_record (16 + length bs))"
    "unat (align_record (16 + length bs)) < 16 + length bs + 16"
    "16 dvd unat (align_record (16 + length bs))"
    unfolding a using u by simp_all
  have "unat (align_record (16 + length bs)) \<le> 2 ^ 24 - 16"
  proof -
    have "unat (align_record (16 + length bs)) < 2 ^ 24 - 16 + 16" using 1(2) assms by simp
    then show ?thesis using 1(3) by (auto elim!: dvdE)
  qed
  then show "unat (align_record (16 + length bs)) < 2 ^ 24" by simp
qed

lemma abs_contents_publish:
  assumes "t \<le> e" "delivered (lap c e) pad = []"
  shows "abs_contents c t (e + 1) (cs(e := cur @ pad)) [] = abs_contents c t e cs cur"
proof -
  have "map (\<lambda>q. delivered (lap c q) ((cs(e := cur @ pad)) q)) [t..<e] =
      map (\<lambda>q. delivered (lap c q) (cs q)) [t..<e]"
    by (rule map_cong) auto
  then show ?thesis
    using assms by (simp only: abs_contents_def delivered_append upt_Suc_append map_append
        concat_append Suc_eq_plus1[symmetric]) (simp add: delivered_append)
qed

definition ring_head :: "channel \<Rightarrow> nat" where
  "ring_head ch = unat (head (seg_header (fst ch)))"

text \<open>The invariant of the channel, with room for \<open>n\<close> more blocks to be claimed.\<close>

definition ring_room :: "u32 \<Rightarrow> u32 \<Rightarrow> nat \<Rightarrow> channel \<Rightarrow> bool" where
  "ring_room c s n ch \<longleftrightarrow>
     (\<exists>t e cs cur. fifo_rel c s t e cs cur ch \<and> ring_head ch + n < 2 ^ 64)"

lemma fifo_head:
  assumes "fifo_rel c s t e cs cur (seg, p, bt)"
  shows "ring_head (seg, p, bt) = (if holding p then e + 1 else e)"
  using assms by (auto simp: fifo_rel_def ring_head_def unat_of_nat_small)

lemma push_held_law:
  assumes sh: "ring_shape c s seg" and br: "blocks_rel c s t e cs seg"
    and te: "t \<le> e" "e < t + unat c" and hb: "holds_block c s e cur seg p"
    and hd: "head (seg_header seg) = of_nat (e + 1)" "bt_tail bt = of_nat t" "e + 1 < 2 ^ 64"
    and fits: "fits_block s bs" "rp_used p + unat (align_record (16 + length bs)) \<le> unat s"
    and st: "acquire_block now (unat (align_record (16 + length bs))) st =
      Some (True, snd (begin_write (seg, p)))" "rv_block_size (view (fst st)) = s"
  shows "\<exists>seg' p' r. push_record now kind bs st = Some (OK, seg', p') \<and>
    fifo_rel c s t e cs (cur @ [r]) (seg', p', bt) \<and> holding p' \<and>
    delivered (lap c e) [r] \<noteq> [] \<and> record_carries (now, kind, bs) (last (delivered (lap c e) [r])) \<and>
    length (delivered (lap c e) [r]) = 1"
proof -
  let ?len = "align_record (16 + length bs)"
  have b: "length bs \<le> 2 ^ 24 - 32" "?len \<le> rv_block_size (view (fst st))"
    using fits(1) st(2) by (simp_all add: fits_block_def)
  note a = aligned_len[OF b(1)]
  obtain seg' p' slack where pi:
    "push_into ?len kind bs (e mod unat c) (lap c e) (seg, p) = (seg', p')"
    "ring_shape c s seg'" "blocks_rel c s t e cs seg'" "seg_header seg' = seg_header seg"
    "holds_block c s e (cur @ [Rec (rp_pid p) (record_kind_code kind) (bs @ slack)]) seg' p'"
    "0 < rp_used p'" "length slack = unat ?len - 16 - length bs"
    using push_into_rel[OF sh br te hb a(1,3,4) fits(2), of kind] by blast
  let ?r = "Rec (rp_pid p) (record_kind_code kind) (bs @ slack)"
  have "push_record now kind bs st = Some (OK, seg', p')"
    using push_record_ok[OF b st(1) hb] pi(1) by simp
  moreover have hold: "holding p'" using pi(5) by (simp add: holding_def holds_block_def)
  moreover have "fifo_rel c s t e cs (cur @ [?r]) (seg', p', bt)"
    using pi hold te hd by (simp add: fifo_rel_def)
  moreover have "length slack < 16" using pi(7) a(2) by linarith
  then have "record_carries (now, kind, bs) (last (delivered (lap c e) [?r]))"
    by (simp add: record_carries_def)
  ultimately show ?thesis
    by (intro exI[of _ seg'] exI[of _ p'] exI[of _ ?r]) simp
qed

text \<open>The two outcomes of a push, on the channel.\<close>

lemma push_refused:
  assumes f: "fifo_rel c s t e cs cur (seg, p, bt)" "ring_head (seg, p, bt) + Suc n < 2 ^ 64"
    and "push_record now kind bs (seg, p) = Some (res, seg', p')" "res \<noteq> OK"
    and f': "fifo_rel c s t e' cs' cur' (seg', p', bt)"
    and "abs_contents c t e' cs' cur' = abs_contents c t e cs cur"
    and "ring_head (seg', p', bt) \<le> ring_head (seg, p, bt)"
  shows "\<exists>ok ch'. push_channel (now, kind, bs) (seg, p, bt) = Some (ok, ch') \<and> ring_room c s n ch' \<and>
    (if ok then \<exists>r. record_carries (now, kind, bs) r \<and> ring_contents ch' = ring_contents (seg, p, bt) @ [r]
     else ring_contents ch' = ring_contents (seg, p, bt))"
proof -
  have "ring_head (seg', p', bt) + n < 2 ^ 64" using assms(2,7) by linarith
  then have "ring_room c s n (seg', p', bt)" using f' unfolding ring_room_def by blast
  then show ?thesis
    using assms(3,4,6) contents_abs[OF f(1)] contents_abs[OF f']
    by (intro exI[of _ False] exI[of _ "(seg', p', bt)"]) (simp add: push_channel_def)
qed

lemma push_accepted:
  assumes f: "fifo_rel c s t e cs cur (seg, p, bt)" "ring_head (seg, p, bt) + Suc n < 2 ^ 64"
    and "push_record now kind bs (seg, p) = Some (OK, seg', p')"
    and f': "fifo_rel c s t e' cs' (cur' @ [x]) (seg', p', bt)"
    and "abs_contents c t e' cs' cur' = abs_contents c t e cs cur"
    and "record_carries (now, kind, bs) (last (delivered (lap c e') [x]))"
      "length (delivered (lap c e') [x]) = 1"
    and "ring_head (seg', p', bt) \<le> ring_head (seg, p, bt) + 1"
  shows "\<exists>ok ch'. push_channel (now, kind, bs) (seg, p, bt) = Some (ok, ch') \<and> ring_room c s n ch' \<and>
    (if ok then \<exists>r. record_carries (now, kind, bs) r \<and> ring_contents ch' = ring_contents (seg, p, bt) @ [r]
     else ring_contents ch' = ring_contents (seg, p, bt))"
proof -
  obtain y where y: "delivered (lap c e') [x] = [y]"
    using assms(7) by (cases "delivered (lap c e') [x]") auto
  have "ring_contents (seg', p', bt) = ring_contents (seg, p, bt) @ [y]"
    using contents_abs[OF f'] y assms(5) contents_abs[OF f(1)]
    by (simp add: abs_contents_def delivered_append)
  moreover have "ring_head (seg', p', bt) + n < 2 ^ 64" using assms(2,8) by linarith
  then have "ring_room c s n (seg', p', bt)" using f' unfolding ring_room_def by blast
  moreover have "record_carries (now, kind, bs) y" using assms(6) y by simp
  ultimately show ?thesis
    using assms(3) by (intro exI[of _ True] exI[of _ "(seg', p', bt)"]) (auto simp: push_channel_def
        intro!: exI[of _ "fst y"] exI[of _ "snd y"])
qed

text \<open>Publishing leaves no block held and the contents as they were.\<close>

lemma publish_to_empty:
  assumes f: "fifo_rel c s t e cs cur (seg, p, bt)"
  shows "\<exists>seg' p' e' cs'. publish (seg, p) = (seg', p') \<and>
    fifo_rel c s t e' cs' [] (seg', p', bt) \<and> \<not> holding p' \<and>
    abs_contents c t e' cs' [] = abs_contents c t e cs cur \<and>
    ring_head (seg', p', bt) = ring_head (seg, p, bt)"
proof (cases "holding p")
  case True
  from publish_rel[OF f True] obtain seg' p' pad where
    p: "publish (seg, p) = (seg', p')" "delivered (lap c e) pad = []"
    "fifo_rel c s t (e + 1) (cs(e := cur @ pad)) [] (seg', p', bt)" "\<not> holding p'"
    by blast
  have "t \<le> e" using f by (simp add: fifo_rel_def)
  from abs_contents_publish[OF this p(2), of cs cur] show ?thesis
    using p fifo_head[OF f] fifo_head[OF p(3)] True
    by (intro exI[of _ seg'] exI[of _ p'] exI[of _ "e + 1"] exI[of _ "cs(e := cur @ pad)"]) simp
next
  case False
  then have "publish (seg, p) = (seg, p)" by (simp add: publish_def holding_def)
  moreover have "cur = []" using f False by (simp add: fifo_rel_def)
  ultimately show ?thesis using f False by blast
qed

text \<open>Which of the two it is, and what the producer is told.\<close>

definition blocks_out :: "channel \<Rightarrow> nat" where
  "blocks_out ch = (case ch of (seg, p, bt) \<Rightarrow> unat (head (seg_header seg)) - unat (bt_tail bt))"

definition has_room :: "u32 \<Rightarrow> byte list \<Rightarrow> ring_producer \<Rightarrow> bool" where
  "has_room s bs p \<longleftrightarrow> holding p \<and> rp_used p + unat (align_record (16 + length bs)) \<le> unat s"

definition push_expected :: "u32 \<Rightarrow> u32 \<Rightarrow> byte list \<Rightarrow> channel \<Rightarrow> ShmReserveResult" where
  "push_expected c s bs ch = (case ch of (seg, p, bt) \<Rightarrow>
     if \<not> fits_block s bs then TOO_LARGE
     else if \<not> has_room s bs p \<and> blocks_out ch = unat c then FULL else OK)"

definition push_effect ::
  "u32 \<Rightarrow> u32 \<Rightarrow> nat \<Rightarrow> u64 \<times> ShmRecordKind \<times> byte list \<Rightarrow> channel \<Rightarrow> bool" where
  "push_effect c s n item ch \<longleftrightarrow>
     (\<exists>ok ch'. push_channel item ch = Some (ok, ch') \<and> ring_room c s n ch' \<and>
       ok = (push_expected c s (snd (snd item)) ch = OK) \<and>
       (if ok then \<exists>r. record_carries item r \<and> ring_contents ch' = ring_contents ch @ [r]
        else ring_contents ch' = ring_contents ch))"

lemma blocks_out_rel:
  assumes "fifo_rel c s t e cs cur (seg, p, bt)"
  shows "blocks_out (seg, p, bt) = (if holding p then e + 1 else e) - t"
  using assms by (auto simp: fifo_rel_def blocks_out_def unat_of_nat_small split: if_splits)

lemma push_effectI:
  assumes "\<exists>ok ch'. push_channel item ch = Some (ok, ch') \<and> ring_room c s n ch' \<and>
      (if ok then \<exists>r. record_carries item r \<and> ring_contents ch' = ring_contents ch @ [r]
       else ring_contents ch' = ring_contents ch)"
    and "\<And>ok ch'. push_channel item ch = Some (ok, ch') \<Longrightarrow>
      ok = (push_expected c s (snd (snd item)) ch = OK)"
  shows "push_effect c s n item ch"
  using assms unfolding push_effect_def by blast

lemma push_channel_law:
  assumes "ring_room c s (Suc n) (seg, p, bt)"
  shows "push_effect c s n (now, kind, bs) (seg, p, bt)"
proof -
  obtain t e cs cur where f: "fifo_rel c s t e cs cur (seg, p, bt)"
    and lim: "ring_head (seg, p, bt) + Suc n < 2 ^ 64"
    using assms by (auto simp: ring_room_def)
  note r = f[unfolded fifo_rel_def prod.case]
  have sh: "ring_shape c s seg" and br: "blocks_rel c s t e cs seg" and te: "t \<le> e"
    using r by auto
  note sf = ring_shape_facts[OF sh]
  let ?len = "align_record (16 + length bs)"
  note keep = push_refused[OF f lim, where now=now and kind=kind and bs=bs]
  note add = push_accepted[OF f lim, where now=now and kind=kind and bs=bs]
  note exp = push_expected_def[of c s bs "(seg, p, bt)"] blocks_out_rel[OF f]
  consider (large) "\<not> fits_block s bs"
    | (room) "fits_block s bs" "has_room s bs p"
    | (next_block) "fits_block s bs" "\<not> has_room s bs p"
    by blast
  then show ?thesis
  proof cases
    case large
    then have x: "push_record now kind bs (seg, p) = Some (TOO_LARGE, seg, p)"
      using push_too_large[of seg bs] sf(6) by simp
    from keep[OF x _ f] large exp x show ?thesis
      by (intro push_effectI) (simp_all add: push_channel_def)
  next
    case room
    then have hold: "holding p" "rp_used p + unat ?len \<le> unat s" by (simp_all add: has_room_def)
    then have hb: "holds_block c s e cur seg p" and e: "e < t + unat c" "e + 1 < 2 ^ 64"
      and h: "head (seg_header seg) = of_nat (e + 1)" "bt_tail bt = of_nat t"
      using r by auto
    obtain seg' p' x where x: "push_record now kind bs (seg, p) = Some (OK, seg', p')"
      "fifo_rel c s t e cs (cur @ [x]) (seg', p', bt)" "holding p'"
      "record_carries (now, kind, bs) (last (delivered (lap c e) [x]))"
      "length (delivered (lap c e) [x]) = 1"
      using push_held_law[OF sh br te e(1) hb h e(2) room(1) hold(2)
          acquire_held[OF hb sf(6) hold(2)], of now kind] sf(6) by auto
    have "ring_head (seg', p', bt) \<le> ring_head (seg, p, bt) + 1"
      using fifo_head[OF x(2)] fifo_head[OF f] x(3) hold(1) by simp
    from add[OF x(1,2) refl x(4,5) this] show ?thesis
      using room exp x(1) by (intro push_effectI) (simp_all add: push_channel_def)
  next
    case next_block
    obtain seg1 p1 e1 cs1 where one: "publish (seg, p) = (seg1, p1)"
      "fifo_rel c s t e1 cs1 [] (seg1, p1, bt)" "\<not> holding p1"
      "abs_contents c t e1 cs1 [] = abs_contents c t e cs cur"
      "ring_head (seg1, p1, bt) = ring_head (seg, p, bt)"
      using publish_to_empty[OF f] by blast
    have sh1: "ring_shape c s seg1" "blocks_rel c s t e1 cs1 seg1" "t \<le> e1" "e1 \<le> t + unat c"
      "bt_tail bt = of_nat t" using one(2,3) by (auto simp: fifo_rel_def)
    have out: "blocks_out (seg, p, bt) = e1 - t"
      using blocks_out_rel[OF f] fifo_head[OF f] fifo_head[OF one(2)] one(3,5) by simp
    have nr: "rp_slot (snd (seg, p)) = None \<or>
        rp_used (snd (seg, p)) + unat ?len > unat (rv_block_size (view (fst (seg, p))))"
      using next_block sf(6) by (auto simp: holding_def has_room_def)
    show ?thesis
    proof (cases "e1 = t + unat c")
      case True
      have cl: "claim now (publish (seg, p)) = (False, seg1, p1)"
        using claim_full[OF one(2,3) True] one(1) by simp
      have x: "push_record now kind bs (seg, p) = Some (FULL, seg1, p1)"
        using acquire_full[OF nr cl] next_block(1) sf(6)
        by (simp add: push_record_def try_reserve_def fits_block_def Let_def not_less)
      from keep[OF x _ one(2,4)] one(5) show ?thesis
        using x next_block out True
        by (intro push_effectI) (simp_all add: push_channel_def push_expected_def)
    next
      case False
      then have e1: "e1 < t + unat c" using sh1(4) by simp
      have e1': "e1 + 1 < 2 ^ 64" using lim one(3,5) fifo_head[OF one(2)] by simp
      obtain seg2 p2 where two: "claim now (seg1, p1) = (True, seg2, p2)" "ring_shape c s seg2"
        "blocks_rel c s t e1 cs1 seg2" "head (seg_header seg2) = of_nat (e1 + 1)"
        "holds_block c s e1 [] seg2 p2" "rp_used p2 = 0"
        using claim_free[OF one(2,3) e1 e1', of now] by blast
      have cl: "claim now (publish (seg, p)) = (True, seg2, p2)" using two(1) one(1) by simp
      have len: "rp_used p2 + unat ?len \<le> unat s"
        using next_block(1) two(6) by (simp add: fits_block_def word_le_nat_alt)
      obtain seg' p' x where x: "push_record now kind bs (seg, p) = Some (OK, seg', p')"
        "fifo_rel c s t e1 cs1 ([] @ [x]) (seg', p', bt)" "holding p'"
        "record_carries (now, kind, bs) (last (delivered (lap c e1) [x]))"
        "length (delivered (lap c e1) [x]) = 1"
        using push_held_law[OF two(2,3) sh1(3) e1 two(5,4) sh1(5) e1' next_block(1) len
            acquire_claims[OF nr cl two(5)], of kind] sf(6) by auto
      have "ring_head (seg', p', bt) \<le> ring_head (seg, p, bt) + 1"
        using fifo_head[OF x(2)] fifo_head[OF one(2)] x(3) one(3,5) by simp
      from add[OF x(1,2) one(4) x(4,5) this] show ?thesis
        using x(1) next_block out e1 sh1(3)
        by (intro push_effectI) (simp_all add: push_channel_def push_expected_def)
    qed
  qed
qed

lemma flush_channel_law:
  assumes "ring_room c s (Suc n) ch"
  shows "ring_room c s n (flush_channel ch) \<and> ring_contents (flush_channel ch) = ring_contents ch"
proof -
  obtain seg p bt where ch: "ch = (seg, p, bt)" by (cases ch) auto
  obtain t e cs cur where f: "fifo_rel c s t e cs cur (seg, p, bt)"
    and lim: "ring_head (seg, p, bt) + Suc n < 2 ^ 64"
    using assms by (auto simp: ring_room_def ch)
  obtain seg' p' e' cs' where one: "publish (seg, p) = (seg', p')"
    "fifo_rel c s t e' cs' [] (seg', p', bt)"
    "abs_contents c t e' cs' [] = abs_contents c t e cs cur"
    "ring_head (seg', p', bt) = ring_head (seg, p, bt)"
    using publish_to_empty[OF f] by blast
  have "ring_head (seg', p', bt) + n < 2 ^ 64" using lim one(4) by linarith
  then have "ring_room c s n (seg', p', bt)" using one(2) unfolding ring_room_def by blast
  then show ?thesis
    using one(1,3) contents_abs[OF f] contents_abs[OF one(2)]
    by (simp add: ch flush_channel_def flush_def)
qed

lemma release_rel:
  assumes "fifo_rel c s t e cs cur (seg, p, bt)" "t < e"
  shows "\<exists>seg' bt'. tracker_release (of_nat t) (seg, bt) = (seg', bt') \<and>
    fifo_rel c s (t + 1) e cs cur (seg', p, bt') \<and>
    ring_head (seg', p, bt') = ring_head (seg, p, bt)"
proof -
  note r = assms(1)[unfolded fifo_rel_def prod.case]
  have sh: "ring_shape c s seg" and br: "blocks_rel c s t e cs seg" using r by auto
  note sf = ring_shape_facts[OF sh]
  have v: "view seg = view_of c s" using sh by (simp add: ring_shape_def)
  have lim: "t < 2 ^ 64" "e \<le> t + unat c" using assms(2) r by (auto split: if_splits)
  note vq = view_of_nat[OF sf(1) lim(1), of s]
  let ?i = "t mod unat c"
  let ?seg0 = "upd_block ?i (rearm (view seg) (of_nat t)) seg"
  let ?seg' = "?seg0\<lparr>seg_header := (seg_header ?seg0)\<lparr>tail := of_nat t + 1\<rparr>\<rparr>"
  let ?bt' = "bt\<lparr>bt_tail := of_nat t + 1\<rparr>"
  have il: "?i < length (seg_blocks seg)" using sh sf(2) by (simp add: ring_shape_def)
  have rel: "tracker_release (of_nat t) (seg, bt) = (?seg', ?bt')"
    by (simp add: tracker_release_def v vq(1))
  have b': "block_at ?seg' j =
      (if j = ?i then (block_at seg ?i)\<lparr>claim_ns := 0, committed := 0, owner := 0,
         armed := ucast (lap c t + 1)\<rparr> else block_at seg j)" for j
    using il by (simp add: rearm_def v vq(2))
  have sh': "ring_shape c s ?seg'" using sh by (simp add: ring_shape_def ring_view_of_def)
  have ne: "q mod unat c \<noteq> ?i" if "t < q" "q < t + unat c" for q
    using slot_inj[of q "unat c" t t] that by auto
  have br': "blocks_rel c s (t + 1) e cs ?seg'"
    unfolding blocks_rel_def
  proof (intro conjI allI impI)
    fix q assume q: "t + 1 \<le> q \<and> q < t + 1 + unat c"
    show "armed (block_at ?seg' (q mod unat c)) = ucast (lap c q)"
    proof (cases "q = t + unat c")
      case True
      then have "q mod unat c = ?i" by simp
      then show ?thesis using lap_next[OF sf(2), of t] True by (simp only: b' simp_thms if_True) simp
    next
      case False
      then show ?thesis using q ne[of q] br by (simp only: b') (simp add: blocks_rel_def)
    qed
  next
    fix q assume q: "t + 1 \<le> q \<and> q < e"
    then have "t \<le> q" "q < e" "q mod unat c \<noteq> ?i" using ne[of q] lim by auto
    note pub = blocks_rel_published[OF br this(1,2)] this(3)
    show "committed (block_at ?seg' (q mod unat c)) = published_word (lap c q) s"
      using pub(1,4) by (simp only: b' if_False)
    show "\<forall>x\<in>set (cs q). entry_ok x" by (rule pub(3))
    show "seg_data ?seg' ! (q mod unat c) = image (lap c q) (cs q)" using pub(2) by simp
  next
    fix q assume q: "e \<le> q \<and> q < t + 1 + unat c"
    show "committed (block_at ?seg' (q mod unat c)) = 0"
    proof (cases "q = t + unat c")
      case True
      then have "q mod unat c = ?i" by simp
      then show ?thesis by (simp only: b') simp
    next
      case False
      then show ?thesis using q assms(2) ne[of q] br by (simp only: b') (simp add: blocks_rel_def)
    qed
  qed
  have hb: "holds_block c s e cur ?seg' p" if "holding p"
  proof -
    have "e < t + unat c" using r that by auto
    then have "e mod unat c \<noteq> ?i" using ne[of e] assms(2) by simp
    then have "block_at ?seg' (e mod unat c) = block_at seg (e mod unat c)" by (simp only: b' if_False)
    moreover have "seg_data ?seg' = seg_data seg" by simp
    ultimately have "holds_block c s e cur ?seg' p = holds_block c s e cur seg p"
      by (simp only: holds_block_def)
    then show ?thesis using r that by auto
  qed
  have "fifo_rel c s (t + 1) e cs cur (?seg', p, ?bt')"
    using sh' br' hb r assms(2) by (simp add: fifo_rel_def)
  then show ?thesis using rel
    by (intro exI[of _ ?seg'] exI[of _ ?bt']) (simp add: ring_head_def)
qed

lemma poll_rel:
  assumes "fifo_rel c s t e cs cur (seg, p, bt)"
  shows "poll seg bt = (if t < e then Some (of_nat t) else None, bt)"
proof -
  note r = assms[unfolded fifo_rel_def prod.case]
  have sh: "ring_shape c s seg" and br: "blocks_rel c s t e cs seg" and te: "t \<le> e"
    and bt: "bt_tail bt = of_nat t" using r by auto
  note sf = ring_shape_facts[OF sh]
  have v: "view seg = view_of c s" using sh by (simp add: ring_shape_def)
  have lim: "t < 2 ^ 64" "(if holding p then e + 1 else e) < 2 ^ 64" using r by (auto split: if_splits)
  note vq = view_of_nat[OF sf(1) lim(1), of s]
  have cmp: "(of_nat t :: u64) \<ge> head (seg_header seg) \<longleftrightarrow> (if holding p then e + 1 else e) \<le> t"
    using r lim by (auto simp: word_le_nat_alt unat_of_nat_small)
  have dl: "length (seg_data seg ! (t mod unat c)) = unat s"
    using sh sf(2) by (simp add: ring_shape_def)
  show ?thesis
  proof (cases "t < e")
    case True
    note c = blocks_rel_published(1)[OF br le_refl True]
      and d = blocks_rel_published(2,3)[OF br le_refl True]
    have "verify_block (unat s) (lap c t) (seg_data seg ! (t mod unat c)) = None"
      using verify_complete[OF d] dl by simp
    then have "tracker_verify seg (of_nat t) bt = (True, bt)"
      by (simp add: tracker_verify_def v vq)
    then show ?thesis using True c cmp by (simp add: poll_def Let_def bt v vq)
  next
    case False
    then have "committed (block_at seg (t mod unat c)) = 0"
      using br te sf(2) by (simp add: blocks_rel_def)
    moreover have "published_word (lap c t) s \<noteq> 0"
    proof
      assume "published_word (lap c t) s = 0"
      moreover have "published_word 0 0 = 0" by (simp add: published_word_def)
      ultimately have "s = 0" using published_word_inj by metis
      then show False using sf(5) by simp
    qed
    ultimately show ?thesis using False by (simp add: poll_def Let_def bt v vq)
  qed
qed

lemma drain_step:
  assumes f: "fifo_rel c s t e cs cur (seg, p, bt)" "t < e"
  shows "\<exists>seg' bt'. drain_channel (seg, p, bt) = Some (delivered (lap c t) (cs t), (seg', p, bt')) \<and>
    fifo_rel c s (t + 1) e cs cur (seg', p, bt') \<and>
    ring_head (seg', p, bt') = ring_head (seg, p, bt)"
proof -
  note r = f(1)[unfolded fifo_rel_def prod.case]
  have sh: "ring_shape c s seg" and br: "blocks_rel c s t e cs seg" using r by auto
  note sf = ring_shape_facts[OF sh]
  have v: "view seg = view_of c s" using sh by (simp add: ring_shape_def)
  have "t < 2 ^ 64" using r f(2) by (auto split: if_splits)
  note vq = view_of_nat[OF sf(1) this, of s]
  note d = blocks_rel_published(2,3)[OF br le_refl f(2)]
  have dl: "length (seg_data seg ! (t mod unat c)) = unat s"
    using sh sf(2) by (simp add: ring_shape_def)
  have w: "for_each_record (unat s) (lap c t) False (seg_data seg ! (t mod unat c)) =
      Some (delivered (lap c t) (cs t), 0)"
    using walk_complete[OF d, of False] dl by simp
  obtain seg' bt' where rel: "tracker_release (of_nat t) (seg, bt) = (seg', bt')"
    "fifo_rel c s (t + 1) e cs cur (seg', p, bt')"
    "ring_head (seg', p, bt') = ring_head (seg, p, bt)"
    using release_rel[OF f] by blast
  have "drain_channel (seg, p, bt) = Some (delivered (lap c t) (cs t), (seg', p, bt'))"
    using poll_rel[OF f(1)] f(2) w rel(1) by (simp add: drain_channel_def v vq)
  then show ?thesis using rel(2,3) by blast
qed

lemma drain_idle:
  assumes "fifo_rel c s t e cs cur (seg, p, bt)" "\<not> t < e"
  shows "drain_channel (seg, p, bt) = Some ([], (seg, p, bt))"
  using poll_rel[OF assms(1)] assms(2) by (simp add: drain_channel_def)

lemma abs_contents_step:
  "t < e \<Longrightarrow> abs_contents c t e cs cur = delivered (lap c t) (cs t) @ abs_contents c (t + 1) e cs cur"
  by (simp add: abs_contents_def upt_conv_Cons)

lemma drain_channel_law:
  assumes "ring_room c s (Suc n) ch"
  shows "\<exists>out ch'. drain_channel ch = Some (out, ch') \<and> ring_room c s n ch' \<and>
    ring_contents ch = out @ ring_contents ch'"
proof -
  obtain seg p bt where ch: "ch = (seg, p, bt)" by (cases ch) auto
  obtain t e cs cur where f: "fifo_rel c s t e cs cur (seg, p, bt)"
    and lim: "ring_head (seg, p, bt) + Suc n < 2 ^ 64"
    using assms by (auto simp: ring_room_def ch)
  show ?thesis
  proof (cases "t < e")
    case False
    have "ring_head (seg, p, bt) + n < 2 ^ 64" using lim by linarith
    then have "ring_room c s n ch" using f unfolding ring_room_def ch by blast
    then show ?thesis using drain_idle[OF f False] by (auto simp: ch)
  next
    case True
    obtain seg' bt' where d: "drain_channel ch = Some (delivered (lap c t) (cs t), (seg', p, bt'))"
      "fifo_rel c s (t + 1) e cs cur (seg', p, bt')"
      "ring_head (seg', p, bt') = ring_head (seg, p, bt)"
      using drain_step[OF f True] by (auto simp: ch)
    have "ring_head (seg', p, bt') + n < 2 ^ 64" using lim d(3) by linarith
    then have "ring_room c s n (seg', p, bt')" using d(2) unfolding ring_room_def by blast
    moreover have "ring_contents ch = delivered (lap c t) (cs t) @ ring_contents (seg', p, bt')"
      unfolding ch contents_abs[OF f] contents_abs[OF d(2)] by (rule abs_contents_step[OF True])
    ultimately show ?thesis using d(1) by blast
  qed
qed

interpretation ring: fifo_channel "ring_room c s" ring_contents push_channel flush_channel
  drain_channel record_carries for c s
proof
  fix n ch item
  assume "ring_room c s (Suc n) ch"
  then have "push_effect c s n item ch"
    by (cases ch; cases item) (simp only: push_channel_law)
  then show "\<exists>ok ch'. push_channel item ch = Some (ok, ch') \<and> ring_room c s n ch' \<and>
      (if ok then \<exists>r. record_carries item r \<and> ring_contents ch' = ring_contents ch @ [r]
       else ring_contents ch' = ring_contents ch)"
    unfolding push_effect_def by blast
qed (simp_all only: flush_channel_law drain_channel_law)

section \<open>Sessions\<close>

definition start_channel :: "byte list list \<Rightarrow> u32 \<Rightarrow> u32 \<Rightarrow> u32 \<Rightarrow> u32 \<Rightarrow> channel" where
  "start_channel d c s pid tid =
     (let seg = format d c s in (seg, new_producer pid tid, new_tracker seg False))"

lemma start_room:
  assumes "valid_geometry c s" "length d = unat c" "\<forall>b\<in>set d. length b = unat s" "n < 2 ^ 64"
  shows "ring_room c s n (start_channel d c s pid tid)"
    and "ring_contents (start_channel d c s pid tid) = []"
proof -
  let ?seg = "format d c s"
  have sh: "ring_shape c s ?seg"
    using assms(1-3) by (simp add: ring_shape_def format_sel format_view)
  note sf = ring_shape_facts[OF sh]
  have "blocks_rel c s 0 0 (\<lambda>_. []) ?seg"
    unfolding blocks_rel_def
  proof (intro conjI allI impI; (elim conjE)?)
    fix q assume q: "q < 0 + unat c"
    then have "q < 2 ^ 64" using unat_bound[of c] by simp
    note vq = view_of_nat[OF sf(1) this, of s]
    have "q mod unat c = q" using q by simp
    then show "armed (block_at ?seg (q mod unat c)) = ucast (lap c q)"
      "committed (block_at ?seg (q mod unat c)) = 0"
      using q vq(2) by (simp_all only: format_nth format_block_def add_0) simp_all
  qed simp_all
  then have f: "fifo_rel c s 0 0 (\<lambda>_. []) [] (start_channel d c s pid tid)"
    using sh by (simp add: fifo_rel_def start_channel_def Let_def new_tracker_def new_producer_def
        holding_def format_sel)
  have "ring_head (start_channel d c s pid tid) = 0"
    by (simp add: ring_head_def start_channel_def Let_def format_sel)
  then show "ring_room c s n (start_channel d c s pid tid)"
    using f assms(4) unfolding ring_room_def by (metis add_0)
  show "ring_contents (start_channel d c s pid tid) = []"
    unfolding contents_abs[OF f] by (simp add: abs_contents_def)
qed

lemma run_channel_append:
  "run_channel push_op flush_op drain_op (xs @ ys) st =
     (case run_channel push_op flush_op drain_op xs st of None \<Rightarrow> None
      | Some (acc, out, st') \<Rightarrow>
         (case run_channel push_op flush_op drain_op ys st' of None \<Rightarrow> None
          | Some (acc', out', st'') \<Rightarrow> Some (acc @ acc', out @ out', st'')))"
proof (induction xs arbitrary: st)
  case Nil
  show ?case by (auto split: option.splits)
next
  case (Cons x xs)
  then show ?case by (cases x) (auto split: option.splits)
qed

text \<open>Enough drains empty a ring whose producer holds no block.\<close>

lemma drain_all:
  assumes "fifo_rel c s t e cs [] (seg, p, bt)" "e - t \<le> n"
  shows "\<exists>ch'. run_channel push_channel flush_channel drain_channel (replicate n Drain) (seg, p, bt)
    = Some ([], abs_contents c t e cs [], ch')"
  using assms
proof (induction n arbitrary: t seg bt)
  case 0
  then show ?case by (simp add: abs_contents_def fifo_rel_def)
next
  case (Suc n)
  show ?case
  proof (cases "t < e")
    case False
    then have "e - t \<le> n" by simp
    then show ?thesis using Suc.IH[OF Suc.prems(1)] drain_idle[OF Suc.prems(1) False] by auto
  next
    case True
    obtain seg' bt' where d:
      "drain_channel (seg, p, bt) = Some (delivered (lap c t) (cs t), (seg', p, bt'))"
      "fifo_rel c s (t + 1) e cs [] (seg', p, bt')"
      using drain_step[OF Suc.prems(1) True] by blast
    have "e - (t + 1) \<le> n" using Suc.prems(2) by simp
    with Suc.IH[OF d(2)] d(1) show ?thesis
      by (auto simp: abs_contents_step[OF True])
  qed
qed

text \<open>
  C2: one producer and one in-order consumer on a formatted ring, running any interleaving
  of pushes, flushes and drain rounds: none of them diverges, and after a final flush and
  one drain round per block the delivered records are exactly the accepted pushes, each
  once, in order, each with its kind and its bytes (plus alignment slack). Pushes that were
  refused (ring full, record too large) deliver nothing.
\<close>

theorem ring_delivers_every_record:
  assumes "valid_geometry c s" "length d = unat c" "\<forall>b\<in>set d. length b = unat s"
    and "length ops < 2 ^ 64"
  shows "\<exists>acc out ch. run_channel push_channel flush_channel drain_channel
      (ops @ Flush # replicate (unat c) Drain) (start_channel d c s pid tid) = Some (acc, out, ch) \<and>
    list_all2 record_carries acc out"
proof -
  note start = start_room[OF assms, of pid tid]
  obtain acc out1 ch1 rs where run:
    "run_channel push_channel flush_channel drain_channel ops (start_channel d c s pid tid) =
      Some (acc, out1, ch1)" "ring_room c s 0 ch1" "list_all2 record_carries acc rs"
    "rs = out1 @ ring_contents ch1"
    using ring.run_fifo[OF start(1)] start(2) by auto
  obtain seg p bt where ch1: "ch1 = (seg, p, bt)" by (cases ch1) auto
  obtain t e cs cur where f: "fifo_rel c s t e cs cur (seg, p, bt)"
    using run(2) by (auto simp: ring_room_def ch1)
  obtain seg' p' e' cs' where one: "publish (seg, p) = (seg', p')"
    "fifo_rel c s t e' cs' [] (seg', p', bt)"
    "abs_contents c t e' cs' [] = abs_contents c t e cs cur"
    using publish_to_empty[OF f] by blast
  have "e' - t \<le> unat c" using one(2) by (auto simp: fifo_rel_def split: if_splits)
  from drain_all[OF one(2) this] obtain ch' where
    "run_channel push_channel flush_channel drain_channel (replicate (unat c) Drain) (seg', p', bt) =
      Some ([], ring_contents ch1, ch')"
    using one(3) contents_abs[OF f] by (auto simp: ch1)
  then show ?thesis
    using run(1,3,4) one(1)
    by (cases ch') (simp add: run_channel_append ch1 flush_channel_def flush_def)
qed

lemma ring_delivers_every_record_witness:
  "\<exists>acc out ch. run_channel push_channel flush_channel drain_channel
      ([Push (7, SHM_KIND_RAW, [1, 2, 3]), Flush, Push (9, SHM_KIND_DATA, [4]), Drain] @
        Flush # replicate (unat (2 :: u32)) Drain)
      (start_channel (replicate 2 (replicate 4096 0)) 2 4096 11 12) = Some (acc, out, ch) \<and>
    list_all2 record_carries acc out"
proof -
  have "valid_geometry 2 4096" by (simp add: valid_geometry_def pow2_def)
  then show ?thesis by (rule ring_delivers_every_record) simp_all
qed

text \<open>
  C3: a push is refused only for cause. In any state reached by a session, a record that
  cannot fit one block is refused, a record that needs a new block is refused exactly when
  all blocks of the ring are out (claimed and not released), and every other record is
  accepted and becomes the newest record of the ring.
\<close>

theorem push_refused_only_for_cause:
  assumes "valid_geometry c s" "length d = unat c" "\<forall>b\<in>set d. length b = unat s"
    and "length ops + 1 < 2 ^ 64"
    and "run_channel push_channel flush_channel drain_channel ops (start_channel d c s pid tid) =
      Some (acc, out, ch)"
  shows "\<exists>ok ch'. push_channel (now, kind, bs) ch = Some (ok, ch') \<and>
    ok = (fits_block s bs \<and> (has_room s bs (fst (snd ch)) \<or> blocks_out ch \<noteq> unat c)) \<and>
    (if ok then \<exists>r. record_carries (now, kind, bs) r \<and> ring_contents ch' = ring_contents ch @ [r]
     else ring_contents ch' = ring_contents ch)"
proof -
  have "ring_room c s (length ops + Suc 0) (start_channel d c s pid tid)"
    using assms(4) by (intro start_room(1)[OF assms(1-3)]) simp
  from ring.run_room[OF this assms(5)] have "ring_room c s (Suc 0) ch" .
  moreover obtain seg p bt where "ch = (seg, p, bt)" by (cases ch) auto
  ultimately have "push_effect c s 0 (now, kind, bs) ch" by (simp only: push_channel_law)
  then show ?thesis
    unfolding push_effect_def by (cases ch) (auto simp: push_expected_def)
qed

lemma push_refused_only_for_cause_witness:
  "\<exists>ok ch'. push_channel (5, SHM_KIND_RAW, [1, 2, 3])
      (start_channel (replicate 2 (replicate 4096 0)) 2 4096 11 12) = Some (ok, ch') \<and> ok"
proof -
  let ?ch = "start_channel (replicate 2 (replicate 4096 0)) 2 4096 11 12"
  have v: "valid_geometry 2 4096" by (simp add: valid_geometry_def pow2_def)
  have "unat (align_record (16 + length [1, 2, 3 :: byte])) = 32"
    by (subst align_record_eq) (simp_all add: align_to_def)
  then have fits: "fits_block 4096 [1, 2, 3]"
    by (simp add: fits_block_def word_le_nat_alt)
  have out: "blocks_out ?ch = 0"
    by (simp add: blocks_out_def start_channel_def Let_def format_sel)
  have run: "run_channel push_channel flush_channel drain_channel [] ?ch = Some ([], [], ?ch)"
    by (simp only: run_channel.simps)
  have d: "length (replicate 2 (replicate 4096 0)) = unat (2 :: u32)"
    "\<forall>b\<in>set (replicate 2 (replicate 4096 (0 :: byte))). length b = unat (4096 :: u32)"
    "length ([] :: (u64 \<times> ShmRecordKind \<times> byte list) channel_op list) + 1 < 2 ^ 64"
    by simp_all
  obtain ok ch' where "push_channel (5, SHM_KIND_RAW, [1, 2, 3]) ?ch = Some (ok, ch')"
    "ok = (fits_block 4096 [1, 2, 3] \<and>
      (has_room 4096 [1, 2, 3] (fst (snd ?ch)) \<or> blocks_out ?ch \<noteq> unat (2 :: u32)))"
    using push_refused_only_for_cause[OF v d run, of 5 SHM_KIND_RAW "[1, 2, 3]"] by blast
  moreover have "blocks_out ?ch \<noteq> unat (2 :: u32)" using out by simp
  ultimately show ?thesis using fits by blast
qed

end
