(* ===== verification/Trace_Types.thy ===== *)
theory Trace_Types
  imports DFT_Prelude
begin

text \<open>
  The enumerations of \<open>core/common/enumeration.h\<close> that are written to trace files or read
  from the configuration, with their names, their numeric codes and the conversions in both
  directions. A conversion from an integer or a string is total: anything unknown maps to
  the fallback the code names.
\<close>

section \<open>Event types\<close>

datatype TraceEventType =
    TRACE_TYPE_UNKNOWN | TRACE_TYPE_DFTRACER | TRACE_TYPE_C_APP | TRACE_TYPE_LIBC_IO
  | TRACE_TYPE_HIP | TRACE_TYPE_HDF5 | TRACE_TYPE_PYTHON | TRACE_TYPE_PSUTIL
  | TRACE_TYPE_FINSTRUMENT | TRACE_TYPE_CPP_APP | TRACE_TYPE_MPI | TRACE_TYPE_PAPI
  | TRACE_TYPE_OMNISTAT | TRACE_TYPE_VARIORUM | TRACE_TYPE_CUDA

text \<open>The enumerators in the order of their codes, from 0.\<close>

definition trace_event_types :: "TraceEventType list" where
  "trace_event_types =
     [TRACE_TYPE_UNKNOWN, TRACE_TYPE_DFTRACER, TRACE_TYPE_C_APP, TRACE_TYPE_LIBC_IO,
      TRACE_TYPE_HIP, TRACE_TYPE_HDF5, TRACE_TYPE_PYTHON, TRACE_TYPE_PSUTIL,
      TRACE_TYPE_FINSTRUMENT, TRACE_TYPE_CPP_APP, TRACE_TYPE_MPI, TRACE_TYPE_PAPI,
      TRACE_TYPE_OMNISTAT, TRACE_TYPE_VARIORUM, TRACE_TYPE_CUDA]"

fun trace_event_type_code :: "TraceEventType \<Rightarrow> nat" where
  "trace_event_type_code TRACE_TYPE_UNKNOWN = 0"
| "trace_event_type_code TRACE_TYPE_DFTRACER = 1"
| "trace_event_type_code TRACE_TYPE_C_APP = 2"
| "trace_event_type_code TRACE_TYPE_LIBC_IO = 3"
| "trace_event_type_code TRACE_TYPE_HIP = 4"
| "trace_event_type_code TRACE_TYPE_HDF5 = 5"
| "trace_event_type_code TRACE_TYPE_PYTHON = 6"
| "trace_event_type_code TRACE_TYPE_PSUTIL = 7"
| "trace_event_type_code TRACE_TYPE_FINSTRUMENT = 8"
| "trace_event_type_code TRACE_TYPE_CPP_APP = 9"
| "trace_event_type_code TRACE_TYPE_MPI = 10"
| "trace_event_type_code TRACE_TYPE_PAPI = 11"
| "trace_event_type_code TRACE_TYPE_OMNISTAT = 12"
| "trace_event_type_code TRACE_TYPE_VARIORUM = 13"
| "trace_event_type_code TRACE_TYPE_CUDA = 14"

definition TRACE_TYPE_MAX :: int where [simp]: "TRACE_TYPE_MAX = 15"

fun trace_event_type_name :: "TraceEventType \<Rightarrow> string" where
  "trace_event_type_name TRACE_TYPE_DFTRACER = ''DFTRACER''"
| "trace_event_type_name TRACE_TYPE_C_APP = ''C_APP''"
| "trace_event_type_name TRACE_TYPE_LIBC_IO = ''LIBC_IO''"
| "trace_event_type_name TRACE_TYPE_HIP = ''HIP''"
| "trace_event_type_name TRACE_TYPE_HDF5 = ''HDF5''"
| "trace_event_type_name TRACE_TYPE_PYTHON = ''PYTHON''"
| "trace_event_type_name TRACE_TYPE_PSUTIL = ''PSUTIL''"
| "trace_event_type_name TRACE_TYPE_FINSTRUMENT = ''FINSTRUMENT''"
| "trace_event_type_name TRACE_TYPE_CPP_APP = ''CPP_APP''"
| "trace_event_type_name TRACE_TYPE_MPI = ''MPI''"
| "trace_event_type_name TRACE_TYPE_PAPI = ''PAPI''"
| "trace_event_type_name TRACE_TYPE_OMNISTAT = ''OMNISTAT''"
| "trace_event_type_name TRACE_TYPE_VARIORUM = ''VARIORUM''"
| "trace_event_type_name TRACE_TYPE_CUDA = ''CUDA''"
| "trace_event_type_name TRACE_TYPE_UNKNOWN = ''UNKNOWN''"

definition convert_trace_event_type :: "int \<Rightarrow> TraceEventType" where
  "convert_trace_event_type s =
     (if 0 \<le> s \<and> s < TRACE_TYPE_MAX then trace_event_types ! nat s else TRACE_TYPE_UNKNOWN)"

section \<open>Phases\<close>

datatype TracePhaseType =
    TRACE_PHASE_UNKNOWN | TRACE_PHASE_COMPLETE | TRACE_PHASE_COUNTER
  | TRACE_PHASE_AGGREGATED | TRACE_PHASE_METADATA

fun trace_phase_code :: "TracePhaseType \<Rightarrow> nat" where
  "trace_phase_code TRACE_PHASE_UNKNOWN = 0"
| "trace_phase_code TRACE_PHASE_COMPLETE = 1"
| "trace_phase_code TRACE_PHASE_COUNTER = 2"
| "trace_phase_code TRACE_PHASE_AGGREGATED = 3"
| "trace_phase_code TRACE_PHASE_METADATA = 4"

definition trace_phases :: "TracePhaseType list" where
  "trace_phases = [TRACE_PHASE_UNKNOWN, TRACE_PHASE_COMPLETE, TRACE_PHASE_COUNTER,
     TRACE_PHASE_AGGREGATED, TRACE_PHASE_METADATA]"

definition TRACE_PHASE_MAX :: int where [simp]: "TRACE_PHASE_MAX = 5"

fun trace_phase_name :: "TracePhaseType \<Rightarrow> string" where
  "trace_phase_name TRACE_PHASE_COMPLETE = ''COMPLETE''"
| "trace_phase_name TRACE_PHASE_COUNTER = ''COUNTER''"
| "trace_phase_name TRACE_PHASE_AGGREGATED = ''AGGREGATED''"
| "trace_phase_name TRACE_PHASE_METADATA = ''METADATA''"
| "trace_phase_name TRACE_PHASE_UNKNOWN = ''UNKNOWN''"

definition convert_trace_phase :: "int \<Rightarrow> TracePhaseType" where
  "convert_trace_phase s =
     (if 0 \<le> s \<and> s < TRACE_PHASE_MAX then trace_phases ! nat s else TRACE_PHASE_UNKNOWN)"

section \<open>Metadata kinds\<close>

datatype MetadataType = MT_KEY | MT_VALUE | MT_IGNORE

fun metadata_type_code :: "MetadataType \<Rightarrow> byte" where
  "metadata_type_code MT_KEY = 0"
| "metadata_type_code MT_VALUE = 1"
| "metadata_type_code MT_IGNORE = 2"

definition convert_metadata_type :: "int \<Rightarrow> MetadataType" where
  "convert_metadata_type s =
     (if s = 0 then MT_KEY else if s = 1 then MT_VALUE else if s = 2 then MT_IGNORE else MT_KEY)"

section \<open>Configuration enumerations\<close>

datatype ProfileInitType =
  PROFILER_INIT_NONE | PROFILER_INIT_LD_PRELOAD | PROFILER_INIT_FUNCTION

definition convert_init_type :: "string \<Rightarrow> ProfileInitType" where
  "convert_init_type s =
     (if s = ''PRELOAD'' then PROFILER_INIT_LD_PRELOAD
      else if s = ''FUNCTION'' then PROFILER_INIT_FUNCTION else PROFILER_INIT_NONE)"

datatype AggregationType = AGGREGATION_TYPE_FULL | AGGREGATION_TYPE_SELECTIVE

definition convert_aggregation_type :: "string \<Rightarrow> AggregationType" where
  "convert_aggregation_type s =
     (if s = ''FULL'' then AGGREGATION_TYPE_FULL
      else if s = ''SELECTIVE'' then AGGREGATION_TYPE_SELECTIVE else AGGREGATION_TYPE_FULL)"

fun aggregation_type_name :: "AggregationType \<Rightarrow> string" where
  "aggregation_type_name AGGREGATION_TYPE_FULL = ''FULL''"
| "aggregation_type_name AGGREGATION_TYPE_SELECTIVE = ''SELECTIVE''"

datatype TimeMetricType = TIME_METRIC_US | TIME_METRIC_NS | TIME_METRIC_MS | TIME_METRIC_SEC

definition convert_time_metric :: "string \<Rightarrow> TimeMetricType" where
  "convert_time_metric s =
     (if s = ''NS'' then TIME_METRIC_NS else if s = ''MS'' then TIME_METRIC_MS
      else if s = ''SEC'' then TIME_METRIC_SEC else if s = ''US'' then TIME_METRIC_US
      else TIME_METRIC_US)"

fun time_metric_name :: "TimeMetricType \<Rightarrow> string" where
  "time_metric_name TIME_METRIC_NS = ''NS''"
| "time_metric_name TIME_METRIC_MS = ''MS''"
| "time_metric_name TIME_METRIC_SEC = ''SEC''"
| "time_metric_name TIME_METRIC_US = ''US''"

fun time_metric_units_per_second :: "TimeMetricType \<Rightarrow> nat" where
  "time_metric_units_per_second TIME_METRIC_NS = 1000000000"
| "time_metric_units_per_second TIME_METRIC_MS = 1000"
| "time_metric_units_per_second TIME_METRIC_SEC = 1"
| "time_metric_units_per_second TIME_METRIC_US = 1000000"

section \<open>Event flags\<close>

definition SHM_EVENT_INC_METADATA :: byte where "SHM_EVENT_INC_METADATA = 1"
definition SHM_EVENT_HAS_METADATA :: byte where "SHM_EVENT_HAS_METADATA = 2"
definition SHM_EVENT_NO_AGGREGATE :: byte where "SHM_EVENT_NO_AGGREGATE = 4"

section \<open>Conversions invert the codes and the names\<close>

lemma trace_event_type_code_bound: "trace_event_type_code t < 15"
  by (cases t) simp_all

lemma trace_event_types_nth: "trace_event_types ! trace_event_type_code t = t"
  by (cases t) (simp_all add: trace_event_types_def)

lemma trace_phases_nth: "trace_phases ! trace_phase_code t = t"
  by (cases t) (simp_all add: trace_phases_def)

text \<open>
  The codes and names written to trace files are read back unchanged: every event type
  and phase survives its integer code, codes outside the range read as unknown, distinct
  types have distinct names, and the configuration names of the aggregation kind and the
  time metric convert back to the value they print.
\<close>

lemma trace_codes_round_trip:
  "convert_trace_event_type (int (trace_event_type_code t)) = t \<and>
   convert_trace_phase (int (trace_phase_code ph)) = ph \<and>
   convert_metadata_type (uint (metadata_type_code mt)) = mt \<and>
   convert_aggregation_type (aggregation_type_name ag) = ag \<and>
   convert_time_metric (time_metric_name tm) = tm \<and>
   (trace_event_type_name t = trace_event_type_name t') = (t = t') \<and>
   convert_trace_event_type (int (15 + n)) = TRACE_TYPE_UNKNOWN \<and>
   convert_trace_event_type (- 1 - int n) = TRACE_TYPE_UNKNOWN"
proof (intro conjI)
  show "convert_trace_event_type (int (trace_event_type_code t)) = t"
    using trace_event_type_code_bound[of t]
    by (simp add: convert_trace_event_type_def trace_event_types_nth)
  show "convert_trace_phase (int (trace_phase_code ph)) = ph"
    by (cases ph) (simp_all add: convert_trace_phase_def trace_phases_def)
  show "convert_metadata_type (uint (metadata_type_code mt)) = mt"
    by (cases mt) (simp_all add: convert_metadata_type_def)
  show "convert_aggregation_type (aggregation_type_name ag) = ag"
    by (cases ag) (simp_all add: convert_aggregation_type_def)
  show "convert_time_metric (time_metric_name tm) = tm"
    by (cases tm) (simp_all add: convert_time_metric_def)
  show "(trace_event_type_name t = trace_event_type_name t') = (t = t')"
    by (cases t; cases t') simp_all
  show "convert_trace_event_type (int (15 + n)) = TRACE_TYPE_UNKNOWN"
    "convert_trace_event_type (- 1 - int n) = TRACE_TYPE_UNKNOWN"
    by (simp_all add: convert_trace_event_type_def)
qed

end
