(* ===== verification/DFT_Text.thy ===== *)
theory DFT_Text
  imports DFT_Prelude
begin

text \<open>
  Text: strings are character lists, a C string that may be null is an option. Conversion
  to and from bytes, decimal and hexadecimal printing as \<open>std::to_chars\<close> and \<open>%x\<close> print,
  and the searches of \<open>std::string\<close> the code uses (\<open>None\<close> is \<open>npos\<close>).
\<close>

section \<open>Characters and bytes\<close>

definition byte_of_char :: "char \<Rightarrow> byte" where
  "byte_of_char c = of_nat (of_char c)"

definition char_of_byte :: "byte \<Rightarrow> char" where
  "char_of_byte b = char_of (unat b)"

lemma of_char_less: "(of_char c :: nat) < 256"
  by (metis nat_of_char_less_256)

lemma char_byte_inverse [simp]: "char_of_byte (byte_of_char c) = c"
  using of_char_less[of c] by (simp add: char_of_byte_def byte_of_char_def)

lemma byte_char_inverse [simp]: "byte_of_char (char_of_byte b) = b"
  using unat_bound[of b] by (simp add: char_of_byte_def byte_of_char_def)

definition to_bytes :: "string \<Rightarrow> byte list" where
  "to_bytes s = map byte_of_char s"

definition of_bytes :: "byte list \<Rightarrow> string" where
  "of_bytes bs = map char_of_byte bs"

lemma of_bytes_to_bytes [simp]: "of_bytes (to_bytes s) = s"
  by (simp add: of_bytes_def to_bytes_def o_def)

lemma to_bytes_of_bytes [simp]: "to_bytes (of_bytes b) = b"
  by (simp add: of_bytes_def to_bytes_def o_def)

lemma length_to_bytes [simp]: "length (to_bytes s) = length s"
  by (simp add: to_bytes_def)

lemma to_bytes_append [simp]: "to_bytes (s @ t) = to_bytes s @ to_bytes t"
  by (simp add: to_bytes_def)

lemma to_bytes_Nil [simp]: "to_bytes [] = []"
  by (simp add: to_bytes_def)

section \<open>Numbers\<close>

definition digit :: "nat \<Rightarrow> char" where
  "digit n = char_of (48 + n)"

definition hex_digit :: "nat \<Rightarrow> char" where
  "hex_digit n = ''0123456789abcdef'' ! n"

fun show_nat :: "nat \<Rightarrow> string" where
  "show_nat n = (if n < 10 then [digit n] else show_nat (n div 10) @ [digit (n mod 10)])"

declare show_nat.simps [simp del]

definition show_int :: "int \<Rightarrow> string" where
  "show_int i = (if i < 0 then CHR ''-'' # show_nat (nat (- i)) else show_nat (nat i))"

definition show_u64 :: "u64 \<Rightarrow> string" where "show_u64 w = show_nat (unat w)"
definition show_i64 :: "u64 \<Rightarrow> string" where "show_i64 w = show_int (sint w)"

text \<open>The low \<open>n\<close> hexadecimal digits of a number, most significant first.\<close>

fun hex_digits :: "nat \<Rightarrow> nat \<Rightarrow> string" where
  "hex_digits 0 v = []"
| "hex_digits (Suc n) v = hex_digits n (v div 16) @ [hex_digit (v mod 16)]"

lemma length_hex_digits [simp]: "length (hex_digits n v) = n"
  by (induction n arbitrary: v) auto

text \<open>Reading decimal digits back.\<close>

definition read_digit :: "char \<Rightarrow> nat" where
  "read_digit c = of_char c - 48"

definition read_nat :: "string \<Rightarrow> nat" where
  "read_nat s = foldl (\<lambda>v c. 10 * v + read_digit c) 0 s"

lemma read_digit_digit [simp]: "n < 10 \<Longrightarrow> read_digit (digit n) = n"
  by (simp add: read_digit_def digit_def)

lemma read_nat_snoc: "read_nat (s @ [c]) = 10 * read_nat s + read_digit c"
  by (simp add: read_nat_def)

lemma read_show_nat [simp]: "read_nat (show_nat n) = n"
proof (induction n rule: less_induct)
  case (less n)
  show ?case
  proof (cases "n < 10")
    case True
    then show ?thesis by (subst show_nat.simps) (simp add: read_nat_def)
  next
    case False
    then have "read_nat (show_nat (n div 10)) = n div 10" using less by simp
    then show ?thesis using False by (subst show_nat.simps) (simp add: read_nat_snoc)
  qed
qed

lemma show_nat_inj: "show_nat a = show_nat b \<longleftrightarrow> a = b"
  by (metis read_show_nat)

lemma show_nat_digits: "c \<in> set (show_nat n) \<Longrightarrow> 48 \<le> (of_char c :: nat) \<and> (of_char c :: nat) \<le> 57"
proof (induction n rule: less_induct)
  case (less n)
  have d: "m < 10 \<Longrightarrow> (of_char (digit m) :: nat) = 48 + m" for m by (simp add: digit_def)
  show ?case
  proof (cases "n < 10")
    case True
    then have "c = digit n" using less.prems by (subst (asm) show_nat.simps) simp
    then show ?thesis using d[of n] True by simp
  next
    case False
    then have "c \<in> set (show_nat (n div 10)) \<or> c = digit (n mod 10)"
      using less.prems by (subst (asm) show_nat.simps) auto
    then show ?thesis using less.IH[of "n div 10"] d[of "n mod 10"] False by auto
  qed
qed

section \<open>Searching\<close>

text \<open>\<open>find\<close> of a string, \<open>find\<close> of a character, \<open>rfind\<close> of a character.\<close>

fun find_from :: "string \<Rightarrow> string \<Rightarrow> nat \<Rightarrow> nat option" where
  "find_from pat [] i = (if pat = [] then Some i else None)"
| "find_from pat (c # cs) i =
     (if prefix pat (c # cs) then Some i else find_from pat cs (Suc i))"

definition str_find :: "string \<Rightarrow> string \<Rightarrow> nat option" where
  "str_find pat s = find_from pat s 0"

fun char_find_from :: "char \<Rightarrow> string \<Rightarrow> nat \<Rightarrow> nat option" where
  "char_find_from c [] i = None"
| "char_find_from c (x # xs) i = (if x = c then Some i else char_find_from c xs (Suc i))"

definition char_find :: "char \<Rightarrow> string \<Rightarrow> nat option" where
  "char_find c s = char_find_from c s 0"

definition char_rfind :: "char \<Rightarrow> string \<Rightarrow> nat option" where
  "char_rfind c s = (case char_find c (rev s) of None \<Rightarrow> None | Some i \<Rightarrow> Some (length s - 1 - i))"

definition substr :: "nat \<Rightarrow> nat \<Rightarrow> string \<Rightarrow> string" where
  "substr pos n s = take n (drop pos s)"

text \<open>The pieces between separators.\<close>

fun split_on :: "char \<Rightarrow> string \<Rightarrow> string list" where
  "split_on c [] = [[]]"
| "split_on c (x # xs) =
     (if x = c then [] # split_on c xs
      else (case split_on c xs of [] \<Rightarrow> [[x]] | y # ys \<Rightarrow> (x # y) # ys))"

lemma find_from_Some: "find_from pat s i = Some j \<Longrightarrow> \<exists>xs ys. s = xs @ pat @ ys \<and> j = i + length xs"
proof (induction pat s i rule: find_from.induct)
  case (1 pat i)
  then show ?case by (auto split: if_splits)
next
  case (2 pat c cs i)
  show ?case
  proof (cases "prefix pat (c # cs)")
    case True
    then have "j = i" using 2(2) by simp
    moreover obtain ys where "c # cs = pat @ ys" using True by (auto simp: prefix_def)
    ultimately show ?thesis by (intro exI[of _ "[]"] exI[of _ ys]) simp
  next
    case False
    then obtain xs ys where "cs = xs @ pat @ ys" "j = Suc i + length xs" using 2 by auto
    then show ?thesis by (intro exI[of _ "c # xs"] exI[of _ ys]) simp
  qed
qed

lemma find_from_None: "find_from pat s i = None \<longleftrightarrow> \<not> (\<exists>xs ys. s = xs @ pat @ ys)"
proof (induction pat s i rule: find_from.induct)
  case (1 pat i)
  then show ?case by auto
next
  case (2 pat c cs i)
  have "(\<exists>xs ys. c # cs = xs @ pat @ ys) \<longleftrightarrow> prefix pat (c # cs) \<or> (\<exists>xs ys. cs = xs @ pat @ ys)"
    by (auto simp: prefix_def Cons_eq_append_conv)
  then show ?case using 2 by simp
qed

lemma str_find_iff: "str_find pat s \<noteq> None \<longleftrightarrow> sublist pat s"
  using find_from_None[of pat s 0] by (auto simp: str_find_def sublist_def)

end
