(* ===== verification/Metadata_Json.thy ===== *)
theory Metadata_Json
  imports Trace_Types DFT_Text
begin

text \<open>
  The args of an event (\<open>Metadata\<close>, \<open>ArgList\<close>, \<open>RawJson\<close> of
  \<open>core/common/datastructure.h\<close>) and how they are written as JSON
  (\<open>core/serialization/metadata_json.h\<close>, and \<open>json_quote\<close> of \<open>core/utils/utils.h\<close>). The
  writers are generic in the sink, so a function here yields the calls it makes on its
  sink, in order; \<open>render\<close> is the text they produce. How a double prints (\<open>%g\<close>) is the C
  library's: \<open>fmt_g\<close>, on the bits of the double, is a parameter.
\<close>

section \<open>Values\<close>

text \<open>A \<open>const char*\<close> is an option: \<open>None\<close> is null. Integers are at 64 bits, doubles are bits.\<close>

datatype arg_value = Arg_string "string option" | Arg_int u64 | Arg_id u64

record arg_sub =
  sub_name :: "string option"
  sub_values :: "arg_value list"

record arg_list =
  al_nested :: bool
  al_subs :: "arg_sub list"

datatype any_value =
    Any_raw_json string
  | Any_list arg_list
  | Any_signed u64
  | Any_unsigned u64
  | Any_double u64
  | Any_string string
  | Any_cstr "string option"
  | Any_hash "string option"
  | Any_other

text \<open>
  A \<open>Metadata\<close> is an \<open>unordered_map\<close>: a list of entries with distinct keys, in the order
  of its iteration.
\<close>

type_synonym metadata = "(string \<times> MetadataType \<times> any_value) list"

definition metadata_find :: "string \<Rightarrow> metadata \<Rightarrow> (MetadataType \<times> any_value) option" where
  "metadata_find key md = map_of md key"

definition metadata_erase :: "string \<Rightarrow> metadata \<Rightarrow> metadata" where
  "metadata_erase key md = filter (\<lambda>e. fst e \<noteq> key) md"

text \<open>A new key is placed somewhere in the iteration order, here at the end.\<close>

definition metadata_insert :: "string \<Rightarrow> MetadataType \<Rightarrow> any_value \<Rightarrow> metadata \<Rightarrow> metadata" where
  "metadata_insert key ty v md = (if map_of md key = None then md @ [(key, ty, v)] else md)"

definition metadata_insert_or_assign ::
  "string \<Rightarrow> MetadataType \<Rightarrow> any_value \<Rightarrow> metadata \<Rightarrow> metadata" where
  "metadata_insert_or_assign key ty v md =
     (if map_of md key = None then md @ [(key, ty, v)]
      else map (\<lambda>e. if fst e = key then (key, ty, v) else e) md)"

section \<open>Calls on the writer\<close>

datatype emit = Raw string | I64 u64 | U64 u64 | F64 u64

fun render1 :: "(u64 \<Rightarrow> string) \<Rightarrow> emit \<Rightarrow> string" where
  "render1 fmt_g (Raw s) = s"
| "render1 fmt_g (I64 v) = show_i64 v"
| "render1 fmt_g (U64 v) = show_u64 v"
| "render1 fmt_g (F64 v) = fmt_g v"

definition render :: "(u64 \<Rightarrow> string) \<Rightarrow> emit list \<Rightarrow> string" where
  "render fmt_g es = concat (map (render1 fmt_g) es)"

lemma render_simps [simp]:
  "render g [] = []" "render g (e # es) = render1 g e @ render g es"
  "render g (es @ es') = render g es @ render g es'"
  by (simp_all add: render_def)

section \<open>String literals\<close>

definition needs_escape :: "char \<Rightarrow> bool" where
  "needs_escape c \<longleftrightarrow> c = CHR 0x22 \<or> c = CHR 0x5C \<or> (of_char c :: nat) < 32"

definition escape :: "char \<Rightarrow> string" where
  "escape c = (if (of_char c :: nat) < 32 then CHR 0x5C # CHR ''u'' # hex_digits 4 (of_char c)
     else [CHR 0x5C, c])"

fun quoted_run :: "string \<Rightarrow> string \<Rightarrow> emit list" where
  "quoted_run run [] = [Raw run]"
| "quoted_run run (c # cs) =
     (if needs_escape c then Raw run # Raw (escape c) # quoted_run [] cs
      else quoted_run (run @ [c]) cs)"

definition c_string :: "string option \<Rightarrow> string" where
  "c_string s = (case s of None \<Rightarrow> [] | Some t \<Rightarrow> takeWhile (\<lambda>c. c \<noteq> CHR 0x00) t)"

definition quoted :: "string option \<Rightarrow> emit list" where
  "quoted s = [Raw [CHR 0x22]] @ quoted_run [] (c_string s) @ [Raw [CHR 0x22]]"

text \<open>\<open>json_quote\<close> of \<open>core/utils/utils.h\<close>, character by character.\<close>

fun json_quote_chars :: "string \<Rightarrow> string" where
  "json_quote_chars [] = []"
| "json_quote_chars (c # cs) =
     (if c = CHR 0x22 \<or> c = CHR 0x5C then CHR 0x5C # c # json_quote_chars cs
      else if (of_char c :: nat) < 32
        then CHR 0x5C # CHR ''u'' # hex_digits 4 (of_char c) @ json_quote_chars cs
      else c # json_quote_chars cs)"

definition json_quote :: "string option \<Rightarrow> string" where
  "json_quote s = CHR 0x22 # json_quote_chars (c_string s) @ [CHR 0x22]"

section \<open>Lists, values and fields\<close>

fun list_value :: "arg_value \<Rightarrow> emit list" where
  "list_value (Arg_string s) = quoted s"
| "list_value (Arg_int i) = [I64 i]"
| "list_value (Arg_id u) = [Raw (CHR 0x22 # hex_digits 16 (unat u) @ [CHR 0x22])]"

text \<open>The items of a sequence, a comma before each but the first.\<close>

fun comma_separated :: "emit list list \<Rightarrow> emit list" where
  "comma_separated [] = []"
| "comma_separated [x] = x"
| "comma_separated (x # y # xs) = x @ [Raw '',''] @ comma_separated (y # xs)"

definition list_values :: "arg_sub \<Rightarrow> emit list" where
  "list_values sub =
     [Raw ''[''] @ comma_separated (map list_value (sub_values sub)) @ [Raw '']'']"

definition json_list :: "arg_list \<Rightarrow> emit list" where
  "json_list l =
     (if \<not> al_nested l then
        (case al_subs l of [] \<Rightarrow> [Raw ''[]''] | sub # _ \<Rightarrow> list_values sub)
      else [Raw ''{''] @
        comma_separated (map (\<lambda>sub. quoted (sub_name sub) @ [Raw '':''] @ list_values sub)
          (al_subs l)) @ [Raw ''}''])"

definition plain_string :: "string option \<Rightarrow> emit list" where
  "plain_string s = [Raw [CHR 0x22]] @
     (case s of None \<Rightarrow> [] | Some _ \<Rightarrow> [Raw (c_string s)]) @ [Raw [CHR 0x22]]"

text \<open>\<open>None\<close>: the type is not known and nothing is written.\<close>

fun json_value :: "any_value \<Rightarrow> emit list option" where
  "json_value (Any_raw_json s) = Some [Raw s]"
| "json_value (Any_list l) = Some (json_list l)"
| "json_value (Any_double d) = Some [F64 d]"
| "json_value (Any_signed i) = Some [I64 i]"
| "json_value (Any_unsigned u) = Some [U64 u]"
| "json_value (Any_string s) = Some (plain_string (Some s))"
| "json_value (Any_cstr s) = Some (plain_string s)"
| "json_value (Any_hash s) = Some (plain_string s)"
| "json_value Any_other = None"

definition known :: "any_value \<Rightarrow> bool" where
  "known v \<longleftrightarrow> v \<noteq> Any_other"

text \<open>Writes \<open>"key":value\<close> for each known entry; the count is the number written.\<close>

fun fields_from :: "nat \<Rightarrow> metadata \<Rightarrow> bool \<Rightarrow> emit list \<times> nat" where
  "fields_from n [] leading_comma = ([], n)"
| "fields_from n ((key, ty, v) # md) leading_comma =
     (case json_value v of
        None \<Rightarrow> fields_from n md leading_comma
      | Some es \<Rightarrow>
          (case fields_from (Suc n) md leading_comma of (rest, m) \<Rightarrow>
            ((if n > 0 \<or> leading_comma then [Raw '','' ] else []) @
             [Raw [CHR 0x22], Raw key, Raw [CHR 0x22, CHR '':'']] @ es @ rest, m)))"

definition json_fields :: "metadata \<Rightarrow> bool \<Rightarrow> emit list \<times> nat" where
  "json_fields md leading_comma = fields_from 0 md leading_comma"

section \<open>Reading literals back\<close>

text \<open>A reader of JSON string literals, after the opening quote: the text and the rest.\<close>

definition hex_value :: "char \<Rightarrow> nat option" where
  "hex_value c = char_find c ''0123456789abcdef''"

definition hex4 :: "char \<Rightarrow> char \<Rightarrow> char \<Rightarrow> char \<Rightarrow> nat option" where
  "hex4 a b c d = (case (hex_value a, hex_value b, hex_value c, hex_value d) of
     (Some i, Some j, Some k, Some l) \<Rightarrow> Some (((i * 16 + j) * 16 + k) * 16 + l) | _ \<Rightarrow> None)"

fun read_literal :: "string \<Rightarrow> (string \<times> string) option" where
  "read_literal [] = None"
| "read_literal (c # cs) =
     (if c = CHR 0x22 then Some ([], cs)
      else if c = CHR 0x5C then
        (case cs of
           [] \<Rightarrow> None
         | x # rest \<Rightarrow>
             (if x = CHR ''u'' then
                (case rest of
                   a # b # d # e # rest' \<Rightarrow>
                     (case (hex4 a b d e, read_literal rest') of
                        (Some n, Some (t, r)) \<Rightarrow> Some (char_of n # t, r) | _ \<Rightarrow> None)
                 | _ \<Rightarrow> None)
              else if x = CHR 0x22 \<or> x = CHR 0x5C then
                (case read_literal rest of Some (t, r) \<Rightarrow> Some (x # t, r) | None \<Rightarrow> None)
              else None))
      else if (of_char c :: nat) < 32 then None
      else (case read_literal cs of Some (t, r) \<Rightarrow> Some (c # t, r) | None \<Rightarrow> None))"

lemma hex_value_digit: "n < 16 \<Longrightarrow> hex_value (hex_digit n) = Some n"
proof -
  assume "n < 16"
  then have "n \<in> set [0..<16]" by simp
  moreover have "\<forall>m\<in>set [0..<16]. hex_value (hex_digit m) = Some m"
    by code_simp
  ultimately show ?thesis by blast
qed

lemma hex4_digits:
  assumes "n < 65536"
  shows "\<exists>a b c d. hex_digits 4 n = [a, b, c, d] \<and> hex4 a b c d = Some n"
proof -
  let ?p = "n div 16" and ?q = "n div 16 div 16" and ?r = "n div 16 div 16 div 16"
  have "(4 :: nat) = Suc (Suc (Suc (Suc 0)))" by simp
  then have d: "hex_digits 4 n =
      [hex_digit (?r mod 16), hex_digit (?q mod 16), hex_digit (?p mod 16), hex_digit (n mod 16)]"
    by (simp only: hex_digits.simps append.simps)
  have "?r < 16" using assms by simp
  then have "?r mod 16 = ?r" by simp
  moreover have "?r * 16 + ?q mod 16 = ?q" "?q * 16 + ?p mod 16 = ?p" "?p * 16 + n mod 16 = n"
    by (rule div_mult_mod_eq)+
  ultimately have "((?r mod 16 * 16 + ?q mod 16) * 16 + ?p mod 16) * 16 + n mod 16 = n"
    by (simp only:)
  then have "hex4 (hex_digit (?r mod 16)) (hex_digit (?q mod 16)) (hex_digit (?p mod 16))
      (hex_digit (n mod 16)) = Some n"
    by (simp only: hex4_def hex_value_digit mod_less_divisor zero_less_numeral option.case prod.case)
  with d show ?thesis by blast
qed

lemma read_escape:
  assumes "needs_escape c" "read_literal rest = Some (t, r)"
  shows "read_literal (escape c @ rest) = Some (c # t, r)"
proof (cases "(of_char c :: nat) < 32")
  case True
  obtain a b d e where h: "hex_digits 4 (of_char c) = [a, b, d, e]" "hex4 a b d e = Some (of_char c)"
    using hex4_digits[of "of_char c"] True by auto
  then show ?thesis using True assms(2) by (simp add: escape_def)
next
  case False
  then have "c = CHR 0x22 \<or> c = CHR 0x5C" using assms(1) by (simp add: needs_escape_def)
  then show ?thesis using assms(2) by (auto simp: escape_def)
qed

lemma read_plain:
  assumes "\<forall>c\<in>set run. \<not> needs_escape c" "read_literal rest = Some (t, r)"
  shows "read_literal (run @ rest) = Some (run @ t, r)"
  using assms by (induction run) (auto simp: needs_escape_def)

lemma quoted_run_render:
  "render g (quoted_run run s) = run @ concat (map (\<lambda>c. if needs_escape c then escape c else [c]) s)"
  by (induction run s rule: quoted_run.induct) auto

lemma json_quote_chars_eq:
  "json_quote_chars s = concat (map (\<lambda>c. if needs_escape c then escape c else [c]) s)"
  by (induction s) (auto simp: needs_escape_def escape_def)

lemma quoted_json_quote: "render g (quoted s) = json_quote s"
  by (simp add: quoted_def json_quote_def quoted_run_render json_quote_chars_eq)

lemma read_json_quote_chars:
  "read_literal (json_quote_chars s @ CHR 0x22 # rest) = Some (s, rest)"
proof (induction s)
  case Nil
  show ?case by simp
next
  case (Cons c s)
  show ?case
  proof (cases "needs_escape c")
    case True
    then show ?thesis using read_escape[OF True Cons] by (simp add: json_quote_chars_eq)
  next
    case False
    then show ?thesis using read_plain[of "[c]"] Cons by (simp add: json_quote_chars_eq)
  qed
qed

text \<open>
  C5: string literals survive. The run-based writer of \<open>metadata_json\<close> and the
  character-based \<open>json_quote\<close> produce the same text, and a reader of JSON string
  literals gets the C string back, whatever bytes it holds, and stops exactly behind the
  closing quote.
\<close>

theorem quoted_literal_round_trip:
  "render g (quoted s) = json_quote s \<and>
   (\<exists>lit. json_quote s = CHR 0x22 # lit \<and> read_literal (lit @ rest) = Some (c_string s, rest))"
  using quoted_json_quote[of g s] read_json_quote_chars[of "c_string s" rest]
  by (simp add: json_quote_def)

section \<open>Fields\<close>

fun joined :: "string list \<Rightarrow> string" where
  "joined [] = []"
| "joined [x] = x"
| "joined (x # y # xs) = x @ CHR '','' # joined (y # xs)"

definition field_text :: "(u64 \<Rightarrow> string) \<Rightarrow> string \<Rightarrow> any_value \<Rightarrow> string" where
  "field_text g key v =
     CHR 0x22 # key @ [CHR 0x22, CHR '':''] @ render g (the (json_value v))"

definition known_fields :: "metadata \<Rightarrow> metadata" where
  "known_fields md = filter (\<lambda>e. known (snd (snd e))) md"

lemma json_value_None: "json_value v = None \<longleftrightarrow> v = Any_other"
  by (cases v) auto

lemma json_value_known: "known v \<longleftrightarrow> json_value v \<noteq> None"
  by (simp add: known_def json_value_None)

lemma fields_from_comma:
  assumes "n > 0 \<or> lead"
  shows "render g (fst (fields_from n md lead)) =
      concat (map (\<lambda>e. CHR '','' # field_text g (fst e) (snd (snd e))) (known_fields md))"
    and "snd (fields_from n md lead) = n + length (known_fields md)"
  using assms
proof (induction n md lead rule: fields_from.induct)
  case (2 n key ty v md lead)
  {
    case 1
    show ?case
    proof (cases "json_value v")
      case None
      then show ?thesis using 2(1)[OF None 1] by (simp add: known_fields_def known_def json_value_None)
    next
      case (Some es)
      obtain rest m where r: "fields_from (Suc n) md lead = (rest, m)"
        by (cases "fields_from (Suc n) md lead")
      have "known v" using Some json_value_known[of v] by simp
      then show ?thesis using 2(3)[OF Some] r Some 1
        by (simp add: known_fields_def field_text_def)
    qed
  next
    case 2
    show ?case
    proof (cases "json_value v")
      case None
      then show ?thesis using "2.IH"(2)[OF None 2] by (simp add: known_fields_def known_def json_value_None)
    next
      case (Some es)
      obtain rest m where r: "fields_from (Suc n) md lead = (rest, m)"
        by (cases "fields_from (Suc n) md lead")
      have "known v" using Some json_value_known[of v] by simp
      then show ?thesis using "2.IH"(4)[OF Some] r Some
        by (simp add: known_fields_def)
    qed
  }
qed (simp_all add: known_fields_def)

lemma joined_Cons: "joined (x # xs) = x @ concat (map (\<lambda>y. CHR '','' # y) xs)"
  by (induction xs arbitrary: x) auto

lemma json_fields_render:
  "render g (fst (json_fields md False)) =
     joined (map (\<lambda>e. field_text g (fst e) (snd (snd e))) (known_fields md)) \<and>
   render g (fst (json_fields md True)) =
     concat (map (\<lambda>e. CHR '','' # field_text g (fst e) (snd (snd e))) (known_fields md)) \<and>
   snd (json_fields md lead) = length (known_fields md)"
proof -
  have "render g (fst (fields_from 0 md False)) =
      joined (map (\<lambda>e. field_text g (fst e) (snd (snd e))) (known_fields md)) \<and>
      snd (fields_from 0 md False) = length (known_fields md)"
  proof (induction md)
    case Nil
    show ?case by (simp add: known_fields_def)
  next
    case (Cons e md)
    obtain key ty v where e: "e = (key, ty, v)" by (cases e)
    show ?case
    proof (cases "json_value v")
      case None
      then show ?thesis using Cons by (simp add: e known_fields_def known_def json_value_None)
    next
      case (Some es)
      obtain rest m where r: "fields_from (Suc 0) md False = (rest, m)"
        by (cases "fields_from (Suc 0) md False")
      have "known v" using Some json_value_known[of v] by simp
      then have k: "known_fields ((key, ty, v) # md) = (key, ty, v) # known_fields md"
        by (simp add: known_fields_def)
      show ?thesis
        using fields_from_comma(1)[of "Suc 0" False g md] fields_from_comma(2)[of "Suc 0" False md] r Some
        by (simp add: k e joined_Cons field_text_def comp_def)
    qed
  qed
  then show ?thesis
    using fields_from_comma(1)[of 0 True g md] fields_from_comma(2)[of 0 True md] by (cases lead) (simp_all add: json_fields_def)
qed

text \<open>
  The args of an event are exactly its known entries, in order, as
  \<open>"key":value\<close> separated by single commas, each preceded by a comma when the caller asks
  for a leading one; entries of unknown types leave no trace, and the count returned is the
  number of entries written.
\<close>

lemma fields_are_comma_separated:
  "render g (fst (json_fields md False)) =
     joined (map (\<lambda>e. field_text g (fst e) (snd (snd e))) (known_fields md)) \<and>
   render g (fst (json_fields md True)) =
     concat (map (\<lambda>e. CHR '','' # field_text g (fst e) (snd (snd e))) (known_fields md)) \<and>
   snd (json_fields md lead) = length (known_fields md)"
  by (rule json_fields_render)

end
