(* ===== verification/Event_Codec.thy ===== *)
theory Event_Codec
  imports Metadata_Json "HOL-Library.Monad_Syntax"
begin

text \<open>
  The binary payloads of ring records (\<open>core/ipc/event_codec.h\<close>, heads in
  \<open>core/common/datastructure.h\<close>): what a traced process appends for an event, a metadata
  event, a pre-serialized record and a hello, and the bounds-checked decoders of the
  service. Integers are little endian; \<open>int32_t\<close> fields are kept as their 32 bits.
\<close>

section \<open>Heads\<close>

record event_head =
  eh_start_time :: u64
  eh_duration :: u64
  eh_thread_id :: u64
  eh_index :: u32
  eh_process_id :: u32
  eh_type :: byte
  eh_flags :: byte
  eh_name_len :: u16
  eh_category_len :: u16
  eh_meta_count :: u16

record metadata_head =
  mh_thread_id :: u64
  mh_process_id :: u32
  mh_type :: byte
  mh_is_string :: byte
  mh_name_len :: u16
  mh_value_len :: u32
  mh_record_name_len :: u16

record record_head =
  rd_thread_id :: u64
  rd_process_id :: u32
  rd_type :: byte
  rd_reserved :: byte
  rd_record_name_len :: u16
  rd_fields_len :: u32

record hello_head =
  hh_process_id :: u32
  hh_hostname_hash_len :: u16
  hh_log_file_len :: u16

definition event_head_bytes :: "event_head \<Rightarrow> byte list" where
  "event_head_bytes h = bytes_u64 (eh_start_time h) @ bytes_u64 (eh_duration h) @
     bytes_u64 (eh_thread_id h) @ bytes_u32 (eh_index h) @ bytes_u32 (eh_process_id h) @
     [eh_type h, eh_flags h] @ bytes_u16 (eh_name_len h) @ bytes_u16 (eh_category_len h) @
     bytes_u16 (eh_meta_count h)"

definition metadata_head_bytes :: "metadata_head \<Rightarrow> byte list" where
  "metadata_head_bytes h = bytes_u64 (mh_thread_id h) @ bytes_u32 (mh_process_id h) @
     [mh_type h, mh_is_string h] @ bytes_u16 (mh_name_len h) @ bytes_u32 (mh_value_len h) @
     bytes_u16 (mh_record_name_len h)"

definition record_head_bytes :: "record_head \<Rightarrow> byte list" where
  "record_head_bytes h = bytes_u64 (rd_thread_id h) @ bytes_u32 (rd_process_id h) @
     [rd_type h, rd_reserved h] @ bytes_u16 (rd_record_name_len h) @ bytes_u32 (rd_fields_len h)"

definition hello_head_bytes :: "hello_head \<Rightarrow> byte list" where
  "hello_head_bytes h = bytes_u32 (hh_process_id h) @ bytes_u16 (hh_hostname_hash_len h) @
     bytes_u16 (hh_log_file_len h)"

section \<open>Encoding\<close>

text \<open>\<open>short_len\<close>: a C string cut to 65535 bytes, and its length.\<close>

definition short_text :: "string option \<Rightarrow> string" where
  "short_text s = take 65535 (c_string s)"

definition short_len :: "string option \<Rightarrow> u16" where
  "short_len s = of_nat (min (length (c_string s)) 65535)"

definition put_key :: "byte \<Rightarrow> MetadataType \<Rightarrow> string \<Rightarrow> byte list" where
  "put_key tag mtype key = [tag, metadata_type_code mtype] @
     bytes_u16 (of_nat (min (length key) 65535)) @ to_bytes (take 65535 key)"

definition put_long_string :: "string \<Rightarrow> byte list" where
  "put_long_string s = bytes_u32 (of_nat (length s)) @ to_bytes s"

text \<open>
  \<open>put_json\<close>: a length of 0, the JSON, then the length patched in.
\<close>

definition put_json :: "string \<Rightarrow> byte list" where
  "put_json s = put_at 0 (bytes_u32 (of_nat (length s))) (bytes_u32 0 @ to_bytes s)"

definition SHM_VALUE_INT :: byte where [simp]: "SHM_VALUE_INT = 1"
definition SHM_VALUE_UINT :: byte where [simp]: "SHM_VALUE_UINT = 2"
definition SHM_VALUE_DOUBLE :: byte where [simp]: "SHM_VALUE_DOUBLE = 3"
definition SHM_VALUE_STRING :: byte where [simp]: "SHM_VALUE_STRING = 4"
definition SHM_VALUE_RAW_JSON :: byte where [simp]: "SHM_VALUE_RAW_JSON = 5"

fun encode_value :: "(u64 \<Rightarrow> string) \<Rightarrow> string \<Rightarrow> MetadataType \<Rightarrow> any_value \<Rightarrow> byte list" where
  "encode_value g key mt (Any_raw_json s) = put_key SHM_VALUE_RAW_JSON mt key @ put_long_string s"
| "encode_value g key mt (Any_list l) =
     put_key SHM_VALUE_RAW_JSON mt key @ put_json (render g (json_list l))"
| "encode_value g key mt (Any_double d) = put_key SHM_VALUE_DOUBLE mt key @ bytes_u64 d"
| "encode_value g key mt (Any_signed i) = put_key SHM_VALUE_INT mt key @ bytes_u64 i"
| "encode_value g key mt (Any_unsigned u) = put_key SHM_VALUE_UINT mt key @ bytes_u64 u"
| "encode_value g key mt (Any_string s) = put_key SHM_VALUE_STRING mt key @ put_long_string s"
| "encode_value g key mt (Any_cstr s) = put_key SHM_VALUE_STRING mt key @ put_long_string (c_string s)"
| "encode_value g key mt (Any_hash s) = put_key SHM_VALUE_STRING mt key @ put_long_string (c_string s)"
| "encode_value g key mt Any_other = put_key SHM_VALUE_STRING mt key @ put_long_string []"

text \<open>The entries and how many were written: at most 65535.\<close>

fun encode_entries :: "(u64 \<Rightarrow> string) \<Rightarrow> u16 \<Rightarrow> metadata \<Rightarrow> byte list \<times> u16" where
  "encode_entries g count [] = ([], count)"
| "encode_entries g count ((key, mt, v) # md) =
     (if count = 0xffff then ([], count)
      else (case encode_entries g (count + 1) md of
        (bs, n) \<Rightarrow> (encode_value g key mt v @ bs, n)))"

definition encode_metadata :: "(u64 \<Rightarrow> string) \<Rightarrow> metadata option \<Rightarrow> byte list \<times> u16" where
  "encode_metadata g md = (case md of None \<Rightarrow> ([], 0) | Some m \<Rightarrow> encode_entries g 0 m)"

definition meta_count_offset :: nat where "meta_count_offset = 38"

definition encode_event ::
  "(u64 \<Rightarrow> string) \<Rightarrow> u32 \<Rightarrow> string option \<Rightarrow> string option \<Rightarrow> byte \<Rightarrow> u64 \<Rightarrow> u64
     \<Rightarrow> metadata option \<Rightarrow> u32 \<Rightarrow> u64 \<Rightarrow> byte \<Rightarrow> byte list" where
  "encode_event g index name category ty start duration md pid tid flags =
     (let head = \<lparr>eh_start_time = start, eh_duration = duration, eh_thread_id = tid,
            eh_index = index, eh_process_id = pid, eh_type = ty,
            eh_flags = flags OR (if md \<noteq> None then SHM_EVENT_HAS_METADATA else 0),
            eh_name_len = short_len name, eh_category_len = short_len category,
            eh_meta_count = 0\<rparr>;
          (bs, count) = encode_metadata g md
      in put_at meta_count_offset (bytes_u16 count)
           (event_head_bytes head @ to_bytes (short_text name) @ to_bytes (short_text category) @ bs))"

definition encode_metadata_event ::
  "string option \<Rightarrow> string option \<Rightarrow> string option \<Rightarrow> byte \<Rightarrow> u32 \<Rightarrow> u64 \<Rightarrow> bool \<Rightarrow> byte list" where
  "encode_metadata_event name val record_name ty pid tid is_string =
     metadata_head_bytes \<lparr>mh_thread_id = tid, mh_process_id = pid, mh_type = ty,
       mh_is_string = (if is_string then 1 else 0), mh_name_len = short_len name,
       mh_value_len = of_nat (length (c_string val)), mh_record_name_len = short_len record_name\<rparr> @
     to_bytes (short_text name) @ to_bytes (c_string val) @ to_bytes (short_text record_name)"

definition fields_len_offset :: nat where "fields_len_offset = 16"

definition encode_record ::
  "(u64 \<Rightarrow> string) \<Rightarrow> string option \<Rightarrow> metadata option \<Rightarrow> byte \<Rightarrow> u32 \<Rightarrow> u64 \<Rightarrow> byte list" where
  "encode_record g record_name md ty pid tid =
     (let head = \<lparr>rd_thread_id = tid, rd_process_id = pid, rd_type = ty, rd_reserved = 0,
            rd_record_name_len = short_len record_name, rd_fields_len = 0\<rparr>;
          js = (case md of None \<Rightarrow> [] | Some m \<Rightarrow> to_bytes (render g (fst (json_fields m False))))
      in put_at fields_len_offset (bytes_u32 (of_nat (length js)))
           (record_head_bytes head @ to_bytes (short_text record_name) @ js))"

definition encode_record_text ::
  "string option \<Rightarrow> string option \<Rightarrow> byte \<Rightarrow> u32 \<Rightarrow> u64 \<Rightarrow> byte list" where
  "encode_record_text record_name fields_text ty pid tid =
     record_head_bytes \<lparr>rd_thread_id = tid, rd_process_id = pid, rd_type = ty, rd_reserved = 0,
       rd_record_name_len = short_len record_name,
       rd_fields_len = of_nat (length (c_string fields_text))\<rparr> @
     to_bytes (short_text record_name) @ to_bytes (c_string fields_text)"

definition encode_hello :: "u32 \<Rightarrow> string option \<Rightarrow> string option \<Rightarrow> byte list" where
  "encode_hello pid hostname_hash log_file =
     hello_head_bytes \<lparr>hh_process_id = pid, hh_hostname_hash_len = short_len hostname_hash,
       hh_log_file_len = short_len log_file\<rparr> @
     to_bytes (short_text hostname_hash) @ to_bytes (short_text log_file)"

section \<open>Decoding\<close>

text \<open>\<open>ByteReader\<close>: the bytes read and the bytes left, or \<open>None\<close> when too few are left.\<close>

definition get :: "nat \<Rightarrow> byte list \<Rightarrow> (byte list \<times> byte list) option" where
  "get n r = (if length r < n then None else Some (take n r, drop n r))"

definition view_text :: "nat \<Rightarrow> byte list \<Rightarrow> (string \<times> byte list) option" where
  "view_text n r = do { (bs, r') \<leftarrow> get n r; Some (of_bytes bs, r') }"

record decoded_value =
  dv_tag :: byte
  dv_mtype :: byte
  dv_key :: string
  dv_i :: u64
  dv_u :: u64
  dv_d :: u64
  dv_s :: string

record decoded_event =
  de_head :: event_head
  de_name :: string
  de_category :: string
  de_values :: "decoded_value list"

record decoded_metadata =
  dm_head :: metadata_head
  dm_name :: string
  dm_value :: string
  dm_record_name :: string

record decoded_record =
  dr_head :: record_head
  dr_record_name :: string
  dr_fields :: string

record decoded_hello =
  dh_head :: hello_head
  dh_hostname_hash :: string
  dh_log_file :: string

definition read_event_head :: "byte list \<Rightarrow> event_head" where
  "read_event_head b = \<lparr>eh_start_time = u64_of (take_at 0 8 b), eh_duration = u64_of (take_at 8 8 b),
     eh_thread_id = u64_of (take_at 16 8 b), eh_index = u32_of (take_at 24 4 b),
     eh_process_id = u32_of (take_at 28 4 b), eh_type = b ! 32, eh_flags = b ! 33,
     eh_name_len = u16_of (take_at 34 2 b), eh_category_len = u16_of (take_at 36 2 b),
     eh_meta_count = u16_of (take_at 38 2 b)\<rparr>"

definition read_metadata_head :: "byte list \<Rightarrow> metadata_head" where
  "read_metadata_head b = \<lparr>mh_thread_id = u64_of (take_at 0 8 b),
     mh_process_id = u32_of (take_at 8 4 b), mh_type = b ! 12, mh_is_string = b ! 13,
     mh_name_len = u16_of (take_at 14 2 b), mh_value_len = u32_of (take_at 16 4 b),
     mh_record_name_len = u16_of (take_at 20 2 b)\<rparr>"

definition read_record_head :: "byte list \<Rightarrow> record_head" where
  "read_record_head b = \<lparr>rd_thread_id = u64_of (take_at 0 8 b),
     rd_process_id = u32_of (take_at 8 4 b), rd_type = b ! 12, rd_reserved = b ! 13,
     rd_record_name_len = u16_of (take_at 14 2 b), rd_fields_len = u32_of (take_at 16 4 b)\<rparr>"

definition read_hello_head :: "byte list \<Rightarrow> hello_head" where
  "read_hello_head b = \<lparr>hh_process_id = u32_of (take_at 0 4 b),
     hh_hostname_hash_len = u16_of (take_at 4 2 b), hh_log_file_len = u16_of (take_at 6 2 b)\<rparr>"

definition empty_value :: decoded_value where
  "empty_value = \<lparr>dv_tag = 0, dv_mtype = 0, dv_key = [], dv_i = 0, dv_u = 0, dv_d = 0, dv_s = []\<rparr>"

definition decode_value :: "byte list \<Rightarrow> (decoded_value \<times> byte list) option" where
  "decode_value r = do {
     (tag, r) \<leftarrow> get 1 r;
     (mtype, r) \<leftarrow> get 1 r;
     (key_len, r) \<leftarrow> get 2 r;
     (key, r) \<leftarrow> view_text (unat (u16_of key_len)) r;
     let v = empty_value\<lparr>dv_tag := hd tag, dv_mtype := hd mtype, dv_key := key\<rparr>;
     (if hd tag = SHM_VALUE_INT then do { (x, r) \<leftarrow> get 8 r; Some (v\<lparr>dv_i := u64_of x\<rparr>, r) }
      else if hd tag = SHM_VALUE_UINT then do { (x, r) \<leftarrow> get 8 r; Some (v\<lparr>dv_u := u64_of x\<rparr>, r) }
      else if hd tag = SHM_VALUE_DOUBLE then do { (x, r) \<leftarrow> get 8 r; Some (v\<lparr>dv_d := u64_of x\<rparr>, r) }
      else if hd tag = SHM_VALUE_STRING \<or> hd tag = SHM_VALUE_RAW_JSON then do {
        (len, r) \<leftarrow> get 4 r;
        (s, r) \<leftarrow> view_text (unat (u32_of len)) r;
        Some (v\<lparr>dv_s := s\<rparr>, r) }
      else None)
   }"

fun decode_values :: "nat \<Rightarrow> byte list \<Rightarrow> (decoded_value list \<times> byte list) option" where
  "decode_values 0 r = Some ([], r)"
| "decode_values (Suc n) r = do {
     (v, r) \<leftarrow> decode_value r;
     (vs, r) \<leftarrow> decode_values n r;
     Some (v # vs, r) }"

text \<open>The decoders with the bytes they leave; the payload may have alignment slack.\<close>

definition decode_event_rest :: "byte list \<Rightarrow> (decoded_event \<times> byte list) option" where
  "decode_event_rest r = do {
     (hb, r) \<leftarrow> get 40 r;
     let head = read_event_head hb;
     (name, r) \<leftarrow> view_text (unat (eh_name_len head)) r;
     (category, r) \<leftarrow> view_text (unat (eh_category_len head)) r;
     (vs, r) \<leftarrow> decode_values (unat (eh_meta_count head)) r;
     Some (\<lparr>de_head = head, de_name = name, de_category = category, de_values = vs\<rparr>, r) }"

definition decode_event :: "byte list \<Rightarrow> decoded_event option" where
  "decode_event r = map_option fst (decode_event_rest r)"

definition decode_metadata_event :: "byte list \<Rightarrow> decoded_metadata option" where
  "decode_metadata_event r = do {
     (hb, r) \<leftarrow> get 22 r;
     let head = read_metadata_head hb;
     (name, r) \<leftarrow> view_text (unat (mh_name_len head)) r;
     (val, r) \<leftarrow> view_text (unat (mh_value_len head)) r;
     (record_name, r) \<leftarrow> view_text (unat (mh_record_name_len head)) r;
     Some \<lparr>dm_head = head, dm_name = name, dm_value = val, dm_record_name = record_name\<rparr> }"

definition decode_record :: "byte list \<Rightarrow> decoded_record option" where
  "decode_record r = do {
     (hb, r) \<leftarrow> get 20 r;
     let head = read_record_head hb;
     (record_name, r) \<leftarrow> view_text (unat (rd_record_name_len head)) r;
     (fs, r) \<leftarrow> view_text (unat (rd_fields_len head)) r;
     Some \<lparr>dr_head = head, dr_record_name = record_name, dr_fields = fs\<rparr> }"

definition decode_hello :: "byte list \<Rightarrow> decoded_hello option" where
  "decode_hello r = do {
     (hb, r) \<leftarrow> get 8 r;
     let head = read_hello_head hb;
     (hash, r) \<leftarrow> view_text (unat (hh_hostname_hash_len head)) r;
     (file, r) \<leftarrow> view_text (unat (hh_log_file_len head)) r;
     Some \<lparr>dh_head = head, dh_hostname_hash = hash, dh_log_file = file\<rparr> }"

section \<open>Round trips\<close>

lemma get_append [simp]: "length xs = n \<Longrightarrow> get n (xs @ ys) = Some (xs, ys)"
  by (auto simp: get_def)

lemma view_text_append [simp]: "length s = n \<Longrightarrow> view_text n (to_bytes s @ ys) = Some (s, ys)"
  by (simp add: view_text_def)

lemma length_heads [simp]:
  "length (event_head_bytes eh) = 40" "length (metadata_head_bytes mh) = 22"
  "length (record_head_bytes rh) = 20" "length (hello_head_bytes hh) = 8"
  by (simp_all add: event_head_bytes_def metadata_head_bytes_def record_head_bytes_def
      hello_head_bytes_def)

lemma read_heads [simp]:
  "read_event_head (event_head_bytes eh) = eh" "read_metadata_head (metadata_head_bytes mh) = mh"
  "read_record_head (record_head_bytes rh) = rh" "read_hello_head (hello_head_bytes hh) = hh"
  by (simp_all add: read_event_head_def event_head_bytes_def read_metadata_head_def
      metadata_head_bytes_def read_record_head_def record_head_bytes_def read_hello_head_def
      hello_head_bytes_def take_at_def nth_append)

lemma short_len_length [simp]: "unat (short_len s) = length (short_text s)"
proof -
  have "unat (of_nat (min (length (c_string s)) 65535) :: u16) = min (length (c_string s)) 65535"
    by (intro unat_of_nat_small) (simp add: min_def)
  then show ?thesis by (simp add: short_len_def short_text_def min.commute)
qed

lemma u32_length: "n < 2 ^ 32 \<Longrightarrow> unat (of_nat n :: u32) = n"
  by (intro unat_of_nat_small) simp

text \<open>What the service sees of an entry.\<close>

definition decoded_base :: "byte \<Rightarrow> string \<Rightarrow> MetadataType \<Rightarrow> decoded_value" where
  "decoded_base tag key mt =
     empty_value\<lparr>dv_tag := tag, dv_mtype := metadata_type_code mt, dv_key := take 65535 key\<rparr>"

fun decoded_entry :: "(u64 \<Rightarrow> string) \<Rightarrow> string \<Rightarrow> MetadataType \<Rightarrow> any_value \<Rightarrow> decoded_value" where
  "decoded_entry g key mt (Any_raw_json s) = (decoded_base SHM_VALUE_RAW_JSON key mt)\<lparr>dv_s := s\<rparr>"
| "decoded_entry g key mt (Any_list l) =
     (decoded_base SHM_VALUE_RAW_JSON key mt)\<lparr>dv_s := render g (json_list l)\<rparr>"
| "decoded_entry g key mt (Any_double d) = (decoded_base SHM_VALUE_DOUBLE key mt)\<lparr>dv_d := d\<rparr>"
| "decoded_entry g key mt (Any_signed i) = (decoded_base SHM_VALUE_INT key mt)\<lparr>dv_i := i\<rparr>"
| "decoded_entry g key mt (Any_unsigned u) = (decoded_base SHM_VALUE_UINT key mt)\<lparr>dv_u := u\<rparr>"
| "decoded_entry g key mt (Any_string s) = (decoded_base SHM_VALUE_STRING key mt)\<lparr>dv_s := s\<rparr>"
| "decoded_entry g key mt (Any_cstr s) = (decoded_base SHM_VALUE_STRING key mt)\<lparr>dv_s := c_string s\<rparr>"
| "decoded_entry g key mt (Any_hash s) = (decoded_base SHM_VALUE_STRING key mt)\<lparr>dv_s := c_string s\<rparr>"
| "decoded_entry g key mt Any_other = (decoded_base SHM_VALUE_STRING key mt)\<lparr>dv_s := []\<rparr>"

text \<open>The text of a value fits its 32-bit length (a record is at most 16 MiB).\<close>

fun value_text :: "(u64 \<Rightarrow> string) \<Rightarrow> any_value \<Rightarrow> string" where
  "value_text g (Any_raw_json s) = s"
| "value_text g (Any_list l) = render g (json_list l)"
| "value_text g (Any_string s) = s"
| "value_text g (Any_cstr s) = c_string s"
| "value_text g (Any_hash s) = c_string s"
| "value_text g _ = []"

definition sized :: "(u64 \<Rightarrow> string) \<Rightarrow> metadata \<Rightarrow> bool" where
  "sized g md \<longleftrightarrow> (\<forall>e\<in>set md. length (value_text g (snd (snd e))) < 2 ^ 32)"

lemma put_json_eq: "put_json s = put_long_string s"
  using put_at_middle[of 0 "[]" "bytes_u32 0" "bytes_u32 (of_nat (length s))" "to_bytes s"]
  by (simp add: put_json_def put_long_string_def)

lemma get_one [simp]: "get (Suc 0) (a # ys) = Some ([a], ys)"
  by (simp add: get_def)

lemma view_text_0 [simp]: "view_text 0 r = Some ([], r)"
  by (simp add: view_text_def get_def of_bytes_def)

lemma key_len [simp]: "unat (of_nat (min n 65535) :: u16) = min n 65535"
  by (intro unat_of_nat_small) (simp add: min_def)

lemma decode_encode_value:
  assumes "length (value_text g v) < 2 ^ 32"
  shows "decode_value (encode_value g key mt v @ r) = Some (decoded_entry g key mt v, r)"
  using assms
  by (cases v)
    (simp_all add: decode_value_def put_key_def put_long_string_def u32_length put_json_eq
      decoded_base_def Let_def)

lemma encode_entries_eq:
  "encode_entries g c md =
     (concat (map (\<lambda>(key, mt, v). encode_value g key mt v) (take (65535 - unat c) md)),
      c + of_nat (min (65535 - unat c) (length md)))"
proof (induction md arbitrary: c)
  case Nil
  show ?case by simp
next
  case (Cons e md)
  obtain key mt v where e: "e = (key, mt, v)" by (cases e)
  show ?case
  proof (cases "c = 0xffff")
    case True
    then show ?thesis by (simp add: e)
  next
    case False
    have "unat c < 2 ^ 16" using unat_bound[of c] by simp
    moreover have "unat c \<noteq> 65535" using False by (auto simp: word_unat_eq_iff)
    ultimately have lt: "unat c < 65535" by simp
    then have "unat (c + 1) = unat c + 1" by (simp add: unat_word_ariths)
    then have k: "65535 - unat c = Suc (65535 - unat (c + 1))" using lt by simp
    show ?thesis
      unfolding e encode_entries.simps if_not_P[OF False] Cons.IH k by (simp add: algebra_simps)
  qed
qed

lemma encode_metadata_eq:
  "encode_metadata g (Some md) =
     (concat (map (\<lambda>(key, mt, v). encode_value g key mt v) (take 65535 md)),
      of_nat (min 65535 (length md)))"
  by (simp add: encode_metadata_def encode_entries_eq)

lemma decode_values_encoded:
  assumes "sized g md"
  shows "decode_values (length md)
      (concat (map (\<lambda>(key, mt, v). encode_value g key mt v) md) @ r) =
    Some (map (\<lambda>(key, mt, v). decoded_entry g key mt v) md, r)"
  using assms
proof (induction md)
  case (Cons e md)
  obtain key mt v where e: "e = (key, mt, v)" by (cases e)
  have "sized g md" "length (value_text g v) < 2 ^ 32" using Cons.prems by (simp_all add: sized_def e)
  then show ?case using Cons.IH by (simp add: e decode_encode_value)
qed simp

lemma event_head_patch:
  "put_at meta_count_offset (bytes_u16 n) (event_head_bytes h @ rest) =
   event_head_bytes (h\<lparr>eh_meta_count := n\<rparr>) @ rest"
proof -
  let ?pre = "bytes_u64 (eh_start_time h) @ bytes_u64 (eh_duration h) @ bytes_u64 (eh_thread_id h) @
    bytes_u32 (eh_index h) @ bytes_u32 (eh_process_id h) @ [eh_type h, eh_flags h] @
    bytes_u16 (eh_name_len h) @ bytes_u16 (eh_category_len h)"
  have "put_at meta_count_offset (bytes_u16 n) (?pre @ bytes_u16 (eh_meta_count h) @ rest) =
      ?pre @ bytes_u16 n @ rest"
    by (rule put_at_middle) (simp_all add: meta_count_offset_def)
  then show ?thesis by (simp add: event_head_bytes_def)
qed

lemma record_head_patch:
  "put_at fields_len_offset (bytes_u32 n) (record_head_bytes h @ rest) =
   record_head_bytes (h\<lparr>rd_fields_len := n\<rparr>) @ rest"
proof -
  let ?pre = "bytes_u64 (rd_thread_id h) @ bytes_u32 (rd_process_id h) @
    [rd_type h, rd_reserved h] @ bytes_u16 (rd_record_name_len h)"
  have "put_at fields_len_offset (bytes_u32 n) (?pre @ bytes_u32 (rd_fields_len h) @ rest) =
      ?pre @ bytes_u32 n @ rest"
    by (rule put_at_middle) (simp_all add: fields_len_offset_def)
  then show ?thesis by (simp add: record_head_bytes_def)
qed

text \<open>The event the service decodes.\<close>

definition expected_event ::
  "(u64 \<Rightarrow> string) \<Rightarrow> u32 \<Rightarrow> string option \<Rightarrow> string option \<Rightarrow> byte \<Rightarrow> u64 \<Rightarrow> u64
     \<Rightarrow> metadata option \<Rightarrow> u32 \<Rightarrow> u64 \<Rightarrow> byte \<Rightarrow> decoded_event" where
  "expected_event g index name category ty start duration md pid tid flags =
     (let entries = (case md of None \<Rightarrow> [] | Some m \<Rightarrow> take 65535 m)
      in \<lparr>de_head = \<lparr>eh_start_time = start, eh_duration = duration, eh_thread_id = tid,
            eh_index = index, eh_process_id = pid, eh_type = ty,
            eh_flags = flags OR (if md \<noteq> None then SHM_EVENT_HAS_METADATA else 0),
            eh_name_len = short_len name, eh_category_len = short_len category,
            eh_meta_count = of_nat (length entries)\<rparr>,
          de_name = short_text name, de_category = short_text category,
          de_values = map (\<lambda>(key, mt, v). decoded_entry g key mt v) entries\<rparr>)"

lemma decode_event_rest_encoded:
  assumes "\<And>m. md = Some m \<Longrightarrow> sized g m"
  shows "decode_event_rest
      (encode_event g index name category ty start duration md pid tid flags @ slack) =
    Some (expected_event g index name category ty start duration md pid tid flags, slack)"
proof -
  let ?es = "case md of None \<Rightarrow> [] | Some m \<Rightarrow> take 65535 m"
  have m: "encode_metadata g md =
      (concat (map (\<lambda>(key, mt, v). encode_value g key mt v) ?es), of_nat (length ?es))"
  proof (cases md)
    case (Some m)
    then show ?thesis by (simp add: encode_metadata_eq min.commute)
  qed (simp add: encode_metadata_def)
  have "length ?es \<le> 65535" by (simp split: option.split)
  then have n: "unat (of_nat (length ?es) :: u16) = length ?es"
    by (intro unat_of_nat_small) simp
  have "sized g ?es"
  proof (cases md)
    case (Some m)
    then show ?thesis using assms[OF Some] by (auto simp: sized_def dest: in_set_takeD)
  qed (simp add: sized_def)
  note dv = decode_values_encoded[OF this, of slack]
  show ?thesis
    unfolding encode_event_def Let_def m prod.case event_head_patch
    by (simp add: decode_event_rest_def expected_event_def Let_def n dv)
qed

text \<open>
  C6: an event survives the ring. Whatever alignment slack follows the payload, the service
  decodes exactly what the process logged: the head, the name and category (cut to 65535
  bytes), and the first 65535 metadata entries in order, with their kinds and values; lists
  arrive as the JSON they print, values of unknown types as empty strings, and the
  has-metadata flag tells a missing metadata from an empty one.
\<close>

theorem event_round_trip:
  assumes "\<And>m. md = Some m \<Longrightarrow> sized g m"
  shows "decode_event (encode_event g index name category ty start duration md pid tid flags @ slack) =
    Some (expected_event g index name category ty start duration md pid tid flags)"
  using decode_event_rest_encoded[OF assms] by (simp add: decode_event_def)

lemma event_round_trip_witness:
  "decode_event (encode_event (\<lambda>_. ''0.5'') 3 (Some ''read'') None 3 100 7
      (Some [(''size'', MT_VALUE, Any_unsigned 4096), (''mode'', MT_KEY, Any_cstr (Some ''rw''))])
      42 43 1 @ [0, 0, 0]) =
    Some (expected_event (\<lambda>_. ''0.5'') 3 (Some ''read'') None 3 100 7
      (Some [(''size'', MT_VALUE, Any_unsigned 4096), (''mode'', MT_KEY, Any_cstr (Some ''rw''))])
      42 43 1)"
  by (rule event_round_trip) (auto simp: sized_def c_string_def)

section \<open>Truncated payloads\<close>

text \<open>A parser that succeeds reads the same from a longer input and leaves the addition.\<close>

definition extends :: "(byte list \<Rightarrow> ('a \<times> byte list) option) \<Rightarrow> bool" where
  "extends p \<longleftrightarrow> (\<forall>bs x r ys. p bs = Some (x, r) \<longrightarrow> p (bs @ ys) = Some (x, r @ ys))"

named_theorems extends_intros "parsers that extend"

lemma extends_get [extends_intros]: "extends (get n)"
  by (auto simp: extends_def get_def)

lemma extends_bind [extends_intros]:
  assumes "extends p" "\<And>x. extends (q x)"
  shows "extends (\<lambda>bs. do { (x, r) \<leftarrow> p bs; q x r })"
  using assms by (auto simp: extends_def bind_eq_Some_conv split: prod.splits)

lemma extends_return [extends_intros]: "extends (\<lambda>r. Some (c, r))"
  by (simp add: extends_def)

lemma extends_fail [extends_intros]: "extends (\<lambda>r. None)"
  by (simp add: extends_def)

lemma extends_if [extends_intros]:
  "extends p \<Longrightarrow> extends q \<Longrightarrow> extends (\<lambda>r. if b then p r else q r)"
  by (simp add: extends_def)

lemma extends_view_text [extends_intros]: "extends (view_text n)"
  unfolding view_text_def by (intro extends_intros)

lemma extends_decode_value [extends_intros]: "extends decode_value"
  unfolding decode_value_def Let_def by (intro extends_intros)

lemma extends_decode_values [extends_intros]: "extends (decode_values n)"
proof (induction n)
  case (Suc n)
  then show ?case
    unfolding decode_values.simps by (intro extends_intros) assumption
qed (simp add: extends_def)

lemma extends_decode_event: "extends decode_event_rest"
  unfolding decode_event_rest_def Let_def by (intro extends_intros)

text \<open>
  C7: a truncated event is refused. No proper prefix of an encoded event decodes: the
  decoder never accepts a record whose bytes are not all there, nor reads past them.
\<close>

theorem truncated_event_refused:
  assumes "\<And>m. md = Some m \<Longrightarrow> sized g m"
    and "n < length (encode_event g index name category ty start duration md pid tid flags)"
  shows "decode_event
    (take n (encode_event g index name category ty start duration md pid tid flags)) = None"
proof (rule ccontr)
  let ?enc = "encode_event g index name category ty start duration md pid tid flags"
  assume "decode_event (take n ?enc) \<noteq> None"
  then obtain e r where "decode_event_rest (take n ?enc) = Some (e, r)"
    by (auto simp: decode_event_def)
  then have "decode_event_rest (take n ?enc @ drop n ?enc) = Some (e, r @ drop n ?enc)"
    using extends_decode_event unfolding extends_def by blast
  moreover have "decode_event_rest ?enc =
      Some (expected_event g index name category ty start duration md pid tid flags, [])"
    using decode_event_rest_encoded[OF assms(1), where slack = "[]"] by simp
  ultimately have "drop n ?enc = []" by simp
  then show False using assms(2) by simp
qed

lemma truncated_event_refused_witness:
  "decode_event (take 44 (encode_event (\<lambda>_. ''0.5'') 3 (Some ''read'') (Some ''POSIX'') 3 100 7 None
      42 43 1)) = None"
proof (rule truncated_event_refused)
  show "44 < length (encode_event (\<lambda>_. ''0.5'') 3 (Some ''read'') (Some ''POSIX'') 3 100 7 None 42 43 1)"
    by (simp add: encode_event_def Let_def encode_metadata_def event_head_patch short_text_def
        c_string_def)
qed simp

lemma decode_metadata_encoded:
  assumes "length (c_string val) < 2 ^ 32"
  shows "decode_metadata_event (encode_metadata_event name val record_name ty pid tid is_string @ slack) =
    Some \<lparr>dm_head = \<lparr>mh_thread_id = tid, mh_process_id = pid, mh_type = ty,
        mh_is_string = (if is_string then 1 else 0), mh_name_len = short_len name,
        mh_value_len = of_nat (length (c_string val)),
        mh_record_name_len = short_len record_name\<rparr>,
      dm_name = short_text name, dm_value = c_string val, dm_record_name = short_text record_name\<rparr>"
  using assms by (simp add: decode_metadata_event_def encode_metadata_event_def Let_def u32_length)

lemma decode_record_encoded:
  assumes "length (render g (fst (json_fields m False))) < 2 ^ 32"
  shows "decode_record (encode_record g record_name (Some m) ty pid tid @ slack) =
    Some \<lparr>dr_head = \<lparr>rd_thread_id = tid, rd_process_id = pid, rd_type = ty, rd_reserved = 0,
        rd_record_name_len = short_len record_name,
        rd_fields_len = of_nat (length (render g (fst (json_fields m False))))\<rparr>,
      dr_record_name = short_text record_name,
      dr_fields = render g (fst (json_fields m False))\<rparr>"
  using assms by (simp add: encode_record_def Let_def record_head_patch decode_record_def u32_length)

lemma decode_hello_encoded:
  "decode_hello (encode_hello pid name val @ slack) =
    Some \<lparr>dh_head = \<lparr>hh_process_id = pid, hh_hostname_hash_len = short_len name,
        hh_log_file_len = short_len val\<rparr>,
      dh_hostname_hash = short_text name, dh_log_file = short_text val\<rparr>"
  by (simp add: decode_hello_def encode_hello_def Let_def)

text \<open>
  C8: the control records survive the ring: a metadata event, a pre-serialized record, a
  record serialized from its fields and a hello decode to what was logged, whatever slack
  follows them.
\<close>

theorem control_records_round_trip:
  assumes "length (c_string val) < 2 ^ 32" "length (c_string txt) < 2 ^ 32"
    and "length (render g (fst (json_fields m False))) < 2 ^ 32"
  shows "decode_metadata_event (encode_metadata_event name val record_name ty pid tid is_string @ slack) =
      Some \<lparr>dm_head = \<lparr>mh_thread_id = tid, mh_process_id = pid, mh_type = ty,
          mh_is_string = (if is_string then 1 else 0), mh_name_len = short_len name,
          mh_value_len = of_nat (length (c_string val)),
          mh_record_name_len = short_len record_name\<rparr>,
        dm_name = short_text name, dm_value = c_string val, dm_record_name = short_text record_name\<rparr> \<and>
    decode_record (encode_record_text record_name txt ty pid tid @ slack) =
      Some \<lparr>dr_head = \<lparr>rd_thread_id = tid, rd_process_id = pid, rd_type = ty, rd_reserved = 0,
          rd_record_name_len = short_len record_name,
          rd_fields_len = of_nat (length (c_string txt))\<rparr>,
        dr_record_name = short_text record_name, dr_fields = c_string txt\<rparr> \<and>
    decode_record (encode_record g record_name (Some m) ty pid tid @ slack) =
      Some \<lparr>dr_head = \<lparr>rd_thread_id = tid, rd_process_id = pid, rd_type = ty, rd_reserved = 0,
          rd_record_name_len = short_len record_name,
          rd_fields_len = of_nat (length (render g (fst (json_fields m False))))\<rparr>,
        dr_record_name = short_text record_name,
        dr_fields = render g (fst (json_fields m False))\<rparr> \<and>
    decode_hello (encode_hello pid name val @ slack) =
      Some \<lparr>dh_head = \<lparr>hh_process_id = pid, hh_hostname_hash_len = short_len name,
          hh_log_file_len = short_len val\<rparr>,
        dh_hostname_hash = short_text name, dh_log_file = short_text val\<rparr>"
  using decode_metadata_encoded[OF assms(1)] decode_record_encoded[OF assms(3)] assms(2)
  by (simp add: decode_hello_encoded decode_record_def encode_record_text_def Let_def u32_length)

lemma control_records_round_trip_witness:
  "\<exists>d. decode_hello (encode_hello 42 (Some ''ab12'') (Some ''/tmp/x.pfw'') @ [0]) = Some d \<and>
     dh_hostname_hash d = ''ab12'' \<and> dh_log_file d = ''/tmp/x.pfw''"
proof -
  have a: "length (c_string (Some ''/tmp/x.pfw'')) < 2 ^ 32" by (simp add: c_string_def)
  have b: "length (c_string None) < 2 ^ 32" by (simp add: c_string_def)
  have c: "length (render (\<lambda>_. []) (fst (json_fields [] False))) < 2 ^ 32"
    by (simp add: json_fields_def)
  show ?thesis
    using control_records_round_trip[OF a b c, of "Some ''ab12''" None 0 42 0 True "[0]"]
    by (simp add: short_text_def c_string_def)
qed

section \<open>What a decoder yields\<close>

text \<open>
  A value has one of the five tags, holds nothing in the members of the other tags, and its
  key and text fit their lengths.
\<close>

definition well_typed_value :: "decoded_value \<Rightarrow> bool" where
  "well_typed_value v \<longleftrightarrow>
     dv_tag v \<in> {SHM_VALUE_INT, SHM_VALUE_UINT, SHM_VALUE_DOUBLE, SHM_VALUE_STRING, SHM_VALUE_RAW_JSON} \<and>
     (dv_tag v \<noteq> SHM_VALUE_INT \<longrightarrow> dv_i v = 0) \<and> (dv_tag v \<noteq> SHM_VALUE_UINT \<longrightarrow> dv_u v = 0) \<and>
     (dv_tag v \<noteq> SHM_VALUE_DOUBLE \<longrightarrow> dv_d v = 0) \<and>
     (dv_tag v \<notin> {SHM_VALUE_STRING, SHM_VALUE_RAW_JSON} \<longrightarrow> dv_s v = []) \<and>
     length (dv_key v) < 2 ^ 16 \<and> length (dv_s v) < 2 ^ 32"

definition well_typed_event :: "byte list \<Rightarrow> decoded_event \<Rightarrow> bool" where
  "well_typed_event r e \<longleftrightarrow>
     length (de_name e) = unat (eh_name_len (de_head e)) \<and>
     length (de_category e) = unat (eh_category_len (de_head e)) \<and>
     length (de_values e) = unat (eh_meta_count (de_head e)) \<and> list_all well_typed_value (de_values e) \<and>
     40 + length (de_name e) + length (de_category e) +
       sum_list (map (\<lambda>v. 8 + length (dv_key v) + length (dv_s v)) (de_values e)) \<le> length r"

lemma get_SomeD: "get n r = Some (bs, r') \<Longrightarrow> length bs = n \<and> length r = n + length r'"
  by (auto simp: get_def split: if_splits)

lemma view_text_SomeD: "view_text n r = Some (s, r') \<Longrightarrow> length s = n \<and> length r = n + length r'"
  by (auto simp: view_text_def of_bytes_def dest!: get_SomeD split: bind_splits)

lemma decode_value_typed:
  assumes "decode_value r = Some (v, r')"
  shows "well_typed_value v \<and> 8 + length (dv_key v) + length (dv_s v) + length r' \<le> length r"
proof -
  obtain tag r1 where 1: "get 1 r = Some (tag, r1)" using assms by (auto simp: decode_value_def split: bind_splits)
  obtain mt r2 where 2: "get 1 r1 = Some (mt, r2)" using assms 1 by (auto simp: decode_value_def split: bind_splits)
  obtain kl r3 where 3: "get 2 r2 = Some (kl, r3)" using assms 1 2 by (auto simp: decode_value_def split: bind_splits)
  obtain key r4 where 4: "view_text (unat (u16_of kl)) r3 = Some (key, r4)"
    using assms 1 2 3 by (auto simp: decode_value_def split: bind_splits)
  have k: "length key < 2 ^ 16" "length r = 4 + length key + length r4"
    using 1 2 3 4 unat_bound [of "u16_of kl"] by (auto dest!: get_SomeD view_text_SomeD)
  have b: "unat (u32_of x) < 2 ^ 32" for x using unat_bound [of "u32_of x"] by simp
  note d = assms [unfolded decode_value_def 1 2 3 4 Let_def bind.bind_lunit prod.case]
  from d k(1) b show ?thesis unfolding k(2)
    by (auto simp: well_typed_value_def empty_value_def SHM_VALUE_INT_def
        SHM_VALUE_UINT_def SHM_VALUE_DOUBLE_def SHM_VALUE_STRING_def SHM_VALUE_RAW_JSON_def
        dest!: get_SomeD view_text_SomeD split: bind_splits if_splits)
qed

lemma decode_values_typed:
  "decode_values n r = Some (vs, r') \<Longrightarrow> length vs = n \<and> list_all well_typed_value vs \<and>
    sum_list (map (\<lambda>v. 8 + length (dv_key v) + length (dv_s v)) vs) + length r' \<le> length r"
proof (induction n r arbitrary: vs r' rule: decode_values.induct)
  case (2 n r)
  obtain v r1 where v: "decode_value r = Some (v, r1)" using "2.prems" by (auto split: bind_splits)
  then obtain ws where ws: "decode_values n r1 = Some (ws, r')" "vs = v # ws"
    using "2.prems" by (auto split: bind_splits)
  from "2.IH" [OF v refl ws(1)] decode_value_typed [OF v] show ?case by (simp add: ws(2))
qed simp

text \<open>
  C28: whatever bytes a ring record holds, an event decoded from them is well formed: every value
  has one of the five tags and only the member of its tag, every string has the length its head or
  prefix says, and all of it lies within the record.
\<close>

theorem decoded_event_is_well_typed:
  "pred_option (well_typed_event r) (decode_event r)"
proof (cases "decode_event_rest r")
  case (Some er)
  obtain e r' where er: "er = (e, r')" by (cases er)
  obtain hb r1 where 1: "get 40 r = Some (hb, r1)"
    using Some by (auto simp: decode_event_rest_def Let_def split: bind_splits)
  obtain name r2 where 2: "view_text (unat (eh_name_len (read_event_head hb))) r1 = Some (name, r2)"
    using Some 1 by (auto simp: decode_event_rest_def Let_def split: bind_splits)
  obtain cat r3 where 3: "view_text (unat (eh_category_len (read_event_head hb))) r2 = Some (cat, r3)"
    using Some 1 2 by (auto simp: decode_event_rest_def Let_def split: bind_splits)
  obtain vs where 4: "decode_values (unat (eh_meta_count (read_event_head hb))) r3 = Some (vs, r')"
      "e = \<lparr>de_head = read_event_head hb, de_name = name, de_category = cat, de_values = vs\<rparr>"
    using Some er 1 2 3 by (auto simp: decode_event_rest_def Let_def split: bind_splits)
  show ?thesis
    using get_SomeD [OF 1] view_text_SomeD [OF 2] view_text_SomeD [OF 3] decode_values_typed [OF 4(1)]
    by (simp add: decode_event_def Some er 4(2) well_typed_event_def)
qed (simp add: decode_event_def)

end
