(* ===== verification/Json_Line.thy ===== *)
theory Json_Line
  imports Event_Codec
begin

text \<open>
  Trace lines. \<open>packed_json\<close> (\<open>core/serialization/packed_json.h\<close>) writes the line of a
  decoded record into a bounded buffer; \<open>JsonLines\<close> (\<open>core/serialization/json_line.cpp\<close>)
  writes it in the traced process from a \<open>Metadata\<close>, through \<open>snprintf\<close>. Both yield the
  bytes handed to the trace file.
\<close>

section \<open>The bounded line\<close>

definition EVENT_MAX :: nat where "EVENT_MAX = 16384"

text \<open>\<open>cut_\<close> is set when something did not fit; two bytes are kept for the newline and NUL.\<close>

record line =
  ln_text :: string
  ln_cut :: bool

definition line_cap :: nat where "line_cap = EVENT_MAX - 2"

definition new_line :: line where "new_line = \<lparr>ln_text = [], ln_cut = False\<rparr>"

definition line_raw :: "line \<Rightarrow> string \<Rightarrow> line" where
  "line_raw w s =
     (if length s > line_cap - length (ln_text w)
      then \<lparr>ln_text = ln_text w @ take (line_cap - length (ln_text w)) s, ln_cut = True\<rparr>
      else w\<lparr>ln_text := ln_text w @ s\<rparr>)"

definition line_emit :: "(u64 \<Rightarrow> string) \<Rightarrow> emit \<Rightarrow> line \<Rightarrow> line" where
  "line_emit g e w = line_raw w (render1 g e)"

definition line_all :: "(u64 \<Rightarrow> string) \<Rightarrow> emit list \<Rightarrow> line \<Rightarrow> line" where
  "line_all g es w = fold (line_emit g) es w"

definition line_finish :: "line \<Rightarrow> string" where
  "line_finish w = ln_text w @ [CHR 0x0A]"

section \<open>The sink interface\<close>

text \<open>
  What the JSON writers need of their sink: it takes text and keeps a prefix of everything
  it was given, all of it as long as it fits.
\<close>

definition within_cap :: "nat option \<Rightarrow> string \<Rightarrow> bool" where
  "within_cap cap s \<longleftrightarrow> (case cap of None \<Rightarrow> True | Some n \<Rightarrow> length s \<le> n)"

definition cut_to :: "nat option \<Rightarrow> string \<Rightarrow> string" where
  "cut_to cap s = (case cap of None \<Rightarrow> s | Some n \<Rightarrow> take n s)"

lemma within_cut [simp]: "within_cap cap (cut_to cap s)"
  by (auto simp: within_cap_def cut_to_def split: option.splits)

lemma cut_within [simp]: "within_cap cap s \<Longrightarrow> cut_to cap s = s"
  by (auto simp: within_cap_def cut_to_def split: option.splits)

lemma cut_cut [simp]: "cut_to cap (cut_to cap s @ t) = cut_to cap (s @ t)"
  by (auto simp: cut_to_def min_def split: option.splits)

locale text_sink =
  fixes put :: "'w \<Rightarrow> string \<Rightarrow> 'w"
    and content :: "'w \<Rightarrow> string"
    and cap :: "nat option"
  assumes put_content: "within_cap cap (content w) \<Longrightarrow>
      content (put w s) = cut_to cap (content w @ s)"
begin

lemma put_all_content:
  "within_cap cap (content w) \<Longrightarrow>
   content (fold (\<lambda>s w. put w s) ss w) = cut_to cap (content w @ concat ss)"
proof (induction ss arbitrary: w)
  case (Cons s ss)
  note p = put_content[OF Cons.prems, of s]
  then have "within_cap cap (content (put w s))" by simp
  from Cons.IH[OF this] show ?case by (simp add: p)
qed simp

end

interpretation line_sink: text_sink line_raw ln_text "Some line_cap"
  by unfold_locales (auto simp: line_raw_def within_cap_def cut_to_def)

text \<open>The ring record's \<open>JsonWriter\<close>: an unbounded append.\<close>

definition json_raw :: "byte list \<Rightarrow> string \<Rightarrow> byte list" where
  "json_raw w s = w @ to_bytes s"

interpretation record_sink: text_sink json_raw of_bytes None
  by unfold_locales (simp add: json_raw_def of_bytes_def to_bytes_def o_def cut_to_def)

text \<open>The line is the first \<open>line_cap\<close> characters of what was written.\<close>

lemma line_all_text: "ln_text (line_all g es new_line) = take line_cap (render g es)"
proof -
  have "line_all g es w = fold (\<lambda>s w. line_raw w s) (map (render1 g) es) w" for w
    by (induction es arbitrary: w) (simp_all add: line_all_def line_emit_def)
  then show ?thesis
    using line_sink.put_all_content[of new_line "map (render1 g) es"]
    by (simp add: new_line_def within_cap_def cut_to_def render_def)
qed

text \<open>What \<open>encode_metadata\<close> writes into the ring record through \<open>JsonWriter\<close>.\<close>

lemma json_raw_all:
  "fold (\<lambda>s w. json_raw w s) (map (render1 g) es) w = w @ to_bytes (render g es)"
  using record_sink.put_all_content[of w "map (render1 g) es"]
  by (metis cut_within option.simps(4) render_def to_bytes_append to_bytes_of_bytes within_cap_def)

section \<open>Lines of decoded records\<close>

definition DFT_RELATIONS_ARG :: string where "DFT_RELATIONS_ARG = ''relations''"

text \<open>\<open>Line::field\<close>: a tag outside the enumeration writes only the key.\<close>

definition packed_field :: "decoded_value \<Rightarrow> emit list" where
  "packed_field v = [Raw [CHR 0x22], Raw (dv_key v), Raw [CHR 0x22, CHR '':'']] @
     (if dv_tag v = SHM_VALUE_INT then [I64 (dv_i v)]
      else if dv_tag v = SHM_VALUE_UINT then [U64 (dv_u v)]
      else if dv_tag v = SHM_VALUE_DOUBLE then [F64 (dv_d v)]
      else if dv_tag v = SHM_VALUE_STRING then [Raw [CHR 0x22], Raw (dv_s v), Raw [CHR 0x22]]
      else if dv_tag v = SHM_VALUE_RAW_JSON then [Raw (dv_s v)] else [])"

definition is_relations :: "decoded_value \<Rightarrow> bool" where
  "is_relations v \<longleftrightarrow> dv_tag v = SHM_VALUE_RAW_JSON \<and> dv_key v = DFT_RELATIONS_ARG"

text \<open>A signed 32-bit field printed by \<open>i64\<close>.\<close>

definition I32 :: "u32 \<Rightarrow> emit" where "I32 w = I64 (scast w)"

definition U8 :: "byte \<Rightarrow> emit" where "U8 b = U64 (ucast b)"

definition phase_emit :: "TracePhaseType \<Rightarrow> emit" where
  "phase_emit ph = U64 (of_nat (trace_phase_code ph))"

definition has_flag :: "byte \<Rightarrow> event_head \<Rightarrow> bool" where
  "has_flag f h \<longleftrightarrow> eh_flags h AND f \<noteq> 0"

definition packed_args :: "string \<Rightarrow> decoded_value list \<Rightarrow> emit list" where
  "packed_args hash vs =
     [Raw ('',\"args\":{\"hhash\":\"''), Raw hash, Raw [CHR 0x22]] @
     concat (map (\<lambda>v. Raw '','' # packed_field v) vs) @ [Raw ''}'']"

definition packed_data_calls :: "decoded_event \<Rightarrow> string \<Rightarrow> emit list" where
  "packed_data_calls e hash =
     (let h = de_head e; has_metadata = has_flag SHM_EVENT_HAS_METADATA h;
          incl = has_flag SHM_EVENT_INC_METADATA h;
          args = (if has_metadata \<and> \<not> incl then list_ex is_relations (de_values e)
                  else has_metadata)
      in [Raw ''{\"id\":'', I32 (eh_index h), Raw '',\"name\":\"'', Raw (de_name e),
          Raw ''\",\"cat\":\"'', Raw (de_category e), Raw ''\",\"type\":'', U8 (eh_type h),
          Raw '',\"pid\":'', I32 (eh_process_id h), Raw '',\"tid\":'', U64 (eh_thread_id h),
          Raw '',\"ts\":'', U64 (eh_start_time h), Raw '',\"dur\":'', U64 (eh_duration h),
          Raw '',\"ph\":'', phase_emit TRACE_PHASE_COMPLETE] @
         (if args then packed_args hash
            (filter (\<lambda>v. incl \<or> is_relations v) (de_values e)) else []) @
         [Raw ''}''])"

definition packed_data :: "(u64 \<Rightarrow> string) \<Rightarrow> decoded_event \<Rightarrow> string \<Rightarrow> string" where
  "packed_data g e hash = line_finish (line_all g (packed_data_calls e hash) new_line)"

definition series_head ::
  "string \<Rightarrow> string \<Rightarrow> byte \<Rightarrow> TracePhaseType \<Rightarrow> u64 \<Rightarrow> u32 \<Rightarrow> u64 \<Rightarrow> emit list" where
  "series_head name category ty phase ts pid tid =
     [Raw ''{\"name\":\"'', Raw name, Raw ''\",\"cat\":\"'', Raw category, Raw ''\",\"type\":'', U8 ty,
      Raw '',\"ts\":'', U64 ts, Raw '',\"ph\":'', phase_emit phase, Raw '',\"pid\":'', I32 pid,
      Raw '',\"tid\":'', U64 tid]"

definition packed_counter_calls :: "decoded_event \<Rightarrow> string \<Rightarrow> emit list" where
  "packed_counter_calls e hash =
     (let h = de_head e
      in series_head (de_name e) (de_category e) (eh_type h) TRACE_PHASE_COUNTER (eh_start_time h)
           (eh_process_id h) (eh_thread_id h) @
         (if has_flag SHM_EVENT_HAS_METADATA h \<and> de_values e \<noteq> []
          then packed_args hash (de_values e) else []) @
         [Raw ''}''])"

definition packed_counter :: "(u64 \<Rightarrow> string) \<Rightarrow> decoded_event \<Rightarrow> string \<Rightarrow> string" where
  "packed_counter g e hash = line_finish (line_all g (packed_counter_calls e hash) new_line)"

section \<open>JsonLines\<close>

text \<open>
  \<open>snprintf\<close> into a buffer of \<open>EVENT_MAX\<close> bytes and what the callers do with its result:
  the bytes of the line. A \<open>%s\<close> of a null pointer prints \<open>(null)\<close>, as glibc does.
\<close>

definition snprintf_line :: "string \<Rightarrow> string" where
  "snprintf_line txt =
     (let n = length txt; written = (if n \<ge> EVENT_MAX then EVENT_MAX - 1 else n);
          out = take written txt
      in if written + 1 < EVENT_MAX then out @ [CHR 0x0A] else out)"

definition percent_s :: "string option \<Rightarrow> string" where
  "percent_s s = (case s of None \<Rightarrow> ''(null)'' | Some _ \<Rightarrow> c_string s)"

text \<open>\<open>convert_metadata\<close>: whether anything was written, and the text.\<close>

definition convert_metadata :: "(u64 \<Rightarrow> string) \<Rightarrow> metadata option \<Rightarrow> bool \<times> string" where
  "convert_metadata g md =
     (case md of None \<Rightarrow> (False, [])
      | Some m \<Rightarrow> (snd (json_fields m False) > 0, render g (fst (json_fields m False))))"

definition is_relations_entry :: "string \<times> MetadataType \<times> any_value \<Rightarrow> bool" where
  "is_relations_entry e = (case e of (key, mt, v) \<Rightarrow>
     key = DFT_RELATIONS_ARG \<and>
     (case v of Any_raw_json _ \<Rightarrow> True | Any_list _ \<Rightarrow> True | _ \<Rightarrow> False))"

definition kept_metadata :: "bool \<Rightarrow> metadata option \<Rightarrow> metadata option" where
  "kept_metadata incl md =
     (case md of None \<Rightarrow> None
      | Some m \<Rightarrow> if incl then Some m
          else (let m' = filter is_relations_entry m in if m' = [] then None else Some m'))"

definition args_text :: "(u64 \<Rightarrow> string) \<Rightarrow> string option \<Rightarrow> metadata \<Rightarrow> string" where
  "args_text g hash m =
     (let (has_meta, txt) = convert_metadata g (Some m);
          all_stream = (if has_meta then '','' @ txt else [])
      in '',\"args\":{\"hhash\":\"'' @ percent_s hash @ [CHR 0x22] @ c_string (Some all_stream) @ ''}'')"

definition json_data_text ::
  "(u64 \<Rightarrow> string) \<Rightarrow> bool \<Rightarrow> string option \<Rightarrow> u32 \<Rightarrow> string option \<Rightarrow> string option \<Rightarrow> byte
     \<Rightarrow> u64 \<Rightarrow> u64 \<Rightarrow> metadata option \<Rightarrow> u32 \<Rightarrow> u64 \<Rightarrow> string" where
  "json_data_text g incl hash index name category ty start duration md pid tid =
     render g [Raw ''{\"id\":'', I32 index, Raw '',\"name\":\"'', Raw (percent_s name),
       Raw ''\",\"cat\":\"'', Raw (percent_s category), Raw ''\",\"type\":'', U8 ty,
       Raw '',\"pid\":'', I32 pid, Raw '',\"tid\":'', U64 tid, Raw '',\"ts\":'', U64 start,
       Raw '',\"dur\":'', U64 duration, Raw '',\"ph\":'', phase_emit TRACE_PHASE_COMPLETE] @
     (case kept_metadata incl md of None \<Rightarrow> [] | Some m \<Rightarrow> args_text g hash m) @ ''}''"

definition json_data ::
  "(u64 \<Rightarrow> string) \<Rightarrow> bool \<Rightarrow> string option \<Rightarrow> u32 \<Rightarrow> string option \<Rightarrow> string option \<Rightarrow> byte
     \<Rightarrow> u64 \<Rightarrow> u64 \<Rightarrow> metadata option \<Rightarrow> u32 \<Rightarrow> u64 \<Rightarrow> string" where
  "json_data g incl hash index name category ty start duration md pid tid =
     snprintf_line (json_data_text g incl hash index name category ty start duration md pid tid)"

definition json_series ::
  "(u64 \<Rightarrow> string) \<Rightarrow> string option \<Rightarrow> string option \<Rightarrow> string option \<Rightarrow> byte \<Rightarrow> TracePhaseType
     \<Rightarrow> u64 \<Rightarrow> u32 \<Rightarrow> u64 \<Rightarrow> metadata option \<Rightarrow> string" where
  "json_series g hash name category ty phase start pid tid md =
     snprintf_line
       (render g (series_head (percent_s name) (percent_s category) ty phase start pid tid) @
        (case md of None \<Rightarrow> [] | Some m \<Rightarrow> if m = [] then [] else args_text g hash m) @ ''}'')"

definition json_counter ::
  "(u64 \<Rightarrow> string) \<Rightarrow> string option \<Rightarrow> string option \<Rightarrow> string option \<Rightarrow> byte
     \<Rightarrow> u64 \<Rightarrow> u32 \<Rightarrow> u64 \<Rightarrow> metadata option \<Rightarrow> string" where
  "json_counter g hash name category ty start pid tid md =
     json_series g hash name category ty TRACE_PHASE_COUNTER start pid tid md"

definition record_head_calls :: "string \<Rightarrow> byte \<Rightarrow> u32 \<Rightarrow> u64 \<Rightarrow> string \<Rightarrow> emit list" where
  "record_head_calls record_name ty pid tid hash =
     [Raw ''{\"name\":\"'', Raw record_name, Raw ''\",\"cat\":\"dftracer\",\"type\":'', U8 ty,
      Raw '',\"pid\":'', I32 pid, Raw '',\"tid\":'', U64 tid, Raw '',\"ph\":'',
      phase_emit TRACE_PHASE_METADATA, Raw '',\"args\":{\"hhash\":\"'', Raw hash, Raw [CHR 0x22]]"

definition json_record_text ::
  "(u64 \<Rightarrow> string) \<Rightarrow> string option \<Rightarrow> string option \<Rightarrow> string option \<Rightarrow> byte \<Rightarrow> u32 \<Rightarrow> u64
     \<Rightarrow> string" where
  "json_record_text g hash record_name fields_text ty pid tid =
     snprintf_line (render g (record_head_calls (percent_s record_name) ty pid tid (percent_s hash)) @
       '','' @ percent_s fields_text @ ''}}'')"

definition json_record ::
  "(u64 \<Rightarrow> string) \<Rightarrow> string option \<Rightarrow> string option \<Rightarrow> metadata option \<Rightarrow> byte \<Rightarrow> u32 \<Rightarrow> u64
     \<Rightarrow> string" where
  "json_record g hash record_name md ty pid tid =
     line_finish (line_all g
       (record_head_calls (c_string record_name) ty pid tid (c_string hash) @
        (case md of None \<Rightarrow> [] | Some m \<Rightarrow> fst (json_fields m True)) @ [Raw ''}}'']) new_line)"

definition json_metadata ::
  "(u64 \<Rightarrow> string) \<Rightarrow> string option \<Rightarrow> string option \<Rightarrow> string option \<Rightarrow> string option \<Rightarrow> byte
     \<Rightarrow> u32 \<Rightarrow> u64 \<Rightarrow> bool \<Rightarrow> string" where
  "json_metadata g hash name val record_name ty pid tid is_string =
     snprintf_line (render g (record_head_calls (percent_s record_name) ty pid tid (percent_s hash)) @
       '',\"name\":\"'' @ percent_s name @ ''\",\"value\":'' @
       (if is_string then [CHR 0x22] @ percent_s val @ [CHR 0x22] else percent_s val) @ ''}}'')"

section \<open>Lines agree\<close>

text \<open>An entry that prints the same on both sides.\<close>

definition plain_entry :: "string \<times> MetadataType \<times> any_value \<Rightarrow> bool" where
  "plain_entry e = (case e of (key, mt, v) \<Rightarrow>
     known v \<and> length key \<le> 65535 \<and> (\<forall>s. v = Any_string s \<longrightarrow> c_string (Some s) = s))"

lemma packed_field_plain:
  assumes "plain_entry (key, mt, v)"
  shows "render g (packed_field (decoded_entry g key mt v)) = field_text g key v"
proof -
  have k: "take 65535 key = key" using assms by (simp add: plain_entry_def)
  have cs: "c_string None = []" by (simp add: c_string_def)
  show ?thesis
  proof (cases v)
    case (Any_cstr s)
    then show ?thesis using k cs
      by (cases s) (simp_all add: packed_field_def decoded_base_def empty_value_def field_text_def
          plain_string_def)
  next
    case (Any_hash s)
    then show ?thesis using k cs
      by (cases s) (simp_all add: packed_field_def decoded_base_def empty_value_def field_text_def
          plain_string_def)
  qed (use assms k in \<open>simp_all add: packed_field_def decoded_base_def empty_value_def
      field_text_def plain_string_def plain_entry_def known_def\<close>)
qed

lemma packed_args_plain:
  assumes "\<forall>e\<in>set m. plain_entry e"
  shows "render g (packed_args hash (map (\<lambda>(key, mt, v). decoded_entry g key mt v) m)) =
    '',\"args\":{\"hhash\":\"'' @ hash @ [CHR 0x22] @
    concat (map (\<lambda>e. CHR '','' # field_text g (fst e) (snd (snd e))) m) @ ''}''"
proof -
  have "render g (concat (map (\<lambda>v. Raw '','' # packed_field v)
      (map (\<lambda>(key, mt, v). decoded_entry g key mt v) m))) =
      concat (map (\<lambda>e. CHR '','' # field_text g (fst e) (snd (snd e))) m)"
    using assms by (induction m) (auto simp: packed_field_plain)
  then show ?thesis by (simp add: packed_args_def)
qed

lemma known_plain: "\<forall>e\<in>set m. plain_entry e \<Longrightarrow> known_fields m = m"
  by (induction m) (auto simp: known_fields_def plain_entry_def)

lemma args_text_plain:
  assumes "\<forall>e\<in>set m. plain_entry e"
    and "c_string (Some (concat (map (\<lambda>e. CHR '','' # field_text g (fst e) (snd (snd e))) m))) =
      concat (map (\<lambda>e. CHR '','' # field_text g (fst e) (snd (snd e))) m)"
  shows "args_text g (Some hash) m = '',\"args\":{\"hhash\":\"'' @ c_string (Some hash) @ [CHR 0x22] @
    concat (map (\<lambda>e. CHR '','' # field_text g (fst e) (snd (snd e))) m) @ ''}''"
proof (cases m)
  case Nil
  then show ?thesis
    by (simp add: args_text_def convert_metadata_def json_fields_render known_fields_def
        percent_s_def c_string_def)
next
  case (Cons e m')
  then show ?thesis
    using assms known_plain[OF assms(1)]
    by (simp add: args_text_def convert_metadata_def json_fields_render joined_Cons percent_s_def
        comp_def)
qed

lemma relations_entry:
  "plain_entry (key, mt, v) \<Longrightarrow>
   is_relations (decoded_entry g key mt v) = is_relations_entry (key, mt, v)"
  by (cases v) (auto simp: is_relations_def is_relations_entry_def decoded_base_def empty_value_def
      plain_entry_def)

lemma filter_relations:
  assumes "\<forall>e\<in>set m. plain_entry e"
  shows "filter (\<lambda>v. incl \<or> is_relations v) (map (\<lambda>(key, mt, v). decoded_entry g key mt v) m) =
    map (\<lambda>(key, mt, v). decoded_entry g key mt v) (if incl then m else filter is_relations_entry m)"
  using assms by (induction m) (auto simp: relations_entry)

lemma some_relations:
  assumes "\<forall>e\<in>set m. plain_entry e"
  shows "list_ex is_relations (map (\<lambda>(key, mt, v). decoded_entry g key mt v) m) =
    (filter is_relations_entry m \<noteq> [])"
  using assms by (induction m) (auto simp: relations_entry)

lemma event_flag_bits:
  assumes "flags AND SHM_EVENT_HAS_METADATA = 0"
  shows "has_flag SHM_EVENT_HAS_METADATA
      (de_head (expected_event g index name category ty start dur md pid tid flags)) = (md \<noteq> None)"
    and "has_flag SHM_EVENT_INC_METADATA
      (de_head (expected_event g index name category ty start dur md pid tid flags)) =
      (flags AND SHM_EVENT_INC_METADATA \<noteq> 0)"
proof -
  have d: "(x OR y) AND z = (x AND z) OR (y AND z)" for x y z :: byte
    by (rule bit_word_eqI) (auto simp: bit_simps)
  have b: "SHM_EVENT_HAS_METADATA AND SHM_EVENT_HAS_METADATA \<noteq> 0"
    "SHM_EVENT_HAS_METADATA AND SHM_EVENT_INC_METADATA = 0"
    by (simp_all add: SHM_EVENT_HAS_METADATA_def SHM_EVENT_INC_METADATA_def)
  show "has_flag SHM_EVENT_HAS_METADATA
      (de_head (expected_event g index name category ty start dur md pid tid flags)) = (md \<noteq> None)"
    "has_flag SHM_EVENT_INC_METADATA
      (de_head (expected_event g index name category ty start dur md pid tid flags)) =
      (flags AND SHM_EVENT_INC_METADATA \<noteq> 0)"
    using assms b by (auto simp: has_flag_def expected_event_def Let_def d)
qed

text \<open>A metadata whose lines agree: plain entries, few enough, and no NUL in their text.\<close>

definition printable_metadata :: "(u64 \<Rightarrow> string) \<Rightarrow> metadata \<Rightarrow> bool" where
  "printable_metadata g m \<longleftrightarrow> length m \<le> 65535 \<and> (\<forall>e\<in>set m. plain_entry e) \<and>
     (\<forall>e\<in>set m. CHR 0x00 \<notin> set (field_text g (fst e) (snd (snd e))))"

lemma c_string_id: "CHR 0x00 \<notin> set s \<Longrightarrow> c_string (Some s) = s"
  by (auto simp: c_string_def takeWhile_eq_all_conv)

lemma fields_no_nul:
  assumes "printable_metadata g m"
  shows "c_string (Some (concat (map (\<lambda>e. CHR '','' # field_text g (fst e) (snd (snd e))) m))) =
    concat (map (\<lambda>e. CHR '','' # field_text g (fst e) (snd (snd e))) m)"
  using assms by (intro c_string_id) (auto simp: printable_metadata_def)

lemma printable_filter: "printable_metadata g m \<Longrightarrow> printable_metadata g (filter p m)"
  by (auto simp: printable_metadata_def intro: order_trans[OF length_filter_le])

lemma data_text_agrees:
  assumes "\<And>m. md = Some m \<Longrightarrow> printable_metadata g m"
    and "length (c_string (Some name)) \<le> 65535" "length (c_string (Some category)) \<le> 65535"
    and "flags AND SHM_EVENT_HAS_METADATA = 0" "incl = (flags AND SHM_EVENT_INC_METADATA \<noteq> 0)"
  shows "render g (packed_data_calls
      (expected_event g index (Some name) (Some category) ty start dur md pid tid flags)
      (c_string (Some hash))) =
    json_data_text g incl (Some hash) index (Some name) (Some category) ty start dur md pid tid"
proof -
  let ?e = "expected_event g index (Some name) (Some category) ty start dur md pid tid flags"
  note fl = event_flag_bits[OF assms(4), of g index "Some name" "Some category" ty start dur md pid tid]
  have nm: "de_name ?e = percent_s (Some name)" "de_category ?e = percent_s (Some category)"
    using assms(2,3) by (simp_all add: expected_event_def Let_def percent_s_def short_text_def)
  have hd: "eh_index (de_head ?e) = index" "eh_type (de_head ?e) = ty"
    "eh_process_id (de_head ?e) = pid" "eh_thread_id (de_head ?e) = tid"
    "eh_start_time (de_head ?e) = start" "eh_duration (de_head ?e) = dur"
    by (simp_all add: expected_event_def Let_def)
  show ?thesis
  proof (cases md)
    case None
    then show ?thesis
      unfolding packed_data_calls_def json_data_text_def Let_def hd nm fl
      by (simp add: kept_metadata_def)
  next
    case (Some m)
    have pm: "printable_metadata g m" using assms(1) Some .
    then have pl: "\<forall>e\<in>set m. plain_entry e" and tk: "take 65535 m = m"
      by (simp_all add: printable_metadata_def)
    let ?m = "if incl then m else filter is_relations_entry m"
    have pm': "printable_metadata g ?m" using pm printable_filter by auto
    then have pl': "\<forall>e\<in>set ?m. plain_entry e" unfolding printable_metadata_def by blast
    have vs: "de_values ?e = map (\<lambda>(key, mt, v). decoded_entry g key mt v) m"
      by (simp add: expected_event_def Let_def Some tk)
    have kept: "kept_metadata incl md = (if \<not> incl \<and> ?m = [] then None else Some ?m)"
      by (simp add: kept_metadata_def Some Let_def)
    have args: "render g (packed_args (c_string (Some hash))
        (map (\<lambda>(key, mt, v). decoded_entry g key mt v) ?m)) = args_text g (Some hash) ?m"
      using packed_args_plain[OF pl'] args_text_plain[OF pl' fields_no_nul[OF pm']] by simp
    show ?thesis
      unfolding packed_data_calls_def json_data_text_def Let_def hd nm fl vs kept
        some_relations[OF pl] assms(5)[symmetric] filter_relations[OF pl]
      using args Some by (cases incl) (auto simp del: filter_empty_conv)
  qed
qed

lemma packed_line_agrees:
  assumes "\<And>m. md = Some m \<Longrightarrow> printable_metadata g m \<and> sized g m"
    and "length (c_string (Some name)) \<le> 65535" "length (c_string (Some category)) \<le> 65535"
    and "flags AND SHM_EVENT_HAS_METADATA = 0" "incl = (flags AND SHM_EVENT_INC_METADATA \<noteq> 0)"
    and "length (json_data_text g incl (Some hash) index (Some name) (Some category) ty start dur md
      pid tid) \<le> line_cap"
  shows "map_option (\<lambda>e. packed_data g e (c_string (Some hash)))
      (decode_event (encode_event g index (Some name) (Some category) ty start dur md pid tid flags
        @ slack)) =
    Some (json_data g incl (Some hash) index (Some name) (Some category) ty start dur md pid tid)"
proof -
  let ?t = "json_data_text g incl (Some hash) index (Some name) (Some category) ty start dur md pid tid"
  have s: "\<And>m. md = Some m \<Longrightarrow> sized g m" and p: "\<And>m. md = Some m \<Longrightarrow> printable_metadata g m"
    using assms(1) by blast+
  note t = data_text_agrees[OF p assms(2-5)]
  have "length ?t + 1 < EVENT_MAX" using assms(6) by (simp add: line_cap_def EVENT_MAX_def)
  then have j: "snprintf_line ?t = ?t @ [CHR 0x0A]" by (simp add: snprintf_line_def Let_def)
  have "decode_event (encode_event g index (Some name) (Some category) ty start dur md pid tid flags
      @ slack) = Some (expected_event g index (Some name) (Some category) ty start dur md pid tid flags)"
    using decode_event_rest_encoded[OF s] by (simp add: decode_event_def)
  then show ?thesis
    using assms(6) j by (simp add: packed_data_def line_finish_def line_all_text t json_data_def)
qed

text \<open>
  C9: the service writes the line the process would have written. For an event whose text
  fits a line, decoding its ring record and printing it gives byte for byte what
  \<open>JsonLines\<close> prints in the process from the \<open>Metadata\<close>, with and without
  \<open>DFTRACER_INC_METADATA\<close>, relations kept in both cases.
\<close>

theorem packed_line_equals_json_line:
  assumes "\<And>m. md = Some m \<Longrightarrow> printable_metadata g m \<and> sized g m"
    and "length (c_string (Some name)) \<le> 65535" "length (c_string (Some category)) \<le> 65535"
    and "flags AND SHM_EVENT_HAS_METADATA = 0" "incl = (flags AND SHM_EVENT_INC_METADATA \<noteq> 0)"
    and "length (json_data_text g incl (Some hash) index (Some name) (Some category) ty start dur md
      pid tid) \<le> line_cap"
  shows "map_option (\<lambda>e. packed_data g e (c_string (Some hash)))
      (decode_event (encode_event g index (Some name) (Some category) ty start dur md pid tid flags
        @ slack)) =
    Some (json_data g incl (Some hash) index (Some name) (Some category) ty start dur md pid tid)"
  by (rule packed_line_agrees[OF assms])

lemma packed_line_equals_json_line_witness:
  "map_option (\<lambda>e. packed_data (\<lambda>_. ''1'') e ''h'')
      (decode_event (encode_event (\<lambda>_. ''1'') 0 (Some ''read'') (Some ''POSIX'') 3 100 7
        (Some [(''size'', MT_VALUE, Any_unsigned 8)]) 42 43 1 @ [0])) =
    Some (json_data (\<lambda>_. ''1'') True (Some ''h'') 0 (Some ''read'') (Some ''POSIX'') 3 100 7
        (Some [(''size'', MT_VALUE, Any_unsigned 8)]) 42 43)"
proof -
  have d: "show_nat 8 = ''8''" "show_nat 0 = ''0''" "show_nat 42 = ''42''" "show_nat 43 = ''43''"
    "show_nat 3 = ''3''" "show_nat 100 = ''100''" "show_nat 7 = ''7''" "show_nat (Suc 0) = ''1''"
    by code_simp+
  have c: "c_string (Some ''read'') = ''read''" "c_string (Some ''POSIX'') = ''POSIX''"
    "c_string (Some ''h'') = ''h''" by (simp_all add: c_string_def)
  let ?m = "[(''size'', MT_VALUE, Any_unsigned 8)]"
  have pm: "printable_metadata (\<lambda>_. ''1'') ?m" "sized (\<lambda>_. ''1'') ?m"
    by (simp_all add: printable_metadata_def plain_entry_def known_def field_text_def show_u64_def d
        sized_def)
  have "length (json_data_text (\<lambda>_. ''1'') True (Some ''h'') 0 (Some ''read'') (Some ''POSIX'') 3 100
      7 (Some ?m) 42 43) \<le> line_cap"
    by (simp add: json_data_text_def kept_metadata_def args_text_def convert_metadata_def
        json_fields_render known_fields_def known_def field_text_def percent_s_def c
        show_u64_def show_i64_def show_int_def I32_def U8_def phase_emit_def d line_cap_def EVENT_MAX_def)
      (simp add: c_string_def)
  then show ?thesis
    using packed_line_equals_json_line[of "Some ?m" "\<lambda>_. ''1''" "''read''" "''POSIX''" 1 True "''h''" 0 3 100
        7 42 43 "[0]"] pm c
    by (simp add: SHM_EVENT_HAS_METADATA_def SHM_EVENT_INC_METADATA_def)
qed

text \<open>
  Every line the service writes is a line: whatever the event, at most
  \<open>EVENT_MAX - 1\<close> bytes ending in a newline, and cut exactly to the first
  \<open>EVENT_MAX - 2\<close> characters when it is longer. The line of \<open>JsonLines\<close> for the same
  event has no newline when its text exceeds that bound.
\<close>

lemma packed_lines_end_in_newline:
  "packed_data g e hash = take line_cap (render g (packed_data_calls e hash)) @ [CHR 0x0A] \<and>
   packed_counter g e hash = take line_cap (render g (packed_counter_calls e hash)) @ [CHR 0x0A] \<and>
   length (packed_data g e hash) < EVENT_MAX \<and> length (packed_counter g e hash) < EVENT_MAX \<and>
   snprintf_line txt = (if length txt \<le> line_cap then txt @ [CHR 0x0A] else take (EVENT_MAX - 1) txt)"
  by (auto simp: packed_data_def packed_counter_def line_finish_def line_all_text snprintf_line_def
      Let_def line_cap_def EVENT_MAX_def)

end
