(* ===== verification/Ring_Protocol.thy ===== *)
theory Ring_Protocol
  imports Ring_Layout
begin

text \<open>
  The ring under concurrency: any number of producer threads of any number of processes and
  any number of drain threads, every access of a shared word one step, in any interleaving
  (sequentially consistent). Producers run \<open>claim\<close>, \<open>begin_write\<close>, \<open>commit\<close>,
  \<open>end_write\<close> and \<open>publish\<close> of \<open>RingProducer\<close>; drain threads run \<open>claim\<close>,
  \<open>take_over\<close> and \<open>release\<close> of \<open>ParallelBlockClaimer\<close>; processes die at any point.

  Sequence numbers and epochs are naturals and the packed words are their contents:
  \<open>word_injs\<close> and \<open>word_of_epoch_nonzero\<close> of \<open>Ring_Layout\<close> show that the words distinguish
  them, \<open>slot_and_lap_identify_block\<close> that slot and epoch identify a block. The bytes of a
  block are the list of its records, each committed or not, as \<open>Ring_Block\<close> proves the walk
  to deliver them.
\<close>

section \<open>State\<close>

text \<open>\<open>BlockControl::committed\<close> and \<open>BlockControl::owner\<close>: zero, or what they pack.\<close>

datatype commit_word = C_Zero | C_Published nat | C_Claimed nat
datatype owner_state = O_Zero | O_Word nat ShmBlockOwner

record slot =
  sl_armed :: nat
  sl_stamp :: nat
  sl_pid :: nat
  sl_commit :: commit_word
  sl_owner :: owner_state
  sl_records :: "(nat \<times> bool) list"  \<comment> \<open>records of this lap; \<open>True\<close>: committed\<close>

text \<open>Where a producer thread is; the number is the block it works on.\<close>

datatype producer_pc =
    P_Idle              \<comment> \<open>holds no block\<close>
  | P_Check nat         \<comment> \<open>\<open>claim\<close>: loaded \<open>head\<close>\<close>
  | P_Reload nat        \<comment> \<open>\<open>claim\<close>: the block is not armed for this lap\<close>
  | P_Cas nat           \<comment> \<open>\<open>claim\<close>: it is, about to move \<open>head\<close>\<close>
  | P_Stamp nat         \<comment> \<open>\<open>claim\<close>: moved \<open>head\<close>\<close>
  | P_Pid nat           \<comment> \<open>\<open>claim\<close>: stored the time\<close>
  | P_Own nat           \<comment> \<open>\<open>claim\<close>: stored the owner's ids\<close>
  | P_Hold nat          \<comment> \<open>holds the block, between records\<close>
  | P_Write nat         \<comment> \<open>after \<open>begin_write\<close>\<close>
  | P_Reserved nat nat  \<comment> \<open>a reservation is open\<close>
  | P_Committed nat     \<comment> \<open>committed, before \<open>end_write\<close>\<close>
  | P_Publish nat       \<comment> \<open>\<open>publish\<close>: after \<open>begin_write\<close> and the padding\<close>
  | P_Published nat     \<comment> \<open>\<open>publish\<close>: stored \<open>committed\<close>, not yet \<open>owner\<close>\<close>

datatype drain_pc =
    D_Idle
  | D_Seen nat owner_state         \<comment> \<open>\<open>take_over\<close>: loaded the owner word\<close>
  | D_Aged nat owner_state         \<comment> \<open>\<open>take_over\<close>: and found the block old enough\<close>
  | D_Pid nat owner_state nat      \<comment> \<open>\<open>take_over\<close>: loaded the pid\<close>
  | D_Checked nat owner_state nat  \<comment> \<open>\<open>take_over\<close>: and may take the block\<close>
  | D_Drain nat                  \<comment> \<open>has the block to itself\<close>
  | D_Rel1 nat | D_Rel2 nat | D_Rel3 nat | D_Rel4 nat  \<comment> \<open>the four stores of \<open>release\<close>\<close>

text \<open>
  The last two fields are history: the records committed to a block, and the copies drain
  threads made of it.
\<close>

record ring_state =
  r_head :: nat
  r_slots :: "nat \<Rightarrow> slot"
  r_alive :: "nat \<Rightarrow> bool"
  r_prod :: "nat \<Rightarrow> producer_pc"
  r_drain :: "nat \<Rightarrow> drain_pc"
  r_written :: "nat \<Rightarrow> nat list"
  r_copies :: "nat \<Rightarrow> nat list list"

definition slot_of :: "nat \<Rightarrow> nat \<Rightarrow> nat" where "slot_of C s = s mod C"
definition epoch_of :: "nat \<Rightarrow> nat \<Rightarrow> nat" where "epoch_of C s = s div C + 1"

definition fresh_slot :: slot where
  "fresh_slot = \<lparr>sl_armed = 1, sl_stamp = 0, sl_pid = 0, sl_commit = C_Zero, sl_owner = O_Zero,
     sl_records = []\<rparr>"

definition initial_ring :: ring_state where
  "initial_ring = \<lparr>r_head = 0, r_slots = (\<lambda>_. fresh_slot), r_alive = (\<lambda>_. True),
     r_prod = (\<lambda>_. P_Idle), r_drain = (\<lambda>_. D_Idle), r_written = (\<lambda>_. []), r_copies = (\<lambda>_. [])\<rparr>"

section \<open>Steps\<close>

text \<open>One atomic step of a thread; the first number names the thread.\<close>

datatype action =
    Load_Head nat | Check_Armed nat | Reload_Head nat | Cas_Head nat | Cas_Head_Fails nat
  | Stamp nat nat | Store_Pid nat | Set_Idle nat
  | Begin_Write nat | Reserve_Record nat nat | Commit_Record nat | End_Write nat
  | Begin_Publish nat | Store_Committed nat | Store_Published nat
  | Die nat
  | Claim_Block nat nat | See_Owner nat nat | See_Stamp nat | See_Pid nat | Check_Alive nat | Take_Block nat | Copy_Records nat
  | Release1 nat | Release2 nat | Release3 nat | Release4 nat

definition set_prod :: "nat \<Rightarrow> producer_pc \<Rightarrow> ring_state \<Rightarrow> ring_state" where
  "set_prod p pc st = st\<lparr>r_prod := (r_prod st)(p := pc)\<rparr>"

definition set_drain :: "nat \<Rightarrow> drain_pc \<Rightarrow> ring_state \<Rightarrow> ring_state" where
  "set_drain d pc st = st\<lparr>r_drain := (r_drain st)(d := pc)\<rparr>"

definition upd_slot :: "nat \<Rightarrow> (slot \<Rightarrow> slot) \<Rightarrow> ring_state \<Rightarrow> ring_state" where
  "upd_slot i f st = st\<lparr>r_slots := (r_slots st)(i := f (r_slots st i))\<rparr>"

definition add_written :: "nat \<Rightarrow> nat \<Rightarrow> ring_state \<Rightarrow> ring_state" where
  "add_written s x st = st\<lparr>r_written := (r_written st)(s := r_written st s @ [x])\<rparr>"

definition add_copy :: "nat \<Rightarrow> nat list \<Rightarrow> ring_state \<Rightarrow> ring_state" where
  "add_copy s xs st = st\<lparr>r_copies := (r_copies st)(s := r_copies st s @ [xs])\<rparr>"

text \<open>What the walk of a drain thread delivers: the committed records.\<close>

definition committed_records :: "(nat \<times> bool) list \<Rightarrow> nat list" where
  "committed_records rs = map fst (filter snd rs)"

definition commit_last :: "(nat \<times> bool) list \<Rightarrow> (nat \<times> bool) list" where
  "commit_last rs = butlast rs @ [(fst (last rs), True)]"

text \<open>The claim loop of a producer.\<close>

fun claim_step :: "nat \<Rightarrow> action \<Rightarrow> ring_state \<Rightarrow> ring_state option" where
  "claim_step C (Load_Head p) st =
     (if r_prod st p = P_Idle then Some (set_prod p (P_Check (r_head st)) st) else None)"
| "claim_step C (Check_Armed p) st =
     (case r_prod st p of
        P_Check s \<Rightarrow>
          Some (set_prod p (if sl_armed (r_slots st (slot_of C s)) = epoch_of C s then P_Cas s
            else P_Reload s) st)
      | _ \<Rightarrow> None)"
| "claim_step C (Reload_Head p) st =
     (case r_prod st p of
        P_Reload s \<Rightarrow>
          Some (set_prod p (if r_head st = s then P_Idle else P_Check (r_head st)) st)
      | _ \<Rightarrow> None)"
| "claim_step C (Cas_Head p) st =
     (case r_prod st p of
        P_Cas s \<Rightarrow>
          (if r_head st = s
           then Some (set_prod p (P_Stamp s)
             (upd_slot (slot_of C s) (\<lambda>b. b\<lparr>sl_records := []\<rparr>) (st\<lparr>r_head := s + 1\<rparr>)))
           else Some (set_prod p (P_Check (r_head st)) st))
      | _ \<Rightarrow> None)"
| "claim_step C (Cas_Head_Fails p) st =
     (case r_prod st p of P_Cas s \<Rightarrow> Some (set_prod p (P_Check (r_head st)) st) | _ \<Rightarrow> None)"
| "claim_step C _ st = None"

text \<open>The steps on a claimed block.\<close>

fun write_step :: "nat \<Rightarrow> (nat \<Rightarrow> nat) \<Rightarrow> action \<Rightarrow> ring_state \<Rightarrow> ring_state option" where
  "write_step C pid (Stamp p t) st =
     (case r_prod st p of
        P_Stamp s \<Rightarrow> Some (set_prod p (P_Pid s)
          (upd_slot (slot_of C s) (\<lambda>b. b\<lparr>sl_stamp := t\<rparr>) st))
      | _ \<Rightarrow> None)"
| "write_step C pid (Store_Pid p) st =
     (case r_prod st p of
        P_Pid s \<Rightarrow> Some (set_prod p (P_Own s)
          (upd_slot (slot_of C s) (\<lambda>b. b\<lparr>sl_pid := pid p\<rparr>) st))
      | _ \<Rightarrow> None)"
| "write_step C pid (Set_Idle p) st =
     (case r_prod st p of
        P_Own s \<Rightarrow> Some (set_prod p (P_Hold s)
          (upd_slot (slot_of C s) (\<lambda>b. b\<lparr>sl_owner := O_Word (epoch_of C s) SHM_OWNER_IDLE\<rparr>) st))
      | _ \<Rightarrow> None)"
| "write_step C pid (Begin_Write p) st =
     (case r_prod st p of
        P_Hold s \<Rightarrow>
          (if sl_owner (r_slots st (slot_of C s)) = O_Word (epoch_of C s) SHM_OWNER_IDLE
           then Some (set_prod p (P_Write s)
             (upd_slot (slot_of C s) (\<lambda>b. b\<lparr>sl_owner := O_Word (epoch_of C s) SHM_OWNER_WRITING\<rparr>) st))
           else Some (set_prod p P_Idle st))
      | _ \<Rightarrow> None)"
| "write_step C pid (Reserve_Record p x) st =
     (case r_prod st p of
        P_Write s \<Rightarrow> Some (set_prod p (P_Reserved s x)
          (upd_slot (slot_of C s) (\<lambda>b. b\<lparr>sl_records := sl_records b @ [(x, False)]\<rparr>) st))
      | _ \<Rightarrow> None)"
| "write_step C pid (Commit_Record p) st =
     (case r_prod st p of
        P_Reserved s x \<Rightarrow> Some (set_prod p (P_Committed s) (add_written s x
          (upd_slot (slot_of C s) (\<lambda>b. b\<lparr>sl_records := commit_last (sl_records b)\<rparr>) st)))
      | _ \<Rightarrow> None)"
| "write_step C pid (End_Write p) st =
     (case r_prod st p of
        P_Committed s \<Rightarrow> Some (set_prod p (P_Hold s)
          (upd_slot (slot_of C s) (\<lambda>b. b\<lparr>sl_owner := O_Word (epoch_of C s) SHM_OWNER_IDLE\<rparr>) st))
      | _ \<Rightarrow> None)"
| "write_step C pid (Begin_Publish p) st =
     (case r_prod st p of
        P_Hold s \<Rightarrow>
          (if sl_owner (r_slots st (slot_of C s)) = O_Word (epoch_of C s) SHM_OWNER_IDLE
           then Some (set_prod p (P_Publish s)
             (upd_slot (slot_of C s) (\<lambda>b. b\<lparr>sl_owner := O_Word (epoch_of C s) SHM_OWNER_WRITING\<rparr>) st))
           else Some (set_prod p P_Idle st))
      | _ \<Rightarrow> None)"
| "write_step C pid (Store_Committed p) st =
     (case r_prod st p of
        P_Publish s \<Rightarrow> Some (set_prod p (P_Published s)
          (upd_slot (slot_of C s) (\<lambda>b. b\<lparr>sl_commit := C_Published (epoch_of C s)\<rparr>) st))
      | _ \<Rightarrow> None)"
| "write_step C pid (Store_Published p) st =
     (case r_prod st p of
        P_Published s \<Rightarrow> Some (set_prod p P_Idle
          (upd_slot (slot_of C s) (\<lambda>b. b\<lparr>sl_owner := O_Word (epoch_of C s) SHM_OWNER_PUBLISHED\<rparr>) st))
      | _ \<Rightarrow> None)"
| "write_step C pid _ st = None"

text \<open>
  The steps of a drain thread. A scan may stop at any block before \<open>head\<close>; the age test of
  \<open>take_over\<close> is that the block was stamped at all (any age may be old enough).
\<close>

fun drain_step :: "nat \<Rightarrow> action \<Rightarrow> ring_state \<Rightarrow> ring_state option" where
  "drain_step C (Claim_Block d s) st =
     (if r_drain st d = D_Idle \<and> s < r_head st \<and>
         sl_commit (r_slots st (slot_of C s)) = C_Published (epoch_of C s)
      then Some (set_drain d (D_Drain s)
        (upd_slot (slot_of C s) (\<lambda>b. b\<lparr>sl_commit := C_Claimed (epoch_of C s)\<rparr>) st))
      else None)"
| "drain_step C (See_Owner d s) st =
     (if r_drain st d = D_Idle \<and> s < r_head st \<and>
         (sl_owner (r_slots st (slot_of C s)) = O_Word (epoch_of C s) SHM_OWNER_IDLE \<or>
          sl_owner (r_slots st (slot_of C s)) = O_Word (epoch_of C s) SHM_OWNER_WRITING)
      then Some (set_drain d (D_Seen s (sl_owner (r_slots st (slot_of C s)))) st)
      else None)"
| "drain_step C (See_Stamp d) st =
     (case r_drain st d of
        D_Seen s w \<Rightarrow>
          Some (set_drain d (if sl_stamp (r_slots st (slot_of C s)) = 0 then D_Idle
            else D_Aged s w) st)
      | _ \<Rightarrow> None)"
| "drain_step C (See_Pid d) st =
     (case r_drain st d of
        D_Aged s w \<Rightarrow> Some (set_drain d (D_Pid s w (sl_pid (r_slots st (slot_of C s)))) st)
      | _ \<Rightarrow> None)"
| "drain_step C (Check_Alive d) st =
     (case r_drain st d of
        D_Pid s w n \<Rightarrow>
          Some (set_drain d
            (if w = O_Word (epoch_of C s) SHM_OWNER_WRITING \<and> (n = 0 \<or> r_alive st n) then D_Idle
             else D_Checked s w n) st)
      | _ \<Rightarrow> None)"
| "drain_step C (Take_Block d) st =
     (case r_drain st d of
        D_Checked s w n \<Rightarrow>
          (if sl_owner (r_slots st (slot_of C s)) = w
           then Some (set_drain d (D_Drain s)
             (upd_slot (slot_of C s) (\<lambda>b. b\<lparr>sl_owner := O_Word (epoch_of C s) SHM_OWNER_TAKEN\<rparr>) st))
           else Some (set_drain d D_Idle st))
      | _ \<Rightarrow> None)"
| "drain_step C (Copy_Records d) st =
     (case r_drain st d of
        D_Drain s \<Rightarrow> Some (set_drain d (D_Rel1 s)
          (add_copy s (committed_records (sl_records (r_slots st (slot_of C s)))) st))
      | _ \<Rightarrow> None)"
| "drain_step C (Release1 d) st =
     (case r_drain st d of
        D_Rel1 s \<Rightarrow> Some (set_drain d (D_Rel2 s) (upd_slot (slot_of C s) (\<lambda>b. b\<lparr>sl_stamp := 0\<rparr>) st))
      | _ \<Rightarrow> None)"
| "drain_step C (Release2 d) st =
     (case r_drain st d of
        D_Rel2 s \<Rightarrow> Some (set_drain d (D_Rel3 s)
          (upd_slot (slot_of C s) (\<lambda>b. b\<lparr>sl_commit := C_Zero\<rparr>) st))
      | _ \<Rightarrow> None)"
| "drain_step C (Release3 d) st =
     (case r_drain st d of
        D_Rel3 s \<Rightarrow> Some (set_drain d (D_Rel4 s)
          (upd_slot (slot_of C s) (\<lambda>b. b\<lparr>sl_owner := O_Zero\<rparr>) st))
      | _ \<Rightarrow> None)"
| "drain_step C (Release4 d) st =
     (case r_drain st d of
        D_Rel4 s \<Rightarrow> Some (set_drain d D_Idle
          (upd_slot (slot_of C s) (\<lambda>b. b\<lparr>sl_armed := epoch_of C s + 1\<rparr>) st))
      | _ \<Rightarrow> None)"
| "drain_step C _ st = None"

text \<open>The producer thread an action belongs to.\<close>

fun producer_of :: "action \<Rightarrow> nat option" where
  "producer_of (Load_Head p) = Some p"
| "producer_of (Check_Armed p) = Some p"
| "producer_of (Reload_Head p) = Some p"
| "producer_of (Cas_Head p) = Some p"
| "producer_of (Cas_Head_Fails p) = Some p"
| "producer_of (Stamp p t) = Some p"
| "producer_of (Store_Pid p) = Some p"
| "producer_of (Set_Idle p) = Some p"
| "producer_of (Begin_Write p) = Some p"
| "producer_of (Reserve_Record p x) = Some p"
| "producer_of (Commit_Record p) = Some p"
| "producer_of (End_Write p) = Some p"
| "producer_of (Begin_Publish p) = Some p"
| "producer_of (Store_Committed p) = Some p"
| "producer_of (Store_Published p) = Some p"
| "producer_of _ = None"

text \<open>
  A step: a producer thread of a living process, a drain thread, or the death of a process.
  \<open>pid\<close> is the process of a thread.
\<close>

definition ring_step :: "nat \<Rightarrow> (nat \<Rightarrow> nat) \<Rightarrow> action \<Rightarrow> ring_state \<Rightarrow> ring_state option" where
  "ring_step C pid a st =
     (case producer_of a of
        Some p \<Rightarrow>
          (if \<not> r_alive st (pid p) then None
           else (case claim_step C a st of Some st' \<Rightarrow> Some st' | None \<Rightarrow> write_step C pid a st))
      | None \<Rightarrow>
          (case a of Die n \<Rightarrow> Some (st\<lparr>r_alive := (r_alive st)(n := False)\<rparr>)
           | _ \<Rightarrow> drain_step C a st))"

fun ring_run :: "nat \<Rightarrow> (nat \<Rightarrow> nat) \<Rightarrow> action list \<Rightarrow> ring_state \<Rightarrow> ring_state option" where
  "ring_run C pid [] st = Some st"
| "ring_run C pid (a # as) st =
     (case ring_step C pid a st of None \<Rightarrow> None | Some st' \<Rightarrow> ring_run C pid as st')"

end
