(* ===== verification/Ring_Safety.thy ===== *)
theory Ring_Safety
  imports Ring_Protocol
begin

text \<open>
  Safety of the ring protocol of \<open>Ring_Protocol\<close>, for any number of threads and processes and
  any interleaving: an invariant of local assertions, one per place in the code
  (\<open>prod_at\<close>, \<open>drain_at\<close>), and of clauses on slots, laps and copies, with one
  preservation lemma per kind of step. It holds of every run in which the two stores that end
  \<open>RingProducer::publish\<close> are not separated (\<open>prompt\<close>): a block is then copied out at most
  once and whole before it is armed again.

  The last section shows what the separation allows, with the run that shows it, and what a
  producer that dies inside \<open>claim\<close> leaves behind.
\<close>

section \<open>The invariant\<close>

text \<open>The block a slot is armed for.\<close>

definition live :: "nat \<Rightarrow> ring_state \<Rightarrow> nat \<Rightarrow> bool" where
  "live C st s \<longleftrightarrow> sl_armed (r_slots st (slot_of C s)) = epoch_of C s"

abbreviation slot_at :: "nat \<Rightarrow> ring_state \<Rightarrow> nat \<Rightarrow> slot" where
  "slot_at C st s \<equiv> r_slots st (slot_of C s)"

text \<open>Which blocks a thread works on: before the owner word is stored, until published; while drained.\<close>

fun stamps :: "producer_pc \<Rightarrow> nat \<Rightarrow> bool" where
  "stamps (P_Stamp t) s = (s = t)"
| "stamps (P_Pid t) s = (s = t)"
| "stamps (P_Own t) s = (s = t)"
| "stamps _ s = False"

fun holds :: "producer_pc \<Rightarrow> nat \<Rightarrow> bool" where
  "holds (P_Stamp t) s = (s = t)"
| "holds (P_Pid t) s = (s = t)"
| "holds (P_Own t) s = (s = t)"
| "holds (P_Hold t) s = (s = t)"
| "holds (P_Write t) s = (s = t)"
| "holds (P_Reserved t x) s = (s = t)"
| "holds (P_Committed t) s = (s = t)"
| "holds (P_Publish t) s = (s = t)"
| "holds (P_Published t) s = (s = t)"
| "holds _ s = False"

fun copied :: "drain_pc \<Rightarrow> nat \<Rightarrow> bool" where
  "copied (D_Rel1 t) s = (s = t)"
| "copied (D_Rel2 t) s = (s = t)"
| "copied (D_Rel3 t) s = (s = t)"
| "copied (D_Rel4 t) s = (s = t)"
| "copied _ s = False"

fun drains :: "drain_pc \<Rightarrow> nat \<Rightarrow> bool" where
  "drains (D_Drain t) s = (s = t)"
| "drains (D_Rel1 t) s = (s = t)"
| "drains (D_Rel2 t) s = (s = t)"
| "drains (D_Rel3 t) s = (s = t)"
| "drains (D_Rel4 t) s = (s = t)"
| "drains _ s = False"

fun inspects :: "drain_pc \<Rightarrow> nat \<Rightarrow> bool" where
  "inspects (D_Seen t v) s = (s = t)"
| "inspects (D_Aged t v) s = (s = t)"
| "inspects (D_Pid t v n) s = (s = t)"
| "inspects (D_Checked t v n) s = (s = t)"
| "inspects _ s = False"

text \<open>Owner words from which a block may be taken over.\<close>

definition free_word :: "nat \<Rightarrow> nat \<Rightarrow> owner_state \<Rightarrow> bool" where
  "free_word C s w \<longleftrightarrow> w = O_Word (epoch_of C s) SHM_OWNER_IDLE \<or> w = O_Word (epoch_of C s) SHM_OWNER_WRITING"

definition fresh_claim :: "nat \<Rightarrow> ring_state \<Rightarrow> nat \<Rightarrow> bool" where
  "fresh_claim C st s \<longleftrightarrow> s < r_head st \<and> live C st s \<and> sl_owner (slot_at C st s) = O_Zero \<and>
     sl_commit (slot_at C st s) = C_Zero"

definition held_by :: "nat \<Rightarrow> (nat \<Rightarrow> nat) \<Rightarrow> ring_state \<Rightarrow> nat \<Rightarrow> nat \<Rightarrow> bool" where
  "held_by C pid st p s \<longleftrightarrow> s < r_head st \<and> (live C st s \<longrightarrow> sl_pid (slot_at C st s) = pid p)"

definition being_written :: "nat \<Rightarrow> (nat \<Rightarrow> nat) \<Rightarrow> ring_state \<Rightarrow> nat \<Rightarrow> nat \<Rightarrow> bool" where
  "being_written C pid st p s \<longleftrightarrow> held_by C pid st p s \<and>
     (r_alive st (pid p) \<longrightarrow> live C st s \<and>
        sl_owner (slot_at C st s) = O_Word (epoch_of C s) SHM_OWNER_WRITING)"

text \<open>What holds at each place of a producer and of a drain thread.\<close>

fun prod_at :: "nat \<Rightarrow> (nat \<Rightarrow> nat) \<Rightarrow> ring_state \<Rightarrow> nat \<Rightarrow> producer_pc \<Rightarrow> bool" where
  "prod_at C pid st p P_Idle = True"
| "prod_at C pid st p (P_Check s) = (s \<le> r_head st)"
| "prod_at C pid st p (P_Reload s) = (s \<le> r_head st)"
| "prod_at C pid st p (P_Cas s) = (s \<le> r_head st \<and> (s = r_head st \<longrightarrow> live C st s))"
| "prod_at C pid st p (P_Stamp s) = fresh_claim C st s"
| "prod_at C pid st p (P_Pid s) = fresh_claim C st s"
| "prod_at C pid st p (P_Own s) = (fresh_claim C st s \<and> held_by C pid st p s)"
| "prod_at C pid st p (P_Hold s) = held_by C pid st p s"
| "prod_at C pid st p (P_Write s) = being_written C pid st p s"
| "prod_at C pid st p (P_Reserved s x) =
     (being_written C pid st p s \<and>
      (r_alive st (pid p) \<longrightarrow> (\<exists>rs. sl_records (slot_at C st s) = rs @ [(x, False)])))"
| "prod_at C pid st p (P_Committed s) = being_written C pid st p s"
| "prod_at C pid st p (P_Publish s) = being_written C pid st p s"
| "prod_at C pid st p (P_Published s) = False"

definition drained_by :: "nat \<Rightarrow> ring_state \<Rightarrow> nat \<Rightarrow> bool" where
  "drained_by C st s \<longleftrightarrow> s < r_head st \<and> live C st s \<and>
     (sl_commit (slot_at C st s) = C_Claimed (epoch_of C s) \<or>
      sl_owner (slot_at C st s) = O_Word (epoch_of C s) SHM_OWNER_TAKEN)"

fun drain_at :: "nat \<Rightarrow> ring_state \<Rightarrow> drain_pc \<Rightarrow> bool" where
  "drain_at C st D_Idle = True"
| "drain_at C st (D_Seen s w) = (s < r_head st \<and> free_word C s w)"
| "drain_at C st (D_Aged s w) = (s < r_head st \<and> free_word C s w)"
| "drain_at C st (D_Pid s w n) =
     (s < r_head st \<and> free_word C s w \<and> (live C st s \<longrightarrow> sl_pid (slot_at C st s) = n))"
| "drain_at C st (D_Checked s w n) =
     (s < r_head st \<and> free_word C s w \<and> (live C st s \<longrightarrow> sl_pid (slot_at C st s) = n) \<and>
      (w = O_Word (epoch_of C s) SHM_OWNER_WRITING \<longrightarrow> \<not> r_alive st n))"
| "drain_at C st (D_Drain s) = drained_by C st s"
| "drain_at C st (D_Rel1 s) = (drained_by C st s \<and> r_copies st s = [r_written st s])"
| "drain_at C st (D_Rel2 s) = (drained_by C st s \<and> r_copies st s = [r_written st s])"
| "drain_at C st (D_Rel3 s) =
     (s < r_head st \<and> live C st s \<and> r_copies st s = [r_written st s] \<and>
      sl_commit (slot_at C st s) = C_Zero \<and>
      (sl_owner (slot_at C st s) = O_Word (epoch_of C s) SHM_OWNER_TAKEN \<or>
       sl_owner (slot_at C st s) = O_Word (epoch_of C s) SHM_OWNER_PUBLISHED))"
| "drain_at C st (D_Rel4 s) =
     (s < r_head st \<and> live C st s \<and> r_copies st s = [r_written st s] \<and>
      sl_commit (slot_at C st s) = C_Zero \<and> sl_owner (slot_at C st s) = O_Zero)"

text \<open>What holds of the words of a slot, of laps, of blocks not yet claimed and of copies.\<close>

definition word_ok :: "slot \<Rightarrow> bool" where
  "word_ok b \<longleftrightarrow> (\<forall>e w. sl_owner b = O_Word e w \<longrightarrow> e = sl_armed b) \<and>
     (sl_commit b \<noteq> C_Zero \<longrightarrow>
        (sl_commit b = C_Published (sl_armed b) \<or> sl_commit b = C_Claimed (sl_armed b)) \<and>
        sl_owner b = O_Word (sl_armed b) SHM_OWNER_PUBLISHED)"

definition words_ok :: "ring_state \<Rightarrow> bool" where
  "words_ok st \<longleftrightarrow> (\<forall>i. word_ok (r_slots st i))"

definition laps_ok :: "nat \<Rightarrow> ring_state \<Rightarrow> bool" where
  "laps_ok C st \<longleftrightarrow> (\<forall>s. live C st s \<longrightarrow> r_head st \<le> s + C) \<and>
     (\<forall>s < r_head st. epoch_of C s \<le> sl_armed (slot_at C st s))"

definition future_ok :: "nat \<Rightarrow> ring_state \<Rightarrow> bool" where
  "future_ok C st \<longleftrightarrow> (\<forall>s \<ge> r_head st. r_written st s = [] \<and> r_copies st s = [] \<and>
      (live C st s \<longrightarrow> sl_owner (slot_at C st s) = O_Zero \<and> sl_commit (slot_at C st s) = C_Zero))"

definition blocks_ok :: "nat \<Rightarrow> ring_state \<Rightarrow> bool" where
  "blocks_ok C st \<longleftrightarrow> (\<forall>s < r_head st.
      if live C st s then r_written st s = committed_records (sl_records (slot_at C st s))
      else r_copies st s = [r_written st s])"

definition uncopied_ok :: "nat \<Rightarrow> ring_state \<Rightarrow> bool" where
  "uncopied_ok C st \<longleftrightarrow> (\<forall>s. live C st s \<and> (\<forall>d. \<not> copied (r_drain st d) s) \<longrightarrow> r_copies st s = [])"

definition exclusive :: "ring_state \<Rightarrow> bool" where
  "exclusive st \<longleftrightarrow>
     (\<forall>p q s. holds (r_prod st p) s \<longrightarrow> holds (r_prod st q) s \<longrightarrow> p = q) \<and>
     (\<forall>d d' s. drains (r_drain st d) s \<longrightarrow> drains (r_drain st d') s \<longrightarrow> d = d') \<and>
     (\<forall>p d s. stamps (r_prod st p) s \<longrightarrow> \<not> drains (r_drain st d) s) \<and>
     (\<forall>p d s. stamps (r_prod st p) s \<longrightarrow> \<not> inspects (r_drain st d) s)"

definition ring_inv :: "nat \<Rightarrow> (nat \<Rightarrow> nat) \<Rightarrow> ring_state \<Rightarrow> bool" where
  "ring_inv C pid st \<longleftrightarrow> words_ok st \<and> laps_ok C st \<and> future_ok C st \<and> blocks_ok C st \<and>
     uncopied_ok C st \<and> exclusive st \<and> (\<forall>p. prod_at C pid st p (r_prod st p)) \<and>
     (\<forall>d. drain_at C st (r_drain st d))"

section \<open>Facts shared by the steps\<close>

lemma ring_invI:
  assumes "words_ok st" "laps_ok C st" "future_ok C st" "blocks_ok C st" "uncopied_ok C st"
    "exclusive st" "\<And>p. prod_at C pid st p (r_prod st p)" "\<And>d. drain_at C st (r_drain st d)"
  shows "ring_inv C pid st"
  using assms unfolding ring_inv_def by blast

lemma ring_invD:
  assumes "ring_inv C pid st"
  shows "words_ok st" "laps_ok C st" "future_ok C st" "blocks_ok C st" "uncopied_ok C st"
    "exclusive st" "\<And>p. prod_at C pid st p (r_prod st p)" "\<And>d. drain_at C st (r_drain st d)"
  using assms unfolding ring_inv_def by blast+

lemma same_block:
  assumes "slot_of C s = slot_of C t" "epoch_of C s = epoch_of C t"
  shows "s = t"
  using assms unfolding slot_of_def epoch_of_def
  by (metis add_right_cancel div_mult_mod_eq)

lemma live_unique: "live C st s \<Longrightarrow> live C st t \<Longrightarrow> slot_of C s = slot_of C t \<Longrightarrow> s = t"
  unfolding live_def by (metis same_block)

lemma copied_drains: "copied pc s \<Longrightarrow> drains pc s"
  by (cases pc) simp_all

lemma stamps_holds: "stamps pc s \<Longrightarrow> holds pc s"
  by (cases pc) simp_all

lemma exclusiveD:
  assumes "exclusive st"
  shows "holds (r_prod st p) s \<Longrightarrow> holds (r_prod st q) s \<Longrightarrow> p = q"
    "drains (r_drain st d) s \<Longrightarrow> drains (r_drain st d') s \<Longrightarrow> d = d'"
    "stamps (r_prod st p) s \<Longrightarrow> \<not> drains (r_drain st d) s"
    "stamps (r_prod st p) s \<Longrightarrow> \<not> inspects (r_drain st d) s"
  using assms unfolding exclusive_def by blast+

lemma ring_inv_initial: "0 < C \<Longrightarrow> ring_inv C pid initial_ring"
  by (rule ring_invI) (auto simp: initial_ring_def fresh_slot_def words_ok_def word_ok_def laps_ok_def
      future_ok_def blocks_ok_def uncopied_ok_def exclusive_def live_def)

text \<open>Facts that only depend on the slots, the head and the liveness of processes.\<close>

lemma prod_at_cong:
  assumes "r_head st' = r_head st" "r_alive st' = r_alive st" "r_slots st' = r_slots st"
  shows "prod_at C pid st' p pc = prod_at C pid st p pc"
  using assms by (cases pc) (simp_all add: fresh_claim_def held_by_def being_written_def live_def)

lemma drain_at_cong:
  assumes "r_head st' = r_head st" "r_alive st' = r_alive st" "r_slots st' = r_slots st"
    "r_copies st' = r_copies st" "r_written st' = r_written st"
  shows "drain_at C st' pc = drain_at C st pc"
  using assms by (cases pc) (simp_all add: drained_by_def live_def)

text \<open>A thread that only moves on keeps the invariant; so does one that writes to its own block.\<close>

lemma move_producer:
  assumes inv: "ring_inv C pid st" and pc: "prod_at C pid st p pc"
    and h: "\<And>s. holds pc s \<Longrightarrow> holds (r_prod st p) s" and m: "\<And>s. stamps pc s \<Longrightarrow> stamps (r_prod st p) s"
  shows "ring_inv C pid (set_prod p pc st)"
proof -
  note i = ring_invD [OF inv]
  have lv: "live C (set_prod p pc st) = live C st" by (simp add: live_def set_prod_def fun_eq_iff)
  show ?thesis
  proof (rule ring_invI)
    show "exclusive (set_prod p pc st)"
      using h m unfolding exclusive_def
      by (auto simp: set_prod_def dest: exclusiveD [OF i(6)])
    show "prod_at C pid (set_prod p pc st) q (r_prod (set_prod p pc st) q)" for q
      using prod_at_cong [of "set_prod p pc st" st] pc i(7) [of q] by (simp add: set_prod_def)
    show "drain_at C (set_prod p pc st) (r_drain (set_prod p pc st) d)" for d
      using drain_at_cong [of "set_prod p pc st" st] i(8) [of d] by (simp add: set_prod_def)
  qed (use i(1-5) lv in \<open>simp_all add: words_ok_def laps_ok_def future_ok_def blocks_ok_def
      uncopied_ok_def set_prod_def\<close>)
qed

lemma move_drain:
  assumes inv: "ring_inv C pid st" and pc: "drain_at C st pc"
    and h: "\<And>s. \<not> drains pc s" and g: "\<And>s. \<not> drains (r_drain st d) s"
    and m: "\<And>s. inspects pc s \<Longrightarrow> (\<forall>p. \<not> stamps (r_prod st p) s)"
  shows "ring_inv C pid (set_drain d pc st)"
proof -
  note i = ring_invD [OF inv]
  have lv: "live C (set_drain d pc st) = live C st" by (simp add: live_def set_drain_def fun_eq_iff)
  have c: "\<not> copied pc s" "\<not> copied (r_drain st d) s" for s
    using h [of s] g [of s] copied_drains by blast+
  show ?thesis
  proof (rule ring_invI)
    show "exclusive (set_drain d pc st)"
      using h m unfolding exclusive_def
      by (auto simp: set_drain_def dest: exclusiveD [OF i(6)])
    show "prod_at C pid (set_drain d pc st) q (r_prod (set_drain d pc st) q)" for q
      using prod_at_cong [of "set_drain d pc st" st] i(7) [of q] by (simp add: set_drain_def)
    show "drain_at C (set_drain d pc st) (r_drain (set_drain d pc st) e)" for e
      using drain_at_cong [of "set_drain d pc st" st] pc i(8) [of e] by (simp add: set_drain_def)
    show "uncopied_ok C (set_drain d pc st)"
      using i(5) lv c by (simp add: uncopied_ok_def set_drain_def) metis
  qed (use i(1-4) lv in \<open>simp_all add: words_ok_def laps_ok_def future_ok_def blocks_ok_def
      set_drain_def\<close>)
qed

lemma prod_at_other:
  assumes at: "prod_at C pid st q pc" and n: "\<not> holds pc s" and lv: "live C st s" "s < r_head st"
    and st': "r_head st' = r_head st" "r_alive st' = r_alive st"
      "\<And>i. i \<noteq> slot_of C s \<Longrightarrow> r_slots st' i = r_slots st i"
      "sl_armed (slot_at C st' s) = sl_armed (slot_at C st s)"
  shows "prod_at C pid st' q pc"
proof -
  have live: "live C st' t = live C st t" for t
    using st'(3,4) by (cases "slot_of C t = slot_of C s") (simp_all add: live_def)
  have same: "slot_at C st' t = slot_at C st t" if "live C st t" "t \<noteq> s" for t
    using live_unique [OF that(1) lv(1)] that(2) st'(3) by blast
  show ?thesis
    using at n lv(2) same
    by (cases pc) (auto simp: fresh_claim_def held_by_def being_written_def live st'(1,2))
qed

lemma drain_at_other:
  assumes at: "drain_at C st pc" and n: "\<not> drains pc s" and lv: "live C st s" 
    and pid: "sl_pid (slot_at C st' s) = sl_pid (slot_at C st s) \<or> \<not> inspects pc s"
    and st': "r_head st' = r_head st" "r_alive st' = r_alive st"
      "\<And>i. i \<noteq> slot_of C s \<Longrightarrow> r_slots st' i = r_slots st i"
      "sl_armed (slot_at C st' s) = sl_armed (slot_at C st s)"
      "\<And>t. t \<noteq> s \<Longrightarrow> r_copies st' t = r_copies st t \<and> r_written st' t = r_written st t"
  shows "drain_at C st' pc"
proof -
  have live: "live C st' t = live C st t" for t
    using st'(3,4) by (cases "slot_of C t = slot_of C s") (simp_all add: live_def)
  have same: "slot_at C st' t = slot_at C st t" if "live C st t" "t \<noteq> s" for t
    using live_unique [OF that(1) lv(1)] that(2) st'(3) by blast
  have p: "sl_pid (slot_at C st' t) = sl_pid (slot_at C st t)" if "live C st t" "inspects pc t" for t
    using same [OF that(1)] pid that(2) by (cases "t = s") auto
  show ?thesis
    using at n p same st'(5)
    by (cases pc) (auto simp: drained_by_def live st'(1,2))
qed

lemma write_slot:
  assumes inv: "ring_inv C pid st" and hold: "holds (r_prod st p) s" "live C st s" "s < r_head st"
    and f: "sl_armed (f (slot_at C st s)) = sl_armed (slot_at C st s)" "word_ok (f (slot_at C st s))"
      "ws = committed_records (sl_records (f (slot_at C st s)))"
    and d: "\<And>d. \<not> drains (r_drain st d) s"
    and pid: "sl_pid (f (slot_at C st s)) = sl_pid (slot_at C st s) \<or> stamps (r_prod st p) s"
    and st2: "st2 = set_prod p pc (upd_slot (slot_of C s) f (st\<lparr>r_written := (r_written st)(s := ws)\<rparr>))"
    and pc: "prod_at C pid st2 p pc"
      "\<And>t. holds pc t \<Longrightarrow> t = s" "\<And>t. stamps pc t \<Longrightarrow> stamps (r_prod st p) t"
  shows "ring_inv C pid st2"
proof -
  note i = ring_invD [OF inv]
  note e = exclusiveD [OF i(6)]
  have sel: "r_head st2 = r_head st" "r_alive st2 = r_alive st" "r_prod st2 = (r_prod st)(p := pc)"
    "r_drain st2 = r_drain st" "r_written st2 = (r_written st)(s := ws)" "r_copies st2 = r_copies st"
    "r_slots st2 = (r_slots st)(slot_of C s := f (slot_at C st s))"
    by (simp_all add: st2 set_prod_def upd_slot_def)
  have live: "live C st2 t = live C st t" for t
    using f(1) by (cases "slot_of C t = slot_of C s") (simp_all add: live_def sel)
  have same: "t = s \<or> slot_at C st2 t = slot_at C st t" if "live C st t" for t
    using live_unique [OF that hold(2)] by (auto simp: sel)
  show ?thesis
  proof (rule ring_invI)
    show "words_ok st2" using i(1) f(2) by (simp add: words_ok_def sel)
    have "sl_armed (r_slots st2 j) = sl_armed (r_slots st j)" for j using f(1) by (simp add: sel)
    then show "laps_ok C st2" using i(2) by (simp add: laps_ok_def live sel(1))
    show "future_ok C st2"
      unfolding future_ok_def sel(1) live
    proof (intro allI impI)
      fix t assume t: "r_head st \<le> t"
      then have "t \<noteq> s" using hold(3) by simp
      then show "r_written st2 t = [] \<and> r_copies st2 t = [] \<and> (live C st t \<longrightarrow>
          sl_owner (slot_at C st2 t) = O_Zero \<and> sl_commit (slot_at C st2 t) = C_Zero)"
        using i(3) t same [of t] by (auto simp: future_ok_def sel(5,6))
    qed
    show "blocks_ok C st2"
      unfolding blocks_ok_def sel(1) live
    proof (intro allI impI)
      fix t assume t: "t < r_head st"
      show "if live C st t then r_written st2 t = committed_records (sl_records (slot_at C st2 t))
        else r_copies st2 t = [r_written st2 t]"
        using i(4) t same [of t] f(3) hold(2) by (cases "t = s") (auto simp: blocks_ok_def sel)
    qed
    show "uncopied_ok C st2"
      using i(5) unfolding uncopied_ok_def live sel(4,6) .
    show "exclusive st2"
      unfolding exclusive_def sel(3,4) using pc(2,3) hold(1) by (auto dest: e split: if_splits)
    show "prod_at C pid st2 q (r_prod st2 q)" for q
    proof (cases "q = p")
      case False
      then have "\<not> holds (r_prod st q) s" using e(1) hold(1) by blast
      from prod_at_other [OF i(7) this hold(2,3)] show ?thesis using False f(1) by (simp add: sel)
    qed (use pc(1) in \<open>simp add: sel\<close>)
    show "drain_at C st2 (r_drain st2 g)" for g
      unfolding sel(4)
    proof (rule drain_at_other [OF i(8) d hold(2)])
      show "sl_pid (slot_at C st2 s) = sl_pid (slot_at C st s) \<or> \<not> inspects (r_drain st g) s"
        using pid e(4) by (auto simp: sel)
    qed (use f(1) in \<open>simp_all add: sel\<close>)
  qed
qed

lemma drain_slot:
  assumes inv: "ring_inv C pid st" and lv: "live C st s" "s < r_head st"
    and f: "sl_armed (f (slot_at C st s)) = sl_armed (slot_at C st s)" "word_ok (f (slot_at C st s))"
      "sl_records (f (slot_at C st s)) = sl_records (slot_at C st s)"
      "sl_pid (f (slot_at C st s)) = sl_pid (slot_at C st s)"
    and d: "\<And>e. drains (r_drain st e) s \<Longrightarrow> e = d"
    and p: "\<And>p. holds (r_prod st p) s \<Longrightarrow>
      \<not> stamps (r_prod st p) s \<and> (r_alive st (pid p) \<longrightarrow> r_prod st p = P_Hold s)"
    and st2: "st2 = set_drain d pc (upd_slot (slot_of C s) f (st\<lparr>r_copies := (r_copies st)(s := cs)\<rparr>))"
    and pc: "drain_at C st2 pc" "\<And>t. drains pc t \<longleftrightarrow> t = s" "\<And>t. \<not> inspects pc t"
    and old: "\<And>t. copied (r_drain st d) t \<Longrightarrow> t = s"
    and cs: "cs = (if copied pc s then [r_written st s] else [])"
  shows "ring_inv C pid st2"
proof -
  note i = ring_invD [OF inv]
  note e = exclusiveD [OF i(6)]
  have sel: "r_head st2 = r_head st" "r_alive st2 = r_alive st" "r_prod st2 = r_prod st"
    "r_drain st2 = (r_drain st)(d := pc)" "r_written st2 = r_written st"
    "r_copies st2 = (r_copies st)(s := cs)"
    "r_slots st2 = (r_slots st)(slot_of C s := f (slot_at C st s))"
    by (simp_all add: st2 set_drain_def upd_slot_def)
  have live: "live C st2 t = live C st t" for t
    using f(1) by (cases "slot_of C t = slot_of C s") (simp_all add: live_def sel)
  have same: "slot_at C st2 t = slot_at C st t" if "live C st t" "t \<noteq> s" for t
    using live_unique [OF that(1) lv(1)] that(2) by (auto simp: sel)
  show ?thesis
  proof (rule ring_invI)
    show "words_ok st2" using i(1) f(2) by (simp add: words_ok_def sel)
    have "sl_armed (r_slots st2 j) = sl_armed (r_slots st j)" for j using f(1) by (simp add: sel)
    then show "laps_ok C st2" using i(2) by (simp add: laps_ok_def live sel(1))
    show "future_ok C st2"
      unfolding future_ok_def sel(1) live
    proof (intro allI impI)
      fix t assume t: "r_head st \<le> t"
      then have "t \<noteq> s" using lv(2) by simp
      then show "r_written st2 t = [] \<and> r_copies st2 t = [] \<and> (live C st t \<longrightarrow>
          sl_owner (slot_at C st2 t) = O_Zero \<and> sl_commit (slot_at C st2 t) = C_Zero)"
        using i(3) t same [of t] by (auto simp: future_ok_def sel(5,6))
    qed
    show "blocks_ok C st2"
      unfolding blocks_ok_def sel(1) live
    proof (intro allI impI)
      fix t assume t: "t < r_head st"
      show "if live C st t then r_written st2 t = committed_records (sl_records (slot_at C st2 t))
        else r_copies st2 t = [r_written st2 t]"
        using i(4) t same [of t] f(3) lv(1) by (cases "t = s") (auto simp: blocks_ok_def sel)
    qed
    show "uncopied_ok C st2"
      unfolding uncopied_ok_def live sel(4,6)
    proof (intro allI impI, elim conjE)
      fix t assume t: "live C st t" "\<forall>e. \<not> copied (((r_drain st)(d := pc)) e) t"
      show "((r_copies st)(s := cs)) t = []"
      proof (cases "t = s")
        case True then show ?thesis using t(2) cs by (auto split: if_splits)
      next
        case False
        then have "\<not> copied (r_drain st e) t" for e
          using t(2) old [of t] by (cases "e = d") (auto split: if_splits)
        then show ?thesis using i(5) t(1) False by (simp add: uncopied_ok_def)
      qed
    qed
    have ns: "\<not> stamps (r_prod st q) s" for q using p [of q] stamps_holds by blast
    show "exclusive st2"
      unfolding exclusive_def sel(3,4) using pc(2,3) d ns
      by (auto dest: e split: if_splits)
    show "prod_at C pid st2 q (r_prod st2 q)" for q
    proof (cases "holds (r_prod st q) s")
      case False
      from prod_at_other [OF i(7) this lv] show ?thesis using f(1) by (simp add: sel)
    next
      case True
      then show ?thesis
        using p [OF True] i(7) [of q] f(4)
        by (cases "r_prod st q") (auto simp: sel held_by_def being_written_def live)
    qed
    show "drain_at C st2 (r_drain st2 g)" for g
    proof (cases "g = d")
      case False
      then have "\<not> drains (r_drain st g) s" using d by blast
      from drain_at_other [OF i(8) this lv(1)] show ?thesis
        using f(1,4) False by (simp add: sel)
    qed (use pc(1) in \<open>simp add: sel\<close>)
  qed
qed

section \<open>Steps that change head or a lap, and death\<close>

lemma inv_cas:
  assumes inv: "ring_inv C pid st" and C: "0 < C" and pc: "r_prod st p = P_Cas (r_head st)"
    and st2: "st2 = set_prod p (P_Stamp (r_head st))
      (upd_slot (slot_of C (r_head st)) (\<lambda>b. b\<lparr>sl_records := []\<rparr>) (st\<lparr>r_head := r_head st + 1\<rparr>))"
  shows "ring_inv C pid st2"
proof -
  note i = ring_invD [OF inv]
  note e = exclusiveD [OF i(6)]
  define h where "h = r_head st"
  have lh: "live C st h" using i(7) [of p] by (simp add: pc h_def)
  have sel: "r_head st2 = h + 1" "r_alive st2 = r_alive st" "r_prod st2 = (r_prod st)(p := P_Stamp h)"
    "r_drain st2 = r_drain st" "r_written st2 = r_written st" "r_copies st2 = r_copies st"
    "r_slots st2 = (r_slots st)(slot_of C h := (slot_at C st h)\<lparr>sl_records := []\<rparr>)"
    by (simp_all add: st2 set_prod_def upd_slot_def h_def)
  have live: "live C st2 t = live C st t" for t
    by (cases "slot_of C t = slot_of C h") (simp_all add: live_def sel)
  have slot: "sl_armed (r_slots st2 j) = sl_armed (r_slots st j)"
    "sl_owner (r_slots st2 j) = sl_owner (r_slots st j)"
    "sl_commit (r_slots st2 j) = sl_commit (r_slots st j)"
    "sl_pid (r_slots st2 j) = sl_pid (r_slots st j)" for j
    by (simp_all add: sel)
  have same: "slot_at C st2 t = slot_at C st t" if "live C st t" "t \<noteq> h" for t
    using live_unique [OF that(1) lh] that(2) by (auto simp: sel)
  have hold: "t < h" if "holds (r_prod st q) t" for q t
    using i(7) [of q] that by (cases "r_prod st q") (auto simp: fresh_claim_def held_by_def
        being_written_def h_def)
  have drn: "t < h" if "drains (r_drain st q) t \<or> inspects (r_drain st q) t" for q t
    using i(8) [of q] that by (cases "r_drain st q") (auto simp: drained_by_def h_def)
  show ?thesis
  proof (rule ring_invI)
    have "word_ok (r_slots st2 j) = word_ok (r_slots st j)" for j unfolding word_ok_def slot ..
    then show "words_ok st2" using i(1) by (simp add: words_ok_def)
    show "laps_ok C st2"
      unfolding laps_ok_def sel(1) live slot
    proof (intro conjI allI impI)
      fix t assume t: "live C st t"
      have "h \<le> t + C" using i(2) t by (simp add: laps_ok_def h_def)
      moreover have "h \<noteq> t + C"
      proof
        assume h: "h = t + C"
        then have "slot_of C t = slot_of C h" using C by (simp add: slot_of_def)
        from live_unique [OF t lh this] show False using h C by simp
      qed
      ultimately show "h + 1 \<le> t + C" by simp
    next
      fix t assume t: "t < h + 1"
      show "epoch_of C t \<le> sl_armed (slot_at C st t)"
      proof (cases "t = h")
        case True then show ?thesis using lh by (simp add: live_def)
      next
        case False then show ?thesis using i(2) t by (simp add: laps_ok_def h_def)
      qed
    qed
    show "future_ok C st2"
      using i(3) unfolding future_ok_def sel(1,5,6) live slot by (simp add: h_def)
    show "blocks_ok C st2"
      unfolding blocks_ok_def sel(1) live
    proof (intro allI impI)
      fix t assume t: "t < h + 1"
      show "if live C st t then r_written st2 t = committed_records (sl_records (slot_at C st2 t))
        else r_copies st2 t = [r_written st2 t]"
      proof (cases "t = h")
        case True
        then show ?thesis using i(3) lh by (simp add: future_ok_def sel h_def committed_records_def)
      next
        case False
        then show ?thesis using i(4) t same [of t] by (auto simp: blocks_ok_def sel h_def)
      qed
    qed
    show "uncopied_ok C st2" using i(5) unfolding uncopied_ok_def live sel(4,6) .
    show "exclusive st2"
      unfolding exclusive_def sel(3,4) using hold drn by (auto dest: e split: if_splits)
    show "prod_at C pid st2 q (r_prod st2 q)" for q
    proof (cases "q = p")
      case True
      have "sl_owner (slot_at C st h) = O_Zero" "sl_commit (slot_at C st h) = C_Zero"
        using i(3) lh by (auto simp: future_ok_def h_def)
      then show ?thesis using True lh by (simp add: sel(1,3) fresh_claim_def live slot)
    next
      case False
      have "r_prod st q = P_Reserved t x \<Longrightarrow> t \<noteq> h" for t x using hold [of q t] by auto
      then show ?thesis
        using False i(7) [of q] same
        by (cases "r_prod st q")
          (auto simp: sel(1-3) fresh_claim_def held_by_def being_written_def live slot h_def)
    qed
    show "drain_at C st2 (r_drain st2 g)" for g
      using i(8) [of g] unfolding sel(4)
      by (cases "r_drain st g") (auto simp: sel drained_by_def live slot h_def)
  qed
qed

lemma inv_rearm:
  assumes inv: "ring_inv C pid st" and C: "0 < C" and pc: "r_drain st d = D_Rel4 s"
    and st2: "st2 = set_drain d D_Idle (upd_slot (slot_of C s) (\<lambda>b. b\<lparr>sl_armed := epoch_of C s + 1\<rparr>) st)"
  shows "ring_inv C pid st2"
proof -
  note i = ring_invD [OF inv]
  note e = exclusiveD [OF i(6)]
  have at: "s < r_head st" "live C st s" "r_copies st s = [r_written st s]"
    "sl_commit (slot_at C st s) = C_Zero" "sl_owner (slot_at C st s) = O_Zero"
    using i(8) [of d] by (simp_all add: pc)
  have sel: "r_head st2 = r_head st" "r_alive st2 = r_alive st" "r_prod st2 = r_prod st"
    "r_drain st2 = (r_drain st)(d := D_Idle)" "r_written st2 = r_written st"
    "r_copies st2 = r_copies st"
    "r_slots st2 = (r_slots st)(slot_of C s := (slot_at C st s)\<lparr>sl_armed := epoch_of C s + 1\<rparr>)"
    by (simp_all add: st2 set_drain_def upd_slot_def)
  have dead: "\<not> live C st2 s" by (simp add: live_def sel)
  have other: "slot_at C st2 t = slot_at C st t \<and> live C st2 t" if "live C st t" "t \<noteq> s" for t
    using live_unique [OF that(1) at(2)] that by (auto simp: live_def sel)
  have past: "live C st t \<and> t \<noteq> s" if "live C st2 t" "t < r_head st" for t
  proof (cases "slot_of C t = slot_of C s")
    case True
    then have "epoch_of C t = epoch_of C s + 1" using that(1) by (simp add: live_def sel)
    moreover have "epoch_of C t \<le> epoch_of C s"
      using i(2) that(2) at(2) True by (auto simp: laps_ok_def live_def)
    ultimately show ?thesis by simp
  next
    case False
    then show ?thesis using that(1) by (auto simp: live_def sel)
  qed
  have future: "live C st t \<or> slot_of C t = slot_of C s \<and> epoch_of C t = epoch_of C s + 1"
    if "live C st2 t" for t
    using that by (auto simp: live_def sel split: if_splits)
  have slot: "sl_owner (r_slots st2 j) = sl_owner (r_slots st j)"
    "sl_commit (r_slots st2 j) = sl_commit (r_slots st j)"
    "sl_pid (r_slots st2 j) = sl_pid (r_slots st j)"
    "sl_records (r_slots st2 j) = sl_records (r_slots st j)" for j
    by (simp_all add: sel)
  have lv: "live C st2 t \<longleftrightarrow> live C st t \<and> t \<noteq> s" if "t < r_head st" for t
    using past [of t] other [of t] that dead by blast
  have lvh: "live C st2 (r_head st)" if "live C st (r_head st)"
    using other [OF that] at(1) by blast
  have here: "drains (r_drain st d') s \<longleftrightarrow> d' = d" for d' using e(2) pc by fastforce
  show ?thesis
  proof (rule ring_invI)
    show "words_ok st2"
    proof -
      have "word_ok ((slot_at C st s)\<lparr>sl_armed := epoch_of C s + 1\<rparr>)"
        using at(4,5) by (simp add: word_ok_def)
      then show ?thesis using i(1) by (simp add: words_ok_def sel)
    qed
    show "laps_ok C st2"
      unfolding laps_ok_def sel(1)
    proof (intro conjI allI impI)
      fix t assume "live C st2 t"
      from future [OF this] show "r_head st \<le> t + C"
      proof
        assume "live C st t" then show ?thesis using i(2) by (simp add: laps_ok_def)
      next
        assume t: "slot_of C t = slot_of C s \<and> epoch_of C t = epoch_of C s + 1"
        then have "s < t" using at(1) by (metis C add_less_cancel_right div_le_mono epoch_of_def
            linorder_not_less less_add_one)
        then show ?thesis using i(2) at(2) by (auto simp: laps_ok_def)
      qed
    next
      fix t assume "t < r_head st"
      then have "epoch_of C t \<le> sl_armed (slot_at C st t)" using i(2) by (simp add: laps_ok_def)
      then show "epoch_of C t \<le> sl_armed (slot_at C st2 t)"
        using at(2) by (auto simp: sel live_def)
    qed
    show "future_ok C st2"
      unfolding future_ok_def sel(1,5,6) slot
    proof (intro allI impI)
      fix t assume t: "r_head st \<le> t"
      then have "live C st2 t \<Longrightarrow> sl_owner (slot_at C st t) = O_Zero \<and> sl_commit (slot_at C st t) = C_Zero"
        using future [of t] i(3) at(4,5) unfolding future_ok_def by metis
      then show "r_written st t = [] \<and> r_copies st t = [] \<and> (live C st2 t \<longrightarrow>
          sl_owner (slot_at C st t) = O_Zero \<and> sl_commit (slot_at C st t) = C_Zero)"
        using i(3) t by (simp add: future_ok_def)
    qed
    show "blocks_ok C st2"
      unfolding blocks_ok_def sel(1,5,6) slot
    proof (intro allI impI)
      fix t assume t: "t < r_head st"
      show "if live C st2 t then r_written st t = committed_records (sl_records (slot_at C st t))
        else r_copies st t = [r_written st t]"
      proof (cases "t = s")
        case True
        then show ?thesis using at(3) dead by simp
      next
        case False
        then have "live C st2 t = live C st t" using past [of t] other [of t] t by blast
        then show ?thesis using i(4) t by (simp add: blocks_ok_def)
      qed
    qed
    show "uncopied_ok C st2"
      unfolding uncopied_ok_def sel(4,6)
    proof (intro allI impI, elim conjE)
      fix t assume t: "live C st2 t" "\<forall>d'. \<not> copied (((r_drain st)(d := D_Idle)) d') t"
      show "r_copies st t = []"
      proof (cases "t < r_head st")
        case True
        then have l: "live C st t" "t \<noteq> s" using past t(1) by auto
        have "\<not> copied (r_drain st d') t" for d'
          using t(2) l(2) pc by (cases "d' = d") (auto split: if_splits)
        then show ?thesis using i(5) l(1) by (simp add: uncopied_ok_def)
      next
        case False then show ?thesis using i(3) by (simp add: future_ok_def)
      qed
    qed
    show "exclusive st2"
      unfolding exclusive_def sel(3,4) by (auto dest: e split: if_splits)
    show "prod_at C pid st2 q (r_prod st2 q)" for q
    proof -
      have "\<not> stamps (r_prod st q) s" using e(3) [of q s d] pc by auto
      moreover have "\<not> (being_written C pid st q s \<and> r_alive st (pid q))"
        using at(5) by (simp add: being_written_def)
      ultimately show ?thesis
        using i(7) [of q] lv lvh
        by (cases "r_prod st q")
          (auto simp: sel(1-3) fresh_claim_def held_by_def being_written_def slot)
    qed
    show "drain_at C st2 (r_drain st2 g)" for g
    proof (cases "g = d")
      case False
      then have "\<not> drains (r_drain st g) s" using here by simp
      then show ?thesis
        using i(8) [of g] lv False
        by (cases "r_drain st g") (auto simp: sel(1,2,4,5,6) drained_by_def slot)
    qed (simp add: sel)
  qed
qed

lemma inv_die:
  assumes inv: "ring_inv C pid st"
  shows "ring_inv C pid (st\<lparr>r_alive := (r_alive st)(n := False)\<rparr>)"
proof -
  note i = ring_invD [OF inv]
  let ?st = "st\<lparr>r_alive := (r_alive st)(n := False)\<rparr>"
  have live: "live C ?st t = live C st t" for t by (simp add: live_def)
  show ?thesis
  proof (rule ring_invI)
    show "prod_at C pid ?st q (r_prod ?st q)" for q
      using i(7) [of q]
      by (cases "r_prod st q") (auto simp: fresh_claim_def held_by_def being_written_def live)
    show "drain_at C ?st (r_drain ?st g)" for g
      using i(8) [of g] by (cases "r_drain st g") (auto simp: drained_by_def live)
  qed (use i(1-6) in \<open>simp_all add: words_ok_def laps_ok_def future_ok_def blocks_ok_def
      uncopied_ok_def exclusive_def live\<close>)
qed

text \<open>The steps of producers and drain threads on words.\<close>

lemma owner_live:
  assumes "ring_inv C pid st" "sl_owner (slot_at C st s) = O_Word (epoch_of C s) w"
  shows "live C st s"
  using ring_invD(1) [OF assms(1)] assms(2) by (auto simp: words_ok_def word_ok_def live_def)

lemma commit_live:
  assumes "ring_inv C pid st" "sl_commit (slot_at C st s) \<in> {C_Published (epoch_of C s), C_Claimed (epoch_of C s)}"
  shows "live C st s \<and> sl_owner (slot_at C st s) = O_Word (epoch_of C s) SHM_OWNER_PUBLISHED"
proof -
  have "word_ok (slot_at C st s)" using ring_invD(1) [OF assms(1)] by (simp add: words_ok_def)
  then show ?thesis using assms(2) unfolding word_ok_def live_def by auto
qed

lemma uncommitted:
  assumes "ring_inv C pid st" "sl_owner (slot_at C st s) \<noteq> O_Word (epoch_of C s) SHM_OWNER_PUBLISHED"
    "live C st s"
  shows "sl_commit (slot_at C st s) = C_Zero"
proof -
  have "word_ok (slot_at C st s)" using ring_invD(1) [OF assms(1)] by (simp add: words_ok_def)
  then show ?thesis using assms(2,3) unfolding word_ok_def live_def by auto
qed

lemma no_drain:
  assumes inv: "ring_inv C pid st" and w: "free_word C s (sl_owner (slot_at C st s))"
  shows "\<not> drains (r_drain st d) s"
proof
  assume d: "drains (r_drain st d) s"
  have lv: "live C st s" using owner_live [OF inv] w by (auto simp: free_word_def)
  have z: "sl_commit (slot_at C st s) = C_Zero"
    using uncommitted [OF inv _ lv] w by (auto simp: free_word_def)
  show False
    using ring_invD(8) [OF inv, of d] d w z
    by (cases "r_drain st d") (auto simp: drained_by_def free_word_def)
qed

lemma held_quietly:
  assumes inv: "ring_inv C pid st" and h: "holds (r_prod st p) s"
    and w: "sl_owner (slot_at C st s) \<notin> {O_Zero, O_Word (epoch_of C s) SHM_OWNER_WRITING}"
  shows "\<not> stamps (r_prod st p) s \<and> (r_alive st (pid p) \<longrightarrow> r_prod st p = P_Hold s)"
  using ring_invD(7) [OF inv, of p] h w
  by (cases "r_prod st p") (auto simp: fresh_claim_def being_written_def)

lemma write_word:
  assumes inv: "ring_inv C pid st" and hold: "holds (r_prod st p) s" "live C st s" "s < r_head st"
    and f: "sl_armed (f (slot_at C st s)) = sl_armed (slot_at C st s)" "word_ok (f (slot_at C st s))"
      "committed_records (sl_records (f (slot_at C st s))) = committed_records (sl_records (slot_at C st s))"
    and d: "\<And>d. \<not> drains (r_drain st d) s"
    and pid: "sl_pid (f (slot_at C st s)) = sl_pid (slot_at C st s) \<or> stamps (r_prod st p) s"
    and pc: "prod_at C pid (set_prod p pc (upd_slot (slot_of C s) f st)) p pc"
      "\<And>t. holds pc t \<Longrightarrow> t = s" "\<And>t. stamps pc t \<Longrightarrow> stamps (r_prod st p) t"
  shows "ring_inv C pid (set_prod p pc (upd_slot (slot_of C s) f st))"
proof -
  have w: "r_written st s = committed_records (sl_records (slot_at C st s))"
    using ring_invD(4) [OF inv] hold(2,3) by (simp add: blocks_ok_def)
  show ?thesis
    by (rule write_slot [where f = f and ws = "r_written st s", OF inv hold f(1,2) _ d pid _ pc])
      (simp_all add: w f(3) flip: w)
qed

section \<open>Every step keeps the invariant\<close>

lemma inv_claim_step:
  assumes inv: "ring_inv C pid st" and C: "0 < C" and st2: "claim_step C a st = Some st2"
  shows "ring_inv C pid st2"
proof (cases a)
  case (Load_Head p)
  then have e: "st2 = set_prod p (P_Check (r_head st)) st" using st2 by (auto split: if_splits)
  show ?thesis unfolding e by (rule move_producer [OF inv]) simp_all
next
  case (Check_Armed p)
  then obtain s where pc: "r_prod st p = P_Check s"
    and e: "st2 = set_prod p (if sl_armed (slot_at C st s) = epoch_of C s then P_Cas s else P_Reload s) st"
    using st2 by (auto split: producer_pc.splits)
  have "s \<le> r_head st" using ring_invD(7) [OF inv, of p] by (simp add: pc)
  then show ?thesis unfolding e by (intro move_producer [OF inv]) (auto simp: live_def split: if_splits)
next
  case (Reload_Head p)
  then obtain s where e: "st2 = set_prod p (if r_head st = s then P_Idle else P_Check (r_head st)) st"
    using st2 by (auto split: producer_pc.splits)
  show ?thesis unfolding e by (rule move_producer [OF inv]) (auto split: if_splits)
next
  case (Cas_Head p)
  then obtain s where pc: "r_prod st p = P_Cas s"
    using st2 by (auto split: producer_pc.splits)
  show ?thesis
  proof (cases "r_head st = s")
    case True
    then show ?thesis using st2 Cas_Head pc inv_cas [OF inv C, of p] by auto
  next
    case False
    then have e: "st2 = set_prod p (P_Check (r_head st)) st" using st2 Cas_Head pc by auto
    show ?thesis unfolding e by (rule move_producer [OF inv]) simp_all
  qed
next
  case (Cas_Head_Fails p)
  then have e: "st2 = set_prod p (P_Check (r_head st)) st"
    using st2 by (auto split: producer_pc.splits)
  show ?thesis unfolding e by (rule move_producer [OF inv]) simp_all
qed (use st2 in auto)

lemma committed_records_simps:
  "committed_records (rs @ [(x, False)]) = committed_records rs"
  "committed_records (commit_last (rs @ [(x, False)])) = committed_records rs @ [x]"
  by (simp_all add: committed_records_def commit_last_def)

lemma writer_facts:
  assumes inv: "ring_inv C pid st" and w: "being_written C pid st p s" and a: "r_alive st (pid p)"
  shows "live C st s" "s < r_head st" "sl_owner (slot_at C st s) = O_Word (epoch_of C s) SHM_OWNER_WRITING"
    "sl_commit (slot_at C st s) = C_Zero" "\<And>d. \<not> drains (r_drain st d) s"
    "sl_pid (slot_at C st s) = pid p" "sl_armed (slot_at C st s) = epoch_of C s"
proof -
  show l: "live C st s" and h: "s < r_head st"
    and o: "sl_owner (slot_at C st s) = O_Word (epoch_of C s) SHM_OWNER_WRITING"
    and "sl_pid (slot_at C st s) = pid p"
    using w a by (auto simp: being_written_def held_by_def)
  show "sl_commit (slot_at C st s) = C_Zero" using uncommitted [OF inv _ l] o by simp
  show "\<not> drains (r_drain st d) s" for d using no_drain [OF inv] o by (simp add: free_word_def)
  show "sl_armed (slot_at C st s) = epoch_of C s" using l by (simp add: live_def)
qed

lemma idle_facts:
  assumes inv: "ring_inv C pid st" and pc: "r_prod st p = P_Hold s"
    and o: "sl_owner (slot_at C st s) = O_Word (epoch_of C s) SHM_OWNER_IDLE"
  shows "live C st s" "s < r_head st" "sl_commit (slot_at C st s) = C_Zero"
    "\<And>d. \<not> drains (r_drain st d) s" "sl_pid (slot_at C st s) = pid p"
    "sl_armed (slot_at C st s) = epoch_of C s"
proof -
  show l: "live C st s" using owner_live [OF inv o] .
  then show "s < r_head st" "sl_pid (slot_at C st s) = pid p"
    using ring_invD(7) [OF inv, of p] by (simp_all add: pc held_by_def)
  show "sl_commit (slot_at C st s) = C_Zero" using uncommitted [OF inv _ l] o by simp
  show "\<not> drains (r_drain st d) s" for d using no_drain [OF inv] o by (simp add: free_word_def)
  show "sl_armed (slot_at C st s) = epoch_of C s" using l by (simp add: live_def)
qed

lemma stamp_facts:
  assumes inv: "ring_inv C pid st" and pc: "stamps (r_prod st p) s"
  shows "live C st s" "s < r_head st" "sl_owner (slot_at C st s) = O_Zero"
    "sl_commit (slot_at C st s) = C_Zero" "\<And>d. \<not> drains (r_drain st d) s"
    "sl_armed (slot_at C st s) = epoch_of C s"
proof -
  have "fresh_claim C st s"
    using ring_invD(7) [OF inv, of p] pc by (cases "r_prod st p") auto
  then show l: "live C st s" and "s < r_head st" and "sl_owner (slot_at C st s) = O_Zero"
    and "sl_commit (slot_at C st s) = C_Zero" and "sl_armed (slot_at C st s) = epoch_of C s"
    by (simp_all add: fresh_claim_def live_def)
  show "\<not> drains (r_drain st d) s" for d using exclusiveD(3) [OF ring_invD(6) [OF inv] pc] .
qed

lemma upd_simps [simp]:
  "r_head (set_prod p pc st) = r_head st" "r_alive (set_prod p pc st) = r_alive st"
  "r_slots (set_prod p pc st) = r_slots st" "r_drain (set_prod p pc st) = r_drain st"
  "r_prod (set_prod p pc st) = (r_prod st)(p := pc)"
  "r_copies (set_prod p pc st) = r_copies st" "r_written (set_prod p pc st) = r_written st"
  "r_head (set_drain d dc st) = r_head st" "r_alive (set_drain d dc st) = r_alive st"
  "r_slots (set_drain d dc st) = r_slots st" "r_prod (set_drain d dc st) = r_prod st"
  "r_drain (set_drain d dc st) = (r_drain st)(d := dc)"
  "r_copies (set_drain d dc st) = r_copies st" "r_written (set_drain d dc st) = r_written st"
  "r_head (upd_slot i f st) = r_head st" "r_alive (upd_slot i f st) = r_alive st"
  "r_slots (upd_slot i f st) = (r_slots st)(i := f (r_slots st i))"
  "r_drain (upd_slot i f st) = r_drain st" "r_prod (upd_slot i f st) = r_prod st"
  "r_copies (upd_slot i f st) = r_copies st" "r_written (upd_slot i f st) = r_written st"
  by (simp_all add: set_prod_def set_drain_def upd_slot_def)

lemmas at_defs = fresh_claim_def held_by_def being_written_def drained_by_def live_def word_ok_def

lemma inv_write_step:
  assumes inv: "ring_inv C pid st" and al: "r_alive st (pid (the (producer_of a)))"
    and st2: "write_step C pid a st = Some st2" and a: "\<And>p. a \<noteq> Store_Committed p"
  shows "ring_inv C pid st2"
proof (cases a)
  case (Stamp p t)
  then obtain s where pc: "r_prod st p = P_Stamp s"
    and e: "st2 = set_prod p (P_Pid s) (upd_slot (slot_of C s) (\<lambda>b. b\<lparr>sl_stamp := t\<rparr>) st)"
    using st2 by (auto split: producer_pc.splits)
  have st: "stamps (r_prod st p) s" by (simp add: pc)
  note k = stamp_facts [OF inv st]
  show ?thesis unfolding e
    by (rule write_word [OF inv stamps_holds [OF st] k(1,2)]) (use k in \<open>simp_all add: pc at_defs\<close>)
next
  case (Store_Pid p)
  then obtain s where pc: "r_prod st p = P_Pid s"
    and e: "st2 = set_prod p (P_Own s) (upd_slot (slot_of C s) (\<lambda>b. b\<lparr>sl_pid := pid p\<rparr>) st)"
    using st2 by (auto split: producer_pc.splits)
  have st: "stamps (r_prod st p) s" by (simp add: pc)
  note k = stamp_facts [OF inv st]
  show ?thesis unfolding e
    by (rule write_word [OF inv stamps_holds [OF st] k(1,2)]) (use k in \<open>simp_all add: pc at_defs\<close>)
next
  case (Set_Idle p)
  then obtain s where pc: "r_prod st p = P_Own s"
    and e: "st2 = set_prod p (P_Hold s)
      (upd_slot (slot_of C s) (\<lambda>b. b\<lparr>sl_owner := O_Word (epoch_of C s) SHM_OWNER_IDLE\<rparr>) st)"
    using st2 by (auto split: producer_pc.splits)
  have st: "stamps (r_prod st p) s" by (simp add: pc)
  note k = stamp_facts [OF inv st]
  have "sl_pid (slot_at C st s) = pid p"
    using ring_invD(7) [OF inv, of p] k(1) by (simp add: pc held_by_def)
  then show ?thesis unfolding e
    by (intro write_word [OF inv stamps_holds [OF st] k(1,2)]) (use k in \<open>simp_all add: pc at_defs\<close>)
next
  case (Begin_Write p)
  then obtain s where pc: "r_prod st p = P_Hold s" using st2 by (auto split: producer_pc.splits)
  show ?thesis
  proof (cases "sl_owner (slot_at C st s) = O_Word (epoch_of C s) SHM_OWNER_IDLE")
    case True
    note k = idle_facts [OF inv pc True]
    from True st2 Begin_Write pc have e: "st2 = set_prod p (P_Write s)
      (upd_slot (slot_of C s) (\<lambda>b. b\<lparr>sl_owner := O_Word (epoch_of C s) SHM_OWNER_WRITING\<rparr>) st)" by simp
    show ?thesis unfolding e
      by (rule write_word [OF inv _ k(1,2)]) (use k in \<open>simp_all add: pc at_defs\<close>)
  next
    case False
    with st2 Begin_Write pc have e: "st2 = set_prod p P_Idle st" by simp
    show ?thesis unfolding e by (rule move_producer [OF inv]) simp_all
  qed
next
  case (Begin_Publish p)
  then obtain s where pc: "r_prod st p = P_Hold s" using st2 by (auto split: producer_pc.splits)
  show ?thesis
  proof (cases "sl_owner (slot_at C st s) = O_Word (epoch_of C s) SHM_OWNER_IDLE")
    case True
    note k = idle_facts [OF inv pc True]
    from True st2 Begin_Publish pc have e: "st2 = set_prod p (P_Publish s)
      (upd_slot (slot_of C s) (\<lambda>b. b\<lparr>sl_owner := O_Word (epoch_of C s) SHM_OWNER_WRITING\<rparr>) st)" by simp
    show ?thesis unfolding e
      by (rule write_word [OF inv _ k(1,2)]) (use k in \<open>simp_all add: pc at_defs\<close>)
  next
    case False
    with st2 Begin_Publish pc have e: "st2 = set_prod p P_Idle st" by simp
    show ?thesis unfolding e by (rule move_producer [OF inv]) simp_all
  qed
next
  case (Reserve_Record p x)
  then obtain s where pc: "r_prod st p = P_Write s"
    and e: "st2 = set_prod p (P_Reserved s x)
      (upd_slot (slot_of C s) (\<lambda>b. b\<lparr>sl_records := sl_records b @ [(x, False)]\<rparr>) st)"
    using st2 by (auto split: producer_pc.splits)
  have w: "being_written C pid st p s" "r_alive st (pid p)"
    using ring_invD(7) [OF inv, of p] al Reserve_Record by (simp_all add: pc)
  note k = writer_facts [OF inv w]
  show ?thesis unfolding e
    by (rule write_word [OF inv _ k(1,2)])
      (use k in \<open>simp_all add: pc at_defs committed_records_simps\<close>)
next
  case (Commit_Record p)
  then obtain s x where pc: "r_prod st p = P_Reserved s x"
    and e: "st2 = set_prod p (P_Committed s) (add_written s x
      (upd_slot (slot_of C s) (\<lambda>b. b\<lparr>sl_records := commit_last (sl_records b)\<rparr>) st))"
    using st2 by (auto split: producer_pc.splits)
  have w: "being_written C pid st p s" "r_alive st (pid p)"
    and "\<exists>rs. sl_records (slot_at C st s) = rs @ [(x, False)]"
    using ring_invD(7) [OF inv, of p] al Commit_Record by (simp_all add: pc)
  then obtain rs where rs: "sl_records (slot_at C st s) = rs @ [(x, False)]" by blast
  note k = writer_facts [OF inv w]
  have ws: "r_written st s = committed_records rs"
    using ring_invD(4) [OF inv] k(1,2) rs by (simp add: blocks_ok_def committed_records_simps)
  have e2: "st2 = set_prod p (P_Committed s) (upd_slot (slot_of C s)
      (\<lambda>b. b\<lparr>sl_records := commit_last (sl_records b)\<rparr>)
      (st\<lparr>r_written := (r_written st)(s := r_written st s @ [x])\<rparr>))"
    by (simp add: e add_written_def set_prod_def upd_slot_def)
  have at: "prod_at C pid st2 p (P_Committed s)"
    using k al by (simp add: at_defs e2)
  show ?thesis
    by (rule write_slot [OF inv _ k(1,2) _ _ _ _ _ e2 at])
      (use k in \<open>simp_all add: pc word_ok_def rs ws committed_records_simps\<close>)
next
  case (End_Write p)
  then obtain s where pc: "r_prod st p = P_Committed s"
    and e: "st2 = set_prod p (P_Hold s)
      (upd_slot (slot_of C s) (\<lambda>b. b\<lparr>sl_owner := O_Word (epoch_of C s) SHM_OWNER_IDLE\<rparr>) st)"
    using st2 by (auto split: producer_pc.splits)
  have w: "being_written C pid st p s" "r_alive st (pid p)"
    using ring_invD(7) [OF inv, of p] al End_Write by (simp_all add: pc)
  note k = writer_facts [OF inv w]
  show ?thesis unfolding e
    by (rule write_word [OF inv _ k(1,2)]) (use k in \<open>simp_all add: pc at_defs\<close>)
next
  case (Store_Published p)
  have "r_prod st p \<noteq> P_Published s" for s using ring_invD(7) [OF inv, of p] by auto
  then show ?thesis using st2 Store_Published by (auto split: producer_pc.splits)
qed (use st2 a in auto)

lemma inv_publish:
  assumes inv: "ring_inv C pid st" and al: "r_alive st (pid p)"
    and st2: "write_step C pid (Store_Committed p) st = Some st1"
      "write_step C pid (Store_Published p) st1 = Some st2"
  shows "ring_inv C pid st2"
proof -
  from st2(1) obtain s where pc: "r_prod st p = P_Publish s"
    and e1: "st1 = set_prod p (P_Published s)
      (upd_slot (slot_of C s) (\<lambda>b. b\<lparr>sl_commit := C_Published (epoch_of C s)\<rparr>) st)"
    by (auto split: producer_pc.splits)
  let ?f = "\<lambda>b. b\<lparr>sl_commit := C_Published (epoch_of C s),
    sl_owner := O_Word (epoch_of C s) SHM_OWNER_PUBLISHED\<rparr>"
  have e: "st2 = set_prod p P_Idle (upd_slot (slot_of C s) ?f st)"
    using st2(2) by (simp add: e1) (simp add: set_prod_def upd_slot_def)
  have w: "being_written C pid st p s" using ring_invD(7) [OF inv, of p] by (simp_all add: pc)
  note k = writer_facts [OF inv w al]
  show ?thesis unfolding e
    by (rule write_word [OF inv _ k(1,2)]) (use k in \<open>simp_all add: pc at_defs\<close>)
qed

lemma word_ok_stamp: "word_ok (b\<lparr>sl_stamp := t\<rparr>) = word_ok b"
  by (simp add: word_ok_def)

lemma drained_quietly:
  assumes inv: "ring_inv C pid st" and d: "drains (r_drain st d) s" and h: "holds (r_prod st p) s"
  shows "\<not> stamps (r_prod st p) s \<and> (r_alive st (pid p) \<longrightarrow> r_prod st p = P_Hold s)"
proof (intro conjI impI)
  show ns: "\<not> stamps (r_prod st p) s" using exclusiveD(3) [OF ring_invD(6) [OF inv]] d by blast
  assume a: "r_alive st (pid p)"
  have "\<not> being_written C pid st p s"
    using writer_facts(5) [OF inv _ a] d by blast
  then show "r_prod st p = P_Hold s"
    using h ns ring_invD(7) [OF inv, of p] by (cases "r_prod st p") auto
qed

lemma drained_once:
  "ring_inv C pid st \<Longrightarrow> drains (r_drain st d) s \<Longrightarrow> drains (r_drain st e) s \<Longrightarrow> e = d"
  using exclusiveD(2) ring_invD(6) by blast

lemma drain_word:
  assumes inv: "ring_inv C pid st" and lv: "live C st s" "s < r_head st"
    and f: "sl_armed (f (slot_at C st s)) = sl_armed (slot_at C st s)" "word_ok (f (slot_at C st s))"
      "sl_records (f (slot_at C st s)) = sl_records (slot_at C st s)"
      "sl_pid (f (slot_at C st s)) = sl_pid (slot_at C st s)"
    and d: "\<And>e. drains (r_drain st e) s \<Longrightarrow> e = d"
    and p: "\<And>p. holds (r_prod st p) s \<Longrightarrow>
      \<not> stamps (r_prod st p) s \<and> (r_alive st (pid p) \<longrightarrow> r_prod st p = P_Hold s)"
    and pc: "drain_at C (set_drain d pc (upd_slot (slot_of C s) f st)) pc"
      "\<And>t. drains pc t \<longleftrightarrow> t = s" "\<And>t. \<not> inspects pc t"
    and old: "\<And>t. copied (r_drain st d) t \<longleftrightarrow> copied pc t"
  shows "ring_inv C pid (set_drain d pc (upd_slot (slot_of C s) f st))"
proof -
  have c: "r_copies st s = (if copied pc s then [r_written st s] else [])"
  proof (cases "copied pc s")
    case True
    then have "copied (r_drain st d) s" using old by simp
    then show ?thesis using ring_invD(8) [OF inv, of d] True
      by (cases "r_drain st d") auto
  next
    case False
    then have "\<not> copied (r_drain st e) s" for e using d [of e] copied_drains old by blast
    then show ?thesis using ring_invD(5) [OF inv] lv(1) False by (simp add: uncopied_ok_def)
  qed
  have o: "copied (r_drain st d) t \<Longrightarrow> t = s" for t
    using old copied_drains pc(2) by blast
  have e: "set_drain d pc (upd_slot (slot_of C s) f st) = set_drain d pc
      (upd_slot (slot_of C s) f (st\<lparr>r_copies := (r_copies st)(s := r_copies st s)\<rparr>))"
    by simp
  show ?thesis
    by (rule drain_slot [where f = f and d = d and pc = pc and s = s, OF inv lv f d p e pc o c])
qed

lemma inv_drain_step:
  assumes inv: "ring_inv C pid st" and C: "0 < C" and st2: "drain_step C a st = Some st2"
  shows "ring_inv C pid st2"
proof (cases a)
  case (Claim_Block d s)
  then have pc: "r_drain st d = D_Idle" and h: "s < r_head st"
    and c: "sl_commit (slot_at C st s) = C_Published (epoch_of C s)"
    and e: "st2 = set_drain d (D_Drain s)
      (upd_slot (slot_of C s) (\<lambda>b. b\<lparr>sl_commit := C_Claimed (epoch_of C s)\<rparr>) st)"
    using st2 by (auto split: if_splits)
  have k: "live C st s" "sl_owner (slot_at C st s) = O_Word (epoch_of C s) SHM_OWNER_PUBLISHED"
    using commit_live [OF inv, of s] c by auto
  have nd: "\<not> drains (r_drain st g) s" for g
    using ring_invD(8) [OF inv, of g] c k(2)
    by (cases "r_drain st g") (auto simp: drained_by_def)
  show ?thesis unfolding e
    by (rule drain_word [OF inv k(1) h])
      (use k h c nd held_quietly [OF inv] in \<open>simp_all add: pc at_defs\<close>)
next
  case (See_Owner d s)
  let ?w = "sl_owner (slot_at C st s)"
  have pc: "r_drain st d = D_Idle" and h: "s < r_head st" and w: "free_word C s ?w"
    and e: "st2 = set_drain d (D_Seen s ?w) st"
    using st2 See_Owner by (auto simp: free_word_def split: if_splits)
  have ns: "\<not> stamps (r_prod st q) s" for q
    using stamp_facts(3) [OF inv, of q s] w by (auto simp: free_word_def)
  show ?thesis unfolding e by (rule move_drain [OF inv]) (use h w ns pc in auto)
next
  case (See_Stamp d)
  then obtain s w where pc: "r_drain st d = D_Seen s w"
    and e: "st2 = set_drain d (if sl_stamp (slot_at C st s) = 0 then D_Idle else D_Aged s w) st"
    using st2 by (auto split: drain_pc.splits)
  have ns: "\<not> stamps (r_prod st q) s" for q
    using exclusiveD(4) [OF ring_invD(6) [OF inv], of q s d] pc by auto
  show ?thesis unfolding e
    by (rule move_drain [OF inv])
      (use ring_invD(8) [OF inv, of d] ns pc in \<open>auto split: if_splits\<close>)
next
  case (See_Pid d)
  then obtain s w where pc: "r_drain st d = D_Aged s w"
    and e: "st2 = set_drain d (D_Pid s w (sl_pid (slot_at C st s))) st"
    using st2 by (auto split: drain_pc.splits)
  have ns: "\<not> stamps (r_prod st q) s" for q
    using exclusiveD(4) [OF ring_invD(6) [OF inv], of q s d] pc by auto
  show ?thesis unfolding e
    by (rule move_drain [OF inv]) (use ring_invD(8) [OF inv, of d] ns pc in auto)
next
  case (Check_Alive d)
  then obtain s w n where pc: "r_drain st d = D_Pid s w n"
    and e: "st2 = set_drain d
      (if w = O_Word (epoch_of C s) SHM_OWNER_WRITING \<and> (n = 0 \<or> r_alive st n) then D_Idle
       else D_Checked s w n) st"
    using st2 by (auto split: drain_pc.splits)
  have ns: "\<not> stamps (r_prod st q) s" for q
    using exclusiveD(4) [OF ring_invD(6) [OF inv], of q s d] pc by auto
  show ?thesis unfolding e
    by (rule move_drain [OF inv])
      (use ring_invD(8) [OF inv, of d] ns pc in \<open>auto split: if_splits\<close>)
next
  case (Take_Block d)
  then obtain s w n where pc: "r_drain st d = D_Checked s w n"
    using st2 by (auto split: drain_pc.splits)
  have at: "s < r_head st" "free_word C s w" "live C st s \<Longrightarrow> sl_pid (slot_at C st s) = n"
    "w = O_Word (epoch_of C s) SHM_OWNER_WRITING \<Longrightarrow> \<not> r_alive st n"
    using ring_invD(8) [OF inv, of d] by (simp_all add: pc)
  show ?thesis
  proof (cases "sl_owner (slot_at C st s) = w")
    case True
    then have e: "st2 = set_drain d (D_Drain s)
        (upd_slot (slot_of C s) (\<lambda>b. b\<lparr>sl_owner := O_Word (epoch_of C s) SHM_OWNER_TAKEN\<rparr>) st)"
      using st2 Take_Block pc by simp
    have lv: "live C st s" using owner_live [OF inv, of s] at(2) True by (auto simp: free_word_def)
    have z: "sl_commit (slot_at C st s) = C_Zero"
      using uncommitted [OF inv _ lv] at(2) True by (auto simp: free_word_def)
    have nd: "\<not> drains (r_drain st g) s" for g using no_drain [OF inv] at(2) True by blast
    have ns: "\<not> stamps (r_prod st q) s \<and> (r_alive st (pid q) \<longrightarrow> r_prod st q = P_Hold s)"
      if "holds (r_prod st q) s" for q
      using ring_invD(7) [OF inv, of q] that at(2-4) True lv
      by (cases "r_prod st q") (auto simp: fresh_claim_def being_written_def held_by_def free_word_def)
    show ?thesis unfolding e
      by (rule drain_word [OF inv lv at(1)])
        (use lv z nd ns at(1) in \<open>simp_all add: pc at_defs\<close>)
  next
    case False
    then have e: "st2 = set_drain d D_Idle st" using st2 Take_Block pc by simp
    show ?thesis unfolding e by (rule move_drain [OF inv]) (use pc in auto)
  qed
next
  case (Copy_Records d)
  then obtain s where pc: "r_drain st d = D_Drain s"
    and e: "st2 = set_drain d (D_Rel1 s)
      (add_copy s (committed_records (sl_records (slot_at C st s))) st)"
    using st2 by (auto split: drain_pc.splits)
  have at: "drained_by C st s" "s < r_head st" "live C st s"
    using ring_invD(8) [OF inv, of d] by (simp_all add: pc drained_by_def)
  have u: "drains (r_drain st g) s \<Longrightarrow> g = d" for g
    using exclusiveD(2) [OF ring_invD(6) [OF inv]] pc by fastforce
  have "\<not> copied (r_drain st g) s" for g
    using u [of g] copied_drains [of "r_drain st g" s] pc by (cases "g = d") auto
  then have c: "r_copies st s = []" using ring_invD(5) [OF inv] at(3) by (simp add: uncopied_ok_def)
  have w: "committed_records (sl_records (slot_at C st s)) = r_written st s"
    using ring_invD(4) [OF inv] at(2,3) by (simp add: blocks_ok_def)
  have e2: "st2 = set_drain d (D_Rel1 s) (upd_slot (slot_of C s) id
      (st\<lparr>r_copies := (r_copies st)(s := [r_written st s])\<rparr>))"
    by (simp add: e add_copy_def c w set_drain_def upd_slot_def)
  have d1: "drain_at C st2 (D_Rel1 s)" using at(1) by (simp add: e2 drained_by_def live_def)
  have wok: "word_ok (slot_at C st s)" using ring_invD(1) [OF inv] by (simp add: words_ok_def)
  show ?thesis
    by (rule drain_slot [OF inv at(3,2) _ _ _ _ _ _ e2 d1])
      (use wok u drained_quietly [OF inv, of d] pc in simp_all)
next
  case (Release1 d)
  then obtain s where pc: "r_drain st d = D_Rel1 s"
    and e: "st2 = set_drain d (D_Rel2 s) (upd_slot (slot_of C s) (\<lambda>b. b\<lparr>sl_stamp := 0\<rparr>) st)"
    using st2 by (auto split: drain_pc.splits)
  have wok: "word_ok (slot_at C st s)" using ring_invD(1) [OF inv] by (simp add: words_ok_def)
  have at: "drained_by C st s" "s < r_head st" "live C st s" "r_copies st s = [r_written st s]"
    using ring_invD(8) [OF inv, of d] by (simp_all add: pc drained_by_def)
  have wok2: "word_ok ((slot_at C st s)\<lparr>sl_stamp := 0\<rparr>)" using wok word_ok_stamp by simp
  have d: "drains (r_drain st d) s" by (simp add: pc)
  note q = drained_once [OF inv d] drained_quietly [OF inv d]
  show ?thesis unfolding e
    by (rule drain_word [OF inv at(3,2) _ _ _ _ q])
      (use wok2 at(1,4) pc in \<open>simp_all add: drained_by_def live_def\<close>)
next
  case (Release2 d)
  then obtain s where pc: "r_drain st d = D_Rel2 s"
    and e: "st2 = set_drain d (D_Rel3 s) (upd_slot (slot_of C s) (\<lambda>b. b\<lparr>sl_commit := C_Zero\<rparr>) st)"
    using st2 by (auto split: drain_pc.splits)
  have wok: "word_ok (slot_at C st s)" using ring_invD(1) [OF inv] by (simp add: words_ok_def)
  have at: "drained_by C st s" "s < r_head st" "live C st s" "r_copies st s = [r_written st s]"
    using ring_invD(8) [OF inv, of d] by (simp_all add: pc drained_by_def)
  have o: "sl_owner (slot_at C st s) = O_Word (epoch_of C s) SHM_OWNER_TAKEN \<or>
      sl_owner (slot_at C st s) = O_Word (epoch_of C s) SHM_OWNER_PUBLISHED"
    using at(1) commit_live [OF inv, of s] by (auto simp: drained_by_def)
  have l: "sl_armed (slot_at C st s) = epoch_of C s" using at(3) by (simp add: live_def)
  have d: "drains (r_drain st d) s" by (simp add: pc)
  note q = drained_once [OF inv d] drained_quietly [OF inv d]
  show ?thesis unfolding e
    by (rule drain_word [OF inv at(3,2) _ _ _ _ q])
      (use o l at(2,4) pc in \<open>auto simp: live_def word_ok_def\<close>)
next
  case (Release3 d)
  then obtain s where pc: "r_drain st d = D_Rel3 s"
    and e: "st2 = set_drain d (D_Rel4 s) (upd_slot (slot_of C s) (\<lambda>b. b\<lparr>sl_owner := O_Zero\<rparr>) st)"
    using st2 by (auto split: drain_pc.splits)
  have at: "s < r_head st" "live C st s" "r_copies st s = [r_written st s]"
    "sl_commit (slot_at C st s) = C_Zero"
    using ring_invD(8) [OF inv, of d] by (simp_all add: pc)
  have d: "drains (r_drain st d) s" by (simp add: pc)
  note q = drained_once [OF inv d] drained_quietly [OF inv d]
  show ?thesis unfolding e
    by (rule drain_word [OF inv at(2,1) _ _ _ _ q])
      (use at pc in \<open>auto simp: live_def word_ok_def\<close>)
next
  case (Release4 d)
  then obtain s where pc: "r_drain st d = D_Rel4 s"
    and e: "st2 = set_drain d D_Idle
      (upd_slot (slot_of C s) (\<lambda>b. b\<lparr>sl_armed := epoch_of C s + 1\<rparr>) st)"
    using st2 by (auto split: drain_pc.splits)
  show ?thesis by (rule inv_rearm [OF inv C pc e])
qed (use st2 in auto)

section \<open>Runs\<close>

text \<open>The two stores that end \<open>publish\<close> are adjacent.\<close>

fun prompt :: "action list \<Rightarrow> bool" where
  "prompt [] = True"
| "prompt (Store_Committed p # as) =
     (case as of Store_Published q # bs \<Rightarrow> q = p \<and> prompt bs | _ \<Rightarrow> False)"
| "prompt (_ # as) = prompt as"

lemma ring_inv_step:
  assumes inv: "ring_inv C pid st" and C: "0 < C" and st2: "ring_step C pid a st = Some st2"
    and a: "\<And>p. a \<noteq> Store_Committed p"
  shows "ring_inv C pid st2"
proof (cases "producer_of a")
  case (Some p)
  then have al: "r_alive st (pid (the (producer_of a)))"
    and "claim_step C a st = Some st2 \<or> write_step C pid a st = Some st2"
    using st2 by (auto simp: ring_step_def split: if_splits option.splits)
  then show ?thesis using inv_claim_step [OF inv C] inv_write_step [OF inv al _ a] by blast
next
  case None
  then have "drain_step C a st = Some st2 \<or> (\<exists>n. st2 = st\<lparr>r_alive := (r_alive st)(n := False)\<rparr>)"
    using st2 by (cases a) (auto simp: ring_step_def)
  then show ?thesis using inv_drain_step [OF inv C] inv_die [OF inv] by blast
qed

lemma ring_inv_publish:
  assumes inv: "ring_inv C pid st"
    and st: "ring_step C pid (Store_Committed p) st = Some st1"
      "ring_step C pid (Store_Published p) st1 = Some st2"
  shows "ring_inv C pid st2"
proof -
  have "r_alive st (pid p)" "write_step C pid (Store_Committed p) st = Some st1"
    "write_step C pid (Store_Published p) st1 = Some st2"
    using st by (auto simp: ring_step_def split: if_splits)
  then show ?thesis by (rule inv_publish [OF inv])
qed

lemma prompt_run_inv:
  assumes "0 < C"
  shows "prompt as \<Longrightarrow> ring_inv C pid st \<Longrightarrow> ring_run C pid as st = Some st2 \<Longrightarrow> ring_inv C pid st2"
proof (induction as arbitrary: st rule: prompt.induct)
  case (2 p as)
  then obtain bs where as: "as = Store_Published p # bs" "prompt bs"
    by (auto split: list.splits action.splits)
  obtain st1 where 1: "ring_step C pid (Store_Committed p) st = Some st1"
    and "ring_run C pid as st1 = Some st2"
    using 2(4) by (auto split: option.splits)
  then obtain st3 where 3: "ring_step C pid (Store_Published p) st1 = Some st3"
    and run: "ring_run C pid bs st3 = Some st2"
    by (auto simp: as(1) split: option.splits)
  show ?case using 2(1) [OF as(1)] ring_inv_publish [OF 2(3) 1 3] as(2) run by blast
qed (auto split: option.splits dest: ring_inv_step [OF _ assms])

lemma ring_inv_copies:
  assumes "ring_inv C pid st"
  shows "r_copies st s = [] \<or> r_copies st s = [r_written st s]"
proof (cases "s < r_head st \<and> live C st s")
  case True
  then show ?thesis
  proof (cases "\<exists>d. copied (r_drain st d) s")
    case True
    then obtain d where "copied (r_drain st d) s" ..
    then show ?thesis using ring_invD(8) [OF assms, of d] by (cases "r_drain st d") auto
  next
    case False
    then show ?thesis using ring_invD(5) [OF assms] \<open>s < r_head st \<and> live C st s\<close>
      by (simp add: uncopied_ok_def)
  qed
next
  case False
  then show ?thesis
    using ring_invD(3,4) [OF assms]
    by (cases "s < r_head st") (auto simp: future_ok_def blocks_ok_def)
qed

lemma ring_inv_released:
  "ring_inv C pid st \<Longrightarrow> s < r_head st \<Longrightarrow> sl_armed (slot_at C st s) \<noteq> epoch_of C s \<Longrightarrow>
    r_copies st s = [r_written st s]"
  using ring_invD(4) [of C pid st] by (auto simp: blocks_ok_def live_def)

fun writes :: "producer_pc \<Rightarrow> nat \<Rightarrow> bool" where
  "writes (P_Write t) s = (s = t)"
| "writes (P_Reserved t x) s = (s = t)"
| "writes (P_Committed t) s = (s = t)"
| "writes (P_Publish t) s = (s = t)"
| "writes _ s = False"

lemma ring_inv_writers:
  assumes "ring_inv C pid st" "writes (r_prod st p) s" "r_alive st (pid p)"
  shows "\<not> drains (r_drain st d) s"
proof -
  have "being_written C pid st p s"
    using ring_invD(7) [OF assms(1), of p] assms(2) by (cases "r_prod st p") auto
  from writer_facts(5) [OF assms(1) this assms(3)] show ?thesis .
qed

text \<open>
  C10: However producers, drain threads and deaths of processes interleave, as long as the two
  stores that end a publish are not separated: a block is copied out at most once, and the copy
  is exactly the records committed to it; it is armed for the next lap only after that; \<open>head\<close>
  never passes an unreleased block by more than a lap; no two producers hold a block, no two
  drain threads drain one, and none drains a block that a living producer is writing.
\<close>

theorem each_block_is_drained_once:
  assumes "0 < C" and "prompt as" and "ring_run C pid as initial_ring = Some st"
  shows "(\<forall>s. r_copies st s = [] \<or> r_copies st s = [r_written st s]) \<and>
    (\<forall>s < r_head st. sl_armed (r_slots st (slot_of C s)) \<noteq> epoch_of C s \<longrightarrow>
       r_copies st s = [r_written st s]) \<and>
    (\<forall>s. sl_armed (r_slots st (slot_of C s)) = epoch_of C s \<longrightarrow> r_head st \<le> s + C) \<and>
    (\<forall>p q s. holds (r_prod st p) s \<and> holds (r_prod st q) s \<longrightarrow> p = q) \<and>
    (\<forall>d e s. drains (r_drain st d) s \<and> drains (r_drain st e) s \<longrightarrow> d = e) \<and>
    (\<forall>p d s. writes (r_prod st p) s \<and> r_alive st (pid p) \<longrightarrow> \<not> drains (r_drain st d) s)"
proof -
  have inv: "ring_inv C pid st"
    using prompt_run_inv [OF assms(1,2) ring_inv_initial [OF assms(1)] assms(3)] .
  show ?thesis
    using ring_inv_copies [OF inv] ring_inv_released [OF inv] ring_inv_writers [OF inv]
      exclusiveD(1,2) [OF ring_invD(6) [OF inv]] ring_invD(2) [OF inv, unfolded laps_ok_def live_def]
    by blast
qed

section \<open>Concrete runs\<close>

text \<open>Thread \<open>p\<close> claims a block and logs one record; thread \<open>d\<close> drains, or takes over.\<close>

definition one_record :: "nat \<Rightarrow> nat \<Rightarrow> action list" where
  "one_record p x = [Load_Head p, Check_Armed p, Cas_Head p, Stamp p 5, Store_Pid p, Set_Idle p,
     Begin_Write p, Reserve_Record p x, Commit_Record p, End_Write p]"

definition drain_block :: "nat \<Rightarrow> action list" where
  "drain_block d = [Copy_Records d, Release1 d, Release2 d, Release3 d, Release4 d]"

definition take_block :: "nat \<Rightarrow> nat \<Rightarrow> action list" where
  "take_block d s = [See_Owner d s, See_Stamp d, See_Pid d, Check_Alive d, Take_Block d]"

lemmas run_defs = one_record_def drain_block_def take_block_def ring_step_def initial_ring_def
  fresh_slot_def set_prod_def set_drain_def upd_slot_def add_written_def add_copy_def slot_of_def
  epoch_of_def committed_records_def commit_last_def

definition busy_run :: "action list" where
  "busy_run = one_record 0 7 @ one_record 1 8 @ [Begin_Publish 0, Store_Committed 0, Store_Published 0,
     Claim_Block 0 0] @ drain_block 0 @ [Begin_Write 1, Reserve_Record 1 9, Die 2] @ take_block 1 1 @
     drain_block 1 @ one_record 2 4"

theorem each_block_is_drained_once_witness:
  "\<exists>st. ring_run 2 Suc busy_run initial_ring = Some st \<and> r_head st = 3 \<and>
    (\<forall>s. r_copies st s = [] \<or> r_copies st s = [r_written st s]) \<and> r_copies st 0 = [[7]] \<and> r_copies st 1 = [[8]]"
proof -
  have r: "prompt busy_run" by (simp add: busy_run_def run_defs)
  obtain st where st: "ring_run 2 Suc busy_run initial_ring = Some st" and h: "r_head st = 3" "r_copies st 0 = [[7]]" "r_copies st 1 = [[8]]"
    by (simp add: busy_run_def run_defs)
  show ?thesis using each_block_is_drained_once [OF _ r st] st h by auto
qed


section \<open>Blocks that are never drained\<close>

text \<open>
  A block that is armed and claimed, whose words no drain thread acts on and that no living
  producer holds, stays so whatever the threads do, and \<open>head\<close> stops one lap after it.
\<close>

fun remembered :: "drain_pc \<Rightarrow> owner_state option" where
  "remembered (D_Seen t w) = Some w"
| "remembered (D_Aged t w) = Some w"
| "remembered (D_Pid t w n) = Some w"
| "remembered (D_Checked t w n) = Some w"
| "remembered _ = None"

definition unclaimable :: "owner_state \<Rightarrow> bool" where
  "unclaimable w \<longleftrightarrow> w = O_Zero \<or> (\<exists>e. w = O_Word e SHM_OWNER_PUBLISHED)"

definition wedged :: "nat \<Rightarrow> (nat \<Rightarrow> nat) \<Rightarrow> nat \<Rightarrow> ring_state \<Rightarrow> bool" where
  "wedged C pid s st \<longleftrightarrow>
     s < r_head st \<and> r_head st \<le> s + C \<and>
     sl_armed (slot_at C st s) = epoch_of C s \<and> sl_commit (slot_at C st s) = C_Zero \<and>
     unclaimable (sl_owner (slot_at C st s)) \<and>
     (\<forall>p t. slot_of C t = slot_of C s \<longrightarrow> r_alive st (pid p) \<longrightarrow> \<not> holds (r_prod st p) t) \<and>
     (\<forall>p t. slot_of C t = slot_of C s \<longrightarrow> r_prod st p = P_Cas t \<longrightarrow> t < r_head st) \<and>
     (\<forall>d t. slot_of C t = slot_of C s \<longrightarrow> \<not> drains (r_drain st d) t) \<and>
     (\<forall>d w. remembered (r_drain st d) = Some w \<longrightarrow> \<not> unclaimable w)"

lemma wedgedD:
  assumes "wedged C pid s st"
  shows "s < r_head st" "r_head st \<le> s + C"
    "sl_armed (slot_at C st s) = epoch_of C s" "sl_commit (slot_at C st s) = C_Zero"
    "unclaimable (sl_owner (slot_at C st s))"
    "slot_of C t = slot_of C s \<Longrightarrow> r_alive st (pid p) \<Longrightarrow> \<not> holds (r_prod st p) t"
    "slot_of C t = slot_of C s \<Longrightarrow> r_prod st p = P_Cas t \<Longrightarrow> t < r_head st"
    "slot_of C t = slot_of C s \<Longrightarrow> \<not> drains (r_drain st d) t"
    "remembered (r_drain st d) = Some w \<Longrightarrow> \<not> unclaimable w"
  using assms unfolding wedged_def by blast+

lemma wedged_prod_pc:
  assumes w: "wedged C pid s st"
    and pc: "\<And>t. slot_of C t = slot_of C s \<Longrightarrow> \<not> holds pc t"
      "\<And>t. slot_of C t = slot_of C s \<Longrightarrow> pc = P_Cas t \<Longrightarrow> t < r_head st"
  shows "wedged C pid s (set_prod p pc st)"
  using wedgedD [OF w] pc unfolding wedged_def by simp

lemma wedged_upd: "wedged C pid s st \<Longrightarrow> i \<noteq> slot_of C s \<Longrightarrow> wedged C pid s (upd_slot i f st)"
  unfolding wedged_def by simp

lemma wedged_history:
  "wedged C pid s st \<Longrightarrow> wedged C pid s (add_written t x st)"
  "wedged C pid s st \<Longrightarrow> wedged C pid s (add_copy t xs st)"
  unfolding wedged_def by (simp_all add: add_written_def add_copy_def)

lemma wedged_drain_pc:
  assumes w: "wedged C pid s st"
    and pc: "\<And>t. slot_of C t = slot_of C s \<Longrightarrow> \<not> drains pc t"
      "\<And>w. remembered pc = Some w \<Longrightarrow> \<not> unclaimable w"
  shows "wedged C pid s (set_drain d pc st)"
  using wedgedD [OF w] pc unfolding wedged_def by simp

lemmas wedged_intros = wedged_prod_pc wedged_drain_pc wedged_upd wedged_history

lemma wedged_claim_step:
  assumes w: "wedged C pid s st" and C: "0 < C" and st2: "claim_step C a st = Some st2"
  shows "wedged C pid s st2"
proof (cases a)
  case (Load_Head p)
  then show ?thesis using st2 by (auto split: if_splits intro!: wedged_intros w)
next
  case (Check_Armed p)
  then obtain t where e: "st2 = set_prod p (if sl_armed (slot_at C st t) = epoch_of C t then P_Cas t
      else P_Reload t) st"
    using st2 by (auto split: producer_pc.splits)
  have "t < r_head st" if "slot_of C t = slot_of C s" "sl_armed (slot_at C st t) = epoch_of C t"
    using same_block [OF that(1)] that wedgedD(1,3) [OF w] by auto
  then show ?thesis unfolding e by (intro wedged_prod_pc [OF w]) (auto split: if_splits)
next
  case (Reload_Head p)
  then show ?thesis using st2
    by (auto split: producer_pc.splits if_splits intro!: wedged_intros w)
next
  case (Cas_Head p)
  then obtain t where pc: "r_prod st p = P_Cas t" using st2 by (auto split: producer_pc.splits)
  show ?thesis
  proof (cases "r_head st = t")
    case True
    then have n: "slot_of C t \<noteq> slot_of C s" using wedgedD(7) [OF w _ pc] by auto
    have "r_head st \<noteq> s + C" using n True C by (auto simp: slot_of_def)
    then have l: "r_head st + 1 \<le> s + C" using wedgedD(2) [OF w] by simp
    have e: "st2 = set_prod p (P_Stamp t)
        (upd_slot (slot_of C t) (\<lambda>b. b\<lparr>sl_records := []\<rparr>) (st\<lparr>r_head := t + 1\<rparr>))"
      using st2 Cas_Head pc True by simp
    have "wedged C pid s (st\<lparr>r_head := t + 1\<rparr>)"
      using wedgedD [OF w] l True unfolding wedged_def by (auto intro: less_SucI)
    then show ?thesis unfolding e using n by (intro wedged_intros) auto
  next
    case False
    then show ?thesis using st2 Cas_Head pc by (auto intro!: wedged_intros w)
  qed
next
  case (Cas_Head_Fails p)
  then show ?thesis using st2 by (auto split: producer_pc.splits intro!: wedged_intros w)
qed (use st2 in auto)

lemma wedged_write_step:
  assumes w: "wedged C pid s st" and al: "r_alive st (pid (the (producer_of a)))"
    and st2: "write_step C pid a st = Some st2"
  shows "wedged C pid s st2"
proof -
  have n: "slot_of C t \<noteq> slot_of C s" if "holds (r_prod st (the (producer_of a))) t" for t
    using wedgedD(6) [OF w _ al] that by blast
  show ?thesis
    using st2 n
    by (cases a)
      (auto split: producer_pc.splits if_splits intro!: wedged_intros w)
qed

lemma wedged_drain_step:
  assumes w: "wedged C pid s st" and st2: "drain_step C a st = Some st2"
  shows "wedged C pid s st2"
proof -
  have n: "slot_of C t \<noteq> slot_of C s" if "drains (r_drain st d) t" for d t
    using wedgedD(8) [OF w] that by blast
  note k = wedgedD(4,5,9) [OF w]
  show ?thesis
  proof (cases a)
    case (Claim_Block d t)
    then have "slot_of C t \<noteq> slot_of C s" using st2 k(1) by (auto split: if_splits)
    then show ?thesis using st2 Claim_Block
      by (auto split: if_splits intro!: wedged_intros w)
  next
    case (See_Owner d t)
    then show ?thesis using st2
      by (auto split: if_splits intro!: wedged_intros w simp: unclaimable_def)
  next
    case (Take_Block d)
    then obtain t v m where pc: "r_drain st d = D_Checked t v m"
      using st2 by (auto split: drain_pc.splits)
    have "slot_of C t \<noteq> slot_of C s" if "sl_owner (slot_at C st t) = v"
      using that k(2) k(3) [of d v] pc by auto
    then show ?thesis using st2 Take_Block pc
      by (auto split: if_splits intro!: wedged_intros w)
  next
    case (See_Stamp d)
    then show ?thesis using st2 k(3) [of d]
      by (auto split: drain_pc.splits if_splits intro!: wedged_intros w)
  next
    case (See_Pid d)
    then show ?thesis using st2 k(3) [of d]
      by (auto split: drain_pc.splits if_splits intro!: wedged_intros w)
  next
    case (Check_Alive d)
    then show ?thesis using st2 k(3) [of d]
      by (auto split: drain_pc.splits if_splits intro!: wedged_intros w)
  next
    case (Copy_Records d)
    then show ?thesis using st2 n [of d]
      by (auto split: drain_pc.splits if_splits intro!: wedged_intros w)
  next
    case (Release1 d)
    then show ?thesis using st2 n [of d] by (auto split: drain_pc.splits intro!: wedged_intros w)
  next
    case (Release2 d)
    then show ?thesis using st2 n [of d] by (auto split: drain_pc.splits intro!: wedged_intros w)
  next
    case (Release3 d)
    then show ?thesis using st2 n [of d] by (auto split: drain_pc.splits intro!: wedged_intros w)
  next
    case (Release4 d)
    then show ?thesis using st2 n [of d] by (auto split: drain_pc.splits intro!: wedged_intros w)
  qed (use st2 in auto)
qed

lemma wedged_die: "wedged C pid s st \<Longrightarrow> wedged C pid s (st\<lparr>r_alive := (r_alive st)(n := False)\<rparr>)"
  unfolding wedged_def by auto

lemma wedged_step:
  assumes w: "wedged C pid s st" and C: "0 < C" and st2: "ring_step C pid a st = Some st2"
  shows "wedged C pid s st2"
proof (cases "producer_of a")
  case (Some p)
  then have al: "r_alive st (pid (the (producer_of a)))"
    and "claim_step C a st = Some st2 \<or> write_step C pid a st = Some st2"
    using st2 by (auto simp: ring_step_def split: if_splits option.splits)
  then show ?thesis using wedged_claim_step [OF w C] wedged_write_step [OF w al] by blast
next
  case None
  then have "drain_step C a st = Some st2 \<or> (\<exists>n. st2 = st\<lparr>r_alive := (r_alive st)(n := False)\<rparr>)"
    using st2 by (cases a) (auto simp: ring_step_def)
  then show ?thesis using wedged_drain_step [OF w] wedged_die [OF w] by blast
qed

lemma wedged_run: "wedged C pid s st \<Longrightarrow> 0 < C \<Longrightarrow> ring_run C pid as st = Some st2 \<Longrightarrow> wedged C pid s st2"
  by (induction as arbitrary: st) (auto split: option.splits dest: wedged_step)

lemma wedged_bound:
  assumes "wedged C pid s st" "0 < C" and n: "n = s + C" "e = epoch_of C s" "i = slot_of C s"
  shows "case ring_run C pid as st of None \<Rightarrow> True
    | Some st2 \<Rightarrow> r_head st2 \<le> n \<and> sl_armed (r_slots st2 i) = e"
proof (cases "ring_run C pid as st")
  case (Some st2)
  from wedgedD(2,3) [OF wedged_run [OF assms(1,2) Some]] show ?thesis by (simp add: Some n)
qed simp

text \<open>A producer stalls in \<open>publish\<close> while its block is drained and claimed again.\<close>

definition late_store_run :: "action list" where
  "late_store_run = one_record 0 7 @ [Begin_Publish 0, Store_Committed 0, Claim_Block 0 0] @ drain_block 0 @
     one_record 1 8 @ [Begin_Publish 1, Store_Committed 1, Store_Published 1,
     Load_Head 1, Check_Armed 1, Cas_Head 1, Stamp 1 6, Store_Pid 1, Set_Idle 1, Store_Published 0, Begin_Write 1]"

text \<open>
  C12: With every process alive, a producer that stalls between the two stores of a publish
  overwrites the owner word of the block's next lap: the producer of that lap drops the block,
  nothing drains it, and from then on \<open>head\<close> cannot move past one more lap.
\<close>

theorem late_owner_store_wedges_ring:
  "\<exists>st. ring_run 2 Suc late_store_run initial_ring = Some st \<and> (\<forall>p. r_alive st p) \<and>
    (\<forall>as. case ring_run 2 Suc as st of None \<Rightarrow> True
       | Some st2 \<Rightarrow> r_head st2 \<le> 4 \<and> sl_armed (r_slots st2 0) = 2)"
proof -
  obtain st where st: "ring_run 2 Suc late_store_run initial_ring = Some st" and al: "\<forall>p. r_alive st p"
    and w: "wedged 2 Suc 2 st"
    by (simp add: late_store_run_def run_defs wedged_def unclaimable_def) 
  have "case ring_run 2 Suc as st of None \<Rightarrow> True
      | Some st2 \<Rightarrow> r_head st2 \<le> 4 \<and> sl_armed (r_slots st2 0) = 2" for as
    by (rule wedged_bound [OF w]) (simp_all add: slot_of_def epoch_of_def)
  then show ?thesis using st al by blast
qed

text \<open>
  A producer that dies after it moved \<open>head\<close> and before it stored the owner word leaves
  a block that nobody takes over: whatever happens next, \<open>head\<close> stops one lap later.
\<close>

lemma death_while_claiming_wedges_ring:
  "\<exists>st. ring_run 2 Suc [Load_Head 0, Check_Armed 0, Cas_Head 0, Die 1] initial_ring = Some st \<and>
    (\<forall>as. case ring_run 2 Suc as st of None \<Rightarrow> True
       | Some st2 \<Rightarrow> r_head st2 \<le> 2 \<and> sl_armed (r_slots st2 0) = 1)"
proof -
  obtain st where st: "ring_run 2 Suc [Load_Head 0, Check_Armed 0, Cas_Head 0, Die 1] initial_ring = Some st"
    and w: "wedged 2 Suc 0 st"
    by (simp add: run_defs wedged_def unclaimable_def) 
  have "case ring_run 2 Suc as st of None \<Rightarrow> True
      | Some st2 \<Rightarrow> r_head st2 \<le> 2 \<and> sl_armed (r_slots st2 0) = 1" for as
    by (rule wedged_bound [OF w]) (simp_all add: slot_of_def epoch_of_def)
  then show ?thesis using st by blast
qed

end
