(* ===== verification/Rules.thy ===== *)
theory Rules
  imports Metadata_Json "HOL-Library.Monad_Syntax"
begin

text \<open>
  Selective aggregation: the rules of \<open>core/aggregator/rules.{h,cpp}\<close> and the helpers they
  use (\<open>core/common/datastructure.h\<close>: \<open>AggregatedKey\<close>, \<open>RuleAST\<close>, \<open>getFieldValue\<close>,
  \<open>compareValues\<close>, \<open>likeMatch\<close>; \<open>Metadata::getTagValue\<close>). What needs a floating-point
  library (\<open>std::stod\<close>, \<open>std::to_string(double)\<close>, comparisons) is a parameter. A read through
  a null pointer is the value \<open>None\<close> of an evaluation.
\<close>

section \<open>Keys and values\<close>

text \<open>The operations on doubles, by their bits.\<close>

record doubles =
  dbl_eq :: "u64 \<Rightarrow> u64 \<Rightarrow> bool"
  dbl_lt :: "u64 \<Rightarrow> u64 \<Rightarrow> bool"
  dbl_read :: "string \<Rightarrow> u64 option"
  dbl_show :: "u64 \<Rightarrow> string"

text \<open>\<open>AggregatedKey\<close>; pointers are options.\<close>

record aggregated_key =
  ak_category :: string
  ak_event_name :: string
  ak_type :: byte
  ak_time_interval :: u64
  ak_thread_id :: u64
  ak_additional_keys :: "metadata option"
  ak_duration :: u64
  ak_app_name :: "string option"
  ak_rank :: "u32 option"
  ak_tag_source :: "(string \<Rightarrow> string) option"

datatype rule_op =
  Op_AND | Op_OR | Op_NOT | Op_EQ | Op_NEQ | Op_GT | Op_LT | Op_GTE | Op_LTE | Op_IN | Op_LIKE

datatype rule_value =
  Val_string string | Val_time u64 | Val_double u64 | Val_set "string list"

type_synonym field_path = "string list"

text \<open>\<open>RuleAST\<close>: a node, or no node (null).\<close>

datatype rule_ast =
    Rule_null
  | BinaryOp rule_op rule_ast rule_ast
  | UnaryOp rule_op rule_ast
  | Comparison rule_op field_path rule_value
  | InOp field_path "string list"
  | LikeOp field_path string

section \<open>Reading rules\<close>

definition is_blank :: "char \<Rightarrow> bool" where
  "is_blank c \<longleftrightarrow> c = CHR '' '' \<or> c = CHR 0x09"

definition trim :: "string \<Rightarrow> string" where
  "trim s = rev (dropWhile is_blank (rev (dropWhile is_blank s)))"

definition quote_char :: char where "quote_char = CHR 0x27"

definition fix_string :: "string \<Rightarrow> string" where
  "fix_string s =
     (if s \<noteq> [] \<and> (hd s = quote_char \<and> last s = quote_char \<or> hd s = CHR 0x22 \<and> last s = CHR 0x22)
      then substr 1 (length s - 2) s else s)"

text \<open>\<open>std::stoull\<close>: blanks, a sign, digits; what follows the digits is ignored.\<close>

definition is_space :: "char \<Rightarrow> bool" where
  "is_space c \<longleftrightarrow> (of_char c :: nat) \<in> {9, 10, 11, 12, 13, 32}"

definition is_digit :: "char \<Rightarrow> bool" where
  "is_digit c \<longleftrightarrow> 48 \<le> (of_char c :: nat) \<and> (of_char c :: nat) \<le> 57"

definition stoull :: "string \<Rightarrow> u64 option" where
  "stoull s =
     (let t = dropWhile is_space s;
          neg = (t \<noteq> [] \<and> hd t = CHR ''-'');
          u = (if t \<noteq> [] \<and> (hd t = CHR ''-'' \<or> hd t = CHR ''+'') then tl t else t);
          ds = takeWhile is_digit u
      in if ds = [] \<or> 2 ^ 64 \<le> read_nat ds then None
         else Some (if neg then - of_nat (read_nat ds) else of_nat (read_nat ds)))"

definition string_to_value :: "doubles \<Rightarrow> string \<Rightarrow> rule_value" where
  "string_to_value D s =
     (let v = fix_string s in
      if char_find CHR ''.'' v \<noteq> None
      then (case dbl_read D v of Some d \<Rightarrow> Val_double d | None \<Rightarrow> Val_string v)
      else (case stoull v of Some n \<Rightarrow> Val_time n | None \<Rightarrow> Val_string v))"

definition parse_in :: "string \<Rightarrow> rule_ast option" where
  "parse_in t =
     (case str_find '' IN '' t of
        None \<Rightarrow> None
      | Some p \<Rightarrow>
          (let s = drop (p + 4) t in
           if s \<noteq> [] \<and> hd s = CHR 0x7B \<and> last s = CHR 0x7D
           then Some (InOp [take p t] (map fix_string (split_on CHR '','' (substr 1 (length s - 2) s))))
           else None))"

definition parse_like :: "string \<Rightarrow> rule_ast option" where
  "parse_like t =
     (case str_find '' LIKE '' t of
        None \<Rightarrow> None
      | Some p \<Rightarrow>
          (let s = drop (p + 6) t
           in Some (LikeOp [take p t] (fix_string (substr 1 (length s - 2) s)))))"

definition comparison_ops :: "(string \<times> rule_op) list" where
  "comparison_ops = [(''=='', Op_EQ), (''!='', Op_NEQ), (''>='', Op_GTE), (''<='', Op_LTE),
     (''>'', Op_GT), (''<'', Op_LT)]"

fun parse_comparison :: "doubles \<Rightarrow> (string \<times> rule_op) list \<Rightarrow> string \<Rightarrow> rule_ast" where
  "parse_comparison D [] t = Rule_null"
| "parse_comparison D ((opstr, op) # ops) t =
     (case str_find opstr t of
        None \<Rightarrow> parse_comparison D ops t
      | Some p \<Rightarrow>
          Comparison op [trim (take p t)] (string_to_value D (trim (drop (p + length opstr) t))))"

definition parse_leaf :: "doubles \<Rightarrow> string \<Rightarrow> rule_ast" where
  "parse_leaf D t =
     (case parse_in t of
        Some a \<Rightarrow> a
      | None \<Rightarrow> (case parse_like t of Some a \<Rightarrow> a | None \<Rightarrow> parse_comparison D comparison_ops t))"

lemma length_trim: "length (trim s) \<le> length s"
  unfolding trim_def by (metis length_dropWhile_le length_rev order_trans)

lemma str_find_bound: "str_find pat s = Some p \<Longrightarrow> p + length pat \<le> length s"
  unfolding str_find_def by (drule find_from_Some) auto

lemma take_eq_length: "take n s = t \<Longrightarrow> length t = n \<Longrightarrow> n \<le> length s"
  by auto

lemma parse_rule_decreases:
  "take 4 (trim r) = ''NOT '' \<Longrightarrow> length (drop 4 (trim r)) < length r"
  "str_find '' AND '' (trim r) = Some p \<Longrightarrow> length (take p (trim r)) < length r"
  "str_find '' AND '' (trim r) = Some p \<Longrightarrow> length (drop (p + 5) (trim r)) < length r"
  "str_find '' OR '' (trim r) = Some p \<Longrightarrow> length (take p (trim r)) < length r"
  "str_find '' OR '' (trim r) = Some p \<Longrightarrow> length (drop (p + 4) (trim r)) < length r"
  using length_trim [of r] str_find_bound [of "'' AND ''" "trim r" p]
    str_find_bound [of "'' OR ''" "trim r" p] take_eq_length [of 4 "trim r" "''NOT ''"]
  by simp_all

function parse_rule :: "doubles \<Rightarrow> string \<Rightarrow> rule_ast" where
  "parse_rule D rule =
     (let t = trim rule in
      if take 4 t = ''NOT '' then UnaryOp Op_NOT (parse_rule D (drop 4 t))
      else
        (case str_find '' AND '' t of
           Some p \<Rightarrow> BinaryOp Op_AND (parse_rule D (take p t)) (parse_rule D (drop (p + 5) t))
         | None \<Rightarrow>
             (case str_find '' OR '' t of
                Some p \<Rightarrow> BinaryOp Op_OR (parse_rule D (take p t)) (parse_rule D (drop (p + 4) t))
              | None \<Rightarrow> parse_leaf D t)))"
  by pat_completeness auto

termination
  by (relation "measure (length \<circ> snd)") (simp_all del: length_take length_drop add: parse_rule_decreases)

declare parse_rule.simps [simp del]

section \<open>Evaluating rules\<close>

text \<open>\<open>Metadata::getTagValue\<close>; \<open>None\<close> is the conversion of a null string.\<close>

definition get_tag_value :: "doubles \<Rightarrow> metadata \<Rightarrow> string \<Rightarrow> string option" where
  "get_tag_value D md key =
     (case metadata_find key md of
        None \<Rightarrow> Some []
      | Some (ty, v) \<Rightarrow>
          (case v of
             Any_signed i \<Rightarrow> Some (show_i64 i)
           | Any_unsigned u \<Rightarrow> Some (show_u64 u)
           | Any_double d \<Rightarrow> Some (dbl_show D d)
           | Any_cstr s \<Rightarrow> (if s = None then None else Some (c_string s))
           | Any_hash s \<Rightarrow> (if s = None then None else Some (c_string s))
           | Any_string s \<Rightarrow> Some s
           | _ \<Rightarrow> Some []))"

text \<open>The outer option of \<open>get_field_value\<close> is a null dereference, the inner one \<open>std::nullopt\<close>.\<close>

definition get_field_value ::
  "doubles \<Rightarrow> aggregated_key \<Rightarrow> field_path \<Rightarrow> rule_value option option" where
  "get_field_value D key path =
     (case path of
        [] \<Rightarrow> Some None
      | f # _ \<Rightarrow>
          (if f = ''cat'' then Some (Some (Val_string (ak_category key)))
           else if f = ''name'' then Some (Some (Val_string (ak_event_name key)))
           else if f = ''ts'' then Some (Some (Val_time (ak_time_interval key)))
           else if f = ''dur'' then Some (Some (Val_time (ak_duration key)))
           else if f = ''app'' \<and> ak_app_name key \<noteq> None
             then Some (Some (Val_string (c_string (ak_app_name key))))
           else if f = ''rank'' \<and> ak_rank key = None then None
           else if f = ''rank'' \<and> the (ak_rank key) \<noteq> - 1
             then Some (Some (Val_time (scast (the (ak_rank key)))))
           else if take 5 f = ''tags.'' \<and> (ak_additional_keys key \<noteq> None \<or> ak_tag_source key \<noteq> None)
             then (case ak_additional_keys key of
                     Some md \<Rightarrow> map_option (Some \<circ> Val_string) (get_tag_value D md (drop 5 f))
                   | None \<Rightarrow> Some (Some (Val_string (the (ak_tag_source key) (drop 5 f)))))
           else Some None))"

text \<open>\<open>TimeResolution\<close> values are compared as \<open>int\<close>: the low 32 bits, signed.\<close>

definition as_int :: "u64 \<Rightarrow> int" where
  "as_int v = sint (ucast v :: u32)"

definition compare_values :: "doubles \<Rightarrow> rule_value \<Rightarrow> rule_value \<Rightarrow> rule_op \<Rightarrow> bool" where
  "compare_values D lhs rhs op =
     (case (lhs, rhs) of
        (Val_time a, Val_time b) \<Rightarrow>
          (let l = as_int a; r = as_int b in
           case op of Op_EQ \<Rightarrow> l = r | Op_NEQ \<Rightarrow> l \<noteq> r | Op_GT \<Rightarrow> r < l | Op_LT \<Rightarrow> l < r
           | Op_GTE \<Rightarrow> r \<le> l | Op_LTE \<Rightarrow> l \<le> r | _ \<Rightarrow> False)
      | (Val_double l, Val_double r) \<Rightarrow>
          (case op of Op_EQ \<Rightarrow> dbl_eq D l r | Op_NEQ \<Rightarrow> \<not> dbl_eq D l r | Op_GT \<Rightarrow> dbl_lt D r l
           | Op_LT \<Rightarrow> dbl_lt D l r | Op_GTE \<Rightarrow> dbl_lt D r l \<or> dbl_eq D l r
           | Op_LTE \<Rightarrow> dbl_lt D l r \<or> dbl_eq D l r | _ \<Rightarrow> False)
      | (Val_string l, Val_string r) \<Rightarrow>
          (case op of Op_EQ \<Rightarrow> l = r | Op_NEQ \<Rightarrow> l \<noteq> r | _ \<Rightarrow> False)
      | _ \<Rightarrow> False)"

definition star :: char where "star = CHR ''*''"

definition like_match :: "string \<Rightarrow> string \<Rightarrow> bool" where
  "like_match v p =
     (if p = [star] then True
      else
        (case char_find star p of
           None \<Rightarrow> v = p
         | Some first \<Rightarrow>
             (let last_star = the (char_rfind star p) in
              if first = 0 \<and> last_star = length p - 1 \<and> 1 < length p
                then str_find (substr 1 (length p - 2) p) v \<noteq> None
              else if first = 0
                then (let suf = drop 1 p
                      in length suf \<le> length v \<and> drop (length v - length suf) v = suf)
              else if last_star = length p - 1
                then (let pre = take (length p - 1) p
                      in length pre \<le> length v \<and> take (length pre) v = pre)
              else False)))"

text \<open>\<open>Rules::eval\<close>: both operands are evaluated; \<open>None\<close> is a null dereference.\<close>

fun eval_rule :: "doubles \<Rightarrow> aggregated_key \<Rightarrow> rule_ast \<Rightarrow> bool option" where
  "eval_rule D key Rule_null = Some True"
| "eval_rule D key (BinaryOp op l r) = do {
     a \<leftarrow> eval_rule D key l;
     b \<leftarrow> eval_rule D key r;
     Some (case op of Op_AND \<Rightarrow> a \<and> b | Op_OR \<Rightarrow> a \<or> b | _ \<Rightarrow> False) }"
| "eval_rule D key (UnaryOp op x) = do {
     a \<leftarrow> eval_rule D key x;
     Some (case op of Op_NOT \<Rightarrow> \<not> a | _ \<Rightarrow> False) }"
| "eval_rule D key (Comparison op path v) = do {
     f \<leftarrow> get_field_value D key path;
     Some (case f of None \<Rightarrow> False | Some x \<Rightarrow> compare_values D x v op) }"
| "eval_rule D key (InOp path vs) = do {
     f \<leftarrow> get_field_value D key path;
     Some (case f of Some (Val_string s) \<Rightarrow> s \<in> set vs | _ \<Rightarrow> False) }"
| "eval_rule D key (LikeOp path p) = do {
     f \<leftarrow> get_field_value D key path;
     Some (case f of Some (Val_string s) \<Rightarrow> like_match s p | _ \<Rightarrow> False) }"

text \<open>\<open>Rules::addRule\<close>, \<open>Rules::satisfies\<close> and \<open>Aggregator::should_aggregate\<close>.\<close>

definition add_rule :: "doubles \<Rightarrow> string \<Rightarrow> rule_ast list \<Rightarrow> rule_ast list" where
  "add_rule D rule asts = asts @ [parse_rule D rule]"

fun satisfies :: "doubles \<Rightarrow> aggregated_key \<Rightarrow> rule_ast list \<Rightarrow> bool option" where
  "satisfies D key [] = Some False"
| "satisfies D key (a # asts) = do {
     b \<leftarrow> eval_rule D key a;
     if b then Some True else satisfies D key asts }"

record rule_set =
  inclusion_rules :: "rule_ast list"
  exclusion_rules :: "rule_ast list"
  always_aggregate :: bool

definition read_rules :: "doubles \<Rightarrow> string list \<Rightarrow> string list \<Rightarrow> rule_set" where
  "read_rules D incl excl =
     \<lparr>inclusion_rules = fold (add_rule D) incl [], exclusion_rules = fold (add_rule D) excl [],
      always_aggregate = (incl = [] \<and> excl = [])\<rparr>"

definition should_aggregate :: "doubles \<Rightarrow> rule_set \<Rightarrow> aggregated_key \<Rightarrow> bool option" where
  "should_aggregate D rs key =
     (if always_aggregate rs then Some True
      else do {
        i \<leftarrow> satisfies D key (inclusion_rules rs);
        if \<not> i then Some False
        else do { e \<leftarrow> satisfies D key (exclusion_rules rs); Some (\<not> e) } })"

section \<open>Patterns\<close>

text \<open>Glob matching: a star is any run of characters.\<close>

function glob :: "string \<Rightarrow> string \<Rightarrow> bool" where
  "glob [] v = (v = [])"
| "glob (p # ps) v =
     (if p = star then glob ps v \<or> (case v of [] \<Rightarrow> False | x # xs \<Rightarrow> glob (p # ps) xs)
      else (case v of [] \<Rightarrow> False | x # xs \<Rightarrow> x = p \<and> glob ps xs))"
  by pat_completeness auto

termination
  by (relation "measure (\<lambda>(p, v). length p + length v)") auto

lemma glob_star: "glob (star # ps) v \<longleftrightarrow> (\<exists>xs ys. v = xs @ ys \<and> glob ps ys)"
proof (induction v)
  case (Cons x v)
  have "(\<exists>xs ys. x # v = xs @ ys \<and> glob ps ys) \<longleftrightarrow> glob ps (x # v) \<or> (\<exists>xs ys. v = xs @ ys \<and> glob ps ys)"
    by (auto simp: Cons_eq_append_conv)
  then show ?case using Cons by (subst glob.simps) simp
qed simp

lemma glob_literal: "star \<notin> set p \<Longrightarrow> glob (p @ ps) v \<longleftrightarrow> (\<exists>ys. v = p @ ys \<and> glob ps ys)"
proof (induction p arbitrary: v)
  case (Cons x p)
  then show ?case by (cases v) auto
qed simp

declare glob.simps(2) [simp del]

lemma char_find_from_None: "char_find_from c s i = None \<longleftrightarrow> c \<notin> set s"
  by (induction s arbitrary: i) auto

lemma char_find_from_first: "c \<notin> set xs \<Longrightarrow> char_find_from c (xs @ c # ys) i = Some (i + length xs)"
  by (induction xs arbitrary: i) auto

lemma char_find_first: "c \<notin> set xs \<Longrightarrow> char_find c (xs @ c # ys) = Some (length xs)"
  using char_find_from_first [of c xs ys 0] by (simp add: char_find_def)

lemma char_rfind_last: "c \<notin> set ys \<Longrightarrow> char_rfind c (xs @ c # ys) = Some (length xs)"
  using char_find_first [of c "rev ys" "rev xs"] by (simp add: char_rfind_def)

text \<open>The four shapes of pattern the matcher is meant for.\<close>

lemma like_match_exact:
  assumes "star \<notin> set p"
  shows "like_match v p \<longleftrightarrow> v = p"
proof -
  have "char_find star p = None"
    using assms char_find_from_None [of star p 0] by (simp add: char_find_def)
  then show ?thesis using assms by (auto simp: like_match_def)
qed

lemma like_match_inner:
  assumes "star \<notin> set s"
  shows "like_match v (star # s @ [star]) \<longleftrightarrow> sublist s v"
proof -
  have "char_find star (star # s @ [star]) = Some 0"
    using char_find_first [of star "[]"] by simp
  moreover have "char_rfind star (star # s @ [star]) = Some (length s + 1)"
    using char_rfind_last [of star "[]" "star # s"] by simp
  ultimately show ?thesis
    by (simp add: like_match_def substr_def flip: str_find_iff)
qed

lemma like_match_suffix:
  assumes "star \<notin> set s"
  shows "like_match v (star # s) \<longleftrightarrow> suffix s v"
proof (cases "s = []")
  case True
  then show ?thesis by (simp add: like_match_def)
next
  case False
  have "char_find star (star # s) = Some 0" using char_find_first [of star "[]"] by simp
  moreover have "char_rfind star (star # s) = Some 0"
    using char_rfind_last [of star s "[]"] assms by simp
  moreover have "length s \<le> length v \<and> drop (length v - length s) v = s \<longleftrightarrow> suffix s v"
    by (auto simp: suffix_def) (metis append_take_drop_id)
  ultimately show ?thesis using False by (simp add: like_match_def Let_def)
qed

lemma like_match_prefix:
  assumes "star \<notin> set s" "s \<noteq> []"
  shows "like_match v (s @ [star]) \<longleftrightarrow> prefix s v"
proof -
  have "char_find star (s @ [star]) = Some (length s)" using char_find_first [of star s "[]"] assms by simp
  moreover have "char_rfind star (s @ [star]) = Some (length s)"
    using char_rfind_last [of star "[]" s] by simp
  moreover have "length s \<le> length v \<and> take (length s) v = s \<longleftrightarrow> prefix s v"
    by (auto simp: prefix_def) (metis append_take_drop_id)
  moreover have "s @ [star] \<noteq> [star]" using assms(2) by simp
  ultimately show ?thesis using assms by (simp add: like_match_def Let_def)
qed

definition end_stars :: "string \<Rightarrow> bool" where
  "end_stars p \<longleftrightarrow> star \<notin> set (take (length p - 2) (drop 1 p))"

lemma end_stars_cases:
  assumes "end_stars p"
  obtains "star \<notin> set p" | s where "p = star # s" "star \<notin> set s"
    | s where "p = s @ [star]" "star \<notin> set s" "s \<noteq> []" | s where "p = star # s @ [star]" "star \<notin> set s"
proof (cases p rule: rev_cases)
  case Nil
  then show ?thesis using that(1) by simp
next
  case (snoc q z)
  show ?thesis
  proof (cases q)
    case Nil
    then show ?thesis using snoc that(1) that(2) [of "[]"] by (cases "z = star") auto
  next
    case (Cons a s)
    then have "star \<notin> set s" using assms snoc by (simp add: end_stars_def)
    then show ?thesis
      using that(1) that(2) [of "s @ [z]"] that(3) [of "a # s"] that(4) [of s] snoc Cons
      by (cases "a = star"; cases "z = star") auto
  qed
qed

lemma like_match_glob: "end_stars p \<Longrightarrow> like_match v p = glob p v"
proof (erule end_stars_cases)
  assume "star \<notin> set p"
  then show ?thesis using glob_literal [of p "[]" v] by (simp add: like_match_exact)
next
  fix s assume p: "p = star # s" "star \<notin> set s"
  then show ?thesis
    using glob_literal [of s "[]"] by (auto simp: like_match_suffix glob_star suffix_def)
next
  fix s assume p: "p = s @ [star]" "star \<notin> set s" "s \<noteq> []"
  then show ?thesis
    using glob_literal [of s "[star]"] glob_star [of "[]"]
    by (auto simp: like_match_prefix prefix_def)
next
  fix s assume p: "p = star # s @ [star]" "star \<notin> set s"
  then show ?thesis
    using glob_literal [of s "[star]"] glob_star [of "[]"]
    by (auto simp: like_match_inner glob_star sublist_def)
qed

section \<open>Reading a comparison back\<close>

lemma str_find_missing: "c \<in> set pat \<Longrightarrow> c \<notin> set s \<Longrightarrow> str_find pat s = None"
  using str_find_iff [of pat s] set_mono_sublist [of pat s] by auto

lemma find_from_first:
  "c \<notin> set xs \<Longrightarrow> find_from (c # cs) (xs @ (c # cs) @ ys) i = Some (i + length xs)"
  by (induction xs arbitrary: i) auto

lemma str_find_first: "c \<notin> set xs \<Longrightarrow> str_find (c # cs) (xs @ (c # cs) @ ys) = Some (length xs)"
  using find_from_first [of c xs cs ys 0] by (simp add: str_find_def)

lemma sublist_filter: "sublist xs ys \<Longrightarrow> sublist (filter P xs) (filter P ys)"
  by (auto simp: sublist_def) blast

definition op_char :: "char \<Rightarrow> bool" where
  "op_char c \<longleftrightarrow> c \<in> set ''=!<>''"

definition field_char :: "char \<Rightarrow> bool" where
  "field_char c \<longleftrightarrow> 97 \<le> (of_char c :: nat) \<and> (of_char c :: nat) \<le> 122 \<or> c = CHR ''.''"

lemma trim_id:
  assumes "s \<noteq> []" "\<not> is_blank (hd s)" "\<not> is_blank (last s)"
  shows "trim s = s"
proof -
  have "dropWhile is_blank s = s" using assms by (simp add: dropWhile_eq_self_iff)
  moreover have "dropWhile is_blank (rev s) = rev s"
    using assms by (simp add: dropWhile_eq_self_iff hd_rev)
  ultimately show ?thesis by (simp add: trim_def)
qed

lemma trim_blank_left: "is_blank c \<Longrightarrow> trim (c # s) = trim s"
  by (simp add: trim_def)

lemma trim_blank_right:
  assumes "is_blank c" "\<not> is_blank (hd s)" "s \<noteq> []" shows "trim (s @ [c]) = trim s"
  using assms by (cases s) (simp_all add: trim_def)

lemma show_nat_nonempty: "show_nat n \<noteq> []"
  by (subst show_nat.simps) simp

lemma show_nat_chars: "c \<in> set (show_nat n) \<Longrightarrow> is_digit c"
  using show_nat_digits [of c n] by (simp add: is_digit_def)

lemma digit_not:
  "is_digit c \<Longrightarrow> \<not> is_blank c \<and> \<not> op_char c \<and> \<not> is_space c \<and> c \<noteq> quote_char \<and> c \<noteq> CHR 0x22 \<and>
    c \<noteq> CHR ''.'' \<and> c \<noteq> CHR ''-'' \<and> c \<noteq> CHR ''+''"
  by (auto simp: is_digit_def is_blank_def op_char_def is_space_def quote_char_def)

lemma field_not: "field_char c \<Longrightarrow> \<not> is_blank c \<and> \<not> op_char c"
  by (auto simp: field_char_def is_blank_def op_char_def)

lemma keyword_not:
  "c \<in> set ''ADIKLNORE'' \<Longrightarrow> \<not> field_char c \<and> \<not> op_char c \<and> \<not> is_digit c \<and> c \<noteq> CHR '' ''"
  by (auto simp: field_char_def op_char_def is_digit_def)

lemma stoull_show_nat: "n < 2 ^ 64 \<Longrightarrow> stoull (show_nat n) = Some (of_nat n)"
proof -
  assume n: "n < 2 ^ 64"
  have h: "is_digit (hd (show_nat n))" using show_nat_chars [of "hd (show_nat n)" n] show_nat_nonempty by simp
  have d: "dropWhile is_space (show_nat n) = show_nat n"
    using h digit_not by (auto simp: dropWhile_eq_self_iff)
  have t: "takeWhile is_digit (show_nat n) = show_nat n"
    using show_nat_chars by (simp add: takeWhile_eq_all_conv)
  show ?thesis
    using h digit_not [of "hd (show_nat n)"] n show_nat_nonempty [of n]
    by (auto simp: stoull_def d t Let_def)
qed

lemma string_to_value_number: "n < 2 ^ 64 \<Longrightarrow> string_to_value D (show_nat n) = Val_time (of_nat n)"
proof -
  assume n: "n < 2 ^ 64"
  have h: "is_digit (hd (show_nat n))" using show_nat_chars [of "hd (show_nat n)" n] show_nat_nonempty by simp
  have "fix_string (show_nat n) = show_nat n"
    using digit_not [OF h] by (simp add: fix_string_def)
  moreover have "char_find CHR ''.'' (show_nat n) = None"
    using show_nat_chars [of "CHR ''.''" n] digit_not by (auto simp: char_find_def char_find_from_None)
  ultimately show ?thesis by (simp add: string_to_value_def stoull_show_nat [OF n])
qed

lemma parse_rule_leaf:
  assumes "trim t = t" "take 4 t \<noteq> ''NOT ''" "str_find '' AND '' t = None" "str_find '' OR '' t = None"
  shows "parse_rule D t = parse_leaf D t"
  using assms by (subst parse_rule.simps) simp

lemma op_sublist:
  assumes "\<forall>c\<in>set pat. op_char c" "sublist pat (xs @ ops @ ys)" "\<forall>c\<in>set xs \<union> set ys. \<not> op_char c"
    "\<forall>c\<in>set ops. op_char c"
  shows "sublist pat ops"
proof -
  have "filter op_char pat = pat" "filter op_char ops = ops" "filter op_char xs = []" "filter op_char ys = []"
    using assms(1,3,4) by (auto simp: filter_id_conv filter_empty_conv)
  with sublist_filter [OF assms(2), of op_char] show ?thesis by simp
qed

lemma parse_comparison_text:
  assumes f: "f \<noteq> []" "\<forall>c\<in>set f. field_char c" and op: "(opstr, op) \<in> set comparison_ops" and n: "n < 2 ^ 64"
  shows "parse_rule D (f @ '' '' @ opstr @ '' '' @ show_nat n) = Comparison op [f] (Val_time (of_nat n))"
proof -
  let ?xs = "f @ '' ''" and ?ys = "'' '' @ show_nat n"
  let ?t = "?xs @ opstr @ ?ys"
  have fc: "field_char c" if "c \<in> set f" for c using f(2) that by blast
  have oc: "\<forall>c\<in>set opstr. op_char c" using op by (auto simp: comparison_ops_def op_char_def)
  have o: "opstr \<noteq> []" using op by (auto simp: comparison_ops_def)
  have blank: "\<not> op_char (CHR '' '')" by (simp add: op_char_def)
  have quiet: "\<forall>c\<in>set ?xs \<union> set ?ys. \<not> op_char c"
    using blank fc field_not show_nat_chars digit_not by auto
  have up: "c \<notin> set ?t" if "c \<in> set ''ADIKLNORE''" for c
    using keyword_not [OF that] fc [of c] show_nat_chars [of c n] oc by auto
  have "hd ?t = hd f" "last ?t = last (show_nat n)" using f(1) show_nat_nonempty by simp_all
  then have tt: "trim ?t = ?t"
    using fc [of "hd f"] field_not [of "hd f"] show_nat_chars [of "last (show_nat n)" n] digit_not
      f(1) show_nat_nonempty [of n] by (intro trim_id) auto
  have not: "take 4 ?t \<noteq> ''NOT ''"
  proof
    assume "take 4 ?t = ''NOT ''"
    then have "CHR ''N'' \<in> set ?t" using in_set_takeD [of "CHR ''N''" 4 ?t] by simp
    then show False using up by simp
  qed
  have leaf: "parse_rule D ?t = parse_leaf D ?t"
    by (rule parse_rule_leaf [OF tt not])
      (rule str_find_missing [of "CHR ''A''"] str_find_missing [of "CHR ''O''"]; use up in simp)+
  have "str_find '' IN '' ?t = None" by (rule str_find_missing [of "CHR ''I''"]) (use up in simp_all)
  moreover have "str_find '' LIKE '' ?t = None"
    by (rule str_find_missing [of "CHR ''L''"]) (use up in simp_all)
  ultimately have cmp: "parse_leaf D ?t = parse_comparison D comparison_ops ?t"
    by (simp add: parse_leaf_def parse_in_def parse_like_def)
  have miss: "str_find pat ?t = None" if "\<forall>c\<in>set pat. op_char c" "\<not> sublist pat opstr" for pat
    using op_sublist [OF that(1) _ quiet oc] that(2) str_find_iff [of pat ?t] by blast
  have hit: "str_find opstr ?t = Some (length f + 1)"
  proof -
    obtain c cs where c: "opstr = c # cs" using o by (cases opstr) auto
    then have "c \<notin> set ?xs" using quiet oc by auto
    from str_find_first [OF this, of cs ?ys] show ?thesis by (simp add: c)
  qed
  have left: "trim (take (length f + 1) ?t) = f"
    using fc field_not f(1) by (simp add: trim_blank_right trim_id is_blank_def)
  have right: "trim (drop (length f + 1 + length opstr) ?t) = show_nat n"
    using show_nat_chars [of "hd (show_nat n)" n] show_nat_chars [of "last (show_nat n)" n] digit_not
      show_nat_nonempty by (simp add: trim_blank_left trim_id is_blank_def)
  have step: "parse_comparison D ((opstr, op) # ops) ?t = Comparison op [f] (Val_time (of_nat n))" for ops
    by (simp only: parse_comparison.simps hit option.case left right string_to_value_number [OF n])
  have skip: "parse_comparison D ((pat, o') # ops) ?t = parse_comparison D ops ?t"
    if "\<forall>c\<in>set pat. op_char c" "\<not> sublist pat opstr" for pat o' ops
    by (simp only: parse_comparison.simps miss [OF that] option.case)
  have "parse_comparison D comparison_ops ?t = Comparison op [f] (Val_time (of_nat n))"
    using op step skip
    by (auto simp: comparison_ops_def op_char_def sublist_Cons_right simp del: append.simps append_assoc)
  then show ?thesis using leaf cmp by simp
qed

section \<open>Evaluation never fails on well-formed keys\<close>

text \<open>A rank is given, and no string field of the event is null.\<close>

definition key_safe :: "doubles \<Rightarrow> aggregated_key \<Rightarrow> bool" where
  "key_safe D key \<longleftrightarrow> ak_rank key \<noteq> None \<and>
     (\<forall>md k. ak_additional_keys key = Some md \<longrightarrow> get_tag_value D md k \<noteq> None)"

lemma get_field_value_safe: "key_safe D key \<Longrightarrow> \<exists>f. get_field_value D key path = Some f"
  by (cases path) (auto simp: get_field_value_def key_safe_def split: option.splits)

lemma eval_rule_safe: "key_safe D key \<Longrightarrow> \<exists>b. eval_rule D key a = Some b"
proof (induction a)
  case (Comparison op path v)
  with get_field_value_safe [of D key path] show ?case by auto
next
  case (InOp path vs)
  with get_field_value_safe [of D key path] show ?case by auto
next
  case (LikeOp path p)
  with get_field_value_safe [of D key path] show ?case by auto
qed auto

lemma satisfies_safe:
  "key_safe D key \<Longrightarrow> satisfies D key asts = Some (\<exists>a\<in>set asts. eval_rule D key a = Some True)"
proof (induction asts)
  case (Cons a asts)
  obtain b where "eval_rule D key a = Some b" using eval_rule_safe [OF Cons.prems] by blast
  then show ?case using Cons by simp
qed simp

lemma fold_add_rule: "fold (add_rule D) rs asts = asts @ map (parse_rule D) rs"
  by (induction rs arbitrary: asts) (simp_all add: add_rule_def)

section \<open>Properties\<close>

definition sample_doubles :: doubles where
  "sample_doubles = \<lparr>dbl_eq = (=), dbl_lt = (<), dbl_read = (\<lambda>_. None), dbl_show = show_u64\<rparr>"

text \<open>
  C14: A pattern whose stars, if any, are its first or last character matches exactly the strings
  that glob matching accepts.
\<close>

theorem like_match_is_glob:
  assumes "end_stars p"
  shows "like_match v p = glob p v"
  using assms by (rule like_match_glob)

theorem like_match_is_glob_witness: "like_match ''pread64'' ''*read*'' \<and> glob ''*read*'' ''pread64''"
proof -
  have "end_stars ''*read*''" by (simp add: end_stars_def star_def)
  from like_match_is_glob [OF this, of "''pread64''"] show ?thesis
    using like_match_inner [of "''read''" "''pread64''"] by (simp add: star_def sublist_Cons_right)
qed

text \<open>
  A comparison of a field with a number is read as written, whichever of the six operators
  it uses.
\<close>

lemma comparison_rule_reads_back:
  assumes "f \<noteq> []" "\<forall>c\<in>set f. field_char c" "(opstr, op) \<in> set comparison_ops" "n < 2 ^ 64"
  shows "parse_rule D (f @ '' '' @ opstr @ '' '' @ show_nat n) = Comparison op [f] (Val_time (of_nat n))"
  using assms by (rule parse_comparison_text)

theorem comparison_rule_reads_back_witness:
  "parse_rule sample_doubles (''dur'' @ '' '' @ ''>='' @ '' '' @ show_nat 10000) = Comparison Op_GTE [''dur''] (Val_time 10000)"
  using comparison_rule_reads_back [of "''dur''" "''>=''" Op_GTE 10000 sample_doubles]
  by (simp add: field_char_def comparison_ops_def)

text \<open>
  C13: On a key with a rank and no null strings, selective aggregation is decided, and an event
  is aggregated exactly when there are no rules at all, or some inclusion rule and no exclusion
  rule holds of it; a text that is no rule holds of every event.
\<close>

theorem should_aggregate_decides:
  assumes "key_safe D key"
  shows "should_aggregate D (read_rules D incl excl) key =
      Some (incl = [] \<and> excl = [] \<or>
        (\<exists>r\<in>set incl. eval_rule D key (parse_rule D r) = Some True) \<and>
        \<not> (\<exists>r\<in>set excl. eval_rule D key (parse_rule D r) = Some True)) \<and>
    eval_rule D key (parse_rule D []) = Some True"
proof -
  have "parse_rule D [] = Rule_null"
    by (subst parse_rule.simps)
      (simp add: trim_def str_find_def parse_leaf_def parse_in_def parse_like_def comparison_ops_def)
  then show ?thesis
    using satisfies_safe [OF assms] by (auto simp: should_aggregate_def read_rules_def fold_add_rule)
qed

definition sample_key :: aggregated_key where
  "sample_key = \<lparr>ak_category = ''POSIX'', ak_event_name = ''fstat'', ak_type = 3, ak_time_interval = 0,
     ak_thread_id = 7, ak_additional_keys = None, ak_duration = 20000, ak_app_name = None,
     ak_rank = Some 0, ak_tag_source = None\<rparr>"

lemma as_int_value: "as_int v = (let k = int (unat v mod 2 ^ 32) in if k < 2 ^ 31 then k else k - 2 ^ 32)"
proof -
  define k where "k = int (unat v mod 2 ^ 32)"
  have k: "0 \<le> k" "k < 2 ^ 32" by (simp_all add: k_def)
  have "unat (ucast v :: u32) = unat v mod 2 ^ 32"
    by (simp add: unsigned_ucast_eq take_bit_eq_mod)
  then have u: "uint (ucast v :: u32) = k"
    unfolding k_def uint_nat by presburger
  have "as_int v = (k + 2 ^ 31) mod 2 ^ 32 - 2 ^ 31"
    by (simp add: as_int_def sint_uint u signed_take_bit_eq_take_bit_shift take_bit_eq_mod)
  also have "\<dots> = (if k < 2 ^ 31 then k else k - 2 ^ 32)"
  proof (cases "k < 2 ^ 31")
    case True
    then have "(k + 2 ^ 31) mod 2 ^ 32 = k + 2 ^ 31" using k by (intro mod_pos_pos_trivial) auto
    then show ?thesis using True by simp
  next
    case False
    then have "(k - 2 ^ 31) mod 2 ^ 32 = k - 2 ^ 31" using k by (intro mod_pos_pos_trivial) auto
    moreover have "(k + 2 ^ 31) mod 2 ^ 32 = (k - 2 ^ 31) mod (2 ^ 32 :: int)"
      using mod_add_self2 [of "k - 2 ^ 31" "2 ^ 32"] by (simp add: algebra_simps)
    ultimately show ?thesis using False by simp
  qed
  finally show ?thesis by (simp add: k_def Let_def)
qed

lemma as_int_small:
  assumes "unat v < 2 ^ 31" shows "as_int v = int (unat v)"
proof -
  have m: "unat v mod 2 ^ 32 = unat v" using assms by (intro mod_less) simp
  have l: "int (unat v) < 2 ^ 31" using assms by (metis of_nat_less_numeral_power_cancel_iff)
  show ?thesis unfolding as_int_value Let_def m if_P [OF l] ..
qed

lemma as_int_negative:
  assumes "2 ^ 31 \<le> unat v" "unat v < 2 ^ 32" shows "as_int v < 0"
proof -
  have m: "unat v mod 2 ^ 32 = unat v" using assms by (intro mod_less) simp
  have l: "\<not> int (unat v) < 2 ^ 31" using assms by (metis of_nat_less_numeral_power_cancel_iff not_le)
  have "int (unat v) < 2 ^ 32" using assms(2) by (metis of_nat_less_numeral_power_cancel_iff)
  then show ?thesis unfolding as_int_value Let_def m if_not_P [OF l] by linarith
qed

lemma dur_rule:
  assumes "n < 2 ^ 31"
  shows "eval_rule D key (parse_rule D (''dur > '' @ show_nat n)) = Some (int n < as_int (ak_duration key))"
proof -
  have "parse_rule D (''dur'' @ '' '' @ ''>'' @ '' '' @ show_nat n) = Comparison Op_GT [''dur''] (Val_time (of_nat n))"
    by (rule parse_comparison_text) (use assms in \<open>simp_all add: field_char_def comparison_ops_def\<close>)
  moreover have "as_int (of_nat n) = int n"
  proof -
    have u: "unat (of_nat n :: u64) = n" using assms by (intro unat_of_nat_small) simp
    from as_int_small [of "of_nat n", unfolded u, OF assms] show ?thesis .
  qed
  ultimately show ?thesis by (simp add: get_field_value_def compare_values_def Let_def)
qed

theorem should_aggregate_decides_witness:
  "should_aggregate sample_doubles (read_rules sample_doubles [''dur > '' @ show_nat 10000] [''dur > '' @ show_nat 30000]) sample_key = Some True"
proof -
  have d: "as_int 20000 = 20000" by (simp add: as_int_small)
  have "key_safe sample_doubles sample_key" by (simp add: key_safe_def sample_key_def)
  from should_aggregate_decides [OF this, of "[''dur > '' @ show_nat 10000]" "[''dur > '' @ show_nat 30000]"]
  show ?thesis
    using dur_rule [of 10000 sample_doubles sample_key] dur_rule [of 30000 sample_doubles sample_key]
    by (simp add: sample_key_def d)
qed

text \<open>
  A bound on the duration is compared as an \<open>int\<close>: below 2 to the 31 it means what it says,
  but an event of 2 to the 31 microseconds or more (below 2 to the 32) exceeds no bound.
\<close>

lemma duration_bound_wraps:
  assumes "n < 2 ^ 31" "unat (ak_duration key) < 2 ^ 32"
  shows "eval_rule D key (parse_rule D (''dur > '' @ show_nat n)) =
    Some (unat (ak_duration key) < 2 ^ 31 \<and> n < unat (ak_duration key))"
proof (cases "unat (ak_duration key) < 2 ^ 31")
  case True
  have "(int n < int (unat (ak_duration key))) = (n < unat (ak_duration key))" by (rule of_nat_less_iff)
  then show ?thesis unfolding dur_rule [OF assms(1)] as_int_small [OF True] using True by simp
next
  case False
  then have "as_int (ak_duration key) < 0" using assms(2) by (intro as_int_negative) simp_all
  then show ?thesis unfolding dur_rule [OF assms(1)] using False by simp
qed

theorem duration_bound_wraps_witness:
  "eval_rule sample_doubles (sample_key\<lparr>ak_duration := 2 ^ 31\<rparr>) (parse_rule sample_doubles (''dur > '' @ show_nat 10000)) = Some False"
  using duration_bound_wraps [of 10000 "sample_key\<lparr>ak_duration := 2 ^ 31\<rparr>" sample_doubles] by simp

text \<open>The first rule of the repository's \<open>test/yaml/rules.yaml\<close>.\<close>

definition quote_text :: "string \<Rightarrow> string" where
  "quote_text s = quote_char # s @ [quote_char]"

definition posix_or_stdio :: string where
  "posix_or_stdio = ''cat IN {'' @ quote_text ''POSIX'' @ '', '' @ quote_text ''STDIO'' @ ''}''"

text \<open>
  The values of an \<open>IN\<close> list are taken with the blanks between them, quotes included when
  a blank precedes them: the rule of \<open>test/yaml/rules.yaml\<close> that lists POSIX and STDIO holds of
  the first category and not of the second.
\<close>

lemma in_list_keeps_blanks:
  "parse_rule D posix_or_stdio = InOp [''cat''] [''POSIX'', CHR '' '' # quote_text ''STDIO''] \<and>
   eval_rule D (sample_key\<lparr>ak_category := ''POSIX''\<rparr>) (parse_rule D posix_or_stdio) = Some True \<and>
   eval_rule D (sample_key\<lparr>ak_category := ''STDIO''\<rparr>) (parse_rule D posix_or_stdio) = Some False"
proof -
  have t: "trim posix_or_stdio = posix_or_stdio"
    by (rule trim_id) (simp_all add: posix_or_stdio_def is_blank_def)
  have "parse_rule D posix_or_stdio = parse_leaf D posix_or_stdio"
    by (rule parse_rule_leaf [OF t])
      (simp_all add: posix_or_stdio_def quote_text_def quote_char_def str_find_def)
  also have "\<dots> = InOp [''cat''] [''POSIX'', CHR '' '' # quote_text ''STDIO'']"
    by (simp add: parse_leaf_def parse_in_def posix_or_stdio_def quote_text_def quote_char_def str_find_def
        substr_def fix_string_def)
  finally show ?thesis
    by (simp add: get_field_value_def sample_key_def quote_text_def)
qed

text \<open>A quoted number is read as a number all the same.\<close>

lemma quoted_number_is_number:
  "n < 2 ^ 64 \<Longrightarrow> string_to_value D (quote_text (show_nat n)) = Val_time (of_nat n)"
proof -
  assume n: "n < 2 ^ 64"
  have "fix_string (quote_text (show_nat n)) = show_nat n"
    by (simp add: fix_string_def quote_text_def substr_def)
  moreover have "fix_string (show_nat n) = show_nat n"
    using show_nat_chars [of "hd (show_nat n)" n] show_nat_nonempty digit_not by (auto simp: fix_string_def)
  ultimately show ?thesis
    using string_to_value_number [OF n, of D] by (simp add: string_to_value_def)
qed

end
