(* ===== verification/String_Table.thy ===== *)
theory String_Table
  imports DFT_Prelude
begin

text \<open>
  \<open>StringTable\<close> of \<open>core/aggregator/packed_aggregator.{h,cpp}\<close>: strings by dense ids, found
  through an open-addressing hash table that doubles when it is half full. The hash
  (\<open>std::hash<std::string_view>\<close>) is a parameter. The index of a slot is a natural (it stays
  below the number of slots). A probe that meets no stopping slot after as many steps as
  there are slots would go on for ever: \<open>None\<close>; \<open>intern_spec\<close> shows that it never does.
\<close>

section \<open>The table\<close>

record string_table =
  tb_strings :: "string list"
  tb_hashes :: "u64 list"
  tb_slots :: "u32 list"  \<comment> \<open>id + 1, 0 empty\<close>

definition empty_table :: string_table where
  "empty_table = \<lparr>tb_strings = [], tb_hashes = [], tb_slots = []\<rparr>"

definition at_id :: "string_table \<Rightarrow> u32 \<Rightarrow> string" where
  "at_id t i = tb_strings t ! unat i"

text \<open>\<open>i = (i + 1) & mask\<close> until a slot where the loop stops.\<close>

fun walk :: "nat \<Rightarrow> (nat \<Rightarrow> bool) \<Rightarrow> nat \<Rightarrow> nat \<Rightarrow> nat option" where
  "walk 0 stop m i = None"
| "walk (Suc f) stop m i = (if stop i then Some i else walk f stop m ((i + 1) AND m))"

definition free_slot :: "u32 list \<Rightarrow> u64 \<Rightarrow> nat option" where
  "free_slot slots h =
     walk (length slots) (\<lambda>i. slots ! i = 0) (length slots - 1) (unat h AND (length slots - 1))"

text \<open>The loop of \<open>grow\<close> over the ids from \<open>i\<close>.\<close>

fun place_ids :: "u64 list \<Rightarrow> nat \<Rightarrow> u32 list \<Rightarrow> u32 list option" where
  "place_ids [] i slots = Some slots"
| "place_ids (h # hs) i slots =
     (case free_slot slots h of
        None \<Rightarrow> None
      | Some p \<Rightarrow> place_ids hs (i + 1) (slots[p := of_nat i + 1]))"

definition grow :: "string_table \<Rightarrow> string_table option" where
  "grow t =
     (let n = (if tb_slots t = [] then 64 else length (tb_slots t) * 2) in
      case place_ids (tb_hashes t) 0 (replicate n 0) of
        None \<Rightarrow> None
      | Some slots \<Rightarrow> Some (t\<lparr>tb_slots := slots\<rparr>))"

definition holds_string :: "string_table \<Rightarrow> u64 \<Rightarrow> string \<Rightarrow> nat \<Rightarrow> bool" where
  "holds_string t h s i =
     (let i = unat (tb_slots t ! i - 1) in tb_hashes t ! i = h \<and> tb_strings t ! i = s)"

definition probe :: "string_table \<Rightarrow> u64 \<Rightarrow> string \<Rightarrow> nat option" where
  "probe t h s =
     walk (length (tb_slots t)) (\<lambda>i. tb_slots t ! i = 0 \<or> holds_string t h s i)
       (length (tb_slots t) - 1) (unat h AND (length (tb_slots t) - 1))"

definition intern_in :: "u64 \<Rightarrow> string \<Rightarrow> string_table \<Rightarrow> (u32 \<times> string_table) option" where
  "intern_in h s t =
     (case probe t h s of
        None \<Rightarrow> None
      | Some i \<Rightarrow>
          (if tb_slots t ! i = 0
           then (let n = of_nat (length (tb_strings t)) in
                 Some (n, t\<lparr>tb_strings := tb_strings t @ [s], tb_hashes := tb_hashes t @ [h],
                   tb_slots := (tb_slots t)[i := n + 1]\<rparr>))
           else Some (tb_slots t ! i - 1, t)))"

definition intern :: "(string \<Rightarrow> u64) \<Rightarrow> string \<Rightarrow> string_table \<Rightarrow> (u32 \<times> string_table) option" where
  "intern H s t =
     (case (if tb_slots t = [] \<or> length (tb_slots t) < (length (tb_strings t) + 1) * 2
            then grow t else Some t) of
        None \<Rightarrow> None
      | Some t' \<Rightarrow> intern_in (H s) s t')"

section \<open>Probing\<close>

lemma nat_and_mask: "(x :: nat) AND (2 ^ k - 1) = x mod 2 ^ k"
proof -
  have "x AND (2 ^ k - 1) = take_bit k x" by (simp only: take_bit_eq_mask mask_eq_exp_minus_1)
  then show ?thesis by (simp only: take_bit_eq_mod)
qed

text \<open>The first slot from \<open>a\<close> on, cyclically, at which the loop stops.\<close>

lemma walk_finds:
  assumes "stop ((a + j) mod 2 ^ k)" "j < f" "\<And>i. i < j \<Longrightarrow> \<not> stop ((a + i) mod 2 ^ k)"
  shows "walk f stop (2 ^ k - 1) (a mod 2 ^ k) = Some ((a + j) mod 2 ^ k)"
  using assms
proof (induction f arbitrary: a j)
  case (Suc f)
  show ?case
  proof (cases j)
    case 0
    then show ?thesis using Suc.prems(1) by simp
  next
    case (Suc j')
    have n: "\<not> stop (a mod 2 ^ k)" using Suc.prems(3) [of 0] Suc by simp
    have s: "(a mod 2 ^ k + 1) AND (2 ^ k - 1) = (a + 1) mod 2 ^ k"
      unfolding nat_and_mask by (simp add: mod_Suc_eq)
    have "walk f stop (2 ^ k - 1) ((a + 1) mod 2 ^ k) = Some ((a + 1 + j') mod 2 ^ k)"
    proof (rule Suc.IH)
      show "\<not> stop ((a + 1 + i) mod 2 ^ k)" if "i < j'" for i
        using Suc.prems(3) [of "i + 1"] Suc that by simp
    qed (use Suc.prems Suc in simp_all)
    then show ?thesis using n s Suc by simp
  qed
qed simp

text \<open>Every slot is met within as many steps as there are slots.\<close>

lemma cyclic_reach:
  assumes "p < (n :: nat)" shows "\<exists>j<n. (a + j) mod n = p"
proof -
  let ?j = "(p + n - a mod n) mod n"
  have "0 < n" using assms by simp
  then have "a mod n < n" by simp
  have "(a + ?j) mod n = (a mod n + (p + n - a mod n)) mod n" by (metis mod_add_eq mod_mod_trivial)
  also have "a mod n + (p + n - a mod n) = p + n" using \<open>a mod n < n\<close> by simp
  also have "(p + n) mod n = p" using assms by simp
  finally show ?thesis using \<open>0 < n\<close> mod_less_divisor by blast
qed

lemma walk_total:
  assumes "p < 2 ^ k" "stop p"
  obtains j where "j < 2 ^ k" "stop ((a + j) mod 2 ^ k)"
    "\<And>i. i < j \<Longrightarrow> \<not> stop ((a + i) mod 2 ^ k)"
    "walk (2 ^ k) stop (2 ^ k - 1) (a mod 2 ^ k) = Some ((a + j) mod 2 ^ k)"
proof -
  define j where "j = (LEAST j. stop ((a + j) mod 2 ^ k))"
  obtain j0 where j0: "j0 < 2 ^ k" "(a + j0) mod 2 ^ k = p" using cyclic_reach [OF assms(1)] by blast
  have s: "stop ((a + j) mod 2 ^ k)" unfolding j_def by (rule LeastI [of _ j0]) (simp add: j0 assms)
  have l: "j \<le> j0" unfolding j_def by (rule Least_le) (simp add: j0 assms)
  have f: "\<not> stop ((a + i) mod 2 ^ k)" if "i < j" for i
    using not_less_Least [of i "\<lambda>j. stop ((a + j) mod 2 ^ k)"] that by (simp add: j_def)
  show ?thesis
    using that [of j] s f l j0(1) walk_finds [of stop a j k "2 ^ k", OF s _ f] by simp
qed

section \<open>The invariant\<close>

text \<open>
  The ids below \<open>m\<close>, with the given hashes, are in the slots: a used slot holds one of them, and
  each is met when probing from its hash, before any empty slot.
\<close>

definition slots_hold :: "nat \<Rightarrow> u64 list \<Rightarrow> nat \<Rightarrow> u32 list \<Rightarrow> bool" where
  "slots_hold k hs m slots \<longleftrightarrow> length slots = 2 ^ k \<and>
     (\<forall>i<2 ^ k. slots ! i \<noteq> 0 \<longrightarrow> (\<exists>v<m. slots ! i = of_nat v + 1)) \<and>
     (\<forall>v<m. \<exists>j<2 ^ k. slots ! ((unat (hs ! v) + j) mod 2 ^ k) = of_nat v + 1 \<and>
        (\<forall>j'<j. slots ! ((unat (hs ! v) + j') mod 2 ^ k) \<noteq> 0)) \<and>
     card {i. i < 2 ^ k \<and> slots ! i \<noteq> 0} \<le> m"

lemma slots_holdD:
  assumes "slots_hold k hs m slots"
  shows "length slots = 2 ^ k"
    "i < 2 ^ k \<Longrightarrow> slots ! i \<noteq> 0 \<Longrightarrow> \<exists>v<m. slots ! i = of_nat v + 1"
    "v < m \<Longrightarrow> \<exists>j<2 ^ k. slots ! ((unat (hs ! v) + j) mod 2 ^ k) = of_nat v + 1 \<and>
        (\<forall>j'<j. slots ! ((unat (hs ! v) + j') mod 2 ^ k) \<noteq> 0)"
    "card {i. i < 2 ^ k \<and> slots ! i \<noteq> 0} \<le> m"
  using assms unfolding slots_hold_def by blast+

lemma slots_hold_empty: "slots_hold k hs 0 (replicate (2 ^ k) 0)"
  by (simp add: slots_hold_def)

lemma slots_hold_hashes:
  "(\<And>v. v < m \<Longrightarrow> hs' ! v = hs ! v) \<Longrightarrow> slots_hold k hs m slots \<Longrightarrow> slots_hold k hs' m slots"
  unfolding slots_hold_def by simp

lemma slots_hold_free:
  assumes "slots_hold k hs m slots" "m < 2 ^ k"
  obtains p where "p < 2 ^ k" "slots ! p = 0"
proof (rule ccontr)
  assume c: "\<not> thesis"
  have "{i. i < 2 ^ k \<and> slots ! i \<noteq> 0} = {..<2 ^ k}" using c that by auto
  then show False using assms by (simp add: slots_hold_def)
qed

lemma of_nat_succ_eq:
  assumes "v < 2 ^ 32" "w < 2 ^ 32" "(of_nat v + 1 :: u32) = of_nat w + 1"
  shows "v = w"
proof -
  have "(of_nat v :: u32) = of_nat w" using assms(3) by simp
  moreover have "unat (of_nat v :: u32) = v" "unat (of_nat w :: u32) = w"
    using assms(1,2) by (auto intro!: unat_of_nat_small)
  ultimately show ?thesis by metis
qed

lemma of_nat_succ_nonzero: "v < 2 ^ 32 - 1 \<Longrightarrow> (of_nat v + 1 :: u32) \<noteq> 0"
proof
  assume v: "v < 2 ^ 32 - 1" and e: "(of_nat v + 1 :: u32) = 0"
  have "unat (of_nat (Suc v) :: u32) = Suc v" using v by (intro unat_of_nat_small) simp
  then show False using e by (simp add: add.commute)
qed

lemma slots_hold_insert:
  assumes ok: "slots_hold k hs m slots" and m: "m < 2 ^ 32 - 1"
    and j: "j < 2 ^ k" "slots ! ((unat (hs ! m) + j) mod 2 ^ k) = 0"
      "\<And>i. i < j \<Longrightarrow> slots ! ((unat (hs ! m) + i) mod 2 ^ k) \<noteq> 0"
  shows "slots_hold k hs (m + 1) (slots[(unat (hs ! m) + j) mod 2 ^ k := of_nat m + 1])"
proof -
  let ?p = "(unat (hs ! m) + j) mod 2 ^ k" and ?w = "of_nat m + 1 :: u32"
  have len: "length slots = 2 ^ k" using ok by (simp add: slots_hold_def)
  have p: "?p < length slots" by (simp add: len)
  have nz: "?w \<noteq> 0" using of_nat_succ_nonzero [OF m] .
  have keep: "slots[?p := ?w] ! i = slots ! i" if "slots ! i \<noteq> 0" for i
    using that j(2) by (cases "i = ?p") auto
  have used: "\<forall>i<2 ^ k. slots[?p := ?w] ! i \<noteq> 0 \<longrightarrow> (\<exists>v<m + 1. slots[?p := ?w] ! i = of_nat v + 1)"
  proof (intro allI impI)
    fix i :: nat assume i: "i < 2 ^ k" "slots[?p := ?w] ! i \<noteq> 0"
    show "\<exists>v<m + 1. slots[?p := ?w] ! i = of_nat v + 1"
    proof (cases "i = ?p")
      case True then show ?thesis using p by (intro exI [of _ m]) simp
    next
      case False
      then obtain v where "v < m" "slots ! i = of_nat v + 1"
        using slots_holdD(2) [OF ok, of i] i by auto
      then show ?thesis using False by (intro exI [of _ v]) simp
    qed
  qed
  have met: "\<forall>v<m + 1. \<exists>j<2 ^ k. slots[?p := ?w] ! ((unat (hs ! v) + j) mod 2 ^ k) = of_nat v + 1 \<and>
      (\<forall>j'<j. slots[?p := ?w] ! ((unat (hs ! v) + j') mod 2 ^ k) \<noteq> 0)"
  proof (intro allI impI)
    fix v assume v: "v < m + 1"
    show "\<exists>j<2 ^ k. slots[?p := ?w] ! ((unat (hs ! v) + j) mod 2 ^ k) = of_nat v + 1 \<and>
      (\<forall>j'<j. slots[?p := ?w] ! ((unat (hs ! v) + j') mod 2 ^ k) \<noteq> 0)"
    proof (cases "v = m")
      case True
      have "\<forall>j'<j. slots[?p := ?w] ! ((unat (hs ! m) + j') mod 2 ^ k) \<noteq> 0"
        using j(3) keep by simp
      then show ?thesis using p j(1) True by (intro exI [of _ j]) simp
    next
      case False
      then obtain i where i: "i < 2 ^ k" "slots ! ((unat (hs ! v) + i) mod 2 ^ k) = of_nat v + 1"
        "\<forall>j'<i. slots ! ((unat (hs ! v) + j') mod 2 ^ k) \<noteq> 0"
        using slots_holdD(3) [OF ok, of v] v False by auto
      have "(of_nat v + 1 :: u32) \<noteq> 0" using v m by (intro of_nat_succ_nonzero) simp
      then show ?thesis using i keep by (intro exI [of _ i]) simp
    qed
  qed
  have "{i. i < 2 ^ k \<and> slots[?p := ?w] ! i \<noteq> 0} \<subseteq> insert ?p {i. i < 2 ^ k \<and> slots ! i \<noteq> 0}"
    by (auto simp: nth_list_update split: if_splits)
  then have "card {i. i < 2 ^ k \<and> slots[?p := ?w] ! i \<noteq> 0} \<le> card (insert ?p {i. i < 2 ^ k \<and> slots ! i \<noteq> 0})"
    by (intro card_mono) simp_all
  also have "\<dots> \<le> Suc (card {i. i < 2 ^ k \<and> slots ! i \<noteq> 0})" by (rule card_insert_le_m1) simp_all
  also have "\<dots> \<le> m + 1" using ok by (simp add: slots_hold_def)
  finally show ?thesis using used met len unfolding slots_hold_def by simp
qed

lemma free_slot_finds:
  assumes ok: "slots_hold k hs m slots" and m: "m < 2 ^ k" "m < 2 ^ 32 - 1" and h: "hs ! m = h"
  shows "\<exists>p. free_slot slots h = Some p \<and> slots_hold k hs (m + 1) (slots[p := of_nat m + 1])"
proof -
  obtain q where q: "q < 2 ^ k" "slots ! q = 0" using slots_hold_free [OF ok m(1)] .
  have len: "length slots = 2 ^ k" using ok by (simp add: slots_hold_def)
  obtain j where "j < 2 ^ k" "slots ! ((unat h + j) mod 2 ^ k) = 0"
    "\<And>i. i < j \<Longrightarrow> slots ! ((unat h + i) mod 2 ^ k) \<noteq> 0"
    "walk (2 ^ k) (\<lambda>i. slots ! i = 0) (2 ^ k - 1) (unat h mod 2 ^ k) = Some ((unat h + j) mod 2 ^ k)"
    using walk_total [of q k "\<lambda>i. slots ! i = 0" "unat h"] q by metis
  then show ?thesis
    using slots_hold_insert [OF ok m(2), of j] h by (simp only: free_slot_def len nat_and_mask) blast
qed

lemma place_ids_total:
  assumes "slots_hold k hs m slots" "drop m hs = gs" "length hs < 2 ^ k" "length hs < 2 ^ 32 - 1"
    "m \<le> length hs"
  shows "\<exists>slots'. place_ids gs m slots = Some slots' \<and> slots_hold k hs (length hs) slots'"
  using assms
proof (induction gs arbitrary: m slots)
  case Nil
  then have "m = length hs" by simp
  then show ?case using Nil by simp
next
  case (Cons g gs)
  then have m: "m < length hs" by (metis drop_all list.discI not_less)
  have g: "hs ! m = g" using Cons.prems(2) m by (metis Cons_nth_drop_Suc list.sel(1))
  have d: "drop (m + 1) hs = gs" using Cons.prems(2) m by (metis Cons_nth_drop_Suc Suc_eq_plus1 list.sel(3))
  obtain p where p: "free_slot slots g = Some p" "slots_hold k hs (m + 1) (slots[p := of_nat m + 1])"
    using free_slot_finds [OF Cons.prems(1) _ _ g] m Cons.prems by auto
  then show ?case using Cons.IH [OF p(2) d] m Cons.prems by simp
qed

text \<open>A table of distinct strings, their hashes, and at most half as many as slots.\<close>

definition table_ok :: "(string \<Rightarrow> u64) \<Rightarrow> string_table \<Rightarrow> bool" where
  "table_ok H t \<longleftrightarrow> distinct (tb_strings t) \<and> tb_hashes t = map H (tb_strings t) \<and>
     (if tb_slots t = [] then tb_strings t = []
      else \<exists>k. slots_hold k (tb_hashes t) (length (tb_strings t)) (tb_slots t) \<and>
        length (tb_strings t) * 2 \<le> 2 ^ k)"

definition room :: "string_table \<Rightarrow> nat \<Rightarrow> bool" where
  "room t k \<longleftrightarrow> slots_hold k (tb_hashes t) (length (tb_strings t)) (tb_slots t) \<and>
     (length (tb_strings t) + 1) * 2 \<le> 2 ^ k"

lemma slot_id: "v < 2 ^ 32 - 1 \<Longrightarrow> unat (of_nat v + 1 - 1 :: u32) = v"
  by (simp add: unat_of_nat_small)

lemma holds_string_iff:
  assumes "tb_hashes t = map H (tb_strings t)" "v < length (tb_strings t)" "v < 2 ^ 32 - 1"
    "tb_slots t ! i = of_nat v + 1"
  shows "holds_string t (H s) s i \<longleftrightarrow> tb_strings t ! v = s"
  using assms by (auto simp: holds_string_def Let_def unat_of_nat_small)

lemma grow_ok:
  assumes ok: "table_ok H t" and n: "length (tb_strings t) < 2 ^ 32 - 1"
  shows "\<exists>t' k. grow t = Some t' \<and> tb_strings t' = tb_strings t \<and> tb_hashes t' = tb_hashes t \<and> room t' k"
proof -
  have hs: "tb_hashes t = map H (tb_strings t)" using ok by (simp add: table_ok_def)
  obtain k where k: "(if tb_slots t = [] then 64 else length (tb_slots t) * 2) = 2 ^ k"
    "(length (tb_strings t) + 1) * 2 \<le> 2 ^ k"
  proof (cases "tb_slots t = []")
    case True
    then show ?thesis using ok that [of 6] by (simp add: table_ok_def)
  next
    case False
    then obtain k where k: "slots_hold k (tb_hashes t) (length (tb_strings t)) (tb_slots t)"
      "length (tb_strings t) * 2 \<le> 2 ^ k"
      using ok by (auto simp: table_ok_def)
    have "(1 :: nat) \<le> 2 ^ k" by simp
    then have "length (tb_strings t) + 1 \<le> 2 ^ k" using k(2) by linarith
    then show ?thesis using that [of "Suc k"] False slots_holdD(1) [OF k(1)] by simp
  qed
  have "\<exists>slots. place_ids (tb_hashes t) 0 (replicate (2 ^ k) 0) = Some slots \<and>
      slots_hold k (tb_hashes t) (length (tb_hashes t)) slots"
    by (rule place_ids_total [OF slots_hold_empty]) (use k(2) n hs in simp_all)
  then show ?thesis using k hs by (auto simp: grow_def room_def)
qed

lemma intern_in_ok:
  assumes d: "distinct (tb_strings t)" and hs: "tb_hashes t = map H (tb_strings t)"
    and r: "room t k" and n: "length (tb_strings t) < 2 ^ 32 - 1"
  shows "\<exists>i t'. intern_in (H s) s t = Some (i, t') \<and> table_ok H t' \<and> unat i < length (tb_strings t') \<and>
    tb_strings t' ! unat i = s \<and>
    tb_strings t' = (if s \<in> set (tb_strings t) then tb_strings t else tb_strings t @ [s])"
proof -
  let ?n = "length (tb_strings t)" and ?a = "unat (H s)"
  have ok: "slots_hold k (tb_hashes t) ?n (tb_slots t)" and h: "(?n + 1) * 2 \<le> 2 ^ k"
    using r by (simp_all add: room_def)
  note len = slots_holdD(1) [OF ok]
  define stop where "stop = (\<lambda>i. tb_slots t ! i = 0 \<or> holds_string t (H s) s i)"
  obtain q where "q < 2 ^ k" "tb_slots t ! q = 0" using slots_hold_free [OF ok] h by auto
  then obtain j where j: "j < 2 ^ k" "stop ((?a + j) mod 2 ^ k)"
    "\<And>i. i < j \<Longrightarrow> \<not> stop ((?a + i) mod 2 ^ k)"
    "walk (2 ^ k) stop (2 ^ k - 1) (?a mod 2 ^ k) = Some ((?a + j) mod 2 ^ k)"
    using walk_total [of q k stop ?a] by (auto simp: stop_def)
  let ?p = "(?a + j) mod 2 ^ k"
  have p: "?p < 2 ^ k" by simp
  have probe: "probe t (H s) s = Some ?p"
    using j(4) unfolding probe_def len nat_and_mask stop_def .
  have id: "\<exists>v<?n. tb_slots t ! i = of_nat v + 1 \<and> (holds_string t (H s) s i \<longleftrightarrow> tb_strings t ! v = s)"
    if "i < 2 ^ k" "tb_slots t ! i \<noteq> 0" for i
  proof -
    have "\<exists>v<?n. tb_slots t ! i = of_nat v + 1" by (rule slots_holdD(2) [OF ok that])
    then obtain v where v: "v < ?n" "tb_slots t ! i = of_nat v + 1" by blast
    then have "holds_string t (H s) s i \<longleftrightarrow> tb_strings t ! v = s"
      using holds_string_iff [OF hs, of v i s] n by auto
    then show ?thesis using v by blast
  qed
  show ?thesis
  proof (cases "s \<in> set (tb_strings t)")
    case True
    then obtain v where v: "v < ?n" "tb_strings t ! v = s" by (auto simp: in_set_conv_nth)
    have hv: "tb_hashes t ! v = H s" using v hs by simp
    obtain i where i: "i < 2 ^ k" "tb_slots t ! ((?a + i) mod 2 ^ k) = of_nat v + 1"
      "\<forall>j'<i. tb_slots t ! ((?a + j') mod 2 ^ k) \<noteq> 0"
      using slots_holdD(3) [OF ok v(1)] hv by auto
    have nz: "(of_nat v + 1 :: u32) \<noteq> 0" using v n by (intro of_nat_succ_nonzero) simp
    have "stop ((?a + i) mod 2 ^ k)"
      using holds_string_iff [OF hs v(1) _ i(2), of s] v n by (simp add: stop_def)
    then have "j \<le> i" using j(3) [of i] by (metis not_le)
    then have used: "tb_slots t ! ?p \<noteq> 0" using i nz by (cases "j = i") auto
    then have "holds_string t (H s) s ?p" using j(2) by (simp add: stop_def)
    then obtain w where w: "w < ?n" "tb_slots t ! ?p = of_nat w + 1" "tb_strings t ! w = s"
      using id [OF p used] by blast
    have "table_ok H t"
      using d hs ok h len by (auto simp: table_ok_def)
    then show ?thesis
      using True w used n slot_id [of w] by (simp add: intern_in_def probe)
  next
    case False
    have "tb_slots t ! ?p = 0"
    proof (rule ccontr)
      assume u: "tb_slots t ! ?p \<noteq> 0"
      then have "holds_string t (H s) s ?p" using j(2) by (simp add: stop_def)
      then show False using id [OF p u] False by (auto simp: in_set_conv_nth)
    qed
    moreover have "slots_hold k (tb_hashes t @ [H s]) (?n + 1) ((tb_slots t)[?p := of_nat ?n + 1])"
    proof -
      have ok2: "slots_hold k (tb_hashes t @ [H s]) ?n (tb_slots t)"
        by (rule slots_hold_hashes [OF _ ok]) (simp add: hs nth_append)
      have hn: "(tb_hashes t @ [H s]) ! ?n = H s" using hs by (simp add: nth_append)
      from slots_hold_insert [OF ok2 n j(1)] show ?thesis
        using \<open>tb_slots t ! ?p = 0\<close> j(3) unfolding hn stop_def by blast
    qed
    moreover have "unat (of_nat ?n :: u32) = ?n" using n by (intro unat_of_nat_small) simp
    moreover have "tb_slots t \<noteq> []" using len by auto
    ultimately show ?thesis
      using False d hs h by (auto simp: intern_in_def probe table_ok_def nth_append Let_def)
  qed
qed

lemma intern_ok:
  assumes ok: "table_ok H t" and n: "length (tb_strings t) < 2 ^ 32 - 1"
  shows "\<exists>i t'. intern H s t = Some (i, t') \<and> table_ok H t' \<and> unat i < length (tb_strings t') \<and>
    tb_strings t' ! unat i = s \<and>
    tb_strings t' = (if s \<in> set (tb_strings t) then tb_strings t else tb_strings t @ [s])"
proof -
  have dh: "distinct (tb_strings t)" "tb_hashes t = map H (tb_strings t)"
    using ok by (simp_all add: table_ok_def)
  let ?full = "tb_slots t = [] \<or> length (tb_slots t) < (length (tb_strings t) + 1) * 2"
  show ?thesis
  proof (cases ?full)
    case True
    obtain t' k where g: "grow t = Some t'" "tb_strings t' = tb_strings t" "tb_hashes t' = tb_hashes t"
      "room t' k"
      using grow_ok [OF ok n] by blast
    have "distinct (tb_strings t')" "tb_hashes t' = map H (tb_strings t')"
      "length (tb_strings t') < 2 ^ 32 - 1"
      using g dh n by simp_all
    from intern_in_ok [OF this(1,2) g(4) this(3), of s]
    show ?thesis unfolding intern_def if_P [OF True] g(1) option.case g(2) .
  next
    case False
    then obtain k where "slots_hold k (tb_hashes t) (length (tb_strings t)) (tb_slots t)"
      using ok by (auto simp: table_ok_def)
    then have "room t k" using False slots_holdD(1) by (fastforce simp: room_def)
    from intern_in_ok [OF dh this n, of s] show ?thesis unfolding intern_def if_not_P [OF False] by simp
  qed
qed

lemma table_ok_empty: "table_ok H empty_table"
  by (simp add: table_ok_def empty_table_def)

section \<open>The contract\<close>

text \<open>
  What its users rely on: a string has one id from its first use on, and the id gives it back.
\<close>

locale interner =
  fixes put :: "string \<Rightarrow> 't \<Rightarrow> (u32 \<times> 't) option"
    and strings :: "'t \<Rightarrow> string list"
    and ok :: "'t \<Rightarrow> bool"
  assumes put: "ok t \<Longrightarrow> length (strings t) < 2 ^ 32 - 1 \<Longrightarrow>
      \<exists>i t'. put s t = Some (i, t') \<and> ok t' \<and> unat i < length (strings t') \<and>
        strings t' ! unat i = s \<and>
        strings t' = (if s \<in> set (strings t) then strings t else strings t @ [s])"
    and distinct_strings: "ok t \<Longrightarrow> distinct (strings t)"
begin

definition names :: "'t \<Rightarrow> u32 \<Rightarrow> string \<Rightarrow> bool" where
  "names t i s \<longleftrightarrow> unat i < length (strings t) \<and> strings t ! unat i = s"

fun put_all :: "string list \<Rightarrow> 't \<Rightarrow> (u32 list \<times> 't) option" where
  "put_all [] t = Some ([], t)"
| "put_all (s # ss) t =
     (case put s t of
        None \<Rightarrow> None
      | Some (i, t') \<Rightarrow>
          (case put_all ss t' of None \<Rightarrow> None | Some (is, t'') \<Rightarrow> Some (i # is, t'')))"

lemma names_unique: "ok t \<Longrightarrow> names t i s \<Longrightarrow> names t j s' \<Longrightarrow> i = j \<longleftrightarrow> s = s'"
  using distinct_strings [of t] by (auto simp: names_def nth_eq_iff_index_eq word_unat_eq_iff)

lemma names_stable: "names t i s \<Longrightarrow> prefix (strings t) (strings t') \<Longrightarrow> names t' i s"
  by (auto simp: names_def prefix_def nth_append)

lemma put_names:
  assumes "ok t" "length (strings t) < 2 ^ 32 - 1" "put s t = Some (i, t')"
  shows "ok t'" "names t' i s" "prefix (strings t) (strings t')" "set (strings t') = insert s (set (strings t))"
    "length (strings t') \<le> length (strings t) + 1"
proof -
  obtain j u where u: "put s t = Some (j, u)"
    and q: "ok u" "unat j < length (strings u)" "strings u ! unat j = s"
      "strings u = (if s \<in> set (strings t) then strings t else strings t @ [s])"
    using put [OF assms(1,2), of s] by blast
  have e: "j = i" "u = t'" using u assms(3) by simp_all
  note p = q [unfolded e]
  then show "ok t'" "names t' i s" by (simp_all add: names_def)
  show "prefix (strings t) (strings t')" "set (strings t') = insert s (set (strings t))"
    "length (strings t') \<le> length (strings t) + 1"
    by (auto simp: p(4))
qed

lemma put_some:
  assumes "ok t" "length (strings t) < 2 ^ 32 - 1"
  obtains i t' where "put s t = Some (i, t')"
  using put [OF assms, of s] by blast

lemma put_all_names:
  assumes "ok t" "length (strings t) + length ss \<le> 2 ^ 32 - 1"
  shows "\<exists>is t'. put_all ss t = Some (is, t') \<and> ok t' \<and> list_all2 (names t') is ss \<and>
    prefix (strings t) (strings t') \<and> set (strings t') = set (strings t) \<union> set ss"
  using assms
proof (induction ss arbitrary: t)
  case (Cons s ss)
  then have l: "length (strings t) < 2 ^ 32 - 1" by simp
  obtain i t1 where p: "put s t = Some (i, t1)" using put_some [OF Cons.prems(1) l] .
  note q = put_names [OF Cons.prems(1) l p]
  have "length (strings t1) + length ss \<le> 2 ^ 32 - 1" using q(5) Cons.prems(2) by simp
  from Cons.IH [OF q(1) this] obtain "is" t' where r: "put_all ss t1 = Some (is, t')" "ok t'"
    "list_all2 (names t') is ss" "prefix (strings t1) (strings t')"
    "set (strings t') = set (strings t1) \<union> set ss" by blast
  have "prefix (strings t) (strings t')" using q(3) r(4) by (rule prefix_order.order_trans)
  then show ?case using p r names_stable [OF q(2) r(4)] q(4) by auto
qed simp

end

interpretation tab: interner "intern H" tb_strings "table_ok H" for H
proof
  show "table_ok H t \<Longrightarrow> length (tb_strings t) < 2 ^ 32 - 1 \<Longrightarrow>
      \<exists>i t'. intern H s t = Some (i, t') \<and> table_ok H t' \<and> unat i < length (tb_strings t') \<and>
        tb_strings t' ! unat i = s \<and>
        tb_strings t' = (if s \<in> set (tb_strings t) then tb_strings t else tb_strings t @ [s])" for t s
    by (rule intern_ok)
  show "table_ok H t \<Longrightarrow> distinct (tb_strings t)" for t by (simp add: table_ok_def)
qed

text \<open>Interning a list of strings from an empty table.\<close>

fun intern_all :: "(string \<Rightarrow> u64) \<Rightarrow> string list \<Rightarrow> string_table \<Rightarrow> (u32 list \<times> string_table) option" where
  "intern_all H [] t = Some ([], t)"
| "intern_all H (s # ss) t =
     (case intern H s t of
        None \<Rightarrow> None
      | Some (i, t') \<Rightarrow>
          (case intern_all H ss t' of None \<Rightarrow> None | Some (is, t'') \<Rightarrow> Some (i # is, t'')))"

lemma intern_all_eq: "intern_all H ss t = tab.put_all H ss t"
  by (induction ss arbitrary: t) (simp_all split: option.splits prod.splits)

text \<open>
  C15: Whatever the hash function, and through every doubling of the table, interning a sequence
  of fewer than 2 to the 32 strings always returns; every id gives its string back for the
  lifetime of the table, two ids are equal exactly when the strings are, and the table holds
  those strings and no others.
\<close>

theorem interned_ids_identify_strings:
  assumes "length ss < 2 ^ 32 - 1"
  shows "\<exists>is t. intern_all H ss empty_table = Some (is, t) \<and> length is = length ss \<and>
    (\<forall>a < length ss. at_id t (is ! a) = ss ! a) \<and>
    (\<forall>a < length ss. \<forall>b < length ss. is ! a = is ! b \<longleftrightarrow> ss ! a = ss ! b) \<and>
    set (tb_strings t) = set ss"
proof -
  have "length (tb_strings empty_table) + length ss \<le> 2 ^ 32 - 1"
    using assms by (simp add: empty_table_def)
  from tab.put_all_names [OF table_ok_empty this] obtain "is" t where
    r: "tab.put_all H ss empty_table = Some (is, t)" "table_ok H t" "list_all2 (tab.names t) is ss"
    "set (tb_strings t) = set (tb_strings empty_table) \<union> set ss" by blast
  have l: "length is = length ss" using list_all2_lengthD [OF r(3)] .
  have n: "tab.names t (is ! a) (ss ! a)" if "a < length ss" for a
    using list_all2_nthD [OF r(3)] that l by simp
  show ?thesis
    using r(1,4) l n tab.names_unique [OF r(2) n n]
    by (auto simp: intern_all_eq at_id_def tab.names_def empty_table_def)
qed

theorem interned_ids_identify_strings_witness:
  "\<exists>is t. intern_all (\<lambda>s. of_nat (length s)) [''read'', ''dur'', ''open'', ''read''] empty_table = Some (is, t) \<and>
    is ! 0 = is ! 3 \<and> is ! 0 \<noteq> is ! 2"
proof -
  obtain "is" t where "intern_all (\<lambda>s. of_nat (length s)) [''read'', ''dur'', ''open'', ''read''] empty_table = Some (is, t)"
    and "\<forall>a<4. \<forall>b<4. is ! a = is ! b \<longleftrightarrow>
      [''read'', ''dur'', ''open'', ''read''] ! a = [''read'', ''dur'', ''open'', ''read''] ! b"
    using interned_ids_identify_strings [of "[''read'', ''dur'', ''open'', ''read'']" "\<lambda>s. of_nat (length s)"]
    by auto
  then show ?thesis by force
qed

end
