(* ===== verification/Packed_Aggregator.thy ===== *)
theory Packed_Aggregator
  imports Rules Json_Line String_Table
begin

text \<open>
  Aggregation of the service's packed events: \<open>PackedAggregator\<close> of
  \<open>core/aggregator/packed_aggregator.{h,cpp}\<close>. Category, names and keys are ids of one
  \<open>StringTable\<close>, string values of key fields ids of a table per interval; a bucket is found
  through its signature, a hash of its key, and a chain of the buckets with that signature.

  \<open>Aggregation\<close> proves that this computes a group-by. The hash of strings and the arithmetic
  on doubles are parameters; \<open>None\<close> is a loop that does not end, which \<open>Aggregation\<close> excludes.
\<close>

section \<open>Numbers\<close>

text \<open>The union \<open>Number\<close> is its 64 bits, read by the tag of the field.\<close>

record double_math = doubles +
  dbl_add :: "u64 \<Rightarrow> u64 \<Rightarrow> u64"
  dbl_of_int :: "u64 \<Rightarrow> u64"
  dbl_of_uint :: "u64 \<Rightarrow> u64"
  dbl_to_int :: "u64 \<Rightarrow> u64"
  dbl_to_uint :: "u64 \<Rightarrow> u64"
  dbl_interval :: "TimeMetricType \<Rightarrow> u64 \<Rightarrow> u64"  \<comment> \<open>milliseconds in units of the metric\<close>

definition is_number :: "byte \<Rightarrow> bool" where
  "is_number tag \<longleftrightarrow> tag = SHM_VALUE_INT \<or> tag = SHM_VALUE_UINT \<or> tag = SHM_VALUE_DOUBLE"

definition number_of :: "decoded_value \<Rightarrow> u64" where
  "number_of v = (if dv_tag v = SHM_VALUE_INT then dv_i v
     else if dv_tag v = SHM_VALUE_UINT then dv_u v else dv_d v)"

text \<open>The number \<open>v\<close> of type \<open>tag\<close> as one of the accumulator's type.\<close>

definition convert_number :: "'a double_math_scheme \<Rightarrow> byte \<Rightarrow> byte \<Rightarrow> u64 \<Rightarrow> u64" where
  "convert_number D to_tag tag v =
     (let d = (if tag = SHM_VALUE_DOUBLE then v
         else if tag = SHM_VALUE_INT then dbl_of_int D v else dbl_of_uint D v)
      in if to_tag = tag then v
         else if to_tag = SHM_VALUE_DOUBLE then d
         else if to_tag = SHM_VALUE_INT
           then (if tag = SHM_VALUE_UINT then v else dbl_to_int D d)
         else (if tag = SHM_VALUE_INT then v else dbl_to_uint D d))"

definition add_number :: "'a double_math_scheme \<Rightarrow> byte \<Rightarrow> u64 \<Rightarrow> u64 \<Rightarrow> u64" where
  "add_number D tag a b =
     (if tag = SHM_VALUE_INT \<or> tag = SHM_VALUE_UINT then a + b else dbl_add D a b)"

definition less_number :: "'a double_math_scheme \<Rightarrow> byte \<Rightarrow> u64 \<Rightarrow> u64 \<Rightarrow> bool" where
  "less_number D tag a b =
     (if tag = SHM_VALUE_INT then sint a < sint b
      else if tag = SHM_VALUE_UINT then a < b else dbl_lt D a b)"

definition min_number :: "'a double_math_scheme \<Rightarrow> byte \<Rightarrow> u64 \<Rightarrow> u64 \<Rightarrow> u64" where
  "min_number D tag a b = (if less_number D tag b a then b else a)"

definition max_number :: "'a double_math_scheme \<Rightarrow> byte \<Rightarrow> u64 \<Rightarrow> u64 \<Rightarrow> u64" where
  "max_number D tag a b = (if less_number D tag a b then b else a)"

section \<open>State\<close>

record key_field =
  kf_key :: u32
  kf_tag :: byte
  kf_v :: u64

text \<open>\<open>'k\<close> is the id of a key; in the abstract table of \<open>Aggregation\<close> it is the key itself.\<close>

record 'k accumulator =
  ac_key :: 'k
  ac_tag :: byte
  ac_count :: u64
  ac_sum :: u64
  ac_min :: u64
  ac_max :: u64

record bucket =
  bk_category :: u32
  bk_name :: u32
  bk_type :: byte
  bk_thread_id :: u64
  bk_signature :: u64
  bk_keys_at :: u32
  bk_keys_count :: u32
  bk_next :: u32
  bk_count :: u64
  bk_values :: "u32 accumulator list"

record interval =
  iv_buckets :: "bucket list"
  iv_keys :: "key_field list"
  iv_by_signature :: "u64 \<Rightarrow> u32 option"
  iv_key_strings :: string_table

record packed_aggregator =
  pa_rules :: rule_set
  pa_cached_interval :: u64
  pa_last_interval :: u64
  pa_is_first :: bool
  pa_dur_key :: u32
  pa_names :: string_table
  pa_intervals :: "(u64 \<times> interval) list"  \<comment> \<open>a \<open>std::map\<close>: by ascending key\<close>

definition empty_interval :: interval where
  "empty_interval = \<lparr>iv_buckets = [], iv_keys = [], iv_by_signature = (\<lambda>_. None),
     iv_key_strings = empty_table\<rparr>"

definition interval_of :: "u64 \<Rightarrow> (u64 \<times> interval) list \<Rightarrow> interval" where
  "interval_of ts ivs = (case map_of ivs ts of None \<Rightarrow> empty_interval | Some iv \<Rightarrow> iv)"

fun put_interval :: "u64 \<Rightarrow> interval \<Rightarrow> (u64 \<times> interval) list \<Rightarrow> (u64 \<times> interval) list" where
  "put_interval ts iv [] = [(ts, iv)]"
| "put_interval ts iv ((t, x) # ivs) =
     (if ts < t then (ts, iv) # (t, x) # ivs
      else if ts = t then (ts, iv) # ivs else (t, x) # put_interval ts iv ivs)"

definition new_aggregator ::
  "'a double_math_scheme \<Rightarrow> (string \<Rightarrow> u64) \<Rightarrow> string list \<Rightarrow> string list \<Rightarrow> TimeMetricType \<Rightarrow> u64
     \<Rightarrow> packed_aggregator option" where
  "new_aggregator D H incl excl metric trace_interval_ms =
     (let c = dbl_interval D metric trace_interval_ms in
      case intern H ''dur'' empty_table of
        None \<Rightarrow> None
      | Some (dur, names) \<Rightarrow>
          Some \<lparr>pa_rules = read_rules (doubles.truncate D) incl excl,
            pa_cached_interval = (if c = 0 then 1 else c), pa_last_interval = 0, pa_is_first = True,
            pa_dur_key = dur, pa_names = names, pa_intervals = []\<rparr>)"

section \<open>Rules\<close>

text \<open>\<open>EventTags::tag\<close>.\<close>

fun event_tag :: "doubles \<Rightarrow> decoded_value list \<Rightarrow> string \<Rightarrow> string" where
  "event_tag D [] key = []"
| "event_tag D (v # vs) key =
     (if dv_key v \<noteq> key then event_tag D vs key
      else if dv_tag v = SHM_VALUE_INT then show_i64 (dv_i v)
      else if dv_tag v = SHM_VALUE_UINT then show_u64 (dv_u v)
      else if dv_tag v = SHM_VALUE_DOUBLE then dbl_show D (dv_d v)
      else if dv_tag v = SHM_VALUE_STRING then dv_s v
      else [])"

definition event_rule_key ::
  "doubles \<Rightarrow> decoded_event \<Rightarrow> string option \<Rightarrow> u32 option \<Rightarrow> aggregated_key" where
  "event_rule_key D e app rank =
     \<lparr>ak_category = de_category e, ak_event_name = de_name e, ak_type = eh_type (de_head e),
      ak_time_interval = eh_start_time (de_head e), ak_thread_id = eh_thread_id (de_head e),
      ak_additional_keys = None, ak_duration = eh_duration (de_head e), ak_app_name = app,
      ak_rank = rank, ak_tag_source = Some (event_tag D (de_values e))\<rparr>"

definition packed_should_aggregate ::
  "doubles \<Rightarrow> packed_aggregator \<Rightarrow> decoded_event \<Rightarrow> string option \<Rightarrow> u32 option \<Rightarrow> bool option" where
  "packed_should_aggregate D st e app rank =
     should_aggregate D (pa_rules st) (event_rule_key D e app rank)"

section \<open>Folding a value\<close>

fun fold_number ::
  "'a double_math_scheme \<Rightarrow> 'k accumulator list \<Rightarrow> 'k \<Rightarrow> byte \<Rightarrow> u64 \<Rightarrow> 'k accumulator list" where
  "fold_number D [] key tag v =
     [\<lparr>ac_key = key, ac_tag = tag, ac_count = 1, ac_sum = v, ac_min = v, ac_max = v\<rparr>]"
| "fold_number D (a # accs) key tag v =
     (if ac_key a \<noteq> key then a # fold_number D accs key tag v
      else
        (let n = convert_number D (ac_tag a) tag v in
         a\<lparr>ac_count := ac_count a + 1, ac_sum := add_number D (ac_tag a) (ac_sum a) n,
           ac_min := min_number D (ac_tag a) (ac_min a) n,
           ac_max := max_number D (ac_tag a) (ac_max a) n\<rparr> # accs))"

section \<open>Finding the bucket of an event\<close>

definition mix :: "u64 \<Rightarrow> u64 \<Rightarrow> u64" where
  "mix h v = xor h (v + 0x9e3779b97f4a7c15 + push_bit 6 h + drop_bit 2 h)"

text \<open>The key fields of an event, and the tables with what they intern.\<close>

definition key_number ::
  "(string \<Rightarrow> u64) \<Rightarrow> decoded_value \<Rightarrow> string_table \<Rightarrow> (u64 \<times> string_table) option" where
  "key_number H v ks =
     (if is_number (dv_tag v) then Some (number_of v, ks)
      else (case intern H (dv_s v) ks of None \<Rightarrow> None | Some (i, ks') \<Rightarrow> Some (ucast i, ks')))"

fun scan_keys ::
  "(string \<Rightarrow> u64) \<Rightarrow> decoded_value list \<Rightarrow> string_table \<Rightarrow> string_table
     \<Rightarrow> (key_field list \<times> string_table \<times> string_table) option" where
  "scan_keys H [] nm ks = Some ([], nm, ks)"
| "scan_keys H (v # vs) nm ks =
     (if dv_mtype v \<noteq> metadata_type_code MT_KEY then scan_keys H vs nm ks
      else do {
        (k, nm) \<leftarrow> intern H (dv_key v) nm;
        (x, ks) \<leftarrow> key_number H v ks;
        (fs, nm, ks) \<leftarrow> scan_keys H vs nm ks;
        Some (\<lparr>kf_key = k, kf_tag = dv_tag v, kf_v = x\<rparr> # fs, nm, ks) })"

definition signature :: "u32 \<Rightarrow> u32 \<Rightarrow> byte \<Rightarrow> u64 \<Rightarrow> key_field list \<Rightarrow> u64" where
  "signature category name ty tid fs =
     foldl (\<lambda>sig f. mix (mix (mix sig (ucast (kf_key f))) (ucast (kf_tag f))) (kf_v f))
       (mix (mix (mix (ucast category) (ucast name)) (ucast ty)) tid) fs"

definition bucket_keys :: "interval \<Rightarrow> bucket \<Rightarrow> key_field list" where
  "bucket_keys iv b = take (unat (bk_keys_count b)) (drop (unat (bk_keys_at b)) (iv_keys iv))"

definition same_keys :: "interval \<Rightarrow> bucket \<Rightarrow> key_field list \<Rightarrow> bool" where
  "same_keys iv b fs \<longleftrightarrow> unat (bk_keys_count b) = length fs \<and> bucket_keys iv b = fs"

definition same_bucket ::
  "interval \<Rightarrow> bucket \<Rightarrow> u64 \<Rightarrow> u32 \<Rightarrow> u32 \<Rightarrow> byte \<Rightarrow> u64 \<Rightarrow> key_field list \<Rightarrow> bool" where
  "same_bucket iv c sig category name ty tid fs \<longleftrightarrow>
     bk_signature c = sig \<and> bk_category c = category \<and> bk_name c = name \<and> bk_type c = ty \<and>
     bk_thread_id c = tid \<and> same_keys iv c fs"

text \<open>The walk along a chain; the inner option is whether it found the bucket.\<close>

fun find_bucket :: "nat \<Rightarrow> interval \<Rightarrow> (bucket \<Rightarrow> bool) \<Rightarrow> u32 \<Rightarrow> nat option option" where
  "find_bucket fuel iv P at =
     (if at = - 1 then Some None
      else (case fuel of
          0 \<Rightarrow> None
        | Suc f \<Rightarrow>
            (let c = iv_buckets iv ! unat at in
             if P c then Some (Some (unat at)) else find_bucket f iv P (bk_next c))))"

definition chain_head :: "interval \<Rightarrow> u64 \<Rightarrow> u32" where
  "chain_head iv sig = (case iv_by_signature iv sig of None \<Rightarrow> - 1 | Some i \<Rightarrow> i)"

definition add_bucket ::
  "interval \<Rightarrow> u64 \<Rightarrow> u32 \<Rightarrow> u32 \<Rightarrow> byte \<Rightarrow> u64 \<Rightarrow> key_field list \<Rightarrow> interval" where
  "add_bucket iv sig category name ty tid fs =
     iv\<lparr>iv_buckets := iv_buckets iv @
         [\<lparr>bk_category = category, bk_name = name, bk_type = ty, bk_thread_id = tid,
           bk_signature = sig, bk_keys_at = of_nat (length (iv_keys iv)),
           bk_keys_count = of_nat (length fs), bk_next = chain_head iv sig, bk_count = 0,
           bk_values = []\<rparr>],
       iv_keys := iv_keys iv @ fs,
       iv_by_signature := (iv_by_signature iv)(sig \<mapsto> of_nat (length (iv_buckets iv)))\<rparr>"

text \<open>The index of the bucket, and the interval with it.\<close>

definition bucket_for ::
  "interval \<Rightarrow> u32 \<Rightarrow> u32 \<Rightarrow> byte \<Rightarrow> u64 \<Rightarrow> key_field list \<Rightarrow> (nat \<times> interval) option" where
  "bucket_for iv category name ty tid fs =
     (let sig = signature category name ty tid fs in
      case find_bucket (length (iv_buckets iv)) iv
          (\<lambda>c. same_bucket iv c sig category name ty tid fs) (chain_head iv sig) of
        None \<Rightarrow> None
      | Some (Some i) \<Rightarrow> Some (i, iv)
      | Some None \<Rightarrow>
          Some (length (iv_buckets iv), add_bucket iv sig category name ty tid fs))"

definition find_or_add_bucket ::
  "(string \<Rightarrow> u64) \<Rightarrow> string_table \<Rightarrow> interval \<Rightarrow> decoded_event \<Rightarrow> u32 \<Rightarrow> u32
     \<Rightarrow> (nat \<times> string_table \<times> interval) option" where
  "find_or_add_bucket H names iv e category name = do {
     (scratch, names, ks) \<leftarrow> scan_keys H (de_values e) names (iv_key_strings iv);
     (i, iv) \<leftarrow> bucket_for (iv\<lparr>iv_key_strings := ks\<rparr>) category name (eh_type (de_head e))
       (eh_thread_id (de_head e)) (sort_key kf_key scratch);
     Some (i, names, iv) }"

section \<open>Aggregating an event\<close>

fun fold_values ::
  "'a double_math_scheme \<Rightarrow> (string \<Rightarrow> u64) \<Rightarrow> decoded_value list \<Rightarrow> string_table
     \<Rightarrow> u32 accumulator list \<Rightarrow> (string_table \<times> u32 accumulator list) option" where
  "fold_values D H [] nm accs = Some (nm, accs)"
| "fold_values D H (v # vs) nm accs =
     (if dv_mtype v \<noteq> metadata_type_code MT_VALUE \<or> \<not> is_number (dv_tag v)
      then fold_values D H vs nm accs
      else do {
        (k, nm) \<leftarrow> intern H (dv_key v) nm;
        fold_values D H vs nm (fold_number D accs k (dv_tag v) (number_of v)) })"

definition interval_start :: "packed_aggregator \<Rightarrow> decoded_event \<Rightarrow> u64" where
  "interval_start st e = eh_start_time (de_head e) div pa_cached_interval st * pa_cached_interval st"

text \<open>The state, and whether the event opened a later interval than any before.\<close>

definition packed_aggregate ::
  "'a double_math_scheme \<Rightarrow> (string \<Rightarrow> u64) \<Rightarrow> packed_aggregator \<Rightarrow> decoded_event
     \<Rightarrow> (packed_aggregator \<times> bool) option" where
  "packed_aggregate D H st e = do {
     let ts = interval_start st e;
     let last' = (if ts > pa_last_interval st then ts else pa_last_interval st);
     (category, names) \<leftarrow> intern H (de_category e) (pa_names st);
     (name, names) \<leftarrow> intern H (de_name e) names;
     (i, names, iv) \<leftarrow>
       find_or_add_bucket H names (interval_of ts (pa_intervals st)) e category name;
     let b = iv_buckets iv ! i;
     let accs = fold_number D (bk_values b) (pa_dur_key st) SHM_VALUE_UINT (eh_duration (de_head e));
     (names, accs) \<leftarrow> fold_values D H (de_values e) names accs;
     let iv = iv\<lparr>iv_buckets := (iv_buckets iv)[i := b\<lparr>bk_count := bk_count b + 1, bk_values := accs\<rparr>]\<rparr>;
     Some (st\<lparr>pa_is_first := False, pa_last_interval := last', pa_names := names,
         pa_intervals := put_interval ts iv (pa_intervals st)\<rparr>,
       \<not> pa_is_first st \<and> pa_last_interval st \<noteq> last') }"

section \<open>Rows\<close>

definition number_emit :: "byte \<Rightarrow> u64 \<Rightarrow> emit" where
  "number_emit tag n =
     (if tag = SHM_VALUE_INT then I64 n else if tag = SHM_VALUE_UINT then U64 n else F64 n)"

definition key_emits :: "string_table \<Rightarrow> interval \<Rightarrow> key_field \<Rightarrow> emit list" where
  "key_emits names iv f =
     [Raw '',\"'', Raw (at_id names (kf_key f)), Raw ''\":''] @
     (if kf_tag f = SHM_VALUE_STRING
      then [Raw [CHR 0x22], Raw (at_id (iv_key_strings iv) (ucast (kf_v f))), Raw [CHR 0x22]]
      else if kf_tag f = SHM_VALUE_RAW_JSON then [Raw (at_id (iv_key_strings iv) (ucast (kf_v f)))]
      else [number_emit (kf_tag f) (kf_v f)])"

definition value_emits :: "string_table \<Rightarrow> u32 accumulator \<Rightarrow> emit list" where
  "value_emits names a =
     (if ac_count a = 1
      then [Raw '',\"'', Raw (at_id names (ac_key a)), Raw ''\":'', number_emit (ac_tag a) (ac_sum a)]
      else concat (map (\<lambda>(suffix, n).
          [Raw '',\"'', Raw (at_id names (ac_key a)), Raw suffix, Raw ''\":'', number_emit (ac_tag a) n])
        [(''_sum'', ac_sum a), (''_min'', ac_min a), (''_max'', ac_max a)]))"

definition row_calls :: "string_table \<Rightarrow> interval \<Rightarrow> bucket \<Rightarrow> u64 \<Rightarrow> u32 \<Rightarrow> string \<Rightarrow> emit list" where
  "row_calls names iv b ts pid hash =
     series_head (at_id names (bk_name b)) (at_id names (bk_category b)) (bk_type b)
       TRACE_PHASE_AGGREGATED ts pid (bk_thread_id b) @
     [Raw '',\"args\":{\"hhash\":\"'', Raw hash, Raw [CHR 0x22]] @
     concat (map (key_emits names iv) (bucket_keys iv b)) @
     [Raw '',\"dft_cnt\":'', U64 (bk_count b)] @
     concat (map (value_emits names) (bk_values b)) @ [Raw ''}}'']"

definition write_row ::
  "(u64 \<Rightarrow> string) \<Rightarrow> string_table \<Rightarrow> interval \<Rightarrow> bucket \<Rightarrow> u64 \<Rightarrow> u32 \<Rightarrow> string \<Rightarrow> string" where
  "write_row g names iv b ts pid hash = line_finish (line_all g (row_calls names iv b ts pid hash) new_line)"

text \<open>The loop of \<open>drain\<close>: the rows written and the intervals kept.\<close>

fun drain_intervals ::
  "(u64 \<times> interval \<Rightarrow> string list) \<Rightarrow> bool \<Rightarrow> u64 \<Rightarrow> (u64 \<times> interval) list
     \<Rightarrow> string list \<times> (u64 \<times> interval) list" where
  "drain_intervals rows all last_ts [] = ([], [])"
| "drain_intervals rows all last_ts ((ts, iv) # ivs) =
     (if \<not> all \<and> ts \<ge> last_ts then ([], (ts, iv) # ivs)
      else (let (rs, kept) = drain_intervals rows all last_ts ivs in (rows (ts, iv) @ rs, kept)))"

definition packed_drain ::
  "(u64 \<Rightarrow> string) \<Rightarrow> bool \<Rightarrow> u32 \<Rightarrow> string \<Rightarrow> packed_aggregator \<Rightarrow> string list \<times> packed_aggregator" where
  "packed_drain g all pid hash st =
     (let (rs, kept) = drain_intervals
          (\<lambda>(ts, iv). map (\<lambda>b. write_row g (pa_names st) iv b ts pid hash) (iv_buckets iv))
          all (pa_last_interval st) (pa_intervals st)
      in (rs, st\<lparr>pa_intervals := kept\<rparr>))"

end
