(* ===== verification/Bucket_Table.thy ===== *)
theory Bucket_Table
  imports Packed_Aggregator
begin

text \<open>
  The buckets of one interval as a table from groups of events to rows. First the chains of
  equal signatures: \<open>find_bucket\<close> ends and finds the bucket with an identity (ids of category and
  name, type, thread, key fields) exactly if there is one. Then the names: ids stand for strings
  one to one (the \<open>interner\<close> contract of \<open>String_Table\<close>), so identities stand for groups.
\<close>

section \<open>Chains\<close>

text \<open>The last index below \<open>i\<close> with a signature, as a link: \<open>- 1\<close> (\<open>UINT32_MAX\<close>) for none.\<close>

fun last_with :: "u64 list \<Rightarrow> nat \<Rightarrow> u64 \<Rightarrow> u32" where
  "last_with sigs 0 s = - 1"
| "last_with sigs (Suc i) s = (if sigs ! i = s then of_nat i else last_with sigs i s)"

abbreviation sigs_of :: "interval \<Rightarrow> u64 list" where
  "sigs_of iv \<equiv> map bk_signature (iv_buckets iv)"

definition chained :: "interval \<Rightarrow> bool" where
  "chained iv \<longleftrightarrow> length (iv_buckets iv) < 2 ^ 32 - 1 \<and>
     (\<forall>s. chain_head iv s = last_with (sigs_of iv) (length (iv_buckets iv)) s) \<and>
     (\<forall>i < length (iv_buckets iv).
        bk_next (iv_buckets iv ! i) = last_with (sigs_of iv) i (bk_signature (iv_buckets iv ! i)))"

lemma last_with_append: "i \<le> length sigs \<Longrightarrow> last_with (sigs @ xs) i s = last_with sigs i s"
  by (induction i) (simp_all add: nth_append)

lemma no_link: "n < 2 ^ 32 - 1 \<Longrightarrow> of_nat n \<noteq> (- 1 :: u32)"
proof
  assume n: "n < 2 ^ 32 - 1" and "of_nat n = (- 1 :: u32)"
  then have "unat (of_nat n :: u32) = 2 ^ 32 - 1" by (simp add: unsigned_minus_1_eq_mask mask_eq_exp_minus_1)
  moreover have "unat (of_nat n :: u32) = n" using n by (intro unat_of_nat_small) simp
  ultimately show False using n by simp
qed

lemma find_bucket_walks:
  assumes c: "chained iv" and i: "i \<le> length (iv_buckets iv)" "i \<le> fuel"
    and P: "\<And>b. P b \<Longrightarrow> bk_signature b = s"
  shows "\<exists>r. find_bucket fuel iv P (last_with (sigs_of iv) i s) = Some r \<and>
    (case r of None \<Rightarrow> \<forall>j<i. \<not> P (iv_buckets iv ! j) | Some j \<Rightarrow> j < i \<and> P (iv_buckets iv ! j))"
  using i
proof (induction i arbitrary: fuel)
  case (Suc i)
  have n: "of_nat i \<noteq> (- 1 :: u32)" "unat (of_nat i :: u32) = i"
    using c Suc.prems by (auto simp: chained_def intro!: no_link unat_of_nat_small)
  let ?b = "iv_buckets iv ! i"
  show ?case
  proof (cases "bk_signature ?b = s")
    case False
    then have "\<not> P ?b" using P by blast
    then show ?thesis using Suc.IH [of fuel] Suc.prems False
      by (auto split: option.splits simp: less_Suc_eq)
  next
    case True
    obtain f where f: "fuel = Suc f" using Suc.prems by (cases fuel) auto
    have "bk_next ?b = last_with (sigs_of iv) i s" using c True Suc.prems by (auto simp: chained_def)
    then show ?thesis using Suc.IH [of f] Suc.prems True n f
      by (auto simp: Let_def less_Suc_eq split: option.splits)
  qed
qed simp

lemma chained_empty: "chained empty_interval"
  by (simp add: chained_def empty_interval_def chain_head_def)

lemma chained_add_bucket:
  assumes c: "chained iv" and n: "length (iv_buckets iv) + 1 < 2 ^ 32 - 1"
  shows "chained (add_bucket iv sig category name ty tid fs)"
proof -
  let ?iv = "add_bucket iv sig category name ty tid fs" and ?n = "length (iv_buckets iv)"
  obtain b where b: "iv_buckets ?iv = iv_buckets iv @ [b]" "bk_signature b = sig" "bk_next b = chain_head iv sig"
    by (simp add: add_bucket_def)
  have h: "chain_head ?iv s = (if s = sig then of_nat ?n else chain_head iv s)" for s
    by (simp add: chain_head_def add_bucket_def)
  have old: "last_with (sigs_of ?iv) i s = last_with (sigs_of iv) i s" if "i \<le> ?n" for i s
    using that by (simp add: b last_with_append)
  show ?thesis
    using c n b h old by (auto simp: chained_def nth_append less_Suc_eq)
qed

section \<open>The buckets of an interval\<close>

text \<open>What identifies a bucket within its interval, by ids.\<close>

definition ident :: "interval \<Rightarrow> bucket \<Rightarrow> u32 \<times> u32 \<times> byte \<times> u64 \<times> key_field list" where
  "ident iv b = (bk_category b, bk_name b, bk_type b, bk_thread_id b, bucket_keys iv b)"

definition bucket_ok :: "interval \<Rightarrow> bucket \<Rightarrow> bool" where
  "bucket_ok iv b \<longleftrightarrow> unat (bk_keys_at b) + unat (bk_keys_count b) \<le> length (iv_keys iv) \<and>
     bk_signature b =
       signature (bk_category b) (bk_name b) (bk_type b) (bk_thread_id b) (bucket_keys iv b)"

definition buckets_ok :: "interval \<Rightarrow> bool" where
  "buckets_ok iv \<longleftrightarrow> chained iv \<and> length (iv_keys iv) < 2 ^ 32 \<and>
     (\<forall>b \<in> set (iv_buckets iv). bucket_ok iv b) \<and> distinct (map (ident iv) (iv_buckets iv))"

lemma buckets_okD:
  assumes "buckets_ok iv"
  shows "chained iv" "length (iv_keys iv) < 2 ^ 32" "\<And>b. b \<in> set (iv_buckets iv) \<Longrightarrow> bucket_ok iv b"
    "distinct (map (ident iv) (iv_buckets iv))"
  using assms by (auto simp: buckets_ok_def)

lemma buckets_ok_empty: "buckets_ok empty_interval"
  using chained_empty by (simp add: buckets_ok_def empty_interval_def)

lemma same_bucket_iff:
  "bucket_ok iv b \<Longrightarrow> sig = signature category name ty tid fs \<Longrightarrow>
   same_bucket iv b sig category name ty tid fs \<longleftrightarrow> ident iv b = (category, name, ty, tid, fs)"
  by (auto simp: same_bucket_def same_keys_def ident_def bucket_ok_def bucket_keys_def)

lemma add_bucket_keeps:
  assumes "bucket_ok iv b" "iv_keys iv' = iv_keys iv @ fs"
  shows "bucket_ok iv' b" "ident iv' b = ident iv b"
proof -
  have "bucket_keys iv' b = bucket_keys iv b" using assms by (simp add: bucket_keys_def bucket_ok_def)
  then show "bucket_ok iv' b" "ident iv' b = ident iv b"
    using assms by (auto simp: bucket_ok_def ident_def)
qed

lemma add_bucket_ok:
  assumes ok: "buckets_ok iv" and room: "length (iv_buckets iv) + 1 < 2 ^ 32 - 1"
      "length (iv_keys iv) + length fs < 2 ^ 32"
    and new: "\<And>b. b \<in> set (iv_buckets iv) \<Longrightarrow> ident iv b \<noteq> (category, name, ty, tid, fs)"
  defines "iv' \<equiv> add_bucket iv (signature category name ty tid fs) category name ty tid fs"
  shows "buckets_ok iv'"
    "\<exists>b. iv_buckets iv' = iv_buckets iv @ [b] \<and> ident iv' b = (category, name, ty, tid, fs) \<and>
      bk_count b = 0 \<and> bk_values b = []"
    "\<And>b. b \<in> set (iv_buckets iv) \<Longrightarrow> ident iv' b = ident iv b"
    "iv_key_strings iv' = iv_key_strings iv"
proof -
  have k: "iv_keys iv' = iv_keys iv @ fs" "iv_key_strings iv' = iv_key_strings iv"
    by (simp_all add: iv'_def add_bucket_def)
  have u: "unat (of_nat (length (iv_keys iv)) :: u32) = length (iv_keys iv)"
    "unat (of_nat (length fs) :: u32) = length fs"
    using room(2) by (auto intro!: unat_of_nat_small)
  obtain b where b: "iv_buckets iv' = iv_buckets iv @ [b]" "bk_count b = 0" "bk_values b = []"
    "ident iv' b = (category, name, ty, tid, fs)" "bucket_ok iv' b"
    using u by (simp add: iv'_def add_bucket_def ident_def bucket_keys_def bucket_ok_def)
  note old = add_bucket_keeps [OF _ k(1)]
  show same: "ident iv' c = ident iv c" if "c \<in> set (iv_buckets iv)" for c
    using old(2) buckets_okD(3) [OF ok that] by blast
  have m: "map (ident iv') (iv_buckets iv') = map (ident iv) (iv_buckets iv) @ [(category, name, ty, tid, fs)]"
    using same b by simp
  have "(category, name, ty, tid, fs) \<notin> ident iv ` set (iv_buckets iv)"
  proof
    assume "(category, name, ty, tid, fs) \<in> ident iv ` set (iv_buckets iv)"
    then obtain b where "b \<in> set (iv_buckets iv)" "(category, name, ty, tid, fs) = ident iv b" by blast
    then show False using new [of b] by simp
  qed
  then have "distinct (map (ident iv') (iv_buckets iv'))"
    using buckets_okD(4) [OF ok] unfolding m by simp
  moreover have "chained iv'" unfolding iv'_def by (rule chained_add_bucket [OF buckets_okD(1) [OF ok] room(1)])
  moreover have "\<forall>c \<in> set (iv_buckets iv'). bucket_ok iv' c" using b old(1) buckets_okD(3) [OF ok] by auto
  ultimately show "buckets_ok iv'" using k room(2) by (simp add: buckets_ok_def)
  show "\<exists>b. iv_buckets iv' = iv_buckets iv @ [b] \<and> ident iv' b = (category, name, ty, tid, fs) \<and>
      bk_count b = 0 \<and> bk_values b = []" using b by blast
  show "iv_key_strings iv' = iv_key_strings iv" by (rule k)
qed

text \<open>What \<open>bucket_for\<close> returns: the one bucket with that identity, a new one only if there was none.\<close>

lemma bucket_for_finds:
  assumes ok: "buckets_ok iv" and room: "length (iv_buckets iv) + 1 < 2 ^ 32 - 1"
      "length (iv_keys iv) + length fs < 2 ^ 32"
  shows "\<exists>i iv'. bucket_for iv category name ty tid fs = Some (i, iv') \<and> buckets_ok iv' \<and>
    iv_key_strings iv' = iv_key_strings iv \<and> i < length (iv_buckets iv') \<and>
    ident iv' (iv_buckets iv' ! i) = (category, name, ty, tid, fs) \<and>
    (\<forall>b \<in> set (iv_buckets iv). ident iv' b = ident iv b) \<and>
    (iv' = iv \<or>
      (category, name, ty, tid, fs) \<notin> ident iv ` set (iv_buckets iv) \<and> iv_keys iv' = iv_keys iv @ fs \<and>
      (\<exists>b. iv_buckets iv' = iv_buckets iv @ [b] \<and> bk_count b = 0 \<and> bk_values b = []) \<and>
      i = length (iv_buckets iv))"
proof -
  let ?sig = "signature category name ty tid fs" and ?n = "length (iv_buckets iv)"
  let ?P = "\<lambda>c. same_bucket iv c ?sig category name ty tid fs"
  note c = buckets_okD(1) [OF ok]
  have head: "chain_head iv ?sig = last_with (sigs_of iv) ?n ?sig" using c by (simp add: chained_def)
  have P: "?P b \<Longrightarrow> bk_signature b = ?sig" for b by (simp add: same_bucket_def)
  have id: "?P (iv_buckets iv ! j) \<longleftrightarrow> ident iv (iv_buckets iv ! j) = (category, name, ty, tid, fs)"
    if "j < ?n" for j
    using same_bucket_iff [OF buckets_okD(3) [OF ok nth_mem [OF that]]] by simp
  define result where "result = find_bucket ?n iv ?P (chain_head iv ?sig)"
  have "\<exists>r. result = Some r \<and>
    (case r of None \<Rightarrow> \<forall>j<?n. \<not> ?P (iv_buckets iv ! j) | Some j \<Rightarrow> j < ?n \<and> ?P (iv_buckets iv ! j))"
    unfolding result_def head by (rule find_bucket_walks [OF c order_refl order_refl]) (rule P)
  then obtain r where r: "result = Some r"
    "case r of None \<Rightarrow> \<forall>j<?n. \<not> ?P (iv_buckets iv ! j) | Some j \<Rightarrow> j < ?n \<and> ?P (iv_buckets iv ! j)"
    by (elim exE conjE)
  have fb: "bucket_for iv category name ty tid fs = (case r of Some i \<Rightarrow> Some (i, iv)
      | None \<Rightarrow> Some (?n, add_bucket iv ?sig category name ty tid fs))"
    by (simp only: bucket_for_def Let_def result_def [symmetric] r(1) option.case split: option.split)
  show ?thesis
  proof (cases r)
    case (Some j)
    then have "j < ?n" "ident iv (iv_buckets iv ! j) = (category, name, ty, tid, fs)"
      using r(2) id by auto
    then show ?thesis using fb Some ok by simp
  next
    case None
    then have new: "ident iv b \<noteq> (category, name, ty, tid, fs)" if "b \<in> set (iv_buckets iv)" for b
      using r(2) id that by (auto simp: in_set_conv_nth)
    let ?iv = "add_bucket iv ?sig category name ty tid fs"
    have e: "bucket_for iv category name ty tid fs = Some (?n, ?iv)"
      using fb None by simp
    have k: "iv_keys ?iv = iv_keys iv @ fs" by (simp add: add_bucket_def)
    note a = add_bucket_ok [OF ok room new]
    obtain b where b: "iv_buckets ?iv = iv_buckets iv @ [b]" "ident ?iv b = (category, name, ty, tid, fs)"
      "bk_count b = 0" "bk_values b = []" using a(2) by blast
    then have at: "iv_buckets ?iv ! ?n = b" "?n < length (iv_buckets ?iv)" by (simp_all only: nth_append_length length_append_singleton lessI)
    show ?thesis
    proof (intro exI conjI disjI2 ballI)
      show "bucket_for iv category name ty tid fs = Some (?n, ?iv)" by (rule e)
      show "(category, name, ty, tid, fs) \<notin> ident iv ` set (iv_buckets iv)"
        using new by (metis imageE)
      show "ident ?iv (iv_buckets ?iv ! ?n) = (category, name, ty, tid, fs)" using at b by metis
    qed (use a(1,3,4) b at k in \<open>assumption | blast | rule refl\<close>)+
  qed
qed

text \<open>Neither the string values nor what a bucket counts take part in that.\<close>

lemma ident_upd [simp]:
  "bucket_keys (iv\<lparr>iv_key_strings := ks\<rparr>) = bucket_keys iv"
  "bucket_keys (iv\<lparr>iv_buckets := bs\<rparr>) = bucket_keys iv"
  "ident (iv\<lparr>iv_key_strings := ks\<rparr>) = ident iv" "ident (iv\<lparr>iv_buckets := bs\<rparr>) = ident iv"
  "bucket_ok (iv\<lparr>iv_key_strings := ks\<rparr>) = bucket_ok iv" "bucket_ok (iv\<lparr>iv_buckets := bs\<rparr>) = bucket_ok iv"
  "chain_head (iv\<lparr>iv_key_strings := ks\<rparr>) = chain_head iv" "chain_head (iv\<lparr>iv_buckets := bs\<rparr>) = chain_head iv"
  by (simp_all add: ident_def bucket_ok_def bucket_keys_def chain_head_def fun_eq_iff)

lemma ident_counted:
  "ident iv (b\<lparr>bk_count := n, bk_values := accs\<rparr>) = ident iv b"
  "bucket_ok iv (b\<lparr>bk_count := n, bk_values := accs\<rparr>) = bucket_ok iv b"
  by (simp_all add: ident_def bucket_ok_def bucket_keys_def)

lemma buckets_ok_strings: "buckets_ok (iv\<lparr>iv_key_strings := ks\<rparr>) = buckets_ok iv"
  by (simp add: buckets_ok_def chained_def)

lemma map_update_same: "i < length xs \<Longrightarrow> f x = f (xs ! i) \<Longrightarrow> map f (xs[i := x]) = map f xs"
  by (metis list_update_id map_update)

lemma buckets_ok_counted:
  fixes n accs
  assumes ok: "buckets_ok iv" and i: "i < length (iv_buckets iv)"
  defines "iv' \<equiv> iv\<lparr>iv_buckets := (iv_buckets iv)[i := (iv_buckets iv ! i)\<lparr>bk_count := n, bk_values := accs\<rparr>]\<rparr>"
  shows "buckets_ok iv'" "map (ident iv') (iv_buckets iv') = map (ident iv) (iv_buckets iv)"
proof -
  have k: "ident iv' = ident iv" "bucket_ok iv' = bucket_ok iv" "chain_head iv' = chain_head iv"
    by (simp_all add: iv'_def)
  have m: "map f (iv_buckets iv') = map f (iv_buckets iv)"
    if "f ((iv_buckets iv ! i)\<lparr>bk_count := n, bk_values := accs\<rparr>) = f (iv_buckets iv ! i)" for f :: "bucket \<Rightarrow> 'b"
    using map_update_same [where f = f, OF i that] by (simp add: iv'_def)
  show ids: "map (ident iv') (iv_buckets iv') = map (ident iv) (iv_buckets iv)"
    unfolding k by (rule m) (simp add: ident_counted)
  have s: "sigs_of iv' = sigs_of iv" "map bk_next (iv_buckets iv') = map bk_next (iv_buckets iv)"
    "map (bucket_ok iv) (iv_buckets iv') = map (bucket_ok iv) (iv_buckets iv)"
    by (rule m, simp add: ident_counted)+
  have l: "length (iv_buckets iv') = length (iv_buckets iv)" by (simp add: iv'_def)
  have nth: "bk_next (iv_buckets iv' ! j) = bk_next (iv_buckets iv ! j) \<and>
      bk_signature (iv_buckets iv' ! j) = bk_signature (iv_buckets iv ! j)"
    if "j < length (iv_buckets iv)" for j
    using that s(1,2) l by (metis nth_map)
  have "\<forall>b \<in> set (iv_buckets iv'). bucket_ok iv b"
    using buckets_okD(3) [OF ok] arg_cong [OF s(3), of set] by auto
  moreover have "chained iv'" using buckets_okD(1) [OF ok] nth by (simp add: chained_def s(1) k l)
  moreover have "iv_keys iv' = iv_keys iv" by (simp add: iv'_def)
  ultimately show "buckets_ok iv'"
    using buckets_okD(2,4) [OF ok] by (simp add: buckets_ok_def ids [unfolded k] k)
qed

section \<open>From ids to strings\<close>

definition has_id :: "string_table \<Rightarrow> u32 \<Rightarrow> bool" where
  "has_id t i \<longleftrightarrow> unat i < length (tb_strings t)"

abbreviation grown :: "string_table \<Rightarrow> string_table \<Rightarrow> bool" where
  "grown t t' \<equiv> prefix (tb_strings t) (tb_strings t')"

lemma at_id_inj: "table_ok H t \<Longrightarrow> has_id t i \<Longrightarrow> has_id t j \<Longrightarrow> at_id t i = at_id t j \<longleftrightarrow> i = j"
  using tab.names_unique [of H t i "at_id t i" j "at_id t j"]
  by (auto simp: tab.names_def has_id_def at_id_def)

lemma at_id_grown: "grown t t' \<Longrightarrow> has_id t i \<Longrightarrow> has_id t' i \<and> at_id t' i = at_id t i"
  using tab.names_stable [of t i "at_id t i" t'] by (auto simp: tab.names_def has_id_def at_id_def)

lemma intern_step:
  assumes "table_ok H t" "length (tb_strings t) + Suc n \<le> B" "B \<le> 2 ^ 32 - 1"
  obtains i t' where "intern H s t = Some (i, t')" "table_ok H t'" "grown t t'" "has_id t' i"
    "at_id t' i = s" "length (tb_strings t') \<le> length (tb_strings t) + 1"
    "length (tb_strings t') + n \<le> B"
proof -
  have l: "length (tb_strings t) < 2 ^ 32 - 1" using assms(2,3) by simp
  obtain i t' where p: "intern H s t = Some (i, t')" using tab.put_some [OF assms(1) l] .
  note q = tab.put_names [OF assms(1) l p]
  show ?thesis
    using that [OF p q(1,3)] q(2,5) assms(2) by (simp add: tab.names_def has_id_def at_id_def)
qed

text \<open>A key field as the event has it: its name, and its number or its text, with the tag.\<close>

datatype key_value = Number_Key byte u64 | Text_Key byte string

definition key_name :: "string_table \<Rightarrow> string_table \<Rightarrow> key_field \<Rightarrow> string \<times> key_value" where
  "key_name names ks f = (at_id names (kf_key f),
     if is_number (kf_tag f) then Number_Key (kf_tag f) (kf_v f)
     else Text_Key (kf_tag f) (at_id ks (ucast (kf_v f))))"

definition key_valid :: "string_table \<Rightarrow> string_table \<Rightarrow> key_field \<Rightarrow> bool" where
  "key_valid names ks f \<longleftrightarrow> has_id names (kf_key f) \<and>
     (is_number (kf_tag f) \<or> (\<exists>i. kf_v f = ucast i \<and> has_id ks i))"

definition event_key :: "decoded_value \<Rightarrow> string \<times> key_value" where
  "event_key v = (dv_key v,
     if is_number (dv_tag v) then Number_Key (dv_tag v) (number_of v) else Text_Key (dv_tag v) (dv_s v))"

lemma ucast_u32_u64_u32 [simp]: "ucast (ucast (i :: u32) :: u64) = i"
  by (rule ucast_down_ucast_id) (simp add: is_down)

lemma key_name_inj:
  assumes "table_ok H names" "table_ok H ks" "key_valid names ks f" "key_valid names ks g"
    "key_name names ks f = key_name names ks g"
  shows "f = g"
  using assms at_id_inj [OF assms(1)] at_id_inj [OF assms(2)]
  by (cases f, cases g) (auto simp: key_name_def key_valid_def split: if_splits)

lemma key_name_grown:
  assumes "grown names names'" "grown ks ks'" "key_valid names ks f"
  shows "key_valid names' ks' f" "key_name names' ks' f = key_name names ks f"
  using assms(3) at_id_grown [OF assms(1)] at_id_grown [OF assms(2)]
  by (auto simp: key_name_def key_valid_def)

text \<open>The key fields of an event.\<close>

definition key_values :: "decoded_value list \<Rightarrow> decoded_value list" where
  "key_values vs = [v \<leftarrow> vs. dv_mtype v = metadata_type_code MT_KEY]"

lemma key_number_names:
  assumes B: "B \<le> 2 ^ 32 - 1" and "table_ok H ks" "length (tb_strings ks) + Suc m \<le> B" "table_ok H names"
    "has_id names k" "at_id names k = dv_key v"
  obtains x ks' where "key_number H v ks = Some (x, ks')" "table_ok H ks'" "grown ks ks'"
    "length (tb_strings ks') + m \<le> B"
    "key_valid names ks' \<lparr>kf_key = k, kf_tag = dv_tag v, kf_v = x\<rparr>"
    "key_name names ks' \<lparr>kf_key = k, kf_tag = dv_tag v, kf_v = x\<rparr> = event_key v"
proof (cases "is_number (dv_tag v)")
  case True
  then show ?thesis
    using that [of "number_of v" ks] assms
    by (simp add: key_number_def key_valid_def key_name_def event_key_def)
next
  case False
  obtain i ks' where "intern H (dv_s v) ks = Some (i, ks')" "table_ok H ks'" "grown ks ks'"
    "has_id ks' i" "at_id ks' i = dv_s v" "length (tb_strings ks') + m \<le> B"
    by (rule intern_step [OF assms(2,3) B])
  then show ?thesis
    using that [of "ucast i" ks'] False assms
    by (auto simp: key_number_def key_valid_def key_name_def event_key_def)
qed

lemma scan_keys_names:
  assumes B: "B \<le> 2 ^ 32 - 1" and "table_ok H nm" "table_ok H ks" "length (tb_strings nm) + (length vs + n) \<le> B"
    "length (tb_strings ks) + (length vs + m) \<le> B"
  shows "\<exists>fs nm' ks'. scan_keys H vs nm ks = Some (fs, nm', ks') \<and> table_ok H nm' \<and> table_ok H ks' \<and>
    grown nm nm' \<and> grown ks ks' \<and> length (tb_strings nm') + n \<le> B \<and>
    length (tb_strings ks') + m \<le> B \<and> (\<forall>f \<in> set fs. key_valid nm' ks' f) \<and>
    map (key_name nm' ks') fs = map event_key (key_values vs)"
  using assms(2-)
proof (induction vs arbitrary: nm ks)
  case (Cons v vs)
  show ?case
  proof (cases "dv_mtype v = metadata_type_code MT_KEY")
    case False
    then show ?thesis using Cons.IH [of nm ks] Cons.prems by (simp add: key_values_def)
  next
    case True
    have r: "length (tb_strings nm) + Suc (length vs + n) \<le> B"
      "length (tb_strings ks) + Suc (length vs + m) \<le> B" using Cons.prems by simp_all
    obtain k nm1 where k: "intern H (dv_key v) nm = Some (k, nm1)" "table_ok H nm1" "grown nm nm1"
      "has_id nm1 k" "at_id nm1 k = dv_key v" "length (tb_strings nm1) + (length vs + n) \<le> B"
      by (rule intern_step [OF Cons.prems(1) r(1) B])
    obtain x ks1 where x: "key_number H v ks = Some (x, ks1)" "table_ok H ks1" "grown ks ks1"
      "length (tb_strings ks1) + (length vs + m) \<le> B"
      "key_valid nm1 ks1 \<lparr>kf_key = k, kf_tag = dv_tag v, kf_v = x\<rparr>"
      "key_name nm1 ks1 \<lparr>kf_key = k, kf_tag = dv_tag v, kf_v = x\<rparr> = event_key v"
      by (rule key_number_names [OF B Cons.prems(2) r(2) k(2,4,5)])
    obtain fs nm' ks' where f: "scan_keys H vs nm1 ks1 = Some (fs, nm', ks')" "table_ok H nm'"
      "table_ok H ks'" "grown nm1 nm'" "grown ks1 ks'" "length (tb_strings nm') + n \<le> B"
      "length (tb_strings ks') + m \<le> B" "\<forall>f \<in> set fs. key_valid nm' ks' f"
      "map (key_name nm' ks') fs = map event_key (key_values vs)"
      using Cons.IH [OF k(2) x(2) k(6) x(4)] by blast
    note h = key_name_grown [OF f(4,5) x(5)]
    have "grown nm nm'" "grown ks ks'" using k(3) f(4) x(3) f(5) by (meson prefix_order.order_trans)+
    then show ?thesis using True k(1) x(1,6) f h by (simp add: key_values_def)
  qed
qed (simp add: key_values_def)

section \<open>The table an interval stands for\<close>

text \<open>
  A group of events: what \<open>PackedAggregator\<close> documents a bucket to be, with the key fields as a
  set. A row is the number of events and, in the order of their first values, the value keys.
\<close>

record group =
  gr_category :: string
  gr_name :: string
  gr_type :: byte
  gr_thread_id :: u64
  gr_keys :: "(string \<times> key_value) set"

type_synonym row = "u64 \<times> string accumulator list"

definition group_named ::
  "string_table \<Rightarrow> string_table \<Rightarrow> u32 \<times> u32 \<times> byte \<times> u64 \<times> key_field list \<Rightarrow> group" where
  "group_named names ks = (\<lambda>(c, n, ty, tid, fs).
     \<lparr>gr_category = at_id names c, gr_name = at_id names n, gr_type = ty, gr_thread_id = tid,
       gr_keys = key_name names ks ` set fs\<rparr>)"

definition ident_valid ::
  "string_table \<Rightarrow> string_table \<Rightarrow> u32 \<times> u32 \<times> byte \<times> u64 \<times> key_field list \<Rightarrow> bool" where
  "ident_valid names ks = (\<lambda>(c, n, ty, tid, fs). has_id names c \<and> has_id names n \<and>
     (\<forall>f \<in> set fs. key_valid names ks f) \<and> sorted (map kf_key fs) \<and> distinct (map kf_key fs))"

lemma group_named_inj:
  assumes "table_ok H names" "table_ok H ks" "ident_valid names ks a" "ident_valid names ks b"
    "group_named names ks a = group_named names ks b"
  shows "a = b"
proof -
  obtain c n ty tid fs c' n' ty' tid' fs' where ab: "a = (c, n, ty, tid, fs)" "b = (c', n', ty', tid', fs')"
    by (metis prod.exhaust)
  have inj: "inj_on (key_name names ks) (set fs \<union> set fs')"
    using assms(3,4) key_name_inj [OF assms(1,2)] by (auto simp: ab ident_valid_def inj_on_def)
  have "key_name names ks ` set fs = key_name names ks ` set fs'"
    using assms(5) by (simp add: ab group_named_def)
  then have sets: "set fs = set fs'" using inj_on_Un_image_eq_iff [OF inj] by simp
  have "inj_on kf_key (set fs \<union> set fs')" using assms(3) sets by (simp add: ab ident_valid_def distinct_map)
  then have "fs = fs'"
    using assms(3,4) sets map_sorted_distinct_set_unique [of kf_key fs fs'] by (simp add: ab ident_valid_def)
  then show ?thesis
    using assms at_id_inj [OF assms(1)] by (auto simp: ab group_named_def ident_valid_def)
qed

lemma ident_valid_grown:
  assumes "grown names names'" "grown ks ks'" "ident_valid names ks a"
  shows "ident_valid names' ks' a" "group_named names' ks' a = group_named names ks a"
  using assms(3) at_id_grown [OF assms(1)] key_name_grown [OF assms(1,2)]
  by (auto simp: ident_valid_def group_named_def image_iff)

definition named :: "string_table \<Rightarrow> u32 accumulator \<Rightarrow> string accumulator" where
  "named names a = \<lparr>ac_key = at_id names (ac_key a), ac_tag = ac_tag a, ac_count = ac_count a,
     ac_sum = ac_sum a, ac_min = ac_min a, ac_max = ac_max a\<rparr>"

definition row_of :: "string_table \<Rightarrow> bucket \<Rightarrow> row" where
  "row_of names b = (bk_count b, map (named names) (bk_values b))"

definition interval_rows :: "string_table \<Rightarrow> interval \<Rightarrow> (group \<times> row) list" where
  "interval_rows names iv =
     map (\<lambda>b. (group_named names (iv_key_strings iv) (ident iv b), row_of names b)) (iv_buckets iv)"

definition interval_table :: "string_table \<Rightarrow> interval \<Rightarrow> group \<Rightarrow> row option" where
  "interval_table names iv = map_of (interval_rows names iv)"

definition interval_ok :: "(string \<Rightarrow> u64) \<Rightarrow> string_table \<Rightarrow> interval \<Rightarrow> bool" where
  "interval_ok H names iv \<longleftrightarrow> buckets_ok iv \<and> table_ok H (iv_key_strings iv) \<and>
     (\<forall>b \<in> set (iv_buckets iv). ident_valid names (iv_key_strings iv) (ident iv b) \<and>
        (\<forall>a \<in> set (bk_values b). has_id names (ac_key a)))"

lemma interval_okD:
  assumes "interval_ok H names iv"
  shows "buckets_ok iv" "table_ok H (iv_key_strings iv)"
    "\<And>b. b \<in> set (iv_buckets iv) \<Longrightarrow> ident_valid names (iv_key_strings iv) (ident iv b)"
    "\<And>b a. b \<in> set (iv_buckets iv) \<Longrightarrow> a \<in> set (bk_values b) \<Longrightarrow> has_id names (ac_key a)"
  using assms by (auto simp: interval_ok_def)

lemma interval_ok_empty: "interval_ok H names empty_interval"
  using buckets_ok_empty table_ok_empty by (simp add: interval_ok_def empty_interval_def)

lemma interval_table_empty: "interval_table names empty_interval = Map.empty"
  by (simp add: interval_table_def interval_rows_def empty_interval_def fun_eq_iff)

lemma rows_distinct:
  assumes "table_ok H names" "interval_ok H names iv"
  shows "distinct (map fst (interval_rows names iv))"
proof -
  note ok = interval_okD [OF assms(2)]
  have "inj_on (group_named names (iv_key_strings iv)) (set (map (ident iv) (iv_buckets iv)))"
    using group_named_inj [OF assms(1) ok(2)] ok(3) by (auto simp: inj_on_def)
  then have "distinct (map (group_named names (iv_key_strings iv)) (map (ident iv) (iv_buckets iv)))"
    using buckets_okD(4) [OF ok(1)] by (simp only: distinct_map)
  then show ?thesis by (simp add: interval_rows_def comp_def)
qed

text \<open>The tables of strings only grow, which changes neither the invariant nor the rows.\<close>

lemma row_of_grown:
  assumes "grown names names'" "\<And>a. a \<in> set (bk_values b) \<Longrightarrow> has_id names (ac_key a)"
  shows "row_of names' b = row_of names b"
  using assms(2) at_id_grown [OF assms(1)] by (simp add: row_of_def named_def)

lemma interval_grown:
  assumes g: "grown names names'" "grown (iv_key_strings iv) ks" and t: "table_ok H ks"
    and ok: "interval_ok H names iv"
  shows "interval_ok H names' (iv\<lparr>iv_key_strings := ks\<rparr>)"
    "interval_rows names' (iv\<lparr>iv_key_strings := ks\<rparr>) = interval_rows names iv"
proof -
  note d = interval_okD [OF ok] and v = ident_valid_grown [OF g]
  show "interval_ok H names' (iv\<lparr>iv_key_strings := ks\<rparr>)"
    using d t v(1) at_id_grown [OF g(1)] by (simp add: interval_ok_def buckets_ok_strings)
  show "interval_rows names' (iv\<lparr>iv_key_strings := ks\<rparr>) = interval_rows names iv"
    using d(3,4) v(2) row_of_grown [OF g(1)] by (simp add: interval_rows_def)
qed

end
