(* ===== verification/Aggregation.thy ===== *)
theory Aggregation
  imports Bucket_Table
begin

text \<open>
  \<open>PackedAggregator\<close> computes a group-by: one event, then runs of events, then what \<open>drain\<close>
  writes and drops, what a row says of an integer key, and that its rules decide as the ones of
  the process do. \<open>agg_ok H N\<close> is the invariant; \<open>N\<close> bounds every table by the fields aggregated
  so far, which keeps ids and chain links (32 bits) below \<open>UINT32_MAX\<close>.
\<close>

section \<open>Folding an event into its row\<close>

definition event_group :: "decoded_event \<Rightarrow> group" where
  "event_group e = \<lparr>gr_category = de_category e, gr_name = de_name e, gr_type = eh_type (de_head e),
     gr_thread_id = eh_thread_id (de_head e), gr_keys = set (map event_key (key_values (de_values e)))\<rparr>"

definition number_values :: "decoded_value list \<Rightarrow> (string \<times> byte \<times> u64) list" where
  "number_values vs = map (\<lambda>v. (dv_key v, dv_tag v, number_of v))
     [v \<leftarrow> vs. dv_mtype v = metadata_type_code MT_VALUE \<and> is_number (dv_tag v)]"

definition fold_all ::
  "'a double_math_scheme \<Rightarrow> string accumulator list \<Rightarrow> (string \<times> byte \<times> u64) list \<Rightarrow> string accumulator list" where
  "fold_all D = foldl (\<lambda>accs (k, tag, v). fold_number D accs k tag v)"

definition event_values :: "decoded_event \<Rightarrow> (string \<times> byte \<times> u64) list" where
  "event_values e =
     (''dur'', SHM_VALUE_UINT, eh_duration (de_head e)) # number_values (de_values e)"

definition fold_event :: "'a double_math_scheme \<Rightarrow> row \<Rightarrow> decoded_event \<Rightarrow> row" where
  "fold_event D r e = (fst r + 1, fold_all D (snd r) (event_values e))"

lemma fold_number_named:
  assumes "table_ok H names" "has_id names k" "\<forall>a \<in> set accs. has_id names (ac_key a)"
  shows "map (named names) (fold_number D accs k tag v) =
      fold_number D (map (named names) accs) (at_id names k) tag v \<and>
    (\<forall>a \<in> set (fold_number D accs k tag v). has_id names (ac_key a))"
  using assms(3)
proof (induction accs)
  case (Cons a accs)
  have "at_id names (ac_key a) = at_id names k \<longleftrightarrow> ac_key a = k"
    using at_id_inj [OF assms(1)] assms(2) Cons.prems by simp
  then show ?case using Cons assms(2) by (simp add: named_def Let_def)
qed (simp add: named_def assms(2))

lemma named_grown:
  assumes "grown names names'" "\<forall>a \<in> set accs. has_id names (ac_key a)"
  shows "map (named names') accs = map (named names) accs" "\<forall>a \<in> set accs. has_id names' (ac_key a)"
  using assms(2) at_id_grown [OF assms(1)] by (simp_all add: named_def)

lemma fold_values_named:
  assumes B: "B \<le> 2 ^ 32 - 1" and "table_ok H nm" "length (tb_strings nm) + (length vs + n) \<le> B"
    "\<forall>a \<in> set accs. has_id nm (ac_key a)"
  shows "\<exists>nm' accs'. fold_values D H vs nm accs = Some (nm', accs') \<and> table_ok H nm' \<and> grown nm nm' \<and>
    length (tb_strings nm') + n \<le> B \<and> (\<forall>a \<in> set accs'. has_id nm' (ac_key a)) \<and>
    map (named nm') accs' = fold_all D (map (named nm) accs) (number_values vs)"
  using assms(2-)
proof (induction vs arbitrary: nm accs)
  case Nil
  then show ?case by (simp add: fold_all_def number_values_def)
next
  case (Cons v vs)
  show ?case
  proof (cases "dv_mtype v = metadata_type_code MT_VALUE \<and> is_number (dv_tag v)")
    case False
    then show ?thesis using Cons.IH [of nm accs] Cons.prems by (auto simp: number_values_def)
  next
    case True
    have r: "length (tb_strings nm) + Suc (length vs + n) \<le> B" using Cons.prems by simp
    obtain k nm1 where k: "intern H (dv_key v) nm = Some (k, nm1)" "table_ok H nm1" "grown nm nm1"
      "has_id nm1 k" "at_id nm1 k = dv_key v" "length (tb_strings nm1) + (length vs + n) \<le> B"
      by (rule intern_step [OF Cons.prems(1) r B])
    note g = named_grown [OF k(3) Cons.prems(3)]
    have f: "map (named nm1) (fold_number D accs k (dv_tag v) (number_of v)) =
        fold_number D (map (named nm) accs) (dv_key v) (dv_tag v) (number_of v)"
      "\<forall>a \<in> set (fold_number D accs k (dv_tag v) (number_of v)). has_id nm1 (ac_key a)"
      using fold_number_named [OF k(2,4) g(2)] g(1) k(5) by metis+
    obtain nm' accs' where i: "fold_values D H vs nm1 (fold_number D accs k (dv_tag v) (number_of v)) = Some (nm', accs')"
      "table_ok H nm'" "grown nm1 nm'" "length (tb_strings nm') + n \<le> B"
      "\<forall>a \<in> set accs'. has_id nm' (ac_key a)"
      "map (named nm') accs' = fold_all D (map (named nm1) (fold_number D accs k (dv_tag v) (number_of v))) (number_values vs)"
      using Cons.IH [OF k(2,6) f(2)] by blast
    have "grown nm nm'" using k(3) i(3) by (rule prefix_order.order_trans)
    then show ?thesis using True k(1) i f(1) by (simp add: number_values_def fold_all_def)
  qed
qed

section \<open>One event\<close>

lemma map_of_nth_update:
  assumes "distinct (map fst xs)" "i < length xs" "xs ! i = (k, w)"
  shows "map_of (xs[i := (k, v)]) = (map_of xs)(k \<mapsto> v)"
  using assms
proof (induction xs arbitrary: i)
  case (Cons x xs)
  show ?case
  proof (cases i)
    case (Suc j)
    then have "k \<in> fst ` set xs" using Cons.prems by (metis fst_conv image_eqI nth_Cons_Suc nth_mem length_Cons Suc_less_eq)
    then have "fst x \<noteq> k" using Cons.prems by auto
    then show ?thesis using Cons.IH [of j] Cons.prems Suc by (auto simp: fun_eq_iff)
  qed (use Cons.prems in \<open>auto simp: fun_eq_iff\<close>)
qed simp

definition old_row :: "row option \<Rightarrow> row" where
  "old_row r = (case r of None \<Rightarrow> (0, []) | Some r \<Rightarrow> r)"

lemma sort_key_fields:
  "set (sort_key kf_key fs) = set fs" "sorted (map kf_key (sort_key kf_key fs))"
  "length (sort_key kf_key fs) = length fs" "distinct (map kf_key (sort_key kf_key fs)) = distinct (map kf_key fs)"
  by (simp_all add: distinct_map)

text \<open>The row of the bucket that is found is the one of the event's group, if there is any.\<close>

lemma bucket_for_row:
  assumes ok: "interval_ok H names iv" and nt: "table_ok H names"
    and room: "length (iv_buckets iv) + 1 < 2 ^ 32 - 1" "length (iv_keys iv) + length fs < 2 ^ 32"
    and valid: "ident_valid names (iv_key_strings iv) (c, n, ty, tid, fs)"
  defines "g \<equiv> group_named names (iv_key_strings iv) (c, n, ty, tid, fs)"
  shows "\<exists>i iv'. bucket_for iv c n ty tid fs = Some (i, iv') \<and> interval_ok H names iv' \<and>
    iv_key_strings iv' = iv_key_strings iv \<and> i < length (iv_buckets iv') \<and>
    interval_rows names iv' ! i = (g, old_row (interval_table names iv g)) \<and>
    interval_table names iv' = (interval_table names iv)(g \<mapsto> old_row (interval_table names iv g)) \<and>
    length (iv_buckets iv') \<le> length (iv_buckets iv) + 1 \<and>
    length (iv_keys iv') \<le> length (iv_keys iv) + length fs"
proof -
  note d = interval_okD [OF ok]
  let ?id = "(c, n, ty, tid, fs)" and ?rows = "interval_rows names iv"
  obtain i iv' where b: "bucket_for iv c n ty tid fs = Some (i, iv')" "buckets_ok iv'"
    "iv_key_strings iv' = iv_key_strings iv" "i < length (iv_buckets iv')"
    "ident iv' (iv_buckets iv' ! i) = ?id"
    "\<forall>b \<in> set (iv_buckets iv). ident iv' b = ident iv b"
    "iv' = iv \<or> ?id \<notin> ident iv ` set (iv_buckets iv) \<and> iv_keys iv' = iv_keys iv @ fs \<and>
      (\<exists>b. iv_buckets iv' = iv_buckets iv @ [b] \<and> bk_count b = 0 \<and> bk_values b = []) \<and>
      i = length (iv_buckets iv)"
    using bucket_for_finds [OF d(1) room, of c n ty tid] by (elim exE conjE) (rule that)
  show ?thesis
  proof (cases "iv' = iv")
    case True
    let ?r = "row_of names (iv_buckets iv ! i)"
    have r: "?rows ! i = (g, ?r)" using b(4,5) True by (simp add: interval_rows_def g_def)
    moreover have "i < length ?rows" using b(4) True by (simp add: interval_rows_def)
    ultimately have "(g, ?r) \<in> set ?rows" by (metis nth_mem)
    then have t: "interval_table names iv g = Some ?r"
      using rows_distinct [OF nt ok] by (simp add: interval_table_def)
    have "(interval_table names iv)(g \<mapsto> ?r) = interval_table names iv" by (rule map_upd_triv) (rule t)
    then show ?thesis using b(1,4) True ok r t by (simp add: old_row_def)
  next
    case False
    then obtain b where new: "?id \<notin> ident iv ` set (iv_buckets iv)" "iv_keys iv' = iv_keys iv @ fs"
      "iv_buckets iv' = iv_buckets iv @ [b]" "bk_count b = 0" "bk_values b = []" "i = length (iv_buckets iv)"
      using b(7) by blast
    have id: "ident iv' b = ?id" using b(5) new by simp
    have rows: "interval_rows names iv' = ?rows @ [(g, (0, []))]"
      using b(3,6) new id by (simp add: interval_rows_def g_def row_of_def)
    have "g \<notin> fst ` set ?rows"
    proof
      assume "g \<in> fst ` set ?rows"
      then obtain b' where "b' \<in> set (iv_buckets iv)" "group_named names (iv_key_strings iv) (ident iv b') = g"
        by (auto simp: interval_rows_def)
      then have "ident iv b' = ?id" "b' \<in> set (iv_buckets iv)"
        using group_named_inj [OF nt d(2) d(3) valid] by (auto simp: g_def)
      then show False using new(1) by (metis image_eqI)
    qed
    then have t: "interval_table names iv g = None" by (simp add: interval_table_def map_of_eq_None_iff)
    have "interval_table names iv' = (interval_table names iv)(g \<mapsto> (0, []))"
      using t by (auto simp: interval_table_def rows fun_eq_iff map_add_def split: option.splits)
    moreover have "interval_ok H names iv'"
      using b(2,3,6) new d id valid by (simp add: interval_ok_def)
    moreover have "interval_rows names iv' ! i = (g, (0, []))"
      unfolding rows using new(6) by (simp add: interval_rows_def nth_append)
    ultimately show ?thesis using b(1,3,4) new t by (simp add: old_row_def)
  qed
qed

lemma find_or_add_bucket_row:
  assumes ok: "interval_ok H names iv" and nt: "table_ok H names"
    and B: "B \<le> 2 ^ 32 - 1" and room: "length (tb_strings names) + (length (de_values e) + n) \<le> B"
      "length (tb_strings (iv_key_strings iv)) + (length (de_values e) + m) \<le> B"
      "length (iv_buckets iv) + 1 < 2 ^ 32 - 1" "length (iv_keys iv) + length (de_values e) < 2 ^ 32"
    and c: "has_id names c" "at_id names c = de_category e" "has_id names n'" "at_id names n' = de_name e"
    and keys: "distinct (map dv_key (key_values (de_values e)))"
  shows "\<exists>i names' iv'. find_or_add_bucket H names iv e c n' = Some (i, names', iv') \<and>
    table_ok H names' \<and> grown names names' \<and> length (tb_strings names') + n \<le> B \<and>
    interval_ok H names' iv' \<and> i < length (iv_buckets iv') \<and>
    interval_rows names' iv' ! i = (event_group e, old_row (interval_table names iv (event_group e))) \<and>
    interval_table names' iv' =
      (interval_table names iv)(event_group e \<mapsto> old_row (interval_table names iv (event_group e))) \<and>
    length (tb_strings (iv_key_strings iv')) + m \<le> B \<and>
    length (iv_buckets iv') \<le> length (iv_buckets iv) + 1 \<and>
    length (iv_keys iv') \<le> length (iv_keys iv) + length (de_values e)"
proof -
  note d = interval_okD [OF ok]
  obtain fs names' ks where f: "scan_keys H (de_values e) names (iv_key_strings iv) = Some (fs, names', ks)"
    "table_ok H names'" "table_ok H ks" "grown names names'" "grown (iv_key_strings iv) ks"
    "length (tb_strings names') + n \<le> B" "length (tb_strings ks) + m \<le> B"
    "\<forall>f \<in> set fs. key_valid names' ks f"
    "map (key_name names' ks) fs = map event_key (key_values (de_values e))"
    using scan_keys_names [OF B nt d(2) room(1,2)] by blast
  let ?iv = "iv\<lparr>iv_key_strings := ks\<rparr>" and ?fs = "sort_key kf_key fs" and ?g = "event_group e"
  let ?ty = "eh_type (de_head e)" and ?tid = "eh_thread_id (de_head e)"
  have len: "length fs \<le> length (de_values e)"
    using arg_cong [OF f(9), of length] by (simp add: key_values_def)
  have ok': "interval_ok H names' ?iv" and rows: "interval_rows names' ?iv = interval_rows names iv"
    using interval_grown [OF f(4,5,3) ok] by blast+
  have "map fst (map (key_name names' ks) fs) = map dv_key (key_values (de_values e))"
    unfolding f(9) by (simp add: event_key_def)
  then have "distinct (map (\<lambda>f. at_id names' (kf_key f)) fs)" using keys by (simp add: key_name_def comp_def)
  then have "distinct (map kf_key fs)" by (metis (mono_tags, lifting) distinct_map inj_on_def)
  then have valid: "ident_valid names' ks (c, n', ?ty, ?tid, ?fs)"
    using f(8) c at_id_grown [OF f(4)] sort_key_fields [of fs] by (simp add: ident_valid_def)
  have g: "group_named names' ks (c, n', ?ty, ?tid, ?fs) = ?g"
    using c at_id_grown [OF f(4)] arg_cong [OF f(9), of set] by (simp add: group_named_def event_group_def)
  have r: "length (iv_buckets ?iv) + 1 < 2 ^ 32 - 1" "length (iv_keys ?iv) + length ?fs < 2 ^ 32"
    using room(3,4) len by simp_all
  have t: "interval_table names' ?iv = interval_table names iv" by (simp add: interval_table_def rows)
  have valid': "ident_valid names' (iv_key_strings ?iv) (c, n', ?ty, ?tid, ?fs)" using valid by simp
  obtain i iv' where b: "bucket_for ?iv c n' ?ty ?tid ?fs = Some (i, iv')" "interval_ok H names' iv'"
    "iv_key_strings iv' = ks" "i < length (iv_buckets iv')"
    "interval_rows names' iv' ! i = (?g, old_row (interval_table names iv ?g))"
    "interval_table names' iv' = (interval_table names iv)(?g \<mapsto> old_row (interval_table names iv ?g))"
    "length (iv_buckets iv') \<le> length (iv_buckets iv) + 1" "length (iv_keys iv') \<le> length (iv_keys iv) + length fs"
    using bucket_for_row [OF ok' f(2) r valid'] g t sort_key_fields(3) [of fs] by auto
  have "find_or_add_bucket H names iv e c n' = Some (i, names', iv')"
    using f(1) b(1) by (simp add: find_or_add_bucket_def)
  moreover have "length (iv_keys iv') \<le> length (iv_keys iv) + length (de_values e)" using b(8) len by linarith
  moreover have "length (tb_strings (iv_key_strings iv')) + m \<le> B" using b(3) f(7) by simp
  ultimately show ?thesis using f(2,4,6) b(2,4-7) by blast
qed

text \<open>Counting the event in the bucket found.\<close>

lemma count_in_bucket:
  fixes n :: u64
  assumes ok: "interval_ok H names iv" and nt: "table_ok H names" and i: "i < length (iv_buckets iv)"
    and g: "grown names names'" and nt': "table_ok H names'"
    and accs: "\<forall>a \<in> set accs. has_id names' (ac_key a)"
    and r: "interval_rows names iv ! i = (gr, r)"
  defines "iv' \<equiv> iv\<lparr>iv_buckets := (iv_buckets iv)[i := (iv_buckets iv ! i)\<lparr>bk_count := n, bk_values := accs\<rparr>]\<rparr>"
  shows "interval_ok H names' iv'"
    "interval_table names' iv' = (interval_table names iv)(gr \<mapsto> (n, map (named names') accs))"
proof -
  let ?b = "iv_buckets iv ! i" and ?b' = "(iv_buckets iv ! i)\<lparr>bk_count := n, bk_values := accs\<rparr>"
  have up: "interval_ok H names' iv" and rows: "interval_rows names' iv = interval_rows names iv"
    using interval_grown [OF g prefix_order.order_refl _ ok] interval_okD(2) [OF ok] by simp_all
  note d = interval_okD [OF up]
  have keys: "iv_key_strings iv' = iv_key_strings iv" "ident iv' = ident iv" by (simp_all add: iv'_def)
  have b: "?b \<in> set (iv_buckets iv)" using i by (rule nth_mem)
  have "set (iv_buckets iv') \<subseteq> insert ?b' (set (iv_buckets iv))"
    unfolding iv'_def by (simp add: set_update_subset_insert)
  then show "interval_ok H names' iv'"
    using buckets_ok_counted(1) [where n = n and accs = accs, OF d(1) i] d(2-4) d(3) [OF b] accs
    by (auto simp: interval_ok_def keys ident_counted iv'_def [symmetric])
  have "interval_rows names' iv' = (interval_rows names iv)[i := (gr, (n, map (named names') accs))]"
  proof -
    have "interval_rows names' iv' =
        (interval_rows names' iv)[i := (group_named names' (iv_key_strings iv) (ident iv ?b'), row_of names' ?b')]"
      by (simp add: interval_rows_def keys map_update iv'_def)
    moreover have "group_named names' (iv_key_strings iv) (ident iv ?b') = gr"
      using r rows i by (simp add: interval_rows_def ident_counted)
    ultimately show ?thesis using rows by (simp add: row_of_def)
  qed
  then show "interval_table names' iv' = (interval_table names iv)(gr \<mapsto> (n, map (named names') accs))"
    using map_of_nth_update [OF rows_distinct [OF nt ok] _ r] i
    by (simp add: interval_table_def interval_rows_def)
qed

section \<open>The invariant of the aggregator\<close>

text \<open>
  \<open>N\<close> bounds every table, so that ids and links stay below \<open>UINT32_MAX\<close>; an event adds at most
  its weight.
\<close>

definition event_weight :: "decoded_event \<Rightarrow> nat" where
  "event_weight e = 2 + 2 * length (de_values e)"

definition iv_sized :: "nat \<Rightarrow> interval \<Rightarrow> bool" where
  "iv_sized N iv \<longleftrightarrow> length (iv_buckets iv) \<le> N \<and> length (iv_keys iv) \<le> N \<and>
     length (tb_strings (iv_key_strings iv)) \<le> N"

definition agg_ok :: "(string \<Rightarrow> u64) \<Rightarrow> nat \<Rightarrow> packed_aggregator \<Rightarrow> bool" where
  "agg_ok H N st \<longleftrightarrow> table_ok H (pa_names st) \<and> length (tb_strings (pa_names st)) \<le> N \<and>
     has_id (pa_names st) (pa_dur_key st) \<and> at_id (pa_names st) (pa_dur_key st) = ''dur'' \<and>
     pa_cached_interval st \<noteq> 0 \<and> sorted_wrt (<) (map fst (pa_intervals st)) \<and>
     (\<forall>(ts, iv) \<in> set (pa_intervals st). interval_ok H (pa_names st) iv \<and> iv_sized N iv)"

lemma agg_okD:
  assumes "agg_ok H N st"
  shows "table_ok H (pa_names st)" "length (tb_strings (pa_names st)) \<le> N"
    "has_id (pa_names st) (pa_dur_key st)" "at_id (pa_names st) (pa_dur_key st) = ''dur''"
    "pa_cached_interval st \<noteq> 0" "sorted_wrt (<) (map fst (pa_intervals st))"
    "\<And>ts iv. (ts, iv) \<in> set (pa_intervals st) \<Longrightarrow> interval_ok H (pa_names st) iv \<and> iv_sized N iv"
  using assms by (auto simp: agg_ok_def)

text \<open>The table the aggregator stands for: a row per interval and group.\<close>

definition agg_table :: "packed_aggregator \<Rightarrow> u64 \<times> group \<Rightarrow> row option" where
  "agg_table st = (\<lambda>(ts, g). interval_table (pa_names st) (interval_of ts (pa_intervals st)) g)"

lemma set_put_interval: "set (put_interval ts iv ivs) \<subseteq> insert (ts, iv) (set ivs)"
  by (induction ts iv ivs rule: put_interval.induct) auto

lemma fst_put_interval: "fst ` set (put_interval ts iv ivs) = insert ts (fst ` set ivs)"
  by (induction ts iv ivs rule: put_interval.induct) auto

lemma sorted_put_interval:
  "sorted_wrt (<) (map fst ivs) \<Longrightarrow> sorted_wrt (<) (map fst (put_interval ts iv ivs))"
proof (induction ts iv ivs rule: put_interval.induct)
  case (2 ts iv t x ivs)
  have "\<forall>u \<in> fst ` set (put_interval ts iv ivs). u = ts \<or> t < u"
    using 2 by (simp only: fst_put_interval) auto
  then show ?case using 2 by auto
qed simp

lemma map_of_put_interval:
  "sorted_wrt (<) (map fst ivs) \<Longrightarrow> map_of (put_interval ts iv ivs) = (map_of ivs)(ts \<mapsto> iv)"
proof (induction ts iv ivs rule: put_interval.induct)
  case (2 ts iv t x ivs)
  have "map_of ((t, x) # ivs) ts = None" if "ts < t"
    using 2(2) that by (fastforce simp: map_of_eq_None_iff)
  then show ?case using 2 by (auto simp: fun_eq_iff)
qed simp

lemma interval_of_ok:
  assumes "agg_ok H N st"
  shows "interval_ok H (pa_names st) (interval_of ts (pa_intervals st))"
    "iv_sized N (interval_of ts (pa_intervals st))"
proof -
  have "interval_ok H (pa_names st) (interval_of ts (pa_intervals st)) \<and> iv_sized N (interval_of ts (pa_intervals st))"
  proof (cases "map_of (pa_intervals st) ts")
    case None
    then show ?thesis using interval_ok_empty by (simp add: interval_of_def iv_sized_def empty_interval_def empty_table_def)
  next
    case (Some iv)
    then show ?thesis using agg_okD(7) [OF assms] map_of_SomeD [OF Some] by (simp add: interval_of_def)
  qed
  then show "interval_ok H (pa_names st) (interval_of ts (pa_intervals st))"
    "iv_sized N (interval_of ts (pa_intervals st))" by blast+
qed

lemma interval_names_grown:
  assumes "grown names names'" "interval_ok H names iv"
  shows "interval_ok H names' iv" "interval_table names' iv = interval_table names iv"
  using interval_grown [OF assms(1) prefix_order.order_refl interval_okD(2) [OF assms(2)] assms(2)]
  by (simp_all add: interval_table_def)

text \<open>Every event is counted in its row, and nothing else changes.\<close>

definition step_table ::
  "'a double_math_scheme \<Rightarrow> u64 \<Rightarrow> decoded_event \<Rightarrow> (u64 \<times> group \<Rightarrow> row option) \<Rightarrow> u64 \<times> group \<Rightarrow> row option" where
  "step_table D ts e T =
     T((ts, event_group e) \<mapsto> fold_event D (old_row (T (ts, event_group e))) e)"

lemma aggregate_step:
  assumes ok: "agg_ok H N st" and room: "N + event_weight e < 2 ^ 32 - 1"
    and keys: "distinct (map dv_key (key_values (de_values e)))"
  shows "\<exists>st' opened. packed_aggregate D H st e = Some (st', opened) \<and> agg_ok H (N + event_weight e) st' \<and>
    agg_table st' = step_table D (interval_start st e) e (agg_table st) \<and>
    pa_cached_interval st' = pa_cached_interval st"
proof -
  note d = agg_okD [OF ok]
  let ?ts = "interval_start st e" and ?vs = "de_values e" and ?g = "event_group e"
  let ?iv = "interval_of ?ts (pa_intervals st)" and ?l = "length (de_values e)"
  have iok: "interval_ok H (pa_names st) ?iv" and isz: "iv_sized N ?iv" using interval_of_ok [OF ok] by blast+
  let ?B = "N + event_weight e"
  have B: "?B \<le> 2 ^ 32 - 1" using room by simp
  have "length (tb_strings (pa_names st)) + Suc (Suc (?l + ?l)) \<le> ?B"
    using d(2) by (simp add: event_weight_def)
  then obtain c nm1 where c: "intern H (de_category e) (pa_names st) = Some (c, nm1)" "table_ok H nm1"
    "grown (pa_names st) nm1" "has_id nm1 c" "at_id nm1 c = de_category e"
    "length (tb_strings nm1) + Suc (?l + ?l) \<le> ?B"
    by (rule intern_step [OF d(1) _ B])
  obtain n nm2 where n: "intern H (de_name e) nm1 = Some (n, nm2)" "table_ok H nm2"
    "grown nm1 nm2" "has_id nm2 n" "at_id nm2 n = de_name e" "length (tb_strings nm2) + (?l + ?l) \<le> ?B"
    by (rule intern_step [OF c(2,6) B])
  have g2: "grown (pa_names st) nm2" using c(3) n(3) by (rule prefix_order.order_trans)
  have c2: "has_id nm2 c" "at_id nm2 c = de_category e" using at_id_grown [OF n(3) c(4)] c(5) by simp_all
  note iv2 = interval_names_grown [OF g2 iok]
  have r: "length (tb_strings (iv_key_strings ?iv)) + (?l + 0) \<le> ?B" "length (iv_buckets ?iv) + 1 < 2 ^ 32 - 1"
    "length (iv_keys ?iv) + ?l < 2 ^ 32"
    using isz room by (simp_all add: iv_sized_def event_weight_def)
  obtain i nm3 iv where f: "find_or_add_bucket H nm2 ?iv e c n = Some (i, nm3, iv)" "table_ok H nm3"
    "grown nm2 nm3" "length (tb_strings nm3) + ?l \<le> ?B" "interval_ok H nm3 iv" "i < length (iv_buckets iv)"
    "interval_rows nm3 iv ! i = (?g, old_row (interval_table nm2 ?iv ?g))"
    "interval_table nm3 iv = (interval_table nm2 ?iv)(?g \<mapsto> old_row (interval_table nm2 ?iv ?g))"
    "length (tb_strings (iv_key_strings iv)) + 0 \<le> ?B" "length (iv_buckets iv) \<le> length (iv_buckets ?iv) + 1"
    "length (iv_keys iv) \<le> length (iv_keys ?iv) + ?l"
    using find_or_add_bucket_row [OF iv2(1) n(2) B n(6) r c2 n(4,5) keys] by (elim exE conjE) (rule that)
  let ?b = "iv_buckets iv ! i" and ?row = "old_row (agg_table st (?ts, ?g))"
  have row: "?row = row_of nm3 ?b" using f(6,7) iv2(2) by (simp add: agg_table_def interval_rows_def)
  have g3: "grown (pa_names st) nm3" using g2 f(3) by (rule prefix_order.order_trans)
  have b: "\<forall>a \<in> set (bk_values ?b). has_id nm3 (ac_key a)"
    using interval_okD(4) [OF f(5)] nth_mem [OF f(6)] by blast
  have dur: "has_id nm3 (pa_dur_key st)" "at_id nm3 (pa_dur_key st) = ''dur''"
    using at_id_grown [OF g3 d(3)] d(4) by simp_all
  let ?accs = "fold_number D (bk_values ?b) (pa_dur_key st) SHM_VALUE_UINT (eh_duration (de_head e))"
  have a: "map (named nm3) ?accs =
      fold_number D (snd ?row) ''dur'' SHM_VALUE_UINT (eh_duration (de_head e))"
    "\<forall>a \<in> set ?accs. has_id nm3 (ac_key a)"
    using fold_number_named [where D = D, OF f(2) dur(1) b] dur(2) row by (simp_all add: row_of_def)
  have r3: "length (tb_strings nm3) + (length ?vs + 0) \<le> ?B" using f(4) by simp
  obtain nm4 accs where v: "fold_values D H ?vs nm3 ?accs = Some (nm4, accs)" "table_ok H nm4" "grown nm3 nm4"
    "length (tb_strings nm4) + 0 \<le> ?B" "\<forall>a \<in> set accs. has_id nm4 (ac_key a)"
    "map (named nm4) accs = fold_all D (map (named nm3) ?accs) (number_values ?vs)"
    using fold_values_named [where D = D, OF B f(2) r3 a(2)] by (elim exE conjE) (rule that)
  define iv' where "iv' = iv\<lparr>iv_buckets := (iv_buckets iv)[i := ?b\<lparr>bk_count := bk_count ?b + 1, bk_values := accs\<rparr>]\<rparr>"
  note cnt = count_in_bucket [OF f(5,2,6) v(3,2,5) f(7), of "bk_count ?b + 1", folded iv'_def]
  have new: "(bk_count ?b + 1, map (named nm4) accs) = fold_event D ?row e"
    using row a(1) v(6) by (simp add: fold_event_def row_of_def event_values_def fold_all_def)
  have g4: "grown (pa_names st) nm4" using g3 v(3) by (rule prefix_order.order_trans)
  define st' where "st' = st\<lparr>pa_is_first := False,
    pa_last_interval := (if ?ts > pa_last_interval st then ?ts else pa_last_interval st),
    pa_names := nm4, pa_intervals := put_interval ?ts iv' (pa_intervals st)\<rparr>"
  have run: "\<exists>opened. packed_aggregate D H st e = Some (st', opened)"
    using c(1) n(1) f(1) v(1) by (simp add: packed_aggregate_def Let_def st'_def iv'_def)
  have "iv_sized ?B iv'" using isz f(9-11) by (simp add: iv_sized_def event_weight_def iv'_def)
  moreover have "iv_sized ?B iv0" if "iv_sized N iv0" for iv0 using that by (simp add: iv_sized_def)
  ultimately have each: "interval_ok H nm4 iv0 \<and> iv_sized ?B iv0"
    if "(t, iv0) \<in> set (put_interval ?ts iv' (pa_intervals st))" for t iv0
    using set_put_interval that cnt(1) d(7) interval_names_grown(1) [OF g4] by blast
  have "agg_ok H ?B st'"
    using v(2,4) at_id_grown [OF g4 d(3)] d(4-6) sorted_put_interval each by (auto simp: agg_ok_def st'_def)
  moreover have "agg_table st' = step_table D ?ts e (agg_table st)"
  proof
    fix p :: "u64 \<times> group"
    obtain t g where p: "p = (t, g)" by (cases p)
    have old: "interval_table nm4 (interval_of t (pa_intervals st)) = interval_table (pa_names st) (interval_of t (pa_intervals st))"
      by (rule interval_names_grown(2) [OF g4 interval_of_ok(1) [OF ok]])
    have "interval_of t (pa_intervals st') = (if t = ?ts then iv' else interval_of t (pa_intervals st))"
      by (simp add: st'_def interval_of_def map_of_put_interval [OF d(6)])
    then show "agg_table st' p = step_table D ?ts e (agg_table st) p"
      using cnt(2) new f(8) iv2(2) old by (simp add: p agg_table_def step_table_def st'_def)
  qed
  ultimately show ?thesis using run by (auto simp: st'_def)
qed

section \<open>A run\<close>

fun aggregate_all ::
  "'a double_math_scheme \<Rightarrow> (string \<Rightarrow> u64) \<Rightarrow> decoded_event list \<Rightarrow> packed_aggregator \<Rightarrow> packed_aggregator option" where
  "aggregate_all D H [] st = Some st"
| "aggregate_all D H (e # es) st =
     (case packed_aggregate D H st e of None \<Rightarrow> None | Some (st', opened) \<Rightarrow> aggregate_all D H es st')"

definition in_cell :: "packed_aggregator \<Rightarrow> u64 \<times> group \<Rightarrow> decoded_event \<Rightarrow> bool" where
  "in_cell st p e \<longleftrightarrow> (interval_start st e, event_group e) = p"

lemma fold_events:
  "foldl (fold_event D) (n, accs) es = (n + of_nat (length es), fold_all D accs (concat (map event_values es)))"
  by (induction es arbitrary: n accs) (simp_all add: fold_event_def fold_all_def)

lemma aggregate_all_table:
  assumes "agg_ok H N st" "N + sum_list (map event_weight es) < 2 ^ 32 - 1"
    "\<forall>e \<in> set es. distinct (map dv_key (key_values (de_values e)))"
  shows "\<exists>st'. aggregate_all D H es st = Some st' \<and> agg_ok H (N + sum_list (map event_weight es)) st' \<and>
    (\<forall>p. agg_table st' p = (let es' = filter (in_cell st p) es in
       if es' = [] then agg_table st p else Some (foldl (fold_event D) (old_row (agg_table st p)) es')))"
  using assms
proof (induction es arbitrary: N st)
  case (Cons e es)
  have "N + event_weight e < 2 ^ 32 - 1" "distinct (map dv_key (key_values (de_values e)))"
    using Cons.prems by simp_all
  from aggregate_step [where D = D, OF Cons.prems(1) this] obtain st1 opened where
    s: "packed_aggregate D H st e = Some (st1, opened)" "agg_ok H (N + event_weight e) st1"
    "agg_table st1 = step_table D (interval_start st e) e (agg_table st)"
    "pa_cached_interval st1 = pa_cached_interval st" by blast
  have "N + event_weight e + sum_list (map event_weight es) < 2 ^ 32 - 1"
    "\<forall>e \<in> set es. distinct (map dv_key (key_values (de_values e)))" using Cons.prems by simp_all
  from Cons.IH [OF s(2) this] obtain st' where
    i: "aggregate_all D H es st1 = Some st'"
    "agg_ok H (N + event_weight e + sum_list (map event_weight es)) st'"
    "\<And>p. agg_table st' p = (let es' = filter (in_cell st1 p) es in
       if es' = [] then agg_table st1 p else Some (foldl (fold_event D) (old_row (agg_table st1 p)) es'))"
    by blast
  have c: "in_cell st1 p = in_cell st p" for p
    by (simp add: in_cell_def interval_start_def s(4) fun_eq_iff)
  have "agg_table st' p = (let es' = filter (in_cell st p) (e # es) in
       if es' = [] then agg_table st p else Some (foldl (fold_event D) (old_row (agg_table st p)) es'))" for p
    unfolding i(3) s(3) c
    by (auto simp: Let_def step_table_def in_cell_def old_row_def)
  moreover have "agg_ok H (N + sum_list (map event_weight (e # es))) st'"
    using i(2) by (simp add: add.assoc)
  ultimately show ?case using s(1) i(1) by simp
qed simp

lemma agg_ok_new:
  "\<exists>st. new_aggregator D H incl excl metric ms = Some st \<and> agg_ok H 1 st \<and> agg_table st = Map.empty \<and>
    pa_intervals st = []"
proof -
  have "length (tb_strings empty_table) + Suc 0 \<le> 1" "(1 :: nat) \<le> 2 ^ 32 - 1"
    by (simp_all add: empty_table_def)
  from intern_step [OF table_ok_empty this] obtain i t where
    "intern H ''dur'' empty_table = Some (i, t)" "table_ok H t" "has_id t i" "at_id t i = ''dur''"
    "length (tb_strings t) + 0 \<le> 1" by metis
  then show ?thesis
    by (simp add: new_aggregator_def Let_def agg_ok_def agg_table_def interval_of_def
        interval_table_empty fun_eq_iff)
qed

text \<open>
  C16: Whatever the hash function does, folding events into a new aggregator computes a
  group-by: there is a row exactly for every interval and group (category, name, type, thread and
  the set of key fields) that has an event, with the number of its events and their durations
  and numeric values folded in order. It always returns, as long as the events have fewer than
  2 to the 32 fields in all.
\<close>

theorem packed_aggregation_is_group_by:
  assumes "new_aggregator D H incl excl metric ms = Some st0"
    and "\<forall>e \<in> set es. distinct (map dv_key (key_values (de_values e)))"
    and "sum_list (map event_weight es) < 2 ^ 32 - 2"
  shows "\<exists>st. aggregate_all D H es st0 = Some st \<and>
    (\<forall>ts g. agg_table st (ts, g) =
      (let es' = filter (\<lambda>e. interval_start st0 e = ts \<and> event_group e = g) es in
       if es' = [] then None
       else Some (of_nat (length es'), fold_all D [] (concat (map event_values es')))))"
proof -
  have st0: "agg_ok H 1 st0" "agg_table st0 = Map.empty"
    using agg_ok_new [of D H incl excl metric ms] assms(1) by auto
  have "1 + sum_list (map event_weight es) < 2 ^ 32 - 1" using assms(3) by simp
  from aggregate_all_table [where D = D, OF st0(1) this assms(2)] obtain st where
    "aggregate_all D H es st0 = Some st"
    "\<forall>p. agg_table st p = (let es' = filter (in_cell st0 p) es in
       if es' = [] then agg_table st0 p else Some (foldl (fold_event D) (old_row (agg_table st0 p)) es'))"
    by blast
  moreover have "in_cell st0 (ts, g) = (\<lambda>e. interval_start st0 e = ts \<and> event_group e = g)" for ts g
    by (simp add: in_cell_def fun_eq_iff)
  ultimately show ?thesis by (simp add: st0(2) old_row_def fold_events Let_def)
qed

section \<open>Draining\<close>

lemma drain_intervals_filter:
  assumes "sorted_wrt (<) (map fst ivs)"
  shows "drain_intervals rows all last_ts ivs =
    (concat (map rows [p \<leftarrow> ivs. all \<or> fst p < last_ts]), [p \<leftarrow> ivs. \<not> (all \<or> fst p < last_ts)])"
  using assms
proof (induction ivs)
  case (Cons p ivs)
  obtain ts iv where p: "p = (ts, iv)" by (cases p)
  show ?case
  proof (cases "\<not> all \<and> ts \<ge> last_ts")
    case True
    then have "\<forall>q \<in> set ivs. \<not> fst q < last_ts" using Cons.prems by (force simp: p)
    then have "[p \<leftarrow> ivs. all \<or> fst p < last_ts] = []" "[p \<leftarrow> ivs. \<not> (all \<or> fst p < last_ts)] = ivs"
      using True by (auto simp: filter_empty_conv filter_id_conv)
    moreover have "\<not> (all \<or> ts < last_ts)" using True by (simp add: not_less)
    ultimately show ?thesis using True by (simp add: p)
  next
    case False
    then show ?thesis using Cons by (auto simp: p not_le)
  qed
qed simp

lemma map_of_filter_keys:
  "distinct (map fst xs) \<Longrightarrow> map_of [p \<leftarrow> xs. Q (fst p)] k = (if Q k then map_of xs k else None)"
  by (induction xs) (auto simp: map_of_eq_None_iff)

lemma packed_drain_facts:
  assumes ok: "agg_ok H N st" and dr: "packed_drain g all pid hash st = (rows, st')"
  shows "agg_ok H N st'"
    "agg_table st' = (\<lambda>(ts, gr). if all \<or> ts < pa_last_interval st then None else agg_table st (ts, gr))"
    "rows = concat (map (\<lambda>(ts, iv). map (\<lambda>b. write_row g (pa_names st) iv b ts pid hash) (iv_buckets iv))
      [(ts, iv) \<leftarrow> pa_intervals st. all \<or> ts < pa_last_interval st])"
proof -
  note d = agg_okD [OF ok]
  let ?kept = "[p \<leftarrow> pa_intervals st. \<not> (all \<or> fst p < pa_last_interval st)]"
  have r: "rows = concat (map (\<lambda>(ts, iv). map (\<lambda>b. write_row g (pa_names st) iv b ts pid hash) (iv_buckets iv))
      [p \<leftarrow> pa_intervals st. all \<or> fst p < pa_last_interval st])"
    "st' = st\<lparr>pa_intervals := ?kept\<rparr>"
    using dr by (auto simp: packed_drain_def drain_intervals_filter [OF d(6)])
  show "rows = concat (map (\<lambda>(ts, iv). map (\<lambda>b. write_row g (pa_names st) iv b ts pid hash) (iv_buckets iv))
      [(ts, iv) \<leftarrow> pa_intervals st. all \<or> ts < pa_last_interval st])"
    unfolding r(1) by (simp add: case_prod_unfold)
  have "sorted_wrt (<) (map fst ?kept)"
    using d(6) by (simp add: sorted_wrt_map sorted_wrt_filter)
  then show "agg_ok H N st'" using d by (auto simp: agg_ok_def r(2))
  have "distinct (map fst (pa_intervals st))" using d(6) by (simp add: strict_sorted_iff)
  then have "map_of ?kept ts = (if all \<or> ts < pa_last_interval st then None else map_of (pa_intervals st) ts)" for ts
    using map_of_filter_keys [of "pa_intervals st" "\<lambda>t. \<not> (all \<or> t < pa_last_interval st)"] by simp
  then show "agg_table st' = (\<lambda>(ts, gr). if all \<or> ts < pa_last_interval st then None else agg_table st (ts, gr))"
    by (auto simp: agg_table_def fun_eq_iff interval_of_def r(2) interval_table_empty)
qed


text \<open>
  C18: Draining writes the rows of the complete intervals (those before the last opened one, or
  every one), one line for each of their buckets, oldest interval first, and drops exactly them:
  the table is as before for the intervals that stay and empty for the others.
\<close>

theorem drain_writes_complete_intervals:
  assumes "agg_ok H N st" and "packed_drain g all pid hash st = (rows, st')"
  shows "rows = concat (map (\<lambda>(ts, iv). map (\<lambda>b. write_row g (pa_names st) iv b ts pid hash) (iv_buckets iv))
      [(ts, iv) \<leftarrow> pa_intervals st. all \<or> ts < pa_last_interval st]) \<and>
    agg_table st' = (\<lambda>(ts, gr). if all \<or> ts < pa_last_interval st then None else agg_table st (ts, gr))"
  using packed_drain_facts(2,3) [OF assms] by blast

section \<open>What a row holds of a key\<close>

definition values_of :: "string \<Rightarrow> (string \<times> byte \<times> u64) list \<Rightarrow> u64 list" where
  "values_of k kvs = map (snd \<circ> snd) [x \<leftarrow> kvs. fst x = k]"

definition number_value :: "byte \<Rightarrow> u64 \<Rightarrow> int" where
  "number_value tag v = (if tag = SHM_VALUE_INT then sint v else uint v)"

lemma filter_fold_number:
  "[a \<leftarrow> fold_number D accs k tag v. ac_key a = k'] =
   (if k = k' then fold_number D [a \<leftarrow> accs. ac_key a = k'] k tag v else [a \<leftarrow> accs. ac_key a = k'])"
  by (induction accs) (auto simp: Let_def)

lemma filter_fold_all:
  "[a \<leftarrow> fold_all D accs kvs. ac_key a = k] =
   fold_all D [a \<leftarrow> accs. ac_key a = k] [x \<leftarrow> kvs. fst x = k]"
  by (induction kvs arbitrary: accs) (auto simp: fold_all_def filter_fold_number)

lemma less_number_int:
  "tag = SHM_VALUE_INT \<or> tag = SHM_VALUE_UINT \<Longrightarrow>
   less_number D tag a b \<longleftrightarrow> number_value tag a < number_value tag b"
  by (auto simp: less_number_def number_value_def word_less_def)

lemma fold_one_key:
  assumes t: "tag = SHM_VALUE_INT \<or> tag = SHM_VALUE_UINT"
  shows "\<exists>mn mx. fold_all D [\<lparr>ac_key = k, ac_tag = tag, ac_count = n, ac_sum = s, ac_min = l, ac_max = u\<rparr>]
      (map (\<lambda>v. (k, tag, v)) vs) =
    [\<lparr>ac_key = k, ac_tag = tag, ac_count = n + of_nat (length vs), ac_sum = s + sum_list vs, ac_min = mn, ac_max = mx\<rparr>] \<and>
    mn \<in> insert l (set vs) \<and> mx \<in> insert u (set vs) \<and>
    (\<forall>v \<in> insert l (set vs). number_value tag mn \<le> number_value tag v) \<and>
    (\<forall>v \<in> insert u (set vs). number_value tag v \<le> number_value tag mx)"
proof (induction vs arbitrary: n s l u)
  case (Cons v vs)
  let ?l = "min_number D tag l v" and ?u = "max_number D tag u v"
  have c: "convert_number D tag tag v = v" "add_number D tag s v = s + v"
    using t by (auto simp: convert_number_def add_number_def Let_def)
  obtain mn mx where i: "fold_all D [\<lparr>ac_key = k, ac_tag = tag, ac_count = n + 1, ac_sum = s + v, ac_min = ?l, ac_max = ?u\<rparr>]
      (map (\<lambda>v. (k, tag, v)) vs) =
    [\<lparr>ac_key = k, ac_tag = tag, ac_count = n + 1 + of_nat (length vs), ac_sum = s + v + sum_list vs, ac_min = mn, ac_max = mx\<rparr>]"
    "mn \<in> insert ?l (set vs)" "mx \<in> insert ?u (set vs)"
    "\<forall>v \<in> insert ?l (set vs). number_value tag mn \<le> number_value tag v"
    "\<forall>v \<in> insert ?u (set vs). number_value tag v \<le> number_value tag mx"
    using Cons.IH by metis
  have l: "?l \<in> {l, v}" "number_value tag ?l \<le> number_value tag l" "number_value tag ?l \<le> number_value tag v"
    using less_number_int [where D = D, OF t] by (auto simp: min_number_def)
  have u: "?u \<in> {u, v}" "number_value tag u \<le> number_value tag ?u" "number_value tag v \<le> number_value tag ?u"
    using less_number_int [where D = D, OF t] by (auto simp: max_number_def)
  have "fold_all D [\<lparr>ac_key = k, ac_tag = tag, ac_count = n, ac_sum = s, ac_min = l, ac_max = u\<rparr>]
      (map (\<lambda>v. (k, tag, v)) (v # vs)) =
    [\<lparr>ac_key = k, ac_tag = tag, ac_count = n + of_nat (length (v # vs)), ac_sum = s + sum_list (v # vs), ac_min = mn, ac_max = mx\<rparr>]"
    using i(1) by (simp add: fold_all_def Let_def c add.assoc)
  moreover have "mn \<in> insert l (set (v # vs))" "mx \<in> insert u (set (v # vs))" using i(2,3) l(1) u(1) by auto
  moreover have "\<forall>w \<in> insert l (set (v # vs)). number_value tag mn \<le> number_value tag w"
    using i(4) l(2,3) by (auto intro: order_trans)
  moreover have "\<forall>w \<in> insert u (set (v # vs)). number_value tag w \<le> number_value tag mx"
    using i(5) u(2,3) by (auto intro: order_trans)
  ultimately show ?case by blast
qed (simp add: fold_all_def)

text \<open>
  A key whose values are all of one integer type has one accumulator, with the number of
  its values, their sum modulo 2 to the 64, and the least and the greatest of them, as signed or
  unsigned numbers by their type, whatever values of other keys come in between.
\<close>

lemma integer_keys_are_summarised:
  assumes "tag = SHM_VALUE_INT \<or> tag = SHM_VALUE_UINT" and "values_of k kvs \<noteq> []"
    and "\<forall>x \<in> set kvs. fst x = k \<longrightarrow> fst (snd x) = tag"
  shows "\<exists>a. [a \<leftarrow> fold_all D [] kvs. ac_key a = k] = [a] \<and> ac_tag a = tag \<and>
    ac_count a = of_nat (length (values_of k kvs)) \<and> ac_sum a = sum_list (values_of k kvs) \<and>
    ac_min a \<in> set (values_of k kvs) \<and> ac_max a \<in> set (values_of k kvs) \<and>
    (\<forall>v \<in> set (values_of k kvs). number_value tag (ac_min a) \<le> number_value tag v \<and>
      number_value tag v \<le> number_value tag (ac_max a))"
proof -
  have f: "[x \<leftarrow> kvs. fst x = k] = map (\<lambda>v. (k, tag, v)) (values_of k kvs)"
    using assms(3) by (auto simp: values_of_def comp_def intro!: map_idI [symmetric]) force
  obtain v vs where v: "values_of k kvs = v # vs" using assms(2) by (cases "values_of k kvs") auto
  have "fold_all D [] (map (\<lambda>v. (k, tag, v)) (v # vs)) =
      fold_all D [\<lparr>ac_key = k, ac_tag = tag, ac_count = 1, ac_sum = v, ac_min = v, ac_max = v\<rparr>]
        (map (\<lambda>v. (k, tag, v)) vs)"
    by (simp add: fold_all_def)
  with fold_one_key [OF assms(1), of D k 1 v v v vs] show ?thesis
    unfolding filter_fold_all f v by auto
qed

section \<open>The rules see the same tags\<close>

lemma event_tag_entries:
  assumes "\<forall>x \<in> set md. length (fst x) \<le> 65535" "get_tag_value D md key = Some t"
  shows "event_tag D (map (\<lambda>(k, mt, v). decoded_entry g k mt v) md) key = t"
  using assms
proof (induction md)
  case Nil
  then show ?case by (simp add: get_tag_value_def metadata_find_def)
next
  case (Cons x md)
  obtain k mt v where x: "x = (k, mt, v)" by (cases x)
  have k: "dv_key (decoded_entry g k mt v) = k"
    using Cons.prems(1) by (cases v) (simp_all add: decoded_base_def x)
  show ?case
  proof (cases "k = key")
    case True
    then show ?thesis
      using Cons.prems(2) k
      by (cases v) (auto simp: x get_tag_value_def metadata_find_def decoded_base_def split: if_splits)
  next
    case False
    then have "get_tag_value D md key = Some t"
      using Cons.prems(2) by (simp add: x get_tag_value_def metadata_find_def)
    then show ?thesis using Cons k False by (simp add: x)
  qed
qed

text \<open>The key that \<open>Aggregator\<close> gives to the rules, for the same event with its \<open>Metadata\<close>.\<close>

definition metadata_rule_key ::
  "doubles \<Rightarrow> decoded_event \<Rightarrow> metadata \<Rightarrow> string option \<Rightarrow> u32 option \<Rightarrow> aggregated_key" where
  "metadata_rule_key D e md app rank =
     (event_rule_key D e app rank)\<lparr>ak_additional_keys := Some md, ak_tag_source := None\<rparr>"

definition entries_of :: "(u64 \<Rightarrow> string) \<Rightarrow> metadata \<Rightarrow> decoded_value list" where
  "entries_of g md = map (\<lambda>(k, mt, v). decoded_entry g k mt v) md"

lemma field_value_same:
  assumes "\<forall>x \<in> set md. length (fst x) \<le> 65535" "de_values e = entries_of g md"
    "get_field_value D (metadata_rule_key D e md app rank) path = Some f"
  shows "get_field_value D (event_rule_key D e app rank) path = Some f"
proof -
  have t: "get_tag_value D md key = Some t \<Longrightarrow> event_tag D (entries_of g md) key = t" for key t
    using event_tag_entries [OF assms(1)] by (simp add: entries_of_def)
  show ?thesis
    using assms(3) t
    by (cases path) (auto simp: get_field_value_def metadata_rule_key_def event_rule_key_def assms(2) Let_def
        split: if_splits list.splits)
qed

lemma eval_rule_same:
  assumes same: "\<And>path f. get_field_value D key path = Some f \<Longrightarrow> get_field_value D key' path = Some f"
  shows "eval_rule D key r = Some b \<Longrightarrow> eval_rule D key' r = Some b"
  by (induction r arbitrary: b) (auto simp: bind_eq_Some_conv dest!: same)

lemma satisfies_same:
  assumes same: "\<And>path f. get_field_value D key path = Some f \<Longrightarrow> get_field_value D key' path = Some f"
  shows "satisfies D key rs = Some b \<Longrightarrow> satisfies D key' rs = Some b"
proof (induction rs)
  case (Cons a rs)
  obtain x where x: "eval_rule D key a = Some x" "(if x then Some True else satisfies D key rs) = Some b"
    using Cons.prems by (auto simp: bind_eq_Some_conv)
  then have "eval_rule D key' a = Some x" using eval_rule_same [OF same] by blast
  then show ?case using x(2) Cons.IH by (cases x) simp_all
qed simp

text \<open>
  C19: The service decides selective aggregation as the process does: whenever the rules decide an
  event with its \<open>Metadata\<close>, \<open>PackedAggregator\<close> decides the same from the values decoded from the
  packed record of that \<open>Metadata\<close>.
\<close>

theorem service_decides_like_process:
  assumes "\<forall>x \<in> set md. length (fst x) \<le> 65535" and "de_values e = entries_of g md"
    and "should_aggregate D (pa_rules st) (metadata_rule_key D e md app rank) = Some b"
  shows "packed_should_aggregate D st e app rank = Some b"
proof -
  let ?k = "metadata_rule_key D e md app rank" and ?k' = "event_rule_key D e app rank"
  have same: "satisfies D ?k rs = Some x \<Longrightarrow> satisfies D ?k' rs = Some x" for rs x
    by (rule satisfies_same [OF field_value_same [OF assms(1,2)]])
  show ?thesis
  proof (cases "always_aggregate (pa_rules st)")
    case False
    then obtain i where i: "satisfies D ?k (inclusion_rules (pa_rules st)) = Some i"
      "(if \<not> i then Some False
        else do { x \<leftarrow> satisfies D ?k (exclusion_rules (pa_rules st)); Some (\<not> x) }) = Some b"
      using assms(3) by (auto simp: should_aggregate_def bind_eq_Some_conv)
    show ?thesis
    proof (cases i)
      case True
      then obtain x where "satisfies D ?k (exclusion_rules (pa_rules st)) = Some x" "b = (\<not> x)"
        using i(2) by (auto simp: bind_eq_Some_conv)
      then show ?thesis
        using True False same [OF i(1)] same by (simp add: packed_should_aggregate_def should_aggregate_def)
    qed (use i False same [OF i(1)] in \<open>simp add: packed_should_aggregate_def should_aggregate_def\<close>)
  qed (use assms(3) in \<open>simp add: packed_should_aggregate_def should_aggregate_def\<close>)
qed

section \<open>Instances\<close>

definition sample_math :: double_math where
  "sample_math = \<lparr>dbl_eq = (=), dbl_lt = (<), dbl_read = (\<lambda>_. None), dbl_show = show_u64, dbl_add = (+),
     dbl_of_int = id, dbl_of_uint = id, dbl_to_int = id, dbl_to_uint = id, dbl_interval = (\<lambda>_ ms. ms)\<rparr>"

definition sample_hash :: "string \<Rightarrow> u64" where
  "sample_hash s = of_nat (length s)"

definition sample_read :: "u64 \<Rightarrow> u64 \<Rightarrow> string \<Rightarrow> u64 \<Rightarrow> decoded_event" where
  "sample_read start dur file bytes =
     \<lparr>de_head = \<lparr>eh_start_time = start, eh_duration = dur, eh_thread_id = 7, eh_index = 0, eh_process_id = 1,
        eh_type = 0, eh_flags = 0, eh_name_len = 4, eh_category_len = 5, eh_meta_count = 2\<rparr>,
      de_name = ''read'', de_category = ''POSIX'',
      de_values = [decoded_entry show_u64 ''file'' MT_KEY (Any_string file),
        decoded_entry show_u64 ''ret'' MT_VALUE (Any_signed bytes)]\<rparr>"

lemma sample_values:
  "de_values (sample_read start dur file bytes) =
    [empty_value\<lparr>dv_tag := SHM_VALUE_STRING, dv_mtype := metadata_type_code MT_KEY, dv_key := ''file'', dv_s := file\<rparr>,
     empty_value\<lparr>dv_tag := SHM_VALUE_INT, dv_mtype := metadata_type_code MT_VALUE, dv_key := ''ret'', dv_i := bytes\<rparr>]"
  by (simp add: sample_read_def decoded_base_def)

lemma sample_weight: "event_weight (sample_read start dur file bytes) = 6"
  by (simp add: event_weight_def sample_values)

lemma sample_keys: "distinct (map dv_key (key_values (de_values (sample_read start dur file bytes))))"
  by (simp add: key_values_def sample_values)

lemma sample_group:
  "event_group (sample_read start dur file bytes) =
    \<lparr>gr_category = ''POSIX'', gr_name = ''read'', gr_type = 0, gr_thread_id = 7,
      gr_keys = {(''file'', Text_Key SHM_VALUE_STRING file)}\<rparr>"
  by (simp add: event_group_def key_values_def sample_values event_key_def is_number_def)
    (simp add: sample_read_def)

lemma sample_new:
  "\<exists>st0. new_aggregator sample_math sample_hash [] [] TIME_METRIC_US 1000 = Some st0 \<and>
     agg_ok sample_hash 1 st0 \<and> (\<forall>e. interval_start st0 e = eh_start_time (de_head e) div 1000 * 1000)"
  using agg_ok_new [of sample_math sample_hash "[]" "[]" TIME_METRIC_US 1000]
  by (auto simp: new_aggregator_def sample_math_def Let_def interval_start_def split: option.splits)

theorem packed_aggregation_is_group_by_witness:
  "\<exists>st0 st. new_aggregator sample_math sample_hash [] [] TIME_METRIC_US 1000 = Some st0 \<and>
    aggregate_all sample_math sample_hash
      [sample_read 100 5 ''a'' 10, sample_read 200 6 ''b'' 20, sample_read 900 7 ''a'' 30] st0 = Some st \<and>
    map_option fst (agg_table st (0, event_group (sample_read 0 0 ''a'' 0))) = Some 2"
proof -
  let ?es = "[sample_read 100 5 ''a'' 10, sample_read 200 6 ''b'' 20, sample_read 900 7 ''a'' 30]"
  obtain st0 where st0: "new_aggregator sample_math sample_hash [] [] TIME_METRIC_US 1000 = Some st0"
    "\<forall>e. interval_start st0 e = eh_start_time (de_head e) div 1000 * 1000"
    using sample_new by blast
  have "\<forall>e \<in> set ?es. distinct (map dv_key (key_values (de_values e)))" using sample_keys by simp
  moreover have "sum_list (map event_weight ?es) < 2 ^ 32 - 2" by (simp add: sample_weight)
  ultimately obtain st where st: "aggregate_all sample_math sample_hash ?es st0 = Some st"
    "\<forall>ts g. agg_table st (ts, g) =
      (let es' = filter (\<lambda>e. interval_start st0 e = ts \<and> event_group e = g) ?es in
       if es' = [] then None
       else Some (of_nat (length es'), fold_all sample_math [] (concat (map event_values es'))))"
    using packed_aggregation_is_group_by [OF st0(1), of ?es] by blast
  have g: "event_group (sample_read s d f n) = event_group (sample_read 0 0 ''a'' 0) \<longleftrightarrow> f = ''a''" for s d f n
    by (simp add: sample_group)
  have t: "interval_start st0 (sample_read s d f n) = s div 1000 * 1000" for s d f n
    using st0(2) by (simp add: sample_read_def)
  have "filter (\<lambda>e. interval_start st0 e = 0 \<and> event_group e = event_group (sample_read 0 0 ''a'' 0)) ?es =
      [sample_read 100 5 ''a'' 10, sample_read 900 7 ''a'' 30]"
    by (simp only: filter.simps g t) simp
  then have "map_option fst (agg_table st (0, event_group (sample_read 0 0 ''a'' 0))) = Some 2"
    using spec [OF spec [OF st(2), of 0], of "event_group (sample_read 0 0 ''a'' 0)"]
    by (simp only: Let_def) simp
  then show ?thesis using st0(1) st(1) by blast
qed


theorem drain_writes_complete_intervals_witness:
  "\<exists>st rows st'. agg_ok sample_hash 7 st \<and> packed_drain show_u64 True 1 ''h'' st = (rows, st') \<and>
    agg_table st' = Map.empty"
proof -
  obtain st0 where st0: "new_aggregator sample_math sample_hash [] [] TIME_METRIC_US 1000 = Some st0"
    "agg_ok sample_hash 1 st0" using sample_new by blast
  have w: "1 + event_weight (sample_read 100 5 ''a'' 10) < 2 ^ 32 - 1" by (simp add: sample_weight)
  obtain st where a: "agg_ok sample_hash 7 st"
    using aggregate_step [where D = sample_math, OF st0(2) w sample_keys] by (auto simp: sample_weight)
  obtain rows st' where d: "packed_drain show_u64 True 1 ''h'' st = (rows, st')"
    by (cases "packed_drain show_u64 True 1 ''h'' st")
  have "agg_table st' = Map.empty"
    using drain_writes_complete_intervals [OF a d] by (simp add: fun_eq_iff)
  then show ?thesis using a d by blast
qed

theorem integer_keys_are_summarised_witness:
  "\<exists>a. [a \<leftarrow> fold_all sample_math [] [(''ret'', SHM_VALUE_INT, 4), (''dur'', SHM_VALUE_UINT, 9), (''ret'', SHM_VALUE_INT, - 1)].
      ac_key a = ''ret''] = [a] \<and> ac_count a = 2 \<and> ac_sum a = 3 \<and> ac_min a \<in> {4, - 1}"
  using integer_keys_are_summarised
    [of SHM_VALUE_INT "''ret''" "[(''ret'', SHM_VALUE_INT, 4), (''dur'', SHM_VALUE_UINT, 9), (''ret'', SHM_VALUE_INT, - 1)]" sample_math]
  by (auto simp: values_of_def)

theorem service_decides_like_process_witness:
  "\<exists>st. pa_rules st = \<lparr>inclusion_rules = [Comparison Op_EQ [''tags.file''] (Val_string ''a'')],
      exclusion_rules = [], always_aggregate = False\<rparr> \<and>
    packed_should_aggregate (doubles.truncate sample_math) st (sample_read 0 0 ''a'' 1) None (Some 0) = Some True"
proof -
  let ?D = "doubles.truncate sample_math" and ?md = "[(''file'', MT_KEY, Any_string ''a''), (''ret'', MT_VALUE, Any_signed 1)]"
  obtain st0 :: packed_aggregator where "agg_ok sample_hash 1 st0" using sample_new by blast
  define st where "st = st0\<lparr>pa_rules := \<lparr>inclusion_rules = [Comparison Op_EQ [''tags.file''] (Val_string ''a'')],
    exclusion_rules = [], always_aggregate = False\<rparr>\<rparr>"
  have v: "de_values (sample_read 0 0 ''a'' 1) = entries_of show_u64 ?md"
    by (simp add: entries_of_def sample_read_def)
  have "should_aggregate ?D (pa_rules st) (metadata_rule_key ?D (sample_read 0 0 ''a'' 1) ?md None (Some 0)) = Some True"
    by (simp add: st_def should_aggregate_def metadata_rule_key_def event_rule_key_def get_field_value_def
        get_tag_value_def metadata_find_def compare_values_def)
  from service_decides_like_process [OF _ v this]
  have "packed_should_aggregate ?D st (sample_read 0 0 ''a'' 1) None (Some 0) = Some True" by simp
  then show ?thesis by (intro exI [of _ st]) (simp add: st_def)
qed

end
