(* ===== verification/Path_Filter.thy ===== *)
theory Path_Filter
  imports DFT_Text
begin

text \<open>
  Which files are traced: \<open>Trie\<close>, \<open>split\<close>, \<open>absolute_path\<close> and \<open>is_traced_common\<close> of
  \<open>core/utils/utils.h\<close>, with the tries that \<open>DFTracerCore::initialize\<close> fills. A node is
  its end mark and its children by character; \<open>nullptr\<close> is \<open>None\<close>. C strings are their
  characters before the terminator.
\<close>

section \<open>Tries\<close>

datatype trie = Trie_Node (ends: bool) (child: "char \<Rightarrow> trie option")

definition new_node :: trie where
  "new_node = Trie_Node False (\<lambda>_. None)"

fun insert_word :: "string \<Rightarrow> trie \<Rightarrow> trie" where
  "insert_word [] t = Trie_Node True (child t)"
| "insert_word (c # cs) t =
     Trie_Node (ends t)
       ((child t)(c \<mapsto> insert_word cs (case child t c of None \<Rightarrow> new_node | Some u \<Rightarrow> u)))"

text \<open>\<open>reverse\<close> goes through the word from its last character to its first.\<close>

definition trie_insert :: "trie \<Rightarrow> string \<Rightarrow> bool \<Rightarrow> trie" where
  "trie_insert root word reverse = insert_word (if reverse then rev word else word) root"

fun follow :: "string \<Rightarrow> trie \<Rightarrow> bool" where
  "follow [] t = ends t"
| "follow (c # cs) t = (case child t c of None \<Rightarrow> ends t | Some u \<Rightarrow> follow cs u)"

definition starts_with :: "trie \<Rightarrow> string \<Rightarrow> bool \<Rightarrow> bool" where
  "starts_with root word reverse =
     (if ends root then False else follow (if reverse then rev word else word) root)"

record path_trie =
  inclusion_prefix :: "trie option"
  exclusion_prefix :: "trie option"

definition new_path_trie :: path_trie where
  "new_path_trie = \<lparr>inclusion_prefix = Some new_node, exclusion_prefix = Some new_node\<rparr>"

definition insert_if :: "trie option \<Rightarrow> string \<Rightarrow> bool \<Rightarrow> trie option" where
  "insert_if root word reverse = map_option (\<lambda>t. trie_insert t word reverse) root"

definition include_path :: "string \<Rightarrow> path_trie \<Rightarrow> path_trie" where
  "include_path word t = t\<lparr>inclusion_prefix := insert_if (inclusion_prefix t) word False\<rparr>"

definition exclude_path :: "string \<Rightarrow> path_trie \<Rightarrow> path_trie" where
  "exclude_path word t = t\<lparr>exclusion_prefix := insert_if (exclusion_prefix t) word False\<rparr>"

definition include_reverse :: "string \<Rightarrow> path_trie \<Rightarrow> path_trie" where
  "include_reverse word t = t\<lparr>inclusion_prefix := insert_if (inclusion_prefix t) word True\<rparr>"

definition exclude_reverse :: "string \<Rightarrow> path_trie \<Rightarrow> path_trie" where
  "exclude_reverse word t = t\<lparr>exclusion_prefix := insert_if (exclusion_prefix t) word True\<rparr>"

definition is_included :: "path_trie \<Rightarrow> string \<Rightarrow> bool \<Rightarrow> bool" where
  "is_included t word reverse =
     (case inclusion_prefix t of None \<Rightarrow> False | Some root \<Rightarrow> starts_with root word reverse)"

definition is_excluded :: "path_trie \<Rightarrow> string \<Rightarrow> bool \<Rightarrow> bool" where
  "is_excluded t word reverse =
     (case exclusion_prefix t of None \<Rightarrow> False | Some root \<Rightarrow> starts_with root word reverse)"

definition finalize_trie :: "path_trie \<Rightarrow> path_trie" where
  "finalize_trie t = t\<lparr>inclusion_prefix := None, exclusion_prefix := None\<rparr>"

section \<open>The filter\<close>

lemma piece_shrinks:
  assumes "dropWhile (\<lambda>c. c = d) s \<noteq> []"
  shows "length (dropWhile (\<lambda>c. c \<noteq> d) (dropWhile (\<lambda>c. c = d) s)) < length s"
proof -
  obtain a l where al: "dropWhile (\<lambda>c. c = d) s = a # l" using assms by (cases "dropWhile (\<lambda>c. c = d) s") auto
  then have "a \<noteq> d" using hd_dropWhile [OF assms] by simp
  then have "length (dropWhile (\<lambda>c. c \<noteq> d) (a # l)) < length (a # l)"
    by (simp add: le_imp_less_Suc length_dropWhile_le)
  also have "\<dots> \<le> length s" using length_dropWhile_le [of "\<lambda>c. c = d" s] al by simp
  finally show ?thesis by (simp only: al)
qed

lemma part_shrinks: "p \<noteq> [] \<Longrightarrow> length (drop 1 (dropWhile (\<lambda>c. c \<noteq> d) p)) < length p"
  using length_dropWhile_le [of "\<lambda>c. c \<noteq> d" p] unfolding length_drop length_greater_0_conv [symmetric] by linarith

text \<open>\<open>split\<close>: the pieces between runs of delimiters, from \<open>last\<close> on.\<close>

function pieces :: "char \<Rightarrow> string \<Rightarrow> string list" where
  "pieces d s =
     (let s = dropWhile (\<lambda>c. c = d) s in
      if s = [] then []
      else takeWhile (\<lambda>c. c \<noteq> d) s # pieces d (dropWhile (\<lambda>c. c \<noteq> d) s))"
  by pat_completeness auto

termination
  by (relation "measure (length \<circ> snd)") (simp_all add: piece_shrinks del: dropWhile_eq_Nil_conv)

declare pieces.simps [simp del]

definition split_string :: "string \<Rightarrow> char \<Rightarrow> string list" where
  "split_string s d = (if d \<notin> set s then [s] else pieces d s)"

definition ignore_extensions :: "string list" where
  "ignore_extensions = [''.pfw'', ''.py'', ''.pfw.gz'']"

definition ignore_prefix :: "string list" where
  "ignore_prefix = [''/pipe'', ''/socket'', ''/proc'', ''/sys'', ''/collab'', ''anon_inode'',
     ''socket'', ''/var/tmp'']"

definition DFTRACER_DATA_DIR_DELIMITER :: char where "DFTRACER_DATA_DIR_DELIMITER = CHR '':''"

definition fill_trie :: "bool \<Rightarrow> string \<Rightarrow> path_trie \<Rightarrow> path_trie" where
  "fill_trie trace_all_files data_dirs t =
     (let t = fold exclude_path ignore_prefix t;
          t = fold exclude_reverse ignore_extensions t
      in if trace_all_files then t
         else fold include_path (split_string data_dirs DFTRACER_DATA_DIR_DELIMITER) t)"

definition is_traced_common :: "path_trie option \<Rightarrow> string \<Rightarrow> string option" where
  "is_traced_common trie filename =
     (case trie of
        None \<Rightarrow> None
      | Some t \<Rightarrow>
          (if filename = [] then None
           else if is_excluded t filename True then None
           else if is_included t filename False then Some filename
           else None))"

section \<open>Paths\<close>

definition slash :: char where "slash = CHR ''/''"

definition PATH_MAX :: nat where "PATH_MAX = 4096"

text \<open>The contents of \<open>buf\<close> up to \<open>len\<close>; \<open>None\<close> is the early return of the name as it is.\<close>

definition drop_last_part :: "string \<Rightarrow> string" where
  "drop_last_part buf = rev (drop 1 (dropWhile (\<lambda>c. c \<noteq> slash) (rev buf)))"

definition add_part :: "string \<Rightarrow> string \<Rightarrow> string option" where
  "add_part buf part =
     (if part = ''..'' then Some (drop_last_part buf)
      else if part \<noteq> [] \<and> part \<noteq> ''.''
        then (if length buf + 1 + length part \<ge> PATH_MAX then None else Some (buf @ slash # part))
      else Some buf)"

function add_parts :: "string \<Rightarrow> string \<Rightarrow> string option" where
  "add_parts buf p =
     (if p = [] then Some buf
      else (case add_part buf (takeWhile (\<lambda>c. c \<noteq> slash) p) of
          None \<Rightarrow> None
        | Some buf' \<Rightarrow> add_parts buf' (drop 1 (dropWhile (\<lambda>c. c \<noteq> slash) p))))"
  by pat_completeness auto

termination
  by (relation "measure (length \<circ> snd)", simp, unfold in_measure comp_def snd_conv) (rule part_shrinks)

declare add_parts.simps [simp del]

text \<open>\<open>cwd\<close> is what \<open>getcwd\<close> gives, \<open>None\<close> if it fails.\<close>

definition absolute_path :: "string option \<Rightarrow> string \<Rightarrow> string" where
  "absolute_path cwd filename =
     (if filename = [] \<or> hd filename = slash then filename
      else (case cwd of
          None \<Rightarrow> filename
        | Some dir \<Rightarrow>
            (case add_parts (if length dir = 1 then [] else dir) filename of
               None \<Rightarrow> filename
             | Some buf \<Rightarrow> (if buf = [] then [slash] else buf))))"

section \<open>Which words a trie matches\<close>

fun node_at :: "string \<Rightarrow> trie \<Rightarrow> trie option" where
  "node_at [] t = Some t"
| "node_at (c # cs) t = (case child t c of None \<Rightarrow> None | Some u \<Rightarrow> node_at cs u)"

definition stored :: "string \<Rightarrow> trie \<Rightarrow> bool" where
  "stored w t \<longleftrightarrow> (case node_at w t of None \<Rightarrow> False | Some u \<Rightarrow> ends u)"

lemma node_at_new: "node_at w new_node = (if w = [] then Some new_node else None)"
  by (cases w) (simp_all add: new_node_def)

lemma stored_new [simp]: "\<not> stored w new_node"
  by (cases w) (simp_all add: stored_def new_node_def)

lemma stored_insert: "stored p (insert_word w t) \<longleftrightarrow> p = w \<or> stored p t"
proof (induction w arbitrary: p t)
  case Nil
  then show ?case by (cases p) (simp_all add: stored_def)
next
  case (Cons c cs)
  show ?case
  proof (cases p)
    case (Cons x xs)
    then show ?thesis
      using Cons.IH [of xs "case child t c of None \<Rightarrow> new_node | Some u \<Rightarrow> u"] stored_new [of xs]
      by (auto simp: stored_def split: option.splits)
  qed (simp add: stored_def)
qed

lemma path_insert: "node_at p (insert_word w t) \<noteq> None \<longleftrightarrow> prefix p w \<or> node_at p t \<noteq> None"
proof (induction w arbitrary: p t)
  case Nil
  then show ?case by (cases p) simp_all
next
  case (Cons c cs)
  show ?case
  proof (cases p)
    case (Cons x xs)
    then show ?thesis
      using Cons.IH [of xs "case child t c of None \<Rightarrow> new_node | Some u \<Rightarrow> u"]
      by (auto simp: node_at_new split: option.splits if_splits)
  qed simp
qed

lemma follow_iff:
  "follow w t \<longleftrightarrow> (\<exists>p. prefix p w \<and> stored p t \<and> (p = w \<or> node_at (take (length p + 1) w) t = None))"
proof (induction w arbitrary: t)
  case Nil
  then show ?case by (simp add: stored_def)
next
  case (Cons c cs)
  show ?case
  proof (cases "child t c")
    case None
    then have "stored p t \<and> prefix p (c # cs) \<longleftrightarrow> p = [] \<and> ends t" for p
      by (cases p) (auto simp: stored_def)
    then show ?thesis using None by auto
  next
    case (Some u)
    have s: "stored (c # p) t \<longleftrightarrow> stored p u" for p using Some by (simp add: stored_def)
    have "(\<exists>p. prefix p (c # cs) \<and> stored p t \<and> (p = c # cs \<or> node_at (take (length p + 1) (c # cs)) t = None)) \<longleftrightarrow>
        (\<exists>p. prefix p cs \<and> stored p u \<and> (p = cs \<or> node_at (take (length p + 1) cs) u = None))" (is "?l = ?r")
    proof
      assume ?l
      then obtain p where p: "prefix p (c # cs)" "stored p t"
        "p = c # cs \<or> node_at (take (length p + 1) (c # cs)) t = None" by blast
      then obtain q where "p = c # q" using Some by (cases p) auto
      then show ?r using p s Some by auto
    next
      assume ?r
      then obtain p where "prefix p cs" "stored p u" "p = cs \<or> node_at (take (length p + 1) cs) u = None" by blast
      then show ?l using s Some by (intro exI [of _ "c # p"]) auto
    qed
    then show ?thesis using Cons.IH [of u] Some by simp
  qed
qed

definition trie_of :: "string list \<Rightarrow> trie" where
  "trie_of ws = fold insert_word ws new_node"

lemma stored_fold: "stored p (fold insert_word ws t) \<longleftrightarrow> p \<in> set ws \<or> stored p t"
  by (induction ws arbitrary: t) (auto simp: stored_insert)

lemma path_fold: "node_at p (fold insert_word ws t) \<noteq> None \<longleftrightarrow> (\<exists>w \<in> set ws. prefix p w) \<or> node_at p t \<noteq> None"
  by (induction ws arbitrary: t) (use path_insert in auto)

text \<open>The longest word of the trie along \<open>w\<close> counts only if no other word goes on along \<open>w\<close>.\<close>

definition goes_on :: "string list \<Rightarrow> string \<Rightarrow> string \<Rightarrow> bool" where
  "goes_on ws p w \<longleftrightarrow> length p < length w \<and> (\<exists>u \<in> set ws. prefix (take (length p + 1) w) u)"

lemma starts_with_iff:
  "starts_with (trie_of ws) w False \<longleftrightarrow>
     [] \<notin> set ws \<and> (\<exists>p \<in> set ws. prefix p w \<and> \<not> goes_on ws p w)"
proof -
  have st: "stored p (trie_of ws) \<longleftrightarrow> p \<in> set ws" for p
    by (simp add: trie_of_def stored_fold)
  have e: "ends (trie_of ws) \<longleftrightarrow> [] \<in> set ws" using st [of "[]"] by (simp add: stored_def)
  have n: "p = w \<or> node_at (take (length p + 1) w) (trie_of ws) = None \<longleftrightarrow> \<not> goes_on ws p w" if p: "prefix p w" for p
  proof (cases "p = w")
    case False
    then have l: "length p < length w" using p prefix_length_less by (metis strict_prefixI)
    then have "take (length p + 1) w \<noteq> []" by auto
    then show ?thesis
      using False l path_fold [of "take (length p + 1) w" ws new_node]
      by (auto simp: goes_on_def trie_of_def node_at_new)
  qed (simp add: goes_on_def)
  show ?thesis using e st n by (auto simp: starts_with_def follow_iff)
qed

definition prefix_free :: "string list \<Rightarrow> bool" where
  "prefix_free ws \<longleftrightarrow> (\<forall>u \<in> set ws. \<forall>v \<in> set ws. prefix u v \<longrightarrow> u = v)"

lemma starts_with_prefix_free:
  assumes "prefix_free ws" "[] \<notin> set ws"
  shows "starts_with (trie_of ws) w False \<longleftrightarrow> (\<exists>p \<in> set ws. prefix p w)"
proof -
  have "\<not> goes_on ws p w" if p: "p \<in> set ws" "prefix p w" for p
  proof
    assume "goes_on ws p w"
    then obtain u where u: "length p < length w" "u \<in> set ws" "prefix (take (length p + 1) w) u"
      by (auto simp: goes_on_def)
    have "prefix p (take (length p + 1) w)" using p(2) by (auto simp: prefix_def)
    then have "prefix p u" using u(3) by (rule prefix_order.order_trans)
    then have "p = u" using assms(1) p(1) u(2) by (auto simp: prefix_free_def)
    then show False using u(1,3) prefix_length_le by fastforce
  qed
  then show ?thesis using assms(2) by (auto simp: starts_with_iff)
qed

lemma fold_include:
  "inclusion_prefix t = Some r \<Longrightarrow> fold include_path ws t = t\<lparr>inclusion_prefix := Some (fold insert_word ws r)\<rparr>"
  by (induction ws arbitrary: t r) (simp_all add: include_path_def insert_if_def trie_insert_def)

lemma fold_exclude:
  "exclusion_prefix t = Some r \<Longrightarrow> fold exclude_path ws t = t\<lparr>exclusion_prefix := Some (fold insert_word ws r)\<rparr>"
  by (induction ws arbitrary: t r) (simp_all add: exclude_path_def insert_if_def trie_insert_def)

lemma fold_exclude_reverse:
  "exclusion_prefix t = Some r \<Longrightarrow>
   fold exclude_reverse ws t = t\<lparr>exclusion_prefix := Some (fold insert_word (map rev ws) r)\<rparr>"
  by (induction ws arbitrary: t r) (simp_all add: exclude_reverse_def insert_if_def trie_insert_def)

lemma filled_tries:
  "fill_trie False data_dirs new_path_trie =
    \<lparr>inclusion_prefix = Some (trie_of (split_string data_dirs DFTRACER_DATA_DIR_DELIMITER)),
      exclusion_prefix = Some (trie_of (ignore_prefix @ map rev ignore_extensions))\<rparr>"
  by (simp add: fill_trie_def new_path_trie_def fold_include fold_exclude fold_exclude_reverse trie_of_def Let_def)

lemma ignored_prefix_free: "prefix_free (ignore_prefix @ map rev ignore_extensions)"
  by (simp add: prefix_free_def ignore_prefix_def ignore_extensions_def)

lemma excluded_iff:
  "is_excluded (fill_trie False data_dirs new_path_trie) f True \<longleftrightarrow>
    (\<exists>x \<in> set ignore_extensions. suffix x f) \<or> (\<exists>x \<in> set ignore_prefix. suffix (rev x) f)"
proof -
  have "[] \<notin> set (ignore_prefix @ map rev ignore_extensions)"
    by (simp add: ignore_prefix_def ignore_extensions_def)
  note s = starts_with_prefix_free [OF ignored_prefix_free this, of "rev f"]
  have "starts_with t f True = starts_with t (rev f) False" for t by (simp add: starts_with_def)
  then show ?thesis
    using s by (auto simp: is_excluded_def filled_tries suffix_to_prefix)
qed

lemma included_iff:
  "is_included (fill_trie False data_dirs new_path_trie) f False =
    starts_with (trie_of (split_string data_dirs DFTRACER_DATA_DIR_DELIMITER)) f False"
  by (simp add: is_included_def filled_tries)

text \<open>
  C20: When no data directory is a prefix of another, a file is traced exactly when a data
  directory is a prefix of its name and the name ends neither in an ignored extension nor in an
  ignored folder written backwards (the folders go into the trie forwards, but are looked up
  from the end of the name).
\<close>

theorem traced_files_by_prefix_and_suffix:
  assumes "prefix_free (split_string data_dirs DFTRACER_DATA_DIR_DELIMITER)"
    and "[] \<notin> set (split_string data_dirs DFTRACER_DATA_DIR_DELIMITER)"
  shows "is_traced_common (Some (fill_trie False data_dirs new_path_trie)) f =
    (if f \<noteq> [] \<and> (\<exists>d \<in> set (split_string data_dirs DFTRACER_DATA_DIR_DELIMITER). prefix d f) \<and>
        \<not> (\<exists>x \<in> set ignore_extensions. suffix x f) \<and> \<not> (\<exists>x \<in> set ignore_prefix. suffix (rev x) f)
     then Some f else None)"
  using starts_with_prefix_free [OF assms, of f]
  by (simp add: is_traced_common_def excluded_iff included_iff)

theorem traced_files_by_prefix_and_suffix_witness:
  "is_traced_common (Some (fill_trie False ''/'' new_path_trie)) ''/proc/self/maps'' = Some ''/proc/self/maps'' \<and>
   is_traced_common (Some (fill_trie False ''/'' new_path_trie)) ''/data/corp/'' = None"
proof -
  have d: "split_string ''/'' DFTRACER_DATA_DIR_DELIMITER = [''/'']"
    by (simp add: split_string_def DFTRACER_DATA_DIR_DELIMITER_def)
  have "prefix_free (split_string ''/'' DFTRACER_DATA_DIR_DELIMITER)"
    "[] \<notin> set (split_string ''/'' DFTRACER_DATA_DIR_DELIMITER)"
    by (simp_all add: d prefix_free_def)
  note t = traced_files_by_prefix_and_suffix [OF this]
  show ?thesis
    unfolding t d by (simp add: ignore_extensions_def ignore_prefix_def suffix_to_prefix)
qed

text \<open>
  With the data directories \<open>/data\<close> and \<open>/data/set1/train\<close> a file of the second is traced,
  but no other file of \<open>/data\<close>, which is one of the directories: the lookup forgets the
  shorter one as soon as the longer one leads it on.
\<close>

lemma nested_data_dir_hides_files:
  "is_traced_common (Some (fill_trie False ''/data:/data/set1/train'' new_path_trie)) ''/data/x.npy'' = None \<and>
   is_traced_common (Some (fill_trie False ''/data:/data/set1/train'' new_path_trie)) ''/data/set1/train/x.npy'' =
     Some ''/data/set1/train/x.npy'' \<and>
   is_traced_common (Some (fill_trie False ''/data'' new_path_trie)) ''/data/x.npy'' = Some ''/data/x.npy''"
proof -
  have d: "split_string ''/data:/data/set1/train'' DFTRACER_DATA_DIR_DELIMITER = [''/data'', ''/data/set1/train'']"
    by (simp add: split_string_def DFTRACER_DATA_DIR_DELIMITER_def pieces.simps)
  have d1: "split_string ''/data'' DFTRACER_DATA_DIR_DELIMITER = [''/data'']"
    by (simp add: split_string_def DFTRACER_DATA_DIR_DELIMITER_def)
  show ?thesis
    unfolding is_traced_common_def option.case excluded_iff included_iff starts_with_iff d d1
    by (simp add: ignore_extensions_def ignore_prefix_def suffix_to_prefix goes_on_def)
qed

section \<open>Absolute paths\<close>

definition proper_part :: "string \<Rightarrow> bool" where
  "proper_part c \<longleftrightarrow> c \<noteq> [] \<and> slash \<notin> set c \<and> c \<noteq> ''.'' \<and> c \<noteq> ''..''"

definition path_of :: "string list \<Rightarrow> string" where
  "path_of cs = (if cs = [] then [slash] else concat (map ((#) slash) cs))"

text \<open>What a part does to the directory: \<open>..\<close> goes up (not above the root), \<open>.\<close> and nothing stay.\<close>

definition enter :: "string list \<Rightarrow> string \<Rightarrow> string list" where
  "enter cs part = (if part = ''..'' then butlast cs
     else if part = [] \<or> part = ''.'' then cs else cs @ [part])"

lemma drop_last_part_path:
  assumes "list_all proper_part cs"
  shows "drop_last_part (concat (map ((#) slash) cs)) = concat (map ((#) slash) (butlast cs))"
proof (cases cs rule: rev_cases)
  case (snoc xs x)
  then have "slash \<notin> set x" using assms by (simp add: proper_part_def)
  then have "dropWhile (\<lambda>c. c \<noteq> slash) (rev x @ slash # ys) = slash # ys" for ys
    by (subst dropWhile_append2) auto
  then show ?thesis using snoc by (simp add: drop_last_part_def)
qed (simp add: drop_last_part_def)

lemma split_on_first:
  "split_on d p = takeWhile (\<lambda>c. c \<noteq> d) p #
    (if d \<in> set p then split_on d (drop 1 (dropWhile (\<lambda>c. c \<noteq> d) p)) else [])"
  by (induction p) (auto split: list.splits)

lemma add_parts_path:
  assumes "list_all proper_part cs" "length (concat (map ((#) slash) cs)) + length p + (if p = [] then 0 else 1) < PATH_MAX"
  shows "add_parts (concat (map ((#) slash) cs)) p =
      Some (concat (map ((#) slash) (foldl enter cs (split_on slash p)))) \<and>
    list_all proper_part (foldl enter cs (split_on slash p))"
  using assms
proof (induction p arbitrary: cs rule: measure_induct_rule [of length])
  case (less p)
  show ?case
  proof (cases "p = []")
    case True
    then show ?thesis using less.prems by (simp add: add_parts.simps enter_def)
  next
    case False
    let ?part = "takeWhile (\<lambda>c. c \<noteq> slash) p" and ?rest = "drop 1 (dropWhile (\<lambda>c. c \<noteq> slash) p)"
    let ?r = "\<lambda>cs. concat (map ((#) slash) cs)"
    have l: "length ?part + length (dropWhile (\<lambda>c. c \<noteq> slash) p) = length p"
      by (metis length_append takeWhile_dropWhile_id)
    have n: "slash \<notin> set ?part" using set_takeWhileD by fastforce
    have room: "length (?r cs) + 1 + length ?part < PATH_MAX" using less.prems(2) l False by simp
    have a: "add_part (?r cs) ?part = Some (?r (enter cs ?part))"
      using room less.prems(1) by (simp add: add_part_def enter_def drop_last_part_path)
    have g: "list_all proper_part (enter cs ?part)"
      using less.prems(1) n by (auto simp: enter_def proper_part_def list_all_iff dest: in_set_butlastD)
    have "length (?r (butlast cs)) \<le> length (?r cs)" by (cases cs rule: rev_cases) simp_all
    then have e: "length (?r (enter cs ?part)) \<le> length (?r cs) + length ?part + (if ?part = [] then 0 else 1)"
      by (simp add: enter_def)
    have rl: "length ?rest = length (dropWhile (\<lambda>c. c \<noteq> slash) p) - 1" by simp
    have "length (?r (enter cs ?part)) + length ?rest + (if ?rest = [] then 0 else 1) < PATH_MAX"
    proof (cases "?rest = []")
      case True
      then show ?thesis using e room by (simp split: if_splits)
    next
      case False
      then have "length ?rest + 1 + length ?part = length p" using rl l by (cases "dropWhile (\<lambda>c. c \<noteq> slash) p") simp_all
      then show ?thesis using e less.prems(2) False \<open>p \<noteq> []\<close> by (simp split: if_splits)
    qed
    note ih = less.IH [OF part_shrinks [OF False] g this]
    have s: "foldl enter (enter cs ?part) (split_on slash ?rest) = foldl enter cs (split_on slash p)"
    proof (cases "slash \<in> set p")
      case True
      then show ?thesis by (subst (2) split_on_first) simp
    next
      case False
      then have r: "dropWhile (\<lambda>c. c \<noteq> slash) p = []" by auto
      have n: "enter xs [] = xs" for xs by (simp add: enter_def)
      from False show ?thesis
        by (subst (2) split_on_first) (simp only: r drop_Nil split_on.simps foldl.simps if_False n)
    qed
    show ?thesis using ih [unfolded s] False a by (subst add_parts.simps) simp
  qed
qed

text \<open>
  C21: A relative name is made absolute as a walk from the current directory: its parts are
  entered one by one, dots dropped and double dots taken up, never above the root. The result is
  the path of the directory reached, without a dot part, whenever it fits \<open>PATH_MAX\<close>.
\<close>

theorem absolute_path_is_walk:
  assumes "list_all proper_part cs" and "filename \<noteq> []" and "hd filename \<noteq> slash"
    and "length (path_of cs) + length filename + 1 < PATH_MAX"
  shows "absolute_path (Some (path_of cs)) filename = path_of (foldl enter cs (split_on slash filename)) \<and>
    list_all proper_part (foldl enter cs (split_on slash filename))"
proof -
  have one: "length (path_of cs) = 1 \<longleftrightarrow> cs = []"
    using assms(1) by (cases cs) (auto simp: path_of_def proper_part_def)
  have buf: "(if length (path_of cs) = 1 then [] else path_of cs) = concat (map ((#) slash) cs)"
    unfolding one by (simp add: path_of_def)
  have "length (concat (map ((#) slash) cs)) + length filename + (if filename = [] then 0 else 1) < PATH_MAX"
    using assms(2,4) by (cases "cs = []") (simp_all add: path_of_def)
  note p = add_parts_path [OF assms(1) this]
  have e: "concat (map ((#) slash) xs) = [] \<longleftrightarrow> xs = []" for xs :: "string list" by (cases xs) simp_all
  show ?thesis
    unfolding absolute_path_def option.case buf using assms(2,3) p e by (simp add: path_of_def)
qed

theorem absolute_path_is_walk_witness:
  "absolute_path (Some ''/home/u'') ''../v/./x'' = ''/home/v/x''"
proof -
  have "list_all proper_part [''home'', ''u'']" by (simp add: proper_part_def slash_def)
  from absolute_path_is_walk [OF this, of "''../v/./x''"] show ?thesis
    by (simp add: path_of_def slash_def PATH_MAX_def enter_def)
qed

end
