(* ===== verification/Md5.thy ===== *)
theory Md5
  imports DFT_Text
begin

text \<open>
  The hash of names: \<open>core/utils/md5.cpp\<close> and \<open>DFTLogger::get_hash\<close> of \<open>core/df_logger.h\<close>.
  The main theorem relates the incremental code (a buffer of 64 bytes, padding through the
  same update) to MD5 as the standard states it: pad the message, then fold the step over its
  blocks. Lengths are below 4 GiB, the range of the loop counter of \<open>md5Update\<close>.
\<close>

section \<open>The code\<close>

definition md5_shifts :: "nat list" where
  "md5_shifts =
    [7, 12, 17, 22, 7, 12, 17, 22, 7, 12, 17, 22, 7, 12, 17, 22,
     5, 9, 14, 20, 5, 9, 14, 20, 5, 9, 14, 20, 5, 9, 14, 20,
     4, 11, 16, 23, 4, 11, 16, 23, 4, 11, 16, 23, 4, 11, 16, 23,
     6, 10, 15, 21, 6, 10, 15, 21, 6, 10, 15, 21, 6, 10, 15, 21]"

definition md5_sines :: "u32 list" where
  "md5_sines =
    [0xd76aa478, 0xe8c7b756, 0x242070db, 0xc1bdceee, 0xf57c0faf, 0x4787c62a,
     0xa8304613, 0xfd469501, 0x698098d8, 0x8b44f7af, 0xffff5bb1, 0x895cd7be,
     0x6b901122, 0xfd987193, 0xa679438e, 0x49b40821, 0xf61e2562, 0xc040b340,
     0x265e5a51, 0xe9b6c7aa, 0xd62f105d, 0x02441453, 0xd8a1e681, 0xe7d3fbc8,
     0x21e1cde6, 0xc33707d6, 0xf4d50d87, 0x455a14ed, 0xa9e3e905, 0xfcefa3f8,
     0x676f02d9, 0x8d2a4c8a, 0xfffa3942, 0x8771f681, 0x6d9d6122, 0xfde5380c,
     0xa4beea44, 0x4bdecfa9, 0xf6bb4b60, 0xbebfbc70, 0x289b7ec6, 0xeaa127fa,
     0xd4ef3085, 0x04881d05, 0xd9d4d039, 0xe6db99e5, 0x1fa27cf8, 0xc4ac5665,
     0xf4292244, 0x432aff97, 0xab9423a7, 0xfc93a039, 0x655b59c3, 0x8f0ccc92,
     0xffeff47d, 0x85845dd1, 0x6fa87e4f, 0xfe2ce6e0, 0xa3014314, 0x4e0811a1,
     0xf7537e82, 0xbd3af235, 0x2ad7d2bb, 0xeb86d391]"

definition md5_padding :: "byte list" where
  "md5_padding = 0x80 # replicate 63 0"

definition md5_F :: "u32 \<Rightarrow> u32 \<Rightarrow> u32 \<Rightarrow> u32" where
  "md5_F x y z = (x AND y) OR (NOT x AND z)"

definition md5_G :: "u32 \<Rightarrow> u32 \<Rightarrow> u32 \<Rightarrow> u32" where
  "md5_G x y z = (x AND z) OR (y AND NOT z)"

definition md5_H :: "u32 \<Rightarrow> u32 \<Rightarrow> u32 \<Rightarrow> u32" where
  "md5_H x y z = xor (xor x y) z"

definition md5_I :: "u32 \<Rightarrow> u32 \<Rightarrow> u32 \<Rightarrow> u32" where
  "md5_I x y z = xor y (x OR NOT z)"

definition rotate_left :: "u32 \<Rightarrow> nat \<Rightarrow> u32" where
  "rotate_left x n = push_bit n x OR drop_bit (32 - n) x"

text \<open>One of the 64 rounds of \<open>md5Step\<close>.\<close>

definition md5_round :: "u32 list \<Rightarrow> u32 \<times> u32 \<times> u32 \<times> u32 \<Rightarrow> nat \<Rightarrow> u32 \<times> u32 \<times> u32 \<times> u32" where
  "md5_round input = (\<lambda>(a, b, c, d) i.
     let (e, j) =
       (if i div 16 = 0 then (md5_F b c d, i)
        else if i div 16 = 1 then (md5_G b c d, (i * 5 + 1) mod 16)
        else if i div 16 = 2 then (md5_H b c d, (i * 3 + 5) mod 16)
        else (md5_I b c d, (i * 7) mod 16))
     in (d, b + rotate_left (a + e + md5_sines ! i + input ! j) (md5_shifts ! i), b, c))"

definition md5_step :: "u32 list \<Rightarrow> u32 list \<Rightarrow> u32 list" where
  "md5_step buffer input =
     (let (a, b, c, d) = foldl (md5_round input) (buffer ! 0, buffer ! 1, buffer ! 2, buffer ! 3) [0..<64]
      in [buffer ! 0 + a, buffer ! 1 + b, buffer ! 2 + c, buffer ! 3 + d])"

record md5_context =
  md_size :: u64
  md_buffer :: "u32 list"
  md_input :: "byte list"

definition md5_init :: md5_context where
  "md5_init = \<lparr>md_size = 0, md_buffer = [0x67452301, 0xefcdab89, 0x98badcfe, 0x10325476],
     md_input = replicate 64 0\<rparr>"

definition load_word :: "byte list \<Rightarrow> nat \<Rightarrow> u32" where
  "load_word input j =
     push_bit 24 (ucast (input ! (j * 4 + 3))) OR push_bit 16 (ucast (input ! (j * 4 + 2))) OR
     push_bit 8 (ucast (input ! (j * 4 + 1))) OR ucast (input ! (j * 4))"

text \<open>The loop of \<open>md5Update\<close> over the bytes, from an offset into the input buffer.\<close>

definition update_byte :: "u32 list \<times> byte list \<times> nat \<Rightarrow> byte \<Rightarrow> u32 list \<times> byte list \<times> nat" where
  "update_byte = (\<lambda>(buffer, input, offset) b.
     let input = input[offset := b]; offset = offset + 1 in
     if offset mod 64 = 0 then (md5_step buffer (map (load_word input) [0..<16]), input, 0)
     else (buffer, input, offset))"

definition md5_update :: "md5_context \<Rightarrow> byte list \<Rightarrow> md5_context" where
  "md5_update ctx bytes =
     (let (buffer, input, offset) =
          foldl update_byte (md_buffer ctx, md_input ctx, unat (md_size ctx mod 64)) bytes
      in \<lparr>md_size = md_size ctx + of_nat (length bytes), md_buffer = buffer, md_input = input\<rparr>)"

definition digest_of :: "u32 list \<Rightarrow> byte list" where
  "digest_of buffer = concat (map (\<lambda>w. [ucast (w AND 0x000000FF), ucast (drop_bit 8 (w AND 0x0000FF00)),
     ucast (drop_bit 16 (w AND 0x00FF0000)), ucast (drop_bit 24 (w AND 0xFF000000))]) buffer)"

definition md5_finalize :: "md5_context \<Rightarrow> byte list" where
  "md5_finalize ctx =
     (let offset = unat (md_size ctx mod 64);
          padding = (if offset < 56 then 56 - offset else (56 + 64) - offset);
          ctx = md5_update ctx (take padding md5_padding);
          size = md_size ctx - of_nat padding;
          input = map (load_word (md_input ctx)) [0..<14] @ [ucast (size * 8), ucast (drop_bit 32 (size * 8))]
      in digest_of (md5_step (md_buffer ctx) input))"

definition md5_string :: "string \<Rightarrow> byte list" where
  "md5_string s = md5_finalize (md5_update md5_init (to_bytes s))"

text \<open>\<open>md5File\<close>: the blocks that \<open>fread\<close> returned.\<close>

definition md5_file :: "byte list list \<Rightarrow> byte list" where
  "md5_file reads = md5_finalize (foldl md5_update md5_init reads)"

text \<open>\<open>get_hash\<close>: each \<open>sprintf\<close> at \<open>i\<close> writes two digits, the next one goes on at \<open>i + 2\<close>.\<close>

definition HASH_OUTPUT :: nat where "HASH_OUTPUT = 16"

definition get_hash :: "string \<Rightarrow> string" where
  "get_hash name =
     concat (map (\<lambda>i. hex_digits 2 (unat (md5_string name ! i))) (filter even [0..<HASH_OUTPUT]))"

section \<open>The standard\<close>

text \<open>The length in bits, as eight bytes, least significant first; a one bit and zeros before it.\<close>

definition length_bytes :: "u64 \<Rightarrow> byte list" where
  "length_bytes bits = map (\<lambda>i. ucast (drop_bit (8 * i) bits)) [0..<8]"

definition md5_pad :: "byte list \<Rightarrow> byte list" where
  "md5_pad msg = msg @ 0x80 # replicate ((119 - length msg mod 64) mod 64) 0 @ length_bytes (of_nat (length msg) * 8)"

fun md5_blocks :: "nat \<Rightarrow> u32 list \<Rightarrow> byte list \<Rightarrow> u32 list" where
  "md5_blocks 0 buffer msg = buffer"
| "md5_blocks (Suc n) buffer msg =
     md5_blocks n (md5_step buffer (map (load_word (take 64 msg)) [0..<16])) (drop 64 msg)"

definition md5_reference :: "byte list \<Rightarrow> byte list" where
  "md5_reference msg =
     digest_of (md5_blocks (length (md5_pad msg) div 64) (md_buffer md5_init) (md5_pad msg))"

section \<open>The buffer\<close>

lemma length_update: "length inp = 64 \<Longrightarrow> length (fst (snd (foldl update_byte (buf, inp, off) bs))) = 64"
proof (induction bs arbitrary: buf inp off)
  case (Cons b bs)
  then show ?case by (cases "update_byte (buf, inp, off) b") (auto simp: update_byte_def Let_def split: if_splits)
qed simp

lemma fold_partial:
  "length inp = 64 \<Longrightarrow> off + length bs < 64 \<Longrightarrow>
   foldl update_byte (buf, inp, off) bs =
     (buf, take off inp @ bs @ drop (off + length bs) inp, off + length bs)"
proof (induction bs arbitrary: inp off)
  case (Cons b bs)
  have u: "update_byte (buf, inp, off) b = (buf, inp[off := b], off + 1)"
    using Cons.prems by (simp add: update_byte_def Let_def)
  have i: "inp[off := b] = take off inp @ b # drop (Suc off) inp"
    using Cons.prems by (simp add: upd_conv_take_nth_drop)
  have t: "take (off + 1) (inp[off := b]) = take off inp @ [b]"
    using Cons.prems by (simp add: i take_append)
  have e: "off + 1 + length bs = off + length (b # bs)" by simp
  have dr: "drop (off + length (b # bs)) (inp[off := b]) = drop (off + length (b # bs)) inp"
    by (rule drop_update_cancel) simp
  have "foldl update_byte (buf, inp[off := b], off + 1) bs =
      (buf, take (off + 1) (inp[off := b]) @ bs @ drop (off + 1 + length bs) (inp[off := b]), off + 1 + length bs)"
    by (rule Cons.IH) (use Cons.prems in simp_all)
  then show ?case unfolding foldl.simps u t e dr by simp
qed simp

lemma fold_to_end:
  assumes "length inp = 64" "off + length bs = 64" "bs \<noteq> []"
  shows "foldl update_byte (buf, inp, off) bs =
    (md5_step buf (map (load_word (take off inp @ bs)) [0..<16]), take off inp @ bs, 0)"
proof -
  obtain cs c where bs: "bs = cs @ [c]" using assms(3) by (cases bs rule: rev_cases) auto
  have p: "foldl update_byte (buf, inp, off) cs = (buf, take off inp @ cs @ drop 63 inp, 63)"
    using fold_partial [of inp off cs buf] assms bs by simp
  have "(take off inp @ cs @ drop 63 inp)[63 := c] = take off inp @ cs @ [c]"
  proof -
    have x: "drop 63 inp = [inp ! 63]" using Cons_nth_drop_Suc [of 63 inp] assms(1) by simp
    have l: "length (take off inp @ cs) = 63" using assms bs by simp
    show ?thesis using list_update_length [of "take off inp @ cs" "inp ! 63" "[]" c] unfolding l x by simp
  qed
  then show ?thesis using p by (simp add: bs update_byte_def Let_def)
qed

lemma fold_blocks:
  assumes "length inp = 64" "length msg = 64 * n"
  shows "\<exists>inp'. foldl update_byte (buf, inp, 0) msg = (md5_blocks n buf msg, inp', 0)"
  using assms
proof (induction n arbitrary: buf inp msg)
  case (Suc n)
  have t: "length (take 64 msg) = 64" "take 64 msg \<noteq> []" using Suc.prems by auto
  have "foldl update_byte (buf, inp, 0) (take 64 msg) =
      (md5_step buf (map (load_word (take 64 msg)) [0..<16]), take 64 msg, 0)"
    using fold_to_end [OF Suc.prems(1) _ t(2), of 0 buf] t(1) by simp
  moreover obtain inp' where "foldl update_byte (md5_step buf (map (load_word (take 64 msg)) [0..<16]), take 64 msg, 0) (drop 64 msg) =
      (md5_blocks n (md5_step buf (map (load_word (take 64 msg)) [0..<16])) (drop 64 msg), inp', 0)"
    using Suc.IH [OF t(1), of "drop 64 msg"] Suc.prems(2) by auto
  ultimately have "foldl update_byte (buf, inp, 0) (take 64 msg @ drop 64 msg) = (md5_blocks (Suc n) buf msg, inp', 0)"
    by (simp only: foldl_append md5_blocks.simps)
  then show ?case by auto
qed simp

lemma offset_update:
  "off < 64 \<Longrightarrow> snd (snd (foldl update_byte (buf, inp, off) bs)) = (off + length bs) mod 64"
proof (induction bs arbitrary: buf inp off)
  case (Cons b bs)
  obtain buf' inp' where u: "update_byte (buf, inp, off) b = (buf', inp', (off + 1) mod 64)"
    using Cons.prems by (cases "off = 63") (auto simp: update_byte_def Let_def)
  have "snd (snd (foldl update_byte (buf', inp', (off + 1) mod 64) bs)) = ((off + 1) mod 64 + length bs) mod 64"
    by (rule Cons.IH) simp
  then show ?case by (simp add: u mod_simps)
qed simp

text \<open>The context after any sequence of updates depends on the bytes only.\<close>

definition absorbed :: "md5_context \<Rightarrow> byte list \<Rightarrow> bool" where
  "absorbed ctx msg \<longleftrightarrow> md_size ctx = of_nat (length msg) \<and>
     foldl update_byte (md_buffer md5_init, md_input md5_init, 0) msg =
       (md_buffer ctx, md_input ctx, length msg mod 64)"

lemma size_mod: "unat (of_nat n mod 64 :: u64) = n mod 64"
proof -
  have "unat (of_nat n mod 64 :: u64) = unat (of_nat n :: u64) mod 64" by (simp add: unat_mod_distrib)
  also have "\<dots> = n mod 2 ^ 64 mod 64" by (simp add: unsigned_of_nat take_bit_eq_mod)
  also have "\<dots> = n mod 64" by (rule mod_mod_cancel) simp
  finally show ?thesis .
qed

lemma absorbed_init: "absorbed md5_init []"
  by (simp add: absorbed_def) (simp add: md5_init_def)

lemma absorbed_update:
  assumes "absorbed ctx msg"
  shows "absorbed (md5_update ctx bs) (msg @ bs)"
proof -
  have a: "foldl update_byte (md_buffer md5_init, md_input md5_init, 0) msg = (md_buffer ctx, md_input ctx, length msg mod 64)"
    "md_size ctx = of_nat (length msg)" using assms by (simp_all add: absorbed_def)
  obtain buf inp off where f: "foldl update_byte (md_buffer ctx, md_input ctx, length msg mod 64) bs = (buf, inp, off)"
    by (metis prod_cases3)
  have "off = (length msg mod 64 + length bs) mod 64"
    using offset_update [of "length msg mod 64" "md_buffer ctx" "md_input ctx" bs] f by simp
  then have "off = length (msg @ bs) mod 64" by (simp add: mod_simps)
  then show ?thesis using a f by (simp add: absorbed_def md5_update_def size_mod)
qed

lemma absorbed_updates: "absorbed ctx msg \<Longrightarrow> absorbed (foldl md5_update ctx reads) (msg @ concat reads)"
proof (induction reads arbitrary: ctx msg)
  case (Cons r reads)
  from Cons.IH [OF absorbed_update [OF Cons.prems, of r]] show ?case by simp
qed simp

section \<open>The length\<close>

lemma load_word_length:
  "push_bit 24 (ucast (ucast (drop_bit (k + 24) w :: u64) :: byte)) OR
   (push_bit 16 (ucast (ucast (drop_bit (k + 16) w :: u64) :: byte)) OR
   (push_bit 8 (ucast (ucast (drop_bit (k + 8) w :: u64) :: byte)) OR
   ucast (ucast (drop_bit k w :: u64) :: byte))) = (ucast (drop_bit k w) :: u32)"
proof (rule bit_word_eqI)
  fix n assume n: "n < LENGTH(32)"
  consider "n < 8" | "8 \<le> n" "n < 16" | "16 \<le> n" "n < 24" | "24 \<le> n" "n < 32" using n by fastforce
  then show "bit (push_bit 24 (ucast (ucast (drop_bit (k + 24) w :: u64) :: byte)) OR
      (push_bit 16 (ucast (ucast (drop_bit (k + 16) w :: u64) :: byte)) OR
      (push_bit 8 (ucast (ucast (drop_bit (k + 8) w :: u64) :: byte)) OR
      ucast (ucast (drop_bit k w :: u64) :: byte))) :: u32) n = bit (ucast (drop_bit k w) :: u32) n"
    by cases (auto simp: bit_simps add.assoc)
qed

lemma load_words_length:
  assumes "length pre = 56"
  shows "map (load_word (pre @ length_bytes bits)) [0..<16] =
    map (load_word pre) [0..<14] @ [ucast bits, ucast (drop_bit 32 bits)]"
proof -
  have l: "(pre @ length_bytes bits) ! i = ucast (drop_bit (8 * (i - 56)) bits)" if "56 \<le> i" "i < 64" for i
  proof -
    have "i - 56 < 8" using that by simp
    then show ?thesis using that assms by (simp add: nth_append length_bytes_def)
  qed
  have "load_word (pre @ length_bytes bits) 14 = ucast bits"
    using load_word_length [of 0 bits] by (simp add: load_word_def l)
  moreover have "load_word (pre @ length_bytes bits) 15 = ucast (drop_bit 32 bits)"
    using load_word_length [of 32 bits] by (simp add: load_word_def l)
  moreover have "load_word (pre @ length_bytes bits) j = load_word pre j" if "j < 14" for j
    using that assms by (simp add: load_word_def nth_append)
  moreover have "[0..<16] = [0..<14] @ [14, 15 :: nat]" by (simp add: upt_rec)
  ultimately show ?thesis by simp
qed

lemma load_word_take: "map (load_word (take 56 inp)) [0..<14] = map (load_word inp) [0..<14]"
  by (simp add: load_word_def)

text \<open>The zeros that fill up to 56 modulo 64.\<close>

lemma padding_zeros:
  defines "p \<equiv> \<lambda>r. (if r < 56 then 56 - r else (56 + 64) - r :: nat)"
  assumes "r < 64"
  shows "take (p r) md5_padding = 0x80 # replicate ((119 - r) mod 64) 0" "(r + p r) mod 64 = 56"
    "length (take (p r) md5_padding) = p r"
proof -
  have "p r \<le> 64" "0 < p r" "p r - 1 = (119 - r) mod 64" "(r + p r) mod 64 = 56"
    using assms(2) by (auto simp: p_def mod_if)
  then show "take (p r) md5_padding = 0x80 # replicate ((119 - r) mod 64) 0" "(r + p r) mod 64 = 56"
    "length (take (p r) md5_padding) = p r"
    by (auto simp: md5_padding_def take_Cons' min_def)
qed

lemma finalize_reference:
  assumes a: "absorbed ctx msg"
  shows "md5_finalize ctx = md5_reference msg"
proof -
  let ?r = "length msg mod 64" and ?bits = "of_nat (length msg) * 8 :: u64"
  define p where "p = (if ?r < 56 then 56 - ?r else (56 + 64) - ?r)"
  define ctx' where "ctx' = md5_update ctx (take p md5_padding)"
  have r: "?r < 64" by simp
  note pz = padding_zeros [OF r, folded p_def]
  have pad: "md5_pad msg = (msg @ take p md5_padding) @ length_bytes ?bits" by (simp add: md5_pad_def pz(1))
  have sz: "md_size ctx = of_nat (length msg)" using a by (simp add: absorbed_def)
  have "absorbed ctx' (msg @ take p md5_padding)" unfolding ctx'_def by (rule absorbed_update [OF a])
  moreover have "length (msg @ take p md5_padding) mod 64 = 56" using pz(2,3) by (simp add: mod_simps)
  ultimately have f: "foldl update_byte (md_buffer md5_init, md_input md5_init, 0) (msg @ take p md5_padding) =
      (md_buffer ctx', md_input ctx', 56)"
    and s': "md_size ctx' = of_nat (length (msg @ take p md5_padding))" by (simp_all add: absorbed_def)
  have l64: "length (md_input ctx') = 64"
    using length_update [of "md_input md5_init" "md_buffer md5_init" 0 "msg @ take p md5_padding"] f
    by (simp add: md5_init_def)
  have lb: "length (length_bytes ?bits) = 8" by (simp add: length_bytes_def)
  then have "length_bytes ?bits \<noteq> []" by auto
  note e = fold_to_end [OF l64 _ this, of 56 "md_buffer ctx'"]
  have w: "map (load_word (take 56 (md_input ctx') @ length_bytes ?bits)) [0..<16] =
      map (load_word (md_input ctx')) [0..<14] @ [ucast ?bits, ucast (drop_bit 32 ?bits)]"
    using load_words_length [of "take 56 (md_input ctx')" ?bits] l64 by (simp add: load_word_take)
  have full: "\<exists>inp. foldl update_byte (md_buffer md5_init, md_input md5_init, 0) (md5_pad msg) =
      (md5_step (md_buffer ctx') (map (load_word (md_input ctx')) [0..<14] @ [ucast ?bits, ucast (drop_bit 32 ?bits)]), inp, 0)"
    unfolding pad by (subst foldl_append, subst f) (use e lb w in simp)
  have "length (md5_pad msg) = length (msg @ take p md5_padding) + 8" using lb by (simp add: pad)
  then have "length (md5_pad msg) mod 64 = 0"
    using \<open>length (msg @ take p md5_padding) mod 64 = 56\<close> by presburger
  then have n: "length (md5_pad msg) = 64 * (length (md5_pad msg) div 64)" by presburger
  have "length (md_input md5_init) = 64" by (simp add: md5_init_def)
  from fold_blocks [OF this n, of "md_buffer md5_init"] full
  have "md5_blocks (length (md5_pad msg) div 64) (md_buffer md5_init) (md5_pad msg) =
      md5_step (md_buffer ctx') (map (load_word (md_input ctx')) [0..<14] @ [ucast ?bits, ucast (drop_bit 32 ?bits)])"
    by auto
  moreover have "md_size ctx' - of_nat p = of_nat (length msg)" using s' pz(3) by simp
  moreover have "unat (md_size ctx mod 64) = ?r" by (simp add: sz size_mod)
  ultimately show ?thesis
    by (simp only: md5_finalize_def md5_reference_def Let_def p_def [symmetric] ctx'_def [symmetric])
qed

text \<open>
  C22: The incremental MD5 computes the MD5 of the standard: however the input is cut into the
  blocks that \<open>fread\<close> returns, \<open>md5_file\<close> gives the digest of the padded message, and
  \<open>md5_string\<close> that of the characters of the string.
\<close>

theorem md5_computes_standard:
  "md5_file reads = md5_reference (concat reads) \<and> md5_string s = md5_reference (to_bytes s)"
  using finalize_reference [OF absorbed_updates [OF absorbed_init, of reads]]
    finalize_reference [OF absorbed_update [OF absorbed_init, of "to_bytes s"]]
  by (simp add: md5_file_def md5_string_def)

text \<open>Test vectors.\<close>

lemma md5_of_abc: "map unat (md5_string ''abc'') = [144, 1, 80, 152, 60, 210, 79, 176, 214, 150, 63, 125, 40, 225, 127, 114]"
  by code_simp

section \<open>The hash of a name\<close>

lemma length_digest: "length (md5_string s) = 16"
  by (simp add: md5_string_def md5_finalize_def Let_def digest_of_def md5_step_def split: prod.split)

lemma hex_digit_inj: "a < 16 \<Longrightarrow> b < 16 \<Longrightarrow> hex_digit a = hex_digit b \<longleftrightarrow> a = b"
  unfolding hex_digit_def by (rule nth_eq_iff_index_eq) simp_all

lemma hex_byte_inj: "hex_digits 2 (unat (a :: byte)) = hex_digits 2 (unat b) \<longleftrightarrow> a = b"
proof -
  have two: "hex_digits 2 v = [hex_digit (v div 16 mod 16), hex_digit (v mod 16)]" for v
    by (simp add: numeral_2_eq_2)
  have "unat x div 16 < 16" for x :: byte using unat_bound [of x] by (simp add: less_mult_imp_div_less)
  then have "unat x div 16 mod 16 = unat x div 16" for x :: byte by simp
  then have "unat a = unat b \<longleftrightarrow> unat a div 16 mod 16 = unat b div 16 mod 16 \<and> unat a mod 16 = unat b mod 16"
    by (metis div_mult_mod_eq)
  then show ?thesis by (simp add: two hex_digit_inj word_unat_eq_iff)
qed

lemma get_hash_digits:
  "get_hash s = concat (map (\<lambda>i. hex_digits 2 (unat (md5_string s ! (2 * i)))) [0..<8])"
proof -
  have "filter even [0..<HASH_OUTPUT] = map ((*) 2) [0..<8]" by (simp add: HASH_OUTPUT_def upt_rec)
  then show ?thesis by (simp add: get_hash_def comp_def)
qed

lemma concat_pairs_inj:
  "length xs = length ys \<Longrightarrow>
   concat (map (\<lambda>x. hex_digits 2 (unat (x :: byte))) xs) = concat (map (\<lambda>x. hex_digits 2 (unat x)) ys) \<longleftrightarrow> xs = ys"
  by (induction xs ys rule: list_induct2) (simp_all add: hex_byte_inj)

text \<open>
  The hash of a name has 16 characters, the hexadecimal digits of every other byte of its
  MD5: two names have the same hash exactly when those eight bytes agree.
\<close>

lemma hash_keeps_half_of_digest:
  "length (get_hash a) = 16 \<and>
   (get_hash a = get_hash b \<longleftrightarrow>
     map (\<lambda>i. md5_string a ! (2 * i)) [0..<8] = map (\<lambda>i. md5_string b ! (2 * i)) [0..<8])"
proof -
  have "get_hash s = concat (map (\<lambda>x. hex_digits 2 (unat x)) (map (\<lambda>i. md5_string s ! (2 * i)) [0..<8]))" for s
    by (simp add: get_hash_digits comp_def)
  then have "get_hash a = get_hash b \<longleftrightarrow>
      map (\<lambda>i. md5_string a ! (2 * i)) [0..<8] = map (\<lambda>i. md5_string b ! (2 * i)) [0..<8]"
    using concat_pairs_inj [of "map (\<lambda>i. md5_string a ! (2 * i)) [0..<8]" "map (\<lambda>i. md5_string b ! (2 * i)) [0..<8]"]
    by simp
  moreover have "length (get_hash a) = 16" by (simp add: get_hash_digits length_concat comp_def sum_list_triv)
  ultimately show ?thesis by blast
qed

end
