(* ===== verification/Node_Trace.thy ===== *)
theory Node_Trace
  imports DFT_Text "HOL-Library.Multiset"
begin

text \<open>
  The node's trace files, written by every drain thread at once: \<open>NodeTraceFile\<close> and
  \<open>ChunkWriter\<close> of \<open>service/pipeline/node_trace_file.h\<close>. A write first reserves its range
  under the lock, then writes into it without one, so the order in which writes reach the disk
  is arbitrary. Descriptors come from the kernel (\<open>opened\<close>: what \<open>open\<close> returns for a path,
  \<open>None\<close> if it fails); the disk maps a descriptor to the contents of its file, created empty.
\<close>

section \<open>The file\<close>

record node_file =
  nf_fd :: "nat option"
  nf_fds :: "nat list"
  nf_base :: string
  nf_path :: string
  nf_paths :: "string list"
  nf_rollover :: u64
  nf_size :: u64
  nf_total :: u64

definition closed_file :: node_file where
  "closed_file = \<lparr>nf_fd = None, nf_fds = [], nf_base = [], nf_path = [], nf_paths = [],
     nf_rollover = 0, nf_size = 0, nf_total = 0\<rparr>"

definition open_file :: "(string \<Rightarrow> nat option) \<Rightarrow> string \<Rightarrow> node_file \<Rightarrow> bool \<times> node_file" where
  "open_file opened path st =
     (case opened path of
        None \<Rightarrow> (False, st)
      | Some fd \<Rightarrow>
          (True, st\<lparr>nf_fds := nf_fds st @ [fd], nf_fd := Some fd, nf_size := 0,
             nf_path := (if nf_paths st = [] then path else nf_path st),
             nf_paths := nf_paths st @ [path]\<rparr>))"

definition trace_ext :: string where "trace_ext = ''.pfw.gz''"

definition open_trace :: "(string \<Rightarrow> nat option) \<Rightarrow> string \<Rightarrow> u64 \<Rightarrow> node_file \<Rightarrow> bool \<times> node_file" where
  "open_trace opened path rollover st =
     open_file opened path
       (st\<lparr>nf_rollover := rollover,
          nf_base := (if length path > length trace_ext \<and> suffix trace_ext path
            then take (length path - length trace_ext) path else path)\<rparr>)"

text \<open>\<open>reserve\<close>: the descriptor and offset of the range, \<open>None\<close> if there is no file for it.\<close>

definition next_path :: "node_file \<Rightarrow> string" where
  "next_path st = nf_base st @ ''-'' @ show_nat (length (nf_paths st)) @ trace_ext"

definition reserve_range ::
  "(string \<Rightarrow> nat option) \<Rightarrow> nat \<Rightarrow> node_file \<Rightarrow> (nat \<times> nat) option \<times> node_file" where
  "reserve_range opened len st =
     (if nf_fd st = None then (None, st)
      else
        (let (ok, st) =
           (if nf_rollover st \<noteq> 0 \<and> nf_size st \<noteq> 0 \<and> nf_size st + of_nat len > nf_rollover st
            then open_file opened (next_path st) st else (True, st))
         in if \<not> ok then (None, st)
            else (Some (the (nf_fd st), unat (nf_size st)),
              st\<lparr>nf_size := nf_size st + of_nat len, nf_total := nf_total st + of_nat len\<rparr>)))"

definition close_trace :: "node_file \<Rightarrow> node_file" where
  "close_trace st = st\<lparr>nf_fds := [], nf_fd := None\<rparr>"

section \<open>Writing\<close>

text \<open>\<open>pwrite\<close>: a write beyond the end leaves zeros in between.\<close>

type_synonym disk = "nat \<Rightarrow> byte list"

definition put_bytes :: "nat \<Rightarrow> byte list \<Rightarrow> byte list \<Rightarrow> byte list" where
  "put_bytes off bs file =
     (if bs = [] then file else put_at off bs (file @ replicate (off + length bs - length file) 0))"

definition pwrite :: "nat \<Rightarrow> nat \<Rightarrow> byte list \<Rightarrow> disk \<Rightarrow> disk" where
  "pwrite fd off bs d = d(fd := put_bytes off bs (d fd))"

text \<open>What the kernel answers to each \<open>pwrite\<close>: so many bytes, \<open>EINTR\<close>, another error.\<close>

datatype answer = Wrote nat | Interrupted | Failed

text \<open>
  The loop of \<open>write_at\<close>, by the answers it gets: whether it succeeded, and the disk;
  \<open>None\<close> while it waits for more answers.
\<close>

fun write_at :: "answer list \<Rightarrow> nat \<Rightarrow> byte list \<Rightarrow> nat \<Rightarrow> disk \<Rightarrow> (bool \<times> disk) option" where
  "write_at answers fd [] off d = Some (True, d)"
| "write_at [] fd (b # bs) off d = None"
| "write_at (a # answers) fd (b # bs) off d =
     (case a of
        Interrupted \<Rightarrow> write_at answers fd (b # bs) off d
      | Failed \<Rightarrow> Some (False, d)
      | Wrote n \<Rightarrow>
          write_at answers fd (drop n (b # bs)) (off + n) (pwrite fd off (take n (b # bs)) d))"

definition write_trace ::
  "(string \<Rightarrow> nat option) \<Rightarrow> answer list \<Rightarrow> byte list \<Rightarrow> node_file \<Rightarrow> disk
     \<Rightarrow> (bool \<times> node_file \<times> disk) option" where
  "write_trace opened answers bs st d =
     (if bs = [] then Some (nf_fd st \<noteq> None, st, d)
      else (case reserve_range opened (length bs) st of
          (None, st') \<Rightarrow> Some (False, st', d)
        | (Some (fd, off), st') \<Rightarrow>
            (case write_at answers fd bs off d of
               None \<Rightarrow> None
             | Some (ok, d') \<Rightarrow> Some (ok, st', d'))))"

section \<open>Spill files\<close>

text \<open>\<open>libdeflate_gzip_decompress_ex\<close> on the rest of the data, with so much room.\<close>

datatype inflate = Inflated nat | No_Space | Bad_Data

definition OUT_MIN :: nat where "OUT_MIN = 64 * 2 ^ 20"
definition OUT_MAX :: nat where "OUT_MAX = 2 ^ 31"

function members_from :: "(byte list \<Rightarrow> nat \<Rightarrow> inflate) \<Rightarrow> nat \<Rightarrow> byte list \<Rightarrow> nat" where
  "members_from dec room data =
     (if data = [] then 0
      else (case dec data room of
          No_Space \<Rightarrow> if 0 < room \<and> room < OUT_MAX then members_from dec (room * 2) data else 0
        | Bad_Data \<Rightarrow> 0
        | Inflated n \<Rightarrow> if n = 0 then 0 else n + members_from dec room (drop n data)))"
  by pat_completeness auto

termination
  by (relation "measures [\<lambda>(dec, room, data). length data, \<lambda>(dec, room, data). OUT_MAX - room]") auto

declare members_from.simps [simp del]

definition complete_members :: "(byte list \<Rightarrow> nat \<Rightarrow> inflate) \<Rightarrow> byte list \<Rightarrow> nat" where
  "complete_members dec data = members_from dec OUT_MIN data"

text \<open>\<open>append_members\<close>, of what could be read of the spill file; the number is what it returns.\<close>

definition append_members ::
  "(byte list \<Rightarrow> nat \<Rightarrow> inflate) \<Rightarrow> (string \<Rightarrow> nat option) \<Rightarrow> answer list \<Rightarrow> byte list \<Rightarrow> node_file \<Rightarrow> disk
     \<Rightarrow> (nat \<times> node_file \<times> disk) option" where
  "append_members dec opened answers data st d =
     (let n = complete_members dec data in
      if n = 0 then Some (0, st, d)
      else (case reserve_range opened n st of
          (None, st') \<Rightarrow> Some (0, st', d)
        | (Some (fd, off), st') \<Rightarrow>
            (case write_at answers fd (take n data) off d of
               None \<Rightarrow> None
             | Some (ok, d') \<Rightarrow> Some (if ok then n else 0, st', d'))))"

section \<open>Chunks\<close>

text \<open>
  \<open>ChunkWriter\<close>: the chunk's own bytes stay outside; \<open>gzip\<close> is the compressor, an empty result
  a failure. What reaches the file is the argument of \<open>write\<close>.
\<close>

record chunk_writer =
  cw_capacity :: nat
  cw_used :: nat
  cw_first_ns :: u64
  cw_chunks :: u64
  cw_json_bytes :: u64
  cw_file_bytes :: u64

definition chunk_alloc :: "nat \<Rightarrow> nat" where
  "chunk_alloc capacity = capacity + (if capacity < 2 ^ 20 then 2 ^ 20 else capacity)"

definition new_chunk_writer :: "nat \<Rightarrow> chunk_writer" where
  "new_chunk_writer capacity = \<lparr>cw_capacity = capacity, cw_used = 0, cw_first_ns = 0, cw_chunks = 0,
     cw_json_bytes = 0, cw_file_bytes = 0\<rparr>"

definition set_used :: "nat \<Rightarrow> u64 \<Rightarrow> chunk_writer \<Rightarrow> chunk_writer" where
  "set_used used now w = w\<lparr>cw_first_ns := (if cw_used w = 0 \<and> used \<noteq> 0 then now else cw_first_ns w),
     cw_used := used\<rparr>"

definition flush_chunk ::
  "(byte list \<Rightarrow> byte list) \<Rightarrow> (byte list \<Rightarrow> 's \<Rightarrow> bool \<times> 's) \<Rightarrow> byte list \<Rightarrow> chunk_writer \<Rightarrow> 's
     \<Rightarrow> chunk_writer \<times> 's" where
  "flush_chunk gzip wr chunk w s =
     (let out = gzip chunk;
          (ok, s) = (if out \<noteq> [] then wr out s else (False, s))
      in (w\<lparr>cw_json_bytes := cw_json_bytes w + of_nat (length chunk),
            cw_file_bytes := (if ok then cw_file_bytes w + of_nat (length out) else cw_file_bytes w),
            cw_chunks := (if ok then cw_chunks w + 1 else cw_chunks w),
            cw_used := 0, cw_first_ns := 0\<rparr>, s))"

definition flush_used ::
  "(byte list \<Rightarrow> byte list) \<Rightarrow> (byte list \<Rightarrow> 's \<Rightarrow> bool \<times> 's) \<Rightarrow> byte list \<Rightarrow> chunk_writer \<Rightarrow> 's
     \<Rightarrow> chunk_writer \<times> 's" where
  "flush_used gzip wr buf w s =
     (if cw_used w \<noteq> 0 then flush_chunk gzip wr (take (cw_used w) buf) w s else (w, s))"

definition chunk_flush_if_older ::
  "(byte list \<Rightarrow> byte list) \<Rightarrow> (byte list \<Rightarrow> 's \<Rightarrow> bool \<times> 's) \<Rightarrow> byte list \<Rightarrow> u64 \<Rightarrow> u64 \<Rightarrow> chunk_writer \<Rightarrow> 's
     \<Rightarrow> chunk_writer \<times> 's" where
  "chunk_flush_if_older gzip wr buf now age w s =
     (if cw_used w \<noteq> 0 \<and> now - cw_first_ns w \<ge> age then flush_used gzip wr buf w s else (w, s))"

section \<open>One write in pieces\<close>

lemma length_put_bytes: "length (put_bytes off bs file) = (if bs = [] then length file else max (length file) (off + length bs))"
  by (auto simp: put_bytes_def put_at_def max_def min_def)

lemma nth_put_bytes:
  "i < length (put_bytes off bs file) \<Longrightarrow> put_bytes off bs file ! i =
     (if off \<le> i \<and> i < off + length bs then bs ! (i - off) else if i < length file then file ! i else 0)"
  by (auto simp: length_put_bytes) (auto simp: put_bytes_def put_at_def nth_append min_def split: if_splits)

text \<open>The target contents of the files, and a disk that agrees with it wherever it was written.\<close>

type_synonym piece = "nat \<times> nat \<times> byte list"

definition put_piece :: "piece \<Rightarrow> disk \<Rightarrow> disk" where
  "put_piece = (\<lambda>(fd, off, bs). pwrite fd off bs)"

definition fits :: "disk \<Rightarrow> piece \<Rightarrow> bool" where
  "fits T = (\<lambda>(fd, off, bs). off + length bs \<le> length (T fd) \<and> take_at off (length bs) (T fd) = bs)"

definition covered :: "piece set \<Rightarrow> nat \<Rightarrow> nat \<Rightarrow> bool" where
  "covered P fd i \<longleftrightarrow> (\<exists>off bs. (fd, off, bs) \<in> P \<and> off \<le> i \<and> i < off + length bs)"

definition agrees :: "disk \<Rightarrow> piece set \<Rightarrow> disk \<Rightarrow> bool" where
  "agrees T P d \<longleftrightarrow> (\<forall>fd. length (d fd) \<le> length (T fd) \<and>
     (\<forall>i. covered P fd i \<longrightarrow> i < length (d fd) \<and> d fd ! i = T fd ! i))"

lemma agrees_put:
  assumes "agrees T P d" "fits T p"
  shows "agrees T (insert p P) (put_piece p d)"
proof -
  obtain fd off bs where p: "p = (fd, off, bs)" by (cases p)
  have f: "off + length bs \<le> length (T fd)" "take_at off (length bs) (T fd) = bs"
    using assms(2) by (simp_all add: fits_def p)
  have n: "bs ! j = T fd ! (off + j)" if "j < length bs" for j
  proof -
    have "take_at off (length bs) (T fd) ! j = T fd ! (off + j)"
      using that f(1) by (simp add: take_at_def)
    then show ?thesis using f(2) by simp
  qed
  have a: "length (d fd') \<le> length (T fd')" "covered P fd' i \<Longrightarrow> i < length (d fd') \<and> d fd' ! i = T fd' ! i" for fd' i
    using assms(1) by (simp_all add: agrees_def)
  have c: "covered (insert p P) fd' i \<longleftrightarrow> covered P fd' i \<or> fd' = fd \<and> off \<le> i \<and> i < off + length bs" for fd' i
    by (auto simp: covered_def p)
  show ?thesis
    unfolding agrees_def
  proof (intro allI conjI impI)
    fix fd'
    show "length (put_piece p d fd') \<le> length (T fd')"
      using a(1) [of fd'] f(1) by (auto simp: put_piece_def p pwrite_def length_put_bytes)
    fix i assume "covered (insert p P) fd' i"
    then have c': "covered P fd' i \<or> fd' = fd \<and> off \<le> i \<and> i < off + length bs" by (simp add: c)
    show l: "i < length (put_piece p d fd')"
      using c' a(2) [of fd' i] by (auto simp: put_piece_def p pwrite_def length_put_bytes)
    show "put_piece p d fd' ! i = T fd' ! i"
    proof (cases "fd' = fd")
      case True
      then have l': "i < length (put_bytes off bs (d fd))" using l by (simp add: put_piece_def p pwrite_def)
      show ?thesis
        using True c' a(2) [of fd i] n [of "i - off"] nth_put_bytes [OF l']
        by (auto simp: put_piece_def p pwrite_def)
    next
      case False
      then show ?thesis using c' a(2) [of fd' i] by (simp add: put_piece_def p pwrite_def)
    qed
  qed
qed

lemma agrees_fold:
  "agrees T P d \<Longrightarrow> list_all (fits T) ps \<Longrightarrow> agrees T (P \<union> set ps) (fold put_piece ps d)"
proof (induction ps arbitrary: P d)
  case (Cons p ps)
  then have h: "agrees T (insert p P) (put_piece p d)" "list_all (fits T) ps"
    using agrees_put by auto
  from Cons.IH [OF this] show ?case by simp
qed simp

text \<open>Pieces of the target that leave nothing out produce it, in any order.\<close>

lemma pieces_fill:
  assumes "list_all (fits T) ps" "\<And>fd i. i < length (T fd) \<Longrightarrow> covered (set ps) fd i"
  shows "fold put_piece ps (\<lambda>_. []) = T"
proof
  fix fd
  have "agrees T {} (\<lambda>_. [])" by (simp add: agrees_def covered_def)
  from agrees_fold [OF this assms(1)] have a: "agrees T (set ps) (fold put_piece ps (\<lambda>_. []))" by simp
  have le: "length (fold put_piece ps (\<lambda>_. []) fd) \<le> length (T fd)" using a by (simp add: agrees_def)
  have ge: "i < length (fold put_piece ps (\<lambda>_. []) fd) \<and> fold put_piece ps (\<lambda>_. []) fd ! i = T fd ! i"
    if "i < length (T fd)" for i
    using a assms(2) [OF that] by (simp add: agrees_def)
  have "length (T fd) \<le> length (fold put_piece ps (\<lambda>_. []) fd)"
    using ge by (metis linorder_not_less less_irrefl)
  then show "fold put_piece ps (\<lambda>_. []) fd = T fd" using le ge by (intro nth_equalityI) simp_all
qed

fun cut_pieces :: "nat \<Rightarrow> nat \<Rightarrow> byte list list \<Rightarrow> piece list" where
  "cut_pieces fd off [] = []"
| "cut_pieces fd off (b # bs) = (fd, off, b) # cut_pieces fd (off + length b) bs"

lemma cut_pieces_covers:
  "off \<le> i \<Longrightarrow> i < off + length (concat parts) \<Longrightarrow> covered (set (cut_pieces fd off parts)) fd i"
proof (induction parts arbitrary: off)
  case (Cons b bs)
  show ?case
  proof (cases "i < off + length b")
    case True
    then show ?thesis using Cons.prems unfolding covered_def by (intro exI [of _ off] exI [of _ b]) simp
  next
    case False
    then have "covered (set (cut_pieces fd (off + length b) bs)) fd i"
      using Cons.prems by (intro Cons.IH) simp_all
    then show ?thesis unfolding covered_def cut_pieces.simps by (meson list.set_intros(2))
  qed
qed simp

lemma take_at_split: "take_at off (m + n) xs = take_at off m xs @ take_at (off + m) n xs"
  by (simp add: take_at_def take_add add.commute)

lemma cut_pieces_fit:
  "off + length (concat parts) \<le> length (T fd) \<Longrightarrow> take_at off (length (concat parts)) (T fd) = concat parts \<Longrightarrow>
   list_all (fits T) (cut_pieces fd off parts)"
proof (induction parts arbitrary: off)
  case (Cons b bs)
  have "length (take_at off (length b) (T fd)) = length b"
    using Cons.prems(1) by (simp add: take_at_def)
  then have "take_at off (length b) (T fd) = b" "take_at (off + length b) (length (concat bs)) (T fd) = concat bs"
    using Cons.prems(2) by (simp_all add: take_at_split append_eq_append_conv)
  then show ?case using Cons by (simp add: fits_def add.assoc)
qed simp

text \<open>The \<open>pwrite\<close>s of a loop of \<open>write_at\<close> that succeeds.\<close>

fun write_puts :: "answer list \<Rightarrow> nat \<Rightarrow> byte list \<Rightarrow> nat \<Rightarrow> piece list option" where
  "write_puts answers fd [] off = Some []"
| "write_puts [] fd (b # bs) off = None"
| "write_puts (a # answers) fd (b # bs) off =
     (case a of
        Interrupted \<Rightarrow> write_puts answers fd (b # bs) off
      | Failed \<Rightarrow> None
      | Wrote n \<Rightarrow> map_option ((#) (fd, off, take n (b # bs))) (write_puts answers fd (drop n (b # bs)) (off + n)))"

lemma write_at_puts:
  "write_at answers fd bs off d = Some (True, d') \<longleftrightarrow>
   (\<exists>ps. write_puts answers fd bs off = Some ps \<and> d' = fold put_piece ps d)"
proof (induction answers fd bs off d rule: write_at.induct)
  case (1 answers fd off d)
  then show ?case by auto
next
  case (3 a answers fd b bs off d)
  show ?case
  proof (cases a)
    case (Wrote n)
    then have "write_at (a # answers) fd (b # bs) off d = Some (True, d') \<longleftrightarrow>
        (\<exists>ps. write_puts answers fd (drop n (b # bs)) (off + n) = Some ps \<and>
           d' = fold put_piece ps (pwrite fd off (take n (b # bs)) d))"
      using 3 by simp
    then show ?thesis
      using Wrote by (cases "write_puts answers fd (drop n (b # bs)) (off + n)") (simp_all add: put_piece_def)
  qed (use 3 in simp_all)
qed simp

lemma write_puts_cut:
  "write_puts answers fd bs off = Some ps \<Longrightarrow> \<exists>parts. concat parts = bs \<and> ps = cut_pieces fd off parts"
proof (induction answers fd bs off arbitrary: ps rule: write_puts.induct)
  case (1 answers fd off)
  then show ?case by (intro exI [of _ "[]"]) simp
next
  case (3 a answers fd b bs off)
  show ?case
  proof (cases a)
    case (Wrote n)
    then obtain qs where q: "write_puts answers fd (drop n (b # bs)) (off + n) = Some qs"
      "ps = (fd, off, take n (b # bs)) # qs"
      using 3 by auto
    show ?thesis
    proof (cases "n \<le> length (b # bs)")
      case True
      obtain parts where p: "concat parts = drop n (b # bs)" "qs = cut_pieces fd (off + n) parts"
        using 3 Wrote q(1) by auto
      then show ?thesis
        using True q(2) by (intro exI [of _ "take n (b # bs) # parts"]) (simp add: min_def)
    next
      case False
      then show ?thesis using q by (intro exI [of _ "[b # bs]"]) auto
    qed
  qed (use 3 in auto)
qed simp

section \<open>Reservations\<close>

fun reserve_all ::
  "(string \<Rightarrow> nat option) \<Rightarrow> byte list list \<Rightarrow> node_file \<Rightarrow> ((nat \<times> nat) list \<times> node_file) option" where
  "reserve_all opened [] st = Some ([], st)"
| "reserve_all opened (c # cs) st =
     (case reserve_range opened (length c) st of
        (None, st') \<Rightarrow> None
      | (Some r, st') \<Rightarrow>
          (case reserve_all opened cs st' of None \<Rightarrow> None | Some (rs, st'') \<Rightarrow> Some (r # rs, st'')))"

text \<open>The chunks of a file, in the order they were reserved.\<close>

definition chunks_in :: "nat \<Rightarrow> ((nat \<times> nat) \<times> byte list) list \<Rightarrow> byte list list" where
  "chunks_in fd rcs = map snd (filter (\<lambda>rc. fst (fst rc) = fd) rcs)"

definition future_path :: "node_file \<Rightarrow> nat \<Rightarrow> string" where
  "future_path st k = nf_base st @ ''-'' @ show_nat k @ trace_ext"

text \<open>\<open>W\<close>: the chunks reserved so far, by descriptor; \<open>M\<close> bounds their bytes.\<close>

definition file_ok :: "u64 \<Rightarrow> nat \<Rightarrow> byte list list \<Rightarrow> bool" where
  "file_ok rollover M cs \<longleftrightarrow> [] \<notin> set cs \<and> length (concat cs) \<le> M \<and>
     (rollover = 0 \<or> length (concat cs) \<le> unat rollover \<or> length cs \<le> 1)"

definition reserved_ok ::
  "(string \<Rightarrow> nat option) \<Rightarrow> (nat \<Rightarrow> byte list list) \<Rightarrow> nat \<Rightarrow> node_file \<Rightarrow> bool" where
  "reserved_ok opened W M st \<longleftrightarrow>
     (\<exists>fd. nf_fd st = Some fd \<and> unat (nf_size st) = length (concat (W fd)) \<and>
       (\<forall>k fd'. length (nf_paths st) \<le> k \<longrightarrow> opened (future_path st k) = Some fd' \<longrightarrow> W fd' = [] \<and> fd' \<noteq> fd)) \<and>
     (\<forall>fd. file_ok (nf_rollover st) M (W fd))"

lemma reserved_okI:
  assumes "nf_fd st = Some fd" "unat (nf_size st) = length (concat (W fd))"
    and "\<And>k fd'. length (nf_paths st) \<le> k \<Longrightarrow> opened (future_path st k) = Some fd' \<Longrightarrow> W fd' = [] \<and> fd' \<noteq> fd"
    and "\<And>x. file_ok (nf_rollover st) M (W x)"
  shows "reserved_ok opened W M st"
  using assms by (auto simp: reserved_ok_def)

definition one_file_each :: "(string \<Rightarrow> nat option) \<Rightarrow> bool" where
  "one_file_each opened \<longleftrightarrow> (\<forall>p q fd. opened p = Some fd \<longrightarrow> opened q = Some fd \<longrightarrow> p = q)"

lemma future_path_inj: "future_path st k = future_path st j \<longleftrightarrow> k = j"
  by (simp add: future_path_def show_nat_inj)

lemma reserve_step:
  assumes ok: "reserved_ok opened W M st" and one: "one_file_each opened"
    and c: "c \<noteq> []" "M + length c < 2 ^ 64"
    and r: "reserve_range opened (length c) st = (Some (fd, off), st')"
  shows "off = length (concat (W fd))" "reserved_ok opened (W(fd := W fd @ [c])) (M + length c) st'"
proof -
  obtain f where f: "nf_fd st = Some f" "unat (nf_size st) = length (concat (W f))"
    "\<And>k fd'. length (nf_paths st) \<le> k \<Longrightarrow> opened (future_path st k) = Some fd' \<Longrightarrow> W fd' = [] \<and> fd' \<noteq> f"
    using ok by (auto simp: reserved_ok_def)
  have w: "[] \<notin> set (W x)" "length (concat (W x)) \<le> M"
    "nf_rollover st = 0 \<or> length (concat (W x)) \<le> unat (nf_rollover st) \<or> length (W x) \<le> 1" for x
    using ok by (auto simp: reserved_ok_def file_ok_def)
  have sum: "unat (nf_size st + of_nat (length c)) = length (concat (W f)) + length c"
  proof -
    have "unat (nf_size st) + unat (of_nat (length c) :: u64) < 2 ^ LENGTH(64)"
      using f(2) w(2) [of f] c(2) by (simp add: unat_of_nat_small)
    then show ?thesis using f(2) c(2) by (simp add: unat_plus_simple word_le_nat_alt unat_word_ariths unat_of_nat_small)
  qed
  have fp: "future_path s k = future_path st k" if "nf_base s = nf_base st" for s :: node_file and k
    using that by (simp add: future_path_def)
  have nxt: "next_path st = future_path st (length (nf_paths st))" by (simp add: next_path_def future_path_def)
  have grown: "file_ok (nf_rollover s) (M + length c) ((W(x := W x @ [c])) y)"
    if "nf_rollover s = nf_rollover st"
      "nf_rollover st = 0 \<or> length (concat (W x)) + length c \<le> unat (nf_rollover st) \<or> W x = []" for s x y
    using w [of y] w [of x] c(1) that by (auto simp: file_ok_def)
  have goal: "off = length (concat (W fd)) \<and> reserved_ok opened (W(fd := W fd @ [c])) (M + length c) st'"
  proof (cases "nf_rollover st \<noteq> 0 \<and> nf_size st \<noteq> 0 \<and> nf_size st + of_nat (length c) > nf_rollover st")
    case False
    then have e: "fd = f" "off = unat (nf_size st)"
      "st' = st\<lparr>nf_size := nf_size st + of_nat (length c), nf_total := nf_total st + of_nat (length c)\<rparr>"
      using r f(1) by (auto simp: reserve_range_def)
    have "nf_rollover st = 0 \<or> length (concat (W f)) + length c \<le> unat (nf_rollover st) \<or> W f = []"
    proof -
      have "W f = []" if "nf_size st = 0"
        using that f(2) w(1) [of f] by (cases "W f") auto
      moreover have "length (concat (W f)) + length c \<le> unat (nf_rollover st)"
        if "\<not> nf_size st + of_nat (length c) > nf_rollover st"
        using that sum by (simp add: word_le_nat_alt not_less)
      ultimately show ?thesis using False by blast
    qed
    moreover have "nf_fd st' = Some f" "nf_rollover st' = nf_rollover st" "nf_paths st' = nf_paths st"
      "nf_base st' = nf_base st" "unat (nf_size st') = length (concat (W f)) + length c"
      using f(1) sum by (simp_all add: e)
    ultimately have "reserved_ok opened (W(fd := W fd @ [c])) (M + length c) st'"
      using f(3) fp [of st'] by (intro reserved_okI [of _ f] grown) (auto simp: e(1))
    then show ?thesis using e f(2) by simp
  next
    case True
    then have rr: "reserve_range opened (length c) st =
        (let (ok, s) = open_file opened (next_path st) st in
         if \<not> ok then (None, s)
         else (Some (the (nf_fd s), unat (nf_size s)),
           s\<lparr>nf_size := nf_size s + of_nat (length c), nf_total := nf_total s + of_nat (length c)\<rparr>))"
      using f(1) by (simp only: reserve_range_def option.distinct if_False if_True simp_thms)
    obtain g where g: "opened (next_path st) = Some g"
      using r unfolding rr by (cases "opened (next_path st)") (simp_all add: open_file_def)
    have e: "opened (next_path st) = Some fd" "off = 0" "nf_fd st' = Some fd"
      "nf_size st' = of_nat (length c)" "length (nf_paths st') = length (nf_paths st) + 1"
      "nf_base st' = nf_base st" "nf_rollover st' = nf_rollover st"
      using r g unfolding rr by (auto simp: open_file_def)
    have wf: "W fd = []" using f(3) [of "length (nf_paths st)" fd] e(1) nxt by simp
    have fut: "W fd' = [] \<and> fd' \<noteq> fd" if "length (nf_paths st') \<le> k" "opened (future_path st' k) = Some fd'" for k fd'
    proof -
      have k: "k \<noteq> length (nf_paths st)" "length (nf_paths st) \<le> k" "opened (future_path st k) = Some fd'"
        using that e(5,6) by (simp_all add: fp [of st'])
      have "fd' \<noteq> fd"
      proof
        assume "fd' = fd"
        then have "future_path st k = future_path st (length (nf_paths st))"
          using one k(3) e(1) nxt by (auto simp: one_file_each_def)
        then show False using k(1) by (simp add: future_path_inj)
      qed
      then show ?thesis using f(3) [OF k(2,3)] by simp
    qed
    have "unat (nf_size st') = length c" using e(4) c(2) by (simp add: unat_of_nat_small)
    then have "reserved_ok opened (W(fd := W fd @ [c])) (M + length c) st'"
      using e(3,7) fut wf by (intro reserved_okI [of _ fd] grown) auto
    then show ?thesis using e(2) wf by simp
  qed
  then show "off = length (concat (W fd))" "reserved_ok opened (W(fd := W fd @ [c])) (M + length c) st'"
    by simp_all
qed

type_synonym write_call = "(nat \<times> nat) \<times> byte list"

definition whole :: "write_call \<Rightarrow> piece" where
  "whole = (\<lambda>((fd, off), c). (fd, off, c))"

lemma chunks_in_Cons: "chunks_in x (((fd, off), c) # ws) = (if fd = x then c # chunks_in x ws else chunks_in x ws)"
  by (simp add: chunks_in_def)

text \<open>The files when every chunk is in its place.\<close>

definition target :: "(nat \<Rightarrow> byte list list) \<Rightarrow> write_call list \<Rightarrow> disk" where
  "target W ws fd = concat (W fd @ chunks_in fd ws)"

lemma target_Cons: "target (W(fd := W fd @ [c])) ws = target W (((fd, off), c) # ws)"
  by (auto simp: target_def chunks_in_Cons)

lemma covered_insert: "covered (insert (g, off, bs) P) fd i \<longleftrightarrow> g = fd \<and> off \<le> i \<and> i < off + length bs \<or> covered P fd i"
  by (auto simp: covered_def)

lemma reserve_all_target:
  assumes "reserved_ok opened W M st" "one_file_each opened" "[] \<notin> set cs" "M + length (concat cs) < 2 ^ 64"
    and "reserve_all opened cs st = Some (rs, st')"
  shows "length rs = length cs \<and> list_all (fits (target W (zip rs cs))) (map whole (zip rs cs)) \<and>
    (\<forall>fd i. length (concat (W fd)) \<le> i \<longrightarrow> i < length (target W (zip rs cs) fd) \<longrightarrow>
       covered (set (map whole (zip rs cs))) fd i) \<and>
    nf_rollover st' = nf_rollover st \<and>
    (\<forall>fd. file_ok (nf_rollover st') (M + length (concat cs)) (W fd @ chunks_in fd (zip rs cs)))"
  using assms
proof (induction cs arbitrary: W M st rs)
  case Nil
  then show ?case by (auto simp: target_def chunks_in_def reserved_ok_def)
next
  case (Cons c cs)
  obtain r st1 where r: "reserve_range opened (length c) st = (Some r, st1)"
    using Cons.prems(5) by (auto split: prod.splits option.splits)
  obtain fd off where fo: "r = (fd, off)" by (cases r)
  obtain rs1 where rs1: "reserve_all opened cs st1 = Some (rs1, st')" "rs = (fd, off) # rs1"
    using Cons.prems(5) r fo by (auto split: option.splits)
  have c: "c \<noteq> []" "M + length c < 2 ^ 64" using Cons.prems(3,4) by auto
  note step = reserve_step [OF Cons.prems(1,2) c r [unfolded fo]]
  let ?W = "W(fd := W fd @ [c])" and ?T = "target W (zip rs (c # cs))"
  have T: "target ?W (zip rs1 cs) = ?T" by (simp add: rs1(2) target_Cons [of W fd c _ off])
  have pre: "[] \<notin> set cs" "M + length c + length (concat cs) < 2 ^ 64" using Cons.prems(3,4) by auto
  note I = Cons.IH [OF step(2) Cons.prems(2) pre rs1(1), unfolded T]
  have ih: "length rs1 = length cs" "list_all (fits ?T) (map whole (zip rs1 cs))"
    "\<And>x i. length (concat (?W x)) \<le> i \<Longrightarrow> i < length (?T x) \<Longrightarrow> covered (set (map whole (zip rs1 cs))) x i"
    "nf_rollover st' = nf_rollover st1"
    "\<And>x. file_ok (nf_rollover st') (M + length c + length (concat cs)) (?W x @ chunks_in x (zip rs1 cs))"
    using I by blast+
  have h: "fits ?T (fd, off, c)"
    by (simp add: fits_def target_def rs1(2) chunks_in_Cons step(1) take_at_def)
  have cov: "covered (set (map whole (zip rs (c # cs)))) x i"
    if "length (concat (W x)) \<le> i" "i < length (?T x)" for x i
  proof (cases "x = fd \<and> i < off + length c")
    case True
    then show ?thesis using that step(1) by (simp add: rs1(2) whole_def covered_insert)
  next
    case False
    then have "length (concat (?W x)) \<le> i" using that step(1) by auto
    then show ?thesis using ih(3) that(2) by (simp add: rs1(2) whole_def covered_insert)
  qed
  have same: "?W x @ chunks_in x (zip rs1 cs) = W x @ chunks_in x (zip rs (c # cs))" for x
    by (simp add: rs1(2) chunks_in_Cons)
  have ro: "nf_rollover st1 = nf_rollover st"
    using r by (auto simp: reserve_range_def open_file_def Let_def split: if_splits option.splits)
  show ?case
    using ih(1,2,4,5) h cov ro unfolding same by (simp add: rs1(2) whole_def add.assoc)
qed

text \<open>All the \<open>pwrite\<close>s of writes that succeed.\<close>

fun all_puts :: "answer list list \<Rightarrow> write_call list \<Rightarrow> piece list option" where
  "all_puts (a # as) (((fd, off), c) # ws) =
     (case write_puts a fd c off of
        None \<Rightarrow> None
      | Some ps \<Rightarrow> map_option ((@) ps) (all_puts as ws))"
| "all_puts [] [] = Some []"
| "all_puts _ _ = None"

lemma all_puts_fill:
  "all_puts as ws = Some qs \<Longrightarrow> list_all (fits T) (map whole ws) \<Longrightarrow>
   list_all (fits T) qs \<and> (covered (set (map whole ws)) fd i \<longrightarrow> covered (set qs) fd i)"
proof (induction as ws arbitrary: qs rule: all_puts.induct)
  case (1 a as g off c ws)
  from 1(2) obtain ps qs1 where q: "write_puts a g c off = Some ps" "all_puts as ws = Some qs1" "qs = ps @ qs1"
    by (auto split: option.splits)
  obtain parts where p: "concat parts = c" "ps = cut_pieces g off parts" using write_puts_cut [OF q(1)] by auto
  have "fits T (g, off, c)" "list_all (fits T) (map whole ws)" using 1(3) by (simp_all add: whole_def)
  then have f: "list_all (fits T) ps"
    using cut_pieces_fit [of off parts T g] by (simp add: fits_def p)
  have cp: "covered (set ps) g j" if "off \<le> j" "j < off + length c" for j
    using cut_pieces_covers [of off j parts g] that by (simp add: p)
  have u: "covered (A \<union> B) x j \<longleftrightarrow> covered A x j \<or> covered B x j" for A B x j by (auto simp: covered_def)
  show ?case
    using 1(1) [OF q(1,2)] \<open>list_all (fits T) (map whole ws)\<close> f cp
    by (auto simp: q(3) u covered_insert) (auto simp: whole_def covered_insert)
qed (auto simp: covered_def)

section \<open>The files\<close>

lemma open_trace_ok:
  assumes "one_file_each opened" "open_trace opened path rollover closed_file = (True, st)"
  shows "reserved_ok opened (\<lambda>_. []) 0 st" "nf_rollover st = rollover"
proof -
  obtain f where f: "opened path = Some f"
    using assms(2) by (auto simp: open_trace_def open_file_def split: option.splits)
  then have st: "nf_fd st = Some f" "nf_size st = 0" "nf_rollover st = rollover"
    "nf_base st = (if length path > length trace_ext \<and> suffix trace_ext path
       then take (length path - length trace_ext) path else path)"
    using assms(2) by (auto simp: open_trace_def open_file_def)
  have "length path < length (future_path st k)" for k
    by (simp add: future_path_def st(4) trace_ext_def) arith
  then have "path \<noteq> future_path st k" for k using nat_neq_iff by metis
  then have "fd' \<noteq> f" if "opened (future_path st k) = Some fd'" for k fd'
    using assms(1) f that by (auto simp: one_file_each_def)
  then show "reserved_ok opened (\<lambda>_. []) 0 st"
    using st by (intro reserved_okI [of _ f]) (auto simp: file_ok_def)
  show "nf_rollover st = rollover" by (rule st(3))
qed

text \<open>
  C23: When the reservations of all chunks have been made and all their writes succeed, the
  files hold the chunks one after the other, whole, in the order of the reservations, whatever
  the order in which the single \<open>pwrite\<close>s of the threads reached the disk; and a file holds at
  most \<open>rollover\<close> bytes, if there is such a bound, or a single chunk.
\<close>

theorem concurrent_writes_concatenate:
  assumes "one_file_each opened" and "open_trace opened path rollover closed_file = (True, st0)"
    and "reserve_all opened cs st0 = Some (rs, st)"
    and "[] \<notin> set cs" and "length (concat cs) < 2 ^ 63"
    and "all_puts as (zip rs cs) = Some qs" and "mset ps = mset qs"
  shows "fold put_piece ps (\<lambda>_. []) fd = concat (chunks_in fd (zip rs cs)) \<and>
    (rollover = 0 \<or> length (concat (chunks_in fd (zip rs cs))) \<le> unat rollover \<or>
     length (chunks_in fd (zip rs cs)) = 1)"
proof -
  note init = open_trace_ok [OF assms(1,2)]
  have "0 + length (concat cs) < 2 ^ 64" using assms(5) by simp
  note r = reserve_all_target [OF init(1) assms(1,4) this assms(3)]
  let ?T = "target (\<lambda>_. []) (zip rs cs)"
  have same: "set ps = set qs" using assms(7) by (metis set_mset_mset)
  have f: "list_all (fits ?T) (map whole (zip rs cs))" using r by blast
  note fill = all_puts_fill [OF assms(6) f]
  have "fold put_piece ps (\<lambda>_. []) = ?T"
  proof (rule pieces_fill)
    show "list_all (fits ?T) ps" using fill same by (simp add: list_all_iff)
    show "covered (set ps) x i" if "i < length (?T x)" for x i
      using fill r that unfolding same by simp
  qed
  moreover have "file_ok rollover (0 + length (concat cs)) ([] @ chunks_in fd (zip rs cs))"
    using r init(2) by metis
  then have "rollover = 0 \<or> length (concat (chunks_in fd (zip rs cs))) \<le> unat rollover \<or>
     length (chunks_in fd (zip rs cs)) = 1"
    by (cases "chunks_in fd (zip rs cs)") (auto simp: file_ok_def)
  ultimately show ?thesis by (simp add: target_def)
qed

definition two_files :: "string \<Rightarrow> nat option" where
  "two_files p = (if p = ''t.pfw.gz'' then Some 3 else if p = ''t-1.pfw.gz'' then Some 4 else None)"

theorem concurrent_writes_concatenate_witness:
  "fold put_piece [(4, 2, [5]), (3, 1, [2]), (4, 0, [3, 4]), (3, 0, [1])] (\<lambda>_. []) 4 = [3, 4, 5]"
proof -
  let ?st0 = "snd (open_trace two_files ''t.pfw.gz'' 3 closed_file)"
  have o: "open_trace two_files ''t.pfw.gz'' 3 closed_file = (True, ?st0)" by code_simp
  have r: "map_option fst (reserve_all two_files [[1, 2], [3, 4], [5]] ?st0) = Some [(3, 0), (4, 0), (4, 2)]"
    by code_simp
  then obtain st where r': "reserve_all two_files [[1, 2], [3, 4], [5]] ?st0 = Some ([(3, 0), (4, 0), (4, 2)], st)"
    by auto
  have one: "one_file_each two_files" by (simp add: one_file_each_def two_files_def)
  have a: "all_puts [[Wrote 1, Interrupted, Wrote 1], [Wrote 2], [Wrote 9]]
      (zip [(3, 0), (4, 0), (4, 2)] [[1, 2], [3, 4], [5]]) =
      Some [(3, 0, [1]), (3, 1, [2]), (4, 0, [3, 4]), (4, 2, [5])]" by simp
  have m: "mset [(4, 2, [5]), (3, 1, [2]), (4, 0, [3, 4]), (3, 0, [1])] =
      mset [(3, 0, [1]), (3, 1, [2]), (4, 0, [3, 4]), (4 :: nat, 2 :: nat, [5 :: byte])]" by simp
  show ?thesis
    using concurrent_writes_concatenate [OF one o r' _ _ a m, of 4] by (simp add: chunks_in_def)
qed

text \<open>
  A chunk whose write fails leaves a hole: its range stays reserved, so the next chunk is
  written after as many zeros, which are no gzip member.
\<close>

lemma failed_write_leaves_hole:
  assumes "nf_fd st = Some fd" and "nf_rollover st = 0" and "bs \<noteq> []" and "cs \<noteq> []"
    and "unat (nf_size st) = length (d fd)" and "length (d fd) + length bs + length cs < 2 ^ 63"
  shows "(case write_trace opened [Failed] bs st d of
      Some (ok, st1, d1) \<Rightarrow> \<not> ok \<and> d1 = d \<and>
        map_option (\<lambda>(ok, st2, d2). (ok, d2 fd)) (write_trace opened [Wrote (length cs)] cs st1 d1) =
          Some (True, d fd @ replicate (length bs) 0 @ cs)
    | None \<Rightarrow> False)"
proof -
  have n: "unat (nf_size st + of_nat (length bs)) = length (d fd) + length bs"
  proof -
    have b: "unat (of_nat (length bs) :: u64) = length bs" using assms(6) by (intro unat_of_nat_small) simp
    then have "unat (nf_size st) + unat (of_nat (length bs) :: u64) < 2 ^ LENGTH(64)" using assms(5,6) by simp
    then show ?thesis using assms(5) b by (simp add: unat_word_ariths)
  qed
  obtain b bs' c cs' where e: "bs = b # bs'" "cs = c # cs'" using assms(3,4) by (meson neq_Nil_conv)
  have w: "put_bytes (length (d fd) + length bs) cs (d fd) = d fd @ replicate (length bs) 0 @ cs"
    using assms(4) by (simp add: put_bytes_def put_at_def)
  have f: "write_at [Failed] fd bs k d = Some (False, d)" for k by (simp add: e(1))
  have g: "write_at [Wrote (length cs)] fd cs k d = Some (True, pwrite fd k cs d)" for k by (simp add: e(2))
  show ?thesis
    using assms(1-4) w by (simp add: write_trace_def reserve_range_def f g n pwrite_def) blast
qed

theorem failed_write_leaves_hole_witness:
  "map_option (\<lambda>(ok, st, d). (ok, d 3))
     (write_trace two_files [Wrote (length [8 :: byte, 9])] [8, 9]
       (fst (snd (the (write_trace two_files [Failed] [6, 7]
         (snd (open_trace two_files ''t.pfw.gz'' 0 closed_file)) (\<lambda>_. []))))) (\<lambda>_. [])) = Some (True, [0, 0, 8, 9])"
proof -
  let ?st = "snd (open_trace two_files ''t.pfw.gz'' 0 closed_file)"
  have "nf_fd ?st = Some 3" "nf_rollover ?st = 0" "unat (nf_size ?st) = length ((\<lambda>_. []) (3 :: nat) :: byte list)"
    by (simp_all add: open_trace_def open_file_def two_files_def closed_file_def)
  note t = failed_write_leaves_hole [OF this(1,2) _ _ this(3), of "[6, 7]" "[8, 9]" two_files]
  show ?thesis using t by (auto split: option.splits)
qed

end
