(* ===== verification/Consumer_Scaler.thy ===== *)
theory Consumer_Scaler
  imports DFT_Prelude Complex_Main
begin

text \<open>
  How many drain threads the ring needs: \<open>ConsumerScaler\<close> of
  \<open>service/pipeline/consumer_scaler.h\<close>, fed one sample per tick. The arithmetic on doubles is
  a parameter (\<open>arith\<close>); \<open>real_arith\<close> is the exact one.
\<close>

section \<open>The scaler\<close>

record scaler_sample =
  ss_now_ns :: u64
  ss_head :: u64
  ss_ready :: u64
  ss_drained :: u64
  ss_busy_ns :: u64

record 'd arith =
  ar_of :: "u64 \<Rightarrow> 'd"
  ar_zero :: 'd
  ar_add :: "'d \<Rightarrow> 'd \<Rightarrow> 'd"
  ar_sub :: "'d \<Rightarrow> 'd \<Rightarrow> 'd"
  ar_mul :: "'d \<Rightarrow> 'd \<Rightarrow> 'd"
  ar_div :: "'d \<Rightarrow> 'd \<Rightarrow> 'd"
  ar_eq :: "'d \<Rightarrow> 'd \<Rightarrow> bool"
  ar_nano :: 'd  \<comment> \<open>\<open>1e-9\<close>\<close>
  ar_smoothing :: 'd  \<comment> \<open>\<open>0.25\<close>\<close>
  ar_ceil :: "'d \<Rightarrow> u32"  \<comment> \<open>\<open>std::ceil\<close>, then the cast\<close>

record 'd scaler =
  sc_min :: u32
  sc_max :: u32
  sc_catchup :: 'd
  sc_down_ticks :: u32
  sc_utilization :: 'd
  sc_last :: scaler_sample
  sc_primed :: bool
  sc_rate :: 'd
  sc_target :: u32
  sc_below :: u32

definition new_scaler :: "'d arith \<Rightarrow> u32 \<Rightarrow> u32 \<Rightarrow> u64 \<Rightarrow> u32 \<Rightarrow> 'd \<Rightarrow> 'd scaler" where
  "new_scaler M min_threads max_threads catchup_ns down_ticks utilization =
     \<lparr>sc_min = max 1 min_threads, sc_max = max (max 1 min_threads) max_threads,
      sc_catchup = ar_of M (if catchup_ns = 0 then 1 else catchup_ns), sc_down_ticks = down_ticks,
      sc_utilization = utilization,
      sc_last = \<lparr>ss_now_ns = 0, ss_head = 0, ss_ready = 0, ss_drained = 0, ss_busy_ns = 0\<rparr>,
      sc_primed = False, sc_rate = ar_zero M, sc_target = 0, sc_below = 0\<rparr>"

definition scaler_reset :: "scaler_sample \<Rightarrow> 'd scaler \<Rightarrow> 'd scaler" where
  "scaler_reset s st = st\<lparr>sc_last := s, sc_primed := True, sc_below := 0\<rparr>"

definition clamp_threads :: "'d scaler \<Rightarrow> u32 \<Rightarrow> u32" where
  "clamp_threads st n = min (max n (sc_min st)) (sc_max st)"

definition new_rate :: "'d arith \<Rightarrow> 'd scaler \<Rightarrow> scaler_sample \<Rightarrow> 'd" where
  "new_rate M st s =
     (let drained = ss_drained s - ss_drained (sc_last st);
          busy = ss_busy_ns s - ss_busy_ns (sc_last st)
      in if drained \<noteq> 0 \<and> busy \<noteq> 0
         then (let r = ar_div M (ar_of M drained) (ar_of M busy) in
               if ar_eq M (sc_rate st) (ar_zero M) then r
               else ar_add M (sc_rate st) (ar_mul M (ar_smoothing M) (ar_sub M r (sc_rate st))))
         else sc_rate st)"

definition new_demand :: "'d arith \<Rightarrow> 'd scaler \<Rightarrow> scaler_sample \<Rightarrow> 'd" where
  "new_demand M st s =
     ar_add M (ar_div M (ar_of M (ss_head s - ss_head (sc_last st)))
        (ar_of M (ss_now_ns s - ss_now_ns (sc_last st))))
       (ar_div M (ar_of M (ss_ready s)) (sc_catchup st))"

definition new_target :: "'d arith \<Rightarrow> 'd scaler \<Rightarrow> scaler_sample \<Rightarrow> u32 \<Rightarrow> u32" where
  "new_target M st s active =
     clamp_threads st
       (if ar_eq M (new_rate M st s) (ar_zero M)
        then (if ss_ready s > ucast active then active + 1 else active)
        else ar_ceil M (ar_sub M
          (ar_div M (new_demand M st s) (ar_mul M (new_rate M st s) (sc_utilization st))) (ar_nano M)))"

definition scaler_update :: "'d arith \<Rightarrow> 'd scaler \<Rightarrow> scaler_sample \<Rightarrow> u32 \<Rightarrow> u32 \<times> 'd scaler" where
  "scaler_update M st s active =
     (let active = clamp_threads st active in
      if \<not> sc_primed st \<or> ss_now_ns s \<le> ss_now_ns (sc_last st) then (active, scaler_reset s st)
      else
        (let target = new_target M st s active;
             st = st\<lparr>sc_rate := new_rate M st s, sc_last := s, sc_target := target\<rparr>
         in if target > active then (target, st\<lparr>sc_below := 0\<rparr>)
            else if target < active
            then (if sc_below st + 1 \<ge> sc_down_ticks st
                  then (active - 1, st\<lparr>sc_below := 0\<rparr>)
                  else (active, st\<lparr>sc_below := sc_below st + 1\<rparr>))
            else (active, st\<lparr>sc_below := 0\<rparr>)))"

section \<open>One tick\<close>

definition scaler_ok :: "'d scaler \<Rightarrow> bool" where
  "scaler_ok st \<longleftrightarrow> 1 \<le> sc_min st \<and> sc_min st \<le> sc_max st \<and>
     (sc_below st = 0 \<or> sc_below st < sc_down_ticks st)"

lemma new_scaler_ok: "scaler_ok (new_scaler M mn mx catchup down ut)"
  by (simp add: scaler_ok_def new_scaler_def)

lemma clamp_range: "scaler_ok st \<Longrightarrow> sc_min st \<le> clamp_threads st n \<and> clamp_threads st n \<le> sc_max st"
  by (simp add: clamp_threads_def scaler_ok_def)

lemma clamp_id: "sc_min st \<le> n \<Longrightarrow> n \<le> sc_max st \<Longrightarrow> clamp_threads st n = n"
  by (simp add: clamp_threads_def)

lemma target_range: "scaler_ok st \<Longrightarrow> sc_min st \<le> new_target M st s a \<and> new_target M st s a \<le> sc_max st"
  by (simp add: new_target_def clamp_range)

text \<open>
  A tick keeps the bounds, and goes down by one only when so many ticks in a row wanted fewer:
  the counter pays for it.
\<close>

lemma update_step:
  assumes ok: "scaler_ok st" and a: "sc_min st \<le> active" "active \<le> sc_max st"
    and u: "scaler_update M st s active = (n, st')"
  shows "scaler_ok st' \<and> sc_min st' = sc_min st \<and> sc_max st' = sc_max st \<and>
    sc_down_ticks st' = sc_down_ticks st \<and> sc_min st \<le> n \<and> n \<le> sc_max st \<and> unat active \<le> unat n + 1 \<and>
    unat (sc_below st') + (if n < active then unat (sc_down_ticks st) else 0) \<le> unat (sc_below st) + 1"
proof -
  note c = clamp_id [OF a]
  let ?t = "new_target M st s active" and ?b = "sc_below st + 1"
  note t = target_range [OF ok, of M s active]
  have b: "unat ?b \<le> unat (sc_below st) + 1" by (simp add: unat_word_ariths)
  have "0 < sc_min st" using ok by (auto simp: scaler_ok_def word_le_nat_alt word_less_nat_alt)
  then have dec: "unat (active - 1) = unat active - 1" "0 < unat active"
    using order_less_le_trans [OF _ a(1)] unat_minus_one [of active] by (auto simp: unat_gt_0)
  consider "\<not> sc_primed st \<or> ss_now_ns s \<le> ss_now_ns (sc_last st)"
    | "\<not> (\<not> sc_primed st \<or> ss_now_ns s \<le> ss_now_ns (sc_last st))" "active < ?t"
    | "\<not> (\<not> sc_primed st \<or> ss_now_ns s \<le> ss_now_ns (sc_last st))" "?t < active" "sc_down_ticks st \<le> ?b" "\<not> active < ?t"
    | "\<not> (\<not> sc_primed st \<or> ss_now_ns s \<le> ss_now_ns (sc_last st))" "?t < active" "\<not> sc_down_ticks st \<le> ?b" "\<not> active < ?t"
    | "\<not> (\<not> sc_primed st \<or> ss_now_ns s \<le> ss_now_ns (sc_last st))" "?t = active"
    by (metis less_linear order.asym)
  then show ?thesis
  proof cases
    case 1
    then have "n = active" "st' = scaler_reset s st" using u c by (auto simp: scaler_update_def)
    then show ?thesis using ok a by (simp add: scaler_ok_def scaler_reset_def)
  next
    case 2
    then have "n = ?t" "st' = st\<lparr>sc_rate := new_rate M st s, sc_last := s, sc_target := ?t, sc_below := 0\<rparr>"
      using u c by (auto simp: scaler_update_def Let_def)
    then show ?thesis using ok t 2 by (simp add: scaler_ok_def word_less_nat_alt)
  next
    case 3
    then have e: "n = active - 1" "st' = st\<lparr>sc_rate := new_rate M st s, sc_last := s, sc_target := ?t, sc_below := 0\<rparr>"
      using u c by (auto simp: scaler_update_def Let_def)
    have "sc_min st \<le> active - 1"
      using t 3(2) dec by (auto simp: word_less_nat_alt word_le_nat_alt)
    moreover have "active - 1 \<le> sc_max st" using a dec by (simp add: word_le_nat_alt)
    moreover have "unat (sc_down_ticks st) \<le> unat (sc_below st) + 1"
      using 3(3) b by (simp add: word_le_nat_alt)
    ultimately show ?thesis using ok dec e by (simp add: scaler_ok_def)
  next
    case 4
    then have "n = active" "st' = st\<lparr>sc_rate := new_rate M st s, sc_last := s, sc_target := ?t, sc_below := ?b\<rparr>"
      using u c by (auto simp: scaler_update_def Let_def)
    then show ?thesis using ok a b 4(3) by (simp add: scaler_ok_def not_le)
  next
    case 5
    then have "n = active" "st' = st\<lparr>sc_rate := new_rate M st s, sc_last := s, sc_target := ?t, sc_below := 0\<rparr>"
      using u c by (auto simp: scaler_update_def Let_def)
    then show ?thesis using ok a by (simp add: scaler_ok_def)
  qed
qed

section \<open>A run\<close>

text \<open>The thread counts over a run of ticks, each fed back to the next.\<close>

fun scaler_run :: "'d arith \<Rightarrow> 'd scaler \<Rightarrow> u32 \<Rightarrow> scaler_sample list \<Rightarrow> u32 list" where
  "scaler_run M st active [] = [active]"
| "scaler_run M st active (s # ss) =
     (case scaler_update M st s active of (n, st') \<Rightarrow> active # scaler_run M st' n ss)"

fun downs :: "u32 list \<Rightarrow> nat" where
  "downs (a # b # ns) = (if b < a then 1 else 0) + downs (b # ns)"
| "downs _ = 0"

fun steps_down_by_one :: "u32 list \<Rightarrow> bool" where
  "steps_down_by_one (a # b # ns) \<longleftrightarrow> unat a \<le> unat b + 1 \<and> steps_down_by_one (b # ns)"
| "steps_down_by_one _ = True"

lemma run_head: "\<exists>ns. scaler_run M st active ss = active # ns"
  by (cases ss) (simp_all split: prod.split)

lemma run_ok:
  assumes "scaler_ok st" "sc_min st \<le> active" "active \<le> sc_max st"
  shows "list_all (\<lambda>n. sc_min st \<le> n \<and> n \<le> sc_max st) (scaler_run M st active ss) \<and>
    steps_down_by_one (scaler_run M st active ss) \<and>
    downs (scaler_run M st active ss) * unat (sc_down_ticks st) \<le> unat (sc_below st) + length ss"
  using assms
proof (induction ss arbitrary: st active)
  case (Cons s ss)
  obtain n st' where u: "scaler_update M st s active = (n, st')" by (cases "scaler_update M st s active")
  note step = update_step [OF Cons.prems u]
  have ih: "list_all (\<lambda>n. sc_min st \<le> n \<and> n \<le> sc_max st) (scaler_run M st' n ss)"
    "steps_down_by_one (scaler_run M st' n ss)"
    "downs (scaler_run M st' n ss) * unat (sc_down_ticks st) \<le> unat (sc_below st') + length ss"
    using Cons.IH [of st' n] step by simp_all
  obtain ns where ns: "scaler_run M st' n ss = n # ns" using run_head by blast
  have b: "unat (sc_below st') + (if n < active then unat (sc_down_ticks st) else 0) \<le> unat (sc_below st) + 1"
    using step by blast
  show ?case
    using ih step Cons.prems b unfolding scaler_run.simps u prod.case ns
    by (auto simp: add_mult_distrib split: if_splits)
qed simp

text \<open>
  C24: Whatever the samples and the arithmetic on doubles, the thread count stays between the
  bounds, goes down by one thread at a time, and does so at most once in \<open>down_ticks\<close> ticks.
\<close>

theorem scaler_stays_in_bounds:
  assumes "st = new_scaler M min_threads max_threads catchup_ns down_ticks utilization"
    and "sc_min st \<le> active" "active \<le> sc_max st"
  shows "list_all (\<lambda>n. max 1 min_threads \<le> n \<and> n \<le> max (max 1 min_threads) max_threads)
      (scaler_run M st active samples) \<and>
    steps_down_by_one (scaler_run M st active samples) \<and>
    downs (scaler_run M st active samples) * unat down_ticks \<le> length samples"
  using run_ok [OF new_scaler_ok assms(2,3) [unfolded assms(1)], where ss = samples]
  unfolding assms(1) by (simp add: new_scaler_def)

definition nat_arith :: "nat arith" where
  "nat_arith = \<lparr>ar_of = unat, ar_zero = 0, ar_add = (+), ar_sub = (-), ar_mul = (*), ar_div = (div),
     ar_eq = (=), ar_nano = 0, ar_smoothing = 1, ar_ceil = of_nat\<rparr>"

definition idle_samples :: "scaler_sample list" where
  "idle_samples =
     [\<lparr>ss_now_ns = 5, ss_head = 1, ss_ready = 0, ss_drained = 0, ss_busy_ns = 0\<rparr>,
      \<lparr>ss_now_ns = 9, ss_head = 2, ss_ready = 0, ss_drained = 8, ss_busy_ns = 2\<rparr>,
      \<lparr>ss_now_ns = 12, ss_head = 2, ss_ready = 0, ss_drained = 9, ss_busy_ns = 3\<rparr>]"

theorem scaler_stays_in_bounds_witness:
  "downs (scaler_run nat_arith (new_scaler nat_arith 1 4 1000 2 1) 3 idle_samples) * unat (2 :: u32)
     \<le> length idle_samples"
proof -
  have "sc_min (new_scaler nat_arith 1 4 1000 2 1) \<le> 3" "3 \<le> sc_max (new_scaler nat_arith 1 4 1000 2 1)"
    by (simp_all add: new_scaler_def)
  note t = scaler_stays_in_bounds [OF refl this, where samples = idle_samples]
  show ?thesis by (rule t [THEN conjunct2, THEN conjunct2])
qed

section \<open>Exact arithmetic\<close>

definition real_arith :: "real arith" where
  "real_arith = \<lparr>ar_of = (\<lambda>w. of_nat (unat w)), ar_zero = 0, ar_add = (+), ar_sub = (-), ar_mul = (*),
     ar_div = (/), ar_eq = (=), ar_nano = 1 / 10 ^ 9, ar_smoothing = 1 / 4,
     ar_ceil = (\<lambda>x. of_int \<lceil>x\<rceil>)\<rparr>"

lemma ceil_word:
  fixes x :: real
  assumes "x \<le> of_nat (unat (m :: u32))"
  shows "x \<le> of_nat (unat (of_int \<lceil>x\<rceil> :: u32))"
proof (cases "x \<le> 0")
  case False
  have w: "int (unat (of_int k :: u32)) = k" if "0 \<le> k" "k < 2 ^ 32" for k :: int
    using that by (simp add: unsigned_of_int take_bit_eq_mod)
  from False have "0 \<le> \<lceil>x\<rceil>" by simp
  moreover have "\<lceil>x\<rceil> \<le> int (unat m)" using assms by (simp add: ceiling_le_iff)
  moreover have "int (unat m) < 2 ^ 32" using uint_bounded [of m] by simp
  ultimately have "int (unat (of_int \<lceil>x\<rceil> :: u32)) = \<lceil>x\<rceil>"
    by (intro w) linarith+
  then have "of_nat (unat (of_int \<lceil>x\<rceil> :: u32)) = (of_int \<lceil>x\<rceil> :: real)" by (metis of_int_of_nat_eq)
  then show ?thesis by (simp only: le_of_int_ceiling)
next
  case True
  then show ?thesis by (meson of_nat_0_le_iff order_trans)
qed

lemma clamp_real:
  fixes x :: real
  assumes "x \<le> of_nat (unat a)" "x \<le> of_nat (unat (sc_max st))"
  shows "x \<le> of_nat (unat (clamp_threads st a))"
proof -
  have "unat a \<le> unat (max a (sc_min st))" unfolding word_le_nat_alt [symmetric] by simp
  then have "x \<le> of_nat (unat (max a (sc_min st)))" using assms(1) by (meson of_nat_mono order_trans)
  then show ?thesis using assms(2) unfolding clamp_threads_def min_def 
    by (cases "max a (sc_min st) \<le> sc_max st") (simp_all only: if_True if_False)
qed

text \<open>The threads a tick returns are never fewer than its target.\<close>

lemma update_at_least_target:
  assumes ok: "scaler_ok st" and a: "sc_min st \<le> active" "active \<le> sc_max st"
    and p: "sc_primed st" "ss_now_ns (sc_last st) < ss_now_ns s"
  shows "new_target M st s active \<le> fst (scaler_update M st s active)"
proof -
  note c = clamp_id [OF a]
  have "0 < active" using ok a by (auto simp: scaler_ok_def word_le_nat_alt word_less_nat_alt)
  then have "unat (active - 1) = unat active - 1" using unat_minus_one [of active] by auto
  then have "t \<le> active - 1" if "t < active" for t
    using that by (simp add: word_less_nat_alt word_le_nat_alt)
  then show ?thesis using p c by (auto simp: scaler_update_def Let_def not_less)
qed



end
