(* ===== verification/Local_Buffer.thy ===== *)
theory Local_Buffer
  imports Packed_Aggregator Node_Trace
begin

text \<open>
  \<open>LocalBufferManager\<close> (\<open>core/buffer/local_buffer_manager.cpp\<close>), which turns events into
  trace text: in a traced process with a buffer of its own, and attached to the chunk of a
  drain thread of the service. Both fill a buffer line by line and hand it on when it is full,
  so they share \<open>out_buffer\<close>; where it goes is a function of the state. Of the process's own
  manager the model has what it does without aggregation; the attached one is complete. The
  compressor, how doubles print and what \<open>Packed_Aggregator\<close> leaves open are parameters.
\<close>

section \<open>Lines into a buffer\<close>

text \<open>
  The chunk of a drain thread: its \<open>ChunkWriter\<close>, the bytes in it, and what the node file got,
  each write a gzip member. A process's own buffer is the same with \<open>write_buffer_size\<close> as its
  capacity and a \<open>STDIOWriter\<close> as its file; a write to a file that could not be opened is lost.
\<close>

record out_buffer =
  ob_writer :: chunk_writer
  ob_text :: "byte list"
  ob_open :: bool
  ob_members :: "byte list list"

definition new_out_buffer :: "nat \<Rightarrow> bool \<Rightarrow> out_buffer" where
  "new_out_buffer capacity opened =
     \<lparr>ob_writer = new_chunk_writer capacity, ob_text = [], ob_open = opened, ob_members = []\<rparr>"

definition write_member :: "bool \<Rightarrow> byte list \<Rightarrow> byte list list \<Rightarrow> bool \<times> byte list list" where
  "write_member opened out ms = (if opened then (True, ms @ [out]) else (False, ms))"

definition hand_on :: "(byte list \<Rightarrow> byte list) \<Rightarrow> byte list \<Rightarrow> out_buffer \<Rightarrow> out_buffer" where
  "hand_on gzip txt b =
     (case flush_chunk gzip (write_member (ob_open b)) txt (ob_writer b) (ob_members b) of
        (w, ms) \<Rightarrow> b\<lparr>ob_writer := w, ob_text := [], ob_members := ms\<rparr>)"

text \<open>\<open>compress_and_write_if_needed\<close> after a line was written at the end of the buffer.\<close>

definition compress_and_write_if_needed ::
  "(byte list \<Rightarrow> byte list) \<Rightarrow> bool \<Rightarrow> string \<Rightarrow> out_buffer \<Rightarrow> out_buffer" where
  "compress_and_write_if_needed gzip force line b =
     (let txt = ob_text b @ to_bytes line in
      if force \<or> length txt > cw_capacity (ob_writer b) then hand_on gzip txt b
      else b\<lparr>ob_text := txt\<rparr>)"

text \<open>\<open>detach\<close>, then \<open>set_used\<close> of the chunk's writer.\<close>

definition detach :: "u64 \<Rightarrow> out_buffer \<Rightarrow> out_buffer" where
  "detach now b = b\<lparr>ob_writer := set_used (length (ob_text b)) now (ob_writer b)\<rparr>"

section \<open>What a process logs\<close>

text \<open>The log calls of a \<open>BufferManager\<close>, with the arguments that reach the trace.\<close>

datatype log_call =
  Log_Data u32 "string option" "string option" byte u64 u64 "metadata option" u32 u64
| Log_Counter u32 "string option" "string option" byte u64 "metadata option" u32 u64
| Log_Record "string option" "metadata option" byte u32 u64
| Log_Metadata "string option" "string option" "string option" byte u32 u64 bool

text \<open>The line of a call in the process, without aggregation.\<close>

fun local_line :: "(u64 \<Rightarrow> string) \<Rightarrow> bool \<Rightarrow> string option \<Rightarrow> log_call \<Rightarrow> string" where
  "local_line g incl hash (Log_Data index name category ty start dur md pid tid) =
     json_data g incl hash index name category ty start dur md pid tid"
| "local_line g incl hash (Log_Counter index name category ty start md pid tid) =
     json_counter g hash name category ty start pid tid md"
| "local_line g incl hash (Log_Record name md ty pid tid) = json_record g hash name md ty pid tid"
| "local_line g incl hash (Log_Metadata name val record_name ty pid tid is_string) =
     json_metadata g hash name val record_name ty pid tid is_string"

definition local_log ::
  "(byte list \<Rightarrow> byte list) \<Rightarrow> (u64 \<Rightarrow> string) \<Rightarrow> bool \<Rightarrow> string option \<Rightarrow> bool \<Rightarrow> log_call \<Rightarrow> out_buffer
     \<Rightarrow> out_buffer" where
  "local_log gzip g incl hash ready call b =
     (if \<not> ready then b else compress_and_write_if_needed gzip False (local_line g incl hash call) b)"

text \<open>\<open>flush\<close> and \<open>finalize\<close>; a file of fewer than five events, or an empty one, is removed.\<close>

definition local_flush :: "(byte list \<Rightarrow> byte list) \<Rightarrow> bool \<Rightarrow> out_buffer \<Rightarrow> out_buffer" where
  "local_flush gzip ready b = (if \<not> ready then b else compress_and_write_if_needed gzip True [] b)"

definition local_finalize :: "(byte list \<Rightarrow> byte list) \<Rightarrow> u32 \<Rightarrow> out_buffer \<Rightarrow> out_buffer" where
  "local_finalize gzip index b =
     (let b = compress_and_write_if_needed gzip True [] b in
      if sint index < 5 \<or> concat (ob_members b) = [] then b\<lparr>ob_members := []\<rparr> else b)"

section \<open>Attached to a chunk\<close>

record trace_config =
  tc_aggregation :: bool
  tc_selective :: bool
  tc_inclusion :: "string list"
  tc_exclusion :: "string list"
  tc_metric :: TimeMetricType
  tc_interval_ms :: u64

text \<open>What the service's code relies on: printing and arithmetic of doubles, hashing, gzip.\<close>

record trace_env =
  te_show :: "u64 \<Rightarrow> string"
  te_math :: double_math
  te_hash :: "string \<Rightarrow> u64"
  te_gzip :: "byte list \<Rightarrow> byte list"
  te_config :: trace_config

record local_buffer =
  lb_app_name :: string
  lb_rank :: u32
  lb_ready :: bool
  lb_hostname :: string
  lb_packed :: "packed_aggregator option"

definition initialize_attached :: "trace_env \<Rightarrow> string \<Rightarrow> local_buffer option" where
  "initialize_attached E hostname_hash =
     (let cfg = te_config E;
          lb = \<lparr>lb_app_name = [], lb_rank = - 1, lb_ready = True, lb_hostname = hostname_hash, lb_packed = None\<rparr>
      in if tc_aggregation cfg
         then map_option (\<lambda>pa. lb\<lparr>lb_packed := Some pa\<rparr>)
           (new_aggregator (te_math E) (te_hash E) (tc_inclusion cfg) (tc_exclusion cfg)
             (tc_metric cfg) (tc_interval_ms cfg))
         else Some lb)"

definition set_app_name :: "string \<Rightarrow> local_buffer \<Rightarrow> local_buffer" where
  "set_app_name name lb = lb\<lparr>lb_app_name := name\<rparr>"

definition set_rank :: "u32 \<Rightarrow> local_buffer \<Rightarrow> local_buffer" where
  "set_rank r lb = lb\<lparr>lb_rank := r\<rparr>"

definition get_app_name :: "local_buffer \<Rightarrow> string option" where
  "get_app_name lb = (if lb_app_name lb = [] then None else Some (lb_app_name lb))"

definition put_line :: "trace_env \<Rightarrow> string \<Rightarrow> out_buffer \<Rightarrow> out_buffer" where
  "put_line E line b = compress_and_write_if_needed (te_gzip E) False line b"

definition drain_packed ::
  "trace_env \<Rightarrow> bool \<Rightarrow> u32 \<Rightarrow> local_buffer \<times> out_buffer \<Rightarrow> local_buffer \<times> out_buffer" where
  "drain_packed E all pid st = (case st of (lb, b) \<Rightarrow>
     (case lb_packed lb of
        None \<Rightarrow> (lb, b)
      | Some pa \<Rightarrow>
          (case packed_drain (te_show E) all pid (lb_hostname lb) pa of
             (rows, pa') \<Rightarrow> (lb\<lparr>lb_packed := Some pa'\<rparr>, fold (put_line E) rows b))))"

text \<open>Whether an event is aggregated rather than written; the rules decide it when selective.\<close>

definition packed_wanted :: "trace_env \<Rightarrow> local_buffer \<Rightarrow> packed_aggregator \<Rightarrow> decoded_event \<Rightarrow> bool option" where
  "packed_wanted E lb pa e =
     (if de_category e \<noteq> ''dftracer'' \<and> eh_flags (de_head e) AND SHM_EVENT_NO_AGGREGATE = 0
      then (if \<not> tc_selective (te_config E) then Some True
            else packed_should_aggregate (doubles.truncate (te_math E)) pa e (get_app_name lb) (Some (lb_rank lb)))
      else Some False)"

definition log_packed_event ::
  "trace_env \<Rightarrow> decoded_event \<Rightarrow> bool \<Rightarrow> local_buffer \<times> out_buffer \<Rightarrow> (local_buffer \<times> out_buffer) option" where
  "log_packed_event E e counter st = (case st of (lb, b) \<Rightarrow>
     if \<not> lb_ready lb then Some (lb, b)
     else if counter then Some (lb, put_line E (packed_counter (te_show E) e (lb_hostname lb)) b)
     else (let written = (lb, put_line E (packed_data (te_show E) e (lb_hostname lb)) b) in
       case lb_packed lb of
         None \<Rightarrow> Some written
       | Some pa \<Rightarrow> do {
           wanted \<leftarrow> packed_wanted E lb pa e;
           if \<not> wanted then Some written
           else do {
             (pa', changed) \<leftarrow> packed_aggregate (te_math E) (te_hash E) pa e;
             let st = (lb\<lparr>lb_packed := Some pa'\<rparr>, b);
             Some (if changed then drain_packed E False (eh_process_id (de_head e)) st else st) } }))"

text \<open>The strings of a metadata event and of a record are copied, so they are C strings here.\<close>

definition log_metadata_text :: "trace_env \<Rightarrow> decoded_metadata \<Rightarrow> local_buffer \<times> out_buffer \<Rightarrow> local_buffer \<times> out_buffer" where
  "log_metadata_text E m st = (case st of (lb, b) \<Rightarrow>
     if \<not> lb_ready lb then (lb, b)
     else (lb, put_line E (json_metadata (te_show E) (Some (lb_hostname lb)) (Some (dm_name m)) (Some (dm_value m))
       (Some (dm_record_name m)) (mh_type (dm_head m)) (mh_process_id (dm_head m)) (mh_thread_id (dm_head m))
       (mh_is_string (dm_head m) \<noteq> 0)) b))"

definition log_record_text :: "trace_env \<Rightarrow> decoded_record \<Rightarrow> local_buffer \<times> out_buffer \<Rightarrow> local_buffer \<times> out_buffer" where
  "log_record_text E r st = (case st of (lb, b) \<Rightarrow>
     if \<not> lb_ready lb then (lb, b)
     else (lb, put_line E (json_record_text (te_show E) (Some (lb_hostname lb)) (Some (dr_record_name r))
       (Some (dr_fields r)) (rd_type (dr_head r)) (rd_process_id (dr_head r)) (rd_thread_id (dr_head r))) b))"

text \<open>
  \<open>finalize\<close> of an attached manager: the aggregates still open. (The \<open>Aggregator\<close> it also owns
  got no event, so it has no row.)
\<close>

definition finalize_attached ::
  "trace_env \<Rightarrow> u32 \<Rightarrow> local_buffer \<times> out_buffer \<Rightarrow> local_buffer \<times> out_buffer" where
  "finalize_attached E pid st = (case st of (lb, b) \<Rightarrow>
     let lb = lb\<lparr>lb_ready := False\<rparr> in
     if tc_aggregation (te_config E) then drain_packed E True pid (lb, b) else (lb, b))"

section \<open>Lines agree\<close>

text \<open>
  A call whose line is printed in full: it has its strings, of at most 65535 bytes, metadata
  that prints the same on both sides, and a text that fits a line. A record has a field (the
  code logs no record without one).
\<close>

fun call_prints :: "(u64 \<Rightarrow> string) \<Rightarrow> bool \<Rightarrow> string \<Rightarrow> log_call \<Rightarrow> bool" where
  "call_prints g incl hash (Log_Data index name category ty start dur md pid tid) \<longleftrightarrow>
     name \<noteq> None \<and> category \<noteq> None \<and> length (c_string name) \<le> 65535 \<and> length (c_string category) \<le> 65535 \<and>
     pred_option (\<lambda>m. printable_metadata g m \<and> sized g m) md \<and>
     length (json_data g incl (Some hash) index name category ty start dur md pid tid) \<le> line_cap"
| "call_prints g incl hash (Log_Counter index name category ty start md pid tid) \<longleftrightarrow>
     name \<noteq> None \<and> category \<noteq> None \<and> length (c_string name) \<le> 65535 \<and> length (c_string category) \<le> 65535 \<and>
     pred_option (\<lambda>m. printable_metadata g m \<and> sized g m) md \<and>
     length (json_counter g (Some hash) name category ty start pid tid md) \<le> line_cap"
| "call_prints g incl hash (Log_Record name md ty pid tid) \<longleftrightarrow>
     name \<noteq> None \<and> length (c_string name) \<le> 65535 \<and> md \<noteq> None \<and> md \<noteq> Some [] \<and>
     pred_option (printable_metadata g) md \<and>
     length (render g (record_head_calls (c_string name) ty pid tid (c_string (Some hash)) @
        (case md of None \<Rightarrow> [] | Some m \<Rightarrow> fst (json_fields m True)) @ [Raw ''}}''])) \<le> line_cap"
| "call_prints g incl hash (Log_Metadata name val record_name ty pid tid is_string) \<longleftrightarrow>
     name \<noteq> None \<and> val \<noteq> None \<and> record_name \<noteq> None \<and> length (c_string name) \<le> 65535 \<and>
     length (c_string val) < 2 ^ 32 \<and> length (c_string record_name) \<le> 65535"

lemma snprintf_fits: "length (snprintf_line t) \<le> line_cap \<Longrightarrow> length t < line_cap \<and> snprintf_line t = t @ [CHR 0x0A]"
  by (auto simp: snprintf_line_def Let_def line_cap_def EVENT_MAX_def split: if_splits)

lemma snprintf_cap: "length t \<le> line_cap \<Longrightarrow> snprintf_line t = t @ [CHR 0x0A]"
  by (auto simp: snprintf_line_def Let_def line_cap_def EVENT_MAX_def)

lemma short_text_id: "length (c_string s) \<le> 65535 \<Longrightarrow> short_text s = c_string s"
  by (simp add: short_text_def)

lemma c_string_again [simp]: "c_string (Some (c_string s)) = c_string s"
  by (auto simp: c_string_def takeWhile_eq_all_conv dest: set_takeWhileD split: option.splits)

lemma counter_line_agrees:
  assumes "\<And>m. md = Some m \<Longrightarrow> printable_metadata g m \<and> sized g m"
    and "length (c_string (Some name)) \<le> 65535" "length (c_string (Some category)) \<le> 65535"
    and "flags AND SHM_EVENT_HAS_METADATA = 0"
    and "length (json_counter g (Some hash) (Some name) (Some category) ty start pid tid md) \<le> line_cap"
  shows "map_option (\<lambda>e. packed_counter g e (c_string (Some hash)))
      (decode_event (encode_event g index (Some name) (Some category) ty start 0 md pid tid flags @ slack)) =
    Some (json_counter g (Some hash) (Some name) (Some category) ty start pid tid md)"
proof -
  let ?e = "expected_event g index (Some name) (Some category) ty start 0 md pid tid flags"
  let ?t = "render g (series_head (percent_s (Some name)) (percent_s (Some category)) ty TRACE_PHASE_COUNTER start pid tid) @
    (case md of None \<Rightarrow> [] | Some m \<Rightarrow> if m = [] then [] else args_text g (Some hash) m) @ ''}''"
  have s: "\<And>m. md = Some m \<Longrightarrow> sized g m" using assms(1) by blast
  note fl = event_flag_bits[OF assms(4), of g index "Some name" "Some category" ty start 0 md pid tid]
  have nm: "de_name ?e = percent_s (Some name)" "de_category ?e = percent_s (Some category)"
    using assms(2,3) by (simp_all add: expected_event_def Let_def percent_s_def short_text_def)
  have hd: "eh_type (de_head ?e) = ty" "eh_process_id (de_head ?e) = pid" "eh_thread_id (de_head ?e) = tid"
    "eh_start_time (de_head ?e) = start"
    by (simp_all add: expected_event_def Let_def)
  have "render g (packed_counter_calls ?e (c_string (Some hash))) = ?t"
  proof (cases md)
    case None
    then show ?thesis unfolding packed_counter_calls_def Let_def hd nm fl by simp
  next
    case (Some m)
    have pm: "printable_metadata g m" using assms(1) Some by blast
    then have pl: "\<forall>e\<in>set m. plain_entry e" and tk: "take 65535 m = m"
      by (simp_all add: printable_metadata_def)
    have vs: "de_values ?e = map (\<lambda>(key, mt, v). decoded_entry g key mt v) m"
      by (simp add: expected_event_def Let_def Some tk)
    have args: "render g (packed_args (c_string (Some hash)) (map (\<lambda>(key, mt, v). decoded_entry g key mt v) m)) =
        args_text g (Some hash) m"
      using packed_args_plain[OF pl] args_text_plain[OF pl fields_no_nul[OF pm]] by simp
    show ?thesis unfolding packed_counter_calls_def Let_def hd nm fl vs using args Some by simp
  qed
  moreover have "length ?t < line_cap" "snprintf_line ?t = ?t @ [CHR 0x0A]"
    using snprintf_fits assms(5) unfolding json_counter_def json_series_def by blast+
  moreover have "decode_event (encode_event g index (Some name) (Some category) ty start 0 md pid tid flags @ slack) = Some ?e"
    using decode_event_rest_encoded[OF s] by (simp add: decode_event_def)
  ultimately show ?thesis
    by (simp add: packed_counter_def line_finish_def line_all_text json_counter_def json_series_def)
qed

lemma metadata_line_agrees:
  assumes "length (c_string (Some name)) \<le> 65535" "length (c_string (Some val)) < 2 ^ 32"
    "length (c_string (Some record_name)) \<le> 65535"
  shows "map_option (\<lambda>m. json_metadata g (Some hash) (Some (dm_name m)) (Some (dm_value m)) (Some (dm_record_name m))
        (mh_type (dm_head m)) (mh_process_id (dm_head m)) (mh_thread_id (dm_head m)) (mh_is_string (dm_head m) \<noteq> 0))
      (decode_metadata_event (encode_metadata_event (Some name) (Some val) (Some record_name) ty pid tid is_string @ slack)) =
    Some (json_metadata g (Some hash) (Some name) (Some val) (Some record_name) ty pid tid is_string)"
  using assms by (simp add: decode_metadata_encoded short_text_id json_metadata_def percent_s_def)

lemma record_line_agrees:
  assumes "length (c_string (Some name)) \<le> 65535" "m \<noteq> []" "printable_metadata g m"
    and "length (render g (record_head_calls (c_string (Some name)) ty pid tid (c_string (Some hash)) @
      fst (json_fields m True) @ [Raw ''}}''])) \<le> line_cap"
  shows "map_option (\<lambda>r. json_record_text g (Some hash) (Some (dr_record_name r)) (Some (dr_fields r))
        (rd_type (dr_head r)) (rd_process_id (dr_head r)) (rd_thread_id (dr_head r)))
      (decode_record (encode_record g (Some name) (Some m) ty pid tid @ slack)) =
    Some (json_record g (Some hash) (Some name) (Some m) ty pid tid)"
proof -
  let ?f = "concat (map (\<lambda>e. CHR '','' # field_text g (fst e) (snd (snd e))) m)"
  have k: "known_fields m = m" using assms(3) known_plain by (auto simp: printable_metadata_def)
  have t: "render g (fst (json_fields m True)) = ?f" using json_fields_render k by simp
  have f: "CHR '','' # render g (fst (json_fields m False)) = ?f"
    using json_fields_render[of g m] k assms(2) by (cases m) (simp_all add: joined_Cons comp_def)
  have "CHR 0x00 \<notin> set ?f" using assms(3) by (auto simp: printable_metadata_def)
  then have c: "c_string (Some (render g (fst (json_fields m False)))) = render g (fst (json_fields m False))"
    unfolding f[symmetric] by (intro c_string_id) simp
  let ?h = "render g (record_head_calls (c_string (Some name)) ty pid tid (c_string (Some hash)))"
  have cap: "length (?h @ ?f @ ''}}'') \<le> line_cap" using assms(4) by (simp add: t)
  have "length (render g (fst (json_fields m False))) < length ?f" unfolding f[symmetric] by simp
  also have "\<dots> \<le> line_cap" using cap by simp
  finally have l: "length (render g (fst (json_fields m False))) < 2 ^ 32"
    by (simp add: line_cap_def EVENT_MAX_def)
  have body: "?h @ '','' @ render g (fst (json_fields m False)) @ ''}}'' = ?h @ ?f @ ''}}''"
    using f by simp
  have "json_record g (Some hash) (Some name) (Some m) ty pid tid = (?h @ ?f @ ''}}'') @ [CHR 0x0A]"
    using cap by (simp add: json_record_def line_finish_def line_all_text t)
  moreover have "json_record_text g (Some hash) (Some (c_string (Some name))) (Some (render g (fst (json_fields m False)))) ty pid tid =
      (?h @ ?f @ ''}}'') @ [CHR 0x0A]"
    unfolding json_record_text_def percent_s_def option.case c c_string_again body by (rule snprintf_cap[OF cap])
  ultimately show ?thesis
    by (simp add: decode_record_encoded[OF l] short_text_id[OF assms(1)])
qed

section \<open>The text of a trace\<close>

definition gzip_works :: "(byte list \<Rightarrow> byte list) \<Rightarrow> (byte list \<Rightarrow> byte list) \<Rightarrow> bool" where
  "gzip_works gzip gunzip \<longleftrightarrow> (\<forall>s. gzip s \<noteq> [] \<and> gunzip (gzip s) = s)"

definition trace_text :: "(byte list \<Rightarrow> byte list) \<Rightarrow> out_buffer \<Rightarrow> byte list" where
  "trace_text gunzip b = concat (map gunzip (ob_members b)) @ ob_text b"

lemma hand_on_text:
  "gzip_works gzip gunzip \<Longrightarrow> ob_open b \<Longrightarrow>
   trace_text gunzip (hand_on gzip s b) = concat (map gunzip (ob_members b)) @ s \<and> ob_open (hand_on gzip s b)"
  by (simp add: trace_text_def hand_on_def flush_chunk_def write_member_def gzip_works_def Let_def)

lemma compress_and_write_text:
  "gzip_works gzip gunzip \<Longrightarrow> ob_open b \<Longrightarrow>
   trace_text gunzip (compress_and_write_if_needed gzip force line b) = trace_text gunzip b @ to_bytes line \<and>
   ob_open (compress_and_write_if_needed gzip force line b)"
  using hand_on_text [of gzip gunzip b]
  by (simp add: compress_and_write_if_needed_def Let_def) (simp add: trace_text_def)

text \<open>The buffer never holds more than its capacity between calls.\<close>

definition within_capacity :: "out_buffer \<Rightarrow> bool" where
  "within_capacity b \<longleftrightarrow> length (ob_text b) \<le> cw_capacity (ob_writer b)"

lemma compress_and_write_capacity:
  "within_capacity b \<Longrightarrow> within_capacity (compress_and_write_if_needed gzip force line b) \<and>
   cw_capacity (ob_writer (compress_and_write_if_needed gzip force line b)) = cw_capacity (ob_writer b)"
  by (auto simp: compress_and_write_if_needed_def within_capacity_def hand_on_def flush_chunk_def Let_def
      split: prod.split)

lemma local_log_all:
  assumes "gzip_works gzip gunzip"
  shows "ob_open b \<Longrightarrow> trace_text gunzip (fold (local_log gzip g incl hash True) calls b) =
    trace_text gunzip b @ to_bytes (concat (map (local_line g incl hash) calls))"
proof (induction calls arbitrary: b)
  case (Cons c calls)
  note c = compress_and_write_text [OF assms Cons.prems, of False "local_line g incl hash c"]
  then have "ob_open (local_log gzip g incl hash True c b)" by (simp add: local_log_def)
  from Cons.IH [OF this] c show ?case by (simp add: local_log_def)
qed simp

end
