(* ===== verification/Service_Buffer.thy ===== *)
theory Service_Buffer
  imports Local_Buffer Ring_Producer "HOL-Library.AList"
begin

text \<open>
  \<open>ServiceBufferManager\<close> (\<open>core/buffer/service_buffer_manager.cpp\<close>), the traced process's
  side of producer/consumer mode: every event is encoded and pushed into the ring, or, when the
  ring does not take it, logged to a spill file of the process. Operations run one after
  another; what other threads and processes do to the ring while one waits is \<open>se_others\<close>. The
  word that keeps a flush out of a thread's log call is not modelled.
\<close>

section \<open>State\<close>

text \<open>\<open>tl_ref\<close> is the slot of the calling thread, \<open>orphan_\<close> the one for threads without one.\<close>

datatype slot_key = Thread_Slot u32 | Orphan_Slot

record service_slot =
  sl_generation :: u64
  sl_producer :: ring_producer
  sl_pushed :: u64

record service_manager =
  sm_app_name :: string
  sm_rank :: u32
  sm_ready :: bool
  sm_region :: "segment option"
  sm_log_file :: string
  sm_hostname :: string
  sm_owner_pid :: u32
  sm_full_wait_ns :: u64
  sm_event_flags :: byte
  sm_generation :: u64
  sm_slots :: "(slot_key \<times> service_slot) list"
  sm_retired_pushed :: u64
  sm_retired_dropped :: u64
  sm_spill :: "out_buffer option"
  sm_spill_ready :: bool  \<comment> \<open>\<open>ready\<close> of the spill file's manager\<close>
  sm_spill_failed :: bool
  sm_spill_locked :: bool
  sm_spill_file :: string
  sm_spilled :: u64
  sm_control_dropped :: u64
  sm_service_gone :: bool
  sm_liveness_checked_ns :: u64
  sm_spill_until_ns :: "u32 \<times> ShmRecordKind \<Rightarrow> u64"

definition new_service_manager :: service_manager where
  "new_service_manager = \<lparr>sm_app_name = [], sm_rank = - 1, sm_ready = False, sm_region = None,
     sm_log_file = [], sm_hostname = [], sm_owner_pid = 0, sm_full_wait_ns = 0, sm_event_flags = 0,
     sm_generation = 1, sm_slots = [], sm_retired_pushed = 0, sm_retired_dropped = 0, sm_spill = None,
     sm_spill_ready = False, sm_spill_failed = False, sm_spill_locked = False, sm_spill_file = [],
     sm_spilled = 0, sm_control_dropped = 0, sm_service_gone = False, sm_liveness_checked_ns = 0,
     sm_spill_until_ns = (\<lambda>_. 0)\<rparr>"

text \<open>
  What an operation finds outside: the clock when it starts, during attempt \<open>n\<close> of a wait and
  after a push, which processes exist, the calling thread (and whether its slot is gone), the
  configuration, and whether the spill file can be opened.
\<close>

record service_env =
  se_now :: u64
  se_clock :: "nat \<Rightarrow> u64"
  se_after :: u64
  se_others :: "nat \<Rightarrow> segment \<Rightarrow> segment"
  se_exists :: "u32 \<Rightarrow> bool"
  se_tid :: u32
  se_exited :: bool
  se_spill_opens :: bool
  se_buffer_size :: nat
  se_include_metadata :: bool
  se_full_wait_us :: u64
  se_aggregatable :: "byte \<Rightarrow> bool"
  se_show :: "u64 \<Rightarrow> string"
  se_gzip :: "byte list \<Rightarrow> byte list"

definition DFT_SHM_SPILL_RETRY_NS :: u64 where "DFT_SHM_SPILL_RETRY_NS = 1000000"
definition DFT_SHM_CONTROL_WAIT_NS :: u64 where "DFT_SHM_CONTROL_WAIT_NS = 5000000000"
definition DFT_SHM_LIVENESS_CHECK_NS :: u64 where "DFT_SHM_LIVENESS_CHECK_NS = 100000000"

section \<open>Slots\<close>

definition create_slot :: "service_env \<Rightarrow> slot_key \<Rightarrow> service_manager \<Rightarrow> service_manager" where
  "create_slot E key m = m\<lparr>sm_slots := AList.update key
     \<lparr>sl_generation = sm_generation m, sl_producer = new_producer (sm_owner_pid m) (se_tid E), sl_pushed = 0\<rparr>
     (sm_slots m)\<rparr>"

definition calling_slot :: "service_env \<Rightarrow> slot_key" where
  "calling_slot E = (if se_exited E then Orphan_Slot else Thread_Slot (se_tid E))"

definition acquire_slot :: "service_env \<Rightarrow> service_manager \<Rightarrow> slot_key \<times> service_slot \<times> service_manager" where
  "acquire_slot E m =
     (let key = calling_slot E;
          m' = (case map_of (sm_slots m) key of
              None \<Rightarrow> create_slot E key m
            | Some s \<Rightarrow> if sl_generation s \<noteq> sm_generation m then create_slot E key m else m)
      in (key, the (map_of (sm_slots m') key), m'))"

text \<open>\<open>push\<close>: whether the record is in the ring.\<close>

definition push_slot ::
  "service_env \<Rightarrow> segment \<Rightarrow> service_slot \<Rightarrow> ShmRecordKind \<Rightarrow> byte list \<Rightarrow> u64
     \<Rightarrow> (bool \<times> segment \<times> service_slot) option" where
  "push_slot E seg s kind bytes wait_ns =
     (case try_reserve (se_now E) (length bytes) kind (seg, sl_producer s) of
        None \<Rightarrow> None
      | Some (res, r, st) \<Rightarrow>
          (case (if res = FULL \<and> wait_ns \<noteq> 0
                 then reserve (se_now E) (se_clock E) (se_others E) (length bytes) kind wait_ns st
                 else Some (res, r, st)) of
             None \<Rightarrow> None
           | Some (res, r, seg', p) \<Rightarrow>
               if res \<noteq> OK then Some (False, seg', s\<lparr>sl_producer := p\<rparr>)
               else (case commit (the r) (fill_payload (the r) bytes seg', p) of
                 (seg'', p') \<Rightarrow> Some (True, seg'', s\<lparr>sl_producer := p', sl_pushed := sl_pushed s + 1\<rparr>))))"

definition push_record_of ::
  "service_env \<Rightarrow> ShmRecordKind \<Rightarrow> byte list \<Rightarrow> u64 \<Rightarrow> segment \<Rightarrow> service_manager
     \<Rightarrow> (bool \<times> service_manager) option" where
  "push_record_of E kind bytes wait_ns seg m =
     (case acquire_slot E m of
        (key, s, m) \<Rightarrow>
          (case push_slot E seg s kind bytes wait_ns of
             None \<Rightarrow> None
           | Some (ok, seg', s') \<Rightarrow>
               Some (ok, m\<lparr>sm_region := Some seg', sm_slots := AList.update key s' (sm_slots m)\<rparr>)))"

definition service_alive :: "service_env \<Rightarrow> segment \<Rightarrow> service_manager \<Rightarrow> bool \<times> service_manager" where
  "service_alive E seg m =
     (if sm_service_gone m then (False, m)
      else if se_now E - sm_liveness_checked_ns m < DFT_SHM_LIVENESS_CHECK_NS then (True, m)
      else
        (let m = m\<lparr>sm_liveness_checked_ns := se_now E\<rparr>;
             accepting = sh_state (seg_header seg) = segment_state_code SHM_SEGMENT_ACCEPTING;
             running = (service_pid (seg_header seg) = 0 \<or> sint (service_pid (seg_header seg)) < 0 \<or>
               se_exists E (service_pid (seg_header seg)))
         in if accepting \<and> running then (True, m) else (False, m\<lparr>sm_service_gone := True\<rparr>)))"

text \<open>
  \<open>emit\<close> is a template: each of the four log functions has its own \<open>spill_until_ns\<close>, here told
  apart by the kind of record it sends.
\<close>

definition emit :: "service_env \<Rightarrow> ShmRecordKind \<Rightarrow> byte list \<Rightarrow> service_manager \<Rightarrow> (bool \<times> service_manager) option" where
  "emit E kind bytes m =
     (case sm_region m of
        None \<Rightarrow> Some (False, m)
      | Some seg \<Rightarrow>
          (case service_alive E seg m of
             (alive, m) \<Rightarrow>
               (let until = sm_spill_until_ns m (se_tid E, kind) in
                if \<not> alive \<or> until \<noteq> 0 \<and> se_now E < until then Some (False, m)
                else
                  (let m = m\<lparr>sm_spill_until_ns := (sm_spill_until_ns m)((se_tid E, kind) := 0)\<rparr> in
                   case push_record_of E kind bytes (sm_full_wait_ns m) seg m of
                     None \<Rightarrow> None
                   | Some (pushed, m) \<Rightarrow>
                       Some (pushed, if pushed then m
                         else m\<lparr>sm_spill_until_ns := (sm_spill_until_ns m)
                           ((se_tid E, kind) := se_after E + DFT_SHM_SPILL_RETRY_NS)\<rparr>)))))"

definition emit_control :: "service_env \<Rightarrow> ShmRecordKind \<Rightarrow> byte list \<Rightarrow> service_manager \<Rightarrow> service_manager option" where
  "emit_control E kind bytes m =
     (case sm_region m of
        None \<Rightarrow> Some m
      | Some seg \<Rightarrow>
          (case service_alive E seg m of
             (alive, m) \<Rightarrow>
               if \<not> alive then Some m
               else (case push_record_of E kind bytes (max (sm_full_wait_ns m) DFT_SHM_CONTROL_WAIT_NS) seg m of
                   None \<Rightarrow> None
                 | Some (pushed, m) \<Rightarrow>
                     Some (if pushed then m else m\<lparr>sm_control_dropped := sm_control_dropped m + 1\<rparr>))))"

section \<open>Spilling\<close>

definition count_drop :: "service_manager \<Rightarrow> service_manager" where
  "count_drop m = m\<lparr>sm_retired_dropped := sm_retired_dropped m + 1,
     sm_region := map_option (\<lambda>seg. seg\<lparr>seg_header := (seg_header seg)\<lparr>dropped := dropped (seg_header seg) + 1\<rparr>\<rparr>) (sm_region m)\<rparr>"

text \<open>\<open>LocalBufferManager::initialize\<close>: its result does not depend on whether the file opened.\<close>

definition local_initialize :: "nat \<Rightarrow> bool \<Rightarrow> int \<times> out_buffer" where
  "local_initialize write_buffer_size opened = (0, new_out_buffer write_buffer_size opened)"

definition spill_manager :: "service_env \<Rightarrow> service_manager \<Rightarrow> out_buffer option \<times> service_manager" where
  "spill_manager E m =
     (case sm_spill m of
        Some b \<Rightarrow> (Some b, m)
      | None \<Rightarrow>
          if sm_spill_failed m \<or> sm_spill_file m = [] then (None, m)
          else (case local_initialize (se_buffer_size E) (se_spill_opens E) of
            (rc, b) \<Rightarrow>
              if rc \<noteq> 0 then (None, m\<lparr>sm_spill_failed := True\<rparr>)
              else (Some b, m\<lparr>sm_spill := Some b, sm_spill_ready := True, sm_spill_locked := se_spill_opens E\<rparr>)))"

definition spill_call :: "service_env \<Rightarrow> log_call \<Rightarrow> service_manager \<Rightarrow> bool \<times> service_manager" where
  "spill_call E call m =
     (case spill_manager E m of
        (None, m) \<Rightarrow> (False, count_drop m)
      | (Some b, m) \<Rightarrow>
          (True, m\<lparr>sm_spill := Some (local_log (se_gzip E) (se_show E) (se_include_metadata E)
               (Some (sm_hostname m)) (sm_spill_ready m) call b),
             sm_spilled := sm_spilled m + 1,
             sm_region := map_option (\<lambda>seg. seg\<lparr>seg_header := (seg_header seg)\<lparr>spilled := spilled (seg_header seg) + 1\<rparr>\<rparr>) (sm_region m)\<rparr>))"

definition strip :: "string \<Rightarrow> string \<Rightarrow> string option" where
  "strip name end' = (if length name < length end' \<or> \<not> suffix end' name then None
     else Some (take (length name - length end') name))"

fun strip_first :: "string \<Rightarrow> string list \<Rightarrow> string" where
  "strip_first base [] = base"
| "strip_first base (x # xs) = (case strip base x of Some b \<Rightarrow> b | None \<Rightarrow> strip_first base xs)"

definition spill_file_for :: "string \<Rightarrow> string" where
  "spill_file_for trace_file =
     (if trace_file = [] then []
      else strip_first (strip_first trace_file [''.pfw.gz'']) [''-preload'', ''-app'', ''-fork''] @ ''-spill.pfw.gz'')"

section \<open>Logging\<close>

fun call_kind :: "log_call \<Rightarrow> ShmRecordKind" where
  "call_kind (Log_Data _ _ _ _ _ _ _ _ _) = SHM_KIND_DATA"
| "call_kind (Log_Counter _ _ _ _ _ _ _ _) = SHM_KIND_COUNTER"
| "call_kind (Log_Record _ _ _ _ _) = SHM_KIND_RECORD"
| "call_kind (Log_Metadata _ _ _ _ _ _ _) = SHM_KIND_METADATA"

fun call_bytes :: "(u64 \<Rightarrow> string) \<Rightarrow> byte \<Rightarrow> (byte \<Rightarrow> bool) \<Rightarrow> log_call \<Rightarrow> byte list" where
  "call_bytes g flags aggregatable (Log_Data index name category ty start dur md pid tid) =
     encode_event g index name category ty start dur md pid tid
       (flags OR (if aggregatable ty then 0 else SHM_EVENT_NO_AGGREGATE))"
| "call_bytes g flags aggregatable (Log_Counter index name category ty start md pid tid) =
     encode_event g index name category ty start 0 md pid tid flags"
| "call_bytes g flags aggregatable (Log_Record name md ty pid tid) = encode_record g name md ty pid tid"
| "call_bytes g flags aggregatable (Log_Metadata name val record_name ty pid tid is_string) =
     encode_metadata_event name val record_name ty pid tid is_string"

definition log_event :: "service_env \<Rightarrow> log_call \<Rightarrow> service_manager \<Rightarrow> service_manager option" where
  "log_event E call m =
     (if \<not> sm_ready m then Some m
      else (case emit E (call_kind call)
              (call_bytes (se_show E) (sm_event_flags m) (se_aggregatable E) call) m of
          None \<Rightarrow> None
        | Some (True, m) \<Rightarrow> Some m
        | Some (False, m) \<Rightarrow> Some (snd (spill_call E call m))))"

definition service_set_app_name :: "service_env \<Rightarrow> string \<Rightarrow> service_manager \<Rightarrow> service_manager option" where
  "service_set_app_name E name m =
     (let m = m\<lparr>sm_app_name := c_string (Some name)\<rparr> in
      if \<not> sm_ready m then Some m
      else emit_control E SHM_KIND_SET_APP_NAME (to_bytes (c_string (Some name))) m)"

definition service_set_rank :: "service_env \<Rightarrow> u32 \<Rightarrow> service_manager \<Rightarrow> service_manager option" where
  "service_set_rank E r m =
     (let m = m\<lparr>sm_rank := r\<rparr> in
      if \<not> sm_ready m then Some m else emit_control E SHM_KIND_SET_RANK (bytes_u32 r) m)"

section \<open>Flushing\<close>

definition map_producers ::
  "(segment \<times> ring_producer \<Rightarrow> segment \<times> ring_producer) \<Rightarrow> service_manager \<Rightarrow> service_manager" where
  "map_producers f m =
     (case sm_region m of
        None \<Rightarrow> m
      | Some seg \<Rightarrow>
          (case fold (\<lambda>(key, s) (seg, slots). case f (seg, sl_producer s) of
              (seg', p) \<Rightarrow> (seg', slots @ [(key, s\<lparr>sl_producer := p\<rparr>)])) (sm_slots m) (seg, []) of
            (seg', slots) \<Rightarrow> m\<lparr>sm_region := Some seg', sm_slots := slots\<rparr>))"

definition flush_idle :: "service_env \<Rightarrow> u64 \<Rightarrow> service_manager \<Rightarrow> service_manager" where
  "flush_idle E max_age_ns m = map_producers (\<lambda>st. snd (flush_if_older (se_now E) max_age_ns st)) m"

definition flush_all :: "service_manager \<Rightarrow> service_manager" where
  "flush_all m = map_producers flush m"

definition service_flush :: "service_env \<Rightarrow> service_manager \<Rightarrow> service_manager" where
  "service_flush E m =
     (if \<not> sm_ready m then m
      else (let m = flush_all m in
        m\<lparr>sm_spill := map_option (local_flush (se_gzip E) (sm_spill_ready m)) (sm_spill m)\<rparr>))"

text \<open>\<open>~ThreadRef\<close>: the thread's slot publishes its block and is retired.\<close>

definition thread_exit :: "service_env \<Rightarrow> service_manager \<Rightarrow> service_manager" where
  "thread_exit E m =
     (case map_of (sm_slots m) (Thread_Slot (se_tid E)) of
        None \<Rightarrow> m
      | Some s \<Rightarrow>
          m\<lparr>sm_region := map_option (\<lambda>seg. fst (flush (seg, sl_producer s))) (sm_region m),
            sm_retired_pushed := sm_retired_pushed m + sl_pushed s,
            sm_slots := AList.delete (Thread_Slot (se_tid E)) (sm_slots m)\<rparr>)"

section \<open>Starting and stopping\<close>

definition abandon_slots :: "service_manager \<Rightarrow> service_manager" where
  "abandon_slots m = m\<lparr>sm_generation := sm_generation m + 1, sm_slots := []\<rparr>"

text \<open>In a forked child: the parent's slots, spill file and counts are left to the parent.\<close>

definition after_fork :: "u32 \<Rightarrow> service_manager \<Rightarrow> service_manager" where
  "after_fork pid m =
     (if sm_owner_pid m \<noteq> 0 \<and> sm_owner_pid m \<noteq> pid
      then (abandon_slots m)\<lparr>sm_spill := None, sm_spill_ready := False, sm_spill_locked := False, sm_spill_failed := False,
        sm_spilled := 0, sm_control_dropped := 0, sm_service_gone := False\<rparr>
      else m)"

definition open_region :: "segment option \<Rightarrow> service_manager \<Rightarrow> service_manager" where
  "open_region shm m =
     (if sm_region m \<noteq> None then m
      else (case shm of
          None \<Rightarrow> m
        | Some seg \<Rightarrow> if sh_state (seg_header seg) \<noteq> segment_state_code SHM_SEGMENT_ACCEPTING then m
            else m\<lparr>sm_region := Some seg\<rparr>))"

definition service_initialize ::
  "service_env \<Rightarrow> u32 \<Rightarrow> segment option \<Rightarrow> string option \<Rightarrow> string option \<Rightarrow> service_manager
     \<Rightarrow> service_manager option" where
  "service_initialize E pid shm filename hostname_hash m =
     (let m = after_fork pid m;
          m = m\<lparr>sm_owner_pid := pid, sm_log_file := c_string filename,
            sm_spill_file := spill_file_for (c_string filename), sm_hostname := c_string hostname_hash,
            sm_full_wait_ns := se_full_wait_us E * 1000,
            sm_event_flags := (if se_include_metadata E then SHM_EVENT_INC_METADATA else 0)\<rparr>;
          m = (open_region shm m)\<lparr>sm_ready := True\<rparr>
      in do {
        m \<leftarrow> emit_control E SHM_KIND_HELLO (encode_hello pid (Some (sm_hostname m)) (Some (sm_log_file m))) m;
        m \<leftarrow> (if sm_app_name m \<noteq> [] then service_set_app_name E (sm_app_name m) m else Some m);
        (if 0 \<le> sint (sm_rank m) then service_set_rank E (sm_rank m) m else Some m) })"

definition service_finalize :: "service_env \<Rightarrow> u32 \<Rightarrow> service_manager \<Rightarrow> service_manager option" where
  "service_finalize E index m =
     (if \<not> sm_ready m then Some m
      else do {
        m \<leftarrow> emit_control E SHM_KIND_GOODBYE (bytes_u32 index) m;
        let m = flush_all (m\<lparr>sm_ready := False\<rparr>);
        Some (case sm_spill m of
            None \<Rightarrow> m
          | Some b \<Rightarrow> m\<lparr>sm_spill := Some (local_finalize (se_gzip E) (if sint index < 5 then 5 else index) b),
              sm_spill_ready := False, sm_spill_locked := False\<rparr>) })"

definition total_pushed :: "service_manager \<Rightarrow> u64" where
  "total_pushed m = sm_retired_pushed m + sum_list (map (sl_pushed \<circ> snd) (sm_slots m))"

section \<open>Reservations return\<close>

lemma try_reserve_kept:
  assumes "slots_ok seg" "between_calls p"
  shows "\<exists>res r seg' p'. try_reserve now n kind (seg, p) = Some (res, r, seg', p') \<and> slots_ok seg' \<and>
    (res = OK \<longrightarrow> r \<noteq> None) \<and> (res \<noteq> OK \<longrightarrow> between_calls p')"
proof -
  obtain ok sg q where a: "acquire_block now (unat (align_record (16 + n))) (seg, p) = Some (ok, sg, q)"
    "slots_ok sg" "\<not> ok \<longrightarrow> between_calls q"
    using acquire_total [of "(seg, p)" now "unat (align_record (16 + n))"] assms by auto
  then show ?thesis using assms by (cases ok) (auto simp: try_reserve_def Let_def)
qed

lemma reserve_loop_kept:
  assumes "slots_ok seg" "between_calls p" "\<And>i sg. slots_ok sg \<Longrightarrow> slots_ok (others i sg)"
    and "attempt \<le> stop" "stop mod 16 = 15" "clock stop \<ge> deadline"
  shows "\<exists>res r seg' p'. reserve_loop clock others deadline n kind attempt (seg, p) = Some (res, r, seg', p') \<and>
    slots_ok seg' \<and> (res = OK \<longrightarrow> r \<noteq> None) \<and> (res \<noteq> OK \<longrightarrow> between_calls p')"
  using assms(1,2,4)
proof (induction "stop - attempt" arbitrary: attempt seg p)
  case 0
  then have e: "attempt = stop" by simp
  obtain res r seg' p' where "try_reserve (clock attempt) n kind (others attempt seg, p) = Some (res, r, seg', p')"
    "slots_ok seg'" "res = OK \<longrightarrow> r \<noteq> None" "res \<noteq> OK \<longrightarrow> between_calls p'"
    using try_reserve_kept [OF assms(3) [OF 0(2)] 0(3)] by blast
  then show ?case using assms(5,6) e by (subst reserve_loop.simps) simp
next
  case (Suc k)
  obtain res r seg' p' where t: "try_reserve (clock attempt) n kind (others attempt seg, p) = Some (res, r, seg', p')"
    "slots_ok seg'" "res = OK \<longrightarrow> r \<noteq> None" "res \<noteq> OK \<longrightarrow> between_calls p'"
    using try_reserve_kept [OF assms(3) [OF Suc.prems(1)] Suc.prems(2)] by blast
  show ?case
  proof (cases "res \<noteq> FULL \<or> (attempt mod 16 = 15 \<and> clock attempt \<ge> deadline)")
    case True
    then show ?thesis using t by (subst reserve_loop.simps) simp
  next
    case False
    have "k = stop - Suc attempt" "Suc attempt \<le> stop" using Suc.hyps(2) by simp_all
    from Suc.hyps(1) [OF this(1) t(2) _ this(2), of p'] show ?thesis
      using t(1,2,4) False by (subst reserve_loop.simps) simp
  qed
qed

text \<open>The clock of a wait passes its deadline, and other threads keep the shape of the segment.\<close>

definition time_passes :: "service_env \<Rightarrow> u64 \<Rightarrow> bool" where
  "time_passes E wait_ns \<longleftrightarrow> (\<exists>late. \<forall>i \<ge> late. se_now E + wait_ns \<le> se_clock E i) \<and>
     (\<forall>i seg. slots_ok seg \<longrightarrow> slots_ok (se_others E i seg))"

lemma reserve_kept:
  assumes "slots_ok seg" "between_calls p" "time_passes E wait_ns"
  shows "\<exists>res r seg' p'. reserve (se_now E) (se_clock E) (se_others E) n kind wait_ns (seg, p) = Some (res, r, seg', p') \<and>
    slots_ok seg' \<and> (res = OK \<longrightarrow> r \<noteq> None) \<and> (res \<noteq> OK \<longrightarrow> between_calls p')"
proof -
  obtain res r seg' p' where t: "try_reserve (se_now E) n kind (seg, p) = Some (res, r, seg', p')"
    "slots_ok seg'" "res = OK \<longrightarrow> r \<noteq> None" "res \<noteq> OK \<longrightarrow> between_calls p'"
    using try_reserve_kept [OF assms(1,2)] by blast
  obtain late where late: "\<And>i. late \<le> i \<Longrightarrow> se_now E + wait_ns \<le> se_clock E i"
    and others: "\<And>i sg. slots_ok sg \<Longrightarrow> slots_ok (se_others E i sg)"
    using assms(3) by (auto simp: time_passes_def)
  have l: "\<exists>res r sg q. reserve_loop (se_clock E) (se_others E) (se_now E + wait_ns) n kind 0 (seg', p') =
      Some (res, r, sg, q) \<and> slots_ok sg \<and> (res = OK \<longrightarrow> r \<noteq> None) \<and> (res \<noteq> OK \<longrightarrow> between_calls q)"
    if "between_calls p'"
    by (rule reserve_loop_kept [where stop = "16 * late + 15"]) (use t that others late in auto)
  show ?thesis
  proof (cases "res = FULL")
    case True
    then have "between_calls p'" using t(4) by simp
    from l [OF this] t True show ?thesis by (cases "wait_ns = 0") (simp_all add: reserve_def)
  qed (use t in \<open>simp add: reserve_def\<close>)
qed

section \<open>Slots\<close>

definition service_ok :: "service_manager \<Rightarrow> bool" where
  "service_ok m \<longleftrightarrow> pred_option slots_ok (sm_region m) \<and> distinct (map fst (sm_slots m)) \<and>
     list_all (\<lambda>(key, s). between_calls (sl_producer s) \<and> sl_generation s = sm_generation m) (sm_slots m)"

lemma set_update: "set (AList.update k v al) \<subseteq> insert (k, v) (set al)"
  by (induction al) auto

lemma list_all_update: "list_all P al \<Longrightarrow> P (k, v) \<Longrightarrow> list_all P (AList.update k v al)"
  using set_update [of k v al] by (auto simp: list_all_iff)

lemma sum_update:
  fixes f :: "'v \<Rightarrow> u64"
  assumes "distinct (map fst al)"
  shows "sum_list (map (f \<circ> snd) (AList.update k v al)) =
    sum_list (map (f \<circ> snd) al) + f v - (case map_of al k of None \<Rightarrow> 0 | Some u \<Rightarrow> f u)"
  using assms by (induction al) auto

lemma push_slot_kept:
  assumes "slots_ok seg" "between_calls (sl_producer s)" "time_passes E wait_ns"
  shows "\<exists>ok seg' s'. push_slot E seg s kind bytes wait_ns = Some (ok, seg', s') \<and> slots_ok seg' \<and>
    between_calls (sl_producer s') \<and> sl_generation s' = sl_generation s \<and>
    sl_pushed s' = sl_pushed s + (if ok then 1 else 0)"
proof -
  obtain res r seg1 p1 where t: "try_reserve (se_now E) (length bytes) kind (seg, sl_producer s) = Some (res, r, seg1, p1)"
    "slots_ok seg1" "res = OK \<longrightarrow> r \<noteq> None" "res \<noteq> OK \<longrightarrow> between_calls p1"
    using try_reserve_kept [OF assms(1,2)] by blast
  obtain res2 r2 seg2 p2 where u: "(if res = FULL \<and> wait_ns \<noteq> 0
      then reserve (se_now E) (se_clock E) (se_others E) (length bytes) kind wait_ns (seg1, p1)
      else Some (res, r, (seg1, p1))) = Some (res2, r2, seg2, p2)"
    "slots_ok seg2" "res2 = OK \<longrightarrow> r2 \<noteq> None" "res2 \<noteq> OK \<longrightarrow> between_calls p2"
  proof (cases "res = FULL \<and> wait_ns \<noteq> 0")
    case True
    then have "between_calls p1" using t(4) by simp
    with reserve_kept [OF t(2) this assms(3), of "length bytes" kind] True show ?thesis
      by (elim exE conjE) (rule that, simp_all)
  qed (use t that in auto)
  obtain seg3 p3 where c: "commit (the r2) (fill_payload (the r2) bytes seg2, p2) = (seg3, p3)" by fastforce
  have "slots_ok seg3" "between_calls p3"
    using c u(2) by (auto simp: commit_def end_write_def fill_payload_def between_calls_def)
  then show ?thesis using t(1) u c
    by (cases "res2 = OK") (auto simp: push_slot_def intro: exI [of _ True] exI [of _ False])
qed

lemma acquire_slot_kept:
  assumes "service_ok m" "acquire_slot E m = (key, s, m')"
  shows "service_ok m'" "map_of (sm_slots m') key = Some s" "total_pushed m' = total_pushed m"
    "m' = m\<lparr>sm_slots := sm_slots m'\<rparr>"
proof -
  let ?key = "calling_slot E"
  have g: "sl_generation u = sm_generation m" if "map_of (sm_slots m) ?key = Some u" for u
    using assms(1) map_of_SomeD [OF that] by (auto simp: service_ok_def list_all_iff)
  let ?s = "\<lparr>sl_generation = sm_generation m, sl_producer = new_producer (sm_owner_pid m) (se_tid E), sl_pushed = 0\<rparr>"
  have "service_ok m' \<and> map_of (sm_slots m') key = Some s \<and> total_pushed m' = total_pushed m \<and> m' = m\<lparr>sm_slots := sm_slots m'\<rparr>"
  proof (cases "map_of (sm_slots m) ?key")
    case None
    then have e: "m' = create_slot E ?key m" "key = ?key" "s = the (map_of (sm_slots (create_slot E ?key m)) ?key)"
      using assms(2) by (auto simp: acquire_slot_def Let_def None)
    have d: "distinct (map fst (sm_slots m))" using assms(1) by (simp add: service_ok_def)
    have "between_calls (new_producer (sm_owner_pid m) (se_tid E))"
      by (simp add: between_calls_def new_producer_def)
    with assms(1) have "list_all (\<lambda>(key, s). between_calls (sl_producer s) \<and> sl_generation s = sm_generation m)
        (AList.update ?key ?s (sm_slots m))"
      by (intro list_all_update) (auto simp: service_ok_def)
    then have "service_ok m'"
      using assms(1) distinct_update [OF d] unfolding e service_ok_def create_slot_def by simp
    moreover have "total_pushed m' = total_pushed m"
      unfolding e total_pushed_def create_slot_def using sum_update [OF d, of sl_pushed ?key ?s] None by simp
    ultimately show ?thesis unfolding e by (simp add: create_slot_def update_conv')
  next
    case (Some u)
    then have "m' = m" "key = ?key" "s = u" using assms(2) g by (auto simp: acquire_slot_def Let_def)
    then show ?thesis using assms(1) Some by simp
  qed
  then show "service_ok m'" "map_of (sm_slots m') key = Some s" "total_pushed m' = total_pushed m"
    "m' = m\<lparr>sm_slots := sm_slots m'\<rparr>" by blast+
qed

lemma slots_ok_counters [simp]:
  "slots_ok (seg\<lparr>seg_header := (seg_header seg)\<lparr>dropped := d\<rparr>\<rparr>) = slots_ok seg"
  "slots_ok (seg\<lparr>seg_header := (seg_header seg)\<lparr>spilled := d\<rparr>\<rparr>) = slots_ok seg"
  by (simp_all add: slots_ok_def ring_view_of_def)

lemma push_record_kept:
  assumes "service_ok m" "slots_ok seg" "time_passes E wait_ns"
  shows "\<exists>ok m'. push_record_of E kind bytes wait_ns seg m = Some (ok, m') \<and> service_ok m' \<and>
    total_pushed m' = total_pushed m + (if ok then 1 else 0) \<and>
    m' = m\<lparr>sm_region := sm_region m', sm_slots := sm_slots m'\<rparr>"
proof -
  obtain key s m1 where a: "acquire_slot E m = (key, s, m1)" by (cases "acquire_slot E m")
  note k = acquire_slot_kept [OF assms(1) a]
  have d: "distinct (map fst (sm_slots m1))" using k(1) by (simp add: service_ok_def)
  have s: "between_calls (sl_producer s)" "sl_generation s = sm_generation m1"
    using k(1) map_of_SomeD [OF k(2)] by (auto simp: service_ok_def list_all_iff)
  obtain ok seg' s' where p: "push_slot E seg s kind bytes wait_ns = Some (ok, seg', s')"
    "slots_ok seg'" "between_calls (sl_producer s')" "sl_generation s' = sl_generation s"
    "sl_pushed s' = sl_pushed s + (if ok then 1 else 0)"
    using push_slot_kept [OF assms(2) s(1) assms(3), of kind bytes] by blast
  let ?m = "m1\<lparr>sm_region := Some seg', sm_slots := AList.update key s' (sm_slots m1)\<rparr>"
  have r: "push_record_of E kind bytes wait_ns seg m = Some (ok, ?m)" by (simp add: push_record_of_def a p(1))
  have "list_all (\<lambda>(key, s). between_calls (sl_producer s) \<and> sl_generation s = sm_generation m1)
      (AList.update key s' (sm_slots m1))"
    using k(1) p(3,4) s(2) by (intro list_all_update) (auto simp: service_ok_def)
  then have "service_ok ?m" using p(2) distinct_update [OF d] by (simp add: service_ok_def)
  moreover have "total_pushed ?m = total_pushed m1 + (if ok then 1 else 0)"
    unfolding total_pushed_def using sum_update [OF d, of sl_pushed key s'] k(2) p(5) by simp
  moreover have "?m = m\<lparr>sm_region := sm_region ?m, sm_slots := sm_slots ?m\<rparr>"
    by (subst k(4)) simp
  ultimately show ?thesis using r k(3) by (intro exI [of _ ok] exI [of _ ?m]) simp
qed

section \<open>Every event is accounted for\<close>

lemma service_alive_same:
  assumes "service_alive E seg m = (alive, m')"
  shows "\<exists>t gone. m' = m\<lparr>sm_liveness_checked_ns := t, sm_service_gone := gone\<rparr>"
proof -
  have "m' = m\<lparr>sm_liveness_checked_ns := sm_liveness_checked_ns m', sm_service_gone := sm_service_gone m'\<rparr>"
    using assms by (auto simp: service_alive_def Let_def split: if_splits)
  then show ?thesis by blast
qed

lemma emit_kept:
  assumes "service_ok m" "time_passes E (sm_full_wait_ns m)"
  shows "\<exists>ok m'. emit E kind bytes m = Some (ok, m') \<and> service_ok m' \<and>
    total_pushed m' = total_pushed m + (if ok then 1 else 0) \<and>
    sm_spilled m' = sm_spilled m \<and> sm_retired_dropped m' = sm_retired_dropped m \<and>
    sm_spill m' = sm_spill m \<and> sm_spill_failed m' = sm_spill_failed m \<and> sm_spill_file m' = sm_spill_file m"
proof (cases "sm_region m")
  case (Some seg)
  obtain alive m1 where a: "service_alive E seg m = (alive, m1)" by (cases "service_alive E seg m")
  obtain t gone where m1: "m1 = m\<lparr>sm_liveness_checked_ns := t, sm_service_gone := gone\<rparr>"
    using service_alive_same [OF a] by blast
  let ?m = "m1\<lparr>sm_spill_until_ns := (sm_spill_until_ns m1)((se_tid E, kind) := 0)\<rparr>"
  have "service_ok ?m" "slots_ok seg" using assms(1) Some by (simp_all add: m1 service_ok_def)
  then obtain ok m2 where p: "push_record_of E kind bytes (sm_full_wait_ns m) seg ?m = Some (ok, m2)"
    "service_ok m2" "total_pushed m2 = total_pushed ?m + (if ok then 1 else 0)"
    "m2 = ?m\<lparr>sm_region := sm_region m2, sm_slots := sm_slots m2\<rparr>"
    using push_record_kept [OF _ _ assms(2), of ?m seg kind bytes] by blast
  have kept: "sm_spilled m2 = sm_spilled m" "sm_retired_dropped m2 = sm_retired_dropped m"
    "sm_spill m2 = sm_spill m" "sm_spill_failed m2 = sm_spill_failed m" "sm_spill_file m2 = sm_spill_file m"
    by (subst p(4), simp add: m1)+
  have tp: "total_pushed ?m = total_pushed m" "total_pushed m1 = total_pushed m" by (simp_all add: total_pushed_def m1)
  have mok: "service_ok m1" using assms(1) by (simp add: m1 service_ok_def)
  show ?thesis
  proof (cases "\<not> alive \<or> sm_spill_until_ns m1 (se_tid E, kind) \<noteq> 0 \<and> se_now E < sm_spill_until_ns m1 (se_tid E, kind)")
    case True
    then have "emit E kind bytes m = Some (False, m1)" by (auto simp: emit_def Some a Let_def)
    then show ?thesis using mok tp by (intro exI [of _ False] exI [of _ m1]) (simp add: m1)
  next
    case False
    define m3 where "m3 = (if ok then m2 else m2\<lparr>sm_spill_until_ns := (sm_spill_until_ns m2)
        ((se_tid E, kind) := se_after E + DFT_SHM_SPILL_RETRY_NS)\<rparr>)"
    have "emit E kind bytes m = Some (ok, m3)"
      using False p(1) by (auto simp: emit_def Some a Let_def m1 m3_def)
    moreover have "service_ok m3" "total_pushed m3 = total_pushed m2"
      using p(2) by (simp_all add: m3_def service_ok_def total_pushed_def)
    ultimately show ?thesis using p(3) tp kept by (simp add: m3_def)
  qed
qed (use assms in \<open>auto simp: emit_def intro: exI [of _ False]\<close>)

lemma spill_call_counts:
  "spill_call E call m = (ok, m') \<Longrightarrow> service_ok m \<Longrightarrow>
   service_ok m' \<and> total_pushed m' = total_pushed m \<and>
   sm_spilled m' = sm_spilled m + (if ok then 1 else 0) \<and>
   sm_retired_dropped m' = sm_retired_dropped m + (if ok then 0 else 1) \<and>
   (\<not> ok \<longrightarrow> sm_spill m = None \<and> (sm_spill_failed m \<or> sm_spill_file m = []))"
  by (auto simp: spill_call_def spill_manager_def local_initialize_def count_drop_def service_ok_def
    total_pushed_def option.pred_map comp_def split: if_splits option.splits)

text \<open>One event more is in the ring, or in the spill file, or dropped.\<close>

definition accounted :: "service_manager \<Rightarrow> service_manager \<Rightarrow> bool" where
  "accounted m m' \<longleftrightarrow> (total_pushed m', sm_spilled m', sm_retired_dropped m') \<in>
     {(total_pushed m + 1, sm_spilled m, sm_retired_dropped m),
      (total_pushed m, sm_spilled m + 1, sm_retired_dropped m),
      (total_pushed m, sm_spilled m, sm_retired_dropped m + 1)}"

lemma log_event_kept:
  assumes "sm_ready m" "service_ok m" "time_passes E (sm_full_wait_ns m)"
  shows "\<exists>m'. log_event E call m = Some m' \<and> service_ok m' \<and> accounted m m' \<and>
    (sm_spill m = None \<and> (sm_spill_failed m \<or> sm_spill_file m = []) \<or>
      sm_retired_dropped m' = sm_retired_dropped m)"
proof -
  obtain ok m1 where e: "emit E (call_kind call)
      (call_bytes (se_show E) (sm_event_flags m) (se_aggregatable E) call) m = Some (ok, m1)" "service_ok m1"
    "total_pushed m1 = total_pushed m + (if ok then 1 else 0)" "sm_spilled m1 = sm_spilled m"
    "sm_retired_dropped m1 = sm_retired_dropped m" "sm_spill m1 = sm_spill m"
    "sm_spill_failed m1 = sm_spill_failed m" "sm_spill_file m1 = sm_spill_file m"
    using emit_kept [OF assms(2,3), of "call_kind call"
      "call_bytes (se_show E) (sm_event_flags m) (se_aggregatable E) call"] by blast
  obtain sp m2 where s: "spill_call E call m1 = (sp, m2)" by (cases "spill_call E call m1")
  note c = spill_call_counts [OF s e(2)]
  show ?thesis
  proof (cases ok)
    case True
    then have "log_event E call m = Some m1" using e(1) assms(1) by (simp add: log_event_def)
    then show ?thesis using True e(2-5) by (simp add: accounted_def)
  next
    case False
    then have "log_event E call m = Some m2" using e(1) assms(1) s by (simp add: log_event_def)
    then show ?thesis using False c e(2-8) by (cases sp) (simp_all add: accounted_def)
  qed
qed


section \<open>A spill file that cannot be opened\<close>

fun log_events :: "service_env \<Rightarrow> log_call list \<Rightarrow> service_manager \<Rightarrow> service_manager option" where
  "log_events E [] m = Some m"
| "log_events E (c # cs) m = (case log_event E c m of None \<Rightarrow> None | Some m' \<Rightarrow> log_events E cs m')"

definition unopened :: "out_buffer \<Rightarrow> bool" where
  "unopened b \<longleftrightarrow> \<not> ob_open b \<and> ob_members b = []"

lemma hand_on_unopened: "unopened b \<Longrightarrow> unopened (hand_on gzip s b)"
  by (simp add: unopened_def hand_on_def flush_chunk_def write_member_def Let_def)

lemma compress_unopened: "unopened b \<Longrightarrow> unopened (compress_and_write_if_needed gzip force line b)"
  using hand_on_unopened [of b] by (simp add: compress_and_write_if_needed_def Let_def) (simp add: unopened_def)

definition without_file :: "service_manager \<Rightarrow> bool" where
  "without_file m \<longleftrightarrow> sm_ready m \<and> sm_region m = None \<and> \<not> sm_spill_failed m \<and> sm_spill_file m \<noteq> [] \<and>
     pred_option unopened (sm_spill m)"

lemma local_log_unopened: "unopened b \<Longrightarrow> unopened (local_log gzip g incl hash ready call b)"
  by (simp add: local_log_def compress_unopened)

lemma log_event_without_file:
  assumes "without_file m" "\<not> se_spill_opens E"
  shows "\<exists>m'. log_event E call m = Some m' \<and> without_file m' \<and> sm_spilled m' = sm_spilled m + 1 \<and>
    sm_retired_dropped m' = sm_retired_dropped m"
proof -
  have "emit E kind bytes m = Some (False, m)" for kind bytes
    using assms(1) by (simp add: emit_def without_file_def)
  moreover have "unopened (new_out_buffer n False)" for n by (simp add: unopened_def new_out_buffer_def)
  ultimately show ?thesis
    using assms by (cases "sm_spill m") (simp_all add: log_event_def without_file_def spill_call_def spill_manager_def
        local_initialize_def local_log_unopened)
qed

lemma log_events_without_file:
  "without_file m \<Longrightarrow> \<not> se_spill_opens E \<Longrightarrow>
   \<exists>m'. log_events E calls m = Some m' \<and> without_file m' \<and>
     sm_spilled m' = sm_spilled m + of_nat (length calls) \<and> sm_retired_dropped m' = sm_retired_dropped m"
proof (induction calls arbitrary: m)
  case (Cons c calls)
  obtain m1 where m1: "log_event E c m = Some m1" "without_file m1" "sm_spilled m1 = sm_spilled m + 1"
    "sm_retired_dropped m1 = sm_retired_dropped m"
    using log_event_without_file [OF Cons.prems] by blast
  from Cons.IH [OF m1(2) Cons.prems(2)] m1 show ?case by (auto simp: algebra_simps)
qed simp

lemma finalize_without_file:
  assumes "without_file m"
  shows "\<exists>m'. service_finalize E index m = Some m' \<and> pred_option (\<lambda>b. ob_members b = []) (sm_spill m')"
  using assms compress_unopened
  by (cases "sm_spill m")
    (auto simp: service_finalize_def without_file_def emit_control_def flush_all_def map_producers_def
      local_finalize_def Let_def unopened_def)

text \<open>
  A spill file that cannot be opened loses every event silently. No service accepts events
  and the file does not open, yet each event logged is counted as spilled and none as dropped; when
  the process has finished, nothing was written.
\<close>

lemma unopened_spill_file_loses_events:
  assumes "sm_ready m" "sm_region m = None" "sm_spill m = None" "\<not> sm_spill_failed m" "sm_spill_file m \<noteq> []"
    and "\<not> se_spill_opens E"
  shows "\<exists>m' m''. log_events E calls m = Some m' \<and> service_finalize E index m' = Some m'' \<and>
    sm_spilled m' = sm_spilled m + of_nat (length calls) \<and> sm_retired_dropped m' = sm_retired_dropped m \<and>
    pred_option (\<lambda>b. ob_members b = []) (sm_spill m'')"
proof -
  have "without_file m" using assms(1-5) by (simp add: without_file_def)
  from log_events_without_file [OF this assms(6)] obtain m' where
    "log_events E calls m = Some m'" "without_file m'" "sm_spilled m' = sm_spilled m + of_nat (length calls)"
    "sm_retired_dropped m' = sm_retired_dropped m" by blast
  with finalize_without_file [OF this(2), of E index] show ?thesis by blast
qed

section \<open>Witnesses\<close>

definition quiet_env :: service_env where
  "quiet_env = \<lparr>se_now = 1000000, se_clock = (\<lambda>i. 2000000), se_after = 1000000, se_others = (\<lambda>i seg. seg),
     se_exists = (\<lambda>_. True), se_tid = 7, se_exited = False, se_spill_opens = False, se_buffer_size = 64,
     se_include_metadata = True, se_full_wait_us = 0, se_aggregatable = (\<lambda>_. True), se_show = (\<lambda>_. []), se_gzip = id\<rparr>"

definition a_call :: log_call where
  "a_call = Log_Data 0 (Some ''read'') (Some ''POSIX'') 1 5 2 None 42 7"

definition started :: "segment option \<Rightarrow> service_manager" where
  "started region = new_service_manager\<lparr>sm_ready := True, sm_region := region, sm_owner_pid := 42,
     sm_spill_file := ''x-spill.pfw.gz''\<rparr>"


theorem unopened_spill_file_loses_events_witness:
  "\<exists>m' m''. log_events quiet_env [a_call, a_call] (started None) = Some m' \<and> service_finalize quiet_env 2 m' = Some m'' \<and>
    sm_spilled m' = sm_spilled (started None) + of_nat (length [a_call, a_call]) \<and>
    sm_retired_dropped m' = sm_retired_dropped (started None) \<and>
    pred_option (\<lambda>b. ob_members b = []) (sm_spill m'')"
  by (rule unopened_spill_file_loses_events)
    (simp_all add: started_def new_service_manager_def quiet_env_def)

end
