(* ===== verification/Drain_Sink.thy ===== *)
theory Drain_Sink
  imports Local_Buffer Ring_Consumer Service_Buffer Consumer_Scaler Aggregation "HOL-Library.AList"
    "HOL-Library.List_Lexorder" "HOL-Library.Char_ord"
begin

text \<open>
  The service's drain of the ring: the table of client processes and their lanes
  (\<open>service/pipeline/client_table.h\<close>) and \<open>RingSink\<close> (\<open>service/pipeline/ring_sink.h\<close>), which
  replays each block into the lane of the thread that wrote it, on a drain thread's chunk.
  Operations run one after another; a chunk's members go to the node file (\<open>Node_Trace\<close>).
\<close>

section \<open>Client processes\<close>

record client_lane =
  cl_buffer :: local_buffer
  cl_synced :: u64

record client_process =
  cp_pid :: u32
  cp_last_seen_ns :: u64
  cp_app_name :: string
  cp_rank :: u32
  cp_version :: u64
  cp_said_goodbye :: bool
  cp_goodbye_index :: u32
  cp_goodbye_ns :: u64
  cp_lanes :: "(u32 \<times> client_lane) list"

type_synonym client_table = "(u32 \<times> client_process) list"

definition new_process :: "u32 \<Rightarrow> client_process" where
  "new_process pid = \<lparr>cp_pid = pid, cp_last_seen_ns = 0, cp_app_name = [], cp_rank = - 1, cp_version = 0,
     cp_said_goodbye = False, cp_goodbye_index = 0, cp_goodbye_ns = 0, cp_lanes = []\<rparr>"

definition table_process :: "u32 \<Rightarrow> u64 \<Rightarrow> client_table \<Rightarrow> client_process \<times> client_table" where
  "table_process pid now ct =
     (let p = (case map_of ct pid of None \<Rightarrow> new_process pid | Some p \<Rightarrow> p)\<lparr>cp_last_seen_ns := now\<rparr>
      in (p, AList.update pid p ct))"

definition table_lane ::
  "trace_env \<Rightarrow> string \<Rightarrow> u32 \<Rightarrow> client_process \<Rightarrow> (client_lane \<times> client_process) option" where
  "table_lane E hostname_hash tid p =
     (case map_of (cp_lanes p) tid of
        Some l \<Rightarrow> Some (l, p)
      | None \<Rightarrow> do {
          lb \<leftarrow> initialize_attached E (c_string (Some hostname_hash));
          let l = \<lparr>cl_buffer = lb, cl_synced = 0\<rparr>;
          Some (l, p\<lparr>cp_lanes := AList.update tid l (cp_lanes p)\<rparr>) })"

definition sync_lane :: "client_process \<Rightarrow> client_lane \<Rightarrow> client_lane" where
  "sync_lane p l =
     (if cl_synced l = cp_version p then l
      else \<lparr>cl_buffer = set_rank (cp_rank p) (set_app_name (c_string (Some (cp_app_name p))) (cl_buffer l)),
        cl_synced = cp_version p\<rparr>)"

definition process_finished :: "(u32 \<Rightarrow> bool) \<Rightarrow> u64 \<Rightarrow> u64 \<Rightarrow> client_process \<Rightarrow> bool" where
  "process_finished alive now grace p =
     (if cp_said_goodbye p then now - cp_goodbye_ns p > grace
      else now - cp_last_seen_ns p > grace \<and> \<not> alive (cp_pid p))"

definition take_finished ::
  "(u32 \<Rightarrow> bool) \<Rightarrow> u64 \<Rightarrow> u64 \<Rightarrow> client_table \<Rightarrow> client_process list \<times> client_table" where
  "take_finished alive now grace ct =
     (map snd (filter (\<lambda>(_, p). process_finished alive now grace p) ct),
      filter (\<lambda>(_, p). \<not> process_finished alive now grace p) ct)"

definition take_all :: "client_table \<Rightarrow> client_process list \<times> client_table" where
  "take_all ct = (map snd ct, [])"

section \<open>What a drain thread counts\<close>

record drain_stats =
  ds_blocks :: u64
  ds_bytes :: u64
  ds_records :: "u64 list"
  ds_malformed :: u64
  ds_taken :: u64
  ds_uncommitted :: u64
  ds_chunks :: u64
  ds_json_bytes :: u64
  ds_file_bytes :: u64
  ds_cpu_ns :: u64

definition new_stats :: drain_stats where
  "new_stats = \<lparr>ds_blocks = 0, ds_bytes = 0, ds_records = replicate 9 0, ds_malformed = 0, ds_taken = 0,
     ds_uncommitted = 0, ds_chunks = 0, ds_json_bytes = 0, ds_file_bytes = 0, ds_cpu_ns = 0\<rparr>"

definition add_stats :: "drain_stats \<Rightarrow> drain_stats \<Rightarrow> drain_stats" where
  "add_stats other s = \<lparr>ds_blocks = ds_blocks s + ds_blocks other, ds_bytes = ds_bytes s + ds_bytes other,
     ds_records = map2 (+) (ds_records s) (ds_records other), ds_malformed = ds_malformed s + ds_malformed other,
     ds_taken = ds_taken s + ds_taken other, ds_uncommitted = ds_uncommitted s + ds_uncommitted other,
     ds_chunks = ds_chunks s + ds_chunks other, ds_json_bytes = ds_json_bytes s + ds_json_bytes other,
     ds_file_bytes = ds_file_bytes s + ds_file_bytes other, ds_cpu_ns = ds_cpu_ns s + ds_cpu_ns other\<rparr>"

definition count_record :: "u16 \<Rightarrow> drain_stats \<Rightarrow> drain_stats" where
  "count_record kind s =
     (if kind \<le> record_kind_code SHM_KIND_GOODBYE
      then s\<lparr>ds_records := (ds_records s)[unat kind := ds_records s ! unat kind + 1]\<rparr> else s)"

definition count_malformed :: "bool \<Rightarrow> drain_stats \<Rightarrow> drain_stats" where
  "count_malformed ok s = (if ok then s else s\<lparr>ds_malformed := ds_malformed s + 1\<rparr>)"

text \<open>Without a node file: decode and count.\<close>

definition count_only :: "drained_record \<Rightarrow> drain_stats \<Rightarrow> drain_stats" where
  "count_only r s = (case r of (hdr, payload) \<Rightarrow>
     count_malformed (\<not> (rh_kind hdr \<in> {record_kind_code SHM_KIND_DATA, record_kind_code SHM_KIND_COUNTER} \<and>
       decode_event payload = None)) (count_record (rh_kind hdr) s))"

section \<open>Replaying a record\<close>

record replay_state =
  ry_process :: client_process
  ry_lane :: client_lane
  ry_chunk :: out_buffer
  ry_spill_files :: "string list"

text \<open>A part of the replay on the lane's manager and the chunk it is attached to.\<close>

definition on_lane ::
  "(local_buffer \<times> out_buffer \<Rightarrow> local_buffer \<times> out_buffer) \<Rightarrow> replay_state \<Rightarrow> replay_state" where
  "on_lane f r = (case f (cl_buffer (ry_lane r), ry_chunk r) of
     (lb, b) \<Rightarrow> r\<lparr>ry_lane := (ry_lane r)\<lparr>cl_buffer := lb\<rparr>, ry_chunk := b\<rparr>)"

definition replay_event :: "trace_env \<Rightarrow> byte list \<Rightarrow> bool \<Rightarrow> replay_state \<Rightarrow> (bool \<times> replay_state) option" where
  "replay_event E payload counter r =
     (case decode_event payload of
        None \<Rightarrow> Some (False, r)
      | Some e \<Rightarrow> map_option (\<lambda>st. (True, on_lane (\<lambda>_. st) r))
          (log_packed_event E e counter (cl_buffer (ry_lane r), ry_chunk r)))"

definition set_process_name :: "byte list \<Rightarrow> client_process \<Rightarrow> client_process" where
  "set_process_name payload p = p\<lparr>cp_app_name := of_bytes (takeWhile (\<lambda>b. b \<noteq> 0) payload),
     cp_version := cp_version p + 1\<rparr>"

definition replay ::
  "trace_env \<Rightarrow> u64 \<Rightarrow> u16 \<Rightarrow> byte list \<Rightarrow> replay_state \<Rightarrow> (bool \<times> replay_state) option" where
  "replay E now kind payload r =
     (if kind = record_kind_code SHM_KIND_DATA then replay_event E payload False r
      else if kind = record_kind_code SHM_KIND_COUNTER then replay_event E payload True r
      else if kind = record_kind_code SHM_KIND_METADATA then
        Some (case decode_metadata_event payload of
            None \<Rightarrow> (False, r)
          | Some m \<Rightarrow> (True, on_lane (log_metadata_text E m) r))
      else if kind = record_kind_code SHM_KIND_RECORD then
        Some (case decode_record payload of
            None \<Rightarrow> (False, r)
          | Some d \<Rightarrow> (True, on_lane (log_record_text E d) r))
      else if kind = record_kind_code SHM_KIND_HELLO then
        Some (case decode_hello payload of
            None \<Rightarrow> (False, r)
          | Some h \<Rightarrow> (True, r\<lparr>ry_spill_files := insort_insert (spill_file_for (dh_log_file h)) (ry_spill_files r),
              ry_process := (ry_process r)\<lparr>cp_said_goodbye := False\<rparr>\<rparr>))
      else if kind = record_kind_code SHM_KIND_SET_APP_NAME then
        (let p = set_process_name payload (ry_process r)
         in Some (True, r\<lparr>ry_process := p, ry_lane := sync_lane p (ry_lane r)\<rparr>))
      else if kind = record_kind_code SHM_KIND_SET_RANK then
        (if length payload < 4 then Some (False, r)
         else (let p = (ry_process r)\<lparr>cp_rank := u32_of (take 4 payload), cp_version := cp_version (ry_process r) + 1\<rparr>
           in Some (True, r\<lparr>ry_process := p, ry_lane := sync_lane p (ry_lane r)\<rparr>)))
      else if kind = record_kind_code SHM_KIND_GOODBYE then
        (if length payload < 4 then Some (False, r)
         else Some (True, r\<lparr>ry_process := (ry_process r)\<lparr>cp_said_goodbye := True,
             cp_goodbye_index := u32_of (take 4 payload), cp_goodbye_ns := now\<rparr>\<rparr>))
      else Some (False, r))"

fun replay_all ::
  "trace_env \<Rightarrow> u64 \<Rightarrow> drained_record list \<Rightarrow> drain_stats \<times> replay_state
     \<Rightarrow> (drain_stats \<times> replay_state) option" where
  "replay_all E now [] st = Some st"
| "replay_all E now ((hdr, payload) # recs) (s, r) =
     (case replay E now (rh_kind hdr) payload r of
        None \<Rightarrow> None
      | Some (ok, r') \<Rightarrow> replay_all E now recs (count_malformed ok (count_record (rh_kind hdr) s), r'))"

section \<open>The sink\<close>

record drain_options =
  do_min_threads :: u32
  do_max_threads :: u32
  do_tick_ms :: u32
  do_flush_ns :: u64
  do_hostname_hash :: string
  do_chunk_size :: nat
  do_own_spill_file :: string

record drain_scaling =
  dg_ticks :: u64
  dg_ups :: u64
  dg_downs :: u64
  dg_peak :: u32
  dg_span_ns :: u64

record drain_load =
  dl_blocks :: u64
  dl_busy_ns :: u64

record 'd ring_sink =
  rs_options :: drain_options
  rs_region :: segment
  rs_claimer :: block_claimer
  rs_clients :: "client_table option"
  rs_stats :: "drain_stats list"
  rs_load :: "drain_load list"
  rs_writers :: "out_buffer list"
  rs_spill_files :: "string list"
  rs_scaler :: "'d scaler"
  rs_active :: u32
  rs_stop :: bool
  rs_tick_ns :: u64
  rs_next_tick :: u64
  rs_next_reap :: u64
  rs_last_sample_ns :: u64
  rs_scaling :: drain_scaling

definition upd_stats :: "nat \<Rightarrow> (drain_stats \<Rightarrow> drain_stats) \<Rightarrow> 'd ring_sink \<Rightarrow> 'd ring_sink" where
  "upd_stats t f rs = rs\<lparr>rs_stats := (rs_stats rs)[t := f (rs_stats rs ! t)]\<rparr>"

text \<open>The records of a block, replayed into its lane on drain thread \<open>id\<close>'s chunk.\<close>

definition replay_block ::
  "trace_env \<Rightarrow> u64 \<Rightarrow> nat \<Rightarrow> u32 \<Rightarrow> u32 \<Rightarrow> drained_record list \<Rightarrow> client_table \<Rightarrow> 'd ring_sink
     \<Rightarrow> 'd ring_sink option" where
  "replay_block E now t pid tid recs ct rs =
     (case table_process pid now ct of
        (p, ct) \<Rightarrow> do {
          (l, p) \<leftarrow> table_lane E (do_hostname_hash (rs_options rs)) tid p;
          (s, r) \<leftarrow> replay_all E now recs (rs_stats rs ! t,
            \<lparr>ry_process = p, ry_lane = sync_lane p l, ry_chunk = rs_writers rs ! t,
             ry_spill_files = rs_spill_files rs\<rparr>);
          let p = (ry_process r)\<lparr>cp_lanes := AList.update tid (ry_lane r) (cp_lanes (ry_process r))\<rparr>;
          Some (rs\<lparr>rs_clients := Some (AList.update pid p ct),
            rs_stats := (rs_stats rs)[t := s],
            rs_writers := (rs_writers rs)[t := detach now (ry_chunk r)],
            rs_spill_files := ry_spill_files r\<rparr>) })"

definition process_block :: "trace_env \<Rightarrow> u64 \<Rightarrow> nat \<Rightarrow> u64 \<Rightarrow> bool \<Rightarrow> 'd ring_sink \<Rightarrow> 'd ring_sink option" where
  "process_block E now t seq salvage rs =
     (let seg = rs_region rs; v = view seg; i = block_index v seq;
          pid = owner_pid (block_at seg i); tid = owner_tid (block_at seg i)
      in do {
        (recs, uncommitted) \<leftarrow> for_each_record (unat (rv_block_size v)) (epoch v seq) salvage (seg_data seg ! i);
        rs \<leftarrow> (case rs_clients rs of
            None \<Rightarrow> Some (upd_stats t (fold count_only recs) rs)
          | Some ct \<Rightarrow> replay_block E now t pid tid recs ct rs);
        let rs = upd_stats t (\<lambda>s. s\<lparr>ds_uncommitted := ds_uncommitted s + of_nat uncommitted,
          ds_blocks := ds_blocks s + 1, ds_bytes := ds_bytes s + ucast (rv_block_size v)\<rparr>) rs;
        (seg, bc) \<leftarrow> claimer_release seq (rs_region rs, rs_claimer rs);
        Some (rs\<lparr>rs_region := seg, rs_claimer := bc\<rparr>) })"

text \<open>\<open>finish\<close>: the open aggregates of a process's lanes, in the order of its table.\<close>

fun finish_lanes ::
  "trace_env \<Rightarrow> (nat \<Rightarrow> u64) \<Rightarrow> client_process \<Rightarrow> (u32 \<times> client_lane) list \<Rightarrow> out_buffer \<Rightarrow> out_buffer" where
  "finish_lanes E clock p [] b = b"
| "finish_lanes E clock p ((tid, l) # ls) b =
     finish_lanes E clock p ls
       (detach (clock (length ls)) (snd (finalize_attached E (cp_pid p) (cl_buffer (sync_lane p l), b))))"

definition finish :: "trace_env \<Rightarrow> (nat \<Rightarrow> u64) \<Rightarrow> nat \<Rightarrow> client_process \<Rightarrow> 'd ring_sink \<Rightarrow> 'd ring_sink" where
  "finish E clock t p rs =
     rs\<lparr>rs_writers := (rs_writers rs)[t := finish_lanes E clock p (cp_lanes p) (rs_writers rs ! t)]\<rparr>"

text \<open>
  Blocks held since before \<open>older_than\<close>, taken over one after another. \<open>clock n\<close> and
  \<open>older_than n\<close> are the clock and the bound the \<open>n\<close>-th time.
\<close>

partial_function (option) take_blocks ::
  "trace_env \<Rightarrow> (u32 \<Rightarrow> bool) \<Rightarrow> (nat \<Rightarrow> u64) \<Rightarrow> (nat \<Rightarrow> u64) \<Rightarrow> nat \<Rightarrow> 'd ring_sink \<Rightarrow> 'd ring_sink option" where
  "take_blocks E alive clock older_than n rs =
     (case take_over alive (older_than n) (rs_region rs, rs_claimer rs) of
        (None, seg, bc) \<Rightarrow> Some (rs\<lparr>rs_region := seg, rs_claimer := bc\<rparr>)
      | (Some (seq, pid), seg, bc) \<Rightarrow>
          Option.bind (process_block E (clock n) 0 seq True
            (upd_stats 0 (\<lambda>s. s\<lparr>ds_taken := ds_taken s + 1\<rparr>) (rs\<lparr>rs_region := seg, rs_claimer := bc\<rparr>)))
            (\<lambda>rs. take_blocks E alive clock older_than (n + 1) rs))"

partial_function (option) claim_blocks :: "trace_env \<Rightarrow> (nat \<Rightarrow> u64) \<Rightarrow> nat \<Rightarrow> 'd ring_sink \<Rightarrow> 'd ring_sink option" where
  "claim_blocks E clock n rs =
     (case claimer_claim (rs_region rs, rs_claimer rs) of
        (None, seg, bc) \<Rightarrow> Some (rs\<lparr>rs_region := seg, rs_claimer := bc\<rparr>)
      | (Some seq, seg, bc) \<Rightarrow>
          Option.bind (process_block E (clock n) 0 seq False (rs\<lparr>rs_region := seg, rs_claimer := bc\<rparr>))
            (\<lambda>rs. claim_blocks E clock (n + 1) rs))"

section \<open>The controller\<close>

definition housekeeping ::
  "trace_env \<Rightarrow> (u32 \<Rightarrow> bool) \<Rightarrow> (nat \<Rightarrow> u64) \<Rightarrow> u64 \<Rightarrow> 'd ring_sink \<Rightarrow> 'd ring_sink option" where
  "housekeeping E alive clock now rs =
     (let flush_ns = do_flush_ns (rs_options rs); h = seg_header (rs_region rs);
          rs = rs\<lparr>rs_region := (rs_region rs)\<lparr>seg_header := h\<lparr>heartbeat_ns := now\<rparr>\<rparr>\<rparr>
      in do {
        rs \<leftarrow> (if now > flush_ns then take_blocks E alive clock (\<lambda>_. now - flush_ns) 0 rs else Some rs);
        Some (case rs_clients rs of
            None \<Rightarrow> rs
          | Some ct \<Rightarrow>
              if now < rs_next_reap rs then rs
              else (case take_finished alive now (2 * flush_ns) ct of
                (finished, ct) \<Rightarrow> fold (finish E clock 0) finished
                  (rs\<lparr>rs_next_reap := now + 1000000000, rs_clients := Some ct\<rparr>))) })"

definition maybe_scale ::
  "'d arith \<Rightarrow> trace_env \<Rightarrow> (u32 \<Rightarrow> bool) \<Rightarrow> (nat \<Rightarrow> u64) \<Rightarrow> u64 \<Rightarrow> 'd ring_sink \<Rightarrow> 'd ring_sink option" where
  "maybe_scale M E alive clock now rs =
     (if now < rs_next_tick rs \<or> rs_stop rs then Some rs
      else do {
        let first = (rs_next_tick rs = 0);
        rs \<leftarrow> housekeeping E alive clock now (rs\<lparr>rs_next_tick := now + rs_tick_ns rs\<rparr>);
        let (ready, bc) = ready_blocks (rs_region rs, rs_claimer rs);
        let sample = \<lparr>ss_now_ns = now, ss_head = head (seg_header (rs_region rs)), ss_ready = of_nat ready,
          ss_drained = sum_list (map dl_blocks (rs_load rs)), ss_busy_ns = sum_list (map dl_busy_ns (rs_load rs))\<rparr>;
        let rs = rs\<lparr>rs_claimer := bc\<rparr>;
        Some (if first then rs\<lparr>rs_scaler := scaler_reset sample (rs_scaler rs), rs_last_sample_ns := now\<rparr>
          else (case scaler_update M (rs_scaler rs) sample (rs_active rs) of
            (want, sc) \<Rightarrow>
              (let g = rs_scaling rs;
                   g = g\<lparr>dg_span_ns := dg_span_ns g + (now - rs_last_sample_ns rs), dg_ticks := dg_ticks g + 1\<rparr>;
                   g = (if want = rs_active rs then g
                        else if want > rs_active rs then g\<lparr>dg_ups := dg_ups g + 1, dg_peak := max want (dg_peak g)\<rparr>
                        else g\<lparr>dg_downs := dg_downs g + 1\<rparr>)
               in rs\<lparr>rs_scaler := sc, rs_last_sample_ns := now, rs_scaling := g, rs_active := want\<rparr>))) })"

section \<open>A drain thread\<close>

definition write_if_older :: "trace_env \<Rightarrow> u64 \<Rightarrow> nat \<Rightarrow> 'd ring_sink \<Rightarrow> 'd ring_sink" where
  "write_if_older E now t rs =
     (if t < length (rs_writers rs)
      then (let b = rs_writers rs ! t in
        case chunk_flush_if_older (te_gzip E) (write_member (ob_open b)) (ob_text b) now
            (do_flush_ns (rs_options rs)) (ob_writer b) (ob_members b) of
          (w, ms) \<Rightarrow> rs\<lparr>rs_writers := (rs_writers rs)[t := b\<lparr>ob_writer := w, ob_members := ms,
            ob_text := take (cw_used w) (ob_text b)\<rparr>]\<rparr>)
      else rs)"

text \<open>One round of \<open>drain\<close>: whether the thread goes on. It reads the clock twice.\<close>

definition drain_round ::
  "'d arith \<Rightarrow> trace_env \<Rightarrow> (u32 \<Rightarrow> bool) \<Rightarrow> (nat \<Rightarrow> u64) \<Rightarrow> u64 \<Rightarrow> u64 \<Rightarrow> nat \<Rightarrow> 'd ring_sink
     \<Rightarrow> (bool \<times> 'd ring_sink) option" where
  "drain_round M E alive clock t0 t1 t rs =
     (let tick = (\<lambda>rs. if t = 0 then maybe_scale M E alive clock t1 rs else Some rs) in
      case claimer_claim (rs_region rs, rs_claimer rs) of
        (Some seq, seg, bc) \<Rightarrow> do {
          rs \<leftarrow> process_block E t0 t seq False (rs\<lparr>rs_region := seg, rs_claimer := bc\<rparr>);
          let l = rs_load rs ! t;
          let rs = rs\<lparr>rs_load := (rs_load rs)[t := \<lparr>dl_blocks = dl_blocks l + 1, dl_busy_ns = dl_busy_ns l + (t1 - t0)\<rparr>]\<rparr>;
          rs \<leftarrow> tick (write_if_older E t1 t rs);
          Some (True, rs) }
      | (None, seg, bc) \<Rightarrow>
          (let rs = rs\<lparr>rs_region := seg, rs_claimer := bc\<rparr> in
           if rs_stop rs then Some (False, rs)
           else map_option (Pair True) (tick (write_if_older E t1 t rs))))"

definition write_chunk :: "trace_env \<Rightarrow> out_buffer \<Rightarrow> out_buffer" where
  "write_chunk E b =
     (case flush_used (te_gzip E) (write_member (ob_open b)) (ob_text b) (ob_writer b) (ob_members b) of
        (w, ms) \<Rightarrow> b\<lparr>ob_writer := w, ob_members := ms, ob_text := take (cw_used w) (ob_text b)\<rparr>)"

section \<open>Stopping\<close>

text \<open>\<open>stop\<close> after the threads were joined, up to the spill files.\<close>

definition stop_sink ::
  "trace_env \<Rightarrow> (u32 \<Rightarrow> bool) \<Rightarrow> (nat \<Rightarrow> u64) \<Rightarrow> (nat \<Rightarrow> u64) \<Rightarrow> 'd ring_sink \<Rightarrow> (drain_stats \<times> 'd ring_sink) option" where
  "stop_sink E alive clock later rs = do {
     rs \<leftarrow> claim_blocks E clock 0 rs;
     rs \<leftarrow> take_blocks E alive later later 0 rs;
     let rs = (case rs_clients rs of
         None \<Rightarrow> rs
       | Some ct \<Rightarrow> fold (finish E later 0) (fst (take_all ct)) (rs\<lparr>rs_clients := Some []\<rparr>));
     let ws = map (write_chunk E) (rs_writers rs);
     let stats = map2 (\<lambda>s b. s\<lparr>ds_chunks := cw_chunks (ob_writer b), ds_json_bytes := cw_json_bytes (ob_writer b),
         ds_file_bytes := cw_file_bytes (ob_writer b)\<rparr>) (rs_stats rs) ws;
     let stats = (if rs_writers rs = [] then rs_stats rs else stats);
     Some (fold add_stats stats new_stats, rs\<lparr>rs_writers := ws, rs_stats := stats\<rparr>) }"

text \<open>
  \<open>append_spill_files\<close>. \<open>found\<close> is what there is under a name: its bytes, and whether its
  process still holds the lock.
\<close>

record spill_totals =
  st_left :: u32
  st_bytes :: u64
  st_appended :: u32
  st_deleted :: "string list"

fun append_spills ::
  "(byte list \<Rightarrow> nat \<Rightarrow> inflate) \<Rightarrow> (string \<Rightarrow> nat option) \<Rightarrow> (string \<Rightarrow> (byte list \<times> bool) option)
     \<Rightarrow> (string \<Rightarrow> answer list) \<Rightarrow> string list \<Rightarrow> spill_totals \<times> node_file \<times> disk
     \<Rightarrow> (spill_totals \<times> node_file \<times> disk) option" where
  "append_spills dec opened found answers [] st = Some st"
| "append_spills dec opened found answers (path # paths) (c, nf, d) =
     (case found path of
        None \<Rightarrow> append_spills dec opened found answers paths (c, nf, d)
      | Some (data, True) \<Rightarrow> append_spills dec opened found answers paths (c\<lparr>st_left := st_left c + 1\<rparr>, nf, d)
      | Some (data, False) \<Rightarrow>
          (case append_members dec opened (answers path) data nf d of
             None \<Rightarrow> None
           | Some (n, nf, d) \<Rightarrow> append_spills dec opened found answers paths
               (c\<lparr>st_bytes := st_bytes c + of_nat n, st_appended := st_appended c + 1,
                 st_deleted := st_deleted c @ [path]\<rparr>, nf, d)))"

definition append_spill_files ::
  "(byte list \<Rightarrow> nat \<Rightarrow> inflate) \<Rightarrow> (string \<Rightarrow> nat option) \<Rightarrow> (string \<Rightarrow> (byte list \<times> bool) option)
     \<Rightarrow> (string \<Rightarrow> answer list) \<Rightarrow> 'd ring_sink \<Rightarrow> node_file \<Rightarrow> disk \<Rightarrow> (spill_totals \<times> node_file \<times> disk) option" where
  "append_spill_files dec opened found answers rs nf d =
     append_spills dec opened found answers
       (if do_own_spill_file (rs_options rs) = [] then rs_spill_files rs
        else insort_insert (do_own_spill_file (rs_options rs)) (rs_spill_files rs))
       (\<lparr>st_left = 0, st_bytes = 0, st_appended = 0, st_deleted = []\<rparr>, nf, d)"

section \<open>The lines of a block\<close>

text \<open>The flags a process gives its events.\<close>

definition event_flags :: "bool \<Rightarrow> byte" where
  "event_flags incl = (if incl then SHM_EVENT_INC_METADATA else 0)"

text \<open>The committed records of a block are the calls, in order, each with some slack behind it.\<close>

fun carries :: "(u64 \<Rightarrow> string) \<Rightarrow> bool \<Rightarrow> (byte \<Rightarrow> bool) \<Rightarrow> entry list \<Rightarrow> log_call list \<Rightarrow> bool" where
  "carries g incl agg [] calls \<longleftrightarrow> calls = []"
| "carries g incl agg (Hole p k d # es) calls = carries g incl agg es calls"
| "carries g incl agg (Rec p k d # es) (c # calls) \<longleftrightarrow> k = record_kind_code (call_kind c) \<and>
     prefix (call_bytes g (event_flags incl) agg c) d \<and> carries g incl agg es calls"
| "carries g incl agg (Rec p k d # es) [] \<longleftrightarrow> False"

definition plain_lane :: "string \<Rightarrow> client_lane \<Rightarrow> bool" where
  "plain_lane hash l \<longleftrightarrow> lb_ready (cl_buffer l) \<and> lb_hostname (cl_buffer l) = hash \<and> lb_packed (cl_buffer l) = None"

definition plain_process :: "string \<Rightarrow> client_process \<Rightarrow> bool" where
  "plain_process hash p \<longleftrightarrow> list_all (\<lambda>(_, l). plain_lane hash l) (cp_lanes p)"

definition plain_table :: "string \<Rightarrow> client_table \<Rightarrow> bool" where
  "plain_table hash ct \<longleftrightarrow> list_all (\<lambda>(_, p). plain_process hash p) ct"

lemma event_flags_bits:
  "(event_flags incl OR (if b then 0 else SHM_EVENT_NO_AGGREGATE)) AND SHM_EVENT_HAS_METADATA = 0"
  "((event_flags incl OR (if b then 0 else SHM_EVENT_NO_AGGREGATE)) AND SHM_EVENT_INC_METADATA \<noteq> 0) = incl"
  "event_flags incl AND SHM_EVENT_HAS_METADATA = 0"
  by (simp_all add: event_flags_def SHM_EVENT_NO_AGGREGATE_def SHM_EVENT_HAS_METADATA_def SHM_EVENT_INC_METADATA_def)

lemma map_option_SomeD: "map_option f x = Some y \<Longrightarrow> \<exists>z. x = Some z \<and> f z = y"
  by (cases x) auto

lemma log_packed_plain:
  assumes "lb_ready lb" "lb_packed lb = None"
  shows "log_packed_event E e counter (lb, b) = Some (lb, put_line E (if counter
    then packed_counter (te_show E) e (lb_hostname lb) else packed_data (te_show E) e (lb_hostname lb)) b)"
  using assms by (simp add: log_packed_event_def Let_def)

lemma replay_call:
  assumes "plain_lane hash (ry_lane r)" "c_string (Some hash) = hash"
    and "call_prints (te_show E) incl hash c" "prefix (call_bytes (te_show E) (event_flags incl) agg c) d"
  shows "replay E now (record_kind_code (call_kind c)) d r = Some (True, r\<lparr>ry_chunk :=
    local_log (te_gzip E) (te_show E) incl (Some hash) True c (ry_chunk r)\<rparr>)"
proof -
  let ?g = "te_show E" and ?lb = "cl_buffer (ry_lane r)"
  have l: "lb_ready ?lb" "lb_hostname ?lb = hash" "lb_packed ?lb = None" using assms(1) by (simp_all add: plain_lane_def)
  obtain slack where d: "d = call_bytes ?g (event_flags incl) agg c @ slack" using assms(4) by (auto simp: prefix_def)
  have keep: "on_lane (\<lambda>_. (?lb, b)) r = r\<lparr>ry_chunk := b\<rparr>" for b by (simp add: on_lane_def)
  show ?thesis
  proof (cases c)
    case (Log_Data index name category ty start dur md pid tid)
    obtain nm cat where nc: "name = Some nm" "category = Some cat" using assms(3) Log_Data by auto
    let ?fl = "event_flags incl OR (if agg ty then 0 else SHM_EVENT_NO_AGGREGATE)"
    have lc: "length (json_data ?g incl (Some hash) index (Some nm) (Some cat) ty start dur md pid tid) \<le> line_cap"
      using assms(3) by (simp add: Log_Data nc)
    have "map_option (\<lambda>e. packed_data ?g e (c_string (Some hash)))
        (decode_event (encode_event ?g index (Some nm) (Some cat) ty start dur md pid tid ?fl @ slack)) =
      Some (json_data ?g incl (Some hash) index (Some nm) (Some cat) ty start dur md pid tid)"
      by (rule packed_line_agrees)
        (use assms(3) lc snprintf_fits in \<open>auto simp: Log_Data nc event_flags_bits json_data_def less_imp_le\<close>)
    then obtain e where e: "decode_event d = Some e"
      "packed_data ?g e hash = json_data ?g incl (Some hash) index (Some nm) (Some cat) ty start dur md pid tid"
      using assms(2) by (auto simp: d Log_Data nc dest: map_option_SomeD)
    then show ?thesis using l
      by (simp add: Log_Data nc replay_def replay_event_def log_packed_plain keep local_log_def put_line_def)
  next
    case (Log_Counter index name category ty start md pid tid)
    obtain nm cat where nc: "name = Some nm" "category = Some cat" using assms(3) Log_Counter by auto
    have "map_option (\<lambda>e. packed_counter ?g e (c_string (Some hash)))
        (decode_event (encode_event ?g index (Some nm) (Some cat) ty start 0 md pid tid (event_flags incl) @ slack)) =
      Some (json_counter ?g (Some hash) (Some nm) (Some cat) ty start pid tid md)"
      by (rule counter_line_agrees) (use assms(3) in \<open>auto simp: Log_Counter nc event_flags_bits\<close>)
    then obtain e where e: "decode_event d = Some e"
      "packed_counter ?g e hash = json_counter ?g (Some hash) (Some nm) (Some cat) ty start pid tid md"
      using assms(2) by (auto simp: d Log_Counter nc dest: map_option_SomeD)
    then show ?thesis using l
      by (simp add: Log_Counter nc replay_def replay_event_def log_packed_plain keep local_log_def put_line_def)
  next
    case (Log_Record name md ty pid tid)
    obtain nm m where nc: "name = Some nm" "md = Some m" "m \<noteq> []" using assms(3) Log_Record by auto
    have "map_option (\<lambda>r. json_record_text ?g (Some hash) (Some (dr_record_name r)) (Some (dr_fields r))
        (rd_type (dr_head r)) (rd_process_id (dr_head r)) (rd_thread_id (dr_head r)))
      (decode_record (encode_record ?g (Some nm) (Some m) ty pid tid @ slack)) =
      Some (json_record ?g (Some hash) (Some nm) (Some m) ty pid tid)"
      by (rule record_line_agrees) (use assms(2,3) in \<open>auto simp: Log_Record nc\<close>)
    then obtain e where e: "decode_record d = Some e"
      "json_record_text ?g (Some hash) (Some (dr_record_name e)) (Some (dr_fields e))
        (rd_type (dr_head e)) (rd_process_id (dr_head e)) (rd_thread_id (dr_head e)) =
       json_record ?g (Some hash) (Some nm) (Some m) ty pid tid"
      by (auto simp: d Log_Record nc dest: map_option_SomeD)
    then show ?thesis using l
      by (simp add: Log_Record nc replay_def on_lane_def log_record_text_def local_log_def put_line_def)
  next
    case (Log_Metadata name val record_name ty pid tid is_string)
    obtain nm v rn where nc: "name = Some nm" "val = Some v" "record_name = Some rn"
      using assms(3) Log_Metadata by auto
    have "map_option (\<lambda>m. json_metadata ?g (Some hash) (Some (dm_name m)) (Some (dm_value m)) (Some (dm_record_name m))
        (mh_type (dm_head m)) (mh_process_id (dm_head m)) (mh_thread_id (dm_head m)) (mh_is_string (dm_head m) \<noteq> 0))
      (decode_metadata_event (encode_metadata_event (Some nm) (Some v) (Some rn) ty pid tid is_string @ slack)) =
      Some (json_metadata ?g (Some hash) (Some nm) (Some v) (Some rn) ty pid tid is_string)"
      by (rule metadata_line_agrees) (use assms(3) in \<open>auto simp: Log_Metadata nc\<close>)
    then obtain e where e: "decode_metadata_event d = Some e"
      "json_metadata ?g (Some hash) (Some (dm_name e)) (Some (dm_value e)) (Some (dm_record_name e))
        (mh_type (dm_head e)) (mh_process_id (dm_head e)) (mh_thread_id (dm_head e)) (mh_is_string (dm_head e) \<noteq> 0) =
       json_metadata ?g (Some hash) (Some nm) (Some v) (Some rn) ty pid tid is_string"
      by (auto simp: d Log_Metadata nc dest: map_option_SomeD)
    then show ?thesis using l
      by (simp add: Log_Metadata nc replay_def on_lane_def log_metadata_text_def local_log_def put_line_def)
  qed
qed

lemma malformed_counts [simp]:
  "ds_malformed (count_malformed True (count_record k s)) = ds_malformed s"
  by (simp add: count_malformed_def count_record_def)

lemma replay_calls:
  assumes "c_string (Some hash) = hash"
  shows "carries (te_show E) incl agg es calls \<Longrightarrow> list_all (call_prints (te_show E) incl hash) calls \<Longrightarrow>
    plain_lane hash (ry_lane r) \<Longrightarrow>
    \<exists>s'. replay_all E now (delivered ep es) (s, r) = Some (s', r\<lparr>ry_chunk :=
      fold (local_log (te_gzip E) (te_show E) incl (Some hash) True) calls (ry_chunk r)\<rparr>) \<and>
      ds_malformed s' = ds_malformed s"
proof (induction "te_show E" incl agg es calls arbitrary: r s rule: carries.induct)
  case (3 incl agg p k d es c calls)
  have k: "k = record_kind_code (call_kind c)" and pre: "prefix (call_bytes (te_show E) (event_flags incl) agg c) d"
    and es: "carries (te_show E) incl agg es calls"
    using "3.prems"(1) by simp_all
  have cs: "call_prints (te_show E) incl hash c" "list_all (call_prints (te_show E) incl hash) calls"
    using "3.prems"(2) by simp_all
  note rp = replay_call [OF "3.prems"(3) assms cs(1) pre, of now]
  let ?r = "r\<lparr>ry_chunk := local_log (te_gzip E) (te_show E) incl (Some hash) True c (ry_chunk r)\<rparr>"
  have "plain_lane hash (ry_lane ?r)" using "3.prems"(3) by simp
  from "3.hyps" [OF es cs(2) this, of "count_malformed True (count_record k s)"] rp
  show ?case by (simp add: k)
qed (auto intro: exI [of _ s])

lemma initialized_plain:
  "\<not> tc_aggregation (te_config E) \<Longrightarrow> c_string (Some hash) = hash \<Longrightarrow>
   \<exists>lb. initialize_attached E (c_string (Some hash)) = Some lb \<and> plain_lane hash \<lparr>cl_buffer = lb, cl_synced = 0\<rparr>"
  by (simp add: initialize_attached_def Let_def plain_lane_def)

lemma sync_plain: "plain_lane hash l \<Longrightarrow> plain_lane hash (sync_lane p l)"
  by (simp add: plain_lane_def sync_lane_def set_rank_def set_app_name_def)

lemma table_lane_plain:
  assumes "plain_process hash p" "\<not> tc_aggregation (te_config E)" "c_string (Some hash) = hash"
  shows "\<exists>l p'. table_lane E hash tid p = Some (l, p') \<and> plain_lane hash l \<and> plain_process hash p'"
proof (cases "map_of (cp_lanes p) tid")
  case None
  obtain lb where lb: "initialize_attached E (c_string (Some hash)) = Some lb" "plain_lane hash \<lparr>cl_buffer = lb, cl_synced = 0\<rparr>"
    using initialized_plain [OF assms(2,3)] by blast
  then have "plain_process hash (p\<lparr>cp_lanes := AList.update tid \<lparr>cl_buffer = lb, cl_synced = 0\<rparr> (cp_lanes p)\<rparr>)"
    using assms(1) by (simp add: plain_process_def list_all_update)
  then show ?thesis using lb None by (simp add: table_lane_def Let_def)
next
  case (Some l)
  then have "plain_lane hash l"
    using assms(1) map_of_SomeD [OF Some] by (auto simp: plain_process_def list_all_iff)
  then show ?thesis using Some assms(1) by (simp add: table_lane_def)
qed

lemma table_process_plain:
  assumes "plain_table hash ct" "table_process pid now ct = (p, ct')"
  shows "plain_process hash p" "plain_table hash ct'"
proof -
  have "plain_process hash (case map_of ct pid of None \<Rightarrow> new_process pid | Some p \<Rightarrow> p)"
    using assms(1) by (cases "map_of ct pid")
      (auto simp: plain_process_def new_process_def plain_table_def list_all_iff dest!: map_of_SomeD)
  then show p: "plain_process hash p" using assms(2) by (auto simp: table_process_def Let_def plain_process_def)
  show "plain_table hash ct'"
    using assms p by (auto simp: table_process_def Let_def plain_table_def list_all_update)
qed

lemma detach_text: "trace_text gunzip (detach now b) = trace_text gunzip b" "ob_open (detach now b) = ob_open b"
  by (simp_all add: detach_def trace_text_def)

lemma local_log_open: "ob_open b \<Longrightarrow> ob_open (local_log gzip g incl hash ready c b)"
  by (simp add: local_log_def compress_and_write_if_needed_def hand_on_def Let_def split: prod.split)

lemma fold_log_open: "ob_open b \<Longrightarrow> ob_open (fold (local_log gzip g incl hash ready) calls b)"
  by (induction calls arbitrary: b) (simp_all add: local_log_open)

lemma replay_block_lines:
  assumes "plain_table hash ct" "do_hostname_hash (rs_options rs) = hash" "c_string (Some hash) = hash"
    and "\<not> tc_aggregation (te_config E)" "gzip_works (te_gzip E) gunzip" "ob_open (rs_writers rs ! t)"
    and "t < length (rs_writers rs)" "t < length (rs_stats rs)"
    and "carries (te_show E) incl agg es calls" "list_all (call_prints (te_show E) incl hash) calls"
  shows "\<exists>rs' ct'. replay_block E now t pid tid (delivered ep es) ct rs = Some rs' \<and>
    rs_clients rs' = Some ct' \<and> plain_table hash ct' \<and> rs_region rs' = rs_region rs \<and>
    rs_claimer rs' = rs_claimer rs \<and> rs_options rs' = rs_options rs \<and> ob_open (rs_writers rs' ! t) \<and>
    length (rs_writers rs') = length (rs_writers rs) \<and> length (rs_stats rs') = length (rs_stats rs) \<and>
    ds_malformed (rs_stats rs' ! t) = ds_malformed (rs_stats rs ! t) \<and>
    trace_text gunzip (rs_writers rs' ! t) = trace_text gunzip (rs_writers rs ! t) @
      to_bytes (concat (map (local_line (te_show E) incl (Some hash)) calls))"
proof -
  obtain p ct1 where p: "table_process pid now ct = (p, ct1)" by (cases "table_process pid now ct")
  note pp = table_process_plain [OF assms(1) p]
  obtain l p1 where l: "table_lane E hash tid p = Some (l, p1)" "plain_lane hash l" "plain_process hash p1"
    using table_lane_plain [OF pp(1) assms(4,3)] by blast
  let ?r = "\<lparr>ry_process = p1, ry_lane = sync_lane p1 l, ry_chunk = rs_writers rs ! t, ry_spill_files = rs_spill_files rs\<rparr>"
  let ?b = "fold (local_log (te_gzip E) (te_show E) incl (Some hash) True) calls (rs_writers rs ! t)"
  have "plain_lane hash (ry_lane ?r)" using sync_plain [OF l(2)] by simp
  from replay_calls [OF assms(3,9,10) this] obtain s' where
    r: "replay_all E now (delivered ep es) (rs_stats rs ! t, ?r) = Some (s', ?r\<lparr>ry_chunk := ?b\<rparr>)"
    "ds_malformed s' = ds_malformed (rs_stats rs ! t)" by fastforce
  let ?p = "p1\<lparr>cp_lanes := AList.update tid (sync_lane p1 l) (cp_lanes p1)\<rparr>"
  have "plain_process hash ?p" using l(3) sync_plain [OF l(2)] by (simp add: plain_process_def list_all_update)
  then have "plain_table hash (AList.update pid ?p ct1)" using pp(2) by (simp add: plain_table_def list_all_update)
  then show ?thesis
    using r assms(2,7,8) fold_log_open [OF assms(6)] local_log_all [OF assms(5,6)]
    by (simp add: replay_block_def p l(1) Let_def detach_text)
qed

lemma advance_tail_total: "\<exists>t'. advance_tail v released t = Some t'"
proof (induction "2 ^ 64 - unat t" arbitrary: t rule: less_induct)
  case less
  show ?case
  proof (cases "released ! block_index v t > t")
    case True
    then have "unat (t + 1) = unat t + 1" by (rule unat_succ_less)
    then have "2 ^ 64 - unat (t + 1) < 2 ^ 64 - unat t" using unat_bound [of t] by simp
    from less [OF this] True show ?thesis by (subst advance_tail.simps) simp
  qed (subst advance_tail.simps, simp)
qed

lemma claimer_release_total: "\<exists>seg' bc'. claimer_release seq (seg, bc) = Some (seg', bc')"
proof -
  obtain t' where "advance_tail (view seg) ((bc_released bc)[block_index (view seg) seq := seq + 1]) (bc_tail bc) = Some t'"
    using advance_tail_total by blast
  then show ?thesis by (simp add: claimer_release_def Let_def)
qed

text \<open>
  Block \<open>seq\<close> holds the calls: it is full of entries of this lap, or, when taken over,
  entries up to bytes whose first header is of an earlier lap.
\<close>

definition holds_calls ::
  "(u64 \<Rightarrow> string) \<Rightarrow> bool \<Rightarrow> (byte \<Rightarrow> bool) \<Rightarrow> segment \<Rightarrow> u64 \<Rightarrow> bool \<Rightarrow> log_call list \<Rightarrow> bool" where
  "holds_calls g incl agg seg seq salvage calls \<longleftrightarrow>
     (let v = view seg; ep = epoch v seq; blk = seg_data seg ! block_index v seq
      in length blk = unat (rv_block_size v) \<and>
        (\<exists>es. list_all entry_ok es \<and> carries g incl agg es calls \<and>
          (blk = image ep es \<or>
           salvage \<and> take (length (image ep es)) blk = image ep es \<and> stale_at ep blk (length (image ep es)))))"

lemma holds_calls_walk:
  assumes "holds_calls g incl agg seg seq salvage calls"
  shows "\<exists>es u. carries g incl agg es calls \<and> for_each_record (unat (rv_block_size (view seg))) (epoch (view seg) seq) salvage
    (seg_data seg ! block_index (view seg) seq) = Some (delivered (epoch (view seg) seq) es, u)"
proof -
  let ?ep = "epoch (view seg) seq" and ?blk = "seg_data seg ! block_index (view seg) seq"
  obtain es where es: "carries g incl agg es calls" "\<forall>e\<in>set es. entry_ok e" "length ?blk = unat (rv_block_size (view seg))"
    and c: "?blk = image ?ep es \<or> salvage \<and> take (length (image ?ep es)) ?blk = image ?ep es \<and>
      stale_at ?ep ?blk (length (image ?ep es))"
    using assms by (auto simp: holds_calls_def Let_def list_all_iff)
  have "\<exists>u. for_each_record (length ?blk) ?ep salvage ?blk = Some (delivered ?ep es, u)"
    using c
  proof
    assume "?blk = image ?ep es"
    from walk_complete [OF this es(2), of salvage] show ?thesis by blast
  next
    assume "salvage \<and> take (length (image ?ep es)) ?blk = image ?ep es \<and> stale_at ?ep ?blk (length (image ?ep es))"
    then have s: "salvage = True" "take (length (image ?ep es)) ?blk = image ?ep es" "stale_at ?ep ?blk (length (image ?ep es))"
      by blast+
    show ?thesis unfolding s(1) using walk_salvage [OF s(2) es(2) s(3)] by blast
  qed
  then show ?thesis using es(1,3) by auto
qed

text \<open>A sink without aggregation whose drain thread \<open>t\<close> has a chunk to write into.\<close>

definition plain_sink :: "string \<Rightarrow> nat \<Rightarrow> 'd ring_sink \<Rightarrow> bool" where
  "plain_sink hash t rs \<longleftrightarrow> rs_clients rs \<noteq> None \<and> pred_option (plain_table hash) (rs_clients rs) \<and>
     do_hostname_hash (rs_options rs) = hash \<and> c_string (Some hash) = hash \<and>
     t < length (rs_writers rs) \<and> t < length (rs_stats rs) \<and> ob_open (rs_writers rs ! t)"

lemma process_block_lines:
  assumes "plain_sink hash t rs" "\<not> tc_aggregation (te_config E)" "gzip_works (te_gzip E) gunzip"
    and "holds_calls (te_show E) incl agg (rs_region rs) seq salvage calls"
    and "list_all (call_prints (te_show E) incl hash) calls"
  shows "\<exists>rs'. process_block E now t seq salvage rs = Some rs' \<and> plain_sink hash t rs' \<and>
    ds_malformed (rs_stats rs' ! t) = ds_malformed (rs_stats rs ! t) \<and>
    trace_text gunzip (rs_writers rs' ! t) = trace_text gunzip (rs_writers rs ! t) @
      to_bytes (concat (map (local_line (te_show E) incl (Some hash)) calls))"
proof -
  obtain ct where ct: "rs_clients rs = Some ct" "plain_table hash ct" using assms(1) by (auto simp: plain_sink_def)
  have ps: "do_hostname_hash (rs_options rs) = hash" "c_string (Some hash) = hash" "ob_open (rs_writers rs ! t)"
    "t < length (rs_writers rs)" "t < length (rs_stats rs)"
    using assms(1) by (simp_all add: plain_sink_def)
  obtain es u where w: "carries (te_show E) incl agg es calls"
    "for_each_record (unat (rv_block_size (view (rs_region rs)))) (epoch (view (rs_region rs)) seq) salvage
      (seg_data (rs_region rs) ! block_index (view (rs_region rs)) seq) =
      Some (delivered (epoch (view (rs_region rs)) seq) es, u)"
    using holds_calls_walk [OF assms(4)] by blast
  let ?b = "block_at (rs_region rs) (block_index (view (rs_region rs)) seq)"
  note I = replay_block_lines [OF ct(2) ps(1,2) assms(2,3) ps(3-5) w(1) assms(5), of now "owner_pid ?b" "owner_tid ?b"
    "epoch (view (rs_region rs)) seq"]
  obtain rs1 ct1 where r: "replay_block E now t (owner_pid ?b) (owner_tid ?b)
      (delivered (epoch (view (rs_region rs)) seq) es) ct rs = Some rs1"
    and k: "rs_clients rs1 = Some ct1" "plain_table hash ct1" "rs_region rs1 = rs_region rs"
    "rs_claimer rs1 = rs_claimer rs" "rs_options rs1 = rs_options rs" "ob_open (rs_writers rs1 ! t)"
    "length (rs_writers rs1) = length (rs_writers rs)" "length (rs_stats rs1) = length (rs_stats rs)"
    "ds_malformed (rs_stats rs1 ! t) = ds_malformed (rs_stats rs ! t)"
    and tt: "trace_text gunzip (rs_writers rs1 ! t) = trace_text gunzip (rs_writers rs ! t) @
      to_bytes (concat (map (local_line (te_show E) incl (Some hash)) calls))"
    using I by (elim exE conjE) (rule that)
  obtain seg' bc' where c: "claimer_release seq (rs_region rs, rs_claimer rs) = Some (seg', bc')"
    using claimer_release_total by blast
  let ?rs = "(upd_stats t (\<lambda>s. s\<lparr>ds_uncommitted := ds_uncommitted s + of_nat u, ds_blocks := ds_blocks s + 1,
    ds_bytes := ds_bytes s + ucast (rv_block_size (view (rs_region rs)))\<rparr>) rs1)\<lparr>rs_region := seg', rs_claimer := bc'\<rparr>"
  have "process_block E now t seq salvage rs = Some ?rs"
    using w(2) r c k(3,4) by (simp add: process_block_def Let_def ct(1) upd_stats_def)
  moreover have "plain_sink hash t ?rs"
    using k ps by (simp add: plain_sink_def upd_stats_def)
  moreover have "ds_malformed (rs_stats ?rs ! t) = ds_malformed (rs_stats rs ! t)"
    using k ps by (simp add: upd_stats_def)
  moreover have "rs_writers ?rs = rs_writers rs1" by (simp add: upd_stats_def)
  ultimately show ?thesis using tt by (intro exI [of _ ?rs]) simp
qed


section \<open>Names from an earlier lap\<close>

lemma set_name_text:
  assumes "0 \<notin> set (to_bytes name)"
  shows "cp_app_name (set_process_name (to_bytes name @ old) p) = name @ of_bytes (takeWhile (\<lambda>b. b \<noteq> 0) old)"
proof -
  have "takeWhile (\<lambda>b. b \<noteq> 0) (to_bytes name @ old) = to_bytes name @ takeWhile (\<lambda>b. b \<noteq> 0) old"
    by (rule takeWhile_append2) (use assms in auto)
  moreover have "of_bytes (to_bytes name @ x) = name @ of_bytes x" for x
    using of_bytes_to_bytes [of name] by (simp add: of_bytes_def)
  ultimately show ?thesis by (simp add: set_process_name_def)
qed

text \<open>A record of the producer in a block: reserved, filled in and committed, over what was there.\<close>

definition record_over :: "nat \<Rightarrow> record_header \<Rightarrow> u64 \<Rightarrow> byte list \<Rightarrow> byte list \<Rightarrow> byte list" where
  "record_over used h word bs blk = store_word used word (put_at (used + sizeof_RecordHeader) bs (write_header used h blk))"

lemma payload_over:
  assumes "used + len \<le> length blk" "16 + length bs \<le> len"
  shows "take_at (used + 16) (len - 16) (record_over used h word bs blk) =
    bs @ take_at (used + 16 + length bs) (len - 16 - length bs) blk"
proof -
  let ?new = "record_over used h word bs blk"
  have "take (used + len) ?new = take used blk @ header_bytes (h\<lparr>rh_word := word\<rparr>) @ bs @
      take_at (used + 16 + length bs) (len - 16 - length bs) blk"
    using place_record(2) [OF assms] by (simp add: record_over_def)
  moreover have "take_at (used + 16) (len - 16) ?new = drop (used + 16) (take (used + len) ?new)"
    using assms by (simp add: take_at_def drop_take)
  ultimately show ?thesis using assms by simp
qed

text \<open>
  An application name can end in bytes of an earlier lap. The name is sent without its
  terminator and a record is rounded up to 16 bytes, so what the block held behind it before is
  taken for a part of the name, up to the next zero.
\<close>

lemma app_name_takes_stale_bytes:
  assumes "used + len \<le> length blk" "16 + length name \<le> len" "0 \<notin> set (to_bytes name)"
  shows "map_option (\<lambda>(ok, r). (ok, cp_app_name (ry_process r)))
      (replay E now (record_kind_code SHM_KIND_SET_APP_NAME)
        (take_at (used + 16) (len - 16) (record_over used h word (to_bytes name) blk)) r) =
    Some (True, name @ of_bytes (takeWhile (\<lambda>b. b \<noteq> 0)
      (take_at (used + 16 + length name) (len - 16 - length name) blk)))"
proof -
  have "16 + length (to_bytes name) \<le> len" using assms(2) by (simp add: to_bytes_def)
  from payload_over [OF assms(1) this] set_name_text [OF assms(3)] show ?thesis
    by (simp add: replay_def Let_def to_bytes_def)
qed

section \<open>Spill files at the end\<close>

text \<open>
  A spill file is deleted even when none of it could be written: after a failed \<open>pwrite\<close> (a
  full disk) it is counted as appended and removed, and its events are lost.
\<close>

lemma failed_append_deletes_spill_file:
  assumes "found path = Some (data, False)" "complete_members dec data \<noteq> 0"
    and "reserve_range opened (complete_members dec data) nf = (Some (fd, off), nf')" "answers path = Failed # rest"
  shows "append_spills dec opened found answers [path] (c, nf, d) =
    Some (c\<lparr>st_appended := st_appended c + 1, st_deleted := st_deleted c @ [path]\<rparr>, nf', d)"
proof -
  have "data \<noteq> []" using assms(2) by (auto simp: complete_members_def members_from.simps)
  with assms(2) obtain b bs where "take (complete_members dec data) data = b # bs"
    by (cases "take (complete_members dec data) data") auto
  with assms show ?thesis by (simp add: append_members_def Let_def)
qed

section \<open>A goodbye without grace\<close>

text \<open>
  The grace after a goodbye is skipped when the goodbye is stamped after the clock of the
  controller was read: the unsigned difference wraps, so the process is finished at once, whatever
  the grace (up to half the range of the clock).
\<close>

lemma late_goodbye_gets_no_grace:
  assumes "cp_said_goodbye p" "now < cp_goodbye_ns p" "cp_goodbye_ns p - now < 2 ^ 63" "grace < 2 ^ 63"
  shows "process_finished alive now grace p"
proof -
  let ?x = "now - cp_goodbye_ns p"
  let ?y = "cp_goodbye_ns p - now"
  have "(unat ?x + unat ?y) mod 2 ^ 64 = 0" using unat_word_ariths(1) [of ?x ?y] by simp
  moreover have "0 < unat ?y" using assms(2) by (auto simp: unat_gt_0)
  ultimately have "2 ^ 64 \<le> unat ?x + unat ?y"
    by (metis add_gr_0 mod_less not_le not_gr_zero)
  moreover have "unat ?y < 2 ^ 63" "unat grace < 2 ^ 63"
    using assms(3,4) by (simp_all add: word_less_nat_alt)
  ultimately have "unat grace < unat ?x" by simp
  then show ?thesis using assms(1) by (simp add: process_finished_def word_less_nat_alt)
qed

section \<open>Witnesses\<close>

lemma late_goodbye_gets_no_grace_witness:
  "process_finished (\<lambda>_. True) 1000 (2 * 500000000)
    ((new_process 7)\<lparr>cp_said_goodbye := True, cp_goodbye_ns := 1400\<rparr>)"
  by (rule late_goodbye_gets_no_grace) simp_all

definition stale_state :: replay_state where
  "stale_state = \<lparr>ry_process = new_process 7, ry_lane = \<lparr>cl_buffer = \<lparr>lb_app_name = [], lb_rank = - 1, lb_ready = True,
     lb_hostname = ''h'', lb_packed = None\<rparr>, cl_synced = 0\<rparr>, ry_chunk = new_out_buffer 64 True, ry_spill_files = []\<rparr>"

text \<open>A ring of one block of 80 bytes that holds one call, and a sink with nothing drained yet.\<close>

definition plain_env :: trace_env where
  "plain_env = \<lparr>te_show = (\<lambda>_. []), te_math = sample_math, te_hash = (\<lambda>_. 0), te_gzip = (\<lambda>s. 31 # s),
     te_config = \<lparr>tc_aggregation = False, tc_selective = False, tc_inclusion = [], tc_exclusion = [],
       tc_metric = TIME_METRIC_US, tc_interval_ms = 0\<rparr>\<rparr>"

definition a_header :: record_header where
  "a_header = \<lparr>rh_word = 0, rh_pid = 42, rh_kind = 2, rh_flags = 0\<rparr>"

lemma app_name_takes_stale_bytes_witness:
  "map_option (\<lambda>(ok, r). (ok, cp_app_name (ry_process r)))
      (replay plain_env 5 (record_kind_code SHM_KIND_SET_APP_NAME)
        (take_at (0 + 16) (32 - 16) (record_over 0 a_header 9 (to_bytes ''app'') (replicate 32 65))) stale_state) =
    Some (True, ''app'' @ of_bytes (replicate 13 65))"
proof -
  have s: "take_at (0 + 16 + length ''app'') (32 - 16 - length ''app'') (replicate 32 (65 :: byte)) = replicate 13 65"
    by (simp add: take_at_def)
  have t: "takeWhile (\<lambda>b. b \<noteq> 0) (replicate 13 (65 :: byte)) = replicate 13 65"
    by (simp add: takeWhile_replicate)
  show ?thesis
    using app_name_takes_stale_bytes [of 0 32 "replicate 32 65" "''app''" plain_env 5 a_header 9 stale_state]
    unfolding s t by (simp add: to_bytes_def byte_of_char_def)
qed

definition a_record :: entry where
  "a_record = Rec 42 (record_kind_code (call_kind a_call))
     (call_bytes (\<lambda>_. []) (event_flags True) (\<lambda>_. True) a_call @ replicate 15 0)"

definition one_block :: segment where
  "one_block = demo_segment\<lparr>seg_header := (seg_header demo_segment)\<lparr>sh_block_size := 80\<rparr>\<rparr>"

definition a_sink :: "real ring_sink" where
  "a_sink = \<lparr>rs_options = \<lparr>do_min_threads = 1, do_max_threads = 1, do_tick_ms = 1, do_flush_ns = 1, do_hostname_hash = ''h'',
       do_chunk_size = 64, do_own_spill_file = []\<rparr>,
     rs_region = one_block\<lparr>seg_data := (seg_data one_block)[block_index (view one_block) 0 :=
       image (epoch (view one_block) 0) [a_record]]\<rparr>,
     rs_claimer = new_claimer one_block, rs_clients = Some [], rs_stats = [new_stats],
     rs_load = [\<lparr>dl_blocks = 0, dl_busy_ns = 0\<rparr>], rs_writers = [new_out_buffer 64 True], rs_spill_files = [],
     rs_scaler = new_scaler real_arith 1 1 1 1 1, rs_active = 1, rs_stop = False, rs_tick_ns = 1, rs_next_tick = 0,
     rs_next_reap = 0, rs_last_sample_ns = 0,
     rs_scaling = \<lparr>dg_ticks = 0, dg_ups = 0, dg_downs = 0, dg_peak = 1, dg_span_ns = 0\<rparr>\<rparr>"

lemma a_record_ok: "entry_ok a_record" "entry_len a_record = 80"
proof -
  have l: "length (call_bytes (\<lambda>_. []) (event_flags True) (\<lambda>_. True) a_call) = 49"
    by (simp add: a_call_def encode_event_def Let_def encode_metadata_def c_string_def short_text_def to_bytes_def
        meta_count_offset_def length_put_at)
  show "entry_ok a_record" "entry_len a_record = 80"
    by (simp_all add: a_record_def entry_ok_def entry_len_def DFT_SHM_RECORD_ALIGN_def sizeof_RecordHeader_def l)
qed

lemma a_sink_holds: "holds_calls (\<lambda>_. []) True (\<lambda>_. True) (rs_region a_sink) 0 False [a_call]"
proof -
  let ?v = "view one_block" and ?ep = "epoch (view one_block) 0"
  have v: "view (rs_region a_sink) = ?v" by (simp add: a_sink_def)
  have i: "block_index ?v 0 < length (seg_data one_block)"
    using demo_slots by (simp add: one_block_def demo_segment_def slots_ok_def ring_view_of_def format_def Let_def block_index_def)
  have d: "seg_data (rs_region a_sink) ! block_index ?v 0 = image ?ep [a_record]" using i by (simp add: a_sink_def)
  have "carries (\<lambda>_. []) True (\<lambda>_. True) [a_record] [a_call]" by (simp add: a_record_def a_call_def)
  moreover have "unat (rv_block_size ?v) = 80" by (simp add: one_block_def ring_view_of_def)
  ultimately show ?thesis unfolding holds_calls_def Let_def v d
    using a_record_ok by (intro conjI exI [of _ "[a_record]"]) simp_all
qed


end
