(* ===== verification/Configuration.thy ===== *)
theory Configuration
  imports Complex_Main "HOL-Library.Monad_Syntax" Metadata_Json
begin

text \<open>
  \<open>ConfigurationManager\<close> (\<open>core/utils/configuration_manager\<close>): the settings of a run, from the
  defaults, a YAML file and the environment, in that order. The YAML library is a parameter: what
  it says of the node at a path. \<open>None\<close> is an exception, which leaves the constructor.
\<close>

section \<open>Settings\<close>

datatype LoggerType = CPP_LOGGER_ERROR | CPP_LOGGER_WARN | CPP_LOGGER_INFO | CPP_LOGGER_DEBUG

definition convert_logger_type :: "string \<Rightarrow> LoggerType" where
  "convert_logger_type s =
     (if s = ''DEBUG'' then CPP_LOGGER_DEBUG else if s = ''INFO'' then CPP_LOGGER_INFO
      else if s = ''WARN'' then CPP_LOGGER_WARN else CPP_LOGGER_ERROR)"

record configuration =
  cf_enable :: bool
  cf_init_type :: ProfileInitType
  cf_log_file :: string
  cf_data_dirs :: string
  cf_metadata :: bool
  cf_core_affinity :: bool
  cf_gotcha_priority :: u32
  cf_logger_level :: LoggerType
  cf_time_metric :: TimeMetricType
  cf_io :: bool
  cf_posix :: bool
  cf_stdio :: bool
  cf_trace_all_files :: bool
  cf_max_fd :: u64
  cf_tids :: bool
  cf_bind_signals :: bool
  cf_throw_error :: bool
  cf_write_buffer_size :: u64
  cf_trace_interval_ms :: u64
  cf_trace_interval_explicit :: bool
  cf_libuv_thread_count :: u64
  cf_papi_tracing :: bool
  cf_papi_multiplex :: bool
  cf_papi_sample_interval_ms :: u64
  cf_papi_events :: "string list"
  cf_variorum_power :: bool
  cf_aggregation_enable :: bool
  cf_aggregation_type :: AggregationType
  cf_aggregation_file :: string
  cf_pc_mode :: bool
  cf_service_shm :: string
  cf_pc_block_size :: u32
  cf_pc_blocks :: u32
  cf_pc_full_wait_us :: u64
  cf_pc_consumer_threads :: u32
  cf_pc_consumer_min_threads :: u32
  cf_pc_consumer_tick_ms :: u32
  cf_pc_flush_ms :: u32
  cf_pc_compression_level :: u32
  cf_pc_rollover_mb :: "real option"  \<comment> \<open>a finite double; \<open>None\<close> is NaN\<close>
  cf_inclusion_rules :: "string list"
  cf_exclusion_rules :: "string list"

text \<open>What the build decides.\<close>

record build_options =
  bo_ring_block_size :: u32
  bo_ring_blocks :: u32
  bo_mpi :: bool
  bo_hdf5 :: bool
  bo_hip :: bool
  bo_cuda :: bool
  bo_finstrument :: bool
  bo_variorum :: bool

definition DFTRACER_DEFAULT_LOG_FILE :: string where "DFTRACER_DEFAULT_LOG_FILE = ''./trace''"
definition DFTRACER_ALL_FILES :: string where "DFTRACER_ALL_FILES = ''all''"
definition DFTRACER_DEFAULT_AGGREGATION_RULE :: string where
  "DFTRACER_DEFAULT_AGGREGATION_RULE = ''dur < 100''"
definition DFT_DEFAULT_MAX_FD :: u64 where "DFT_DEFAULT_MAX_FD = 1024"
definition DFT_MAX_TRACKED_FD :: u64 where "DFT_MAX_TRACKED_FD = 4194304"
definition DFT_SHM_DEFAULT_COMPRESSION_LEVEL :: u32 where "DFT_SHM_DEFAULT_COMPRESSION_LEVEL = 1"
definition DFT_PATH_MAX :: nat where "DFT_PATH_MAX = 1024 * 4"

definition default_configuration :: "build_options \<Rightarrow> configuration" where
  "default_configuration B = \<lparr>
     cf_enable = False,
     cf_init_type = PROFILER_INIT_FUNCTION,
     cf_log_file = DFTRACER_DEFAULT_LOG_FILE,
     cf_data_dirs = ''all'',
     cf_metadata = True,
     cf_core_affinity = False,
     cf_gotcha_priority = 1,
     cf_logger_level = CPP_LOGGER_ERROR,
     cf_time_metric = TIME_METRIC_US,
     cf_io = True,
     cf_posix = True,
     cf_stdio = True,
     cf_trace_all_files = False,
     cf_max_fd = DFT_DEFAULT_MAX_FD,
     cf_tids = True,
     cf_bind_signals = False,
     cf_throw_error = False,
     cf_write_buffer_size = 16 * 1024 * 1024,
     cf_trace_interval_ms = 10,
     cf_trace_interval_explicit = False,
     cf_libuv_thread_count = 1,
     cf_papi_tracing = False,
     cf_papi_multiplex = False,
     cf_papi_sample_interval_ms = 0,
     cf_papi_events = [],
     cf_variorum_power = True,
     cf_aggregation_enable = True,
     cf_aggregation_type = AGGREGATION_TYPE_SELECTIVE,
     cf_aggregation_file = [],
     cf_pc_mode = False,
     cf_service_shm = [],
     cf_pc_block_size = bo_ring_block_size B,
     cf_pc_blocks = bo_ring_blocks B,
     cf_pc_full_wait_us = 0,
     cf_pc_consumer_threads = 16,
     cf_pc_consumer_min_threads = 1,
     cf_pc_consumer_tick_ms = 10,
     cf_pc_flush_ms = 1000,
     cf_pc_compression_level = DFT_SHM_DEFAULT_COMPRESSION_LEVEL,
     cf_pc_rollover_mb = Some 1024,
     cf_inclusion_rules = [],
     cf_exclusion_rules = []\<rparr>"

section \<open>Reading values\<close>

definition to_lower :: "char \<Rightarrow> char" where
  "to_lower c = (if of_char c \<in> {65 .. 90 :: nat} then char_of (of_char c + 32 :: nat) else c)"

definition equal_nocase :: "string \<Rightarrow> string \<Rightarrow> bool" where
  "equal_nocase a b \<longleftrightarrow> map to_lower a = map to_lower b"

definition env_flag :: "string option \<Rightarrow> bool" where
  "env_flag v = (case v of None \<Rightarrow> False
     | Some s \<Rightarrow> s = ''1'' \<or> equal_nocase s ''true'' \<or> equal_nocase s ''on'' \<or> equal_nocase s ''yes'')"

definition blank :: "char \<Rightarrow> bool" where
  "blank c \<longleftrightarrow> c \<in> {CHR '' '', CHR 0x09, CHR 0x0A, CHR 0x0D}"

definition trim_in_place :: "string \<Rightarrow> string" where
  "trim_in_place s = rev (dropWhile blank (rev (dropWhile blank s)))"

definition push_item :: "string \<Rightarrow> string list \<Rightarrow> string list" where
  "push_item current items = (let t = trim_in_place current in if t \<noteq> [] then items @ [t] else items)"

fun parse_list_loop :: "string \<Rightarrow> string \<Rightarrow> string list \<Rightarrow> string list" where
  "parse_list_loop [] current items = push_item current items"
| "parse_list_loop (ch # rest) current items =
     (if ch = CHR '','' \<or> ch = CHR '';'' then parse_list_loop rest [] (push_item current items)
      else parse_list_loop rest (current @ [ch]) items)"

definition parse_list_value :: "string \<Rightarrow> string list" where
  "parse_list_value v = parse_list_loop v [] []"

text \<open>The C library's readers of decimal numbers; \<open>strtod\<close> is a parameter.\<close>

definition c_space :: "char \<Rightarrow> bool" where
  "c_space c \<longleftrightarrow> c \<in> {CHR '' '', CHR 0x09, CHR 0x0A, CHR 0x0B, CHR 0x0C, CHR 0x0D}"

definition dec_digit :: "char \<Rightarrow> bool" where
  "dec_digit c \<longleftrightarrow> of_char c \<in> {48 .. 57 :: nat}"

definition read_decimal :: "string \<Rightarrow> bool \<times> nat" where
  "read_decimal s =
     (let s = dropWhile c_space s;
          (neg, s) = (case s of c # r \<Rightarrow> if c = CHR ''-'' then (True, r) else if c = CHR ''+'' then (False, r) else (False, s)
            | [] \<Rightarrow> (False, []))
      in (neg, read_nat (takeWhile dec_digit s)))"

text \<open>\<open>atoi\<close> is undefined out of range; it wraps here.\<close>

definition atoi :: "string \<Rightarrow> u32" where
  "atoi s = (let (neg, n) = read_decimal s in if neg then - of_nat n else of_nat n)"

definition strtoul :: "string \<Rightarrow> u64" where
  "strtoul s = (let (neg, n) = read_decimal s in
     if n \<ge> 2 ^ 64 then - 1 else if neg then - of_nat n else of_nat n)"

section \<open>The YAML file\<close>

text \<open>
  What \<open>yaml-cpp\<close> says of the node at a path of keys: whether it is defined, and its value read
  as a type. \<open>None\<close> is a conversion that throws; \<open>y_items\<close> are the items of a sequence.
\<close>

record yaml =
  y_defined :: "string list \<Rightarrow> bool"
  y_string :: "string list \<Rightarrow> string option"
  y_bool :: "string list \<Rightarrow> bool option"
  y_size :: "string list \<Rightarrow> u64 option"
  y_int :: "string list \<Rightarrow> u32 option"
  y_scalar :: "string list \<Rightarrow> bool"
  y_items :: "string list \<Rightarrow> string list option"

text \<open>An entry that is there is read and stored.\<close>

definition if_defined ::
  "yaml \<Rightarrow> string list \<Rightarrow> (yaml \<Rightarrow> string list \<Rightarrow> 'a option) \<Rightarrow> ('a \<Rightarrow> configuration \<Rightarrow> configuration)
     \<Rightarrow> configuration \<Rightarrow> configuration option" where
  "if_defined Y p read store c = (if y_defined Y p then map_option (\<lambda>v. store v c) (read Y p) else Some c)"

definition load_list_value :: "yaml \<Rightarrow> string list \<Rightarrow> string list \<Rightarrow> string list option" where
  "load_list_value Y p target =
     (if \<not> y_defined Y p then Some target
      else case y_items Y p of
          Some items \<Rightarrow> Some (filter (\<lambda>v. v \<noteq> []) items)
        | None \<Rightarrow> if y_scalar Y p then map_option parse_list_value (y_string Y p) else Some [])"

definition yaml_log_level :: "yaml \<Rightarrow> configuration \<Rightarrow> configuration option" where
  "yaml_log_level Y c =
     (if y_defined Y [''tracer'']
      then if_defined Y [''tracer'', ''log_level''] y_string
        (\<lambda>s. cf_logger_level_update (\<lambda>_. convert_logger_type s)) c
      else Some c)"

definition yaml_tracer :: "yaml \<Rightarrow> configuration \<Rightarrow> configuration option" where
  "yaml_tracer Y c =
     (if \<not> y_defined Y [''tracer''] then Some c else do {
       c \<leftarrow> if_defined Y [''tracer'', ''log_level''] y_string
         (\<lambda>s. cf_logger_level_update (\<lambda>_. convert_logger_type s)) c;
       c \<leftarrow> if_defined Y [''tracer'', ''time_metric''] y_string
         (\<lambda>s. cf_time_metric_update (\<lambda>_. convert_time_metric s)) c;
       c \<leftarrow> if_defined Y [''tracer'', ''init''] y_string
         (\<lambda>s. cf_init_type_update (\<lambda>_. convert_init_type s)) c;
       c \<leftarrow> if_defined Y [''tracer'', ''log_file''] y_string (\<lambda>s. cf_log_file_update (\<lambda>_. s)) c;
       c \<leftarrow> if_defined Y [''tracer'', ''data_dirs''] y_string
         (\<lambda>s. if s = DFTRACER_ALL_FILES then cf_trace_all_files_update (\<lambda>_. True)
              else cf_data_dirs_update (\<lambda>_. s)) c;
       c \<leftarrow> if_defined Y [''tracer'', ''compression''] y_bool (\<lambda>_ c. c) c;
       if_defined Y [''tracer'', ''libuv_threads''] y_size (\<lambda>n. cf_libuv_thread_count_update (\<lambda>_. n)) c })"

definition yaml_profiler :: "yaml \<Rightarrow> configuration \<Rightarrow> configuration option" where
  "yaml_profiler Y c =
     (if y_defined Y [''profiler'']
      then if_defined Y [''profiler'', ''libuv_threads''] y_size (\<lambda>n. cf_libuv_thread_count_update (\<lambda>_. n)) c
      else Some c)"

definition yaml_gotcha :: "yaml \<Rightarrow> configuration \<Rightarrow> configuration option" where
  "yaml_gotcha Y c =
     (if y_defined Y [''gotcha'']
      then if_defined Y [''gotcha'', ''priority''] y_int (\<lambda>n. cf_gotcha_priority_update (\<lambda>_. n)) c
      else Some c)"

text \<open>The guard of the \<open>io\<close> section asks for \<open>features.enable\<close>; the value read is \<open>features.io.enable\<close>.\<close>

definition yaml_features_io :: "yaml \<Rightarrow> configuration \<Rightarrow> configuration option" where
  "yaml_features_io Y c =
     (if y_defined Y [''features'', ''io''] \<and> y_defined Y [''features'', ''enable''] then do {
       b \<leftarrow> y_bool Y [''features'', ''io'', ''enable''];
       let c = c\<lparr>cf_io := b\<rparr>;
       if \<not> b then Some c else do {
         c \<leftarrow> if_defined Y [''features'', ''io'', ''posix''] y_bool (\<lambda>b. cf_posix_update (\<lambda>_. b)) c;
         if_defined Y [''features'', ''io'', ''stdio''] y_bool (\<lambda>b. cf_stdio_update (\<lambda>_. b)) c } }
      else Some c)"

definition yaml_features_papi :: "yaml \<Rightarrow> configuration \<Rightarrow> configuration option" where
  "yaml_features_papi Y c =
     (if \<not> y_defined Y [''features'', ''papi''] then Some c else do {
       c \<leftarrow> if_defined Y [''features'', ''papi'', ''enable''] y_bool (\<lambda>b. cf_papi_tracing_update (\<lambda>_. b)) c;
       c \<leftarrow> if_defined Y [''features'', ''papi'', ''multiplex''] y_bool (\<lambda>b. cf_papi_multiplex_update (\<lambda>_. b)) c;
       c \<leftarrow> if_defined Y [''features'', ''papi'', ''interval''] y_size
         (\<lambda>n. cf_papi_sample_interval_ms_update (\<lambda>_. n)) c;
       if y_defined Y [''features'', ''papi'', ''events'']
       then map_option (\<lambda>l. c\<lparr>cf_papi_events := l\<rparr>)
         (load_list_value Y [''features'', ''papi'', ''events''] (cf_papi_events c))
       else Some c })"

definition yaml_features_aggregation :: "yaml \<Rightarrow> configuration \<Rightarrow> configuration option" where
  "yaml_features_aggregation Y c =
     (if y_defined Y [''features'', ''aggregation''] \<and> y_defined Y [''features'', ''aggregation'', ''enable''] then do {
       b \<leftarrow> y_bool Y [''features'', ''aggregation'', ''enable''];
       let c = c\<lparr>cf_aggregation_enable := b\<rparr>;
       if \<not> b then Some c else do {
         let c = c\<lparr>cf_aggregation_type := AGGREGATION_TYPE_FULL\<rparr>;
         c \<leftarrow> if_defined Y [''features'', ''aggregation'', ''type''] y_string
           (\<lambda>s. cf_aggregation_type_update (\<lambda>_. convert_aggregation_type s)) c;
         if cf_aggregation_type c = AGGREGATION_TYPE_SELECTIVE
         then if_defined Y [''features'', ''aggregation'', ''file''] y_string
           (\<lambda>s. cf_aggregation_file_update (\<lambda>_. s)) c
         else Some c } }
      else Some c)"

definition yaml_features :: "yaml \<Rightarrow> configuration \<Rightarrow> configuration option" where
  "yaml_features Y c =
     (if \<not> y_defined Y [''features''] then Some c else do {
       c \<leftarrow> if_defined Y [''features'', ''metadata''] y_bool (\<lambda>_ c. c) c;
       c \<leftarrow> if_defined Y [''features'', ''core_affinity''] y_bool (\<lambda>b. cf_core_affinity_update (\<lambda>_. b)) c;
       c \<leftarrow> if_defined Y [''features'', ''interval''] y_size
         (\<lambda>n c. c\<lparr>cf_trace_interval_ms := n, cf_trace_interval_explicit := True\<rparr>) c;
       c \<leftarrow> yaml_features_io Y c;
       c \<leftarrow> if_defined Y [''features'', ''tid''] y_bool (\<lambda>b. cf_tids_update (\<lambda>_. b)) c;
       c \<leftarrow> yaml_features_papi Y c;
       c \<leftarrow> (if y_defined Y [''features'', ''variorum'']
         then if_defined Y [''features'', ''variorum'', ''enable''] y_bool (\<lambda>b. cf_variorum_power_update (\<lambda>_. b)) c
         else Some c);
       yaml_features_aggregation Y c })"

definition yaml_internal :: "yaml \<Rightarrow> configuration \<Rightarrow> configuration option" where
  "yaml_internal Y c =
     (if \<not> y_defined Y [''internal''] then Some c else do {
       c \<leftarrow> if_defined Y [''internal'', ''bind_signals''] y_bool (\<lambda>b. cf_bind_signals_update (\<lambda>_. b)) c;
       c \<leftarrow> if_defined Y [''internal'', ''throw_error''] y_bool (\<lambda>b. cf_throw_error_update (\<lambda>_. b)) c;
       if_defined Y [''internal'', ''write_buffer_size''] y_size (\<lambda>n. cf_write_buffer_size_update (\<lambda>_. n)) c })"

definition yaml_settings :: "yaml \<Rightarrow> configuration \<Rightarrow> configuration option" where
  "yaml_settings Y c = do {
     b \<leftarrow> y_bool Y [''enable''];
     c \<leftarrow> yaml_tracer Y (c\<lparr>cf_enable := b\<rparr>);
     c \<leftarrow> yaml_profiler Y c;
     c \<leftarrow> yaml_gotcha Y c;
     c \<leftarrow> yaml_features Y c;
     yaml_internal Y c }"

section \<open>The environment\<close>

type_synonym env = "string \<Rightarrow> string option"

definition if_set :: "env \<Rightarrow> string \<Rightarrow> (string \<Rightarrow> configuration \<Rightarrow> configuration) \<Rightarrow> configuration \<Rightarrow> configuration" where
  "if_set e name store c = (case e name of None \<Rightarrow> c | Some v \<Rightarrow> store v c)"

definition if_flag :: "env \<Rightarrow> string \<Rightarrow> (configuration \<Rightarrow> configuration) \<Rightarrow> configuration \<Rightarrow> configuration" where
  "if_flag e name store c = (if env_flag (e name) then store c else c)"

definition at_least_one :: "u32 \<Rightarrow> u32" where
  "at_least_one n = (if n = 0 then 1 else n)"

definition env_pc_ring :: "u32 \<Rightarrow> env \<Rightarrow> configuration \<Rightarrow> configuration" where
  "env_pc_ring uid e c = (let
     c = c\<lparr>cf_service_shm := (case e ''DFTRACER_SERVICE_SHM'' of
         Some s \<Rightarrow> if s \<noteq> [] then s else ''/dftracer-'' @ show_nat (unat uid)
       | None \<Rightarrow> ''/dftracer-'' @ show_nat (unat uid))\<rparr>;
     c = if_set e ''DFTRACER_PC_BLOCK_SIZE'' (\<lambda>v. cf_pc_block_size_update (\<lambda>_. ucast (strtoul v))) c;
     c = if_set e ''DFTRACER_PC_BLOCKS'' (\<lambda>v. cf_pc_blocks_update (\<lambda>_. ucast (strtoul v))) c
   in if_set e ''DFTRACER_PC_FULL_WAIT_US'' (\<lambda>v. cf_pc_full_wait_us_update (\<lambda>_. strtoul v)) c)"

definition env_pc_consumers :: "env \<Rightarrow> configuration \<Rightarrow> configuration" where
  "env_pc_consumers e c = (let
     c = if_set e ''DFTRACER_PC_CONSUMER_THREADS'' (\<lambda>v. cf_pc_consumer_threads_update (\<lambda>_. ucast (strtoul v))) c;
     c = cf_pc_consumer_threads_update at_least_one c;
     c = if_set e ''DFTRACER_PC_CONSUMER_MIN_THREADS''
       (\<lambda>v. cf_pc_consumer_min_threads_update (\<lambda>_. ucast (strtoul v))) c;
     c = cf_pc_consumer_min_threads_update at_least_one c;
     c = (if cf_pc_consumer_min_threads c > cf_pc_consumer_threads c
          then c\<lparr>cf_pc_consumer_min_threads := cf_pc_consumer_threads c\<rparr> else c);
     c = if_set e ''DFTRACER_PC_CONSUMER_TICK_MS'' (\<lambda>v. cf_pc_consumer_tick_ms_update (\<lambda>_. ucast (strtoul v))) c
   in cf_pc_consumer_tick_ms_update at_least_one c)"

definition env_pc_output :: "(string \<Rightarrow> real option) \<Rightarrow> env \<Rightarrow> configuration \<Rightarrow> configuration" where
  "env_pc_output strtod e c = (let
     c = if_set e ''DFTRACER_PC_FLUSH_MS'' (\<lambda>v. cf_pc_flush_ms_update (\<lambda>_. ucast (strtoul v))) c;
     c = cf_pc_flush_ms_update at_least_one c;
     c = if_set e ''DFTRACER_PC_COMPRESSION_LEVEL'' (\<lambda>v. cf_pc_compression_level_update (\<lambda>_. atoi v)) c;
     c = (if sint (cf_pc_compression_level c) < 0 \<or> sint (cf_pc_compression_level c) > 9
          then c\<lparr>cf_pc_compression_level := DFT_SHM_DEFAULT_COMPRESSION_LEVEL\<rparr> else c);
     c = if_set e ''DFTRACER_PC_ROLLOVER_MB'' (\<lambda>v. cf_pc_rollover_mb_update (\<lambda>_. strtod v)) c
   in cf_pc_rollover_mb_update (\<lambda>r. case r of Some mb \<Rightarrow> if mb \<ge> 0 then Some mb else Some 0 | None \<Rightarrow> Some 0) c)"

definition env_pc_mode :: "(string \<Rightarrow> real option) \<Rightarrow> u32 \<Rightarrow> env \<Rightarrow> configuration \<Rightarrow> configuration" where
  "env_pc_mode strtod uid e c = env_pc_output strtod e (env_pc_consumers e (env_pc_ring uid e c))"

definition env_io :: "env \<Rightarrow> configuration \<Rightarrow> configuration" where
  "env_io e c = (let c = if_flag e ''DFTRACER_DISABLE_IO'' (cf_io_update (\<lambda>_. False)) c
     in if cf_io c
        then if_flag e ''DFTRACER_DISABLE_STDIO'' (cf_stdio_update (\<lambda>_. False))
          (if_flag e ''DFTRACER_DISABLE_POSIX'' (cf_posix_update (\<lambda>_. False)) c)
        else c)"

definition env_papi :: "env \<Rightarrow> configuration \<Rightarrow> configuration" where
  "env_papi e c = (let
     c = if_flag e ''DFTRACER_ENABLE_PAPI_TRACING'' (cf_papi_tracing_update (\<lambda>_. True)) c;
     c = if_flag e ''DFTRACER_PAPI_MULTIPLEX'' (cf_papi_multiplex_update (\<lambda>_. True)) c;
     c = if_set e ''DFTRACER_PAPI_SAMPLE_INTERVAL_MS''
       (\<lambda>v. cf_papi_sample_interval_ms_update (\<lambda>_. scast (atoi v))) c
   in if_set e ''DFTRACER_PAPI_EVENTS'' (\<lambda>v. cf_papi_events_update (\<lambda>_. parse_list_value v)) c)"

definition env_aggregation :: "env \<Rightarrow> configuration \<Rightarrow> configuration" where
  "env_aggregation e c = (case e ''DFTRACER_ENABLE_AGGREGATION'' of None \<Rightarrow> c
     | Some v \<Rightarrow> (let c = c\<lparr>cf_aggregation_enable := env_flag (Some v)\<rparr> in
         if \<not> cf_aggregation_enable c then c
         else (let c = c\<lparr>cf_aggregation_type := AGGREGATION_TYPE_FULL\<rparr>;
                   c = if_set e ''DFTRACER_AGGREGATION_TYPE''
                     (\<lambda>v. cf_aggregation_type_update (\<lambda>_. convert_aggregation_type v)) c
               in if cf_aggregation_type c = AGGREGATION_TYPE_SELECTIVE
                  then if_set e ''DFTRACER_AGGREGATION_FILE'' (\<lambda>v. cf_aggregation_file_update (\<lambda>_. v)) c
                  else c)))"

definition env_enable :: "env \<Rightarrow> configuration \<Rightarrow> configuration" where
  "env_enable e c = if_flag e ''DFTRACER_ENABLE'' (cf_enable_update (\<lambda>_. True))
     (if_set e ''DFTRACER_TIME_METRIC'' (\<lambda>v. cf_time_metric_update (\<lambda>_. convert_time_metric v)) c)"

definition env_service :: "(string \<Rightarrow> real option) \<Rightarrow> u32 \<Rightarrow> env \<Rightarrow> configuration \<Rightarrow> configuration" where
  "env_service strtod uid e c = (let
     c = if_set e ''DFTRACER_TRACE_INTERVAL_MS''
       (\<lambda>v c. c\<lparr>cf_trace_interval_ms := scast (atoi v), cf_trace_interval_explicit := True\<rparr>) c;
     c = if_set e ''DFTRACER_LIBUV_THREADS'' (\<lambda>v. cf_libuv_thread_count_update (\<lambda>_. scast (atoi v))) c;
     c = cf_libuv_thread_count_update (\<lambda>n. if n = 0 then 1 else n) c;
     c = if_set e ''DFTRACER_ENABLE_PC_MODE'' (\<lambda>v. cf_pc_mode_update (\<lambda>_. env_flag (Some v))) c
   in if cf_pc_mode c then env_pc_mode strtod uid e c else c)"

definition env_tracer :: "env \<Rightarrow> configuration \<Rightarrow> configuration" where
  "env_tracer e c = (let
     c = if_set e ''DFTRACER_INIT'' (\<lambda>v. cf_init_type_update (\<lambda>_. convert_init_type v)) c;
     c = if_flag e ''DFTRACER_BIND_SIGNALS'' (cf_bind_signals_update (\<lambda>_. True)) c;
     c = if_flag e ''DFTRACER_SET_CORE_AFFINITY'' (cf_core_affinity_update (\<lambda>_. True)) c;
     c = if_set e ''DFTRACER_GOTCHA_PRIORITY'' (\<lambda>v. cf_gotcha_priority_update (\<lambda>_. atoi v)) c;
     c = if_set e ''DFTRACER_LOG_FILE'' (\<lambda>v. cf_log_file_update (\<lambda>_. v)) c
   in if_set e ''DFTRACER_DATA_DIR'' (\<lambda>v. if v = DFTRACER_ALL_FILES then cf_trace_all_files_update (\<lambda>_. True)
       else cf_data_dirs_update (\<lambda>_. v)) c)"

definition env_tids :: "env \<Rightarrow> configuration \<Rightarrow> configuration" where
  "env_tids e c = (if e ''DFTRACER_DISABLE_TIDS'' = Some ''0'' then c\<lparr>cf_tids := False\<rparr> else c)"

definition env_settings :: "(string \<Rightarrow> real option) \<Rightarrow> u32 \<Rightarrow> env \<Rightarrow> configuration \<Rightarrow> configuration" where
  "env_settings strtod uid e c = (let
     c = env_papi e (env_tids e (env_io e (env_tracer e (env_service strtod uid e c))));
     c = if_flag e ''DFTRACER_DISABLE_VARIORUM_POWER'' (cf_variorum_power_update (\<lambda>_. False)) c;
     c = env_aggregation e c;
     c = if_flag e ''DFTRACER_ERROR'' (cf_throw_error_update (\<lambda>_. True)) c
   in if_set e ''DFTRACER_WRITE_BUFFER_SIZE'' (\<lambda>v. cf_write_buffer_size_update (\<lambda>_. scast (atoi v))) c)"

section \<open>The constructor\<close>

text \<open>
  \<open>nofile\<close> is the open-file soft limit (\<open>None\<close>: not known, all ones: unlimited), \<open>exists\<close> whether
  a file is there and \<open>load\<close> the YAML file of a name.
\<close>

record config_env =
  ce_env :: env
  ce_nofile :: "u64 option"
  ce_uid :: u32
  ce_exists :: "string \<Rightarrow> bool"
  ce_load :: "string \<Rightarrow> yaml option"
  ce_strtod :: "string \<Rightarrow> real option"

definition push_rules :: "yaml \<Rightarrow> string \<Rightarrow> string list \<Rightarrow> string list" where
  "push_rules Y key rules =
     (if y_defined Y [key] then (case y_items Y [key] of Some items \<Rightarrow> rules @ items | None \<Rightarrow> rules) else rules)"

definition derive_configurations :: "config_env \<Rightarrow> configuration \<Rightarrow> configuration option" where
  "derive_configurations R c = (let
     c = (case ce_nofile R of None \<Rightarrow> c
          | Some n \<Rightarrow> if n = - 1 \<or> n > DFT_MAX_TRACKED_FD then c\<lparr>cf_max_fd := DFT_MAX_TRACKED_FD\<rparr>
                    else c\<lparr>cf_max_fd := n\<rparr>);
     c = (if cf_papi_sample_interval_ms c = 0 then c\<lparr>cf_papi_sample_interval_ms := cf_trace_interval_ms c\<rparr> else c)
   in if cf_aggregation_type c = AGGREGATION_TYPE_SELECTIVE \<and> cf_aggregation_file c = []
      then Some (c\<lparr>cf_inclusion_rules := cf_inclusion_rules c @ [DFTRACER_DEFAULT_AGGREGATION_RULE]\<rparr>)
      else if cf_aggregation_type c = AGGREGATION_TYPE_SELECTIVE then
        (if cf_aggregation_file c \<noteq> [] \<and> ce_exists R (cf_aggregation_file c)
         then map_option (\<lambda>Y. c\<lparr>cf_inclusion_rules := push_rules Y ''inclusion'' (cf_inclusion_rules c),
                cf_exclusion_rules := push_rules Y ''exclusion'' (cf_exclusion_rules c)\<rparr>)
           (ce_load R (cf_aggregation_file c))
         else Some c)
      else Some c)"

definition configure :: "build_options \<Rightarrow> config_env \<Rightarrow> configuration option" where
  "configure B R = do {
     Y \<leftarrow> (case ce_env R ''DFTRACER_CONFIGURATION'' of None \<Rightarrow> Some None | Some f \<Rightarrow> map_option Some (ce_load R f));
     let c = default_configuration B;
     c \<leftarrow> (case Y of None \<Rightarrow> Some c | Some Y \<Rightarrow> yaml_log_level Y c);
     let c = if_set (ce_env R) ''DFTRACER_LOG_LEVEL'' (\<lambda>v. cf_logger_level_update (\<lambda>_. convert_logger_type v)) c;
     c \<leftarrow> (case Y of None \<Rightarrow> Some c | Some Y \<Rightarrow> yaml_settings Y c);
     let c = env_enable (ce_env R) c;
     let c = (if cf_enable c then env_settings (ce_strtod R) (ce_uid R) (ce_env R) c else c);
     derive_configurations R c }"

section \<open>Operations\<close>

definition from_last :: "char set \<Rightarrow> string \<Rightarrow> string" where
  "from_last cs s = rev (takeWhile (\<lambda>c. c \<notin> cs) (rev s))"

definition ends_with :: "string \<Rightarrow> string \<Rightarrow> bool" where
  "ends_with suffix_text s \<longleftrightarrow> drop (length s - length suffix_text) s = suffix_text"

definition set_log_file :: "string option \<Rightarrow> configuration \<Rightarrow> configuration" where
  "set_log_file path c = (case path of None \<Rightarrow> c
     | Some file \<Rightarrow>
         if file = [] then c
         else (let basename = from_last {CHR ''/'', CHR 0x5C} file;
                   base_start = length file - length basename;
                   strip = (if length basename > 7 \<and> ends_with ''.pfw.gz'' basename then Some (length basename - 7)
                     else if length basename > 4 \<and> ends_with ''.pfw'' basename then Some (length basename - 4)
                     else (case char_rfind (CHR ''.'') basename of
                         Some dot \<Rightarrow> if dot \<noteq> 0 then Some dot else None
                       | None \<Rightarrow> None))
               in c\<lparr>cf_log_file := (case strip of Some n \<Rightarrow> take (base_start + n) file | None \<Rightarrow> file)\<rparr>))"

definition set_data_dirs :: "string option \<Rightarrow> configuration \<Rightarrow> configuration" where
  "set_data_dirs dirs c = (case dirs of None \<Rightarrow> c
     | Some d \<Rightarrow>
         if d = [] then c
         else if d = DFTRACER_ALL_FILES then c\<lparr>cf_trace_all_files := True\<rparr>
         else c\<lparr>cf_data_dirs := d, cf_trace_all_files := False\<rparr>)"

definition resolve_defaults :: "configuration \<Rightarrow> configuration" where
  "resolve_defaults c = (let
     c = (if cf_log_file c = [] then c\<lparr>cf_log_file := DFTRACER_DEFAULT_LOG_FILE\<rparr> else c)
   in if cf_data_dirs c = [] \<or> cf_data_dirs c = DFTRACER_ALL_FILES then c\<lparr>cf_trace_all_files := True\<rparr> else c)"

definition make_log_file :: "configuration \<Rightarrow> string \<Rightarrow> string \<Rightarrow> string" where
  "make_log_file c hash suffix_text = cf_log_file c @ ''-'' @ hash @ ''-'' @ suffix_text @ ''.pfw.gz''"

subsection \<open>The command line\<close>

text \<open>
  \<open>basename\<close> of \<open>libgen.h\<close>: the name and, when the path ends in slashes, where it writes the
  zero that cuts them off.
\<close>

definition posix_basename :: "string \<Rightarrow> string \<times> nat option" where
  "posix_basename s =
     (if s = [] then (''.'', None)
      else if last s \<noteq> CHR ''/'' then (from_last {CHR ''/''} s, None)
      else (let t = rev (dropWhile (\<lambda>c. c = CHR ''/'') (rev s))
            in if t = [] then (''/'', None) else (from_last {CHR ''/''} t, Some (length t))))"

abbreviation NUL :: char where "NUL \<equiv> CHR 0x00"

definition c_text :: "string \<Rightarrow> string" where
  "c_text buf = takeWhile (\<lambda>c. c \<noteq> NUL) buf"

definition SEPARATOR :: char where "SEPARATOR = CHR '';''"

definition program_name :: "string \<Rightarrow> bool" where
  "program_name n \<longleftrightarrow> take 1 n \<noteq> ''-'' \<and> str_find ''python'' n = None \<and> str_find ''env'' n = None \<and>
     str_find ''multiprocessing'' n = None"

record cmdline =
  cl_cmd :: string
  cl_name :: string
  cl_last :: nat
  cl_extracted :: bool

definition cmdline_step :: "nat \<Rightarrow> nat \<Rightarrow> cmdline \<Rightarrow> cmdline" where
  "cmdline_step sz index st =
     (if cl_cmd st ! index \<noteq> NUL then st
      else (let
          st = (if cl_extracted st then st
            else (let (b, cut) = posix_basename (c_text (drop (cl_last st) (cl_cmd st)));
                      name = take 127 b;
                      cmd = (case cut of Some n \<Rightarrow> (cl_cmd st)[cl_last st + n := NUL] | None \<Rightarrow> cl_cmd st)
                  in st\<lparr>cl_cmd := cmd, cl_name := name, cl_extracted := program_name name\<rparr>));
          st = (if index + 1 < sz then st\<lparr>cl_cmd := (cl_cmd st)[index := SEPARATOR]\<rparr> else st)
        in st\<lparr>cl_last := index + 1\<rparr>))"

record exec_info =
  ei_name :: string
  ei_cmd :: string

definition parse_cmdline :: "string \<Rightarrow> exec_info" where
  "parse_cmdline data =
     (if data = [] then \<lparr>ei_name = ''DEFAULT'', ei_cmd = ''DEFAULT''\<rparr>
      else (let sz = min (length data) DFT_PATH_MAX;
                cmd = take sz data @ drop sz (''DEFAULT'' @ replicate (DFT_PATH_MAX - 7) NUL);
                st = fold (cmdline_step sz) [0..<min sz (DFT_PATH_MAX - 2)]
                  \<lparr>cl_cmd = cmd, cl_name = ''DEFAULT'', cl_last = 0, cl_extracted = False\<rparr>;
                name = (if cl_extracted st then cl_name st
                  else if str_find ''multiprocessing'' (cl_name st) \<noteq> None then ''DEFAULT-spawn'' else ''DEFAULT'')
            in \<lparr>ei_name = name, ei_cmd = c_text ((cl_cmd st)[DFT_PATH_MAX - 1 := NUL])\<rparr>))"

subsection \<open>Settings in the trace\<close>

definition json_escape :: "string \<Rightarrow> string" where
  "json_escape s = concat (map (\<lambda>c. if c = CHR 0x22 then [CHR 0x5C, CHR 0x22] else if c = CHR 0x5C then [CHR 0x5C, CHR 0x5C]
     else if c = CHR 0x0A then [CHR 0x5C, CHR ''n''] else [c]) s)"

definition json_name :: "string \<Rightarrow> string" where
  "json_name s = CHR 0x22 # s @ [CHR 0x22, CHR '':'']"

definition json_quoted :: "string \<Rightarrow> string" where
  "json_quoted s = CHR 0x22 # s @ [CHR 0x22]"

definition show_flag :: "bool \<Rightarrow> string" where
  "show_flag b = (if b then ''1'' else ''0'')"

definition cfg_text :: "configuration \<Rightarrow> bool \<Rightarrow> string \<Rightarrow> string" where
  "cfg_text c bound log_file = ''{''
     @ json_name ''enable'' @ show_flag (cf_enable c) @ '',''
     @ json_name ''metadata'' @ show_flag (cf_metadata c) @ '',''
     @ json_name ''core_affinity'' @ show_flag (cf_core_affinity c) @ '',''
     @ json_name ''time_metric'' @ json_quoted (time_metric_name (cf_time_metric c)) @ '',''
     @ json_name ''io'' @ show_flag (cf_io c) @ '',''
     @ json_name ''posix'' @ show_flag (cf_posix c) @ '',''
     @ json_name ''stdio'' @ show_flag (cf_stdio c) @ '',''
     @ json_name ''trace_all_files'' @ show_flag (cf_trace_all_files c) @ '',''
     @ json_name ''tids'' @ show_flag (cf_tids c) @ '',''
     @ json_name ''bind_signals'' @ show_flag (cf_bind_signals c) @ '',''
     @ json_name ''write_buffer_size'' @ show_u64 (cf_write_buffer_size c) @ '',''
     @ json_name ''trace_interval_ms'' @ show_u64 (cf_trace_interval_ms c) @ '',''
     @ json_name ''libuv_thread_count'' @ show_u64 (cf_libuv_thread_count c) @ '',''
     @ json_name ''variorum_power'' @ show_flag (cf_variorum_power c) @ '',''
     @ json_name ''aggregation_enable'' @ show_flag (cf_aggregation_enable c) @ '',''
     @ json_name ''pc_mode'' @ show_flag (cf_pc_mode c) @ '',''
     @ json_name ''aggregation_type'' @ json_quoted (aggregation_type_name (cf_aggregation_type c)) @ '',''
     @ json_name ''bind'' @ show_flag bound @ '',''
     @ json_name ''log_file'' @ json_quoted (json_escape log_file) @ ''}''"

definition build_text :: "build_options \<Rightarrow> string" where
  "build_text B = ''{'' @ json_name ''mpi'' @ show_flag (bo_mpi B) @ '',''
     @ json_name ''hdf5'' @ show_flag (bo_hdf5 B) @ '',''
     @ json_name ''hip'' @ show_flag (bo_hip B) @ '',''
     @ json_name ''cuda'' @ show_flag (bo_cuda B) @ '',''
     @ json_name ''finstrument'' @ show_flag (bo_finstrument B) @ '',''
     @ json_name ''variorum'' @ show_flag (bo_variorum B) @ ''}''"

definition populate_metadata :: "build_options \<Rightarrow> configuration \<Rightarrow> bool \<Rightarrow> string \<Rightarrow> metadata \<Rightarrow> metadata" where
  "populate_metadata B c bound log_file md =
     metadata_insert_or_assign ''build'' MT_KEY (Any_raw_json (build_text B))
       (metadata_insert_or_assign ''cfg'' MT_KEY (Any_raw_json (cfg_text c bound log_file)) md)"

section \<open>What the sources leave alone\<close>

text \<open>
  A setting no source writes keeps its value. The readers are options of configurations: a
  field is kept when it is the same in every result.
\<close>

definition keeps :: "(configuration \<Rightarrow> 'a) \<Rightarrow> (configuration \<Rightarrow> configuration option) \<Rightarrow> bool" where
  "keeps f m \<longleftrightarrow> (\<forall>c c'. m c = Some c' \<longrightarrow> f c' = f c)"

named_theorems keeps_intro \<open>readers that leave a setting alone\<close>

lemma keepsD: "keeps f m \<Longrightarrow> m c = Some c' \<Longrightarrow> f c' = f c"
  by (simp add: keeps_def)

lemma keeps_Some [keeps_intro]: "(\<And>c. f (u c) = f c) \<Longrightarrow> keeps f (\<lambda>c. Some (u c))"
  by (simp add: keeps_def)

lemma keeps_if [keeps_intro]: "keeps f m \<Longrightarrow> keeps f n \<Longrightarrow> keeps f (\<lambda>c. if b c then m c else n c)"
  by (simp add: keeps_def)

lemma keeps_bind [keeps_intro]: "keeps f m \<Longrightarrow> keeps f n \<Longrightarrow> keeps f (\<lambda>c. Option.bind (m c) n)"
  by (fastforce simp: keeps_def Option.bind_eq_Some_conv)

lemma keeps_get [keeps_intro]: "(\<And>v. keeps f (n v)) \<Longrightarrow> keeps f (\<lambda>c. Option.bind r (\<lambda>v. n v c))"
  by (fastforce simp: keeps_def Option.bind_eq_Some_conv)

lemma keeps_map [keeps_intro]: "(\<And>v c. f (u v c) = f c) \<Longrightarrow> keeps f (\<lambda>c. map_option (\<lambda>v. u v c) (r c))"
  by (auto simp: keeps_def)

lemma keeps_if_defined [keeps_intro]:
  "(\<And>v c. f (store v c) = f c) \<Longrightarrow> (\<And>c. f (u c) = f c) \<Longrightarrow> keeps f (\<lambda>c. if_defined Y p get store (u c))"
  by (auto simp: keeps_def if_defined_def)

lemmas yaml_parts = yaml_features_io_def yaml_features_papi_def yaml_features_aggregation_def

lemma keeps_io_pc:
  "keeps cf_pc_mode (yaml_features_io Y)" "keeps cf_pc_mode (yaml_features_aggregation Y)"
  "keeps cf_pc_mode (yaml_features_papi Y)"
  unfolding yaml_parts Let_def by (intro keeps_intro; simp)+

lemmas yaml_sections = yaml_tracer_def yaml_profiler_def yaml_gotcha_def yaml_internal_def

lemma keeps_sections:
  assumes "\<And>b c. f (cf_logger_level_update b c) = f c" "\<And>b c. f (cf_time_metric_update b c) = f c"
    "\<And>b c. f (cf_init_type_update b c) = f c" "\<And>b c. f (cf_log_file_update b c) = f c"
    "\<And>b c. f (cf_trace_all_files_update b c) = f c" "\<And>b c. f (cf_data_dirs_update b c) = f c"
    "\<And>b c. f (cf_libuv_thread_count_update b c) = f c" "\<And>b c. f (cf_gotcha_priority_update b c) = f c"
    "\<And>b c. f (cf_bind_signals_update b c) = f c" "\<And>b c. f (cf_throw_error_update b c) = f c"
    "\<And>b c. f (cf_write_buffer_size_update b c) = f c"
  shows "keeps f (yaml_tracer Y)" "keeps f (yaml_profiler Y)" "keeps f (yaml_gotcha Y)" "keeps f (yaml_internal Y)"
  unfolding yaml_sections by (intro keeps_intro; simp add: assms)+

lemma keeps_settings:
  assumes "\<And>b c. f (cf_enable_update b c) = f c" "keeps f (yaml_tracer Y)" "keeps f (yaml_profiler Y)"
    "keeps f (yaml_gotcha Y)" "keeps f (yaml_internal Y)" "keeps f (yaml_features Y)"
  shows "keeps f (yaml_settings Y)"
  using assms unfolding keeps_def yaml_settings_def Option.bind_eq_Some_conv by (elim exE conjE | intro allI impI | simp)+

lemma keeps_pc_mode: "keeps cf_pc_mode (yaml_features Y)" "keeps cf_pc_mode (yaml_settings Y)" "keeps cf_pc_mode (yaml_log_level Y)"
proof -
  show f: "keeps cf_pc_mode (yaml_features Y)"
    unfolding yaml_features_def by (intro keeps_intro keeps_io_pc) (simp_all)
  show "keeps cf_pc_mode (yaml_settings Y)"
    by (intro keeps_settings keeps_sections f) simp_all
  show "keeps cf_pc_mode (yaml_log_level Y)"
    unfolding yaml_log_level_def by (intro keeps_intro) simp_all
qed

definition io_settings :: "configuration \<Rightarrow> bool \<times> bool \<times> bool" where
  "io_settings c = (cf_io c, cf_posix c, cf_stdio c)"

lemma keeps_io:
  assumes "\<not> y_defined Y [''features'', ''enable'']" shows "keeps io_settings (yaml_settings Y)"
proof -
  have "keeps io_settings (yaml_features_io Y)"
    using assms by (simp add: keeps_def yaml_features_io_def)
  moreover have "keeps io_settings (yaml_features_papi Y)" "keeps io_settings (yaml_features_aggregation Y)"
    unfolding yaml_parts Let_def by (intro keeps_intro; simp add: io_settings_def)+
  ultimately have "keeps io_settings (yaml_features Y)"
    unfolding yaml_features_def by (intro keeps_intro) (simp_all add: io_settings_def)
  then show ?thesis
    by (intro keeps_settings keeps_sections) (simp_all add: io_settings_def)
qed

text \<open>
  C30: a YAML file without an entry \<open>features.enable\<close>, as the documented layout has none, changes
  no setting of the \<open>io\<close> section, whatever its \<open>features.io\<close> says: the guard of the section asks
  for \<open>features.enable\<close> where \<open>features.io.enable\<close> is meant.
\<close>

theorem yaml_io_section_is_ignored:
  assumes "\<not> y_defined Y [''features'', ''enable'']" and "yaml_settings Y c = Some c'"
  shows "cf_io c' = cf_io c \<and> cf_posix c' = cf_posix c \<and> cf_stdio c' = cf_stdio c"
  using keepsD [OF keeps_io assms(2)] assms(1) by (simp add: io_settings_def)

definition sample_yaml :: yaml where
  "sample_yaml = \<lparr>y_defined = (\<lambda>p. p \<in> {[''enable''], [''features''], [''features'', ''io''], [''features'', ''io'', ''enable'']}),
     y_string = (\<lambda>_. None), y_bool = (\<lambda>p. if p = [''enable''] then Some True
       else if p = [''features'', ''io'', ''enable''] then Some False else None),
     y_size = (\<lambda>_. None), y_int = (\<lambda>_. None), y_scalar = (\<lambda>p. True), y_items = (\<lambda>_. None)\<rparr>"

definition sample_build :: build_options where
  "sample_build = \<lparr>bo_ring_block_size = 1048576, bo_ring_blocks = 1024, bo_mpi = False, bo_hdf5 = False,
     bo_hip = False, bo_cuda = False, bo_finstrument = False, bo_variorum = False\<rparr>"

lemma sample_yaml_settings:
  "yaml_settings sample_yaml (default_configuration sample_build) =
     Some ((default_configuration sample_build)\<lparr>cf_enable := True\<rparr>)"
  by (simp add: yaml_settings_def yaml_sections yaml_features_def yaml_features_io_def yaml_features_papi_def
      yaml_features_aggregation_def if_defined_def sample_yaml_def)

lemma yaml_io_section_is_ignored_witness:
  "\<exists>c'. yaml_settings sample_yaml (default_configuration sample_build) = Some c' \<and>
     y_bool sample_yaml [''features'', ''io'', ''enable''] = Some False \<and> cf_io c' = cf_io (default_configuration sample_build)"
  using yaml_io_section_is_ignored [OF _ sample_yaml_settings] sample_yaml_settings
  by (simp add: sample_yaml_def)

section \<open>What the service can rely on\<close>

lemma at_least_one: "at_least_one n \<ge> 1"
  by (simp add: at_least_one_def word_le_nat_alt unat_eq_0 Suc_le_eq)
     (metis unat_gt_0)

definition usable :: "configuration \<Rightarrow> bool" where
  "usable c \<longleftrightarrow> cf_service_shm c \<noteq> [] \<and> 1 \<le> cf_pc_consumer_min_threads c \<and>
     cf_pc_consumer_min_threads c \<le> cf_pc_consumer_threads c \<and> 1 \<le> cf_pc_consumer_tick_ms c \<and> 1 \<le> cf_pc_flush_ms c \<and>
     0 \<le> sint (cf_pc_compression_level c) \<and> sint (cf_pc_compression_level c) \<le> 9 \<and>
     (\<exists>mb \<ge> 0. cf_pc_rollover_mb c = Some mb)"

text \<open>A setting of a configuration that an environment variable may have replaced.\<close>

lemma if_set_settings:
  "cf_service_shm (if_set e n store c) = (if e n = None then cf_service_shm c else cf_service_shm (store (the (e n)) c))"
  "cf_pc_consumer_threads (if_set e n store c) =
     (if e n = None then cf_pc_consumer_threads c else cf_pc_consumer_threads (store (the (e n)) c))"
  "cf_pc_consumer_min_threads (if_set e n store c) =
     (if e n = None then cf_pc_consumer_min_threads c else cf_pc_consumer_min_threads (store (the (e n)) c))"
  "cf_pc_consumer_tick_ms (if_set e n store c) =
     (if e n = None then cf_pc_consumer_tick_ms c else cf_pc_consumer_tick_ms (store (the (e n)) c))"
  "cf_pc_flush_ms (if_set e n store c) = (if e n = None then cf_pc_flush_ms c else cf_pc_flush_ms (store (the (e n)) c))"
  "cf_pc_compression_level (if_set e n store c) =
     (if e n = None then cf_pc_compression_level c else cf_pc_compression_level (store (the (e n)) c))"
  "cf_pc_rollover_mb (if_set e n store c) =
     (if e n = None then cf_pc_rollover_mb c else cf_pc_rollover_mb (store (the (e n)) c))"
  "cf_pc_mode (if_set e n store c) = (if e n = None then cf_pc_mode c else cf_pc_mode (store (the (e n)) c))"
  by (auto simp: if_set_def split: option.split)

lemma env_pc_ring_ok: "cf_service_shm (env_pc_ring uid e c) \<noteq> []"
  by (simp add: env_pc_ring_def Let_def if_set_settings split: option.split)

lemma env_pc_consumers_ok:
  "1 \<le> cf_pc_consumer_min_threads (env_pc_consumers e c)" (is ?a)
  "cf_pc_consumer_min_threads (env_pc_consumers e c) \<le> cf_pc_consumer_threads (env_pc_consumers e c)" (is ?b)
  "1 \<le> cf_pc_consumer_tick_ms (env_pc_consumers e c)" (is ?c)
  "cf_service_shm (env_pc_consumers e c) = cf_service_shm c" (is ?d)
proof -
  define c2 where "c2 = cf_pc_consumer_threads_update at_least_one
    (if_set e ''DFTRACER_PC_CONSUMER_THREADS'' (\<lambda>v. cf_pc_consumer_threads_update (\<lambda>_. ucast (strtoul v))) c)"
  define c4 where "c4 = cf_pc_consumer_min_threads_update at_least_one
    (if_set e ''DFTRACER_PC_CONSUMER_MIN_THREADS'' (\<lambda>v. cf_pc_consumer_min_threads_update (\<lambda>_. ucast (strtoul v))) c2)"
  have c2: "1 \<le> cf_pc_consumer_threads c2" "cf_service_shm c2 = cf_service_shm c"
    by (simp_all add: c2_def at_least_one if_set_settings)
  have c4: "1 \<le> cf_pc_consumer_threads c4" "1 \<le> cf_pc_consumer_min_threads c4" "cf_service_shm c4 = cf_service_shm c"
    using c2 by (simp_all add: c4_def at_least_one if_set_settings)
  show ?a ?b ?c ?d
    unfolding env_pc_consumers_def Let_def c2_def [symmetric] c4_def [symmetric]
    using c4 by (auto simp: if_set_settings at_least_one not_less)
qed

lemma env_pc_output_ok:
  "1 \<le> cf_pc_flush_ms (env_pc_output strtod e c)" (is ?a)
  "0 \<le> sint (cf_pc_compression_level (env_pc_output strtod e c))" (is ?b)
  "sint (cf_pc_compression_level (env_pc_output strtod e c)) \<le> 9" (is ?c)
  "\<exists>mb \<ge> 0. cf_pc_rollover_mb (env_pc_output strtod e c) = Some mb" (is ?d)
  "cf_service_shm (env_pc_output strtod e c) = cf_service_shm c" (is ?e)
  "cf_pc_consumer_min_threads (env_pc_output strtod e c) = cf_pc_consumer_min_threads c" (is ?f)
  "cf_pc_consumer_threads (env_pc_output strtod e c) = cf_pc_consumer_threads c" (is ?g)
  "cf_pc_consumer_tick_ms (env_pc_output strtod e c) = cf_pc_consumer_tick_ms c" (is ?h)
proof -
  define c3 where "c3 = if_set e ''DFTRACER_PC_COMPRESSION_LEVEL'' (\<lambda>v. cf_pc_compression_level_update (\<lambda>_. atoi v))
    (cf_pc_flush_ms_update at_least_one
      (if_set e ''DFTRACER_PC_FLUSH_MS'' (\<lambda>v. cf_pc_flush_ms_update (\<lambda>_. ucast (strtoul v))) c))"
  have c3: "1 \<le> cf_pc_flush_ms c3" "cf_service_shm c3 = cf_service_shm c"
    "cf_pc_consumer_min_threads c3 = cf_pc_consumer_min_threads c" "cf_pc_consumer_threads c3 = cf_pc_consumer_threads c"
    "cf_pc_consumer_tick_ms c3 = cf_pc_consumer_tick_ms c"
    by (simp_all add: c3_def at_least_one if_set_settings)
  show ?a ?b ?c ?d ?e ?f ?g ?h
    unfolding env_pc_output_def Let_def c3_def [symmetric]
    using c3 by (auto simp: if_set_settings DFT_SHM_DEFAULT_COMPRESSION_LEVEL_def split: option.split)
qed

lemma usable_env_pc_mode: "usable (env_pc_mode strtod uid e c)"
  by (simp add: usable_def env_pc_mode_def env_pc_output_ok env_pc_consumers_ok env_pc_ring_ok)

text \<open>In producer/consumer mode the settings of the service are usable.\<close>

definition pc_ok :: "configuration \<Rightarrow> bool" where
  "pc_ok c \<longleftrightarrow> (cf_pc_mode c \<longrightarrow> usable c)"

lemma pc_ok_if_set: "pc_ok c \<Longrightarrow> (\<And>v. pc_ok (store v c)) \<Longrightarrow> pc_ok (if_set e n store c)"
  by (simp add: if_set_def split: option.split)

lemma pc_ok_if_flag: "pc_ok c \<Longrightarrow> pc_ok (store c) \<Longrightarrow> pc_ok (if_flag e n store c)"
  by (simp add: if_flag_def)

text \<open>The settings the service does not use.\<close>

lemma pc_ok_others [simp]:
  "pc_ok (cf_init_type_update a1 c) = pc_ok c" "pc_ok (cf_log_file_update a2 c) = pc_ok c"
  "pc_ok (cf_data_dirs_update a3 c) = pc_ok c" "pc_ok (cf_core_affinity_update a4 c) = pc_ok c"
  "pc_ok (cf_gotcha_priority_update a5 c) = pc_ok c" "pc_ok (cf_io_update a6 c) = pc_ok c"
  "pc_ok (cf_posix_update a7 c) = pc_ok c" "pc_ok (cf_stdio_update a8 c) = pc_ok c"
  "pc_ok (cf_trace_all_files_update a9 c) = pc_ok c" "pc_ok (cf_max_fd_update b1 c) = pc_ok c"
  "pc_ok (cf_tids_update b2 c) = pc_ok c" "pc_ok (cf_bind_signals_update b3 c) = pc_ok c"
  "pc_ok (cf_throw_error_update b4 c) = pc_ok c" "pc_ok (cf_write_buffer_size_update b5 c) = pc_ok c"
  "pc_ok (cf_papi_tracing_update b6 c) = pc_ok c" "pc_ok (cf_papi_multiplex_update b7 c) = pc_ok c"
  "pc_ok (cf_papi_sample_interval_ms_update b8 c) = pc_ok c" "pc_ok (cf_papi_events_update b9 c) = pc_ok c"
  "pc_ok (cf_variorum_power_update d1 c) = pc_ok c" "pc_ok (cf_aggregation_enable_update d2 c) = pc_ok c"
  "pc_ok (cf_aggregation_type_update d3 c) = pc_ok c" "pc_ok (cf_aggregation_file_update d4 c) = pc_ok c"
  "pc_ok (cf_inclusion_rules_update d5 c) = pc_ok c" "pc_ok (cf_exclusion_rules_update d6 c) = pc_ok c"
  by (simp_all add: pc_ok_def usable_def)

lemmas pc_ok_env = pc_ok_if_set pc_ok_if_flag

lemma pc_ok_io: "pc_ok c \<Longrightarrow> pc_ok (env_io e c)"
  by (simp add: env_io_def Let_def pc_ok_env)

lemma pc_ok_papi: "pc_ok c \<Longrightarrow> pc_ok (env_papi e c)"
  by (simp add: env_papi_def Let_def pc_ok_env)

lemma pc_ok_aggregation: "pc_ok c \<Longrightarrow> pc_ok (env_aggregation e c)"
  by (simp add: env_aggregation_def Let_def pc_ok_env split: option.split)

lemma pc_ok_service: "pc_ok (env_service strtod uid e c)"
  using usable_env_pc_mode by (simp add: env_service_def Let_def pc_ok_def)

lemma pc_ok_tracer: "pc_ok c \<Longrightarrow> pc_ok (env_tracer e c)"
  by (simp add: env_tracer_def Let_def pc_ok_env)

lemma pc_ok_env_settings: "pc_ok (env_settings strtod uid e c)"
  by (simp add: env_settings_def env_tids_def Let_def pc_ok_env pc_ok_io pc_ok_papi
      pc_ok_aggregation pc_ok_tracer pc_ok_service)

lemma derive_keeps: "derive_configurations R c = Some c' \<Longrightarrow> pc_ok c \<Longrightarrow> pc_ok c'"
  by (auto simp: derive_configurations_def Let_def split: if_splits option.splits)

lemma configure_obtain:
  assumes "configure B R = Some c"
  obtains c0 c1 where "cf_pc_mode c0 = False"
    "c1 = (if cf_enable c0 then env_settings (ce_strtod R) (ce_uid R) (ce_env R) c0 else c0)"
    "derive_configurations R c1 = Some c"
proof -
  obtain Y a b where a: "(case Y of None \<Rightarrow> Some (default_configuration B) | Some Y \<Rightarrow> yaml_log_level Y (default_configuration B)) = Some a"
    and b: "(case Y of None \<Rightarrow> Some (if_set (ce_env R) ''DFTRACER_LOG_LEVEL'' (\<lambda>v. cf_logger_level_update (\<lambda>_. convert_logger_type v)) a)
        | Some Y \<Rightarrow> yaml_settings Y (if_set (ce_env R) ''DFTRACER_LOG_LEVEL'' (\<lambda>v. cf_logger_level_update (\<lambda>_. convert_logger_type v)) a)) = Some b"
    and d: "(let c = if_set (ce_env R) ''DFTRACER_TIME_METRIC'' (\<lambda>v. cf_time_metric_update (\<lambda>_. convert_time_metric v)) b;
        c = if_flag (ce_env R) ''DFTRACER_ENABLE'' (cf_enable_update (\<lambda>_. True)) c;
        c = (if cf_enable c then env_settings (ce_strtod R) (ce_uid R) (ce_env R) c else c)
      in derive_configurations R c) = Some c"
    using assms unfolding configure_def env_enable_def by (auto simp: Option.bind_eq_Some_conv Let_def)
  have a': "cf_pc_mode a = False"
    using a keepsD [OF keeps_pc_mode(3)] by (auto simp: default_configuration_def split: option.splits)
  have b': "cf_pc_mode b = False"
    using b a' keepsD [OF keeps_pc_mode(2)] by (auto simp: if_set_def split: option.splits)
  show thesis
    by (rule that [OF _ refl d [unfolded Let_def]]) (use b' in \<open>simp add: if_set_def if_flag_def split: option.split\<close>)
qed

text \<open>
  C29: whatever the YAML file and the environment say, a configuration that asks for the service
  names a segment, has 1 to the maximum of drain threads with a positive tick and flush age, a
  gzip level from 0 to 9 and a rollover size that is a number and not negative.
\<close>

theorem service_settings_are_usable:
  assumes "configure B R = Some c" and "cf_pc_mode c"
  shows "usable c"
proof -
  obtain c0 c1 where c: "cf_pc_mode c0 = False"
      "c1 = (if cf_enable c0 then env_settings (ce_strtod R) (ce_uid R) (ce_env R) c0 else c0)"
      "derive_configurations R c1 = Some c"
    using configure_obtain [OF assms(1)] by metis
  have "pc_ok c1" using c(1,2) pc_ok_env_settings by (simp add: pc_ok_def)
  then show ?thesis using derive_keeps [OF c(3)] assms(2) by (simp add: pc_ok_def)
qed

lemma env_pc_mode_set:
  "cf_pc_mode (env_settings strtod uid e c) =
     (case e ''DFTRACER_ENABLE_PC_MODE'' of None \<Rightarrow> cf_pc_mode c | Some v \<Rightarrow> env_flag (Some v))"
proof -
  have flag: "cf_pc_mode (if_flag e n store x) = (if env_flag (e n) then cf_pc_mode (store x) else cf_pc_mode x)" for n store x
    by (simp add: if_flag_def)
  have parts: "cf_pc_mode (env_io e x) = cf_pc_mode x" "cf_pc_mode (env_papi e x) = cf_pc_mode x"
    "cf_pc_mode (env_aggregation e x) = cf_pc_mode x" for x
    by (simp_all add: env_io_def env_papi_def env_aggregation_def Let_def flag if_set_settings split: option.split)
  have "cf_pc_mode (env_pc_output strtod e x) = cf_pc_mode x" "cf_pc_mode (env_pc_ring uid e x) = cf_pc_mode x"
    "cf_pc_mode (env_pc_consumers e x) = cf_pc_mode x" for x
    by (simp_all add: env_pc_output_def env_pc_consumers_def env_pc_ring_def Let_def if_set_settings)
  then have pc: "cf_pc_mode (env_pc_mode strtod uid e x) = cf_pc_mode x" for x
    by (simp add: env_pc_mode_def)
  have tracer: "cf_pc_mode (env_tracer e x) = cf_pc_mode x" "cf_pc_mode (env_tids e x) = cf_pc_mode x" for x
    by (simp_all add: env_tracer_def env_tids_def Let_def flag if_set_settings)
  have "cf_pc_mode (env_service strtod uid e c) =
     (case e ''DFTRACER_ENABLE_PC_MODE'' of None \<Rightarrow> cf_pc_mode c | Some v \<Rightarrow> env_flag (Some v))"
    by (simp add: env_service_def Let_def if_set_settings pc split: option.split)
  then show ?thesis
    by (simp add: env_settings_def Let_def flag parts tracer if_set_settings)
qed

text \<open>Many drain threads at least, an impossible gzip level, and the service asked for.\<close>

definition sample_env :: config_env where
  "sample_env = \<lparr>ce_env = [''DFTRACER_ENABLE'' \<mapsto> ''1'', ''DFTRACER_ENABLE_PC_MODE'' \<mapsto> ''on'',
       ''DFTRACER_PC_CONSUMER_MIN_THREADS'' \<mapsto> ''64'', ''DFTRACER_PC_COMPRESSION_LEVEL'' \<mapsto> ''12''],
     ce_nofile = None, ce_uid = 1000, ce_exists = (\<lambda>_. False), ce_load = (\<lambda>_. None), ce_strtod = (\<lambda>_. None)\<rparr>"

lemma service_settings_are_usable_witness:
  "\<exists>c. configure sample_build sample_env = Some c \<and> cf_pc_mode c \<and> usable c"
proof -
  define c1 where "c1 = env_settings (ce_strtod sample_env) 1000 (ce_env sample_env)
    ((default_configuration sample_build)\<lparr>cf_enable := True\<rparr>)"
  have eq: "configure sample_build sample_env = derive_configurations sample_env c1"
    by (simp add: configure_def env_enable_def if_set_def if_flag_def c1_def sample_env_def env_flag_def)
  have mode: "cf_pc_mode c1"
    by (simp add: c1_def env_pc_mode_set sample_env_def env_flag_def equal_nocase_def)
  obtain c where c: "derive_configurations sample_env c1 = Some c" "cf_pc_mode c"
    using mode by (cases "derive_configurations sample_env c1")
      (auto simp: derive_configurations_def Let_def sample_env_def split: if_splits)
  then show ?thesis
    using eq service_settings_are_usable [of sample_build sample_env c] by auto
qed

section \<open>The command line of a process\<close>

text \<open>How \<open>/proc\<close> gives the arguments, how the trace shows them, and which one names the program.\<close>

definition argv_bytes :: "string list \<Rightarrow> string" where
  "argv_bytes args = concat (map (\<lambda>a. a @ [NUL]) args)"

definition shown :: "string list \<Rightarrow> string" where
  "shown args = concat (map (\<lambda>a. a @ [SEPARATOR]) args)"

definition arg_name :: "string \<Rightarrow> string" where
  "arg_name a = take 127 (from_last {CHR ''/''} a)"

definition named_by :: "string list \<Rightarrow> string" where
  "named_by args = (case find program_name (map arg_name args) of
       Some n \<Rightarrow> n
     | None \<Rightarrow> if str_find ''multiprocessing'' (arg_name (last args)) \<noteq> None then ''DEFAULT-spawn'' else ''DEFAULT'')"

definition plain_arg :: "string \<Rightarrow> bool" where
  "plain_arg a \<longleftrightarrow> a \<noteq> [] \<and> NUL \<notin> set a \<and> last a \<noteq> CHR ''/''"

fun scan_args :: "string list \<Rightarrow> string \<times> bool \<Rightarrow> string \<times> bool" where
  "scan_args [] st = st"
| "scan_args (a # as) st = scan_args as (if snd st then st else (arg_name a, program_name (arg_name a)))"

lemma scan_done [simp]: "scan_args args (n, True) = (n, True)"
  by (induction args) simp_all

lemma scan_found: "find program_name (map arg_name args) = Some m \<Longrightarrow> scan_args args (n, False) = (m, True)"
  by (induction args arbitrary: n) (auto split: if_splits)

lemma scan_not_found:
  "find program_name (map arg_name args) = None \<Longrightarrow> args \<noteq> [] \<Longrightarrow> scan_args args (n, False) = (arg_name (last args), False)"
proof (induction args arbitrary: n)
  case (Cons a as)
  then show ?case by (cases as) (auto split: if_splits)
qed simp

lemma c_text_arg: "NUL \<notin> set a \<Longrightarrow> c_text (a @ NUL # xs) = a"
  by (induction a) (auto simp: c_text_def)

lemma c_text_update:
  assumes "NUL \<notin> set a" "length a < i" shows "c_text ((a @ NUL # xs)[i := x]) = a"
proof -
  obtain j where "i = length a + Suc j" using assms(2) less_imp_Suc_add by fastforce
  then show ?thesis using c_text_arg [OF assms(1)] by (simp add: list_update_append)
qed

lemma plain_basename: "plain_arg a \<Longrightarrow> posix_basename a = (from_last {CHR ''/''} a, None)"
  by (simp add: plain_arg_def posix_basename_def)

lemma step_inside: "cl_cmd st ! i \<noteq> NUL \<Longrightarrow> cmdline_step sz i st = st"
  by (simp add: cmdline_step_def)

lemma steps_inside:
  "(\<forall>i. p \<le> i \<and> i < p + n \<longrightarrow> cl_cmd st ! i \<noteq> NUL) \<Longrightarrow> fold (cmdline_step sz) [p..<p + n] st = st"
  by (induction n) (simp_all add: step_inside)

text \<open>One argument: nothing up to its zero, which then becomes a separator unless it is the last byte.\<close>

lemma step_arg:
  assumes "plain_arg a" "cl_cmd st = front @ a @ NUL # rst" "cl_last st = length front"
  shows "fold (cmdline_step sz) [length front..<length front + length a + 1] st =
    st\<lparr>cl_cmd := front @ a @ (if length front + length a + 1 < sz then SEPARATOR else NUL) # rst,
       cl_name := fst (scan_args [a] (cl_name st, cl_extracted st)),
       cl_last := length front + length a + 1,
       cl_extracted := snd (scan_args [a] (cl_name st, cl_extracted st))\<rparr>"
proof -
  have in_a: "\<forall>i. length front \<le> i \<and> i < length front + length a \<longrightarrow> cl_cmd st ! i \<noteq> NUL"
  proof (intro allI impI)
    fix i assume i: "length front \<le> i \<and> i < length front + length a"
    then obtain j where j: "i = length front + j" "j < length a" by (metis le_iff_add nat_add_left_cancel_less)
    then have "cl_cmd st ! i = a ! j" using assms(2) by (simp add: nth_append)
    moreover have "a ! j \<in> set a" using j by simp
    ultimately show "cl_cmd st ! i \<noteq> NUL" using assms(1) by (auto simp: plain_arg_def)
  qed
  have z: "cl_cmd st ! (length front + length a) = NUL"
    using assms(2) by (simp add: nth_append)
  have upd: "(front @ a @ NUL # rst)[length front + length a := c] = front @ a @ c # rst" for c
    by (simp add: list_update_append)
  have "c_text (drop (cl_last st) (cl_cmd st)) = a"
    using assms by (simp add: c_text_arg plain_arg_def)
  then have "cmdline_step sz (length front + length a) st =
    st\<lparr>cl_cmd := front @ a @ (if length front + length a + 1 < sz then SEPARATOR else NUL) # rst,
       cl_name := fst (scan_args [a] (cl_name st, cl_extracted st)),
       cl_last := length front + length a + 1,
       cl_extracted := snd (scan_args [a] (cl_name st, cl_extracted st))\<rparr>"
    using z assms(2) plain_basename [OF assms(1)]
    by (simp add: cmdline_step_def Let_def upd arg_name_def)
  then show ?thesis by (simp add: steps_inside [OF in_a])
qed

lemma steps_args:
  assumes "args \<noteq> []" "\<forall>a \<in> set args. plain_arg a" "cl_cmd st = front @ argv_bytes args @ rst"
    "cl_last st = length front" "sz = length front + length (argv_bytes args)"
  shows "\<exists>st'. fold (cmdline_step sz) [length front..<sz] st = st' \<and>
    cl_cmd st' = front @ shown (butlast args) @ last args @ NUL # rst \<and>
    (cl_name st', cl_extracted st') = scan_args args (cl_name st, cl_extracted st)"
  using assms
proof (induction args arbitrary: front st)
  case (Cons a as)
  define n where "n = length front + length a + 1"
  define st1 where "st1 = fold (cmdline_step sz) [length front..<n] st"
  have st1: "st1 = st\<lparr>cl_cmd := front @ a @ (if n < sz then SEPARATOR else NUL) # argv_bytes as @ rst,
       cl_name := fst (scan_args [a] (cl_name st, cl_extracted st)), cl_last := n,
       cl_extracted := snd (scan_args [a] (cl_name st, cl_extracted st))\<rparr>"
    unfolding st1_def n_def using Cons.prems by (subst step_arg) (auto simp: argv_bytes_def)
  have sz: "sz = n + length (argv_bytes as)" using Cons.prems by (simp add: n_def argv_bytes_def)
  have split: "[length front..<sz] = [length front..<n] @ [n..<sz]"
    using sz by (metis le_add1 upt_add_eq_append n_def add.assoc)
  show ?case
  proof (cases "as = []")
    case True
    then have "fold (cmdline_step sz) [length front..<sz] st = st1" and "sz = n"
      using sz by (simp_all add: st1_def argv_bytes_def)
    then show ?thesis using True st1 by (simp add: argv_bytes_def shown_def)
  next
    case False
    then obtain b bs where as: "as = b # bs" by (cases as) auto
    then have lt: "n < sz" using sz by (simp add: argv_bytes_def)
    have "\<exists>st'. fold (cmdline_step sz) [length (front @ a @ [SEPARATOR])..<sz] st1 = st' \<and>
        cl_cmd st' = (front @ a @ [SEPARATOR]) @ shown (butlast as) @ last as @ NUL # rst \<and>
        (cl_name st', cl_extracted st') = scan_args as (cl_name st1, cl_extracted st1)"
      using Cons.prems(2) False st1 lt sz by (intro Cons.IH) (auto simp: n_def)
    moreover have "length (front @ a @ [SEPARATOR]) = n" by (simp add: n_def)
    moreover have "fold (cmdline_step sz) [length front..<sz] st = fold (cmdline_step sz) [n..<sz] st1"
      by (simp add: split st1_def)
    moreover have "scan_args as (cl_name st1, cl_extracted st1) = scan_args (a # as) (cl_name st, cl_extracted st)"
      using st1 by simp
    ultimately show ?thesis
      using False by (simp add: shown_def)
  qed
qed simp

lemma shown_length: "args \<noteq> [] \<Longrightarrow> Suc (length (shown (butlast args)) + length (last args)) = length (argv_bytes args)"
  by (induction args) (auto simp: argv_bytes_def shown_def)

lemma shown_no_nul: "\<forall>a \<in> set args. plain_arg a \<Longrightarrow> NUL \<notin> set (shown args)"
  by (auto simp: shown_def plain_arg_def SEPARATOR_def)

text \<open>
  C31: for a process whose arguments are not empty and end in no slash, and fit the buffer, the
  command of the trace is the arguments with semicolons between them, and the program name the
  file name of the first argument that is no interpreter, helper or option.
\<close>

theorem command_line_is_read:
  assumes "args \<noteq> []" and "\<forall>a \<in> set args. plain_arg a" and "length (argv_bytes args) \<le> DFT_PATH_MAX - 2"
  shows "parse_cmdline (argv_bytes args) =
    \<lparr>ei_name = named_by args, ei_cmd = shown (butlast args) @ last args\<rparr>"
proof -
  define sz where "sz = length (argv_bytes args)"
  define rst where "rst = drop sz (''DEFAULT'' @ replicate (DFT_PATH_MAX - 7) NUL)"
  have ne: "argv_bytes args \<noteq> []" using assms(1) by (cases args) (simp_all add: argv_bytes_def)
  have small: "min (length (argv_bytes args)) DFT_PATH_MAX = sz" "min sz (DFT_PATH_MAX - 2) = sz"
    using assms(3) by (simp_all add: sz_def)
  obtain st where st: "fold (cmdline_step sz) [0..<sz]
      \<lparr>cl_cmd = argv_bytes args @ rst, cl_name = ''DEFAULT'', cl_last = 0, cl_extracted = False\<rparr> = st"
    and cmd: "cl_cmd st = shown (butlast args) @ last args @ NUL # rst"
    and name: "(cl_name st, cl_extracted st) = scan_args args (''DEFAULT'', False)"
    using steps_args [OF assms(1,2), of _ "[]" rst sz] by (auto simp: sz_def)
  define txt_len where "txt_len = length (shown (butlast args) @ last args)"
  have butl: "\<forall>a \<in> set (butlast args). plain_arg a" using assms(2) in_set_butlastD by fast
  have clean: "NUL \<notin> set (shown (butlast args) @ last args)"
    using shown_no_nul [OF butl] assms(1,2) by (auto simp: plain_arg_def)
  have "txt_len + 1 = sz"
    using shown_length [OF assms(1)] by (simp add: txt_len_def sz_def)
  then have "txt_len < DFT_PATH_MAX - 1" using assms(3) by (simp add: sz_def DFT_PATH_MAX_def)
  then have "c_text ((cl_cmd st)[DFT_PATH_MAX - 1 := NUL]) = shown (butlast args) @ last args"
    using c_text_update [OF clean] cmd by (simp add: txt_len_def)
  moreover have "(if cl_extracted st then cl_name st
      else if str_find ''multiprocessing'' (cl_name st) \<noteq> None then ''DEFAULT-spawn'' else ''DEFAULT'') = named_by args"
  proof (cases "find program_name (map arg_name args)")
    case None
    then show ?thesis using name scan_not_found [OF None assms(1)] by (simp add: named_by_def)
  next
    case (Some m)
    then show ?thesis using name scan_found [OF Some] by (simp add: named_by_def)
  qed
  moreover have tk: "take sz (argv_bytes args) = argv_bytes args" by (simp add: sz_def)
  ultimately show ?thesis
    unfolding parse_cmdline_def Let_def small tk rst_def [symmetric] st using ne by simp
qed

definition sample_args :: "string list" where
  "sample_args = [''/usr/bin/python3'', ''-u'', ''/app/train.py'', ''x'']"

lemma command_line_is_read_witness:
  "parse_cmdline (argv_bytes sample_args) =
    \<lparr>ei_name = ''train.py'', ei_cmd = ''/usr/bin/python3;-u;/app/train.py;x''\<rparr>"
proof -
  have "named_by sample_args = ''train.py''"
    by (simp add: named_by_def sample_args_def program_name_def arg_name_def from_last_def str_find_def)
  moreover have "length (argv_bytes sample_args) \<le> DFT_PATH_MAX - 2"
    by (simp add: argv_bytes_def sample_args_def DFT_PATH_MAX_def)
  ultimately show ?thesis
    using command_line_is_read [of sample_args]
    by (simp add: sample_args_def plain_arg_def shown_def SEPARATOR_def)
qed

text \<open>
  \<open>basename\<close> writes into the command it is given: a directory run as a program, named with a
  slash, cuts the command there.
\<close>

lemma directory_argument_cuts_command:
  "ei_cmd (parse_cmdline (argv_bytes [''python3'', ''/app/'', ''x''])) = ''python3;/app''"
proof -
  have u: "[0..<17] = [0, 1, 2, 3, 4, 5, 6, 7, 8, 9, 10, 11, 12, 13, 14, 15, 16 :: nat]"
    by (simp add: upt_rec)
  show ?thesis
    by (simp add: parse_cmdline_def argv_bytes_def DFT_PATH_MAX_def Let_def u cmdline_step_def posix_basename_def
        program_name_def from_last_def str_find_def c_text_def SEPARATOR_def)
qed

end
