(* ===== verification/DFT_Logger.thy ===== *)
theory DFT_Logger
  imports Local_Buffer Md5 Path_Filter Configuration
begin

text \<open>
  \<open>DFTLogger\<close> (\<open>core/df_logger.h\<close>), the one place all events of a process go through: it
  numbers them, finds their thread, replaces names by hashes that it records once per process,
  and at the end describes the run in one more event. What it asks of its \<open>BufferManager\<close> is
  kept as the list of calls.
\<close>

section \<open>State\<close>

datatype manager_call =
  Mgr_initialize string string
| Mgr_log log_call
| Mgr_set_app_name string
| Mgr_set_rank u32
| Mgr_flush
| Mgr_finalize u32 u32

record df_logger =
  lg_tids :: bool
  lg_include_metadata :: bool
  lg_config :: configuration
  lg_is_init :: bool
  lg_process_id :: u32
  lg_computed_hash :: "string \<Rightarrow> string option"
  lg_index :: u32
  lg_has_entry :: bool
  lg_mpi_event :: bool
  lg_manager :: bool  \<comment> \<open>\<open>buffer_manager\<close> is not null\<close>
  lg_calls :: "manager_call list"
  lg_used_layers :: u32
  lg_app_metadata :: metadata
  lg_used_extra :: "string list"
  lg_runtime_bind :: bool
  lg_runtime_log_file :: string

definition new_logger :: "configuration \<Rightarrow> df_logger" where
  "new_logger config = \<lparr>lg_tids = cf_tids config, lg_include_metadata = cf_metadata config,
     lg_config = config, lg_is_init = True, lg_process_id = - 1, lg_computed_hash = (\<lambda>_. None), lg_index = 0,
     lg_has_entry = False, lg_mpi_event = False, lg_manager = True, lg_calls = [], lg_used_layers = 0,
     lg_app_metadata = [], lg_used_extra = [], lg_runtime_bind = False, lg_runtime_log_file = []\<rparr>"

text \<open>
  What a call finds outside: ids, the time of day, the rank while MPI is up, whether the build has
  MPI, and the configuration's own entries of the last event.
\<close>

record logger_env =
  le_gettid :: u64
  le_getpid :: u32
  le_sec :: u64
  le_usec :: u64
  le_mpi :: bool
  le_rank :: "u32 option"
  le_forked :: bool  \<comment> \<open>\<open>dftracer_mpi_fork_guard\<close>\<close>
  le_hostname :: string
  le_cwd :: "string option"
  le_date :: string
  le_ppid :: u32
  le_version :: string
  le_build :: build_options

definition METADATA_NAME_FILE_HASH :: string where "METADATA_NAME_FILE_HASH = ''FH''"
definition METADATA_NAME_HOSTNAME_HASH :: string where "METADATA_NAME_HOSTNAME_HASH = ''HH''"
definition METADATA_NAME_STRING_HASH :: string where "METADATA_NAME_STRING_HASH = ''SH''"
definition METADATA_NAME_PROCESS :: string where "METADATA_NAME_PROCESS = ''PR''"
definition METADATA_NAME_PROCESS_NAME :: string where "METADATA_NAME_PROCESS_NAME = ''process_name''"
definition METADATA_NAME_THREAD_NAME :: string where "METADATA_NAME_THREAD_NAME = ''thread_name''"
definition CUSTOM_METADATA :: string where "CUSTOM_METADATA = ''CM''"

abbreviation TYPE_DFTRACER :: byte where "TYPE_DFTRACER \<equiv> 1"

definition put_call :: "manager_call \<Rightarrow> df_logger \<Rightarrow> df_logger" where
  "put_call c lg = lg\<lparr>lg_calls := lg_calls lg @ [c]\<rparr>"

text \<open>A call through \<open>buffer_manager\<close> without a check: \<open>None\<close> when it is null.\<close>

definition call_manager :: "manager_call \<Rightarrow> df_logger \<Rightarrow> df_logger option" where
  "call_manager c lg = (if lg_manager lg then Some (put_call c lg) else None)"

section \<open>Simple operations\<close>

definition logger_reinitialize :: "df_logger \<Rightarrow> df_logger" where
  "logger_reinitialize lg = lg\<lparr>lg_index := 0\<rparr>"

definition add_app_metadata_int :: "string \<Rightarrow> u64 \<Rightarrow> df_logger \<Rightarrow> df_logger" where
  "add_app_metadata_int key v lg =
     lg\<lparr>lg_app_metadata := metadata_insert_or_assign key MT_KEY (Any_signed v) (lg_app_metadata lg)\<rparr>"

definition add_app_metadata_string :: "string \<Rightarrow> string \<Rightarrow> df_logger \<Rightarrow> df_logger" where
  "add_app_metadata_string key v lg =
     lg\<lparr>lg_app_metadata := metadata_insert_or_assign key MT_KEY (Any_string v) (lg_app_metadata lg)\<rparr>"

definition mark_used :: "string \<Rightarrow> df_logger \<Rightarrow> df_logger" where
  "mark_used name lg =
     (if name \<in> set (lg_used_extra lg) then lg else lg\<lparr>lg_used_extra := lg_used_extra lg @ [name]\<rparr>)"

definition set_runtime_info :: "bool \<Rightarrow> string \<Rightarrow> df_logger \<Rightarrow> df_logger" where
  "set_runtime_info bound log_file lg = lg\<lparr>lg_runtime_bind := bound, lg_runtime_log_file := log_file\<rparr>"

definition has_hash :: "string \<Rightarrow> df_logger \<Rightarrow> string option" where
  "has_hash key lg = lg_computed_hash lg key"

definition insert_hash :: "string \<Rightarrow> string \<Rightarrow> df_logger \<Rightarrow> df_logger" where
  "insert_hash key hash lg = lg\<lparr>lg_computed_hash := (lg_computed_hash lg)(key \<mapsto> hash)\<rparr>"

definition clear_hash_cache :: "df_logger \<Rightarrow> df_logger" where
  "clear_hash_cache lg = lg\<lparr>lg_computed_hash := (\<lambda>_. None)\<rparr>"

definition logger_flush :: "df_logger \<Rightarrow> df_logger" where
  "logger_flush lg = (if lg_manager lg then put_call Mgr_flush lg else lg)"

definition get_time :: "logger_env \<Rightarrow> df_logger \<Rightarrow> u64" where
  "get_time E lg = (case cf_time_metric (lg_config lg) of
     TIME_METRIC_NS \<Rightarrow> le_sec E * 1000000000 + le_usec E * 1000
   | TIME_METRIC_MS \<Rightarrow> le_sec E * 1000 + le_usec E div 1000
   | TIME_METRIC_SEC \<Rightarrow> le_sec E
   | TIME_METRIC_US \<Rightarrow> le_sec E * 1000000 + le_usec E)"

definition ignore_chars :: "char \<Rightarrow> bool" where
  "ignore_chars c \<longleftrightarrow> of_char c < (0x20 :: nat) \<or>
     c \<in> {CHR ''('', CHR '')'', CHR 0x5C, CHR 0x22, CHR 0x27, CHR ''|''}"

text \<open>\<open>fix_str\<close> of a C string, within its buffer.\<close>

definition fix_str :: "string \<Rightarrow> string" where
  "fix_str s = map (\<lambda>c. if ignore_chars c then CHR '' '' else c) s"

section \<open>Hashes\<close>

definition thread_of :: "logger_env \<Rightarrow> df_logger \<Rightarrow> u64" where
  "thread_of E lg = (if lg_tids lg then le_gettid E else 0)"

definition metadata_record :: "string \<Rightarrow> string \<Rightarrow> string \<Rightarrow> u32 \<Rightarrow> u64 \<Rightarrow> bool \<Rightarrow> manager_call" where
  "metadata_record key val name pid tid is_string =
     Mgr_log (Log_Metadata (Some key) (Some val) (Some name) TYPE_DFTRACER pid tid is_string)"

definition hash_and_store_str :: "logger_env \<Rightarrow> string \<Rightarrow> string \<Rightarrow> df_logger \<Rightarrow> (string \<times> df_logger) option" where
  "hash_and_store_str E file name lg =
     (case has_hash file lg of
        Some h \<Rightarrow> Some (h, lg)
      | None \<Rightarrow>
          (let h = get_hash file; lg = insert_hash file h lg in
           map_option (Pair h) (call_manager
             (metadata_record (fix_str file) h name (lg_process_id lg) (thread_of E lg) True) lg)))"

text \<open>A null name has no hash; a name that does not fit \<open>PATH_MAX\<close> overflows the buffer.\<close>

definition hash_and_store ::
  "logger_env \<Rightarrow> string option \<Rightarrow> string \<Rightarrow> df_logger \<Rightarrow> (string option \<times> df_logger) option" where
  "hash_and_store E filename name lg =
     (case filename of
        None \<Rightarrow> Some (None, lg)
      | Some f \<Rightarrow>
          if length f \<ge> PATH_MAX then None
          else map_option (\<lambda>(h, lg). (Some h, lg)) (hash_and_store_str E f name lg))"

section \<open>Events\<close>

definition handle_mpi :: "logger_env \<Rightarrow> u64 \<Rightarrow> df_logger \<Rightarrow> df_logger option" where
  "handle_mpi E tid lg =
     (if \<not> le_mpi E \<or> lg_mpi_event lg \<or> le_forked E then Some lg
      else (case le_rank E of
          None \<Rightarrow> Some lg
        | Some rank \<Rightarrow> do {
            let lg = (if lg_manager lg then put_call (Mgr_set_rank rank) lg else lg);
            let text = show_int (sint rank);
            lg \<leftarrow> call_manager (metadata_record ''rank'' text METADATA_NAME_PROCESS (lg_process_id lg) tid True) lg;
            lg \<leftarrow> call_manager (metadata_record (''Rank '' @ text) METADATA_NAME_PROCESS_NAME
              METADATA_NAME_PROCESS_NAME (lg_process_id lg) tid True) lg;
            Some (lg\<lparr>lg_mpi_event := True\<rparr>) }))"

text \<open>The thread of an event: its \<open>tid\<close> entry, in a build without MPI; \<open>None\<close> when that is no \<open>ThreadID\<close>.\<close>

definition event_tid :: "logger_env \<Rightarrow> metadata option \<Rightarrow> df_logger \<Rightarrow> (u64 \<times> metadata option) option" where
  "event_tid E md lg =
     (if \<not> lg_tids lg then Some (0, md)
      else if le_mpi E then Some (le_gettid E, md)
      else (case md of
          None \<Rightarrow> Some (le_gettid E, md)
        | Some m \<Rightarrow>
            (case metadata_find ''tid'' m of
               None \<Rightarrow> Some (le_gettid E, md)
             | Some (_, Any_unsigned tid) \<Rightarrow> Some (tid, Some (metadata_erase ''tid'' m))
             | Some _ \<Rightarrow> None)))"

definition mark_layer :: "byte \<Rightarrow> df_logger \<Rightarrow> df_logger" where
  "mark_layer ty lg =
     (if ty \<noteq> TYPE_DFTRACER \<and> int (unat ty) < TRACE_TYPE_MAX
      then lg\<lparr>lg_used_layers := lg_used_layers lg OR push_bit (unat ty) 1\<rparr> else lg)"

definition logger_log ::
  "logger_env \<Rightarrow> string option \<Rightarrow> string option \<Rightarrow> byte \<Rightarrow> u64 \<Rightarrow> u64 \<Rightarrow> metadata option \<Rightarrow> df_logger
     \<Rightarrow> df_logger option" where
  "logger_log E name category ty start duration md lg = do {
     (tid, md) \<leftarrow> event_tid E md lg;
     let lg = lg\<lparr>lg_index := lg_index lg + 1\<rparr>;
     let index = lg_index lg;
     lg \<leftarrow> handle_mpi E tid lg;
     Some (if \<not> lg_manager lg then lg
       else mark_layer ty (put_call (Mgr_log (Log_Data index name category ty start duration md (lg_process_id lg) tid))
         (lg\<lparr>lg_has_entry := True\<rparr>))) }"

definition logger_log_metadata :: "logger_env \<Rightarrow> string \<Rightarrow> string \<Rightarrow> byte \<Rightarrow> df_logger \<Rightarrow> df_logger option" where
  "logger_log_metadata E key val ty lg = do {
     lg \<leftarrow> handle_mpi E (thread_of E lg) lg;
     call_manager (Mgr_log (Log_Metadata (Some key) (Some val) (Some CUSTOM_METADATA) ty (lg_process_id lg)
       (thread_of E lg) True)) lg }"

definition logger_log_record :: "logger_env \<Rightarrow> string \<Rightarrow> metadata \<Rightarrow> byte \<Rightarrow> df_logger \<Rightarrow> df_logger" where
  "logger_log_record E record_name fs ty lg =
     (if lg_manager lg
      then put_call (Mgr_log (Log_Record (Some record_name) (Some fs) ty (lg_process_id lg) (thread_of E lg))) lg
      else lg)"

section \<open>The last event\<close>

definition used_names :: "df_logger \<Rightarrow> string list" where
  "used_names lg =
     map (\<lambda>t. trace_event_type_name (convert_trace_event_type (int t)))
       (filter (\<lambda>t. bit (lg_used_layers lg) t) [0..<nat TRACE_TYPE_MAX]) @ lg_used_extra lg"

definition used_json :: "df_logger \<Rightarrow> string" where
  "used_json lg = ''{'' @ joined (map (\<lambda>n. json_quoted n @ '':1'') (used_names lg)) @ ''}''"

fun app_value :: "any_value \<Rightarrow> string" where
  "app_value (Any_signed v) = show_i64 v"
| "app_value (Any_string s) = json_quoted s"
| "app_value _ = []"

definition app_json :: "metadata \<Rightarrow> string" where
  "app_json md = ''{'' @ joined (map (\<lambda>(key, _, v). json_quoted key @ '':'' @ app_value v) md) @ ''}''"

definition add_end_event_metadata :: "logger_env \<Rightarrow> df_logger \<Rightarrow> metadata \<Rightarrow> metadata" where
  "add_end_event_metadata E lg md =
     metadata_insert_or_assign ''app'' MT_KEY (Any_raw_json (app_json (lg_app_metadata lg)))
       (metadata_insert_or_assign ''used'' MT_KEY (Any_raw_json (used_json lg))
         (populate_metadata (le_build E) (lg_config lg) (lg_runtime_bind lg) (lg_runtime_log_file lg) md))"

definition logger_finalize :: "logger_env \<Rightarrow> df_logger \<Rightarrow> df_logger" where
  "logger_finalize E lg =
     (if lg_manager lg
      then (let md = add_end_event_metadata E lg [(''num_events'', MT_KEY, Any_signed (scast (lg_index lg)))];
                lg = lg\<lparr>lg_index := lg_index lg + 1\<rparr>;
                lg = put_call (Mgr_log (Log_Data (lg_index lg) (Some ''end'') (Some ''dftracer'') TYPE_DFTRACER
                  (get_time E lg) 0 (Some md) (lg_process_id lg) (le_gettid E))) lg;
                lg = put_call (Mgr_finalize (lg_index lg) (lg_process_id lg)) lg
            in clear_hash_cache (lg\<lparr>lg_manager := False, lg_is_init := False\<rparr>))
      else clear_hash_cache lg)"

section \<open>Starting a trace\<close>

definition start_metadata :: "logger_env \<Rightarrow> string \<Rightarrow> string \<Rightarrow> df_logger \<Rightarrow> (metadata \<times> df_logger) option" where
  "start_metadata E exec_name cmd lg = do {
     (md, lg) \<leftarrow> (case le_cwd E of
         None \<Rightarrow> Some ([], lg)
       | Some cwd \<Rightarrow> map_option (\<lambda>(h, lg). (metadata_insert_or_assign ''cwd'' MT_KEY (Any_hash h) [], lg))
           (hash_and_store E (Some cwd) METADATA_NAME_FILE_HASH lg));
     (cmd_hash, lg) \<leftarrow> hash_and_store E (Some (fix_str cmd)) METADATA_NAME_STRING_HASH lg;
     (exec_hash, lg) \<leftarrow> hash_and_store E (Some (fix_str exec_name)) METADATA_NAME_STRING_HASH lg;
     let md = metadata_insert_or_assign ''version'' MT_KEY (Any_cstr (Some (le_version E))) md;
     let md = metadata_insert_or_assign ''exec_hash'' MT_KEY (Any_hash exec_hash) md;
     let md = metadata_insert_or_assign ''cmd_hash'' MT_KEY (Any_hash cmd_hash) md;
     let md = metadata_insert_or_assign ''date'' MT_KEY (Any_string (le_date E)) md;
     let md = metadata_insert_or_assign ''ppid'' MT_KEY (Any_signed (scast (le_ppid E))) md;
     Some (md, put_call (Mgr_set_app_name (fix_str exec_name)) lg) }"

definition log_start :: "logger_env \<Rightarrow> string \<Rightarrow> string \<Rightarrow> df_logger \<Rightarrow> df_logger option" where
  "log_start E exec_name cmd lg = do {
     (md, lg) \<leftarrow> (if lg_include_metadata lg
       then map_option (\<lambda>(md, lg). (Some md, lg)) (start_metadata E exec_name cmd lg) else Some (None, lg));
     logger_log E (Some ''start'') (Some ''dftracer'') TYPE_DFTRACER (get_time E lg) 0 md lg }"

definition update_log_file :: "logger_env \<Rightarrow> string \<Rightarrow> string \<Rightarrow> string \<Rightarrow> df_logger \<Rightarrow> df_logger option" where
  "update_log_file E log_file exec_name cmd lg = do {
     let lg = lg\<lparr>lg_process_id := le_getpid E\<rparr>;
     let pid = lg_process_id lg;
     let tid = thread_of E lg;
     let hostname_hash = get_hash (le_hostname E);
     let lg = insert_hash (le_hostname E) hostname_hash lg;
     lg \<leftarrow> (if \<not> lg_manager lg then Some lg else do {
       let lg = put_call (Mgr_initialize log_file hostname_hash) lg;
       let lg = put_call (metadata_record (fix_str (le_hostname E)) hostname_hash METADATA_NAME_HOSTNAME_HASH pid tid True) lg;
       let lg = put_call (metadata_record (show_int (sint pid)) METADATA_NAME_THREAD_NAME METADATA_NAME_THREAD_NAME pid tid True) lg;
       let lg = put_call (metadata_record ''time_metric'' (time_metric_name (cf_time_metric (lg_config lg))) CUSTOM_METADATA pid tid True) lg;
       log_start E exec_name cmd lg });
     Some (lg\<lparr>lg_is_init := True\<rparr>) }"

section \<open>What a process may do with its logger\<close>

text \<open>
  One run of a process without a fork: \<open>DFTracerCore\<close> opens the trace once, and its threads then
  call the operations in any order.
\<close>

inductive logger_run :: "df_logger \<Rightarrow> bool" where
  opened: "update_log_file E log_file exec_name cmd (new_logger config) = Some lg \<Longrightarrow> logger_run lg"
| hashed: "logger_run lg \<Longrightarrow> hash_and_store E f name lg = Some (h, lg') \<Longrightarrow> logger_run lg'"
| logged: "logger_run lg \<Longrightarrow> logger_log E name category ty start duration md lg = Some lg' \<Longrightarrow> logger_run lg'"
| described: "logger_run lg \<Longrightarrow> logger_log_metadata E key val ty lg = Some lg' \<Longrightarrow> logger_run lg'"
| recorded: "logger_run lg \<Longrightarrow> logger_run (logger_log_record E name fs ty lg)"
| app_int: "logger_run lg \<Longrightarrow> logger_run (add_app_metadata_int key v lg)"
| app_string: "logger_run lg \<Longrightarrow> logger_run (add_app_metadata_string key s lg)"
| used: "logger_run lg \<Longrightarrow> logger_run (mark_used name lg)"
| runtime: "logger_run lg \<Longrightarrow> logger_run (set_runtime_info b log_file lg)"
| flushed: "logger_run lg \<Longrightarrow> logger_run (logger_flush lg)"
| finalized: "logger_run lg \<Longrightarrow> logger_run (logger_finalize E lg)"

text \<open>What was said to the file that is open: the calls since the last \<open>initialize\<close>.\<close>

fun opens_file :: "manager_call \<Rightarrow> bool" where
  "opens_file (Mgr_initialize f h) = True"
| "opens_file _ = False"

definition this_file :: "manager_call list \<Rightarrow> manager_call list" where
  "this_file cs = rev (takeWhile (\<lambda>c. \<not> opens_file c) (rev cs))"

lemma this_file_snoc [simp]: "this_file (cs @ [c]) = (if opens_file c then [] else this_file cs @ [c])"
  by (simp add: this_file_def)

lemma this_file_two [simp]:
  "this_file (cs @ [c, d]) = (if opens_file d then [] else if opens_file c then [d] else this_file cs @ [c, d])"
  by (simp add: this_file_def)

definition defines_name :: "df_logger \<Rightarrow> string \<Rightarrow> string \<Rightarrow> bool" where
  "defines_name lg key h \<longleftrightarrow>
     (\<exists>name pid tid. metadata_record (fix_str key) h name pid tid True \<in> set (this_file (lg_calls lg)))"

fun data_index :: "manager_call \<Rightarrow> u32 list" where
  "data_index (Mgr_log (Log_Data i n c ty s d m p t)) = [i]"
| "data_index _ = []"

definition data_indexes :: "df_logger \<Rightarrow> u32 list" where
  "data_indexes lg = concat (map data_index (this_file (lg_calls lg)))"

text \<open>The first \<open>k\<close> numbers of a trace file.\<close>

definition numbers :: "nat \<Rightarrow> u32 list" where
  "numbers k = map (\<lambda>n. of_nat (Suc n)) [0..<k]"

lemma numbers_Suc: "numbers k @ [of_nat k + 1] = numbers (Suc k)"
  by (simp add: numbers_def add.commute)

definition names_defined :: "df_logger \<Rightarrow> bool" where
  "names_defined lg \<longleftrightarrow> (\<forall>key h. lg_computed_hash lg key = Some h \<longrightarrow> h = get_hash key \<and> defines_name lg key h)"

definition numbered :: "df_logger \<Rightarrow> bool" where
  "numbered lg \<longleftrightarrow> (\<exists>k. data_indexes lg = numbers k \<and> (lg_manager lg \<longrightarrow> lg_index lg = of_nat k))"

section \<open>Calls that neither open a file nor log an event\<close>

definition quiet :: "df_logger \<Rightarrow> df_logger \<Rightarrow> bool" where
  "quiet lg lg' \<longleftrightarrow> lg_computed_hash lg' = lg_computed_hash lg \<and> lg_index lg' = lg_index lg \<and>
     lg_manager lg' = lg_manager lg \<and>
     (\<exists>cs. lg_calls lg' = lg_calls lg @ cs \<and> (\<forall>c \<in> set cs. \<not> opens_file c \<and> data_index c = []))"

lemma quiet_same: "lg_computed_hash lg' = lg_computed_hash lg \<Longrightarrow> lg_index lg' = lg_index lg \<Longrightarrow>
    lg_manager lg' = lg_manager lg \<Longrightarrow> lg_calls lg' = lg_calls lg \<Longrightarrow> quiet lg lg'"
  by (simp add: quiet_def)

lemma quiet_trans: "quiet a b \<Longrightarrow> quiet b c \<Longrightarrow> quiet a c"
  by (auto simp: quiet_def)

lemma this_file_quiet:
  "\<forall>c \<in> set cs. \<not> opens_file c \<Longrightarrow> this_file (ds @ cs) = this_file ds @ cs"
  by (induction cs rule: rev_induct) (simp_all flip: append_assoc)

lemma put_call_simps [simp]:
  "lg_computed_hash (put_call c lg) = lg_computed_hash lg" "lg_index (put_call c lg) = lg_index lg"
  "lg_manager (put_call c lg) = lg_manager lg" "lg_calls (put_call c lg) = lg_calls lg @ [c]"
  "lg_tids (put_call c lg) = lg_tids lg" "lg_process_id (put_call c lg) = lg_process_id lg"
  "lg_include_metadata (put_call c lg) = lg_include_metadata lg" "lg_config (put_call c lg) = lg_config lg"
  "lg_mpi_event (put_call c lg) = lg_mpi_event lg" "lg_used_layers (put_call c lg) = lg_used_layers lg"
  by (simp_all add: put_call_def)

lemma metadata_record_quiet [simp]:
  "opens_file (metadata_record a b c d e f) = False" "data_index (metadata_record a b c d e f) = []"
  by (simp_all add: metadata_record_def)

lemma quiet_put: "\<not> opens_file c \<Longrightarrow> data_index c = [] \<Longrightarrow> quiet lg (put_call c lg)"
  by (simp add: quiet_def)

lemma quiet_call: "call_manager c lg = Some lg' \<Longrightarrow> \<not> opens_file c \<Longrightarrow> data_index c = [] \<Longrightarrow> quiet lg lg'"
  by (auto simp: call_manager_def quiet_put split: if_splits)

lemma quiet_names: "names_defined lg \<Longrightarrow> quiet lg lg' \<Longrightarrow> names_defined lg'"
  by (fastforce simp: names_defined_def defines_name_def quiet_def this_file_quiet)

lemma quiet_data: "quiet lg lg' \<Longrightarrow> data_indexes lg' = data_indexes lg"
  by (auto simp: quiet_def data_indexes_def this_file_quiet)

lemma quiet_numbered: "numbered lg \<Longrightarrow> quiet lg lg' \<Longrightarrow> numbered lg'"
  using quiet_data [of lg lg'] by (auto simp: numbered_def quiet_def)

lemma handle_mpi_quiet: "handle_mpi E tid lg = Some lg' \<Longrightarrow> quiet lg lg'"
  by (auto simp: handle_mpi_def quiet_def call_manager_def Let_def split: if_splits option.splits)

lemma log_metadata_quiet: "logger_log_metadata E key val ty lg = Some lg' \<Longrightarrow> quiet lg lg'"
  by (auto simp: logger_log_metadata_def Option.bind_eq_Some_conv
      intro: quiet_trans [OF handle_mpi_quiet quiet_call])

lemma log_record_quiet: "quiet lg (logger_log_record E name fs ty lg)"
  by (simp add: logger_log_record_def quiet_put quiet_same)

lemma flush_quiet: "quiet lg (logger_flush lg)"
  by (simp add: logger_flush_def quiet_put quiet_same)

lemma setters_quiet:
  "quiet lg (add_app_metadata_int key v lg)" "quiet lg (add_app_metadata_string key s lg)"
  "quiet lg (mark_used name lg)" "quiet lg (set_runtime_info b log_file lg)"
  by (simp_all add: quiet_def add_app_metadata_int_def add_app_metadata_string_def mark_used_def set_runtime_info_def)

section \<open>Names are defined and events numbered\<close>

lemma hash_str_spec:
  assumes "hash_and_store_str E f name lg = Some (h, lg')" "names_defined lg"
  shows "names_defined lg' \<and> h = get_hash f \<and> lg_computed_hash lg' f = Some h \<and>
    data_indexes lg' = data_indexes lg \<and> lg_index lg' = lg_index lg \<and> lg_manager lg' = lg_manager lg"
proof (cases "has_hash f lg")
  case None
  define c where "c = metadata_record (fix_str f) (get_hash f) name (lg_process_id lg) (thread_of E lg) True"
  have lg': "lg_manager lg" "h = get_hash f" "lg' = put_call c (insert_hash f h lg)"
    using assms(1) None
    by (auto simp: hash_and_store_str_def c_def call_manager_def insert_hash_def thread_of_def Let_def split: if_splits)
  have c: "\<not> opens_file c" "data_index c = []" by (simp_all add: c_def)
  have "names_defined lg'"
    using assms(2) lg' c unfolding names_defined_def defines_name_def insert_hash_def
    by (auto simp: c_def) blast
  then show ?thesis using lg' c by (simp add: insert_hash_def data_indexes_def)
next
  case (Some g)
  then show ?thesis using assms by (auto simp: hash_and_store_str_def names_defined_def has_hash_def)
qed

lemma hash_and_store_spec:
  assumes "hash_and_store E f name lg = Some (h, lg')" "names_defined lg"
  shows "names_defined lg' \<and> h = map_option get_hash f \<and>
    data_indexes lg' = data_indexes lg \<and> lg_index lg' = lg_index lg \<and> lg_manager lg' = lg_manager lg"
  using assms hash_str_spec [of E _ name lg _ lg']
  by (auto simp: hash_and_store_def split: option.splits if_splits)

lemma logger_log_spec:
  assumes "logger_log E name category ty start duration md lg = Some lg'"
  shows "lg_computed_hash lg' = lg_computed_hash lg \<and> lg_manager lg' = lg_manager lg \<and>
    lg_index lg' = lg_index lg + 1 \<and>
    (\<exists>cs. lg_calls lg' = lg_calls lg @ cs \<and> (\<forall>c \<in> set cs. \<not> opens_file c) \<and>
       concat (map data_index cs) = (if lg_manager lg then [lg_index lg + 1] else []))"
proof -
  obtain tid md1 lg1 where ev: "event_tid E md lg = Some (tid, md1)"
    and mpi: "handle_mpi E tid (lg\<lparr>lg_index := lg_index lg + 1\<rparr>) = Some lg1"
    and lg': "lg' = (if \<not> lg_manager lg1 then lg1
       else mark_layer ty (put_call (Mgr_log (Log_Data (lg_index lg + 1) name category ty start duration md1
         (lg_process_id lg1) tid)) (lg1\<lparr>lg_has_entry := True\<rparr>)))"
    using assms by (auto simp: logger_log_def Let_def Option.bind_eq_Some_conv)
  from handle_mpi_quiet [OF mpi] obtain cs where q: "lg_computed_hash lg1 = lg_computed_hash lg"
      "lg_index lg1 = lg_index lg + 1" "lg_manager lg1 = lg_manager lg" "lg_calls lg1 = lg_calls lg @ cs"
      "\<forall>c \<in> set cs. \<not> opens_file c \<and> data_index c = []"
    by (auto simp: quiet_def)
  have e: "concat (map data_index cs) = []" using q(5) by simp
  show ?thesis using lg' q e by (auto simp: mark_layer_def)
qed

lemma logger_log_names:
  "names_defined lg \<Longrightarrow> logger_log E name category ty start duration md lg = Some lg' \<Longrightarrow> names_defined lg'"
  using logger_log_spec [of E name category ty start duration md lg lg']
  by (fastforce simp: names_defined_def defines_name_def this_file_quiet)

lemma logger_log_numbered:
  assumes "numbered lg" "logger_log E name category ty start duration md lg = Some lg'"
  shows "numbered lg'"
proof -
  obtain cs where sp: "lg_manager lg' = lg_manager lg" "lg_index lg' = lg_index lg + 1"
      "lg_calls lg' = lg_calls lg @ cs" "\<forall>c \<in> set cs. \<not> opens_file c"
      "concat (map data_index cs) = (if lg_manager lg then [lg_index lg + 1] else [])"
    using logger_log_spec [OF assms(2)] by blast
  obtain k where k: "data_indexes lg = numbers k" "lg_manager lg \<longrightarrow> lg_index lg = of_nat k"
    using assms(1) by (auto simp: numbered_def)
  have d: "data_indexes lg' = data_indexes lg @ (if lg_manager lg then [lg_index lg + 1] else [])"
    using sp by (simp add: data_indexes_def this_file_quiet)
  show ?thesis
  proof (cases "lg_manager lg")
    case True
    then have "data_indexes lg' = numbers (Suc k) \<and> lg_index lg' = of_nat (Suc k)"
      using d k sp numbers_Suc [of k] by (simp add: add.commute)
    then show ?thesis unfolding numbered_def by blast
  next
    case False
    then show ?thesis using d k sp by (auto simp: numbered_def)
  qed
qed

definition sound :: "df_logger \<Rightarrow> bool" where
  "sound lg \<longleftrightarrow> names_defined lg \<and> numbered lg"

lemma sound_quiet: "sound lg \<Longrightarrow> quiet lg lg' \<Longrightarrow> sound lg'"
  unfolding sound_def using quiet_names quiet_numbered by blast

lemma sound_log: "sound lg \<Longrightarrow> logger_log E name category ty start duration md lg = Some lg' \<Longrightarrow> sound lg'"
  using logger_log_names logger_log_numbered unfolding sound_def by blast

lemma sound_hash: "sound lg \<Longrightarrow> hash_and_store E f name lg = Some (h, lg') \<Longrightarrow> sound lg'"
  using hash_and_store_spec [of E f name lg h lg'] by (auto simp: sound_def numbered_def)

lemma sound_start_metadata:
  assumes "start_metadata E exec_name cmd lg = Some (md, lg')" "sound lg"
  shows "sound lg'"
proof -
  obtain md0 lg1 h2 lg2 h3 lg3 where
    1: "(case le_cwd E of None \<Rightarrow> Some ([], lg)
       | Some cwd \<Rightarrow> map_option (\<lambda>(h, lg). (metadata_insert_or_assign ''cwd'' MT_KEY (Any_hash h) [], lg))
           (hash_and_store E (Some cwd) METADATA_NAME_FILE_HASH lg)) = Some (md0, lg1)"
    and 2: "hash_and_store E (Some (fix_str cmd)) METADATA_NAME_STRING_HASH lg1 = Some (h2, lg2)"
    and 3: "hash_and_store E (Some (fix_str exec_name)) METADATA_NAME_STRING_HASH lg2 = Some (h3, lg3)"
    and lg': "lg' = put_call (Mgr_set_app_name (fix_str exec_name)) lg3"
    using assms(1) by (auto simp: start_metadata_def Let_def Option.bind_eq_Some_conv)
  have "sound lg1" using 1 assms(2) sound_hash by (auto split: option.splits)
  then have "sound lg3" using 2 3 sound_hash by blast
  then show ?thesis unfolding lg' by (rule sound_quiet) (simp add: quiet_put)
qed

text \<open>The open file starts with the records that name the host.\<close>

lemma sound_opened:
  assumes "\<And>key. key \<noteq> le_hostname E \<Longrightarrow> lg_computed_hash lg key = None"
    and "lg_computed_hash lg (le_hostname E) = Some (get_hash (le_hostname E))" "lg_index lg = 0"
  shows "sound (put_call (metadata_record (fix_str (le_hostname E)) (get_hash (le_hostname E)) n pid tid True)
    (put_call (Mgr_initialize f hh) lg))" (is "sound ?lg")
proof -
  have "defines_name ?lg (le_hostname E) (get_hash (le_hostname E))"
    by (auto simp: defines_name_def)
  then have "names_defined ?lg"
    using assms(1,2) by (auto simp: names_defined_def) (metis option.distinct(1) option.inject)+
  moreover have "numbered ?lg"
    using assms(3) by (auto simp: numbered_def data_indexes_def numbers_def intro: exI [of _ 0])
  ultimately show ?thesis by (simp add: sound_def)
qed

lemma sound_log_start:
  assumes "sound lg" "log_start E exec_name cmd lg = Some lg'" shows "sound lg'"
  using assms by (auto simp: log_start_def Option.bind_eq_Some_conv split: if_splits
      intro: sound_log sound_start_metadata)

text \<open>The logger once the file is open and the host, the process and the time unit are recorded.\<close>

definition host_recorded :: "logger_env \<Rightarrow> string \<Rightarrow> df_logger \<Rightarrow> df_logger" where
  "host_recorded E log_file lg =
     put_call (metadata_record (fix_str (le_hostname E)) (get_hash (le_hostname E)) METADATA_NAME_HOSTNAME_HASH
         (le_getpid E) (thread_of E lg) True)
       (put_call (Mgr_initialize log_file (get_hash (le_hostname E)))
         (insert_hash (le_hostname E) (get_hash (le_hostname E)) (lg\<lparr>lg_process_id := le_getpid E\<rparr>)))"

definition file_opened :: "logger_env \<Rightarrow> string \<Rightarrow> df_logger \<Rightarrow> df_logger" where
  "file_opened E log_file lg =
     put_call (metadata_record ''time_metric'' (time_metric_name (cf_time_metric (lg_config lg))) CUSTOM_METADATA
         (le_getpid E) (thread_of E lg) True)
       (put_call (metadata_record (show_int (sint (le_getpid E))) METADATA_NAME_THREAD_NAME METADATA_NAME_THREAD_NAME
           (le_getpid E) (thread_of E lg) True)
         (host_recorded E log_file lg))"

lemma update_log_file_eq:
  assumes "lg_manager lg"
  shows "update_log_file E log_file exec_name cmd lg =
    map_option (\<lambda>lg. lg\<lparr>lg_is_init := True\<rparr>) (log_start E exec_name cmd (file_opened E log_file lg))"
  using assms by (cases "log_start E exec_name cmd (file_opened E log_file lg)")
    (simp_all add: update_log_file_def Let_def file_opened_def host_recorded_def insert_hash_def thread_of_def)

lemma file_opened_simps:
  "lg_manager (file_opened E f lg) = lg_manager lg" "lg_index (file_opened E f lg) = lg_index lg"
  "lg_include_metadata (file_opened E f lg) = lg_include_metadata lg"
  "lg_computed_hash (file_opened E f lg) = (lg_computed_hash lg)(le_hostname E \<mapsto> get_hash (le_hostname E))"
  by (simp_all add: file_opened_def host_recorded_def insert_hash_def)

lemma sound_update_log_file:
  assumes up: "update_log_file E log_file exec_name cmd lg = Some lg'" and man: "lg_manager lg"
    and hash: "lg_computed_hash lg = (\<lambda>_. None)" and idx: "lg_index lg = 0"
  shows "sound lg'"
proof -
  obtain lg4 where 4: "log_start E exec_name cmd (file_opened E log_file lg) = Some lg4"
    and lg': "lg' = lg4\<lparr>lg_is_init := True\<rparr>"
    using up unfolding update_log_file_eq [OF man] by auto
  have "sound (host_recorded E log_file lg)" unfolding host_recorded_def
    by (rule sound_opened) (simp_all add: insert_hash_def hash idx)
  then have "sound (file_opened E log_file lg)" unfolding file_opened_def by (rule sound_quiet) (simp add: quiet_def)
  then have "sound lg4" by (rule sound_log_start [OF _ 4])
  then show ?thesis unfolding lg' by (rule sound_quiet) (simp add: quiet_def)
qed

lemma sound_finalize:
  assumes "sound lg" shows "sound (logger_finalize E lg)"
proof (cases "lg_manager lg")
  case True
  obtain k where k: "data_indexes lg = numbers k" "lg_index lg = of_nat k"
    using assms True by (auto simp: sound_def numbered_def)
  have "data_indexes (logger_finalize E lg) = numbers (Suc k)"
    using True k by (simp add: logger_finalize_def clear_hash_cache_def Let_def data_indexes_def flip: numbers_Suc)
  moreover have "\<not> lg_manager (logger_finalize E lg)" using True
    by (simp add: logger_finalize_def clear_hash_cache_def Let_def)
  ultimately show ?thesis
    by (auto simp: sound_def numbered_def) (simp add: names_defined_def logger_finalize_def clear_hash_cache_def Let_def)
next
  case False
  then show ?thesis using assms
    by (auto simp: sound_def names_defined_def numbered_def data_indexes_def logger_finalize_def clear_hash_cache_def)
qed

lemma logger_run_sound: "logger_run lg \<Longrightarrow> sound lg"
proof (induction rule: logger_run.induct)
  case (opened E log_file exec_name cmd config lg)
  then show ?case by (rule sound_update_log_file) (simp_all add: new_logger_def)
qed (blast intro: sound_hash sound_log sound_finalize sound_quiet log_metadata_quiet log_record_quiet flush_quiet setters_quiet)+

section \<open>Properties\<close>



text \<open>A process on \<open>host\<close> that hashes one file name and ends.\<close>

definition sample_logger_env :: logger_env where
  "sample_logger_env = \<lparr>le_gettid = 7, le_getpid = 7, le_sec = 1, le_usec = 2, le_mpi = False, le_rank = None,
     le_forked = False, le_hostname = ''host'', le_cwd = Some ''/w'', le_date = ''today'', le_ppid = 1,
     le_version = ''2.0'', le_build = sample_build\<rparr>"

definition sample_logger :: df_logger where
  "sample_logger = new_logger ((default_configuration sample_build)\<lparr>cf_metadata := False\<rparr>)"

lemma logger_log_returns:
  assumes "\<not> le_mpi E" shows "\<exists>lg'. logger_log E n c ty s d None lg = Some lg'"
  using assms by (simp add: logger_log_def event_tid_def handle_mpi_def Let_def)

lemma hash_and_store_returns:
  assumes "lg_manager lg" "length f < PATH_MAX"
  shows "\<exists>h lg'. hash_and_store E (Some f) n lg = Some (h, lg')"
  using assms by (cases "has_hash f lg")
    (simp_all add: hash_and_store_def hash_and_store_str_def call_manager_def insert_hash_def Let_def)

lemma update_log_file_plain:
  assumes "\<not> le_mpi E" "lg_manager lg" "\<not> lg_include_metadata lg" "key \<noteq> le_hostname E"
  shows "\<exists>lg'. update_log_file E log_file exec_name cmd lg = Some lg' \<and> lg_manager lg' \<and>
    lg_computed_hash lg' key = lg_computed_hash lg key"
proof -
  define lg2 where "lg2 = file_opened E log_file lg"
  obtain lg4 where 4: "logger_log E (Some ''start'') (Some ''dftracer'') TYPE_DFTRACER (get_time E lg2) 0 None lg2 = Some lg4"
    using logger_log_returns [OF assms(1)] by blast
  have "log_start E exec_name cmd lg2 = Some lg4" using assms(3) 4 by (simp add: log_start_def lg2_def file_opened_simps)
  then show ?thesis
    using logger_log_spec [OF 4] assms unfolding update_log_file_eq [OF assms(2)] lg2_def by (simp add: file_opened_simps)
qed

lemma sample_logger_opens:
  "\<exists>lg. update_log_file sample_logger_env ''t'' ''a'' ''a x'' sample_logger = Some lg \<and>
    logger_run lg \<and> lg_manager lg \<and> lg_computed_hash lg ''/f'' = None"
proof -
  have lg0: "lg_computed_hash sample_logger ''/f'' = None" "lg_manager sample_logger" "\<not> lg_include_metadata sample_logger"
    by (simp_all add: sample_logger_def new_logger_def)
  obtain lg where lg: "update_log_file sample_logger_env ''t'' ''a'' ''a x'' sample_logger = Some lg"
      "lg_manager lg" "lg_computed_hash lg ''/f'' = None"
    using update_log_file_plain [OF _ lg0(2,3), of sample_logger_env "''/f''" "''t''" "''a''" "''a x''"] lg0(1)
    by (auto simp: sample_logger_env_def)
  show ?thesis using lg opened [OF lg(1) [unfolded sample_logger_def]] by blast
qed



section \<open>A forked child\<close>

lemma find_insert_or_assign:
  "metadata_find k (metadata_insert_or_assign key ty v md) = (if k = key then Some (ty, v) else metadata_find k md)"
proof -
  have "k \<noteq> key \<longrightarrow> map_of (map (\<lambda>e. if fst e = key then (key, ty, v) else e) md) k = map_of md k"
    by (induction md) auto
  moreover have "map_of md key \<noteq> None \<longrightarrow> map_of (map (\<lambda>e. if fst e = key then (key, ty, v) else e) md) key = Some (ty, v)"
    by (induction md) auto
  ultimately show ?thesis
    by (auto simp: metadata_insert_or_assign_def metadata_find_def map_add_def split: option.splits)
qed

text \<open>
  C34: a forked child opens a trace file of its own and keeps the parent's table of hashes. What
  the file says up to its first event is the host, the process, the time unit and the
  application: the hashes of the start event, for the directory, the program and its command, are
  the parent's, and the file defines none of them.
\<close>

theorem forked_child_keeps_hashes:
  assumes "lg_manager lg" and "lg_include_metadata lg" and "\<not> le_mpi E" and "le_cwd E = Some cwd"
    and "lg_computed_hash lg cwd = Some w" and "lg_computed_hash lg (fix_str cmd) = Some a"
    and "lg_computed_hash lg (fix_str exec_name) = Some b"
    and "le_hostname E \<notin> {cwd, fix_str cmd, fix_str exec_name}"
    and "length cwd < PATH_MAX" and "length cmd < PATH_MAX" and "length exec_name < PATH_MAX"
  shows "\<exists>lg' md tid. update_log_file E log_file exec_name cmd (logger_reinitialize lg) = Some lg' \<and>
    this_file (lg_calls lg') =
      [metadata_record (fix_str (le_hostname E)) (get_hash (le_hostname E)) METADATA_NAME_HOSTNAME_HASH (le_getpid E) tid True,
       metadata_record (show_int (sint (le_getpid E))) METADATA_NAME_THREAD_NAME METADATA_NAME_THREAD_NAME (le_getpid E) tid True,
       metadata_record ''time_metric'' (time_metric_name (cf_time_metric (lg_config lg))) CUSTOM_METADATA (le_getpid E) tid True,
       Mgr_set_app_name (fix_str exec_name),
       Mgr_log (Log_Data 1 (Some ''start'') (Some ''dftracer'') TYPE_DFTRACER (get_time E lg) 0 (Some md) (le_getpid E) tid)] \<and>
    metadata_find ''cwd'' md = Some (MT_KEY, Any_hash (Some w)) \<and>
    metadata_find ''exec_hash'' md = Some (MT_KEY, Any_hash (Some b)) \<and>
    metadata_find ''cmd_hash'' md = Some (MT_KEY, Any_hash (Some a))"
proof -
  define lg0 where "lg0 = file_opened E log_file (logger_reinitialize lg)"
  have ne: "cwd \<noteq> le_hostname E" "fix_str cmd \<noteq> le_hostname E" "fix_str exec_name \<noteq> le_hostname E"
    using assms(8) by auto
  have man: "lg_manager (logger_reinitialize lg)" using assms(1) by (simp add: logger_reinitialize_def)
  have lg0: "lg_computed_hash lg0 cwd = Some w" "lg_computed_hash lg0 (fix_str cmd) = Some a"
    "lg_computed_hash lg0 (fix_str exec_name) = Some b" "lg_index lg0 = 0" "lg_manager lg0" "lg_include_metadata lg0"
    "lg_tids lg0 = lg_tids lg" "lg_process_id lg0 = le_getpid E" "lg_config lg0 = lg_config lg"
    using assms(1-7) ne by (simp_all add: lg0_def file_opened_simps logger_reinitialize_def)
      (simp_all add: file_opened_def host_recorded_def insert_hash_def)
  have calls: "this_file (lg_calls lg0) =
      [metadata_record (fix_str (le_hostname E)) (get_hash (le_hostname E)) METADATA_NAME_HOSTNAME_HASH (le_getpid E) (thread_of E lg) True,
       metadata_record (show_int (sint (le_getpid E))) METADATA_NAME_THREAD_NAME METADATA_NAME_THREAD_NAME (le_getpid E) (thread_of E lg) True,
       metadata_record ''time_metric'' (time_metric_name (cf_time_metric (lg_config lg))) CUSTOM_METADATA (le_getpid E) (thread_of E lg) True]"
    by (simp add: lg0_def file_opened_def host_recorded_def logger_reinitialize_def insert_hash_def thread_of_def this_file_def)
  have cached: "hash_and_store E (Some f) n lg0 = Some (Some h, lg0)"
    if "lg_computed_hash lg0 f = Some h" "length f < PATH_MAX" for f n h
    using that by (simp add: hash_and_store_def hash_and_store_str_def has_hash_def)
  have len: "length (fix_str s) = length s" for s by (simp add: fix_str_def)
  define md where "md = (let md = metadata_insert_or_assign ''cwd'' MT_KEY (Any_hash (Some w)) [];
     md = metadata_insert_or_assign ''version'' MT_KEY (Any_cstr (Some (le_version E))) md;
     md = metadata_insert_or_assign ''exec_hash'' MT_KEY (Any_hash (Some b)) md;
     md = metadata_insert_or_assign ''cmd_hash'' MT_KEY (Any_hash (Some a)) md;
     md = metadata_insert_or_assign ''date'' MT_KEY (Any_string (le_date E)) md
   in metadata_insert_or_assign ''ppid'' MT_KEY (Any_signed (scast (le_ppid E))) md)"
  define lg1 where "lg1 = put_call (Mgr_set_app_name (fix_str exec_name)) lg0"
  have meta: "start_metadata E exec_name cmd lg0 = Some (md, lg1)"
    unfolding start_metadata_def assms(4) option.case
    using assms by (simp add: cached lg0 len md_def lg1_def Let_def)
  have "log_start E exec_name cmd lg0 =
      logger_log E (Some ''start'') (Some ''dftracer'') TYPE_DFTRACER (get_time E lg1) 0 (Some md) lg1"
    using lg0(6) by (simp add: log_start_def meta)
  moreover have "metadata_find ''tid'' md = None"
    by (simp add: md_def Let_def find_insert_or_assign) (simp add: metadata_find_def)
  then have "event_tid E (Some md) lg1 = Some (thread_of E lg, Some md)"
    using assms(3) lg0 by (simp add: event_tid_def thread_of_def lg1_def)
  moreover have "get_time E lg1 = get_time E lg" using lg0(9) by (simp add: get_time_def lg1_def)
  moreover have "metadata_find ''cwd'' md = Some (MT_KEY, Any_hash (Some w))"
    "metadata_find ''exec_hash'' md = Some (MT_KEY, Any_hash (Some b))"
    "metadata_find ''cmd_hash'' md = Some (MT_KEY, Any_hash (Some a))"
    by (simp_all add: md_def Let_def find_insert_or_assign)
  ultimately show ?thesis
    unfolding update_log_file_eq [OF man] lg0_def [symmetric]
    using assms(3) lg0 calls
    by (simp add: logger_log_def handle_mpi_def Let_def mark_layer_def lg1_def)
qed

definition sample_parent :: df_logger where
  "sample_parent = (new_logger (default_configuration sample_build))\<lparr>lg_computed_hash :=
     [''/w'' \<mapsto> get_hash ''/w'', ''a x'' \<mapsto> get_hash ''a x'', ''a'' \<mapsto> get_hash ''a'']\<rparr>"

lemma forked_child_keeps_hashes_witness:
  "\<exists>lg' md. update_log_file sample_logger_env ''t'' ''a'' ''a x'' (logger_reinitialize sample_parent) = Some lg' \<and>
    length (this_file (lg_calls lg')) = 5 \<and> metadata_find ''cwd'' md = Some (MT_KEY, Any_hash (Some (get_hash ''/w'')))"
proof -
  have fx: "fix_str ''a'' = ''a''" "fix_str ''a x'' = ''a x''" by (simp_all add: fix_str_def ignore_chars_def)
  have "lg_manager sample_parent" "lg_include_metadata sample_parent" "\<not> le_mpi sample_logger_env"
      "le_cwd sample_logger_env = Some ''/w''" "lg_computed_hash sample_parent ''/w'' = Some (get_hash ''/w'')"
      "lg_computed_hash sample_parent (fix_str ''a x'') = Some (get_hash ''a x'')"
      "lg_computed_hash sample_parent (fix_str ''a'') = Some (get_hash ''a'')"
      "le_hostname sample_logger_env \<notin> {''/w'', fix_str ''a x'', fix_str ''a''}"
    by (simp_all add: sample_parent_def new_logger_def default_configuration_def sample_logger_env_def fx)
  note h = this
  have len: "length ''/w'' < PATH_MAX" "length ''a x'' < PATH_MAX" "length ''a'' < PATH_MAX"
    by (simp_all add: PATH_MAX_def)
  show ?thesis
    using forked_child_keeps_hashes [OF h len, of "''t''"]
    by (elim exE conjE) (intro exI conjI, assumption, simp, assumption)
qed

end
