(* ===== verification/Intercept.thy ===== *)
theory Intercept
  imports DFT_Logger "HOL-Library.AList"
begin

text \<open>
  What the interceptors of \<open>core/brahma/posix.h\<close> and \<open>stdio.h\<close> share: the tables of traced
  descriptors and streams, which calls are traced, and the macros \<open>DFT_LOGGER_START\<close>,
  \<open>DFT_LOGGER_UPDATE\<close> and \<open>DFT_LOGGER_END\<close> of \<open>df_logger.h\<close> that every wrapper is made of. The
  C library is a parameter: what a call returns and does to the world, and what the memory of
  the program holds.
\<close>

section \<open>The C library and the traced process\<close>

text \<open>
  An argument of a call: 32 bits, 64 bits, a pointer (a structure passed by value counts as one), or
  an array of pointers that the wrapper builds and ends with a null pointer.
\<close>

datatype c_arg = C_int u32 | C_long u64 | C_ptr u64 | C_array "u64 list"

record 'w libc =
  libc_call :: "string \<Rightarrow> c_arg list \<Rightarrow> 'w \<Rightarrow> u64 \<times> 'w"
  string_at :: "'w \<Rightarrow> u64 \<Rightarrow> string option"  \<comment> \<open>\<open>None\<close>: the null pointer\<close>
  wide_length_at :: "'w \<Rightarrow> u64 \<Rightarrow> u64"
  int_at :: "'w \<Rightarrow> u64 \<Rightarrow> nat \<Rightarrow> u32"
  pointers_at :: "'w \<Rightarrow> u64 \<Rightarrow> u64 list"  \<comment> \<open>an array, to its null pointer\<close>
  pointer_at :: "'w \<Rightarrow> u64 \<Rightarrow> nat \<Rightarrow> u64"
  dirfd_of :: "'w \<Rightarrow> u64 \<Rightarrow> u32"
  fileno_of :: "'w \<Rightarrow> u64 \<Rightarrow> u32"
  aio_fildes :: "'w \<Rightarrow> u64 \<Rightarrow> u32"
  aio_nbytes :: "'w \<Rightarrow> u64 \<Rightarrow> u64"
  aio_offset :: "'w \<Rightarrow> u64 \<Rightarrow> u64"
  logger_world :: "'w \<Rightarrow> logger_env"
  c_stdin :: u64
  c_stdout :: u64
  c_stderr :: u64

text \<open>
  \<open>POSIXDFTracer\<close> and \<open>STDIODFTracer\<close> with what they share. \<open>None\<close> in a table is the null hash of
  an untraced descriptor or stream.
\<close>

record 'w traced_process =
  tp_posix_stop :: bool
  tp_stdio_stop :: bool
  tp_max_fd :: u64
  tp_tracked_fd :: "nat \<Rightarrow> string option"
  tp_tracked_fh :: "(u64 \<times> string option) list"
  tp_trace_all :: bool
  tp_trie :: "path_trie option"
  tp_logger :: df_logger
  tp_world :: 'w

abbreviation NULL :: u64 where "NULL \<equiv> 0"

definition AT_FDCWD :: u32 where "AT_FDCWD = - 100"
definition O_CREAT :: u32 where "O_CREAT = 64"

section \<open>Which calls are traced\<close>

definition fd_in_table :: "'w traced_process \<Rightarrow> u32 \<Rightarrow> bool" where
  "fd_in_table s fd \<longleftrightarrow> 0 \<le> sint fd \<and> (ucast fd :: u64) < tp_max_fd s"

definition fd_hash :: "'w traced_process \<Rightarrow> u32 \<Rightarrow> string option" where
  "fd_hash s fd =
     (if tp_posix_stop s then None else if \<not> fd_in_table s fd then None else tp_tracked_fd s (unat fd))"

text \<open>\<open>None\<close>: \<open>strlen\<close> of a null pointer, or a name that does not fit the buffer of \<open>hash_and_store\<close>.\<close>

definition name_hash :: "'w libc \<Rightarrow> u64 \<Rightarrow> 'w traced_process \<Rightarrow> (string option \<times> 'w traced_process) option" where
  "name_hash R p s =
     (let E = logger_world R (tp_world s);
          filename = map_option (absolute_path (le_cwd E)) (string_at R (tp_world s) p)
      in if tp_trace_all s
         then map_option (\<lambda>(h, lg). (h, s\<lparr>tp_logger := lg\<rparr>)) (hash_and_store E filename METADATA_NAME_FILE_HASH (tp_logger s))
         else (case filename of
             None \<Rightarrow> if tp_trie s = None then Some (None, s) else None
           | Some f \<Rightarrow> map_option (\<lambda>(h, lg). (h, s\<lparr>tp_logger := lg\<rparr>))
               (hash_and_store E (is_traced_common (tp_trie s) f) METADATA_NAME_FILE_HASH (tp_logger s))))"

definition path_hash :: "'w libc \<Rightarrow> u64 \<Rightarrow> 'w traced_process \<Rightarrow> (string option \<times> 'w traced_process) option" where
  "path_hash R p s = (if tp_posix_stop s then Some (None, s) else name_hash R p s)"

text \<open>\<open>AtRef\<close>: a path below a directory descriptor goes by the descriptor.\<close>

definition at_hash :: "'w libc \<Rightarrow> u32 \<Rightarrow> u64 \<Rightarrow> 'w traced_process \<Rightarrow> (string option \<times> 'w traced_process) option" where
  "at_hash R dirfd p s =
     (case string_at R (tp_world s) p of
        Some path \<Rightarrow> if dirfd = AT_FDCWD \<or> take 1 path = ''/'' then path_hash R p s else Some (fd_hash s dirfd, s)
      | None \<Rightarrow> Some (fd_hash s dirfd, s))"

definition dir_fd :: "'w libc \<Rightarrow> u64 \<Rightarrow> 'w traced_process \<Rightarrow> u32" where
  "dir_fd R dir s = (if dir = NULL then - 1 else dirfd_of R (tp_world s) dir)"

definition set_trace :: "u32 \<Rightarrow> string option \<Rightarrow> 'w traced_process \<Rightarrow> 'w traced_process" where
  "set_trace fd h s = (if \<not> fd_in_table s fd then s else s\<lparr>tp_tracked_fd := (tp_tracked_fd s)(unat fd := h)\<rparr>)"

definition in_vfork_child :: "'w libc \<Rightarrow> 'w traced_process \<Rightarrow> bool" where
  "in_vfork_child R s =
     (if \<not> lg_is_init (tp_logger s) then False
      else 0 < sint (lg_process_id (tp_logger s)) \<and> le_getpid (logger_world R (tp_world s)) \<noteq> lg_process_id (tp_logger s))"

definition remove_trace :: "'w libc \<Rightarrow> u32 \<Rightarrow> 'w traced_process \<Rightarrow> 'w traced_process" where
  "remove_trace R fd s =
     (if \<not> fd_in_table s fd \<or> in_vfork_child R s then s
      else s\<lparr>tp_tracked_fd := (tp_tracked_fd s)(unat fd := None)\<rparr>)"

definition remove_trace_range :: "u64 \<Rightarrow> u64 \<Rightarrow> 'w traced_process \<Rightarrow> bool \<times> 'w traced_process" where
  "remove_trace_range first_fd last_fd s =
     (if tp_posix_stop s \<or> tp_max_fd s = 0 then (False, s)
      else fold (\<lambda>fd (removed, s).
          if tp_tracked_fd s fd \<noteq> None then (True, s\<lparr>tp_tracked_fd := (tp_tracked_fd s)(fd := None)\<rparr>)
          else (removed, s))
        [unat first_fd..<min (Suc (unat last_fd)) (unat (tp_max_fd s))] (False, s))"

text \<open>The first entry of a list of control blocks whose descriptor is traced, or -1.\<close>

definition traced_aio_fd :: "'w libc \<Rightarrow> u64 \<Rightarrow> u32 \<Rightarrow> 'w traced_process \<Rightarrow> u32" where
  "traced_aio_fd R cbs nent s =
     (case find (\<lambda>cb. cb \<noteq> NULL \<and> fd_hash s (aio_fildes R (tp_world s) cb) \<noteq> None)
          (map (pointer_at R (tp_world s) cbs) [0..<nat (sint nent)]) of
        Some cb \<Rightarrow> aio_fildes R (tp_world s) cb
      | None \<Rightarrow> - 1)"

section \<open>Streams\<close>

definition fh_hash :: "'w traced_process \<Rightarrow> u64 \<Rightarrow> string option" where
  "fh_hash s fh =
     (if tp_stdio_stop s then None else if fh = NULL then None
      else case map_of (tp_tracked_fh s) fh of Some h \<Rightarrow> h | None \<Rightarrow> None)"

definition stream_path_hash :: "'w libc \<Rightarrow> u64 \<Rightarrow> 'w traced_process \<Rightarrow> (string option \<times> 'w traced_process) option" where
  "stream_path_hash R p s = (if tp_stdio_stop s then Some (None, s) else name_hash R p s)"

definition stream_fd_hash :: "'w traced_process \<Rightarrow> u32 \<Rightarrow> string option" where
  "stream_fd_hash s fd = (if tp_stdio_stop s then None else fd_hash s fd)"

definition trace_stream_fd :: "'w libc \<Rightarrow> u64 \<Rightarrow> string option \<Rightarrow> 'w traced_process \<Rightarrow> 'w traced_process" where
  "trace_stream_fd R fh h s = set_trace (fileno_of R (tp_world s) fh) h s"

definition trace_fh :: "'w libc \<Rightarrow> u64 \<Rightarrow> string option \<Rightarrow> 'w traced_process \<Rightarrow> 'w traced_process" where
  "trace_fh R fh h s =
     (if fh = NULL then s else trace_stream_fd R fh h (s\<lparr>tp_tracked_fh := AList.update fh h (tp_tracked_fh s)\<rparr>))"

definition remove_trace_fh :: "'w libc \<Rightarrow> u64 \<Rightarrow> 'w traced_process \<Rightarrow> 'w traced_process" where
  "remove_trace_fh R fh s = trace_stream_fd R fh None (s\<lparr>tp_tracked_fh := AList.delete fh (tp_tracked_fh s)\<rparr>)"

definition trace_reopened ::
  "'w libc \<Rightarrow> u64 \<Rightarrow> u64 \<Rightarrow> string option \<Rightarrow> 'w traced_process \<Rightarrow> 'w traced_process option" where
  "trace_reopened R fh path old_hash s = do {
     (h, s) \<leftarrow> (if path = NULL then Some (old_hash, s) else stream_path_hash R path s);
     Some (if h \<noteq> None then trace_fh R fh h s else s) }"

section \<open>The macros\<close>

text \<open>
  The locals of a wrapper. \<open>ev_args\<close> is there when the call is traced and metadata is included,
  which does not change during a call.
\<close>

record event_locals =
  ev_hash :: "string option"
  ev_traced :: bool
  ev_start :: u64
  ev_args :: "metadata option"

definition now :: "'w libc \<Rightarrow> 'w traced_process \<Rightarrow> u64" where
  "now R s = get_time (logger_world R (tp_world s)) (tp_logger s)"

definition start_hash :: "'w libc \<Rightarrow> string option \<Rightarrow> 'w traced_process \<Rightarrow> event_locals" where
  "start_hash R h s = \<lparr>ev_hash = h, ev_traced = (h \<noteq> None),
     ev_start = (if h \<noteq> None then now R s else 0),
     ev_args = (if h \<noteq> None \<and> lg_include_metadata (tp_logger s)
       then Some (metadata_insert_or_assign ''fhash'' MT_KEY (Any_hash h) []) else None)\<rparr>"

definition start_fd :: "'w libc \<Rightarrow> u32 \<Rightarrow> 'w traced_process \<Rightarrow> (event_locals \<times> 'w traced_process) option" where
  "start_fd R fd s = Some (start_hash R (fd_hash s fd) s, s)"

definition start_path :: "'w libc \<Rightarrow> u64 \<Rightarrow> 'w traced_process \<Rightarrow> (event_locals \<times> 'w traced_process) option" where
  "start_path R p s = map_option (\<lambda>(h, s). (start_hash R h s, s)) (path_hash R p s)"

definition start_at :: "'w libc \<Rightarrow> u32 \<Rightarrow> u64 \<Rightarrow> 'w traced_process \<Rightarrow> (event_locals \<times> 'w traced_process) option" where
  "start_at R fd p s = map_option (\<lambda>(h, s). (start_hash R h s, s)) (at_hash R fd p s)"

definition start_fh :: "'w libc \<Rightarrow> u64 \<Rightarrow> 'w traced_process \<Rightarrow> (event_locals \<times> 'w traced_process) option" where
  "start_fh R fh s = Some (start_hash R (fh_hash s fh) s, s)"

definition start_stream_path :: "'w libc \<Rightarrow> u64 \<Rightarrow> 'w traced_process \<Rightarrow> (event_locals \<times> 'w traced_process) option" where
  "start_stream_path R p s = map_option (\<lambda>(h, s). (start_hash R h s, s)) (stream_path_hash R p s)"

definition start_stream_fd :: "'w libc \<Rightarrow> u32 \<Rightarrow> 'w traced_process \<Rightarrow> (event_locals \<times> 'w traced_process) option" where
  "start_stream_fd R fd s = Some (start_hash R (stream_fd_hash s fd) s, s)"

definition start_always :: "'w libc \<Rightarrow> 'w traced_process \<Rightarrow> (event_locals \<times> 'w traced_process) option" where
  "start_always R s = (let traced = lg_is_init (tp_logger s) in
     Some (\<lparr>ev_hash = None, ev_traced = traced, ev_start = (if traced then now R s else 0),
       ev_args = (if traced \<and> lg_include_metadata (tp_logger s) then Some [] else None)\<rparr>, s))"

definition upd :: "MetadataType \<Rightarrow> string \<Rightarrow> any_value \<Rightarrow> event_locals \<Rightarrow> event_locals" where
  "upd ty key v c = c\<lparr>ev_args := map_option (metadata_insert_or_assign key ty v) (ev_args c)\<rparr>"

abbreviation upd_key :: "string \<Rightarrow> any_value \<Rightarrow> event_locals \<Rightarrow> event_locals" where
  "upd_key \<equiv> upd MT_KEY"

abbreviation upd_val :: "string \<Rightarrow> any_value \<Rightarrow> event_locals \<Rightarrow> event_locals" where
  "upd_val \<equiv> upd MT_VALUE"

text \<open>
  An argument that tells events apart is hashed as it is inserted, a text as a \<open>std::string\<close>: the
  null pointer throws, and the exception leaves through the program's call.
\<close>

definition unhashable :: "MetadataType \<Rightarrow> any_value \<Rightarrow> bool" where
  "unhashable ty v \<longleftrightarrow> ty = MT_KEY \<and> (case v of Any_cstr t \<Rightarrow> t = None | Any_hash h \<Rightarrow> h = None | _ \<Rightarrow> False)"

definition upd_text_key :: "string \<Rightarrow> any_value \<Rightarrow> event_locals \<Rightarrow> event_locals option" where
  "upd_text_key key v c = (if ev_args c \<noteq> None \<and> unhashable MT_KEY v then None else Some (upd_key key v c))"

definition upd_hash ::
  "'w libc \<Rightarrow> string \<Rightarrow> u64 \<Rightarrow> event_locals \<Rightarrow> 'w traced_process \<Rightarrow> (event_locals \<times> 'w traced_process) option" where
  "upd_hash R key p c s =
     (if ev_args c = None then Some (c, s)
      else do {
        (h, lg) \<leftarrow> hash_and_store (logger_world R (tp_world s)) (string_at R (tp_world s) p)
          METADATA_NAME_FILE_HASH (tp_logger s);
        c \<leftarrow> upd_text_key key (Any_hash h) c;
        Some (c, s\<lparr>tp_logger := lg\<rparr>) })"

definition call_real :: "'w libc \<Rightarrow> string \<Rightarrow> c_arg list \<Rightarrow> 'w traced_process \<Rightarrow> u64 \<times> 'w traced_process" where
  "call_real R name args s = (let (r, w) = libc_call R name args (tp_world s) in (r, s\<lparr>tp_world := w\<rparr>))"

abbreviation TYPE_LIBC_IO :: byte where "TYPE_LIBC_IO \<equiv> 3"

definition end_event ::
  "'w libc \<Rightarrow> string \<Rightarrow> string \<Rightarrow> event_locals \<Rightarrow> 'w traced_process \<Rightarrow> 'w traced_process option" where
  "end_event R category name c s =
     (if \<not> ev_traced c then Some s
      else map_option (\<lambda>lg. s\<lparr>tp_logger := lg\<rparr>)
        (logger_log (logger_world R (tp_world s)) (Some name) (Some category) TYPE_LIBC_IO
          (ev_start c) (now R s - ev_start c) (ev_args c) (tp_logger s)))"

definition flush_all_events :: "'w traced_process \<Rightarrow> 'w traced_process" where
  "flush_all_events s = s\<lparr>tp_logger := logger_flush (tp_logger s)\<rparr>"

text \<open>A text as an argument, and whether flags hold a bit.\<close>

definition text_at :: "'w libc \<Rightarrow> u64 \<Rightarrow> 'w traced_process \<Rightarrow> any_value" where
  "text_at R p s = Any_cstr (string_at R (tp_world s) p)"

text \<open>\<open>strlen\<close> and \<open>wcslen\<close> of a pointer that is not null.\<close>

definition upd_strlen :: "'w libc \<Rightarrow> string \<Rightarrow> u64 \<Rightarrow> event_locals \<Rightarrow> 'w traced_process \<Rightarrow> event_locals" where
  "upd_strlen R key p c s = (case string_at R (tp_world s) p of
     None \<Rightarrow> c | Some t \<Rightarrow> upd_val key (Any_unsigned (of_nat (length t))) c)"

definition upd_wcslen :: "'w libc \<Rightarrow> string \<Rightarrow> u64 \<Rightarrow> event_locals \<Rightarrow> 'w traced_process \<Rightarrow> event_locals" where
  "upd_wcslen R key p c s = (if p = NULL then c
     else upd_val key (Any_unsigned (wide_length_at R (tp_world s) p)) c)"

text \<open>The real function of a wrapper, by the type of its result.\<close>

definition call_int :: "'w libc \<Rightarrow> string \<Rightarrow> c_arg list \<Rightarrow> 'w traced_process \<Rightarrow> u32 \<times> 'w traced_process" where
  "call_int R name args s = map_prod ucast id (call_real R name args s)"

abbreviation call_long :: "'w libc \<Rightarrow> string \<Rightarrow> c_arg list \<Rightarrow> 'w traced_process \<Rightarrow> u64 \<times> 'w traced_process" where
  "call_long \<equiv> call_real"

definition call_void :: "'w libc \<Rightarrow> string \<Rightarrow> c_arg list \<Rightarrow> 'w traced_process \<Rightarrow> unit \<times> 'w traced_process" where
  "call_void R name args s = map_prod (\<lambda>_. ()) id (call_real R name args s)"

text \<open>A C value as an argument of an event.\<close>

abbreviation int_value :: "u32 \<Rightarrow> any_value" where "int_value v \<equiv> Any_signed (scast v)"
abbreviation unsigned_value :: "u32 \<Rightarrow> any_value" where "unsigned_value v \<equiv> Any_unsigned (ucast v)"
abbreviation long_value :: "u64 \<Rightarrow> any_value" where "long_value v \<equiv> Any_signed v"
abbreviation size_value :: "u64 \<Rightarrow> any_value" where "size_value v \<equiv> Any_unsigned v"

text \<open>\<open>mkstemp\<close> and its like name the file: the name is hashed again after the call.\<close>

definition rename_traced ::
  "'w libc \<Rightarrow> u64 \<Rightarrow> u32 \<Rightarrow> event_locals \<Rightarrow> 'w traced_process \<Rightarrow> (event_locals \<times> 'w traced_process) option" where
  "rename_traced R tmpl fd c s = do {
     (h, s) \<leftarrow> path_hash R tmpl s;
     c \<leftarrow> upd_text_key ''fhash'' (Any_hash h) (c\<lparr>ev_hash := h\<rparr>);
     Some (c, set_trace fd h s) }"

section \<open>Total correctness of a wrapper\<close>

text \<open>A computation returns, and what it returns satisfies a predicate.\<close>

definition post :: "'a option \<Rightarrow> ('a \<Rightarrow> bool) \<Rightarrow> bool" where
  "post m Q \<longleftrightarrow> (case m of None \<Rightarrow> False | Some x \<Rightarrow> Q x)"

named_theorems post_rules

lemma post_Some [simp]: "post (Some x) Q = Q x" by (simp add: post_def)
lemma post_None [simp]: "\<not> post None Q" by (simp add: post_def)

lemma post_bind [post_rules]: "post m (\<lambda>x. post (f x) Q) \<Longrightarrow> post (Option.bind m f) Q"
  by (cases m) simp_all

lemma post_map_option [simp]: "post (map_option f m) Q = post m (\<lambda>x. Q (f x))"
  by (cases m) simp_all

lemma post_mono: "post m P \<Longrightarrow> (\<And>x. P x \<Longrightarrow> Q x) \<Longrightarrow> post m Q"
  by (cases m) simp_all

text \<open>The category and the name of the events a logger was given.\<close>

fun event_of :: "manager_call \<Rightarrow> (string option \<times> string option) list" where
  "event_of (Mgr_log (Log_Data i name category ty start d md pid tid)) = [(category, name)]"
| "event_of _ = []"

definition events :: "df_logger \<Rightarrow> (string option \<times> string option) list" where
  "events lg = concat (map event_of (lg_calls lg))"

lemma events_simps [simp]:
  "events (put_call c lg) = events lg @ event_of c" "events (lg\<lparr>lg_index := x\<rparr>) = events lg"
  "events (lg\<lparr>lg_has_entry := b\<rparr>) = events lg" "events (insert_hash f h lg) = events lg"
  "events (mark_layer ty lg) = events lg"
  by (simp_all add: events_def insert_hash_def mark_layer_def)

lemma event_of_quiet: "data_index c = [] \<Longrightarrow> event_of c = []"
  by (cases c rule: event_of.cases) simp_all

lemma quiet_events: "quiet lg lg' \<Longrightarrow> events lg' = events lg"
  by (auto simp: quiet_def events_def event_of_quiet)

text \<open>Only the null pointer has no text, and every name the program passes fits the buffers of the tracer.\<close>

definition names_fit :: "'w libc \<Rightarrow> bool" where
  "names_fit R \<longleftrightarrow> (\<forall>w p. string_at R w p = None \<longrightarrow> p = NULL) \<and> (\<forall>w p f. string_at R w p = Some f \<longrightarrow>
     length f < PATH_MAX \<and> length (absolute_path (le_cwd (logger_world R w)) f) < PATH_MAX)"

lemma name_fits: "names_fit R \<Longrightarrow> string_at R w p = Some f \<Longrightarrow> length f < PATH_MAX"
  by (auto simp: names_fit_def)

text \<open>
  \<open>lg\<close> is \<open>lg0\<close> after some calls of the same process while its trace is open: the events \<open>es\<close> were
  logged, and every name is still recorded before its hash is used.
\<close>

definition grows :: "(string option \<times> string option) list \<Rightarrow> df_logger \<Rightarrow> df_logger \<Rightarrow> bool" where
  "grows es lg0 lg \<longleftrightarrow> events lg = events lg0 @ es \<and> lg_manager lg0 \<and> lg_manager lg \<and>
     lg_is_init lg = lg_is_init lg0 \<and> lg_process_id lg = lg_process_id lg0 \<and>
     (names_defined lg0 \<longrightarrow> names_defined lg)"

lemma grows_refl: "lg_manager lg \<Longrightarrow> grows [] lg lg" by (simp add: grows_def)

lemma grows_trans: "grows es a b \<Longrightarrow> grows fs b c \<Longrightarrow> grows (es @ fs) a c"
  by (auto simp: grows_def)

lemma grows_manager: "grows es a b \<Longrightarrow> lg_manager b" by (simp add: grows_def)

lemma hash_str_post:
  assumes "lg_manager lg" and "\<And>h lg'. grows [] lg lg' \<Longrightarrow> Q (h, lg')"
  shows "post (hash_and_store_str E f name lg) Q"
proof -
  have "hash_and_store_str E f name lg \<noteq> None"
    using assms(1) by (auto simp: hash_and_store_str_def call_manager_def insert_hash_def Let_def split: option.split)
  then obtain h lg' where h: "hash_and_store_str E f name lg = Some (h, lg')" by fastforce
  have "names_defined lg \<longrightarrow> names_defined lg'" using hash_str_spec [OF h] by simp
  then have "grows [] lg lg'"
    using h assms(1) by (auto simp: hash_and_store_str_def call_manager_def grows_def event_of_quiet Let_def split: option.splits if_splits)
      (auto simp: insert_hash_def put_call_def)
  then show ?thesis using h assms(2) by simp
qed

lemma hash_post:
  assumes "lg_manager lg" and "\<And>g. f = Some g \<Longrightarrow> length g < PATH_MAX"
    and "\<And>h lg'. grows [] lg lg' \<Longrightarrow> h = None \<longleftrightarrow> f = None \<Longrightarrow> Q (h, lg')"
  shows "post (hash_and_store E f name lg) Q"
proof (cases f)
  case (Some g)
  then show ?thesis using assms by (auto simp: hash_and_store_def intro!: hash_str_post)
qed (simp add: hash_and_store_def assms grows_refl)

definition no_tid :: "metadata option \<Rightarrow> bool" where
  "no_tid md \<longleftrightarrow> (\<forall>m. md = Some m \<longrightarrow> metadata_find ''tid'' m = None)"

lemma mpi_grows: "handle_mpi E tid lg = Some lg' \<Longrightarrow> lg_is_init lg' = lg_is_init lg \<and> lg_process_id lg' = lg_process_id lg"
  by (auto simp: handle_mpi_def call_manager_def put_call_def Let_def split: if_splits option.splits)

lemma log_post:
  assumes "lg_manager lg" "no_tid md" and "\<And>lg'. grows [(category, name)] lg lg' \<Longrightarrow> Q lg'"
  shows "post (logger_log E name category ty start duration md lg) Q"
proof -
  have "\<exists>tid. event_tid E md lg = Some (tid, md)"
    using assms(2) by (cases md) (simp_all add: event_tid_def no_tid_def)
  then obtain tid where tid: "event_tid E md lg = Some (tid, md)" by blast
  let ?lg = "lg\<lparr>lg_index := lg_index lg + 1\<rparr>"
  have "handle_mpi E tid ?lg \<noteq> None"
    using assms(1) by (auto simp: handle_mpi_def call_manager_def Let_def split: option.splits)
  then obtain lg1 where mpi: "handle_mpi E tid ?lg = Some lg1" by blast
  let ?lg' = "mark_layer ty (put_call (Mgr_log (Log_Data (lg_index lg1) name category ty start duration md
    (lg_process_id lg1) tid)) (lg1\<lparr>lg_has_entry := True\<rparr>))"
  have q: "lg_manager lg1 = lg_manager lg" "events lg1 = events lg" "lg_index lg1 = lg_index lg + 1"
    using handle_mpi_quiet [OF mpi] quiet_events [OF handle_mpi_quiet [OF mpi]] by (simp_all add: quiet_def)
  have log: "logger_log E name category ty start duration md lg = Some ?lg'"
    using q assms(1) by (simp add: logger_log_def tid mpi Let_def)
  have "grows [(category, name)] lg ?lg'"
    using q assms(1) mpi_grows [OF mpi] logger_log_names [OF _ log]
    by (auto simp: grows_def mark_layer_def put_call_def events_def)
  then show ?thesis using log assms(3) by simp
qed

section \<open>What a wrapper does\<close>

text \<open>
  \<open>wrapped R cat name f args names conv start track w\<close>: the wrapper \<open>w\<close> passes the call to the real
  function \<open>f\<close> with exactly these arguments and returns its result; when \<open>start\<close> finds the call
  untraced that is all it does, and when it is traced it also logs one event with its own name,
  and \<open>track\<close>s the result. \<open>names\<close> are the names of the call that the event hashes beside the one
  \<open>start\<close> looks at; they must not be null.
\<close>

definition wrapped ::
  "'w libc \<Rightarrow> string \<Rightarrow> string \<Rightarrow> string \<Rightarrow> c_arg list \<Rightarrow> u64 list \<Rightarrow> (u64 \<Rightarrow> 'r)
     \<Rightarrow> ('w traced_process \<Rightarrow> (event_locals \<times> 'w traced_process) option)
     \<Rightarrow> (string option \<Rightarrow> 'r \<Rightarrow> 'w traced_process \<Rightarrow> 'w traced_process)
     \<Rightarrow> ('w traced_process \<Rightarrow> ('r \<times> 'w traced_process) option) \<Rightarrow> bool" where
  "wrapped R cat name f args names conv start track w \<longleftrightarrow> (\<forall>s.
     case start s of
       None \<Rightarrow> w s = None
     | Some (c, s1) \<Rightarrow>
         (let (r, world) = libc_call R f args (tp_world s1)
          in if \<not> ev_traced c then w s = Some (conv r, s1\<lparr>tp_world := world\<rparr>)
             else names_fit R \<and> NULL \<notin> set names \<and> lg_manager (tp_logger s1) \<longrightarrow>
               (\<exists>lg. w s = Some (conv r, track (ev_hash c) (conv r) (s1\<lparr>tp_world := world, tp_logger := lg\<rparr>)) \<and>
                 grows [(Some cat, Some name)] (tp_logger s1) lg)))"

definition keep :: "string option \<Rightarrow> 'r \<Rightarrow> 'w traced_process \<Rightarrow> 'w traced_process" where
  "keep h r s = s"

definition track_fd :: "string option \<Rightarrow> u32 \<Rightarrow> 'w traced_process \<Rightarrow> 'w traced_process" where
  "track_fd h r s = set_trace r h s"

definition track_fh :: "'w libc \<Rightarrow> string option \<Rightarrow> u64 \<Rightarrow> 'w traced_process \<Rightarrow> 'w traced_process" where
  "track_fh R h r s = trace_fh R r h s"

text \<open>The locals of a traced call.\<close>

definition traced_as :: "string option \<Rightarrow> event_locals \<Rightarrow> bool" where
  "traced_as h c \<longleftrightarrow> ev_traced c \<and> ev_hash c = h \<and> no_tid (ev_args c)"

lemma traced_asD: "traced_as h c \<Longrightarrow> ev_traced c" "traced_as h c \<Longrightarrow> ev_hash c = h"
  by (simp_all add: traced_as_def)

lemma traced_as_upd [simp]: "key \<noteq> ''tid'' \<Longrightarrow> traced_as h (upd ty key v c) = traced_as h c"
  by (cases "ev_args c") (simp_all add: traced_as_def upd_def no_tid_def find_insert_or_assign)

lemma traced_as_strlen [simp]:
  "key \<noteq> ''tid'' \<Longrightarrow> traced_as h (upd_strlen R key p c s) = traced_as h c"
  "key \<noteq> ''tid'' \<Longrightarrow> traced_as h (upd_wcslen R key p c s) = traced_as h c"
  by (simp_all add: upd_strlen_def upd_wcslen_def split: option.split)

text \<open>The locals of an untraced call stay as they are.\<close>

definition untraced :: "event_locals \<Rightarrow> bool" where
  "untraced c \<longleftrightarrow> \<not> ev_traced c \<and> ev_args c = None"

lemma untracedD [simp]: "untraced c \<Longrightarrow> \<not> ev_traced c"
  by (simp add: untraced_def)

lemma untraced_upd [simp]: "untraced c \<Longrightarrow> upd ty key v c = c"
  by (simp add: untraced_def upd_def)

lemma untraced_strlen [simp]:
  "untraced c \<Longrightarrow> upd_strlen R key p c s = c" "untraced c \<Longrightarrow> upd_wcslen R key p c s = c"
  by (simp_all add: upd_strlen_def upd_wcslen_def split: option.split)

lemma untraced_hash [simp]: "untraced c \<Longrightarrow> upd_hash R key p c s = Some (c, s)"
  by (simp add: untraced_def upd_hash_def)

lemma untraced_end [simp]: "untraced c \<Longrightarrow> end_event R cat name c s = Some s"
  by (simp add: untraced_def end_event_def)

lemma names_fit_null: "names_fit R \<Longrightarrow> p \<noteq> NULL \<Longrightarrow> string_at R w p \<noteq> None"
  by (auto simp: names_fit_def)

lemma upd_hash_post [post_rules]:
  assumes "names_fit R" "p \<noteq> NULL" "traced_as h c" "grows es base (tp_logger s)" "key \<noteq> ''tid''"
    and "\<And>c' lg. traced_as h c' \<Longrightarrow> grows es base lg \<Longrightarrow> Q (c', s\<lparr>tp_logger := lg\<rparr>)"
  shows "post (upd_hash R key p c s) Q"
proof (cases "ev_args c")
  case None
  then show ?thesis using assms(6) [of c "tp_logger s"] assms(3,4) by (simp add: upd_hash_def)
next
  case (Some m)
  have step: "grows [] (tp_logger s) lg \<Longrightarrow> grows es base lg" for lg
    using grows_trans [OF assms(4), of "[]" lg] by simp
  show ?thesis
    using assms(1,3-5) names_fit_null [OF assms(1,2), of "tp_world s"] Some
    by (auto simp: upd_hash_def upd_text_key_def unhashable_def name_fits grows_manager
        intro!: post_bind hash_post assms(6) dest!: step)
qed

text \<open>A null name in a traced call with metadata throws.\<close>

lemma upd_hash_null:
  assumes "string_at R (tp_world s) p = None" "ev_args c \<noteq> None"
  shows "upd_hash R key p c s = None"
  using assms by (auto simp: upd_hash_def upd_text_key_def unhashable_def hash_and_store_def)

lemma end_event_post [post_rules]:
  assumes "traced_as h c" "grows es base (tp_logger s)"
    and "\<And>lg. grows (es @ [(Some cat, Some name)]) base lg \<Longrightarrow> Q (s\<lparr>tp_logger := lg\<rparr>)"
  shows "post (end_event R cat name c s) Q"
proof -
  have "post (logger_log (logger_world R (tp_world s)) (Some name) (Some cat) TYPE_LIBC_IO
      (ev_start c) (now R s - ev_start c) (ev_args c) (tp_logger s)) (\<lambda>lg. Q (s\<lparr>tp_logger := lg\<rparr>))"
    using assms grows_trans [OF assms(2)] by (auto simp: traced_as_def grows_manager intro!: log_post)
  then show ?thesis using assms(1) by (simp add: end_event_def traced_as_def)
qed

text \<open>What the macros that begin a call promise.\<close>

definition starts :: "('w traced_process \<Rightarrow> (event_locals \<times> 'w traced_process) option) \<Rightarrow> bool" where
  "starts start \<longleftrightarrow> (\<forall>s c s1. start s = Some (c, s1) \<longrightarrow>
     (if ev_traced c then traced_as (ev_hash c) c else untraced c))"

named_theorems start_rules

lemma start_hash_starts:
  "if ev_traced (start_hash R h s) then traced_as (ev_hash (start_hash R h s)) (start_hash R h s)
   else untraced (start_hash R h s)"
  by (auto simp: start_hash_def traced_as_def untraced_def no_tid_def find_insert_or_assign metadata_find_def [of _ "[]"])

lemma starts_rules [start_rules]:
  "starts (\<lambda>s. start_fd R (fd s) s)" "starts (start_fd R d)" "starts (start_path R p)" "starts (start_at R d p)"
  "starts (start_fh R fh)" "starts (start_stream_path R p)" "starts (start_stream_fd R d)"
  using start_hash_starts
  by (auto simp: starts_def start_fd_def start_path_def start_at_def start_fh_def start_stream_path_def
      start_stream_fd_def split del: if_split)

lemma starts_always [start_rules]: "starts (start_always R)"
  by (auto simp: starts_def start_always_def traced_as_def untraced_def no_tid_def metadata_find_def Let_def)

lemma wrappedI:
  assumes "starts start"
    and "\<And>s. start s = None \<Longrightarrow> w s = None"
    and "\<And>s c s1. start s = Some (c, s1) \<Longrightarrow> untraced c \<Longrightarrow>
      w s = Some (conv (fst (libc_call R f args (tp_world s1))), s1\<lparr>tp_world := snd (libc_call R f args (tp_world s1))\<rparr>)"
    and "\<And>s c s1 h. start s = Some (c, s1) \<Longrightarrow> traced_as h c \<Longrightarrow> names_fit R \<Longrightarrow> NULL \<notin> set names \<Longrightarrow>
      grows [] (tp_logger s1) (tp_logger s1) \<Longrightarrow>
      post (w s) (\<lambda>x. \<exists>lg. x = (conv (fst (libc_call R f args (tp_world s1))),
          track h (conv (fst (libc_call R f args (tp_world s1))))
            (s1\<lparr>tp_world := snd (libc_call R f args (tp_world s1)), tp_logger := lg\<rparr>)) \<and>
        grows [(Some cat, Some name)] (tp_logger s1) lg)"
  shows "wrapped R cat name f args names conv start track w"
  unfolding wrapped_def
proof
  fix s
  show "case start s of None \<Rightarrow> w s = None | Some (c, s1) \<Rightarrow>
      (let (r, world) = libc_call R f args (tp_world s1)
       in if \<not> ev_traced c then w s = Some (conv r, s1\<lparr>tp_world := world\<rparr>)
          else names_fit R \<and> NULL \<notin> set names \<and> lg_manager (tp_logger s1) \<longrightarrow>
            (\<exists>lg. w s = Some (conv r, track (ev_hash c) (conv r) (s1\<lparr>tp_world := world, tp_logger := lg\<rparr>)) \<and>
              grows [(Some cat, Some name)] (tp_logger s1) lg))"
  proof (cases "start s")
    case (Some cs)
    obtain c s1 where cs: "cs = (c, s1)" by (cases cs)
    have st: "if ev_traced c then traced_as (ev_hash c) c else untraced c"
      using assms(1) [unfolded starts_def, rule_format, of s c s1] Some cs by simp
    show ?thesis
      using st Some cs assms(3) [of s c s1] assms(4) [of s c s1 "ev_hash c"] grows_refl [of "tp_logger s1"]
      by (cases "w s") (auto simp: split_beta Let_def split: if_splits)
  qed (simp add: assms(2))
qed

lemma wrapped_traced:
  assumes "wrapped R cat name f args names conv start track w" "start s = Some (c, s1)" "ev_traced c"
    and "names_fit R" "NULL \<notin> set names" "lg_manager (tp_logger s1)" "libc_call R f args (tp_world s1) = (r, world)"
  shows "\<exists>lg. w s = Some (conv r, track (ev_hash c) (conv r) (s1\<lparr>tp_world := world, tp_logger := lg\<rparr>)) \<and>
    grows [(Some cat, Some name)] (tp_logger s1) lg"
  using assms(1) [unfolded wrapped_def, rule_format, of s] assms(2-7) by simp

lemma wrapped_untraced:
  assumes "wrapped R cat name f args names conv start track w" "start s = Some (c, s1)" "\<not> ev_traced c"
    and "libc_call R f args (tp_world s1) = (r, world)"
  shows "w s = Some (conv r, s1\<lparr>tp_world := world\<rparr>)"
  using assms(1) [unfolded wrapped_def, rule_format, of s] assms(2-4) by simp

lemmas call_defs = call_int_def call_void_def call_real_def Let_def split_beta
lemmas track_defs = keep_def track_fd_def track_fh_def
lemmas wrapper_simps = call_defs track_defs traced_asD

named_theorems wrapped_rules

end
