(* ===== verification/Posix_Calls.thy ===== *)
theory Posix_Calls
  imports Intercept
begin

text \<open>
  The wrappers of \<open>core/brahma/posix.cpp\<close>, in the order of the file, up to the \<open>exec\<close> family: each
  finds whether its descriptor or path is traced, calls the real function, and logs an event. An
  argument of the C function is an argument of the definition; \<open>mode\<close> is the variable argument of
  the \<open>open\<close> functions. After every wrapper stands what it does as a whole (\<open>wrapped\<close>), which its
  proof gets from the rules for the macros.
\<close>

definition posix_open where "posix_open R pathname flags mode s = do {
     (ev, s) \<leftarrow> start_path R pathname s;
     let ev = (if flags AND O_CREAT \<noteq> 0 then upd_val ''mode'' (int_value mode) ev else ev);
     let (ret, s) = (if flags AND O_CREAT \<noteq> 0 then call_int R ''open'' [C_ptr pathname, C_int flags,
       C_int mode] s
      else call_int R ''open'' [C_ptr pathname, C_int flags] s);
     let ev = upd_val ''flags'' (int_value flags) ev;
     s \<leftarrow> end_event R ''POSIX'' ''open'' ev s;
     let s = (if ev_traced ev then set_trace ret (ev_hash ev) s else s);
     Some (ret, s) }"

lemma posix_open_wrapped [wrapped_rules]:
  "wrapped R ''POSIX'' ''open'' ''open'' (if flags AND O_CREAT \<noteq> 0 then [C_ptr pathname, C_int flags,
    C_int mode] else [C_ptr pathname, C_int flags]) [] ucast
    (start_path R pathname) track_fd (posix_open R pathname flags mode)"
  by (rule wrappedI, rule start_rules) (auto simp: posix_open_def wrapper_simps intro!: post_rules)

definition posix_close where "posix_close R fd s = do {
     (ev, s) \<leftarrow> start_fd R fd s;
     let s = (if ev_traced ev then remove_trace R fd s else s);
     let (ret, s) = call_int R ''close'' [C_int fd] s;
     let ev = upd_val ''ret'' (int_value ret) ev;
     s \<leftarrow> end_event R ''POSIX'' ''close'' ev s;
     Some (ret, s) }"

definition posix_write where "posix_write R fd buf count' s = do {
     (ev, s) \<leftarrow> start_fd R fd s;
     let ev = upd_val ''count'' (size_value count') ev;
     let (ret, s) = call_long R ''write'' [C_int fd, C_ptr buf, C_long count'] s;
     let ev = upd_val ''ret'' (long_value ret) ev;
     s \<leftarrow> end_event R ''POSIX'' ''write'' ev s;
     Some (ret, s) }"

lemma posix_write_wrapped [wrapped_rules]:
  "wrapped R ''POSIX'' ''write'' ''write'' [C_int fd, C_ptr buf, C_long count'] [] (\<lambda>r. r)
    (start_fd R fd) keep (posix_write R fd buf count')"
  by (rule wrappedI, rule start_rules) (auto simp: posix_write_def wrapper_simps intro!: post_rules)

definition posix_read where "posix_read R fd buf count' s = do {
     (ev, s) \<leftarrow> start_fd R fd s;
     let ev = upd_val ''count'' (size_value count') ev;
     let (ret, s) = call_long R ''read'' [C_int fd, C_ptr buf, C_long count'] s;
     let ev = upd_val ''ret'' (long_value ret) ev;
     s \<leftarrow> end_event R ''POSIX'' ''read'' ev s;
     Some (ret, s) }"

lemma posix_read_wrapped [wrapped_rules]:
  "wrapped R ''POSIX'' ''read'' ''read'' [C_int fd, C_ptr buf, C_long count'] [] (\<lambda>r. r)
    (start_fd R fd) keep (posix_read R fd buf count')"
  by (rule wrappedI, rule start_rules) (auto simp: posix_read_def wrapper_simps intro!: post_rules)

definition posix_lseek where "posix_lseek R fd offset whence s = do {
     (ev, s) \<leftarrow> start_fd R fd s;
     let ev = upd_val ''offset'' (long_value offset) ev;
     let ev = upd_val ''whence'' (int_value whence) ev;
     let (ret, s) = call_long R ''lseek'' [C_int fd, C_long offset, C_int whence] s;
     let ev = upd_val ''ret'' (long_value ret) ev;
     s \<leftarrow> end_event R ''POSIX'' ''lseek'' ev s;
     Some (ret, s) }"

lemma posix_lseek_wrapped [wrapped_rules]:
  "wrapped R ''POSIX'' ''lseek'' ''lseek'' [C_int fd, C_long offset, C_int whence] [] (\<lambda>r. r)
    (start_fd R fd) keep (posix_lseek R fd offset whence)"
  by (rule wrappedI, rule start_rules) (auto simp: posix_lseek_def wrapper_simps intro!: post_rules)

definition posix_creat where "posix_creat R path mode s = do {
     (ev, s) \<leftarrow> start_path R path s;
     let ev = upd_val ''mode'' (unsigned_value mode) ev;
     let (ret, s) = call_int R ''creat'' [C_ptr path, C_int mode] s;
     s \<leftarrow> end_event R ''POSIX'' ''creat'' ev s;
     let s = (if ev_traced ev then set_trace ret (ev_hash ev) s else s);
     Some (ret, s) }"

lemma posix_creat_wrapped [wrapped_rules]:
  "wrapped R ''POSIX'' ''creat'' ''creat'' [C_ptr path, C_int mode] [] ucast
    (start_path R path) track_fd (posix_creat R path mode)"
  by (rule wrappedI, rule start_rules) (auto simp: posix_creat_def wrapper_simps intro!: post_rules)

definition posix_creat64 where "posix_creat64 R path mode s = do {
     (ev, s) \<leftarrow> start_path R path s;
     let ev = upd_val ''mode'' (unsigned_value mode) ev;
     let (ret, s) = call_int R ''creat64'' [C_ptr path, C_int mode] s;
     s \<leftarrow> end_event R ''POSIX'' ''creat64'' ev s;
     let s = (if ev_traced ev then set_trace ret (ev_hash ev) s else s);
     Some (ret, s) }"

lemma posix_creat64_wrapped [wrapped_rules]:
  "wrapped R ''POSIX'' ''creat64'' ''creat64'' [C_ptr path, C_int mode] [] ucast
    (start_path R path) track_fd (posix_creat64 R path mode)"
  by (rule wrappedI, rule start_rules) (auto simp: posix_creat64_def wrapper_simps intro!: post_rules)

definition posix_open64 where "posix_open64 R path flags mode s = do {
     (ev, s) \<leftarrow> start_path R path s;
     let ev = (if flags AND O_CREAT \<noteq> 0 then upd_val ''mode'' (int_value mode) ev else ev);
     let (ret, s) = (if flags AND O_CREAT \<noteq> 0 then call_int R ''open64'' [C_ptr path, C_int flags,
       C_int mode] s
      else call_int R ''open64'' [C_ptr path, C_int flags] s);
     let ev = upd_val ''flags'' (int_value flags) ev;
     s \<leftarrow> end_event R ''POSIX'' ''open64'' ev s;
     let s = (if ev_traced ev then set_trace ret (ev_hash ev) s else s);
     Some (ret, s) }"

lemma posix_open64_wrapped [wrapped_rules]:
  "wrapped R ''POSIX'' ''open64'' ''open64'' (if flags AND O_CREAT \<noteq> 0 then [C_ptr path, C_int flags,
    C_int mode] else [C_ptr path, C_int flags]) [] ucast
    (start_path R path) track_fd (posix_open64 R path flags mode)"
  by (rule wrappedI, rule start_rules) (auto simp: posix_open64_def wrapper_simps intro!: post_rules)

definition posix_lseek64 where "posix_lseek64 R fd offset whence s = do {
     (ev, s) \<leftarrow> start_fd R fd s;
     let ev = upd_val ''offset'' (long_value offset) ev;
     let ev = upd_val ''whence'' (int_value whence) ev;
     let (ret, s) = call_long R ''lseek64'' [C_int fd, C_long offset, C_int whence] s;
     let ev = upd_val ''ret'' (long_value ret) ev;
     s \<leftarrow> end_event R ''POSIX'' ''lseek64'' ev s;
     Some (ret, s) }"

lemma posix_lseek64_wrapped [wrapped_rules]:
  "wrapped R ''POSIX'' ''lseek64'' ''lseek64'' [C_int fd, C_long offset, C_int whence] [] (\<lambda>r. r)
    (start_fd R fd) keep (posix_lseek64 R fd offset whence)"
  by (rule wrappedI, rule start_rules) (auto simp: posix_lseek64_def wrapper_simps intro!: post_rules)

definition posix_pread where "posix_pread R fd buf count' offset s = do {
     (ev, s) \<leftarrow> start_fd R fd s;
     let ev = upd_val ''count'' (size_value count') ev;
     let ev = upd_val ''offset'' (long_value offset) ev;
     let (ret, s) = call_long R ''pread'' [C_int fd, C_ptr buf, C_long count', C_long offset] s;
     let ev = upd_val ''ret'' (long_value ret) ev;
     s \<leftarrow> end_event R ''POSIX'' ''pread'' ev s;
     Some (ret, s) }"

lemma posix_pread_wrapped [wrapped_rules]:
  "wrapped R ''POSIX'' ''pread'' ''pread'' [C_int fd, C_ptr buf, C_long count', C_long offset]
    [] (\<lambda>r. r)
    (start_fd R fd) keep (posix_pread R fd buf count' offset)"
  by (rule wrappedI, rule start_rules) (auto simp: posix_pread_def wrapper_simps intro!: post_rules)

definition posix_pread64 where "posix_pread64 R fd buf count' offset s = do {
     (ev, s) \<leftarrow> start_fd R fd s;
     let ev = upd_val ''count'' (size_value count') ev;
     let ev = upd_val ''offset'' (long_value offset) ev;
     let (ret, s) = call_long R ''pread64'' [C_int fd, C_ptr buf, C_long count', C_long offset] s;
     let ev = upd_val ''ret'' (long_value ret) ev;
     s \<leftarrow> end_event R ''POSIX'' ''pread64'' ev s;
     Some (ret, s) }"

lemma posix_pread64_wrapped [wrapped_rules]:
  "wrapped R ''POSIX'' ''pread64'' ''pread64'' [C_int fd, C_ptr buf, C_long count', C_long offset]
    [] (\<lambda>r. r)
    (start_fd R fd) keep (posix_pread64 R fd buf count' offset)"
  by (rule wrappedI, rule start_rules) (auto simp: posix_pread64_def wrapper_simps intro!: post_rules)

definition posix_pwrite where "posix_pwrite R fd buf count' offset s = do {
     (ev, s) \<leftarrow> start_fd R fd s;
     let ev = upd_val ''count'' (size_value count') ev;
     let ev = upd_val ''offset'' (long_value offset) ev;
     let (ret, s) = call_long R ''pwrite'' [C_int fd, C_ptr buf, C_long count', C_long offset] s;
     let ev = upd_val ''ret'' (long_value ret) ev;
     s \<leftarrow> end_event R ''POSIX'' ''pwrite'' ev s;
     Some (ret, s) }"

lemma posix_pwrite_wrapped [wrapped_rules]:
  "wrapped R ''POSIX'' ''pwrite'' ''pwrite'' [C_int fd, C_ptr buf, C_long count', C_long offset]
    [] (\<lambda>r. r)
    (start_fd R fd) keep (posix_pwrite R fd buf count' offset)"
  by (rule wrappedI, rule start_rules) (auto simp: posix_pwrite_def wrapper_simps intro!: post_rules)

definition posix_pwrite64 where "posix_pwrite64 R fd buf count' offset s = do {
     (ev, s) \<leftarrow> start_fd R fd s;
     let ev = upd_val ''count'' (size_value count') ev;
     let ev = upd_val ''offset'' (long_value offset) ev;
     let (ret, s) = call_long R ''pwrite64'' [C_int fd, C_ptr buf, C_long count', C_long offset] s;
     let ev = upd_val ''ret'' (long_value ret) ev;
     s \<leftarrow> end_event R ''POSIX'' ''pwrite64'' ev s;
     Some (ret, s) }"

lemma posix_pwrite64_wrapped [wrapped_rules]:
  "wrapped R ''POSIX'' ''pwrite64'' ''pwrite64'' [C_int fd, C_ptr buf, C_long count', C_long offset]
    [] (\<lambda>r. r)
    (start_fd R fd) keep (posix_pwrite64 R fd buf count' offset)"
  by (rule wrappedI, rule start_rules) (auto simp: posix_pwrite64_def wrapper_simps intro!: post_rules)

definition posix_fsync where "posix_fsync R fd s = do {
     (ev, s) \<leftarrow> start_fd R fd s;
     let (ret, s) = call_int R ''fsync'' [C_int fd] s;
     s \<leftarrow> end_event R ''POSIX'' ''fsync'' ev s;
     Some (ret, s) }"

lemma posix_fsync_wrapped [wrapped_rules]:
  "wrapped R ''POSIX'' ''fsync'' ''fsync'' [C_int fd] [] ucast
    (start_fd R fd) keep (posix_fsync R fd)"
  by (rule wrappedI, rule start_rules) (auto simp: posix_fsync_def wrapper_simps intro!: post_rules)

definition posix_fdatasync where "posix_fdatasync R fd s = do {
     (ev, s) \<leftarrow> start_fd R fd s;
     let (ret, s) = call_int R ''fdatasync'' [C_int fd] s;
     s \<leftarrow> end_event R ''POSIX'' ''fdatasync'' ev s;
     Some (ret, s) }"

lemma posix_fdatasync_wrapped [wrapped_rules]:
  "wrapped R ''POSIX'' ''fdatasync'' ''fdatasync'' [C_int fd] [] ucast
    (start_fd R fd) keep (posix_fdatasync R fd)"
  by (rule wrappedI, rule start_rules) (auto simp: posix_fdatasync_def wrapper_simps intro!: post_rules)

definition posix_openat where "posix_openat R dirfd pathname flags mode s = do {
     (ev, s) \<leftarrow> start_fd R dirfd s;
     let ev = upd_key ''dirfd'' (int_value dirfd) ev;
     let ev = upd_val ''flags'' (int_value flags) ev;
     (ev, s) \<leftarrow> upd_hash R ''pathname_hash'' pathname ev s;
     let ev = (if flags AND O_CREAT \<noteq> 0 then upd_val ''mode'' (int_value mode) ev else ev);
     let (ret, s) = (if flags AND O_CREAT \<noteq> 0 then call_int R ''openat'' [C_int dirfd, C_ptr pathname,
       C_int flags, C_int mode] s
      else call_int R ''openat'' [C_int dirfd, C_ptr pathname, C_int flags] s);
     s \<leftarrow> end_event R ''POSIX'' ''openat'' ev s;
     let s = (if ev_traced ev then set_trace ret (ev_hash ev) s else s);
     Some (ret, s) }"

lemma posix_openat_wrapped [wrapped_rules]:
  "wrapped R ''POSIX'' ''openat'' ''openat'' (if flags AND O_CREAT \<noteq> 0 then [C_int dirfd,
    C_ptr pathname, C_int flags, C_int mode] else [C_int dirfd, C_ptr pathname, C_int flags]) [pathname] ucast
    (start_fd R dirfd) track_fd (posix_openat R dirfd pathname flags mode)"
  by (rule wrappedI, rule start_rules) (auto simp: posix_openat_def wrapper_simps intro!: post_rules)

definition posix_mmap where "posix_mmap R addr length' prot flags fd offset s = do {
     (ev, s) \<leftarrow> start_fd R fd s;
     let ev = upd_val ''length'' (size_value length') ev;
     let ev = upd_val ''flags'' (int_value flags) ev;
     let ev = upd_val ''offset'' (long_value offset) ev;
     let (ret, s) = call_long R ''mmap'' [C_ptr addr, C_long length', C_int prot, C_int flags, C_int fd,
       C_long offset] s;
     let address = ret;
     let ev = upd_val ''address'' (size_value address) ev;
     s \<leftarrow> end_event R ''POSIX'' ''mmap'' ev s;
     Some (ret, s) }"

lemma posix_mmap_wrapped [wrapped_rules]:
  "wrapped R ''POSIX'' ''mmap'' ''mmap'' [C_ptr addr, C_long length', C_int prot, C_int flags, C_int fd,
    C_long offset] [] (\<lambda>r. r)
    (start_fd R fd) keep (posix_mmap R addr length' prot flags fd offset)"
  by (rule wrappedI, rule start_rules) (auto simp: posix_mmap_def wrapper_simps intro!: post_rules)

definition posix_mmap64 where "posix_mmap64 R addr length' prot flags fd offset s = do {
     (ev, s) \<leftarrow> start_fd R fd s;
     let ev = upd_val ''length'' (size_value length') ev;
     let ev = upd_val ''flags'' (int_value flags) ev;
     let ev = upd_val ''offset'' (long_value offset) ev;
     let (ret, s) = call_long R ''mmap64'' [C_ptr addr, C_long length', C_int prot, C_int flags, C_int fd,
       C_long offset] s;
     let address = ret;
     let ev = upd_val ''address'' (size_value address) ev;
     s \<leftarrow> end_event R ''POSIX'' ''mmap64'' ev s;
     Some (ret, s) }"

lemma posix_mmap64_wrapped [wrapped_rules]:
  "wrapped R ''POSIX'' ''mmap64'' ''mmap64'' [C_ptr addr, C_long length', C_int prot, C_int flags, C_int fd,
    C_long offset] [] (\<lambda>r. r)
    (start_fd R fd) keep (posix_mmap64 R addr length' prot flags fd offset)"
  by (rule wrappedI, rule start_rules) (auto simp: posix_mmap64_def wrapper_simps intro!: post_rules)

definition posix___xstat where "posix___xstat R vers path buf s = do {
     (ev, s) \<leftarrow> start_path R path s;
     let (ret, s) = call_int R ''__xstat'' [C_int vers, C_ptr path, C_ptr buf] s;
     s \<leftarrow> end_event R ''POSIX'' ''__xstat'' ev s;
     Some (ret, s) }"

lemma posix_xstat_wrapped [wrapped_rules]:
  "wrapped R ''POSIX'' ''__xstat'' ''__xstat'' [C_int vers, C_ptr path, C_ptr buf] [] ucast
    (start_path R path) keep (posix___xstat R vers path buf)"
  by (rule wrappedI, rule start_rules) (auto simp: posix___xstat_def wrapper_simps intro!: post_rules)

definition posix___xstat64 where "posix___xstat64 R vers path buf s = do {
     (ev, s) \<leftarrow> start_path R path s;
     let (ret, s) = call_int R ''__xstat64'' [C_int vers, C_ptr path, C_ptr buf] s;
     s \<leftarrow> end_event R ''POSIX'' ''__xstat64'' ev s;
     Some (ret, s) }"

lemma posix_xstat64_wrapped [wrapped_rules]:
  "wrapped R ''POSIX'' ''__xstat64'' ''__xstat64'' [C_int vers, C_ptr path, C_ptr buf] [] ucast
    (start_path R path) keep (posix___xstat64 R vers path buf)"
  by (rule wrappedI, rule start_rules) (auto simp: posix___xstat64_def wrapper_simps intro!: post_rules)

definition posix___lxstat where "posix___lxstat R vers path buf s = do {
     (ev, s) \<leftarrow> start_path R path s;
     let (ret, s) = call_int R ''__lxstat'' [C_int vers, C_ptr path, C_ptr buf] s;
     s \<leftarrow> end_event R ''POSIX'' ''__lxstat'' ev s;
     Some (ret, s) }"

lemma posix_lxstat_wrapped [wrapped_rules]:
  "wrapped R ''POSIX'' ''__lxstat'' ''__lxstat'' [C_int vers, C_ptr path, C_ptr buf] [] ucast
    (start_path R path) keep (posix___lxstat R vers path buf)"
  by (rule wrappedI, rule start_rules) (auto simp: posix___lxstat_def wrapper_simps intro!: post_rules)

definition posix___lxstat64 where "posix___lxstat64 R vers path buf s = do {
     (ev, s) \<leftarrow> start_path R path s;
     let (ret, s) = call_int R ''__lxstat64'' [C_int vers, C_ptr path, C_ptr buf] s;
     s \<leftarrow> end_event R ''POSIX'' ''__lxstat64'' ev s;
     Some (ret, s) }"

lemma posix_lxstat64_wrapped [wrapped_rules]:
  "wrapped R ''POSIX'' ''__lxstat64'' ''__lxstat64'' [C_int vers, C_ptr path, C_ptr buf] [] ucast
    (start_path R path) keep (posix___lxstat64 R vers path buf)"
  by (rule wrappedI, rule start_rules) (auto simp: posix___lxstat64_def wrapper_simps intro!: post_rules)

definition posix___fxstat where "posix___fxstat R vers fd buf s = do {
     (ev, s) \<leftarrow> start_fd R fd s;
     let (ret, s) = call_int R ''__fxstat'' [C_int vers, C_int fd, C_ptr buf] s;
     s \<leftarrow> end_event R ''POSIX'' ''__fxstat'' ev s;
     Some (ret, s) }"

lemma posix_fxstat_wrapped [wrapped_rules]:
  "wrapped R ''POSIX'' ''__fxstat'' ''__fxstat'' [C_int vers, C_int fd, C_ptr buf] [] ucast
    (start_fd R fd) keep (posix___fxstat R vers fd buf)"
  by (rule wrappedI, rule start_rules) (auto simp: posix___fxstat_def wrapper_simps intro!: post_rules)

definition posix___fxstat64 where "posix___fxstat64 R vers fd buf s = do {
     (ev, s) \<leftarrow> start_fd R fd s;
     let (ret, s) = call_int R ''__fxstat64'' [C_int vers, C_int fd, C_ptr buf] s;
     s \<leftarrow> end_event R ''POSIX'' ''__fxstat64'' ev s;
     Some (ret, s) }"

lemma posix_fxstat64_wrapped [wrapped_rules]:
  "wrapped R ''POSIX'' ''__fxstat64'' ''__fxstat64'' [C_int vers, C_int fd, C_ptr buf] [] ucast
    (start_fd R fd) keep (posix___fxstat64 R vers fd buf)"
  by (rule wrappedI, rule start_rules) (auto simp: posix___fxstat64_def wrapper_simps intro!: post_rules)

definition posix_mkdir where "posix_mkdir R pathname mode s = do {
     (ev, s) \<leftarrow> start_path R pathname s;
     let ev = upd_val ''mode'' (unsigned_value mode) ev;
     let (ret, s) = call_int R ''mkdir'' [C_ptr pathname, C_int mode] s;
     s \<leftarrow> end_event R ''POSIX'' ''mkdir'' ev s;
     Some (ret, s) }"

lemma posix_mkdir_wrapped [wrapped_rules]:
  "wrapped R ''POSIX'' ''mkdir'' ''mkdir'' [C_ptr pathname, C_int mode] [] ucast
    (start_path R pathname) keep (posix_mkdir R pathname mode)"
  by (rule wrappedI, rule start_rules) (auto simp: posix_mkdir_def wrapper_simps intro!: post_rules)

definition posix_rmdir where "posix_rmdir R pathname s = do {
     (ev, s) \<leftarrow> start_path R pathname s;
     let (ret, s) = call_int R ''rmdir'' [C_ptr pathname] s;
     s \<leftarrow> end_event R ''POSIX'' ''rmdir'' ev s;
     Some (ret, s) }"

lemma posix_rmdir_wrapped [wrapped_rules]:
  "wrapped R ''POSIX'' ''rmdir'' ''rmdir'' [C_ptr pathname] [] ucast
    (start_path R pathname) keep (posix_rmdir R pathname)"
  by (rule wrappedI, rule start_rules) (auto simp: posix_rmdir_def wrapper_simps intro!: post_rules)

definition posix_chdir where "posix_chdir R path s = do {
     (ev, s) \<leftarrow> start_path R path s;
     let (ret, s) = call_int R ''chdir'' [C_ptr path] s;
     s \<leftarrow> end_event R ''POSIX'' ''chdir'' ev s;
     Some (ret, s) }"

lemma posix_chdir_wrapped [wrapped_rules]:
  "wrapped R ''POSIX'' ''chdir'' ''chdir'' [C_ptr path] [] ucast
    (start_path R path) keep (posix_chdir R path)"
  by (rule wrappedI, rule start_rules) (auto simp: posix_chdir_def wrapper_simps intro!: post_rules)

definition posix_link where "posix_link R oldpath newpath s = do {
     (ev, s) \<leftarrow> start_path R oldpath s;
     (ev, s) \<leftarrow> upd_hash R ''newpath_hash'' newpath ev s;
     let (ret, s) = call_int R ''link'' [C_ptr oldpath, C_ptr newpath] s;
     s \<leftarrow> end_event R ''POSIX'' ''link'' ev s;
     Some (ret, s) }"

lemma posix_link_wrapped [wrapped_rules]:
  "wrapped R ''POSIX'' ''link'' ''link'' [C_ptr oldpath, C_ptr newpath] [newpath] ucast
    (start_path R oldpath) keep (posix_link R oldpath newpath)"
  by (rule wrappedI, rule start_rules) (auto simp: posix_link_def wrapper_simps intro!: post_rules)

definition posix_linkat where "posix_linkat R fd1 path1 fd2 path2 flag s = do {
     (ev, s) \<leftarrow> start_fd R fd1 s;
     let ev = upd_key ''fd1'' (int_value fd1) ev;
     let ev = upd_key ''fd2'' (int_value fd2) ev;
     (ev, s) \<leftarrow> upd_hash R ''path2_hash'' path2 ev s;
     let ev = upd_val ''flag'' (int_value flag) ev;
     let (ret, s) = call_int R ''linkat'' [C_int fd1, C_ptr path1, C_int fd2, C_ptr path2, C_int flag] s;
     let ev = upd_key ''ret'' (int_value ret) ev;
     s \<leftarrow> end_event R ''POSIX'' ''linkat'' ev s;
     Some (ret, s) }"

lemma posix_linkat_wrapped [wrapped_rules]:
  "wrapped R ''POSIX'' ''linkat'' ''linkat'' [C_int fd1, C_ptr path1, C_int fd2, C_ptr path2, C_int flag]
    [path2] ucast
    (start_fd R fd1) keep (posix_linkat R fd1 path1 fd2 path2 flag)"
  by (rule wrappedI, rule start_rules) (auto simp: posix_linkat_def wrapper_simps intro!: post_rules)

definition posix_unlink where "posix_unlink R pathname s = do {
     (ev, s) \<leftarrow> start_path R pathname s;
     let (ret, s) = call_int R ''unlink'' [C_ptr pathname] s;
     s \<leftarrow> end_event R ''POSIX'' ''unlink'' ev s;
     Some (ret, s) }"

lemma posix_unlink_wrapped [wrapped_rules]:
  "wrapped R ''POSIX'' ''unlink'' ''unlink'' [C_ptr pathname] [] ucast
    (start_path R pathname) keep (posix_unlink R pathname)"
  by (rule wrappedI, rule start_rules) (auto simp: posix_unlink_def wrapper_simps intro!: post_rules)

definition posix_symlink where "posix_symlink R path1 path2 s = do {
     (ev, s) \<leftarrow> start_path R path1 s;
     (ev, s) \<leftarrow> upd_hash R ''path2_hash'' path2 ev s;
     let (ret, s) = call_int R ''symlink'' [C_ptr path1, C_ptr path2] s;
     s \<leftarrow> end_event R ''POSIX'' ''symlink'' ev s;
     Some (ret, s) }"

lemma posix_symlink_wrapped [wrapped_rules]:
  "wrapped R ''POSIX'' ''symlink'' ''symlink'' [C_ptr path1, C_ptr path2] [path2] ucast
    (start_path R path1) keep (posix_symlink R path1 path2)"
  by (rule wrappedI, rule start_rules) (auto simp: posix_symlink_def wrapper_simps intro!: post_rules)

definition posix_symlinkat where "posix_symlinkat R path1 fd path2 s = do {
     (ev, s) \<leftarrow> start_path R path1 s;
     let ev = upd_key ''fd'' (int_value fd) ev;
     (ev, s) \<leftarrow> upd_hash R ''path2_hash'' path2 ev s;
     let (ret, s) = call_int R ''symlinkat'' [C_ptr path1, C_int fd, C_ptr path2] s;
     s \<leftarrow> end_event R ''POSIX'' ''symlinkat'' ev s;
     Some (ret, s) }"

lemma posix_symlinkat_wrapped [wrapped_rules]:
  "wrapped R ''POSIX'' ''symlinkat'' ''symlinkat'' [C_ptr path1, C_int fd, C_ptr path2] [path2] ucast
    (start_path R path1) keep (posix_symlinkat R path1 fd path2)"
  by (rule wrappedI, rule start_rules) (auto simp: posix_symlinkat_def wrapper_simps intro!: post_rules)

definition posix_readlink where "posix_readlink R path buf bufsize s = do {
     (ev, s) \<leftarrow> start_path R path s;
     let ev = upd_val ''bufsize'' (size_value bufsize) ev;
     let (ret, s) = call_long R ''readlink'' [C_ptr path, C_ptr buf, C_long bufsize] s;
     s \<leftarrow> end_event R ''POSIX'' ''readlink'' ev s;
     Some (ret, s) }"

lemma posix_readlink_wrapped [wrapped_rules]:
  "wrapped R ''POSIX'' ''readlink'' ''readlink'' [C_ptr path, C_ptr buf, C_long bufsize] [] (\<lambda>r. r)
    (start_path R path) keep (posix_readlink R path buf bufsize)"
  by (rule wrappedI, rule start_rules) (auto simp: posix_readlink_def wrapper_simps intro!: post_rules)

definition posix_readlinkat where "posix_readlinkat R fd path buf bufsize s =
     (if fd \<noteq> AT_FDCWD then do {
        (ev, s) \<leftarrow> start_fd R fd s;
        ev \<leftarrow> upd_text_key ''path'' (text_at R path s) ev;
        let ev = upd_val ''bufsize'' (size_value bufsize) ev;
        let (ret, s) = call_long R ''readlinkat'' [C_int fd, C_ptr path, C_ptr buf, C_long bufsize] s;
        s \<leftarrow> end_event R ''POSIX'' ''readlinkat'' ev s;
        Some (ret, s) }
      else do {
        (ev, s) \<leftarrow> start_path R path s;
        let ev = upd_val ''bufsize'' (size_value bufsize) ev;
        let (ret, s) = call_long R ''readlinkat'' [C_int fd, C_ptr path, C_ptr buf, C_long bufsize] s;
        s \<leftarrow> end_event R ''POSIX'' ''readlinkat'' ev s;
        Some (ret, s) })"

definition posix_rename where "posix_rename R oldpath newpath s = do {
     (ev, s) \<leftarrow> start_path R oldpath s;
     (ev, s) \<leftarrow> upd_hash R ''newpath_hash'' newpath ev s;
     let (ret, s) = call_int R ''rename'' [C_ptr oldpath, C_ptr newpath] s;
     s \<leftarrow> end_event R ''POSIX'' ''rename'' ev s;
     Some (ret, s) }"

lemma posix_rename_wrapped [wrapped_rules]:
  "wrapped R ''POSIX'' ''rename'' ''rename'' [C_ptr oldpath, C_ptr newpath] [newpath] ucast
    (start_path R oldpath) keep (posix_rename R oldpath newpath)"
  by (rule wrappedI, rule start_rules) (auto simp: posix_rename_def wrapper_simps intro!: post_rules)

definition posix_chmod where "posix_chmod R path mode s = do {
     (ev, s) \<leftarrow> start_path R path s;
     let ev = upd_val ''mode'' (unsigned_value mode) ev;
     let (ret, s) = call_int R ''chmod'' [C_ptr path, C_int mode] s;
     s \<leftarrow> end_event R ''POSIX'' ''chmod'' ev s;
     Some (ret, s) }"

lemma posix_chmod_wrapped [wrapped_rules]:
  "wrapped R ''POSIX'' ''chmod'' ''chmod'' [C_ptr path, C_int mode] [] ucast
    (start_path R path) keep (posix_chmod R path mode)"
  by (rule wrappedI, rule start_rules) (auto simp: posix_chmod_def wrapper_simps intro!: post_rules)

definition posix_chown where "posix_chown R path owner' group' s = do {
     (ev, s) \<leftarrow> start_path R path s;
     let ev = upd_val ''owner'' (unsigned_value owner') ev;
     let ev = upd_val ''group'' (unsigned_value group') ev;
     let (ret, s) = call_int R ''chown'' [C_ptr path, C_int owner', C_int group'] s;
     s \<leftarrow> end_event R ''POSIX'' ''chown'' ev s;
     Some (ret, s) }"

lemma posix_chown_wrapped [wrapped_rules]:
  "wrapped R ''POSIX'' ''chown'' ''chown'' [C_ptr path, C_int owner', C_int group'] [] ucast
    (start_path R path) keep (posix_chown R path owner' group')"
  by (rule wrappedI, rule start_rules) (auto simp: posix_chown_def wrapper_simps intro!: post_rules)

definition posix_lchown where "posix_lchown R path owner' group' s = do {
     (ev, s) \<leftarrow> start_path R path s;
     let ev = upd_val ''owner'' (unsigned_value owner') ev;
     let ev = upd_val ''group'' (unsigned_value group') ev;
     let (ret, s) = call_int R ''lchown'' [C_ptr path, C_int owner', C_int group'] s;
     s \<leftarrow> end_event R ''POSIX'' ''lchown'' ev s;
     Some (ret, s) }"

lemma posix_lchown_wrapped [wrapped_rules]:
  "wrapped R ''POSIX'' ''lchown'' ''lchown'' [C_ptr path, C_int owner', C_int group'] [] ucast
    (start_path R path) keep (posix_lchown R path owner' group')"
  by (rule wrappedI, rule start_rules) (auto simp: posix_lchown_def wrapper_simps intro!: post_rules)

definition posix_utime where "posix_utime R filename buf s = do {
     (ev, s) \<leftarrow> start_path R filename s;
     let (ret, s) = call_int R ''utime'' [C_ptr filename, C_ptr buf] s;
     s \<leftarrow> end_event R ''POSIX'' ''utime'' ev s;
     Some (ret, s) }"

lemma posix_utime_wrapped [wrapped_rules]:
  "wrapped R ''POSIX'' ''utime'' ''utime'' [C_ptr filename, C_ptr buf] [] ucast
    (start_path R filename) keep (posix_utime R filename buf)"
  by (rule wrappedI, rule start_rules) (auto simp: posix_utime_def wrapper_simps intro!: post_rules)

definition posix_opendir where "posix_opendir R name' s = do {
     (ev, s) \<leftarrow> start_path R name' s;
     let (ret, s) = call_long R ''opendir'' [C_ptr name'] s;
     s \<leftarrow> end_event R ''POSIX'' ''opendir'' ev s;
     let s = (if ev_traced ev \<and> ret \<noteq> NULL then set_trace (dir_fd R ret s) (ev_hash ev) s else s);
     Some (ret, s) }"

text \<open>The commands \<open>fcntl\<close> knows, by the argument it takes for them.\<close>

definition F_DUPFD :: u32 where "F_DUPFD = 0"
definition F_DUPFD_CLOEXEC :: u32 where "F_DUPFD_CLOEXEC = 1030"

definition int_commands :: "u32 list" where  \<comment> \<open>\<open>F_DUPFD\<close>,
  \<open>F_DUPFD_CLOEXEC\<close>, \<open>F_SETFD\<close>, \<open>F_SETFL\<close>,
    \<open>F_SETOWN\<close>\<close>
  "int_commands = [F_DUPFD, F_DUPFD_CLOEXEC, 2, 4, 8]"

definition plain_commands :: "u32 list" where  \<comment> \<open>\<open>F_GETFD\<close>,
  \<open>F_GETFL\<close>, \<open>F_GETOWN\<close>\<close>
  "plain_commands = [1, 3, 9]"

definition lock_commands :: "u32 list" where  \<comment> \<open>\<open>F_SETLK\<close>,
  \<open>F_SETLKW\<close>, \<open>F_GETLK\<close>\<close>
  "lock_commands = [6, 7, 5]"

text \<open>\<open>arg\<close> is the register of the variable argument.\<close>

definition fcntl_args :: "u32 \<Rightarrow> u32 \<Rightarrow> u64 \<Rightarrow> c_arg list" where
  "fcntl_args fd cmd arg =
     (if cmd \<in> set int_commands then [C_int fd, C_int cmd, C_int (ucast arg)]
      else if cmd \<in> set plain_commands then [C_int fd, C_int cmd]
      else if cmd \<in> set lock_commands then [C_int fd, C_int cmd, C_ptr arg]
      else [C_int fd, C_int cmd])"

definition posix_fcntl where "posix_fcntl R fd cmd arg s = do {
     (ev, s) \<leftarrow> start_fd R fd s;
     let ev = upd_val ''cmd'' (int_value cmd) ev;
     let (ret, s) = call_int R ''fcntl'' (fcntl_args fd cmd arg) s;
     s \<leftarrow> end_event R ''POSIX'' ''fcntl'' ev s;
     let s = (if ev_traced ev \<and> cmd \<in> {F_DUPFD,
       F_DUPFD_CLOEXEC} then set_trace ret (ev_hash ev) s else s);
     Some (ret, s) }"

definition posix_dup where "posix_dup R oldfd s = do {
     (ev, s) \<leftarrow> start_fd R oldfd s;
     let (ret, s) = call_int R ''dup'' [C_int oldfd] s;
     s \<leftarrow> end_event R ''POSIX'' ''dup'' ev s;
     let s = (if ev_traced ev then set_trace ret (ev_hash ev) s else s);
     Some (ret, s) }"

lemma posix_dup_wrapped [wrapped_rules]:
  "wrapped R ''POSIX'' ''dup'' ''dup'' [C_int oldfd] [] ucast
    (start_fd R oldfd) track_fd (posix_dup R oldfd)"
  by (rule wrappedI, rule start_rules) (auto simp: posix_dup_def wrapper_simps intro!: post_rules)

definition posix_dup2 where "posix_dup2 R oldfd newfd s = do {
     (ev, s) \<leftarrow> start_fd R oldfd s;
     let (ret, s) = call_int R ''dup2'' [C_int oldfd, C_int newfd] s;
     s \<leftarrow> end_event R ''POSIX'' ''dup2'' ev s;
     let s = (if 0 \<le> sint ret \<and> ret \<noteq> oldfd then set_trace ret (ev_hash ev) s else s);
     Some (ret, s) }"

definition posix_dup3 where "posix_dup3 R oldfd newfd flags s = do {
     (ev, s) \<leftarrow> start_fd R oldfd s;
     let ev = upd_val ''flags'' (int_value flags) ev;
     let (ret, s) = call_int R ''dup3'' [C_int oldfd, C_int newfd, C_int flags] s;
     s \<leftarrow> end_event R ''POSIX'' ''dup3'' ev s;
     let s = (if 0 \<le> sint ret then set_trace ret (ev_hash ev) s else s);
     Some (ret, s) }"

definition CLOSE_RANGE_CLOEXEC :: u32 where "CLOSE_RANGE_CLOEXEC = 4"

definition close_range_traced where "close_range_traced R first' last' flags s = do {
     (ev, s) \<leftarrow> start_always R s;
     let ev = upd_val ''first'' (unsigned_value first') ev;
     let ev = upd_val ''last'' (unsigned_value last') ev;
     let ev = upd_val ''flags'' (int_value flags) ev;
     let (ret, s) = call_int R ''close_range'' [C_int first', C_int last', C_int flags] s;
     let ev = upd_val ''ret'' (int_value ret) ev;
     s \<leftarrow> end_event R ''POSIX'' ''close_range'' ev s;
     Some (ret, s) }"

definition posix_close_range where "posix_close_range R first' last' flags s =
     (if in_vfork_child R s \<or> flags AND CLOSE_RANGE_CLOEXEC \<noteq> 0
      then Some (call_int R ''close_range'' [C_int first', C_int last', C_int flags] s)
      else case remove_trace_range (ucast first') (ucast last') s of
        (False, s) \<Rightarrow> Some (call_int R ''close_range'' [C_int first', C_int last', C_int flags] s)
      | (True, s) \<Rightarrow> close_range_traced R first' last' flags s)"

definition closefrom_traced where "closefrom_traced R lowfd s = do {
     (ev, s) \<leftarrow> start_always R s;
     let ev = upd_val ''lowfd'' (int_value lowfd) ev;
     let (_, s) = call_void R ''closefrom'' [C_int lowfd] s;
     s \<leftarrow> end_event R ''POSIX'' ''closefrom'' ev s;
     Some ((), s) }"

definition posix_closefrom where "posix_closefrom R lowfd s =
     (if sint lowfd < 0 \<or> in_vfork_child R s then Some (call_void R ''closefrom'' [C_int lowfd] s)
      else case remove_trace_range (scast lowfd) (- 1) s of
        (False, s) \<Rightarrow> Some (call_void R ''closefrom'' [C_int lowfd] s)
      | (True, s) \<Rightarrow> closefrom_traced R lowfd s)"

definition posix_mkfifo where "posix_mkfifo R pathname mode s = do {
     (ev, s) \<leftarrow> start_path R pathname s;
     let ev = upd_val ''mode'' (unsigned_value mode) ev;
     let (ret, s) = call_int R ''mkfifo'' [C_ptr pathname, C_int mode] s;
     s \<leftarrow> end_event R ''POSIX'' ''mkfifo'' ev s;
     Some (ret, s) }"

lemma posix_mkfifo_wrapped [wrapped_rules]:
  "wrapped R ''POSIX'' ''mkfifo'' ''mkfifo'' [C_ptr pathname, C_int mode] [] ucast
    (start_path R pathname) keep (posix_mkfifo R pathname mode)"
  by (rule wrappedI, rule start_rules) (auto simp: posix_mkfifo_def wrapper_simps intro!: post_rules)

definition posix_umask where "posix_umask R mask' s = do {
     (ev, s) \<leftarrow> start_fd R mask' s;
     let (ret, s) = call_int R ''umask'' [C_int mask'] s;
     s \<leftarrow> end_event R ''POSIX'' ''umask'' ev s;
     Some (ret, s) }"

lemma posix_umask_wrapped [wrapped_rules]:
  "wrapped R ''POSIX'' ''umask'' ''umask'' [C_int mask'] [] ucast
    (start_fd R mask') keep (posix_umask R mask')"
  by (rule wrappedI, rule start_rules) (auto simp: posix_umask_def wrapper_simps intro!: post_rules)

definition posix_access where "posix_access R path amode s = do {
     (ev, s) \<leftarrow> start_path R path s;
     let (ret, s) = call_int R ''access'' [C_ptr path, C_int amode] s;
     s \<leftarrow> end_event R ''POSIX'' ''access'' ev s;
     Some (ret, s) }"

lemma posix_access_wrapped [wrapped_rules]:
  "wrapped R ''POSIX'' ''access'' ''access'' [C_ptr path, C_int amode] [] ucast
    (start_path R path) keep (posix_access R path amode)"
  by (rule wrappedI, rule start_rules) (auto simp: posix_access_def wrapper_simps intro!: post_rules)

definition posix_faccessat where "posix_faccessat R fd path amode flag s = do {
     (ev, s) \<leftarrow> start_fd R fd s;
     let (ret, s) = call_int R ''faccessat'' [C_int fd, C_ptr path, C_int amode, C_int flag] s;
     s \<leftarrow> end_event R ''POSIX'' ''faccessat'' ev s;
     Some (ret, s) }"

lemma posix_faccessat_wrapped [wrapped_rules]:
  "wrapped R ''POSIX'' ''faccessat'' ''faccessat'' [C_int fd, C_ptr path, C_int amode, C_int flag] [] ucast
    (start_fd R fd) keep (posix_faccessat R fd path amode flag)"
  by (rule wrappedI, rule start_rules) (auto simp: posix_faccessat_def wrapper_simps intro!: post_rules)

definition posix_remove where "posix_remove R pathname s = do {
     (ev, s) \<leftarrow> start_path R pathname s;
     let (ret, s) = call_int R ''remove'' [C_ptr pathname] s;
     s \<leftarrow> end_event R ''POSIX'' ''remove'' ev s;
     Some (ret, s) }"

lemma posix_remove_wrapped [wrapped_rules]:
  "wrapped R ''POSIX'' ''remove'' ''remove'' [C_ptr pathname] [] ucast
    (start_path R pathname) keep (posix_remove R pathname)"
  by (rule wrappedI, rule start_rules) (auto simp: posix_remove_def wrapper_simps intro!: post_rules)

definition posix_truncate where "posix_truncate R pathname length' s = do {
     (ev, s) \<leftarrow> start_path R pathname s;
     let ev = upd_val ''length'' (long_value length') ev;
     let (ret, s) = call_int R ''truncate'' [C_ptr pathname, C_long length'] s;
     s \<leftarrow> end_event R ''POSIX'' ''truncate'' ev s;
     Some (ret, s) }"

lemma posix_truncate_wrapped [wrapped_rules]:
  "wrapped R ''POSIX'' ''truncate'' ''truncate'' [C_ptr pathname, C_long length'] [] ucast
    (start_path R pathname) keep (posix_truncate R pathname length')"
  by (rule wrappedI, rule start_rules) (auto simp: posix_truncate_def wrapper_simps intro!: post_rules)

definition posix_ftruncate where "posix_ftruncate R fd length' s = do {
     (ev, s) \<leftarrow> start_fd R fd s;
     let ev = upd_val ''length'' (long_value length') ev;
     let (ret, s) = call_int R ''ftruncate'' [C_int fd, C_long length'] s;
     s \<leftarrow> end_event R ''POSIX'' ''ftruncate'' ev s;
     Some (ret, s) }"

lemma posix_ftruncate_wrapped [wrapped_rules]:
  "wrapped R ''POSIX'' ''ftruncate'' ''ftruncate'' [C_int fd, C_long length'] [] ucast
    (start_fd R fd) keep (posix_ftruncate R fd length')"
  by (rule wrappedI, rule start_rules) (auto simp: posix_ftruncate_def wrapper_simps intro!: post_rules)

text \<open>
  The end of an \<open>exec\<close>: the event is logged and everything buffered is flushed before the call,
    which
  does not return when it succeeds.
\<close>

definition exec_now where "exec_now R fn real_fn args' ev s = do {
     s \<leftarrow> end_event R ''POSIX'' fn ev s;
     let s = (if in_vfork_child R s then s else flush_all_events s);
     Some (call_int R real_fn args' s) }"

text \<open>The other arguments of \<open>execl\<close> are \<open>rest\<close>,
  read up to the null pointer.\<close>

definition posix_execl where "posix_execl R pathname arg rest s = do {
     (ev, s) \<leftarrow> start_always R s;
     (ev, s) \<leftarrow> upd_hash R ''pathname_hash'' pathname ev s;
     (ev, s) \<leftarrow> upd_hash R ''arg_hash'' arg ev s;
     exec_now R ''execl'' ''execv'' [C_ptr pathname, C_array (arg # takeWhile (\<lambda>p. p
       \<noteq> NULL) rest)] ev s }"

definition posix_execlp where "posix_execlp R pathname arg rest s = do {
     (ev, s) \<leftarrow> start_always R s;
     (ev, s) \<leftarrow> upd_hash R ''pathname_hash'' pathname ev s;
     (ev, s) \<leftarrow> upd_hash R ''arg_hash'' arg ev s;
     exec_now R ''execlp'' ''execvp'' [C_ptr pathname, C_array (arg # takeWhile (\<lambda>p. p
       \<noteq> NULL) rest)] ev s }"

text \<open>The first six entries of \<open>argv\<close> are in the event.\<close>

definition arg_keys :: "string list" where
  "arg_keys = [''arg0_hash'', ''arg1_hash'', ''arg2_hash'', ''arg3_hash'', ''arg4_hash'', ''arg5_hash'']"

fun upd_args ::
  "'w libc \<Rightarrow> (string \<times> u64) list \<Rightarrow> event_locals
    \<Rightarrow> 'w traced_process \<Rightarrow> (event_locals \<times> 'w traced_process) option" where
  "upd_args R [] ev s = Some (ev, s)"
| "upd_args R ((key, p) # rest) ev s = do { (ev, s) \<leftarrow> upd_hash R key p ev s; upd_args R rest ev s }"

definition posix_execv where "posix_execv R pathname argv s = do {
     (ev, s) \<leftarrow> start_always R s;
     (ev, s) \<leftarrow> upd_hash R ''pathname_hash'' pathname ev s;
     (ev, s) \<leftarrow> upd_args R (zip arg_keys (takeWhile (\<lambda>p. p \<noteq> NULL)
       (pointers_at R (tp_world s) argv))) ev s;
     exec_now R ''execv'' ''execv'' [C_ptr pathname, C_ptr argv] ev s }"

definition posix_execvp where "posix_execvp R pathname argv s = do {
     (ev, s) \<leftarrow> start_always R s;
     (ev, s) \<leftarrow> upd_hash R ''pathname_hash'' pathname ev s;
     (ev, s) \<leftarrow> upd_args R (zip arg_keys (takeWhile (\<lambda>p. p \<noteq> NULL)
       (pointers_at R (tp_world s) argv))) ev s;
     exec_now R ''execvp'' ''execvp'' [C_ptr pathname, C_ptr argv] ev s }"

definition posix_execvpe where "posix_execvpe R pathname argv envp s = do {
     (ev, s) \<leftarrow> start_always R s;
     (ev, s) \<leftarrow> upd_hash R ''pathname_hash'' pathname ev s;
     (ev, s) \<leftarrow> upd_args R (zip arg_keys (takeWhile (\<lambda>p. p \<noteq> NULL)
       (pointers_at R (tp_world s) argv))) ev s;
     exec_now R ''execvpe'' ''execvpe'' [C_ptr pathname, C_ptr argv, C_ptr envp] ev s }"

end
