(* ===== verification/Posix_More.thy ===== *)
theory Posix_More
  imports Posix_Calls
begin

text \<open>
  The wrappers of \<open>core/brahma/posix.cpp\<close> for the wider set of functions, from \<open>readv\<close> on.
\<close>

definition posix_readv where "posix_readv R fd iov iovcnt s = do {
     (ev, s) \<leftarrow> start_fd R fd s;
     let ev = upd_val ''iovcnt'' (int_value iovcnt) ev;
     let (ret, s) = call_long R ''readv'' [C_int fd, C_ptr iov, C_int iovcnt] s;
     let ev = upd_val ''ret'' (long_value ret) ev;
     s \<leftarrow> end_event R ''POSIX'' ''readv'' ev s;
     Some (ret, s) }"

lemma posix_readv_wrapped [wrapped_rules]:
  "wrapped R ''POSIX'' ''readv'' ''readv'' [C_int fd, C_ptr iov, C_int iovcnt] [] (\<lambda>r. r)
    (start_fd R fd) keep (posix_readv R fd iov iovcnt)"
  by (rule wrappedI, rule start_rules) (auto simp: posix_readv_def wrapper_simps intro!: post_rules)

definition posix_writev where "posix_writev R fd iov iovcnt s = do {
     (ev, s) \<leftarrow> start_fd R fd s;
     let ev = upd_val ''iovcnt'' (int_value iovcnt) ev;
     let (ret, s) = call_long R ''writev'' [C_int fd, C_ptr iov, C_int iovcnt] s;
     let ev = upd_val ''ret'' (long_value ret) ev;
     s \<leftarrow> end_event R ''POSIX'' ''writev'' ev s;
     Some (ret, s) }"

lemma posix_writev_wrapped [wrapped_rules]:
  "wrapped R ''POSIX'' ''writev'' ''writev'' [C_int fd, C_ptr iov, C_int iovcnt] [] (\<lambda>r. r)
    (start_fd R fd) keep (posix_writev R fd iov iovcnt)"
  by (rule wrappedI, rule start_rules) (auto simp: posix_writev_def wrapper_simps intro!: post_rules)

definition posix_preadv where "posix_preadv R fd iov iovcnt offset s = do {
     (ev, s) \<leftarrow> start_fd R fd s;
     let ev = upd_val ''iovcnt'' (int_value iovcnt) ev;
     let ev = upd_val ''offset'' (long_value offset) ev;
     let (ret, s) = call_long R ''preadv'' [C_int fd, C_ptr iov, C_int iovcnt, C_long offset] s;
     let ev = upd_val ''ret'' (long_value ret) ev;
     s \<leftarrow> end_event R ''POSIX'' ''preadv'' ev s;
     Some (ret, s) }"

lemma posix_preadv_wrapped [wrapped_rules]:
  "wrapped R ''POSIX'' ''preadv'' ''preadv'' [C_int fd, C_ptr iov, C_int iovcnt, C_long offset]
    [] (\<lambda>r. r)
    (start_fd R fd) keep (posix_preadv R fd iov iovcnt offset)"
  by (rule wrappedI, rule start_rules) (auto simp: posix_preadv_def wrapper_simps intro!: post_rules)

definition posix_preadv64 where "posix_preadv64 R fd iov iovcnt offset s = do {
     (ev, s) \<leftarrow> start_fd R fd s;
     let ev = upd_val ''iovcnt'' (int_value iovcnt) ev;
     let ev = upd_val ''offset'' (long_value offset) ev;
     let (ret, s) = call_long R ''preadv64'' [C_int fd, C_ptr iov, C_int iovcnt, C_long offset] s;
     let ev = upd_val ''ret'' (long_value ret) ev;
     s \<leftarrow> end_event R ''POSIX'' ''preadv64'' ev s;
     Some (ret, s) }"

lemma posix_preadv64_wrapped [wrapped_rules]:
  "wrapped R ''POSIX'' ''preadv64'' ''preadv64'' [C_int fd, C_ptr iov, C_int iovcnt, C_long offset]
    [] (\<lambda>r. r)
    (start_fd R fd) keep (posix_preadv64 R fd iov iovcnt offset)"
  by (rule wrappedI, rule start_rules) (auto simp: posix_preadv64_def wrapper_simps intro!: post_rules)

definition posix_pwritev where "posix_pwritev R fd iov iovcnt offset s = do {
     (ev, s) \<leftarrow> start_fd R fd s;
     let ev = upd_val ''iovcnt'' (int_value iovcnt) ev;
     let ev = upd_val ''offset'' (long_value offset) ev;
     let (ret, s) = call_long R ''pwritev'' [C_int fd, C_ptr iov, C_int iovcnt, C_long offset] s;
     let ev = upd_val ''ret'' (long_value ret) ev;
     s \<leftarrow> end_event R ''POSIX'' ''pwritev'' ev s;
     Some (ret, s) }"

lemma posix_pwritev_wrapped [wrapped_rules]:
  "wrapped R ''POSIX'' ''pwritev'' ''pwritev'' [C_int fd, C_ptr iov, C_int iovcnt, C_long offset]
    [] (\<lambda>r. r)
    (start_fd R fd) keep (posix_pwritev R fd iov iovcnt offset)"
  by (rule wrappedI, rule start_rules) (auto simp: posix_pwritev_def wrapper_simps intro!: post_rules)

definition posix_pwritev64 where "posix_pwritev64 R fd iov iovcnt offset s = do {
     (ev, s) \<leftarrow> start_fd R fd s;
     let ev = upd_val ''iovcnt'' (int_value iovcnt) ev;
     let ev = upd_val ''offset'' (long_value offset) ev;
     let (ret, s) = call_long R ''pwritev64'' [C_int fd, C_ptr iov, C_int iovcnt, C_long offset] s;
     let ev = upd_val ''ret'' (long_value ret) ev;
     s \<leftarrow> end_event R ''POSIX'' ''pwritev64'' ev s;
     Some (ret, s) }"

lemma posix_pwritev64_wrapped [wrapped_rules]:
  "wrapped R ''POSIX'' ''pwritev64'' ''pwritev64'' [C_int fd, C_ptr iov, C_int iovcnt, C_long offset]
    [] (\<lambda>r. r)
    (start_fd R fd) keep (posix_pwritev64 R fd iov iovcnt offset)"
  by (rule wrappedI, rule start_rules) (auto simp: posix_pwritev64_def wrapper_simps intro!: post_rules)

definition posix_statvfs where "posix_statvfs R path buf s = do {
     (ev, s) \<leftarrow> start_path R path s;
     let (ret, s) = call_int R ''statvfs'' [C_ptr path, C_ptr buf] s;
     s \<leftarrow> end_event R ''POSIX'' ''statvfs'' ev s;
     Some (ret, s) }"

lemma posix_statvfs_wrapped [wrapped_rules]:
  "wrapped R ''POSIX'' ''statvfs'' ''statvfs'' [C_ptr path, C_ptr buf] [] ucast
    (start_path R path) keep (posix_statvfs R path buf)"
  by (rule wrappedI, rule start_rules) (auto simp: posix_statvfs_def wrapper_simps intro!: post_rules)

definition posix_statvfs64 where "posix_statvfs64 R path buf s = do {
     (ev, s) \<leftarrow> start_path R path s;
     let (ret, s) = call_int R ''statvfs64'' [C_ptr path, C_ptr buf] s;
     s \<leftarrow> end_event R ''POSIX'' ''statvfs64'' ev s;
     Some (ret, s) }"

lemma posix_statvfs64_wrapped [wrapped_rules]:
  "wrapped R ''POSIX'' ''statvfs64'' ''statvfs64'' [C_ptr path, C_ptr buf] [] ucast
    (start_path R path) keep (posix_statvfs64 R path buf)"
  by (rule wrappedI, rule start_rules) (auto simp: posix_statvfs64_def wrapper_simps intro!: post_rules)

definition posix_fstatvfs where "posix_fstatvfs R fd buf s = do {
     (ev, s) \<leftarrow> start_fd R fd s;
     let (ret, s) = call_int R ''fstatvfs'' [C_int fd, C_ptr buf] s;
     s \<leftarrow> end_event R ''POSIX'' ''fstatvfs'' ev s;
     Some (ret, s) }"

lemma posix_fstatvfs_wrapped [wrapped_rules]:
  "wrapped R ''POSIX'' ''fstatvfs'' ''fstatvfs'' [C_int fd, C_ptr buf] [] ucast
    (start_fd R fd) keep (posix_fstatvfs R fd buf)"
  by (rule wrappedI, rule start_rules) (auto simp: posix_fstatvfs_def wrapper_simps intro!: post_rules)

definition posix_fstatvfs64 where "posix_fstatvfs64 R fd buf s = do {
     (ev, s) \<leftarrow> start_fd R fd s;
     let (ret, s) = call_int R ''fstatvfs64'' [C_int fd, C_ptr buf] s;
     s \<leftarrow> end_event R ''POSIX'' ''fstatvfs64'' ev s;
     Some (ret, s) }"

lemma posix_fstatvfs64_wrapped [wrapped_rules]:
  "wrapped R ''POSIX'' ''fstatvfs64'' ''fstatvfs64'' [C_int fd, C_ptr buf] [] ucast
    (start_fd R fd) keep (posix_fstatvfs64 R fd buf)"
  by (rule wrappedI, rule start_rules) (auto simp: posix_fstatvfs64_def wrapper_simps intro!: post_rules)

definition posix_flock where "posix_flock R fd operation s = do {
     (ev, s) \<leftarrow> start_fd R fd s;
     let ev = upd_val ''operation'' (int_value operation) ev;
     let (ret, s) = call_int R ''flock'' [C_int fd, C_int operation] s;
     let ev = upd_val ''ret'' (int_value ret) ev;
     s \<leftarrow> end_event R ''POSIX'' ''flock'' ev s;
     Some (ret, s) }"

lemma posix_flock_wrapped [wrapped_rules]:
  "wrapped R ''POSIX'' ''flock'' ''flock'' [C_int fd, C_int operation] [] ucast
    (start_fd R fd) keep (posix_flock R fd operation)"
  by (rule wrappedI, rule start_rules) (auto simp: posix_flock_def wrapper_simps intro!: post_rules)

definition posix_execve where "posix_execve R pathname argv envp s = do {
     (ev, s) \<leftarrow> start_always R s;
     (ev, s) \<leftarrow> upd_hash R ''pathname_hash'' pathname ev s;
     (ev, s) \<leftarrow> upd_args R (zip arg_keys (takeWhile (\<lambda>p. p \<noteq> NULL)
       (pointers_at R (tp_world s) argv))) ev s;
     exec_now R ''execve'' ''execve'' [C_ptr pathname, C_ptr argv, C_ptr envp] ev s }"

definition posix_wait where "posix_wait R wstatus s = do {
     (ev, s) \<leftarrow> start_always R s;
     let (ret, s) = call_int R ''wait'' [C_ptr wstatus] s;
     let ev = upd_key ''ret'' (int_value ret) ev;
     s \<leftarrow> end_event R ''POSIX'' ''wait'' ev s;
     Some (ret, s) }"

lemma posix_wait_wrapped [wrapped_rules]:
  "wrapped R ''POSIX'' ''wait'' ''wait'' [C_ptr wstatus] [] ucast
    (start_always R) keep (posix_wait R wstatus)"
  by (rule wrappedI, rule start_rules) (auto simp: posix_wait_def wrapper_simps intro!: post_rules)

definition posix_waitpid where "posix_waitpid R pid wstatus options s = do {
     (ev, s) \<leftarrow> start_always R s;
     let ev = upd_key ''pid'' (int_value pid) ev;
     let (ret, s) = call_int R ''waitpid'' [C_int pid, C_ptr wstatus, C_int options] s;
     let ev = upd_key ''ret'' (int_value ret) ev;
     s \<leftarrow> end_event R ''POSIX'' ''waitpid'' ev s;
     Some (ret, s) }"

lemma posix_waitpid_wrapped [wrapped_rules]:
  "wrapped R ''POSIX'' ''waitpid'' ''waitpid'' [C_int pid, C_ptr wstatus, C_int options] [] ucast
    (start_always R) keep (posix_waitpid R pid wstatus options)"
  by (rule wrappedI, rule start_rules) (auto simp: posix_waitpid_def wrapper_simps intro!: post_rules)

definition posix_realpath where "posix_realpath R path resolved_path s = do {
     (ev, s) \<leftarrow> start_path R path s;
     let (ret, s) = call_long R ''realpath'' [C_ptr path, C_ptr resolved_path] s;
     s \<leftarrow> end_event R ''POSIX'' ''realpath'' ev s;
     Some (ret, s) }"

lemma posix_realpath_wrapped [wrapped_rules]:
  "wrapped R ''POSIX'' ''realpath'' ''realpath'' [C_ptr path, C_ptr resolved_path] [] (\<lambda>r. r)
    (start_path R path) keep (posix_realpath R path resolved_path)"
  by (rule wrappedI, rule start_rules) (auto simp: posix_realpath_def wrapper_simps intro!: post_rules)

definition posix_dirfd where "posix_dirfd R dir s = do {
     (ev, s) \<leftarrow> start_always R s;
     let (ret, s) = call_int R ''dirfd'' [C_ptr dir] s;
     let ev = upd_key ''ret'' (int_value ret) ev;
     s \<leftarrow> end_event R ''POSIX'' ''dirfd'' ev s;
     Some (ret, s) }"

lemma posix_dirfd_wrapped [wrapped_rules]:
  "wrapped R ''POSIX'' ''dirfd'' ''dirfd'' [C_ptr dir] [] ucast
    (start_always R) keep (posix_dirfd R dir)"
  by (rule wrappedI, rule start_rules) (auto simp: posix_dirfd_def wrapper_simps intro!: post_rules)

definition posix_sendfile where "posix_sendfile R out_fd in_fd offset count' s = do {
     (ev, s) \<leftarrow> start_fd R out_fd s;
     let ev = upd_key ''in_fd'' (int_value in_fd) ev;
     let ev = upd_val ''count'' (size_value count') ev;
     let (ret, s) = call_long R ''sendfile'' [C_int out_fd, C_int in_fd, C_ptr offset, C_long count'] s;
     let ev = upd_val ''ret'' (long_value ret) ev;
     s \<leftarrow> end_event R ''POSIX'' ''sendfile'' ev s;
     Some (ret, s) }"

lemma posix_sendfile_wrapped [wrapped_rules]:
  "wrapped R ''POSIX'' ''sendfile'' ''sendfile'' [C_int out_fd, C_int in_fd, C_ptr offset, C_long count']
    [] (\<lambda>r. r)
    (start_fd R out_fd) keep (posix_sendfile R out_fd in_fd offset count')"
  by (rule wrappedI, rule start_rules) (auto simp: posix_sendfile_def wrapper_simps intro!: post_rules)

definition posix_sendfile64 where "posix_sendfile64 R out_fd in_fd offset count' s = do {
     (ev, s) \<leftarrow> start_fd R out_fd s;
     let ev = upd_key ''in_fd'' (int_value in_fd) ev;
     let ev = upd_val ''count'' (size_value count') ev;
     let (ret, s) = call_long R ''sendfile64'' [C_int out_fd, C_int in_fd, C_ptr offset, C_long count'] s;
     let ev = upd_val ''ret'' (long_value ret) ev;
     s \<leftarrow> end_event R ''POSIX'' ''sendfile64'' ev s;
     Some (ret, s) }"

lemma posix_sendfile64_wrapped [wrapped_rules]:
  "wrapped R ''POSIX'' ''sendfile64'' ''sendfile64'' [C_int out_fd, C_int in_fd, C_ptr offset, C_long count']
    [] (\<lambda>r. r)
    (start_fd R out_fd) keep (posix_sendfile64 R out_fd in_fd offset count')"
  by (rule wrappedI, rule start_rules) (auto simp: posix_sendfile64_def wrapper_simps intro!: post_rules)

definition posix_copy_file_range where "posix_copy_file_range R fd_in off_in fd_out off_out len flags s = do {
     (ev, s) \<leftarrow> start_fd R fd_in s;
     let ev = upd_key ''fd_out'' (int_value fd_out) ev;
     let ev = upd_val ''len'' (size_value len) ev;
     let (ret, s) = call_long R ''copy_file_range'' [C_int fd_in, C_ptr off_in, C_int fd_out, C_ptr off_out,
       C_long len, C_int flags] s;
     let ev = upd_val ''ret'' (long_value ret) ev;
     s \<leftarrow> end_event R ''POSIX'' ''copy_file_range'' ev s;
     Some (ret, s) }"

lemma posix_copy_file_range_wrapped [wrapped_rules]:
  "wrapped R ''POSIX'' ''copy_file_range'' ''copy_file_range'' [C_int fd_in, C_ptr off_in, C_int fd_out,
    C_ptr off_out, C_long len, C_int flags] [] (\<lambda>r. r)
    (start_fd R fd_in) keep (posix_copy_file_range R fd_in off_in fd_out off_out len flags)"
  by (rule wrappedI, rule start_rules) (auto simp: posix_copy_file_range_def wrapper_simps intro!: post_rules)

definition posix_mknod where "posix_mknod R pathname mode dev s = do {
     (ev, s) \<leftarrow> start_path R pathname s;
     let ev = upd_val ''mode'' (unsigned_value mode) ev;
     let (ret, s) = call_int R ''mknod'' [C_ptr pathname, C_int mode, C_long dev] s;
     s \<leftarrow> end_event R ''POSIX'' ''mknod'' ev s;
     Some (ret, s) }"

lemma posix_mknod_wrapped [wrapped_rules]:
  "wrapped R ''POSIX'' ''mknod'' ''mknod'' [C_ptr pathname, C_int mode, C_long dev] [] ucast
    (start_path R pathname) keep (posix_mknod R pathname mode dev)"
  by (rule wrappedI, rule start_rules) (auto simp: posix_mknod_def wrapper_simps intro!: post_rules)

definition posix_stat where "posix_stat R path buf s = do {
     (ev, s) \<leftarrow> start_path R path s;
     let (ret, s) = call_int R ''stat'' [C_ptr path, C_ptr buf] s;
     s \<leftarrow> end_event R ''POSIX'' ''stat'' ev s;
     Some (ret, s) }"

lemma posix_stat_wrapped [wrapped_rules]:
  "wrapped R ''POSIX'' ''stat'' ''stat'' [C_ptr path, C_ptr buf] [] ucast
    (start_path R path) keep (posix_stat R path buf)"
  by (rule wrappedI, rule start_rules) (auto simp: posix_stat_def wrapper_simps intro!: post_rules)

definition posix_stat64 where "posix_stat64 R path buf s = do {
     (ev, s) \<leftarrow> start_path R path s;
     let (ret, s) = call_int R ''stat64'' [C_ptr path, C_ptr buf] s;
     s \<leftarrow> end_event R ''POSIX'' ''stat64'' ev s;
     Some (ret, s) }"

lemma posix_stat64_wrapped [wrapped_rules]:
  "wrapped R ''POSIX'' ''stat64'' ''stat64'' [C_ptr path, C_ptr buf] [] ucast
    (start_path R path) keep (posix_stat64 R path buf)"
  by (rule wrappedI, rule start_rules) (auto simp: posix_stat64_def wrapper_simps intro!: post_rules)

definition posix_lstat where "posix_lstat R path buf s = do {
     (ev, s) \<leftarrow> start_path R path s;
     let (ret, s) = call_int R ''lstat'' [C_ptr path, C_ptr buf] s;
     s \<leftarrow> end_event R ''POSIX'' ''lstat'' ev s;
     Some (ret, s) }"

lemma posix_lstat_wrapped [wrapped_rules]:
  "wrapped R ''POSIX'' ''lstat'' ''lstat'' [C_ptr path, C_ptr buf] [] ucast
    (start_path R path) keep (posix_lstat R path buf)"
  by (rule wrappedI, rule start_rules) (auto simp: posix_lstat_def wrapper_simps intro!: post_rules)

definition posix_lstat64 where "posix_lstat64 R path buf s = do {
     (ev, s) \<leftarrow> start_path R path s;
     let (ret, s) = call_int R ''lstat64'' [C_ptr path, C_ptr buf] s;
     s \<leftarrow> end_event R ''POSIX'' ''lstat64'' ev s;
     Some (ret, s) }"

lemma posix_lstat64_wrapped [wrapped_rules]:
  "wrapped R ''POSIX'' ''lstat64'' ''lstat64'' [C_ptr path, C_ptr buf] [] ucast
    (start_path R path) keep (posix_lstat64 R path buf)"
  by (rule wrappedI, rule start_rules) (auto simp: posix_lstat64_def wrapper_simps intro!: post_rules)

definition posix_fstat where "posix_fstat R fd buf s = do {
     (ev, s) \<leftarrow> start_fd R fd s;
     let (ret, s) = call_int R ''fstat'' [C_int fd, C_ptr buf] s;
     s \<leftarrow> end_event R ''POSIX'' ''fstat'' ev s;
     Some (ret, s) }"

lemma posix_fstat_wrapped [wrapped_rules]:
  "wrapped R ''POSIX'' ''fstat'' ''fstat'' [C_int fd, C_ptr buf] [] ucast
    (start_fd R fd) keep (posix_fstat R fd buf)"
  by (rule wrappedI, rule start_rules) (auto simp: posix_fstat_def wrapper_simps intro!: post_rules)

definition posix_fstat64 where "posix_fstat64 R fd buf s = do {
     (ev, s) \<leftarrow> start_fd R fd s;
     let (ret, s) = call_int R ''fstat64'' [C_int fd, C_ptr buf] s;
     s \<leftarrow> end_event R ''POSIX'' ''fstat64'' ev s;
     Some (ret, s) }"

lemma posix_fstat64_wrapped [wrapped_rules]:
  "wrapped R ''POSIX'' ''fstat64'' ''fstat64'' [C_int fd, C_ptr buf] [] ucast
    (start_fd R fd) keep (posix_fstat64 R fd buf)"
  by (rule wrappedI, rule start_rules) (auto simp: posix_fstat64_def wrapper_simps intro!: post_rules)

definition posix_fstatat where "posix_fstatat R dirfd path buf flags s =
     (if dirfd \<noteq> AT_FDCWD then do {
        (ev, s) \<leftarrow> start_fd R dirfd s;
        (ev, s) \<leftarrow> upd_hash R ''path_hash'' path ev s;
        let ev = upd_val ''flags'' (int_value flags) ev;
        let (ret, s) = call_int R ''fstatat'' [C_int dirfd, C_ptr path, C_ptr buf, C_int flags] s;
        s \<leftarrow> end_event R ''POSIX'' ''fstatat'' ev s;
        Some (ret, s) }
      else do {
        (ev, s) \<leftarrow> start_path R path s;
        let ev = upd_val ''flags'' (int_value flags) ev;
        let (ret, s) = call_int R ''fstatat'' [C_int dirfd, C_ptr path, C_ptr buf, C_int flags] s;
        s \<leftarrow> end_event R ''POSIX'' ''fstatat'' ev s;
        Some (ret, s) })"

definition posix_fstatat64 where "posix_fstatat64 R dirfd path buf flags s =
     (if dirfd \<noteq> AT_FDCWD then do {
        (ev, s) \<leftarrow> start_fd R dirfd s;
        (ev, s) \<leftarrow> upd_hash R ''path_hash'' path ev s;
        let ev = upd_val ''flags'' (int_value flags) ev;
        let (ret, s) = call_int R ''fstatat64'' [C_int dirfd, C_ptr path, C_ptr buf, C_int flags] s;
        s \<leftarrow> end_event R ''POSIX'' ''fstatat64'' ev s;
        Some (ret, s) }
      else do {
        (ev, s) \<leftarrow> start_path R path s;
        let ev = upd_val ''flags'' (int_value flags) ev;
        let (ret, s) = call_int R ''fstatat64'' [C_int dirfd, C_ptr path, C_ptr buf, C_int flags] s;
        s \<leftarrow> end_event R ''POSIX'' ''fstatat64'' ev s;
        Some (ret, s) })"

definition posix_posix_fadvise where "posix_posix_fadvise R fd offset len advice s = do {
     (ev, s) \<leftarrow> start_fd R fd s;
     let ev = upd_val ''offset'' (long_value offset) ev;
     let ev = upd_val ''len'' (long_value len) ev;
     let (ret, s) = call_int R ''posix_fadvise'' [C_int fd, C_long offset, C_long len, C_int advice] s;
     s \<leftarrow> end_event R ''POSIX'' ''posix_fadvise'' ev s;
     Some (ret, s) }"

lemma posix_posix_fadvise_wrapped [wrapped_rules]:
  "wrapped R ''POSIX'' ''posix_fadvise'' ''posix_fadvise'' [C_int fd, C_long offset, C_long len, C_int advice]
    [] ucast
    (start_fd R fd) keep (posix_posix_fadvise R fd offset len advice)"
  by (rule wrappedI, rule start_rules) (auto simp: posix_posix_fadvise_def wrapper_simps intro!: post_rules)

definition posix_posix_fadvise64 where "posix_posix_fadvise64 R fd offset len advice s = do {
     (ev, s) \<leftarrow> start_fd R fd s;
     let ev = upd_val ''offset'' (long_value offset) ev;
     let ev = upd_val ''len'' (long_value len) ev;
     let (ret, s) = call_int R ''posix_fadvise64'' [C_int fd, C_long offset, C_long len, C_int advice] s;
     s \<leftarrow> end_event R ''POSIX'' ''posix_fadvise64'' ev s;
     Some (ret, s) }"

lemma posix_posix_fadvise64_wrapped [wrapped_rules]:
  "wrapped R ''POSIX'' ''posix_fadvise64'' ''posix_fadvise64'' [C_int fd, C_long offset, C_long len,
    C_int advice] [] ucast
    (start_fd R fd) keep (posix_posix_fadvise64 R fd offset len advice)"
  by (rule wrappedI, rule start_rules) (auto simp: posix_posix_fadvise64_def wrapper_simps intro!: post_rules)

definition posix_posix_fallocate where "posix_posix_fallocate R fd offset len s = do {
     (ev, s) \<leftarrow> start_fd R fd s;
     let ev = upd_val ''offset'' (long_value offset) ev;
     let ev = upd_val ''len'' (long_value len) ev;
     let (ret, s) = call_int R ''posix_fallocate'' [C_int fd, C_long offset, C_long len] s;
     s \<leftarrow> end_event R ''POSIX'' ''posix_fallocate'' ev s;
     Some (ret, s) }"

lemma posix_posix_fallocate_wrapped [wrapped_rules]:
  "wrapped R ''POSIX'' ''posix_fallocate'' ''posix_fallocate'' [C_int fd, C_long offset, C_long len] [] ucast
    (start_fd R fd) keep (posix_posix_fallocate R fd offset len)"
  by (rule wrappedI, rule start_rules) (auto simp: posix_posix_fallocate_def wrapper_simps intro!: post_rules)

definition posix_posix_fallocate64 where "posix_posix_fallocate64 R fd offset len s = do {
     (ev, s) \<leftarrow> start_fd R fd s;
     let ev = upd_val ''offset'' (long_value offset) ev;
     let ev = upd_val ''len'' (long_value len) ev;
     let (ret, s) = call_int R ''posix_fallocate64'' [C_int fd, C_long offset, C_long len] s;
     s \<leftarrow> end_event R ''POSIX'' ''posix_fallocate64'' ev s;
     Some (ret, s) }"

lemma posix_posix_fallocate64_wrapped [wrapped_rules]:
  "wrapped R ''POSIX'' ''posix_fallocate64'' ''posix_fallocate64'' [C_int fd, C_long offset, C_long len]
    [] ucast
    (start_fd R fd) keep (posix_posix_fallocate64 R fd offset len)"
  by (rule wrappedI, rule start_rules) (auto simp: posix_posix_fallocate64_def wrapper_simps intro!: post_rules)

definition posix_closedir where "posix_closedir R dir s = do {
     let fd = dir_fd R dir s;
     (ev, s) \<leftarrow> start_fd R fd s;
     let (ret, s) = call_int R ''closedir'' [C_ptr dir] s;
     s \<leftarrow> end_event R ''POSIX'' ''closedir'' ev s;
     let s = (if ev_traced ev then remove_trace R fd s else s);
     Some (ret, s) }"

definition posix_readdir where "posix_readdir R dir s = do {
     (ev, s) \<leftarrow> start_fd R (dir_fd R dir s) s;
     let (ret, s) = call_long R ''readdir'' [C_ptr dir] s;
     s \<leftarrow> end_event R ''POSIX'' ''readdir'' ev s;
     Some (ret, s) }"

lemma posix_readdir_wrapped [wrapped_rules]:
  "wrapped R ''POSIX'' ''readdir'' ''readdir'' [C_ptr dir] [] (\<lambda>r. r)
    (\<lambda>s. start_fd R (dir_fd R dir s) s) keep (posix_readdir R dir)"
  by (rule wrappedI, rule start_rules) (auto simp: posix_readdir_def wrapper_simps intro!: post_rules)

definition posix_readdir64 where "posix_readdir64 R dir s = do {
     (ev, s) \<leftarrow> start_fd R (dir_fd R dir s) s;
     let (ret, s) = call_long R ''readdir64'' [C_ptr dir] s;
     s \<leftarrow> end_event R ''POSIX'' ''readdir64'' ev s;
     Some (ret, s) }"

lemma posix_readdir64_wrapped [wrapped_rules]:
  "wrapped R ''POSIX'' ''readdir64'' ''readdir64'' [C_ptr dir] [] (\<lambda>r. r)
    (\<lambda>s. start_fd R (dir_fd R dir s) s) keep (posix_readdir64 R dir)"
  by (rule wrappedI, rule start_rules) (auto simp: posix_readdir64_def wrapper_simps intro!: post_rules)

definition posix_rewinddir where "posix_rewinddir R dir s = do {
     (ev, s) \<leftarrow> start_fd R (dir_fd R dir s) s;
     let (_, s) = call_void R ''rewinddir'' [C_ptr dir] s;
     s \<leftarrow> end_event R ''POSIX'' ''rewinddir'' ev s;
     Some ((), s) }"

lemma posix_rewinddir_wrapped [wrapped_rules]:
  "wrapped R ''POSIX'' ''rewinddir'' ''rewinddir'' [C_ptr dir] [] (\<lambda>r. ())
    (\<lambda>s. start_fd R (dir_fd R dir s) s) keep (posix_rewinddir R dir)"
  by (rule wrappedI, rule start_rules) (auto simp: posix_rewinddir_def wrapper_simps intro!: post_rules)

definition posix_mkdirat where "posix_mkdirat R dirfd pathname mode s = do {
     (ev, s) \<leftarrow> start_at R dirfd pathname s;
     (ev, s) \<leftarrow> upd_hash R ''pathname_hash'' pathname ev s;
     let ev = upd_val ''mode'' (unsigned_value mode) ev;
     let (ret, s) = call_int R ''mkdirat'' [C_int dirfd, C_ptr pathname, C_int mode] s;
     s \<leftarrow> end_event R ''POSIX'' ''mkdirat'' ev s;
     Some (ret, s) }"

lemma posix_mkdirat_wrapped [wrapped_rules]:
  "wrapped R ''POSIX'' ''mkdirat'' ''mkdirat'' [C_int dirfd, C_ptr pathname, C_int mode] [pathname] ucast
    (start_at R dirfd pathname) keep (posix_mkdirat R dirfd pathname mode)"
  by (rule wrappedI, rule start_rules) (auto simp: posix_mkdirat_def wrapper_simps intro!: post_rules)

definition posix_unlinkat where "posix_unlinkat R dirfd pathname flags s = do {
     (ev, s) \<leftarrow> start_at R dirfd pathname s;
     (ev, s) \<leftarrow> upd_hash R ''pathname_hash'' pathname ev s;
     let ev = upd_val ''flags'' (int_value flags) ev;
     let (ret, s) = call_int R ''unlinkat'' [C_int dirfd, C_ptr pathname, C_int flags] s;
     s \<leftarrow> end_event R ''POSIX'' ''unlinkat'' ev s;
     Some (ret, s) }"

lemma posix_unlinkat_wrapped [wrapped_rules]:
  "wrapped R ''POSIX'' ''unlinkat'' ''unlinkat'' [C_int dirfd, C_ptr pathname, C_int flags] [pathname] ucast
    (start_at R dirfd pathname) keep (posix_unlinkat R dirfd pathname flags)"
  by (rule wrappedI, rule start_rules) (auto simp: posix_unlinkat_def wrapper_simps intro!: post_rules)

definition posix_renameat where "posix_renameat R olddirfd oldpath newdirfd newpath s = do {
     (ev, s) \<leftarrow> start_at R olddirfd oldpath s;
     (ev, s) \<leftarrow> upd_hash R ''oldpath_hash'' oldpath ev s;
     (ev, s) \<leftarrow> upd_hash R ''newpath_hash'' newpath ev s;
     let (ret, s) = call_int R ''renameat'' [C_int olddirfd, C_ptr oldpath, C_int newdirfd, C_ptr newpath] s;
     s \<leftarrow> end_event R ''POSIX'' ''renameat'' ev s;
     Some (ret, s) }"

lemma posix_renameat_wrapped [wrapped_rules]:
  "wrapped R ''POSIX'' ''renameat'' ''renameat'' [C_int olddirfd, C_ptr oldpath, C_int newdirfd,
    C_ptr newpath] [oldpath, newpath] ucast
    (start_at R olddirfd oldpath) keep (posix_renameat R olddirfd oldpath newdirfd newpath)"
  by (rule wrappedI, rule start_rules) (auto simp: posix_renameat_def wrapper_simps intro!: post_rules)

definition posix_fchmod where "posix_fchmod R fd mode s = do {
     (ev, s) \<leftarrow> start_fd R fd s;
     let ev = upd_val ''mode'' (unsigned_value mode) ev;
     let (ret, s) = call_int R ''fchmod'' [C_int fd, C_int mode] s;
     s \<leftarrow> end_event R ''POSIX'' ''fchmod'' ev s;
     Some (ret, s) }"

lemma posix_fchmod_wrapped [wrapped_rules]:
  "wrapped R ''POSIX'' ''fchmod'' ''fchmod'' [C_int fd, C_int mode] [] ucast
    (start_fd R fd) keep (posix_fchmod R fd mode)"
  by (rule wrappedI, rule start_rules) (auto simp: posix_fchmod_def wrapper_simps intro!: post_rules)

definition posix_fchmodat where "posix_fchmodat R dirfd pathname mode flags s = do {
     (ev, s) \<leftarrow> start_at R dirfd pathname s;
     (ev, s) \<leftarrow> upd_hash R ''pathname_hash'' pathname ev s;
     let ev = upd_val ''mode'' (unsigned_value mode) ev;
     let ev = upd_val ''flags'' (int_value flags) ev;
     let (ret, s) = call_int R ''fchmodat'' [C_int dirfd, C_ptr pathname, C_int mode, C_int flags] s;
     s \<leftarrow> end_event R ''POSIX'' ''fchmodat'' ev s;
     Some (ret, s) }"

lemma posix_fchmodat_wrapped [wrapped_rules]:
  "wrapped R ''POSIX'' ''fchmodat'' ''fchmodat'' [C_int dirfd, C_ptr pathname, C_int mode, C_int flags]
    [pathname] ucast
    (start_at R dirfd pathname) keep (posix_fchmodat R dirfd pathname mode flags)"
  by (rule wrappedI, rule start_rules) (auto simp: posix_fchmodat_def wrapper_simps intro!: post_rules)

definition posix_fchown where "posix_fchown R fd owner' group' s = do {
     (ev, s) \<leftarrow> start_fd R fd s;
     let ev = upd_val ''owner'' (unsigned_value owner') ev;
     let ev = upd_val ''group'' (unsigned_value group') ev;
     let (ret, s) = call_int R ''fchown'' [C_int fd, C_int owner', C_int group'] s;
     s \<leftarrow> end_event R ''POSIX'' ''fchown'' ev s;
     Some (ret, s) }"

lemma posix_fchown_wrapped [wrapped_rules]:
  "wrapped R ''POSIX'' ''fchown'' ''fchown'' [C_int fd, C_int owner', C_int group'] [] ucast
    (start_fd R fd) keep (posix_fchown R fd owner' group')"
  by (rule wrappedI, rule start_rules) (auto simp: posix_fchown_def wrapper_simps intro!: post_rules)

definition posix_fchownat where "posix_fchownat R dirfd pathname owner' group' flags s = do {
     (ev, s) \<leftarrow> start_at R dirfd pathname s;
     (ev, s) \<leftarrow> upd_hash R ''pathname_hash'' pathname ev s;
     let ev = upd_val ''owner'' (unsigned_value owner') ev;
     let ev = upd_val ''group'' (unsigned_value group') ev;
     let ev = upd_val ''flags'' (int_value flags) ev;
     let (ret, s) = call_int R ''fchownat'' [C_int dirfd, C_ptr pathname, C_int owner', C_int group',
       C_int flags] s;
     s \<leftarrow> end_event R ''POSIX'' ''fchownat'' ev s;
     Some (ret, s) }"

lemma posix_fchownat_wrapped [wrapped_rules]:
  "wrapped R ''POSIX'' ''fchownat'' ''fchownat'' [C_int dirfd, C_ptr pathname, C_int owner', C_int group',
    C_int flags] [pathname] ucast
    (start_at R dirfd pathname) keep (posix_fchownat R dirfd pathname owner' group' flags)"
  by (rule wrappedI, rule start_rules) (auto simp: posix_fchownat_def wrapper_simps intro!: post_rules)

definition posix_openat64 where "posix_openat64 R dirfd pathname flags mode s = do {
     (ev, s) \<leftarrow> start_at R dirfd pathname s;
     (ev, s) \<leftarrow> upd_hash R ''pathname_hash'' pathname ev s;
     let ev = upd_val ''flags'' (int_value flags) ev;
     let ev = (if flags AND O_CREAT \<noteq> 0 then upd_val ''mode'' (int_value mode) ev else ev);
     let (ret, s) = (if flags AND O_CREAT \<noteq> 0 then call_int R ''openat64'' [C_int dirfd, C_ptr pathname,
       C_int flags, C_int mode] s
      else call_int R ''openat64'' [C_int dirfd, C_ptr pathname, C_int flags] s);
     s \<leftarrow> end_event R ''POSIX'' ''openat64'' ev s;
     let s = (if ev_traced ev then set_trace ret (ev_hash ev) s else s);
     Some (ret, s) }"

lemma posix_openat64_wrapped [wrapped_rules]:
  "wrapped R ''POSIX'' ''openat64'' ''openat64'' (if flags AND O_CREAT \<noteq> 0 then [C_int dirfd,
    C_ptr pathname, C_int flags, C_int mode] else [C_int dirfd, C_ptr pathname, C_int flags]) [pathname] ucast
    (start_at R dirfd pathname) track_fd (posix_openat64 R dirfd pathname flags mode)"
  by (rule wrappedI, rule start_rules) (auto simp: posix_openat64_def wrapper_simps intro!: post_rules)

definition posix_fcntl64 where "posix_fcntl64 R fd cmd arg s = do {
     (ev, s) \<leftarrow> start_fd R fd s;
     let ev = upd_val ''cmd'' (int_value cmd) ev;
     let (ret, s) = call_int R ''fcntl64'' [C_int fd, C_int cmd, C_ptr arg] s;
     s \<leftarrow> end_event R ''POSIX'' ''fcntl64'' ev s;
     let s = (if ev_traced ev \<and> cmd \<in> {F_DUPFD,
       F_DUPFD_CLOEXEC} then set_trace ret (ev_hash ev) s else s);
     Some (ret, s) }"

definition posix_ftruncate64 where "posix_ftruncate64 R fd length' s = do {
     (ev, s) \<leftarrow> start_fd R fd s;
     let ev = upd_val ''length'' (long_value length') ev;
     let (ret, s) = call_int R ''ftruncate64'' [C_int fd, C_long length'] s;
     s \<leftarrow> end_event R ''POSIX'' ''ftruncate64'' ev s;
     Some (ret, s) }"

lemma posix_ftruncate64_wrapped [wrapped_rules]:
  "wrapped R ''POSIX'' ''ftruncate64'' ''ftruncate64'' [C_int fd, C_long length'] [] ucast
    (start_fd R fd) keep (posix_ftruncate64 R fd length')"
  by (rule wrappedI, rule start_rules) (auto simp: posix_ftruncate64_def wrapper_simps intro!: post_rules)

definition posix_truncate64 where "posix_truncate64 R pathname length' s = do {
     (ev, s) \<leftarrow> start_path R pathname s;
     let ev = upd_val ''length'' (long_value length') ev;
     let (ret, s) = call_int R ''truncate64'' [C_ptr pathname, C_long length'] s;
     s \<leftarrow> end_event R ''POSIX'' ''truncate64'' ev s;
     Some (ret, s) }"

lemma posix_truncate64_wrapped [wrapped_rules]:
  "wrapped R ''POSIX'' ''truncate64'' ''truncate64'' [C_ptr pathname, C_long length'] [] ucast
    (start_path R pathname) keep (posix_truncate64 R pathname length')"
  by (rule wrappedI, rule start_rules) (auto simp: posix_truncate64_def wrapper_simps intro!: post_rules)

definition posix_getcwd where "posix_getcwd R buf size' s = do {
     (ev, s) \<leftarrow> start_always R s;
     let ev = upd_val ''size'' (size_value size') ev;
     let (ret, s) = call_long R ''getcwd'' [C_ptr buf, C_long size'] s;
     (ev, s) \<leftarrow> (if ret \<noteq> NULL then upd_hash R ''ret_hash'' ret ev s else Some (ev, s));
     s \<leftarrow> end_event R ''POSIX'' ''getcwd'' ev s;
     Some (ret, s) }"

lemma posix_getcwd_wrapped [wrapped_rules]:
  "wrapped R ''POSIX'' ''getcwd'' ''getcwd'' [C_ptr buf, C_long size'] [] (\<lambda>r. r)
    (start_always R) keep (posix_getcwd R buf size')"
  by (rule wrappedI, rule start_rules) (auto simp: posix_getcwd_def wrapper_simps intro!: post_rules)

definition posix_pipe where "posix_pipe R pipefd s = do {
     (ev, s) \<leftarrow> start_always R s;
     let (ret, s) = call_int R ''pipe'' [C_ptr pipefd] s;
     let read_fd = (if ret = 0 then int_at R (tp_world s) pipefd 0 else - 1);
     let write_fd = (if ret = 0 then int_at R (tp_world s) pipefd 1 else - 1);
     let ev = upd_key ''read_fd'' (int_value read_fd) ev;
     let ev = upd_key ''write_fd'' (int_value write_fd) ev;
     s \<leftarrow> end_event R ''POSIX'' ''pipe'' ev s;
     Some (ret, s) }"

lemma posix_pipe_wrapped [wrapped_rules]:
  "wrapped R ''POSIX'' ''pipe'' ''pipe'' [C_ptr pipefd] [] ucast
    (start_always R) keep (posix_pipe R pipefd)"
  by (rule wrappedI, rule start_rules) (auto simp: posix_pipe_def wrapper_simps intro!: post_rules)

definition posix_sysconf where "posix_sysconf R name' s = do {
     (ev, s) \<leftarrow> start_always R s;
     let ev = upd_val ''name'' (int_value name') ev;
     let (ret, s) = call_long R ''sysconf'' [C_int name'] s;
     let ev = upd_val ''ret'' (long_value ret) ev;
     s \<leftarrow> end_event R ''POSIX'' ''sysconf'' ev s;
     Some (ret, s) }"

lemma posix_sysconf_wrapped [wrapped_rules]:
  "wrapped R ''POSIX'' ''sysconf'' ''sysconf'' [C_int name'] [] (\<lambda>r. r)
    (start_always R) keep (posix_sysconf R name')"
  by (rule wrappedI, rule start_rules) (auto simp: posix_sysconf_def wrapper_simps intro!: post_rules)

definition posix_munmap where "posix_munmap R addr len s = do {
     (ev, s) \<leftarrow> start_always R s;
     let address = addr;
     let ev = upd_val ''address'' (size_value address) ev;
     let ev = upd_val ''len'' (size_value len) ev;
     let (ret, s) = call_int R ''munmap'' [C_ptr addr, C_long len] s;
     s \<leftarrow> end_event R ''POSIX'' ''munmap'' ev s;
     Some (ret, s) }"

lemma posix_munmap_wrapped [wrapped_rules]:
  "wrapped R ''POSIX'' ''munmap'' ''munmap'' [C_ptr addr, C_long len] [] ucast
    (start_always R) keep (posix_munmap R addr len)"
  by (rule wrappedI, rule start_rules) (auto simp: posix_munmap_def wrapper_simps intro!: post_rules)

definition posix_msync where "posix_msync R addr len flags s = do {
     (ev, s) \<leftarrow> start_always R s;
     let address = addr;
     let ev = upd_val ''address'' (size_value address) ev;
     let ev = upd_val ''len'' (size_value len) ev;
     let ev = upd_val ''flags'' (int_value flags) ev;
     let (ret, s) = call_int R ''msync'' [C_ptr addr, C_long len, C_int flags] s;
     s \<leftarrow> end_event R ''POSIX'' ''msync'' ev s;
     Some (ret, s) }"

lemma posix_msync_wrapped [wrapped_rules]:
  "wrapped R ''POSIX'' ''msync'' ''msync'' [C_ptr addr, C_long len, C_int flags] [] ucast
    (start_always R) keep (posix_msync R addr len flags)"
  by (rule wrappedI, rule start_rules) (auto simp: posix_msync_def wrapper_simps intro!: post_rules)

definition posix_madvise where "posix_madvise R addr length' advice s = do {
     (ev, s) \<leftarrow> start_always R s;
     let address = addr;
     let ev = upd_val ''address'' (size_value address) ev;
     let ev = upd_val ''length'' (size_value length') ev;
     let ev = upd_val ''advice'' (int_value advice) ev;
     let (ret, s) = call_int R ''madvise'' [C_ptr addr, C_long length', C_int advice] s;
     s \<leftarrow> end_event R ''POSIX'' ''madvise'' ev s;
     Some (ret, s) }"

lemma posix_madvise_wrapped [wrapped_rules]:
  "wrapped R ''POSIX'' ''madvise'' ''madvise'' [C_ptr addr, C_long length', C_int advice] [] ucast
    (start_always R) keep (posix_madvise R addr length' advice)"
  by (rule wrappedI, rule start_rules) (auto simp: posix_madvise_def wrapper_simps intro!: post_rules)

definition posix_mprotect where "posix_mprotect R addr length' prot s = do {
     (ev, s) \<leftarrow> start_always R s;
     let address = addr;
     let ev = upd_val ''address'' (size_value address) ev;
     let ev = upd_val ''length'' (size_value length') ev;
     let ev = upd_val ''prot'' (int_value prot) ev;
     let (ret, s) = call_int R ''mprotect'' [C_ptr addr, C_long length', C_int prot] s;
     s \<leftarrow> end_event R ''POSIX'' ''mprotect'' ev s;
     Some (ret, s) }"

lemma posix_mprotect_wrapped [wrapped_rules]:
  "wrapped R ''POSIX'' ''mprotect'' ''mprotect'' [C_ptr addr, C_long length', C_int prot] [] ucast
    (start_always R) keep (posix_mprotect R addr length' prot)"
  by (rule wrappedI, rule start_rules) (auto simp: posix_mprotect_def wrapper_simps intro!: post_rules)

definition posix_mlock where "posix_mlock R addr len s = do {
     (ev, s) \<leftarrow> start_always R s;
     let address = addr;
     let ev = upd_val ''address'' (size_value address) ev;
     let ev = upd_val ''len'' (size_value len) ev;
     let (ret, s) = call_int R ''mlock'' [C_ptr addr, C_long len] s;
     s \<leftarrow> end_event R ''POSIX'' ''mlock'' ev s;
     Some (ret, s) }"

lemma posix_mlock_wrapped [wrapped_rules]:
  "wrapped R ''POSIX'' ''mlock'' ''mlock'' [C_ptr addr, C_long len] [] ucast
    (start_always R) keep (posix_mlock R addr len)"
  by (rule wrappedI, rule start_rules) (auto simp: posix_mlock_def wrapper_simps intro!: post_rules)

definition posix_munlock where "posix_munlock R addr len s = do {
     (ev, s) \<leftarrow> start_always R s;
     let address = addr;
     let ev = upd_val ''address'' (size_value address) ev;
     let ev = upd_val ''len'' (size_value len) ev;
     let (ret, s) = call_int R ''munlock'' [C_ptr addr, C_long len] s;
     s \<leftarrow> end_event R ''POSIX'' ''munlock'' ev s;
     Some (ret, s) }"

lemma posix_munlock_wrapped [wrapped_rules]:
  "wrapped R ''POSIX'' ''munlock'' ''munlock'' [C_ptr addr, C_long len] [] ucast
    (start_always R) keep (posix_munlock R addr len)"
  by (rule wrappedI, rule start_rules) (auto simp: posix_munlock_def wrapper_simps intro!: post_rules)

definition posix_mlockall where "posix_mlockall R flags s = do {
     (ev, s) \<leftarrow> start_always R s;
     let ev = upd_val ''flags'' (int_value flags) ev;
     let (ret, s) = call_int R ''mlockall'' [C_int flags] s;
     s \<leftarrow> end_event R ''POSIX'' ''mlockall'' ev s;
     Some (ret, s) }"

lemma posix_mlockall_wrapped [wrapped_rules]:
  "wrapped R ''POSIX'' ''mlockall'' ''mlockall'' [C_int flags] [] ucast
    (start_always R) keep (posix_mlockall R flags)"
  by (rule wrappedI, rule start_rules) (auto simp: posix_mlockall_def wrapper_simps intro!: post_rules)

definition posix_munlockall where "posix_munlockall R s = do {
     (ev, s) \<leftarrow> start_always R s;
     let (ret, s) = call_int R ''munlockall'' [] s;
     s \<leftarrow> end_event R ''POSIX'' ''munlockall'' ev s;
     Some (ret, s) }"

lemma posix_munlockall_wrapped [wrapped_rules]:
  "wrapped R ''POSIX'' ''munlockall'' ''munlockall'' [] [] ucast
    (start_always R) keep (posix_munlockall R)"
  by (rule wrappedI, rule start_rules) (auto simp: posix_munlockall_def wrapper_simps intro!: post_rules)

definition posix___fxstatat where "posix___fxstatat R vers dirfd path buf flags s = do {
     (ev, s) \<leftarrow> start_at R dirfd path s;
     (ev, s) \<leftarrow> upd_hash R ''path_hash'' path ev s;
     let ev = upd_val ''flags'' (int_value flags) ev;
     let (ret, s) = call_int R ''__fxstatat'' [C_int vers, C_int dirfd, C_ptr path, C_ptr buf, C_int flags] s;
     s \<leftarrow> end_event R ''POSIX'' ''__fxstatat'' ev s;
     Some (ret, s) }"

lemma posix_fxstatat_wrapped [wrapped_rules]:
  "wrapped R ''POSIX'' ''__fxstatat'' ''__fxstatat'' [C_int vers, C_int dirfd, C_ptr path, C_ptr buf,
    C_int flags] [path] ucast
    (start_at R dirfd path) keep (posix___fxstatat R vers dirfd path buf flags)"
  by (rule wrappedI, rule start_rules) (auto simp: posix___fxstatat_def wrapper_simps intro!: post_rules)

definition posix___fxstatat64 where "posix___fxstatat64 R vers dirfd path buf flags s = do {
     (ev, s) \<leftarrow> start_at R dirfd path s;
     (ev, s) \<leftarrow> upd_hash R ''path_hash'' path ev s;
     let ev = upd_val ''flags'' (int_value flags) ev;
     let (ret, s) = call_int R ''__fxstatat64'' [C_int vers, C_int dirfd, C_ptr path, C_ptr buf, C_int flags] s;
     s \<leftarrow> end_event R ''POSIX'' ''__fxstatat64'' ev s;
     Some (ret, s) }"

lemma posix_fxstatat64_wrapped [wrapped_rules]:
  "wrapped R ''POSIX'' ''__fxstatat64'' ''__fxstatat64'' [C_int vers, C_int dirfd, C_ptr path, C_ptr buf,
    C_int flags] [path] ucast
    (start_at R dirfd path) keep (posix___fxstatat64 R vers dirfd path buf flags)"
  by (rule wrappedI, rule start_rules) (auto simp: posix___fxstatat64_def wrapper_simps intro!: post_rules)

definition posix___xmknod where "posix___xmknod R vers path mode dev s = do {
     (ev, s) \<leftarrow> start_path R path s;
     let ev = upd_val ''mode'' (unsigned_value mode) ev;
     let (ret, s) = call_int R ''__xmknod'' [C_int vers, C_ptr path, C_int mode, C_ptr dev] s;
     s \<leftarrow> end_event R ''POSIX'' ''__xmknod'' ev s;
     Some (ret, s) }"

lemma posix_xmknod_wrapped [wrapped_rules]:
  "wrapped R ''POSIX'' ''__xmknod'' ''__xmknod'' [C_int vers, C_ptr path, C_int mode, C_ptr dev] [] ucast
    (start_path R path) keep (posix___xmknod R vers path mode dev)"
  by (rule wrappedI, rule start_rules) (auto simp: posix___xmknod_def wrapper_simps intro!: post_rules)

definition posix___open_2 where "posix___open_2 R path flags s = do {
     (ev, s) \<leftarrow> start_path R path s;
     let (ret, s) = call_int R ''__open_2'' [C_ptr path, C_int flags] s;
     let ev = upd_val ''flags'' (int_value flags) ev;
     s \<leftarrow> end_event R ''POSIX'' ''__open_2'' ev s;
     let s = (if ev_traced ev then set_trace ret (ev_hash ev) s else s);
     Some (ret, s) }"

lemma posix_open_2_wrapped [wrapped_rules]:
  "wrapped R ''POSIX'' ''__open_2'' ''__open_2'' [C_ptr path, C_int flags] [] ucast
    (start_path R path) track_fd (posix___open_2 R path flags)"
  by (rule wrappedI, rule start_rules) (auto simp: posix___open_2_def wrapper_simps intro!: post_rules)

definition posix___open64_2 where "posix___open64_2 R path flags s = do {
     (ev, s) \<leftarrow> start_path R path s;
     let (ret, s) = call_int R ''__open64_2'' [C_ptr path, C_int flags] s;
     let ev = upd_val ''flags'' (int_value flags) ev;
     s \<leftarrow> end_event R ''POSIX'' ''__open64_2'' ev s;
     let s = (if ev_traced ev then set_trace ret (ev_hash ev) s else s);
     Some (ret, s) }"

lemma posix_open64_2_wrapped [wrapped_rules]:
  "wrapped R ''POSIX'' ''__open64_2'' ''__open64_2'' [C_ptr path, C_int flags] [] ucast
    (start_path R path) track_fd (posix___open64_2 R path flags)"
  by (rule wrappedI, rule start_rules) (auto simp: posix___open64_2_def wrapper_simps intro!: post_rules)

definition posix___openat_2 where "posix___openat_2 R dirfd path flags s = do {
     (ev, s) \<leftarrow> start_at R dirfd path s;
     (ev, s) \<leftarrow> upd_hash R ''path_hash'' path ev s;
     let ev = upd_val ''flags'' (int_value flags) ev;
     let (ret, s) = call_int R ''__openat_2'' [C_int dirfd, C_ptr path, C_int flags] s;
     s \<leftarrow> end_event R ''POSIX'' ''__openat_2'' ev s;
     let s = (if ev_traced ev then set_trace ret (ev_hash ev) s else s);
     Some (ret, s) }"

lemma posix_openat_2_wrapped [wrapped_rules]:
  "wrapped R ''POSIX'' ''__openat_2'' ''__openat_2'' [C_int dirfd, C_ptr path, C_int flags] [path] ucast
    (start_at R dirfd path) track_fd (posix___openat_2 R dirfd path flags)"
  by (rule wrappedI, rule start_rules) (auto simp: posix___openat_2_def wrapper_simps intro!: post_rules)

definition posix___openat64_2 where "posix___openat64_2 R dirfd path flags s = do {
     (ev, s) \<leftarrow> start_at R dirfd path s;
     (ev, s) \<leftarrow> upd_hash R ''path_hash'' path ev s;
     let ev = upd_val ''flags'' (int_value flags) ev;
     let (ret, s) = call_int R ''__openat64_2'' [C_int dirfd, C_ptr path, C_int flags] s;
     s \<leftarrow> end_event R ''POSIX'' ''__openat64_2'' ev s;
     let s = (if ev_traced ev then set_trace ret (ev_hash ev) s else s);
     Some (ret, s) }"

lemma posix_openat64_2_wrapped [wrapped_rules]:
  "wrapped R ''POSIX'' ''__openat64_2'' ''__openat64_2'' [C_int dirfd, C_ptr path, C_int flags] [path] ucast
    (start_at R dirfd path) track_fd (posix___openat64_2 R dirfd path flags)"
  by (rule wrappedI, rule start_rules) (auto simp: posix___openat64_2_def wrapper_simps intro!: post_rules)

definition posix___read_chk where "posix___read_chk R fd buf count' buflen s = do {
     (ev, s) \<leftarrow> start_fd R fd s;
     let ev = upd_val ''count'' (size_value count') ev;
     let (ret, s) = call_long R ''__read_chk'' [C_int fd, C_ptr buf, C_long count', C_long buflen] s;
     let ev = upd_val ''ret'' (long_value ret) ev;
     s \<leftarrow> end_event R ''POSIX'' ''__read_chk'' ev s;
     Some (ret, s) }"

lemma posix_read_chk_wrapped [wrapped_rules]:
  "wrapped R ''POSIX'' ''__read_chk'' ''__read_chk'' [C_int fd, C_ptr buf, C_long count', C_long buflen]
    [] (\<lambda>r. r)
    (start_fd R fd) keep (posix___read_chk R fd buf count' buflen)"
  by (rule wrappedI, rule start_rules) (auto simp: posix___read_chk_def wrapper_simps intro!: post_rules)

definition posix___pread_chk where "posix___pread_chk R fd buf count' offset buflen s = do {
     (ev, s) \<leftarrow> start_fd R fd s;
     let ev = upd_val ''count'' (size_value count') ev;
     let ev = upd_val ''offset'' (long_value offset) ev;
     let (ret, s) = call_long R ''__pread_chk'' [C_int fd, C_ptr buf, C_long count', C_long offset,
       C_long buflen] s;
     let ev = upd_val ''ret'' (long_value ret) ev;
     s \<leftarrow> end_event R ''POSIX'' ''__pread_chk'' ev s;
     Some (ret, s) }"

lemma posix_pread_chk_wrapped [wrapped_rules]:
  "wrapped R ''POSIX'' ''__pread_chk'' ''__pread_chk'' [C_int fd, C_ptr buf, C_long count', C_long offset,
    C_long buflen] [] (\<lambda>r. r)
    (start_fd R fd) keep (posix___pread_chk R fd buf count' offset buflen)"
  by (rule wrappedI, rule start_rules) (auto simp: posix___pread_chk_def wrapper_simps intro!: post_rules)

definition posix___pread64_chk where "posix___pread64_chk R fd buf count' offset buflen s = do {
     (ev, s) \<leftarrow> start_fd R fd s;
     let ev = upd_val ''count'' (size_value count') ev;
     let ev = upd_val ''offset'' (long_value offset) ev;
     let (ret, s) = call_long R ''__pread64_chk'' [C_int fd, C_ptr buf, C_long count', C_long offset,
       C_long buflen] s;
     let ev = upd_val ''ret'' (long_value ret) ev;
     s \<leftarrow> end_event R ''POSIX'' ''__pread64_chk'' ev s;
     Some (ret, s) }"

lemma posix_pread64_chk_wrapped [wrapped_rules]:
  "wrapped R ''POSIX'' ''__pread64_chk'' ''__pread64_chk'' [C_int fd, C_ptr buf, C_long count', C_long offset,
    C_long buflen] [] (\<lambda>r. r)
    (start_fd R fd) keep (posix___pread64_chk R fd buf count' offset buflen)"
  by (rule wrappedI, rule start_rules) (auto simp: posix___pread64_chk_def wrapper_simps intro!: post_rules)

definition posix___readlink_chk where "posix___readlink_chk R path buf bufsize buflen s = do {
     (ev, s) \<leftarrow> start_path R path s;
     let ev = upd_val ''bufsize'' (size_value bufsize) ev;
     let (ret, s) = call_long R ''__readlink_chk'' [C_ptr path, C_ptr buf, C_long bufsize, C_long buflen] s;
     s \<leftarrow> end_event R ''POSIX'' ''__readlink_chk'' ev s;
     Some (ret, s) }"

lemma posix_readlink_chk_wrapped [wrapped_rules]:
  "wrapped R ''POSIX'' ''__readlink_chk'' ''__readlink_chk'' [C_ptr path, C_ptr buf, C_long bufsize,
    C_long buflen] [] (\<lambda>r. r)
    (start_path R path) keep (posix___readlink_chk R path buf bufsize buflen)"
  by (rule wrappedI, rule start_rules) (auto simp: posix___readlink_chk_def wrapper_simps intro!: post_rules)

definition posix___readlinkat_chk where "posix___readlinkat_chk R dirfd path buf bufsize buflen s = do {
     (ev, s) \<leftarrow> start_at R dirfd path s;
     (ev, s) \<leftarrow> upd_hash R ''path_hash'' path ev s;
     let ev = upd_val ''bufsize'' (size_value bufsize) ev;
     let (ret, s) = call_long R ''__readlinkat_chk'' [C_int dirfd, C_ptr path, C_ptr buf, C_long bufsize,
       C_long buflen] s;
     s \<leftarrow> end_event R ''POSIX'' ''__readlinkat_chk'' ev s;
     Some (ret, s) }"

lemma posix_readlinkat_chk_wrapped [wrapped_rules]:
  "wrapped R ''POSIX'' ''__readlinkat_chk'' ''__readlinkat_chk'' [C_int dirfd, C_ptr path, C_ptr buf,
    C_long bufsize, C_long buflen] [path] (\<lambda>r. r)
    (start_at R dirfd path) keep (posix___readlinkat_chk R dirfd path buf bufsize buflen)"
  by (rule wrappedI, rule start_rules) (auto simp: posix___readlinkat_chk_def wrapper_simps intro!: post_rules)

definition posix___getcwd_chk where "posix___getcwd_chk R buf size' buflen s = do {
     (ev, s) \<leftarrow> start_always R s;
     let ev = upd_val ''size'' (size_value size') ev;
     let (ret, s) = call_long R ''__getcwd_chk'' [C_ptr buf, C_long size', C_long buflen] s;
     (ev, s) \<leftarrow> (if ret \<noteq> NULL then upd_hash R ''ret_hash'' ret ev s else Some (ev, s));
     s \<leftarrow> end_event R ''POSIX'' ''__getcwd_chk'' ev s;
     Some (ret, s) }"

lemma posix_getcwd_chk_wrapped [wrapped_rules]:
  "wrapped R ''POSIX'' ''__getcwd_chk'' ''__getcwd_chk'' [C_ptr buf, C_long size', C_long buflen]
    [] (\<lambda>r. r)
    (start_always R) keep (posix___getcwd_chk R buf size' buflen)"
  by (rule wrappedI, rule start_rules) (auto simp: posix___getcwd_chk_def wrapper_simps intro!: post_rules)

definition posix___realpath_chk where "posix___realpath_chk R path resolved resolvedlen s = do {
     (ev, s) \<leftarrow> start_path R path s;
     let (ret, s) = call_long R ''__realpath_chk'' [C_ptr path, C_ptr resolved, C_long resolvedlen] s;
     s \<leftarrow> end_event R ''POSIX'' ''__realpath_chk'' ev s;
     Some (ret, s) }"

lemma posix_realpath_chk_wrapped [wrapped_rules]:
  "wrapped R ''POSIX'' ''__realpath_chk'' ''__realpath_chk'' [C_ptr path, C_ptr resolved, C_long resolvedlen]
    [] (\<lambda>r. r)
    (start_path R path) keep (posix___realpath_chk R path resolved resolvedlen)"
  by (rule wrappedI, rule start_rules) (auto simp: posix___realpath_chk_def wrapper_simps intro!: post_rules)

definition posix_preadv2 where "posix_preadv2 R fd iov iovcnt offset flags s = do {
     (ev, s) \<leftarrow> start_fd R fd s;
     let ev = upd_val ''iovcnt'' (int_value iovcnt) ev;
     let ev = upd_val ''offset'' (long_value offset) ev;
     let ev = upd_val ''flags'' (int_value flags) ev;
     let (ret, s) = call_long R ''preadv2'' [C_int fd, C_ptr iov, C_int iovcnt, C_long offset, C_int flags] s;
     let ev = upd_val ''ret'' (long_value ret) ev;
     s \<leftarrow> end_event R ''POSIX'' ''preadv2'' ev s;
     Some (ret, s) }"

lemma posix_preadv2_wrapped [wrapped_rules]:
  "wrapped R ''POSIX'' ''preadv2'' ''preadv2'' [C_int fd, C_ptr iov, C_int iovcnt, C_long offset, C_int flags]
    [] (\<lambda>r. r)
    (start_fd R fd) keep (posix_preadv2 R fd iov iovcnt offset flags)"
  by (rule wrappedI, rule start_rules) (auto simp: posix_preadv2_def wrapper_simps intro!: post_rules)

definition posix_pwritev2 where "posix_pwritev2 R fd iov iovcnt offset flags s = do {
     (ev, s) \<leftarrow> start_fd R fd s;
     let ev = upd_val ''iovcnt'' (int_value iovcnt) ev;
     let ev = upd_val ''offset'' (long_value offset) ev;
     let ev = upd_val ''flags'' (int_value flags) ev;
     let (ret, s) = call_long R ''pwritev2'' [C_int fd, C_ptr iov, C_int iovcnt, C_long offset, C_int flags] s;
     let ev = upd_val ''ret'' (long_value ret) ev;
     s \<leftarrow> end_event R ''POSIX'' ''pwritev2'' ev s;
     Some (ret, s) }"

lemma posix_pwritev2_wrapped [wrapped_rules]:
  "wrapped R ''POSIX'' ''pwritev2'' ''pwritev2'' [C_int fd, C_ptr iov, C_int iovcnt, C_long offset,
    C_int flags] [] (\<lambda>r. r)
    (start_fd R fd) keep (posix_pwritev2 R fd iov iovcnt offset flags)"
  by (rule wrappedI, rule start_rules) (auto simp: posix_pwritev2_def wrapper_simps intro!: post_rules)

definition posix_preadv64v2 where "posix_preadv64v2 R fd iov iovcnt offset flags s = do {
     (ev, s) \<leftarrow> start_fd R fd s;
     let ev = upd_val ''iovcnt'' (int_value iovcnt) ev;
     let ev = upd_val ''offset'' (long_value offset) ev;
     let ev = upd_val ''flags'' (int_value flags) ev;
     let (ret, s) = call_long R ''preadv64v2'' [C_int fd, C_ptr iov, C_int iovcnt, C_long offset,
       C_int flags] s;
     let ev = upd_val ''ret'' (long_value ret) ev;
     s \<leftarrow> end_event R ''POSIX'' ''preadv64v2'' ev s;
     Some (ret, s) }"

lemma posix_preadv64v2_wrapped [wrapped_rules]:
  "wrapped R ''POSIX'' ''preadv64v2'' ''preadv64v2'' [C_int fd, C_ptr iov, C_int iovcnt, C_long offset,
    C_int flags] [] (\<lambda>r. r)
    (start_fd R fd) keep (posix_preadv64v2 R fd iov iovcnt offset flags)"
  by (rule wrappedI, rule start_rules) (auto simp: posix_preadv64v2_def wrapper_simps intro!: post_rules)

definition posix_pwritev64v2 where "posix_pwritev64v2 R fd iov iovcnt offset flags s = do {
     (ev, s) \<leftarrow> start_fd R fd s;
     let ev = upd_val ''iovcnt'' (int_value iovcnt) ev;
     let ev = upd_val ''offset'' (long_value offset) ev;
     let ev = upd_val ''flags'' (int_value flags) ev;
     let (ret, s) = call_long R ''pwritev64v2'' [C_int fd, C_ptr iov, C_int iovcnt, C_long offset,
       C_int flags] s;
     let ev = upd_val ''ret'' (long_value ret) ev;
     s \<leftarrow> end_event R ''POSIX'' ''pwritev64v2'' ev s;
     Some (ret, s) }"

lemma posix_pwritev64v2_wrapped [wrapped_rules]:
  "wrapped R ''POSIX'' ''pwritev64v2'' ''pwritev64v2'' [C_int fd, C_ptr iov, C_int iovcnt, C_long offset,
    C_int flags] [] (\<lambda>r. r)
    (start_fd R fd) keep (posix_pwritev64v2 R fd iov iovcnt offset flags)"
  by (rule wrappedI, rule start_rules) (auto simp: posix_pwritev64v2_def wrapper_simps intro!: post_rules)

definition posix_splice where "posix_splice R fd_in off_in fd_out off_out len flags s = do {
     let fd = (if fd_hash s fd_in \<noteq> None then fd_in else fd_out);
     (ev, s) \<leftarrow> start_fd R fd s;
     let other_fd = (if fd = fd_in then fd_out else fd_in);
     let ev = upd_key ''other_fd'' (int_value other_fd) ev;
     let ev = upd_val ''len'' (size_value len) ev;
     let ev = upd_val ''flags'' (unsigned_value flags) ev;
     let (ret, s) = call_long R ''splice'' [C_int fd_in, C_ptr off_in, C_int fd_out, C_ptr off_out, C_long len,
       C_int flags] s;
     let ev = upd_val ''ret'' (long_value ret) ev;
     s \<leftarrow> end_event R ''POSIX'' ''splice'' ev s;
     Some (ret, s) }"

lemma posix_splice_wrapped [wrapped_rules]:
  "wrapped R ''POSIX'' ''splice'' ''splice'' [C_int fd_in, C_ptr off_in, C_int fd_out, C_ptr off_out,
    C_long len, C_int flags] [] (\<lambda>r. r)
    (\<lambda>s. start_fd R (if fd_hash s fd_in
      \<noteq> None then fd_in else fd_out) s) keep (posix_splice R fd_in off_in fd_out off_out len flags)"
  by (rule wrappedI, rule start_rules) (auto simp: posix_splice_def wrapper_simps intro!: post_rules)

definition posix_tee where "posix_tee R fd_in fd_out len flags s = do {
     let fd = (if fd_hash s fd_in \<noteq> None then fd_in else fd_out);
     (ev, s) \<leftarrow> start_fd R fd s;
     let other_fd = (if fd = fd_in then fd_out else fd_in);
     let ev = upd_key ''other_fd'' (int_value other_fd) ev;
     let ev = upd_val ''len'' (size_value len) ev;
     let ev = upd_val ''flags'' (unsigned_value flags) ev;
     let (ret, s) = call_long R ''tee'' [C_int fd_in, C_int fd_out, C_long len, C_int flags] s;
     let ev = upd_val ''ret'' (long_value ret) ev;
     s \<leftarrow> end_event R ''POSIX'' ''tee'' ev s;
     Some (ret, s) }"

lemma posix_tee_wrapped [wrapped_rules]:
  "wrapped R ''POSIX'' ''tee'' ''tee'' [C_int fd_in, C_int fd_out, C_long len, C_int flags] [] (\<lambda>r. r)
    (\<lambda>s. start_fd R (if fd_hash s fd_in
      \<noteq> None then fd_in else fd_out) s) keep (posix_tee R fd_in fd_out len flags)"
  by (rule wrappedI, rule start_rules) (auto simp: posix_tee_def wrapper_simps intro!: post_rules)

definition posix_vmsplice where "posix_vmsplice R fd iov nr_segs flags s = do {
     (ev, s) \<leftarrow> start_fd R fd s;
     let ev = upd_val ''nr_segs'' (size_value nr_segs) ev;
     let ev = upd_val ''flags'' (unsigned_value flags) ev;
     let (ret, s) = call_long R ''vmsplice'' [C_int fd, C_ptr iov, C_long nr_segs, C_int flags] s;
     let ev = upd_val ''ret'' (long_value ret) ev;
     s \<leftarrow> end_event R ''POSIX'' ''vmsplice'' ev s;
     Some (ret, s) }"

lemma posix_vmsplice_wrapped [wrapped_rules]:
  "wrapped R ''POSIX'' ''vmsplice'' ''vmsplice'' [C_int fd, C_ptr iov, C_long nr_segs, C_int flags]
    [] (\<lambda>r. r)
    (start_fd R fd) keep (posix_vmsplice R fd iov nr_segs flags)"
  by (rule wrappedI, rule start_rules) (auto simp: posix_vmsplice_def wrapper_simps intro!: post_rules)

definition posix_fallocate where "posix_fallocate R fd mode offset len s = do {
     (ev, s) \<leftarrow> start_fd R fd s;
     let ev = upd_val ''mode'' (int_value mode) ev;
     let ev = upd_val ''offset'' (long_value offset) ev;
     let ev = upd_val ''len'' (long_value len) ev;
     let (ret, s) = call_int R ''fallocate'' [C_int fd, C_int mode, C_long offset, C_long len] s;
     let ev = upd_val ''ret'' (int_value ret) ev;
     s \<leftarrow> end_event R ''POSIX'' ''fallocate'' ev s;
     Some (ret, s) }"

lemma posix_fallocate_wrapped [wrapped_rules]:
  "wrapped R ''POSIX'' ''fallocate'' ''fallocate'' [C_int fd, C_int mode, C_long offset, C_long len] [] ucast
    (start_fd R fd) keep (posix_fallocate R fd mode offset len)"
  by (rule wrappedI, rule start_rules) (auto simp: posix_fallocate_def wrapper_simps intro!: post_rules)

definition posix_fallocate64 where "posix_fallocate64 R fd mode offset len s = do {
     (ev, s) \<leftarrow> start_fd R fd s;
     let ev = upd_val ''mode'' (int_value mode) ev;
     let ev = upd_val ''offset'' (long_value offset) ev;
     let ev = upd_val ''len'' (long_value len) ev;
     let (ret, s) = call_int R ''fallocate64'' [C_int fd, C_int mode, C_long offset, C_long len] s;
     let ev = upd_val ''ret'' (int_value ret) ev;
     s \<leftarrow> end_event R ''POSIX'' ''fallocate64'' ev s;
     Some (ret, s) }"

lemma posix_fallocate64_wrapped [wrapped_rules]:
  "wrapped R ''POSIX'' ''fallocate64'' ''fallocate64'' [C_int fd, C_int mode, C_long offset, C_long len]
    [] ucast
    (start_fd R fd) keep (posix_fallocate64 R fd mode offset len)"
  by (rule wrappedI, rule start_rules) (auto simp: posix_fallocate64_def wrapper_simps intro!: post_rules)

definition posix_readahead where "posix_readahead R fd offset count' s = do {
     (ev, s) \<leftarrow> start_fd R fd s;
     let ev = upd_val ''offset'' (long_value offset) ev;
     let ev = upd_val ''count'' (size_value count') ev;
     let (ret, s) = call_long R ''readahead'' [C_int fd, C_long offset, C_long count'] s;
     let ev = upd_val ''ret'' (long_value ret) ev;
     s \<leftarrow> end_event R ''POSIX'' ''readahead'' ev s;
     Some (ret, s) }"

lemma posix_readahead_wrapped [wrapped_rules]:
  "wrapped R ''POSIX'' ''readahead'' ''readahead'' [C_int fd, C_long offset, C_long count'] [] (\<lambda>r. r)
    (start_fd R fd) keep (posix_readahead R fd offset count')"
  by (rule wrappedI, rule start_rules) (auto simp: posix_readahead_def wrapper_simps intro!: post_rules)

definition posix_sync where "posix_sync R s = do {
     (ev, s) \<leftarrow> start_always R s;
     let (_, s) = call_void R ''sync'' [] s;
     s \<leftarrow> end_event R ''POSIX'' ''sync'' ev s;
     Some ((), s) }"

lemma posix_sync_wrapped [wrapped_rules]:
  "wrapped R ''POSIX'' ''sync'' ''sync'' [] [] (\<lambda>r. ())
    (start_always R) keep (posix_sync R)"
  by (rule wrappedI, rule start_rules) (auto simp: posix_sync_def wrapper_simps intro!: post_rules)

definition posix_syncfs where "posix_syncfs R fd s = do {
     (ev, s) \<leftarrow> start_fd R fd s;
     let (ret, s) = call_int R ''syncfs'' [C_int fd] s;
     s \<leftarrow> end_event R ''POSIX'' ''syncfs'' ev s;
     Some (ret, s) }"

lemma posix_syncfs_wrapped [wrapped_rules]:
  "wrapped R ''POSIX'' ''syncfs'' ''syncfs'' [C_int fd] [] ucast
    (start_fd R fd) keep (posix_syncfs R fd)"
  by (rule wrappedI, rule start_rules) (auto simp: posix_syncfs_def wrapper_simps intro!: post_rules)

definition posix_sync_file_range where "posix_sync_file_range R fd offset nbytes flags s = do {
     (ev, s) \<leftarrow> start_fd R fd s;
     let ev = upd_val ''offset'' (long_value offset) ev;
     let ev = upd_val ''nbytes'' (long_value nbytes) ev;
     let ev = upd_val ''flags'' (unsigned_value flags) ev;
     let (ret, s) = call_int R ''sync_file_range'' [C_int fd, C_long offset, C_long nbytes, C_int flags] s;
     s \<leftarrow> end_event R ''POSIX'' ''sync_file_range'' ev s;
     Some (ret, s) }"

lemma posix_sync_file_range_wrapped [wrapped_rules]:
  "wrapped R ''POSIX'' ''sync_file_range'' ''sync_file_range'' [C_int fd, C_long offset, C_long nbytes,
    C_int flags] [] ucast
    (start_fd R fd) keep (posix_sync_file_range R fd offset nbytes flags)"
  by (rule wrappedI, rule start_rules) (auto simp: posix_sync_file_range_def wrapper_simps intro!: post_rules)

definition posix_statx where "posix_statx R dirfd path flags mask' buf s = do {
     (ev, s) \<leftarrow> start_at R dirfd path s;
     (ev, s) \<leftarrow> upd_hash R ''path_hash'' path ev s;
     let ev = upd_val ''flags'' (int_value flags) ev;
     let ev = upd_val ''mask'' (unsigned_value mask') ev;
     let (ret, s) = call_int R ''statx'' [C_int dirfd, C_ptr path, C_int flags, C_int mask', C_ptr buf] s;
     s \<leftarrow> end_event R ''POSIX'' ''statx'' ev s;
     Some (ret, s) }"

lemma posix_statx_wrapped [wrapped_rules]:
  "wrapped R ''POSIX'' ''statx'' ''statx'' [C_int dirfd, C_ptr path, C_int flags, C_int mask', C_ptr buf]
    [path] ucast
    (start_at R dirfd path) keep (posix_statx R dirfd path flags mask' buf)"
  by (rule wrappedI, rule start_rules) (auto simp: posix_statx_def wrapper_simps intro!: post_rules)

definition posix_statfs where "posix_statfs R path buf s = do {
     (ev, s) \<leftarrow> start_path R path s;
     let (ret, s) = call_int R ''statfs'' [C_ptr path, C_ptr buf] s;
     s \<leftarrow> end_event R ''POSIX'' ''statfs'' ev s;
     Some (ret, s) }"

lemma posix_statfs_wrapped [wrapped_rules]:
  "wrapped R ''POSIX'' ''statfs'' ''statfs'' [C_ptr path, C_ptr buf] [] ucast
    (start_path R path) keep (posix_statfs R path buf)"
  by (rule wrappedI, rule start_rules) (auto simp: posix_statfs_def wrapper_simps intro!: post_rules)

definition posix_fstatfs where "posix_fstatfs R fd buf s = do {
     (ev, s) \<leftarrow> start_fd R fd s;
     let (ret, s) = call_int R ''fstatfs'' [C_int fd, C_ptr buf] s;
     s \<leftarrow> end_event R ''POSIX'' ''fstatfs'' ev s;
     Some (ret, s) }"

lemma posix_fstatfs_wrapped [wrapped_rules]:
  "wrapped R ''POSIX'' ''fstatfs'' ''fstatfs'' [C_int fd, C_ptr buf] [] ucast
    (start_fd R fd) keep (posix_fstatfs R fd buf)"
  by (rule wrappedI, rule start_rules) (auto simp: posix_fstatfs_def wrapper_simps intro!: post_rules)

definition posix_statfs64 where "posix_statfs64 R path buf s = do {
     (ev, s) \<leftarrow> start_path R path s;
     let (ret, s) = call_int R ''statfs64'' [C_ptr path, C_ptr buf] s;
     s \<leftarrow> end_event R ''POSIX'' ''statfs64'' ev s;
     Some (ret, s) }"

lemma posix_statfs64_wrapped [wrapped_rules]:
  "wrapped R ''POSIX'' ''statfs64'' ''statfs64'' [C_ptr path, C_ptr buf] [] ucast
    (start_path R path) keep (posix_statfs64 R path buf)"
  by (rule wrappedI, rule start_rules) (auto simp: posix_statfs64_def wrapper_simps intro!: post_rules)

definition posix_fstatfs64 where "posix_fstatfs64 R fd buf s = do {
     (ev, s) \<leftarrow> start_fd R fd s;
     let (ret, s) = call_int R ''fstatfs64'' [C_int fd, C_ptr buf] s;
     s \<leftarrow> end_event R ''POSIX'' ''fstatfs64'' ev s;
     Some (ret, s) }"

lemma posix_fstatfs64_wrapped [wrapped_rules]:
  "wrapped R ''POSIX'' ''fstatfs64'' ''fstatfs64'' [C_int fd, C_ptr buf] [] ucast
    (start_fd R fd) keep (posix_fstatfs64 R fd buf)"
  by (rule wrappedI, rule start_rules) (auto simp: posix_fstatfs64_def wrapper_simps intro!: post_rules)

definition posix_mknodat where "posix_mknodat R dirfd path mode dev s = do {
     (ev, s) \<leftarrow> start_at R dirfd path s;
     (ev, s) \<leftarrow> upd_hash R ''path_hash'' path ev s;
     let ev = upd_val ''mode'' (unsigned_value mode) ev;
     let (ret, s) = call_int R ''mknodat'' [C_int dirfd, C_ptr path, C_int mode, C_long dev] s;
     s \<leftarrow> end_event R ''POSIX'' ''mknodat'' ev s;
     Some (ret, s) }"

lemma posix_mknodat_wrapped [wrapped_rules]:
  "wrapped R ''POSIX'' ''mknodat'' ''mknodat'' [C_int dirfd, C_ptr path, C_int mode, C_long dev] [path] ucast
    (start_at R dirfd path) keep (posix_mknodat R dirfd path mode dev)"
  by (rule wrappedI, rule start_rules) (auto simp: posix_mknodat_def wrapper_simps intro!: post_rules)

definition posix___xmknodat where "posix___xmknodat R ver dirfd path mode dev s = do {
     (ev, s) \<leftarrow> start_at R dirfd path s;
     (ev, s) \<leftarrow> upd_hash R ''path_hash'' path ev s;
     let ev = upd_val ''mode'' (unsigned_value mode) ev;
     let (ret, s) = call_int R ''__xmknodat'' [C_int ver, C_int dirfd, C_ptr path, C_int mode, C_ptr dev] s;
     s \<leftarrow> end_event R ''POSIX'' ''__xmknodat'' ev s;
     Some (ret, s) }"

lemma posix_xmknodat_wrapped [wrapped_rules]:
  "wrapped R ''POSIX'' ''__xmknodat'' ''__xmknodat'' [C_int ver, C_int dirfd, C_ptr path, C_int mode,
    C_ptr dev] [path] ucast
    (start_at R dirfd path) keep (posix___xmknodat R ver dirfd path mode dev)"
  by (rule wrappedI, rule start_rules) (auto simp: posix___xmknodat_def wrapper_simps intro!: post_rules)

definition posix_euidaccess where "posix_euidaccess R path mode s = do {
     (ev, s) \<leftarrow> start_path R path s;
     let ev = upd_val ''mode'' (int_value mode) ev;
     let (ret, s) = call_int R ''euidaccess'' [C_ptr path, C_int mode] s;
     s \<leftarrow> end_event R ''POSIX'' ''euidaccess'' ev s;
     Some (ret, s) }"

lemma posix_euidaccess_wrapped [wrapped_rules]:
  "wrapped R ''POSIX'' ''euidaccess'' ''euidaccess'' [C_ptr path, C_int mode] [] ucast
    (start_path R path) keep (posix_euidaccess R path mode)"
  by (rule wrappedI, rule start_rules) (auto simp: posix_euidaccess_def wrapper_simps intro!: post_rules)

definition posix_eaccess where "posix_eaccess R path mode s = do {
     (ev, s) \<leftarrow> start_path R path s;
     let ev = upd_val ''mode'' (int_value mode) ev;
     let (ret, s) = call_int R ''eaccess'' [C_ptr path, C_int mode] s;
     s \<leftarrow> end_event R ''POSIX'' ''eaccess'' ev s;
     Some (ret, s) }"

lemma posix_eaccess_wrapped [wrapped_rules]:
  "wrapped R ''POSIX'' ''eaccess'' ''eaccess'' [C_ptr path, C_int mode] [] ucast
    (start_path R path) keep (posix_eaccess R path mode)"
  by (rule wrappedI, rule start_rules) (auto simp: posix_eaccess_def wrapper_simps intro!: post_rules)

definition posix_renameat2 where "posix_renameat2 R olddirfd oldpath newdirfd newpath flags s = do {
     (ev, s) \<leftarrow> start_at R olddirfd oldpath s;
     (ev, s) \<leftarrow> upd_hash R ''oldpath_hash'' oldpath ev s;
     (ev, s) \<leftarrow> upd_hash R ''newpath_hash'' newpath ev s;
     let ev = upd_val ''flags'' (unsigned_value flags) ev;
     let (ret, s) = call_int R ''renameat2'' [C_int olddirfd, C_ptr oldpath, C_int newdirfd, C_ptr newpath,
       C_int flags] s;
     s \<leftarrow> end_event R ''POSIX'' ''renameat2'' ev s;
     Some (ret, s) }"

lemma posix_renameat2_wrapped [wrapped_rules]:
  "wrapped R ''POSIX'' ''renameat2'' ''renameat2'' [C_int olddirfd, C_ptr oldpath, C_int newdirfd,
    C_ptr newpath, C_int flags] [oldpath, newpath] ucast
    (start_at R olddirfd oldpath) keep (posix_renameat2 R olddirfd oldpath newdirfd newpath flags)"
  by (rule wrappedI, rule start_rules) (auto simp: posix_renameat2_def wrapper_simps intro!: post_rules)

definition posix_mkfifoat where "posix_mkfifoat R dirfd path mode s = do {
     (ev, s) \<leftarrow> start_at R dirfd path s;
     (ev, s) \<leftarrow> upd_hash R ''path_hash'' path ev s;
     let ev = upd_val ''mode'' (unsigned_value mode) ev;
     let (ret, s) = call_int R ''mkfifoat'' [C_int dirfd, C_ptr path, C_int mode] s;
     s \<leftarrow> end_event R ''POSIX'' ''mkfifoat'' ev s;
     Some (ret, s) }"

lemma posix_mkfifoat_wrapped [wrapped_rules]:
  "wrapped R ''POSIX'' ''mkfifoat'' ''mkfifoat'' [C_int dirfd, C_ptr path, C_int mode] [path] ucast
    (start_at R dirfd path) keep (posix_mkfifoat R dirfd path mode)"
  by (rule wrappedI, rule start_rules) (auto simp: posix_mkfifoat_def wrapper_simps intro!: post_rules)

definition posix_lchmod where "posix_lchmod R path mode s = do {
     (ev, s) \<leftarrow> start_path R path s;
     let ev = upd_val ''mode'' (unsigned_value mode) ev;
     let (ret, s) = call_int R ''lchmod'' [C_ptr path, C_int mode] s;
     s \<leftarrow> end_event R ''POSIX'' ''lchmod'' ev s;
     Some (ret, s) }"

lemma posix_lchmod_wrapped [wrapped_rules]:
  "wrapped R ''POSIX'' ''lchmod'' ''lchmod'' [C_ptr path, C_int mode] [] ucast
    (start_path R path) keep (posix_lchmod R path mode)"
  by (rule wrappedI, rule start_rules) (auto simp: posix_lchmod_def wrapper_simps intro!: post_rules)

definition posix_utimes where "posix_utimes R path times' s = do {
     (ev, s) \<leftarrow> start_path R path s;
     let (ret, s) = call_int R ''utimes'' [C_ptr path, C_ptr times'] s;
     s \<leftarrow> end_event R ''POSIX'' ''utimes'' ev s;
     Some (ret, s) }"

lemma posix_utimes_wrapped [wrapped_rules]:
  "wrapped R ''POSIX'' ''utimes'' ''utimes'' [C_ptr path, C_ptr times'] [] ucast
    (start_path R path) keep (posix_utimes R path times')"
  by (rule wrappedI, rule start_rules) (auto simp: posix_utimes_def wrapper_simps intro!: post_rules)

definition posix_futimes where "posix_futimes R fd tv s = do {
     (ev, s) \<leftarrow> start_fd R fd s;
     let (ret, s) = call_int R ''futimes'' [C_int fd, C_ptr tv] s;
     s \<leftarrow> end_event R ''POSIX'' ''futimes'' ev s;
     Some (ret, s) }"

lemma posix_futimes_wrapped [wrapped_rules]:
  "wrapped R ''POSIX'' ''futimes'' ''futimes'' [C_int fd, C_ptr tv] [] ucast
    (start_fd R fd) keep (posix_futimes R fd tv)"
  by (rule wrappedI, rule start_rules) (auto simp: posix_futimes_def wrapper_simps intro!: post_rules)

definition posix_lutimes where "posix_lutimes R path tv s = do {
     (ev, s) \<leftarrow> start_path R path s;
     let (ret, s) = call_int R ''lutimes'' [C_ptr path, C_ptr tv] s;
     s \<leftarrow> end_event R ''POSIX'' ''lutimes'' ev s;
     Some (ret, s) }"

lemma posix_lutimes_wrapped [wrapped_rules]:
  "wrapped R ''POSIX'' ''lutimes'' ''lutimes'' [C_ptr path, C_ptr tv] [] ucast
    (start_path R path) keep (posix_lutimes R path tv)"
  by (rule wrappedI, rule start_rules) (auto simp: posix_lutimes_def wrapper_simps intro!: post_rules)

definition posix_futimesat where "posix_futimesat R dirfd path times' s = do {
     (ev, s) \<leftarrow> start_at R dirfd path s;
     (ev, s) \<leftarrow> upd_hash R ''path_hash'' path ev s;
     let (ret, s) = call_int R ''futimesat'' [C_int dirfd, C_ptr path, C_ptr times'] s;
     s \<leftarrow> end_event R ''POSIX'' ''futimesat'' ev s;
     Some (ret, s) }"

lemma posix_futimesat_wrapped [wrapped_rules]:
  "wrapped R ''POSIX'' ''futimesat'' ''futimesat'' [C_int dirfd, C_ptr path, C_ptr times'] [path] ucast
    (start_at R dirfd path) keep (posix_futimesat R dirfd path times')"
  by (rule wrappedI, rule start_rules) (auto simp: posix_futimesat_def wrapper_simps intro!: post_rules)

definition posix_utimensat where "posix_utimensat R dirfd path times' flags s = do {
     (ev, s) \<leftarrow> start_at R dirfd path s;
     (ev, s) \<leftarrow> upd_hash R ''path_hash'' path ev s;
     let ev = upd_val ''flags'' (int_value flags) ev;
     let (ret, s) = call_int R ''utimensat'' [C_int dirfd, C_ptr path, C_ptr times', C_int flags] s;
     s \<leftarrow> end_event R ''POSIX'' ''utimensat'' ev s;
     Some (ret, s) }"

lemma posix_utimensat_wrapped [wrapped_rules]:
  "wrapped R ''POSIX'' ''utimensat'' ''utimensat'' [C_int dirfd, C_ptr path, C_ptr times', C_int flags]
    [path] ucast
    (start_at R dirfd path) keep (posix_utimensat R dirfd path times' flags)"
  by (rule wrappedI, rule start_rules) (auto simp: posix_utimensat_def wrapper_simps intro!: post_rules)

definition posix_futimens where "posix_futimens R fd times' s = do {
     (ev, s) \<leftarrow> start_fd R fd s;
     let (ret, s) = call_int R ''futimens'' [C_int fd, C_ptr times'] s;
     s \<leftarrow> end_event R ''POSIX'' ''futimens'' ev s;
     Some (ret, s) }"

lemma posix_futimens_wrapped [wrapped_rules]:
  "wrapped R ''POSIX'' ''futimens'' ''futimens'' [C_int fd, C_ptr times'] [] ucast
    (start_fd R fd) keep (posix_futimens R fd times')"
  by (rule wrappedI, rule start_rules) (auto simp: posix_futimens_def wrapper_simps intro!: post_rules)

definition posix_fchdir where "posix_fchdir R fd s = do {
     (ev, s) \<leftarrow> start_fd R fd s;
     let (ret, s) = call_int R ''fchdir'' [C_int fd] s;
     s \<leftarrow> end_event R ''POSIX'' ''fchdir'' ev s;
     Some (ret, s) }"

lemma posix_fchdir_wrapped [wrapped_rules]:
  "wrapped R ''POSIX'' ''fchdir'' ''fchdir'' [C_int fd] [] ucast
    (start_fd R fd) keep (posix_fchdir R fd)"
  by (rule wrappedI, rule start_rules) (auto simp: posix_fchdir_def wrapper_simps intro!: post_rules)

definition posix_fdopendir where "posix_fdopendir R fd s = do {
     (ev, s) \<leftarrow> start_fd R fd s;
     let (ret, s) = call_long R ''fdopendir'' [C_int fd] s;
     s \<leftarrow> end_event R ''POSIX'' ''fdopendir'' ev s;
     Some (ret, s) }"

lemma posix_fdopendir_wrapped [wrapped_rules]:
  "wrapped R ''POSIX'' ''fdopendir'' ''fdopendir'' [C_int fd] [] (\<lambda>r. r)
    (start_fd R fd) keep (posix_fdopendir R fd)"
  by (rule wrappedI, rule start_rules) (auto simp: posix_fdopendir_def wrapper_simps intro!: post_rules)

definition posix_readdir_r where "posix_readdir_r R dir entry' res s = do {
     (ev, s) \<leftarrow> start_fd R (dir_fd R dir s) s;
     let (ret, s) = call_int R ''readdir_r'' [C_ptr dir, C_ptr entry', C_ptr res] s;
     s \<leftarrow> end_event R ''POSIX'' ''readdir_r'' ev s;
     Some (ret, s) }"

lemma posix_readdir_r_wrapped [wrapped_rules]:
  "wrapped R ''POSIX'' ''readdir_r'' ''readdir_r'' [C_ptr dir, C_ptr entry', C_ptr res] [] ucast
    (\<lambda>s. start_fd R (dir_fd R dir s) s) keep (posix_readdir_r R dir entry' res)"
  by (rule wrappedI, rule start_rules) (auto simp: posix_readdir_r_def wrapper_simps intro!: post_rules)

definition posix_readdir64_r where "posix_readdir64_r R dir entry' res s = do {
     (ev, s) \<leftarrow> start_fd R (dir_fd R dir s) s;
     let (ret, s) = call_int R ''readdir64_r'' [C_ptr dir, C_ptr entry', C_ptr res] s;
     s \<leftarrow> end_event R ''POSIX'' ''readdir64_r'' ev s;
     Some (ret, s) }"

lemma posix_readdir64_r_wrapped [wrapped_rules]:
  "wrapped R ''POSIX'' ''readdir64_r'' ''readdir64_r'' [C_ptr dir, C_ptr entry', C_ptr res] [] ucast
    (\<lambda>s. start_fd R (dir_fd R dir s) s) keep (posix_readdir64_r R dir entry' res)"
  by (rule wrappedI, rule start_rules) (auto simp: posix_readdir64_r_def wrapper_simps intro!: post_rules)

definition posix_seekdir where "posix_seekdir R dir loc s = do {
     (ev, s) \<leftarrow> start_fd R (dir_fd R dir s) s;
     let ev = upd_val ''loc'' (long_value loc) ev;
     let (_, s) = call_void R ''seekdir'' [C_ptr dir, C_long loc] s;
     s \<leftarrow> end_event R ''POSIX'' ''seekdir'' ev s;
     Some ((), s) }"

lemma posix_seekdir_wrapped [wrapped_rules]:
  "wrapped R ''POSIX'' ''seekdir'' ''seekdir'' [C_ptr dir, C_long loc] [] (\<lambda>r. ())
    (\<lambda>s. start_fd R (dir_fd R dir s) s) keep (posix_seekdir R dir loc)"
  by (rule wrappedI, rule start_rules) (auto simp: posix_seekdir_def wrapper_simps intro!: post_rules)

definition posix_telldir where "posix_telldir R dir s = do {
     (ev, s) \<leftarrow> start_fd R (dir_fd R dir s) s;
     let (ret, s) = call_long R ''telldir'' [C_ptr dir] s;
     let ev = upd_val ''ret'' (long_value ret) ev;
     s \<leftarrow> end_event R ''POSIX'' ''telldir'' ev s;
     Some (ret, s) }"

lemma posix_telldir_wrapped [wrapped_rules]:
  "wrapped R ''POSIX'' ''telldir'' ''telldir'' [C_ptr dir] [] (\<lambda>r. r)
    (\<lambda>s. start_fd R (dir_fd R dir s) s) keep (posix_telldir R dir)"
  by (rule wrappedI, rule start_rules) (auto simp: posix_telldir_def wrapper_simps intro!: post_rules)

definition posix_scandir where "posix_scandir R dir namelist filter' compar s = do {
     (ev, s) \<leftarrow> start_path R dir s;
     let (ret, s) = call_int R ''scandir'' [C_ptr dir, C_ptr namelist, C_ptr filter', C_ptr compar] s;
     let ev = upd_val ''ret'' (int_value ret) ev;
     s \<leftarrow> end_event R ''POSIX'' ''scandir'' ev s;
     Some (ret, s) }"

lemma posix_scandir_wrapped [wrapped_rules]:
  "wrapped R ''POSIX'' ''scandir'' ''scandir'' [C_ptr dir, C_ptr namelist, C_ptr filter', C_ptr compar] [] ucast
    (start_path R dir) keep (posix_scandir R dir namelist filter' compar)"
  by (rule wrappedI, rule start_rules) (auto simp: posix_scandir_def wrapper_simps intro!: post_rules)

definition posix_scandir64 where "posix_scandir64 R dir namelist filter' compar s = do {
     (ev, s) \<leftarrow> start_path R dir s;
     let (ret, s) = call_int R ''scandir64'' [C_ptr dir, C_ptr namelist, C_ptr filter', C_ptr compar] s;
     let ev = upd_val ''ret'' (int_value ret) ev;
     s \<leftarrow> end_event R ''POSIX'' ''scandir64'' ev s;
     Some (ret, s) }"

lemma posix_scandir64_wrapped [wrapped_rules]:
  "wrapped R ''POSIX'' ''scandir64'' ''scandir64'' [C_ptr dir, C_ptr namelist, C_ptr filter', C_ptr compar]
    [] ucast
    (start_path R dir) keep (posix_scandir64 R dir namelist filter' compar)"
  by (rule wrappedI, rule start_rules) (auto simp: posix_scandir64_def wrapper_simps intro!: post_rules)

definition posix_scandirat where "posix_scandirat R dirfd dir namelist filter' compar s = do {
     (ev, s) \<leftarrow> start_at R dirfd dir s;
     (ev, s) \<leftarrow> upd_hash R ''dir_hash'' dir ev s;
     let (ret, s) = call_int R ''scandirat'' [C_int dirfd, C_ptr dir, C_ptr namelist, C_ptr filter',
       C_ptr compar] s;
     let ev = upd_val ''ret'' (int_value ret) ev;
     s \<leftarrow> end_event R ''POSIX'' ''scandirat'' ev s;
     Some (ret, s) }"

lemma posix_scandirat_wrapped [wrapped_rules]:
  "wrapped R ''POSIX'' ''scandirat'' ''scandirat'' [C_int dirfd, C_ptr dir, C_ptr namelist, C_ptr filter',
    C_ptr compar] [dir] ucast
    (start_at R dirfd dir) keep (posix_scandirat R dirfd dir namelist filter' compar)"
  by (rule wrappedI, rule start_rules) (auto simp: posix_scandirat_def wrapper_simps intro!: post_rules)

definition posix_scandirat64 where "posix_scandirat64 R dirfd dir namelist filter' compar s = do {
     (ev, s) \<leftarrow> start_at R dirfd dir s;
     (ev, s) \<leftarrow> upd_hash R ''dir_hash'' dir ev s;
     let (ret, s) = call_int R ''scandirat64'' [C_int dirfd, C_ptr dir, C_ptr namelist, C_ptr filter',
       C_ptr compar] s;
     let ev = upd_val ''ret'' (int_value ret) ev;
     s \<leftarrow> end_event R ''POSIX'' ''scandirat64'' ev s;
     Some (ret, s) }"

lemma posix_scandirat64_wrapped [wrapped_rules]:
  "wrapped R ''POSIX'' ''scandirat64'' ''scandirat64'' [C_int dirfd, C_ptr dir, C_ptr namelist, C_ptr filter',
    C_ptr compar] [dir] ucast
    (start_at R dirfd dir) keep (posix_scandirat64 R dirfd dir namelist filter' compar)"
  by (rule wrappedI, rule start_rules) (auto simp: posix_scandirat64_def wrapper_simps intro!: post_rules)

definition posix_nftw where "posix_nftw R path func nopenfd flags s = do {
     (ev, s) \<leftarrow> start_path R path s;
     let ev = upd_val ''nopenfd'' (int_value nopenfd) ev;
     let ev = upd_val ''flags'' (int_value flags) ev;
     let (ret, s) = call_int R ''nftw'' [C_ptr path, C_ptr func, C_int nopenfd, C_int flags] s;
     let ev = upd_val ''ret'' (int_value ret) ev;
     s \<leftarrow> end_event R ''POSIX'' ''nftw'' ev s;
     Some (ret, s) }"

lemma posix_nftw_wrapped [wrapped_rules]:
  "wrapped R ''POSIX'' ''nftw'' ''nftw'' [C_ptr path, C_ptr func, C_int nopenfd, C_int flags] [] ucast
    (start_path R path) keep (posix_nftw R path func nopenfd flags)"
  by (rule wrappedI, rule start_rules) (auto simp: posix_nftw_def wrapper_simps intro!: post_rules)

definition posix_nftw64 where "posix_nftw64 R path func nopenfd flags s = do {
     (ev, s) \<leftarrow> start_path R path s;
     let ev = upd_val ''nopenfd'' (int_value nopenfd) ev;
     let ev = upd_val ''flags'' (int_value flags) ev;
     let (ret, s) = call_int R ''nftw64'' [C_ptr path, C_ptr func, C_int nopenfd, C_int flags] s;
     let ev = upd_val ''ret'' (int_value ret) ev;
     s \<leftarrow> end_event R ''POSIX'' ''nftw64'' ev s;
     Some (ret, s) }"

lemma posix_nftw64_wrapped [wrapped_rules]:
  "wrapped R ''POSIX'' ''nftw64'' ''nftw64'' [C_ptr path, C_ptr func, C_int nopenfd, C_int flags] [] ucast
    (start_path R path) keep (posix_nftw64 R path func nopenfd flags)"
  by (rule wrappedI, rule start_rules) (auto simp: posix_nftw64_def wrapper_simps intro!: post_rules)

definition posix_getdents64 where "posix_getdents64 R fd buf count' s = do {
     (ev, s) \<leftarrow> start_fd R fd s;
     let ev = upd_val ''count'' (size_value count') ev;
     let (ret, s) = call_long R ''getdents64'' [C_int fd, C_ptr buf, C_long count'] s;
     let ev = upd_val ''ret'' (long_value ret) ev;
     s \<leftarrow> end_event R ''POSIX'' ''getdents64'' ev s;
     Some (ret, s) }"

lemma posix_getdents64_wrapped [wrapped_rules]:
  "wrapped R ''POSIX'' ''getdents64'' ''getdents64'' [C_int fd, C_ptr buf, C_long count'] [] (\<lambda>r. r)
    (start_fd R fd) keep (posix_getdents64 R fd buf count')"
  by (rule wrappedI, rule start_rules) (auto simp: posix_getdents64_def wrapper_simps intro!: post_rules)

definition MREMAP_FIXED :: u32 where "MREMAP_FIXED = 2"

definition posix_mremap where "posix_mremap R old_addr old_size new_size flags new_addr s = do {
     (ev, s) \<leftarrow> start_always R s;
     let address = old_addr;
     let ev = upd_val ''address'' (size_value address) ev;
     let ev = upd_val ''old_size'' (size_value old_size) ev;
     let ev = upd_val ''new_size'' (size_value new_size) ev;
     let ev = upd_val ''flags'' (int_value flags) ev;
     let (ret, s) = (if flags AND MREMAP_FIXED \<noteq> 0
       then call_long R ''mremap'' [C_ptr old_addr, C_long old_size, C_long new_size, C_int flags,
         C_ptr new_addr] s
       else call_long R ''mremap'' [C_ptr old_addr, C_long old_size, C_long new_size, C_int flags] s);
     let result_address = ret;
     let ev = upd_val ''result_address'' (size_value result_address) ev;
     s \<leftarrow> end_event R ''POSIX'' ''mremap'' ev s;
     Some (ret, s) }"

definition posix_ioctl where "posix_ioctl R fd request arg s = do {
     (ev, s) \<leftarrow> start_fd R fd s;
     let ev = upd_val ''request'' (size_value request) ev;
     let (ret, s) = call_int R ''ioctl'' [C_int fd, C_long request, C_ptr arg] s;
     let ev = upd_val ''ret'' (int_value ret) ev;
     s \<leftarrow> end_event R ''POSIX'' ''ioctl'' ev s;
     Some (ret, s) }"

lemma posix_ioctl_wrapped [wrapped_rules]:
  "wrapped R ''POSIX'' ''ioctl'' ''ioctl'' [C_int fd, C_long request, C_ptr arg] [] ucast
    (start_fd R fd) keep (posix_ioctl R fd request arg)"
  by (rule wrappedI, rule start_rules) (auto simp: posix_ioctl_def wrapper_simps intro!: post_rules)

definition posix_lockf where "posix_lockf R fd cmd len s = do {
     (ev, s) \<leftarrow> start_fd R fd s;
     let ev = upd_val ''cmd'' (int_value cmd) ev;
     let ev = upd_val ''len'' (long_value len) ev;
     let (ret, s) = call_int R ''lockf'' [C_int fd, C_int cmd, C_long len] s;
     let ev = upd_val ''ret'' (int_value ret) ev;
     s \<leftarrow> end_event R ''POSIX'' ''lockf'' ev s;
     Some (ret, s) }"

lemma posix_lockf_wrapped [wrapped_rules]:
  "wrapped R ''POSIX'' ''lockf'' ''lockf'' [C_int fd, C_int cmd, C_long len] [] ucast
    (start_fd R fd) keep (posix_lockf R fd cmd len)"
  by (rule wrappedI, rule start_rules) (auto simp: posix_lockf_def wrapper_simps intro!: post_rules)

definition posix_lockf64 where "posix_lockf64 R fd cmd len s = do {
     (ev, s) \<leftarrow> start_fd R fd s;
     let ev = upd_val ''cmd'' (int_value cmd) ev;
     let ev = upd_val ''len'' (long_value len) ev;
     let (ret, s) = call_int R ''lockf64'' [C_int fd, C_int cmd, C_long len] s;
     let ev = upd_val ''ret'' (int_value ret) ev;
     s \<leftarrow> end_event R ''POSIX'' ''lockf64'' ev s;
     Some (ret, s) }"

lemma posix_lockf64_wrapped [wrapped_rules]:
  "wrapped R ''POSIX'' ''lockf64'' ''lockf64'' [C_int fd, C_int cmd, C_long len] [] ucast
    (start_fd R fd) keep (posix_lockf64 R fd cmd len)"
  by (rule wrappedI, rule start_rules) (auto simp: posix_lockf64_def wrapper_simps intro!: post_rules)

definition posix_pipe2 where "posix_pipe2 R pipefd flags s = do {
     (ev, s) \<leftarrow> start_always R s;
     let (ret, s) = call_int R ''pipe2'' [C_ptr pipefd, C_int flags] s;
     let read_fd = (if ret = 0 then int_at R (tp_world s) pipefd 0 else - 1);
     let write_fd = (if ret = 0 then int_at R (tp_world s) pipefd 1 else - 1);
     let ev = upd_key ''read_fd'' (int_value read_fd) ev;
     let ev = upd_key ''write_fd'' (int_value write_fd) ev;
     let ev = upd_val ''flags'' (int_value flags) ev;
     s \<leftarrow> end_event R ''POSIX'' ''pipe2'' ev s;
     Some (ret, s) }"

lemma posix_pipe2_wrapped [wrapped_rules]:
  "wrapped R ''POSIX'' ''pipe2'' ''pipe2'' [C_ptr pipefd, C_int flags] [] ucast
    (start_always R) keep (posix_pipe2 R pipefd flags)"
  by (rule wrappedI, rule start_rules) (auto simp: posix_pipe2_def wrapper_simps intro!: post_rules)

definition posix_memfd_create where "posix_memfd_create R name' flags s = do {
     (ev, s) \<leftarrow> start_path R name' s;
     let ev = upd_val ''flags'' (unsigned_value flags) ev;
     let (ret, s) = call_int R ''memfd_create'' [C_ptr name', C_int flags] s;
     s \<leftarrow> end_event R ''POSIX'' ''memfd_create'' ev s;
     let s = (if ev_traced ev then set_trace ret (ev_hash ev) s else s);
     Some (ret, s) }"

lemma posix_memfd_create_wrapped [wrapped_rules]:
  "wrapped R ''POSIX'' ''memfd_create'' ''memfd_create'' [C_ptr name', C_int flags] [] ucast
    (start_path R name') track_fd (posix_memfd_create R name' flags)"
  by (rule wrappedI, rule start_rules) (auto simp: posix_memfd_create_def wrapper_simps intro!: post_rules)

definition posix_mkstemp where "posix_mkstemp R tmpl s = do {
     (ev, s) \<leftarrow> start_path R tmpl s;
     let (ret, s) = call_int R ''mkstemp'' [C_ptr tmpl] s;
     (ev, s) \<leftarrow> (if ev_traced ev \<and> 0
       \<le> sint ret then rename_traced R tmpl ret ev s else Some (ev, s));
     s \<leftarrow> end_event R ''POSIX'' ''mkstemp'' ev s;
     Some (ret, s) }"

definition posix_mkstemp64 where "posix_mkstemp64 R tmpl s = do {
     (ev, s) \<leftarrow> start_path R tmpl s;
     let (ret, s) = call_int R ''mkstemp64'' [C_ptr tmpl] s;
     (ev, s) \<leftarrow> (if ev_traced ev \<and> 0
       \<le> sint ret then rename_traced R tmpl ret ev s else Some (ev, s));
     s \<leftarrow> end_event R ''POSIX'' ''mkstemp64'' ev s;
     Some (ret, s) }"

definition posix_mkostemp where "posix_mkostemp R tmpl flags s = do {
     (ev, s) \<leftarrow> start_path R tmpl s;
     let ev = upd_val ''flags'' (int_value flags) ev;
     let (ret, s) = call_int R ''mkostemp'' [C_ptr tmpl, C_int flags] s;
     (ev, s) \<leftarrow> (if ev_traced ev \<and> 0
       \<le> sint ret then rename_traced R tmpl ret ev s else Some (ev, s));
     s \<leftarrow> end_event R ''POSIX'' ''mkostemp'' ev s;
     Some (ret, s) }"

definition posix_mkostemp64 where "posix_mkostemp64 R tmpl flags s = do {
     (ev, s) \<leftarrow> start_path R tmpl s;
     let ev = upd_val ''flags'' (int_value flags) ev;
     let (ret, s) = call_int R ''mkostemp64'' [C_ptr tmpl, C_int flags] s;
     (ev, s) \<leftarrow> (if ev_traced ev \<and> 0
       \<le> sint ret then rename_traced R tmpl ret ev s else Some (ev, s));
     s \<leftarrow> end_event R ''POSIX'' ''mkostemp64'' ev s;
     Some (ret, s) }"

definition posix_mkstemps where "posix_mkstemps R tmpl suffixlen s = do {
     (ev, s) \<leftarrow> start_path R tmpl s;
     let ev = upd_val ''suffixlen'' (int_value suffixlen) ev;
     let (ret, s) = call_int R ''mkstemps'' [C_ptr tmpl, C_int suffixlen] s;
     (ev, s) \<leftarrow> (if ev_traced ev \<and> 0
       \<le> sint ret then rename_traced R tmpl ret ev s else Some (ev, s));
     s \<leftarrow> end_event R ''POSIX'' ''mkstemps'' ev s;
     Some (ret, s) }"

definition posix_mkstemps64 where "posix_mkstemps64 R tmpl suffixlen s = do {
     (ev, s) \<leftarrow> start_path R tmpl s;
     let ev = upd_val ''suffixlen'' (int_value suffixlen) ev;
     let (ret, s) = call_int R ''mkstemps64'' [C_ptr tmpl, C_int suffixlen] s;
     (ev, s) \<leftarrow> (if ev_traced ev \<and> 0
       \<le> sint ret then rename_traced R tmpl ret ev s else Some (ev, s));
     s \<leftarrow> end_event R ''POSIX'' ''mkstemps64'' ev s;
     Some (ret, s) }"

definition posix_mkostemps where "posix_mkostemps R tmpl suffixlen flags s = do {
     (ev, s) \<leftarrow> start_path R tmpl s;
     let ev = upd_val ''suffixlen'' (int_value suffixlen) ev;
     let ev = upd_val ''flags'' (int_value flags) ev;
     let (ret, s) = call_int R ''mkostemps'' [C_ptr tmpl, C_int suffixlen, C_int flags] s;
     (ev, s) \<leftarrow> (if ev_traced ev \<and> 0
       \<le> sint ret then rename_traced R tmpl ret ev s else Some (ev, s));
     s \<leftarrow> end_event R ''POSIX'' ''mkostemps'' ev s;
     Some (ret, s) }"

definition posix_mkostemps64 where "posix_mkostemps64 R tmpl suffixlen flags s = do {
     (ev, s) \<leftarrow> start_path R tmpl s;
     let ev = upd_val ''suffixlen'' (int_value suffixlen) ev;
     let ev = upd_val ''flags'' (int_value flags) ev;
     let (ret, s) = call_int R ''mkostemps64'' [C_ptr tmpl, C_int suffixlen, C_int flags] s;
     (ev, s) \<leftarrow> (if ev_traced ev \<and> 0
       \<le> sint ret then rename_traced R tmpl ret ev s else Some (ev, s));
     s \<leftarrow> end_event R ''POSIX'' ''mkostemps64'' ev s;
     Some (ret, s) }"

definition posix_mkdtemp where "posix_mkdtemp R tmpl s = do {
     (ev, s) \<leftarrow> start_path R tmpl s;
     let (ret, s) = call_long R ''mkdtemp'' [C_ptr tmpl] s;
     s \<leftarrow> end_event R ''POSIX'' ''mkdtemp'' ev s;
     Some (ret, s) }"

lemma posix_mkdtemp_wrapped [wrapped_rules]:
  "wrapped R ''POSIX'' ''mkdtemp'' ''mkdtemp'' [C_ptr tmpl] [] (\<lambda>r. r)
    (start_path R tmpl) keep (posix_mkdtemp R tmpl)"
  by (rule wrappedI, rule start_rules) (auto simp: posix_mkdtemp_def wrapper_simps intro!: post_rules)

definition posix_getxattr where "posix_getxattr R path name' value' size' s = do {
     (ev, s) \<leftarrow> start_path R path s;
     let ev = upd_val ''size'' (size_value size') ev;
     let (ret, s) = call_long R ''getxattr'' [C_ptr path, C_ptr name', C_ptr value', C_long size'] s;
     let ev = upd_val ''ret'' (long_value ret) ev;
     s \<leftarrow> end_event R ''POSIX'' ''getxattr'' ev s;
     Some (ret, s) }"

lemma posix_getxattr_wrapped [wrapped_rules]:
  "wrapped R ''POSIX'' ''getxattr'' ''getxattr'' [C_ptr path, C_ptr name', C_ptr value', C_long size']
    [] (\<lambda>r. r)
    (start_path R path) keep (posix_getxattr R path name' value' size')"
  by (rule wrappedI, rule start_rules) (auto simp: posix_getxattr_def wrapper_simps intro!: post_rules)

definition posix_lgetxattr where "posix_lgetxattr R path name' value' size' s = do {
     (ev, s) \<leftarrow> start_path R path s;
     let ev = upd_val ''size'' (size_value size') ev;
     let (ret, s) = call_long R ''lgetxattr'' [C_ptr path, C_ptr name', C_ptr value', C_long size'] s;
     let ev = upd_val ''ret'' (long_value ret) ev;
     s \<leftarrow> end_event R ''POSIX'' ''lgetxattr'' ev s;
     Some (ret, s) }"

lemma posix_lgetxattr_wrapped [wrapped_rules]:
  "wrapped R ''POSIX'' ''lgetxattr'' ''lgetxattr'' [C_ptr path, C_ptr name', C_ptr value', C_long size']
    [] (\<lambda>r. r)
    (start_path R path) keep (posix_lgetxattr R path name' value' size')"
  by (rule wrappedI, rule start_rules) (auto simp: posix_lgetxattr_def wrapper_simps intro!: post_rules)

definition posix_fgetxattr where "posix_fgetxattr R fd name' value' size' s = do {
     (ev, s) \<leftarrow> start_fd R fd s;
     let ev = upd_val ''size'' (size_value size') ev;
     let (ret, s) = call_long R ''fgetxattr'' [C_int fd, C_ptr name', C_ptr value', C_long size'] s;
     let ev = upd_val ''ret'' (long_value ret) ev;
     s \<leftarrow> end_event R ''POSIX'' ''fgetxattr'' ev s;
     Some (ret, s) }"

lemma posix_fgetxattr_wrapped [wrapped_rules]:
  "wrapped R ''POSIX'' ''fgetxattr'' ''fgetxattr'' [C_int fd, C_ptr name', C_ptr value', C_long size']
    [] (\<lambda>r. r)
    (start_fd R fd) keep (posix_fgetxattr R fd name' value' size')"
  by (rule wrappedI, rule start_rules) (auto simp: posix_fgetxattr_def wrapper_simps intro!: post_rules)

definition posix_setxattr where "posix_setxattr R path name' value' size' flags s = do {
     (ev, s) \<leftarrow> start_path R path s;
     let ev = upd_val ''size'' (size_value size') ev;
     let ev = upd_val ''flags'' (int_value flags) ev;
     let (ret, s) = call_int R ''setxattr'' [C_ptr path, C_ptr name', C_ptr value', C_long size',
       C_int flags] s;
     s \<leftarrow> end_event R ''POSIX'' ''setxattr'' ev s;
     Some (ret, s) }"

lemma posix_setxattr_wrapped [wrapped_rules]:
  "wrapped R ''POSIX'' ''setxattr'' ''setxattr'' [C_ptr path, C_ptr name', C_ptr value', C_long size',
    C_int flags] [] ucast
    (start_path R path) keep (posix_setxattr R path name' value' size' flags)"
  by (rule wrappedI, rule start_rules) (auto simp: posix_setxattr_def wrapper_simps intro!: post_rules)

definition posix_lsetxattr where "posix_lsetxattr R path name' value' size' flags s = do {
     (ev, s) \<leftarrow> start_path R path s;
     let ev = upd_val ''size'' (size_value size') ev;
     let ev = upd_val ''flags'' (int_value flags) ev;
     let (ret, s) = call_int R ''lsetxattr'' [C_ptr path, C_ptr name', C_ptr value', C_long size',
       C_int flags] s;
     s \<leftarrow> end_event R ''POSIX'' ''lsetxattr'' ev s;
     Some (ret, s) }"

lemma posix_lsetxattr_wrapped [wrapped_rules]:
  "wrapped R ''POSIX'' ''lsetxattr'' ''lsetxattr'' [C_ptr path, C_ptr name', C_ptr value', C_long size',
    C_int flags] [] ucast
    (start_path R path) keep (posix_lsetxattr R path name' value' size' flags)"
  by (rule wrappedI, rule start_rules) (auto simp: posix_lsetxattr_def wrapper_simps intro!: post_rules)

definition posix_fsetxattr where "posix_fsetxattr R fd name' value' size' flags s = do {
     (ev, s) \<leftarrow> start_fd R fd s;
     let ev = upd_val ''size'' (size_value size') ev;
     let ev = upd_val ''flags'' (int_value flags) ev;
     let (ret, s) = call_int R ''fsetxattr'' [C_int fd, C_ptr name', C_ptr value', C_long size', C_int flags] s;
     s \<leftarrow> end_event R ''POSIX'' ''fsetxattr'' ev s;
     Some (ret, s) }"

lemma posix_fsetxattr_wrapped [wrapped_rules]:
  "wrapped R ''POSIX'' ''fsetxattr'' ''fsetxattr'' [C_int fd, C_ptr name', C_ptr value', C_long size',
    C_int flags] [] ucast
    (start_fd R fd) keep (posix_fsetxattr R fd name' value' size' flags)"
  by (rule wrappedI, rule start_rules) (auto simp: posix_fsetxattr_def wrapper_simps intro!: post_rules)

definition posix_listxattr where "posix_listxattr R path list' size' s = do {
     (ev, s) \<leftarrow> start_path R path s;
     let ev = upd_val ''size'' (size_value size') ev;
     let (ret, s) = call_long R ''listxattr'' [C_ptr path, C_ptr list', C_long size'] s;
     let ev = upd_val ''ret'' (long_value ret) ev;
     s \<leftarrow> end_event R ''POSIX'' ''listxattr'' ev s;
     Some (ret, s) }"

lemma posix_listxattr_wrapped [wrapped_rules]:
  "wrapped R ''POSIX'' ''listxattr'' ''listxattr'' [C_ptr path, C_ptr list', C_long size'] [] (\<lambda>r. r)
    (start_path R path) keep (posix_listxattr R path list' size')"
  by (rule wrappedI, rule start_rules) (auto simp: posix_listxattr_def wrapper_simps intro!: post_rules)

definition posix_llistxattr where "posix_llistxattr R path list' size' s = do {
     (ev, s) \<leftarrow> start_path R path s;
     let ev = upd_val ''size'' (size_value size') ev;
     let (ret, s) = call_long R ''llistxattr'' [C_ptr path, C_ptr list', C_long size'] s;
     let ev = upd_val ''ret'' (long_value ret) ev;
     s \<leftarrow> end_event R ''POSIX'' ''llistxattr'' ev s;
     Some (ret, s) }"

lemma posix_llistxattr_wrapped [wrapped_rules]:
  "wrapped R ''POSIX'' ''llistxattr'' ''llistxattr'' [C_ptr path, C_ptr list', C_long size'] [] (\<lambda>r. r)
    (start_path R path) keep (posix_llistxattr R path list' size')"
  by (rule wrappedI, rule start_rules) (auto simp: posix_llistxattr_def wrapper_simps intro!: post_rules)

definition posix_flistxattr where "posix_flistxattr R fd list' size' s = do {
     (ev, s) \<leftarrow> start_fd R fd s;
     let ev = upd_val ''size'' (size_value size') ev;
     let (ret, s) = call_long R ''flistxattr'' [C_int fd, C_ptr list', C_long size'] s;
     let ev = upd_val ''ret'' (long_value ret) ev;
     s \<leftarrow> end_event R ''POSIX'' ''flistxattr'' ev s;
     Some (ret, s) }"

lemma posix_flistxattr_wrapped [wrapped_rules]:
  "wrapped R ''POSIX'' ''flistxattr'' ''flistxattr'' [C_int fd, C_ptr list', C_long size'] [] (\<lambda>r. r)
    (start_fd R fd) keep (posix_flistxattr R fd list' size')"
  by (rule wrappedI, rule start_rules) (auto simp: posix_flistxattr_def wrapper_simps intro!: post_rules)

definition posix_removexattr where "posix_removexattr R path name' s = do {
     (ev, s) \<leftarrow> start_path R path s;
     let (ret, s) = call_int R ''removexattr'' [C_ptr path, C_ptr name'] s;
     s \<leftarrow> end_event R ''POSIX'' ''removexattr'' ev s;
     Some (ret, s) }"

lemma posix_removexattr_wrapped [wrapped_rules]:
  "wrapped R ''POSIX'' ''removexattr'' ''removexattr'' [C_ptr path, C_ptr name'] [] ucast
    (start_path R path) keep (posix_removexattr R path name')"
  by (rule wrappedI, rule start_rules) (auto simp: posix_removexattr_def wrapper_simps intro!: post_rules)

definition posix_lremovexattr where "posix_lremovexattr R path name' s = do {
     (ev, s) \<leftarrow> start_path R path s;
     let (ret, s) = call_int R ''lremovexattr'' [C_ptr path, C_ptr name'] s;
     s \<leftarrow> end_event R ''POSIX'' ''lremovexattr'' ev s;
     Some (ret, s) }"

lemma posix_lremovexattr_wrapped [wrapped_rules]:
  "wrapped R ''POSIX'' ''lremovexattr'' ''lremovexattr'' [C_ptr path, C_ptr name'] [] ucast
    (start_path R path) keep (posix_lremovexattr R path name')"
  by (rule wrappedI, rule start_rules) (auto simp: posix_lremovexattr_def wrapper_simps intro!: post_rules)

definition posix_fremovexattr where "posix_fremovexattr R fd name' s = do {
     (ev, s) \<leftarrow> start_fd R fd s;
     let (ret, s) = call_int R ''fremovexattr'' [C_int fd, C_ptr name'] s;
     s \<leftarrow> end_event R ''POSIX'' ''fremovexattr'' ev s;
     Some (ret, s) }"

lemma posix_fremovexattr_wrapped [wrapped_rules]:
  "wrapped R ''POSIX'' ''fremovexattr'' ''fremovexattr'' [C_int fd, C_ptr name'] [] ucast
    (start_fd R fd) keep (posix_fremovexattr R fd name')"
  by (rule wrappedI, rule start_rules) (auto simp: posix_fremovexattr_def wrapper_simps intro!: post_rules)

definition posix_aio_read where "posix_aio_read R cb s = do {
     let fd = (if cb = NULL then - 1 else aio_fildes R (tp_world s) cb);
     (ev, s) \<leftarrow> start_fd R fd s;
     let aio_nbytes' = (if cb = NULL then 0 else aio_nbytes R (tp_world s) cb);
     let ev = upd_val ''aio_nbytes'' (size_value aio_nbytes') ev;
     let aio_offset' = (if cb = NULL then 0 else aio_offset R (tp_world s) cb);
     let ev = upd_val ''aio_offset'' (long_value aio_offset') ev;
     let (ret, s) = call_int R ''aio_read'' [C_ptr cb] s;
     let ev = upd_val ''ret'' (int_value ret) ev;
     s \<leftarrow> end_event R ''POSIX'' ''aio_read'' ev s;
     Some (ret, s) }"

lemma posix_aio_read_wrapped [wrapped_rules]:
  "wrapped R ''POSIX'' ''aio_read'' ''aio_read'' [C_ptr cb] [] ucast
    (\<lambda>s. start_fd R (if cb = NULL then - 1 else aio_fildes R (tp_world s) cb) s) keep (posix_aio_read R cb)"
  by (rule wrappedI, rule start_rules) (auto simp: posix_aio_read_def wrapper_simps intro!: post_rules)

definition posix_aio_write where "posix_aio_write R cb s = do {
     let fd = (if cb = NULL then - 1 else aio_fildes R (tp_world s) cb);
     (ev, s) \<leftarrow> start_fd R fd s;
     let aio_nbytes' = (if cb = NULL then 0 else aio_nbytes R (tp_world s) cb);
     let ev = upd_val ''aio_nbytes'' (size_value aio_nbytes') ev;
     let aio_offset' = (if cb = NULL then 0 else aio_offset R (tp_world s) cb);
     let ev = upd_val ''aio_offset'' (long_value aio_offset') ev;
     let (ret, s) = call_int R ''aio_write'' [C_ptr cb] s;
     let ev = upd_val ''ret'' (int_value ret) ev;
     s \<leftarrow> end_event R ''POSIX'' ''aio_write'' ev s;
     Some (ret, s) }"

lemma posix_aio_write_wrapped [wrapped_rules]:
  "wrapped R ''POSIX'' ''aio_write'' ''aio_write'' [C_ptr cb] [] ucast
    (\<lambda>s. start_fd R (if cb = NULL then - 1 else aio_fildes R (tp_world s) cb) s) keep (posix_aio_write R cb)"
  by (rule wrappedI, rule start_rules) (auto simp: posix_aio_write_def wrapper_simps intro!: post_rules)

definition posix_aio_error where "posix_aio_error R cb s = do {
     let fd = (if cb = NULL then - 1 else aio_fildes R (tp_world s) cb);
     (ev, s) \<leftarrow> start_fd R fd s;
     let (ret, s) = call_int R ''aio_error'' [C_ptr cb] s;
     let ev = upd_val ''ret'' (int_value ret) ev;
     s \<leftarrow> end_event R ''POSIX'' ''aio_error'' ev s;
     Some (ret, s) }"

lemma posix_aio_error_wrapped [wrapped_rules]:
  "wrapped R ''POSIX'' ''aio_error'' ''aio_error'' [C_ptr cb] [] ucast
    (\<lambda>s. start_fd R (if cb = NULL then - 1 else aio_fildes R (tp_world s) cb) s) keep (posix_aio_error R cb)"
  by (rule wrappedI, rule start_rules) (auto simp: posix_aio_error_def wrapper_simps intro!: post_rules)

definition posix_aio_return where "posix_aio_return R cb s = do {
     let fd = (if cb = NULL then - 1 else aio_fildes R (tp_world s) cb);
     (ev, s) \<leftarrow> start_fd R fd s;
     let (ret, s) = call_long R ''aio_return'' [C_ptr cb] s;
     let ev = upd_val ''ret'' (long_value ret) ev;
     s \<leftarrow> end_event R ''POSIX'' ''aio_return'' ev s;
     Some (ret, s) }"

lemma posix_aio_return_wrapped [wrapped_rules]:
  "wrapped R ''POSIX'' ''aio_return'' ''aio_return'' [C_ptr cb] [] (\<lambda>r. r)
    (\<lambda>s. start_fd R (if cb = NULL then - 1 else aio_fildes R (tp_world s) cb) s) keep (posix_aio_return R cb)"
  by (rule wrappedI, rule start_rules) (auto simp: posix_aio_return_def wrapper_simps intro!: post_rules)

definition posix_aio_fsync where "posix_aio_fsync R op' cb s = do {
     let fd = (if cb = NULL then - 1 else aio_fildes R (tp_world s) cb);
     (ev, s) \<leftarrow> start_fd R fd s;
     let ev = upd_val ''op'' (int_value op') ev;
     let (ret, s) = call_int R ''aio_fsync'' [C_int op', C_ptr cb] s;
     s \<leftarrow> end_event R ''POSIX'' ''aio_fsync'' ev s;
     Some (ret, s) }"

lemma posix_aio_fsync_wrapped [wrapped_rules]:
  "wrapped R ''POSIX'' ''aio_fsync'' ''aio_fsync'' [C_int op', C_ptr cb] [] ucast
    (\<lambda>s. start_fd R (if cb = NULL then - 1 else aio_fildes R (tp_world s) cb) s) keep (posix_aio_fsync R op' cb)"
  by (rule wrappedI, rule start_rules) (auto simp: posix_aio_fsync_def wrapper_simps intro!: post_rules)

definition posix_aio_cancel where "posix_aio_cancel R fd cb s = do {
     (ev, s) \<leftarrow> start_fd R fd s;
     let (ret, s) = call_int R ''aio_cancel'' [C_int fd, C_ptr cb] s;
     s \<leftarrow> end_event R ''POSIX'' ''aio_cancel'' ev s;
     Some (ret, s) }"

lemma posix_aio_cancel_wrapped [wrapped_rules]:
  "wrapped R ''POSIX'' ''aio_cancel'' ''aio_cancel'' [C_int fd, C_ptr cb] [] ucast
    (start_fd R fd) keep (posix_aio_cancel R fd cb)"
  by (rule wrappedI, rule start_rules) (auto simp: posix_aio_cancel_def wrapper_simps intro!: post_rules)

definition posix_aio_suspend where "posix_aio_suspend R list' nent timeout s = do {
     let fd = traced_aio_fd R list' nent s;
     (ev, s) \<leftarrow> start_fd R fd s;
     let ev = upd_val ''nent'' (int_value nent) ev;
     let (ret, s) = call_int R ''aio_suspend'' [C_ptr list', C_int nent, C_ptr timeout] s;
     s \<leftarrow> end_event R ''POSIX'' ''aio_suspend'' ev s;
     Some (ret, s) }"

lemma posix_aio_suspend_wrapped [wrapped_rules]:
  "wrapped R ''POSIX'' ''aio_suspend'' ''aio_suspend'' [C_ptr list', C_int nent, C_ptr timeout] [] ucast
    (\<lambda>s. start_fd R (traced_aio_fd R list' nent s) s) keep (posix_aio_suspend R list' nent timeout)"
  by (rule wrappedI, rule start_rules) (auto simp: posix_aio_suspend_def wrapper_simps intro!: post_rules)

definition posix_lio_listio where "posix_lio_listio R mode list' nent sig s = do {
     let fd = traced_aio_fd R list' nent s;
     (ev, s) \<leftarrow> start_fd R fd s;
     let ev = upd_val ''nent'' (int_value nent) ev;
     let ev = upd_val ''mode'' (int_value mode) ev;
     let (ret, s) = call_int R ''lio_listio'' [C_int mode, C_ptr list', C_int nent, C_ptr sig] s;
     s \<leftarrow> end_event R ''POSIX'' ''lio_listio'' ev s;
     Some (ret, s) }"

lemma posix_lio_listio_wrapped [wrapped_rules]:
  "wrapped R ''POSIX'' ''lio_listio'' ''lio_listio'' [C_int mode, C_ptr list', C_int nent, C_ptr sig] [] ucast
    (\<lambda>s. start_fd R (traced_aio_fd R list' nent s) s) keep (posix_lio_listio R mode list' nent sig)"
  by (rule wrappedI, rule start_rules) (auto simp: posix_lio_listio_def wrapper_simps intro!: post_rules)

definition posix_aio_read64 where "posix_aio_read64 R cb s = do {
     let fd = (if cb = NULL then - 1 else aio_fildes R (tp_world s) cb);
     (ev, s) \<leftarrow> start_fd R fd s;
     let aio_nbytes' = (if cb = NULL then 0 else aio_nbytes R (tp_world s) cb);
     let ev = upd_val ''aio_nbytes'' (size_value aio_nbytes') ev;
     let aio_offset' = (if cb = NULL then 0 else aio_offset R (tp_world s) cb);
     let ev = upd_val ''aio_offset'' (long_value aio_offset') ev;
     let (ret, s) = call_int R ''aio_read64'' [C_ptr cb] s;
     let ev = upd_val ''ret'' (int_value ret) ev;
     s \<leftarrow> end_event R ''POSIX'' ''aio_read64'' ev s;
     Some (ret, s) }"

lemma posix_aio_read64_wrapped [wrapped_rules]:
  "wrapped R ''POSIX'' ''aio_read64'' ''aio_read64'' [C_ptr cb] [] ucast
    (\<lambda>s. start_fd R (if cb = NULL then - 1 else aio_fildes R (tp_world s) cb) s) keep (posix_aio_read64 R cb)"
  by (rule wrappedI, rule start_rules) (auto simp: posix_aio_read64_def wrapper_simps intro!: post_rules)

definition posix_aio_write64 where "posix_aio_write64 R cb s = do {
     let fd = (if cb = NULL then - 1 else aio_fildes R (tp_world s) cb);
     (ev, s) \<leftarrow> start_fd R fd s;
     let aio_nbytes' = (if cb = NULL then 0 else aio_nbytes R (tp_world s) cb);
     let ev = upd_val ''aio_nbytes'' (size_value aio_nbytes') ev;
     let aio_offset' = (if cb = NULL then 0 else aio_offset R (tp_world s) cb);
     let ev = upd_val ''aio_offset'' (long_value aio_offset') ev;
     let (ret, s) = call_int R ''aio_write64'' [C_ptr cb] s;
     let ev = upd_val ''ret'' (int_value ret) ev;
     s \<leftarrow> end_event R ''POSIX'' ''aio_write64'' ev s;
     Some (ret, s) }"

lemma posix_aio_write64_wrapped [wrapped_rules]:
  "wrapped R ''POSIX'' ''aio_write64'' ''aio_write64'' [C_ptr cb] [] ucast
    (\<lambda>s. start_fd R (if cb = NULL then - 1 else aio_fildes R (tp_world s) cb) s) keep (posix_aio_write64 R cb)"
  by (rule wrappedI, rule start_rules) (auto simp: posix_aio_write64_def wrapper_simps intro!: post_rules)

definition posix_aio_error64 where "posix_aio_error64 R cb s = do {
     let fd = (if cb = NULL then - 1 else aio_fildes R (tp_world s) cb);
     (ev, s) \<leftarrow> start_fd R fd s;
     let (ret, s) = call_int R ''aio_error64'' [C_ptr cb] s;
     let ev = upd_val ''ret'' (int_value ret) ev;
     s \<leftarrow> end_event R ''POSIX'' ''aio_error64'' ev s;
     Some (ret, s) }"

lemma posix_aio_error64_wrapped [wrapped_rules]:
  "wrapped R ''POSIX'' ''aio_error64'' ''aio_error64'' [C_ptr cb] [] ucast
    (\<lambda>s. start_fd R (if cb = NULL then - 1 else aio_fildes R (tp_world s) cb) s) keep (posix_aio_error64 R cb)"
  by (rule wrappedI, rule start_rules) (auto simp: posix_aio_error64_def wrapper_simps intro!: post_rules)

definition posix_aio_return64 where "posix_aio_return64 R cb s = do {
     let fd = (if cb = NULL then - 1 else aio_fildes R (tp_world s) cb);
     (ev, s) \<leftarrow> start_fd R fd s;
     let (ret, s) = call_long R ''aio_return64'' [C_ptr cb] s;
     let ev = upd_val ''ret'' (long_value ret) ev;
     s \<leftarrow> end_event R ''POSIX'' ''aio_return64'' ev s;
     Some (ret, s) }"

lemma posix_aio_return64_wrapped [wrapped_rules]:
  "wrapped R ''POSIX'' ''aio_return64'' ''aio_return64'' [C_ptr cb] [] (\<lambda>r. r)
    (\<lambda>s. start_fd R (if cb = NULL then - 1 else aio_fildes R (tp_world s) cb) s) keep (posix_aio_return64 R cb)"
  by (rule wrappedI, rule start_rules) (auto simp: posix_aio_return64_def wrapper_simps intro!: post_rules)

definition posix_aio_fsync64 where "posix_aio_fsync64 R op' cb s = do {
     let fd = (if cb = NULL then - 1 else aio_fildes R (tp_world s) cb);
     (ev, s) \<leftarrow> start_fd R fd s;
     let ev = upd_val ''op'' (int_value op') ev;
     let (ret, s) = call_int R ''aio_fsync64'' [C_int op', C_ptr cb] s;
     s \<leftarrow> end_event R ''POSIX'' ''aio_fsync64'' ev s;
     Some (ret, s) }"

lemma posix_aio_fsync64_wrapped [wrapped_rules]:
  "wrapped R ''POSIX'' ''aio_fsync64'' ''aio_fsync64'' [C_int op', C_ptr cb] [] ucast
    (\<lambda>s. start_fd R (if cb = NULL then - 1 else aio_fildes R (tp_world s) cb) s) keep (posix_aio_fsync64 R op' cb)"
  by (rule wrappedI, rule start_rules) (auto simp: posix_aio_fsync64_def wrapper_simps intro!: post_rules)

definition posix_aio_cancel64 where "posix_aio_cancel64 R fd cb s = do {
     (ev, s) \<leftarrow> start_fd R fd s;
     let (ret, s) = call_int R ''aio_cancel64'' [C_int fd, C_ptr cb] s;
     s \<leftarrow> end_event R ''POSIX'' ''aio_cancel64'' ev s;
     Some (ret, s) }"

lemma posix_aio_cancel64_wrapped [wrapped_rules]:
  "wrapped R ''POSIX'' ''aio_cancel64'' ''aio_cancel64'' [C_int fd, C_ptr cb] [] ucast
    (start_fd R fd) keep (posix_aio_cancel64 R fd cb)"
  by (rule wrappedI, rule start_rules) (auto simp: posix_aio_cancel64_def wrapper_simps intro!: post_rules)

definition posix_aio_suspend64 where "posix_aio_suspend64 R list' nent timeout s = do {
     let fd = traced_aio_fd R list' nent s;
     (ev, s) \<leftarrow> start_fd R fd s;
     let ev = upd_val ''nent'' (int_value nent) ev;
     let (ret, s) = call_int R ''aio_suspend64'' [C_ptr list', C_int nent, C_ptr timeout] s;
     s \<leftarrow> end_event R ''POSIX'' ''aio_suspend64'' ev s;
     Some (ret, s) }"

lemma posix_aio_suspend64_wrapped [wrapped_rules]:
  "wrapped R ''POSIX'' ''aio_suspend64'' ''aio_suspend64'' [C_ptr list', C_int nent, C_ptr timeout] [] ucast
    (\<lambda>s. start_fd R (traced_aio_fd R list' nent s) s) keep (posix_aio_suspend64 R list' nent timeout)"
  by (rule wrappedI, rule start_rules) (auto simp: posix_aio_suspend64_def wrapper_simps intro!: post_rules)

definition posix_lio_listio64 where "posix_lio_listio64 R mode list' nent sig s = do {
     let fd = traced_aio_fd R list' nent s;
     (ev, s) \<leftarrow> start_fd R fd s;
     let ev = upd_val ''nent'' (int_value nent) ev;
     let ev = upd_val ''mode'' (int_value mode) ev;
     let (ret, s) = call_int R ''lio_listio64'' [C_int mode, C_ptr list', C_int nent, C_ptr sig] s;
     s \<leftarrow> end_event R ''POSIX'' ''lio_listio64'' ev s;
     Some (ret, s) }"

lemma posix_lio_listio64_wrapped [wrapped_rules]:
  "wrapped R ''POSIX'' ''lio_listio64'' ''lio_listio64'' [C_int mode, C_ptr list', C_int nent, C_ptr sig]
    [] ucast
    (\<lambda>s. start_fd R (traced_aio_fd R list' nent s) s) keep (posix_lio_listio64 R mode list' nent sig)"
  by (rule wrappedI, rule start_rules) (auto simp: posix_lio_listio64_def wrapper_simps intro!: post_rules)

end
