(* ===== verification/Stdio_Calls.thy ===== *)
theory Stdio_Calls
  imports Intercept
begin

text \<open>
  The wrappers of \<open>core/brahma/stdio.cpp\<close>, in the order of the file. A \<open>va_list\<close> is one argument.
\<close>

definition stdio_fopen64 where "stdio_fopen64 R path mode s = do {
     (ev, s) \<leftarrow> start_stream_path R path s;
     let ev = upd_val ''mode'' (text_at R mode s) ev;
     let (ret, s) = call_long R ''fopen64'' [C_ptr path, C_ptr mode] s;
     s \<leftarrow> end_event R ''STDIO'' ''fopen64'' ev s;
     let s = (if ev_traced ev then trace_fh R ret (ev_hash ev) s else s);
     Some (ret, s) }"

lemma stdio_fopen64_wrapped [wrapped_rules]:
  "wrapped R ''STDIO'' ''fopen64'' ''fopen64'' [C_ptr path, C_ptr mode] [] (\<lambda>r. r)
    (start_stream_path R path) (track_fh R) (stdio_fopen64 R path mode)"
  by (rule wrappedI, rule start_rules) (auto simp: stdio_fopen64_def wrapper_simps intro!: post_rules)

definition stdio_fopen where "stdio_fopen R path mode s = do {
     (ev, s) \<leftarrow> start_stream_path R path s;
     let ev = upd_val ''mode'' (text_at R mode s) ev;
     let (ret, s) = call_long R ''fopen'' [C_ptr path, C_ptr mode] s;
     s \<leftarrow> end_event R ''STDIO'' ''fopen'' ev s;
     let s = (if ev_traced ev then trace_fh R ret (ev_hash ev) s else s);
     Some (ret, s) }"

lemma stdio_fopen_wrapped [wrapped_rules]:
  "wrapped R ''STDIO'' ''fopen'' ''fopen'' [C_ptr path, C_ptr mode] [] (\<lambda>r. r)
    (start_stream_path R path) (track_fh R) (stdio_fopen R path mode)"
  by (rule wrappedI, rule start_rules) (auto simp: stdio_fopen_def wrapper_simps intro!: post_rules)

definition stdio_fclose where "stdio_fclose R fp s = do {
     (ev, s) \<leftarrow> start_fh R fp s;
     let s = (if ev_traced ev then remove_trace_fh R fp s else s);
     let (ret, s) = call_int R ''fclose'' [C_ptr fp] s;
     s \<leftarrow> end_event R ''STDIO'' ''fclose'' ev s;
     Some (ret, s) }"

definition stdio_fread where "stdio_fread R ptr size' count' fp s = do {
     (ev, s) \<leftarrow> start_fh R fp s;
     let ev = upd_val ''size'' (size_value size') ev;
     let ev = upd_val ''count'' (size_value count') ev;
     let (ret, s) = call_long R ''fread'' [C_ptr ptr, C_long size', C_long count', C_ptr fp] s;
     let ev = upd_val ''ret'' (size_value ret) ev;
     s \<leftarrow> end_event R ''STDIO'' ''fread'' ev s;
     Some (ret, s) }"

lemma stdio_fread_wrapped [wrapped_rules]:
  "wrapped R ''STDIO'' ''fread'' ''fread'' [C_ptr ptr, C_long size', C_long count', C_ptr fp] [] (\<lambda>r. r)
    (start_fh R fp) keep (stdio_fread R ptr size' count' fp)"
  by (rule wrappedI, rule start_rules) (auto simp: stdio_fread_def wrapper_simps intro!: post_rules)

definition stdio_fwrite where "stdio_fwrite R ptr size' count' fp s = do {
     (ev, s) \<leftarrow> start_fh R fp s;
     let ev = upd_val ''size'' (size_value size') ev;
     let ev = upd_val ''count'' (size_value count') ev;
     let (ret, s) = call_long R ''fwrite'' [C_ptr ptr, C_long size', C_long count', C_ptr fp] s;
     let ev = upd_val ''ret'' (size_value ret) ev;
     s \<leftarrow> end_event R ''STDIO'' ''fwrite'' ev s;
     Some (ret, s) }"

lemma stdio_fwrite_wrapped [wrapped_rules]:
  "wrapped R ''STDIO'' ''fwrite'' ''fwrite'' [C_ptr ptr, C_long size', C_long count', C_ptr fp]
    [] (\<lambda>r. r)
    (start_fh R fp) keep (stdio_fwrite R ptr size' count' fp)"
  by (rule wrappedI, rule start_rules) (auto simp: stdio_fwrite_def wrapper_simps intro!: post_rules)

definition stdio_ftell where "stdio_ftell R fp s = do {
     (ev, s) \<leftarrow> start_fh R fp s;
     let (ret, s) = call_long R ''ftell'' [C_ptr fp] s;
     let ev = upd_key ''ret'' (long_value ret) ev;
     s \<leftarrow> end_event R ''STDIO'' ''ftell'' ev s;
     Some (ret, s) }"

lemma stdio_ftell_wrapped [wrapped_rules]:
  "wrapped R ''STDIO'' ''ftell'' ''ftell'' [C_ptr fp] [] (\<lambda>r. r)
    (start_fh R fp) keep (stdio_ftell R fp)"
  by (rule wrappedI, rule start_rules) (auto simp: stdio_ftell_def wrapper_simps intro!: post_rules)

definition stdio_fseek where "stdio_fseek R fp offset whence s = do {
     (ev, s) \<leftarrow> start_fh R fp s;
     let ev = upd_val ''offset'' (long_value offset) ev;
     let ev = upd_val ''whence'' (int_value whence) ev;
     let (ret, s) = call_int R ''fseek'' [C_ptr fp, C_long offset, C_int whence] s;
     let ev = upd_val ''ret'' (int_value ret) ev;
     s \<leftarrow> end_event R ''STDIO'' ''fseek'' ev s;
     Some (ret, s) }"

lemma stdio_fseek_wrapped [wrapped_rules]:
  "wrapped R ''STDIO'' ''fseek'' ''fseek'' [C_ptr fp, C_long offset, C_int whence] [] ucast
    (start_fh R fp) keep (stdio_fseek R fp offset whence)"
  by (rule wrappedI, rule start_rules) (auto simp: stdio_fseek_def wrapper_simps intro!: post_rules)

definition stdio_clearerr where "stdio_clearerr R fp s = do {
     (ev, s) \<leftarrow> start_fh R fp s;
     let (_, s) = call_void R ''clearerr'' [C_ptr fp] s;
     s \<leftarrow> end_event R ''STDIO'' ''clearerr'' ev s;
     Some ((), s) }"

lemma stdio_clearerr_wrapped [wrapped_rules]:
  "wrapped R ''STDIO'' ''clearerr'' ''clearerr'' [C_ptr fp] [] (\<lambda>r. ())
    (start_fh R fp) keep (stdio_clearerr R fp)"
  by (rule wrappedI, rule start_rules) (auto simp: stdio_clearerr_def wrapper_simps intro!: post_rules)

definition stdio_feof where "stdio_feof R fp s = do {
     (ev, s) \<leftarrow> start_fh R fp s;
     let (ret, s) = call_int R ''feof'' [C_ptr fp] s;
     s \<leftarrow> end_event R ''STDIO'' ''feof'' ev s;
     Some (ret, s) }"

lemma stdio_feof_wrapped [wrapped_rules]:
  "wrapped R ''STDIO'' ''feof'' ''feof'' [C_ptr fp] [] ucast
    (start_fh R fp) keep (stdio_feof R fp)"
  by (rule wrappedI, rule start_rules) (auto simp: stdio_feof_def wrapper_simps intro!: post_rules)

definition stdio_ferror where "stdio_ferror R fp s = do {
     (ev, s) \<leftarrow> start_fh R fp s;
     let (ret, s) = call_int R ''ferror'' [C_ptr fp] s;
     s \<leftarrow> end_event R ''STDIO'' ''ferror'' ev s;
     Some (ret, s) }"

lemma stdio_ferror_wrapped [wrapped_rules]:
  "wrapped R ''STDIO'' ''ferror'' ''ferror'' [C_ptr fp] [] ucast
    (start_fh R fp) keep (stdio_ferror R fp)"
  by (rule wrappedI, rule start_rules) (auto simp: stdio_ferror_def wrapper_simps intro!: post_rules)

definition stdio_fgetc where "stdio_fgetc R fp s = do {
     (ev, s) \<leftarrow> start_fh R fp s;
     let (ret, s) = call_int R ''fgetc'' [C_ptr fp] s;
     let ev = upd_val ''ret'' (int_value ret) ev;
     s \<leftarrow> end_event R ''STDIO'' ''fgetc'' ev s;
     Some (ret, s) }"

lemma stdio_fgetc_wrapped [wrapped_rules]:
  "wrapped R ''STDIO'' ''fgetc'' ''fgetc'' [C_ptr fp] [] ucast
    (start_fh R fp) keep (stdio_fgetc R fp)"
  by (rule wrappedI, rule start_rules) (auto simp: stdio_fgetc_def wrapper_simps intro!: post_rules)

definition stdio_fgetpos where "stdio_fgetpos R fp pos s = do {
     (ev, s) \<leftarrow> start_fh R fp s;
     let ev = upd_val ''pos'' Any_other ev;
     let (ret, s) = call_int R ''fgetpos'' [C_ptr fp, C_ptr pos] s;
     let ev = upd_val ''ret'' (int_value ret) ev;
     s \<leftarrow> end_event R ''STDIO'' ''fgetpos'' ev s;
     Some (ret, s) }"

lemma stdio_fgetpos_wrapped [wrapped_rules]:
  "wrapped R ''STDIO'' ''fgetpos'' ''fgetpos'' [C_ptr fp, C_ptr pos] [] ucast
    (start_fh R fp) keep (stdio_fgetpos R fp pos)"
  by (rule wrappedI, rule start_rules) (auto simp: stdio_fgetpos_def wrapper_simps intro!: post_rules)

definition stdio_fgets where "stdio_fgets R str num fp s = do {
     (ev, s) \<leftarrow> start_fh R fp s;
     let ev = upd_val ''num'' (int_value num) ev;
     let (ret, s) = call_long R ''fgets'' [C_ptr str, C_int num, C_ptr fp] s;
     let ev = upd_strlen R ''ret_len'' ret ev s;
     s \<leftarrow> end_event R ''STDIO'' ''fgets'' ev s;
     Some (ret, s) }"

lemma stdio_fgets_wrapped [wrapped_rules]:
  "wrapped R ''STDIO'' ''fgets'' ''fgets'' [C_ptr str, C_int num, C_ptr fp] [] (\<lambda>r. r)
    (start_fh R fp) keep (stdio_fgets R str num fp)"
  by (rule wrappedI, rule start_rules) (auto simp: stdio_fgets_def wrapper_simps intro!: post_rules)

definition stdio_flockfile where "stdio_flockfile R fp s = do {
     (ev, s) \<leftarrow> start_fh R fp s;
     let (_, s) = call_void R ''flockfile'' [C_ptr fp] s;
     s \<leftarrow> end_event R ''STDIO'' ''flockfile'' ev s;
     Some ((), s) }"

lemma stdio_flockfile_wrapped [wrapped_rules]:
  "wrapped R ''STDIO'' ''flockfile'' ''flockfile'' [C_ptr fp] [] (\<lambda>r. ())
    (start_fh R fp) keep (stdio_flockfile R fp)"
  by (rule wrappedI, rule start_rules) (auto simp: stdio_flockfile_def wrapper_simps intro!: post_rules)

definition stdio_funlockfile where "stdio_funlockfile R fp s = do {
     (ev, s) \<leftarrow> start_fh R fp s;
     let (_, s) = call_void R ''funlockfile'' [C_ptr fp] s;
     s \<leftarrow> end_event R ''STDIO'' ''funlockfile'' ev s;
     Some ((), s) }"

lemma stdio_funlockfile_wrapped [wrapped_rules]:
  "wrapped R ''STDIO'' ''funlockfile'' ''funlockfile'' [C_ptr fp] [] (\<lambda>r. ())
    (start_fh R fp) keep (stdio_funlockfile R fp)"
  by (rule wrappedI, rule start_rules) (auto simp: stdio_funlockfile_def wrapper_simps intro!: post_rules)

definition stdio_ftrylockfile where "stdio_ftrylockfile R fp s = do {
     (ev, s) \<leftarrow> start_fh R fp s;
     let (ret, s) = call_int R ''ftrylockfile'' [C_ptr fp] s;
     let ev = upd_val ''ret'' (int_value ret) ev;
     s \<leftarrow> end_event R ''STDIO'' ''ftrylockfile'' ev s;
     Some (ret, s) }"

lemma stdio_ftrylockfile_wrapped [wrapped_rules]:
  "wrapped R ''STDIO'' ''ftrylockfile'' ''ftrylockfile'' [C_ptr fp] [] ucast
    (start_fh R fp) keep (stdio_ftrylockfile R fp)"
  by (rule wrappedI, rule start_rules) (auto simp: stdio_ftrylockfile_def wrapper_simps intro!: post_rules)

definition stdio_fflush where "stdio_fflush R fp s = do {
     (ev, s) \<leftarrow> start_fh R fp s;
     let (ret, s) = call_int R ''fflush'' [C_ptr fp] s;
     let ev = upd_val ''ret'' (int_value ret) ev;
     s \<leftarrow> end_event R ''STDIO'' ''fflush'' ev s;
     Some (ret, s) }"

lemma stdio_fflush_wrapped [wrapped_rules]:
  "wrapped R ''STDIO'' ''fflush'' ''fflush'' [C_ptr fp] [] ucast
    (start_fh R fp) keep (stdio_fflush R fp)"
  by (rule wrappedI, rule start_rules) (auto simp: stdio_fflush_def wrapper_simps intro!: post_rules)

definition stdio_fputc where "stdio_fputc R chr fp s = do {
     (ev, s) \<leftarrow> start_fh R fp s;
     let (ret, s) = call_int R ''fputc'' [C_int chr, C_ptr fp] s;
     let ev = upd_val ''ret'' (int_value ret) ev;
     s \<leftarrow> end_event R ''STDIO'' ''fputc'' ev s;
     Some (ret, s) }"

lemma stdio_fputc_wrapped [wrapped_rules]:
  "wrapped R ''STDIO'' ''fputc'' ''fputc'' [C_int chr, C_ptr fp] [] ucast
    (start_fh R fp) keep (stdio_fputc R chr fp)"
  by (rule wrappedI, rule start_rules) (auto simp: stdio_fputc_def wrapper_simps intro!: post_rules)

definition stdio_fputs where "stdio_fputs R str fp s = do {
     (ev, s) \<leftarrow> start_fh R fp s;
     let ev = upd_strlen R ''str_len'' str ev s;
     let (ret, s) = call_int R ''fputs'' [C_ptr str, C_ptr fp] s;
     let ev = upd_val ''ret'' (int_value ret) ev;
     s \<leftarrow> end_event R ''STDIO'' ''fputs'' ev s;
     Some (ret, s) }"

lemma stdio_fputs_wrapped [wrapped_rules]:
  "wrapped R ''STDIO'' ''fputs'' ''fputs'' [C_ptr str, C_ptr fp] [] ucast
    (start_fh R fp) keep (stdio_fputs R str fp)"
  by (rule wrappedI, rule start_rules) (auto simp: stdio_fputs_def wrapper_simps intro!: post_rules)

definition stdio_freopen where "stdio_freopen R path mode fp s = do {
     (ev, s) \<leftarrow> start_fh R fp s;
     (ev, s) \<leftarrow> upd_hash R ''path_hash'' path ev s;
     let ev = upd_val ''mode'' (text_at R mode s) ev;
     let s = (if ev_traced ev then remove_trace_fh R fp s else s);
     let (ret, s) = call_long R ''freopen'' [C_ptr path, C_ptr mode, C_ptr fp] s;
     s \<leftarrow> end_event R ''STDIO'' ''freopen'' ev s;
     s \<leftarrow> (if ret \<noteq> NULL then trace_reopened R ret path (ev_hash ev) s else Some s);
     Some (ret, s) }"

definition stdio_fsetpos where "stdio_fsetpos R fp pos s = do {
     (ev, s) \<leftarrow> start_fh R fp s;
     let ev = upd_val ''pos'' Any_other ev;
     let (ret, s) = call_int R ''fsetpos'' [C_ptr fp, C_ptr pos] s;
     let ev = upd_val ''ret'' (int_value ret) ev;
     s \<leftarrow> end_event R ''STDIO'' ''fsetpos'' ev s;
     Some (ret, s) }"

lemma stdio_fsetpos_wrapped [wrapped_rules]:
  "wrapped R ''STDIO'' ''fsetpos'' ''fsetpos'' [C_ptr fp, C_ptr pos] [] ucast
    (start_fh R fp) keep (stdio_fsetpos R fp pos)"
  by (rule wrappedI, rule start_rules) (auto simp: stdio_fsetpos_def wrapper_simps intro!: post_rules)

definition stdio_getc where "stdio_getc R fp s = do {
     (ev, s) \<leftarrow> start_fh R fp s;
     let (ret, s) = call_int R ''getc'' [C_ptr fp] s;
     let ev = upd_val ''ret'' (int_value ret) ev;
     s \<leftarrow> end_event R ''STDIO'' ''getc'' ev s;
     Some (ret, s) }"

lemma stdio_getc_wrapped [wrapped_rules]:
  "wrapped R ''STDIO'' ''getc'' ''getc'' [C_ptr fp] [] ucast
    (start_fh R fp) keep (stdio_getc R fp)"
  by (rule wrappedI, rule start_rules) (auto simp: stdio_getc_def wrapper_simps intro!: post_rules)

definition stdio_getc_unlocked where "stdio_getc_unlocked R fp s = do {
     (ev, s) \<leftarrow> start_fh R fp s;
     let (ret, s) = call_int R ''getc_unlocked'' [C_ptr fp] s;
     let ev = upd_val ''ret'' (int_value ret) ev;
     s \<leftarrow> end_event R ''STDIO'' ''getc_unlocked'' ev s;
     Some (ret, s) }"

lemma stdio_getc_unlocked_wrapped [wrapped_rules]:
  "wrapped R ''STDIO'' ''getc_unlocked'' ''getc_unlocked'' [C_ptr fp] [] ucast
    (start_fh R fp) keep (stdio_getc_unlocked R fp)"
  by (rule wrappedI, rule start_rules) (auto simp: stdio_getc_unlocked_def wrapper_simps intro!: post_rules)

definition stdio_getw where "stdio_getw R fp s = do {
     (ev, s) \<leftarrow> start_fh R fp s;
     let (ret, s) = call_int R ''getw'' [C_ptr fp] s;
     let ev = upd_val ''ret'' (int_value ret) ev;
     s \<leftarrow> end_event R ''STDIO'' ''getw'' ev s;
     Some (ret, s) }"

lemma stdio_getw_wrapped [wrapped_rules]:
  "wrapped R ''STDIO'' ''getw'' ''getw'' [C_ptr fp] [] ucast
    (start_fh R fp) keep (stdio_getw R fp)"
  by (rule wrappedI, rule start_rules) (auto simp: stdio_getw_def wrapper_simps intro!: post_rules)

definition stdio_pclose where "stdio_pclose R fp s = do {
     (ev, s) \<leftarrow> start_fh R fp s;
     let (ret, s) = call_int R ''pclose'' [C_ptr fp] s;
     let ev = upd_val ''ret'' (int_value ret) ev;
     s \<leftarrow> end_event R ''STDIO'' ''pclose'' ev s;
     Some (ret, s) }"

lemma stdio_pclose_wrapped [wrapped_rules]:
  "wrapped R ''STDIO'' ''pclose'' ''pclose'' [C_ptr fp] [] ucast
    (start_fh R fp) keep (stdio_pclose R fp)"
  by (rule wrappedI, rule start_rules) (auto simp: stdio_pclose_def wrapper_simps intro!: post_rules)

definition stdio_putw where "stdio_putw R w' fp s = do {
     (ev, s) \<leftarrow> start_fh R fp s;
     let (ret, s) = call_int R ''putw'' [C_int w', C_ptr fp] s;
     let ev = upd_val ''ret'' (int_value ret) ev;
     s \<leftarrow> end_event R ''STDIO'' ''putw'' ev s;
     Some (ret, s) }"

lemma stdio_putw_wrapped [wrapped_rules]:
  "wrapped R ''STDIO'' ''putw'' ''putw'' [C_int w', C_ptr fp] [] ucast
    (start_fh R fp) keep (stdio_putw R w' fp)"
  by (rule wrappedI, rule start_rules) (auto simp: stdio_putw_def wrapper_simps intro!: post_rules)

definition stdio_rewind where "stdio_rewind R fp s = do {
     (ev, s) \<leftarrow> start_fh R fp s;
     let (_, s) = call_void R ''rewind'' [C_ptr fp] s;
     s \<leftarrow> end_event R ''STDIO'' ''rewind'' ev s;
     Some ((), s) }"

lemma stdio_rewind_wrapped [wrapped_rules]:
  "wrapped R ''STDIO'' ''rewind'' ''rewind'' [C_ptr fp] [] (\<lambda>r. ())
    (start_fh R fp) keep (stdio_rewind R fp)"
  by (rule wrappedI, rule start_rules) (auto simp: stdio_rewind_def wrapper_simps intro!: post_rules)

definition stdio_setvbuf where "stdio_setvbuf R fp buf mode size' s = do {
     (ev, s) \<leftarrow> start_fh R fp s;
     let ev = upd_val ''mode'' (int_value mode) ev;
     let ev = upd_val ''size'' (size_value size') ev;
     let (ret, s) = call_int R ''setvbuf'' [C_ptr fp, C_ptr buf, C_int mode, C_long size'] s;
     let ev = upd_val ''ret'' (int_value ret) ev;
     s \<leftarrow> end_event R ''STDIO'' ''setvbuf'' ev s;
     Some (ret, s) }"

lemma stdio_setvbuf_wrapped [wrapped_rules]:
  "wrapped R ''STDIO'' ''setvbuf'' ''setvbuf'' [C_ptr fp, C_ptr buf, C_int mode, C_long size'] [] ucast
    (start_fh R fp) keep (stdio_setvbuf R fp buf mode size')"
  by (rule wrappedI, rule start_rules) (auto simp: stdio_setvbuf_def wrapper_simps intro!: post_rules)

definition stdio_ungetc where "stdio_ungetc R chr fp s = do {
     (ev, s) \<leftarrow> start_fh R fp s;
     let (ret, s) = call_int R ''ungetc'' [C_int chr, C_ptr fp] s;
     let ev = upd_val ''ret'' (int_value ret) ev;
     s \<leftarrow> end_event R ''STDIO'' ''ungetc'' ev s;
     Some (ret, s) }"

lemma stdio_ungetc_wrapped [wrapped_rules]:
  "wrapped R ''STDIO'' ''ungetc'' ''ungetc'' [C_int chr, C_ptr fp] [] ucast
    (start_fh R fp) keep (stdio_ungetc R chr fp)"
  by (rule wrappedI, rule start_rules) (auto simp: stdio_ungetc_def wrapper_simps intro!: post_rules)

definition stdio_freopen64 where "stdio_freopen64 R path mode fp s = do {
     (ev, s) \<leftarrow> start_fh R fp s;
     (ev, s) \<leftarrow> upd_hash R ''path_hash'' path ev s;
     let ev = upd_val ''mode'' (text_at R mode s) ev;
     let s = (if ev_traced ev then remove_trace_fh R fp s else s);
     let (ret, s) = call_long R ''freopen64'' [C_ptr path, C_ptr mode, C_ptr fp] s;
     s \<leftarrow> end_event R ''STDIO'' ''freopen64'' ev s;
     s \<leftarrow> (if ret \<noteq> NULL then trace_reopened R ret path (ev_hash ev) s else Some s);
     Some (ret, s) }"

definition stdio_fprintf where "stdio_fprintf R stream format' args' s = do {
     (ev, s) \<leftarrow> start_fh R stream s;
     let (ret, s) = call_int R ''vfprintf'' [C_ptr stream, C_ptr format', C_ptr args'] s;
     let ev = upd_val ''ret'' (int_value ret) ev;
     s \<leftarrow> end_event R ''STDIO'' ''fprintf'' ev s;
     Some (ret, s) }"

lemma stdio_fprintf_wrapped [wrapped_rules]:
  "wrapped R ''STDIO'' ''fprintf'' ''vfprintf'' [C_ptr stream, C_ptr format', C_ptr args'] [] ucast
    (start_fh R stream) keep (stdio_fprintf R stream format' args')"
  by (rule wrappedI, rule start_rules) (auto simp: stdio_fprintf_def wrapper_simps intro!: post_rules)

definition stdio_vfprintf where "stdio_vfprintf R stream format' args' s = do {
     (ev, s) \<leftarrow> start_fh R stream s;
     let (ret, s) = call_int R ''vfprintf'' [C_ptr stream, C_ptr format', C_ptr args'] s;
     let ev = upd_val ''ret'' (int_value ret) ev;
     s \<leftarrow> end_event R ''STDIO'' ''vfprintf'' ev s;
     Some (ret, s) }"

lemma stdio_vfprintf_wrapped [wrapped_rules]:
  "wrapped R ''STDIO'' ''vfprintf'' ''vfprintf'' [C_ptr stream, C_ptr format', C_ptr args'] [] ucast
    (start_fh R stream) keep (stdio_vfprintf R stream format' args')"
  by (rule wrappedI, rule start_rules) (auto simp: stdio_vfprintf_def wrapper_simps intro!: post_rules)

definition stdio___fprintf_chk where "stdio___fprintf_chk R stream flag format' args' s = do {
     (ev, s) \<leftarrow> start_fh R stream s;
     let (ret, s) = call_int R ''__vfprintf_chk'' [C_ptr stream, C_int flag, C_ptr format', C_ptr args'] s;
     let ev = upd_val ''ret'' (int_value ret) ev;
     s \<leftarrow> end_event R ''STDIO'' ''__fprintf_chk'' ev s;
     Some (ret, s) }"

lemma stdio_fprintf_chk_wrapped [wrapped_rules]:
  "wrapped R ''STDIO'' ''__fprintf_chk'' ''__vfprintf_chk'' [C_ptr stream, C_int flag, C_ptr format',
    C_ptr args'] [] ucast
    (start_fh R stream) keep (stdio___fprintf_chk R stream flag format' args')"
  by (rule wrappedI, rule start_rules) (auto simp: stdio___fprintf_chk_def wrapper_simps intro!: post_rules)

definition stdio___vfprintf_chk where "stdio___vfprintf_chk R stream flag format' args' s = do {
     (ev, s) \<leftarrow> start_fh R stream s;
     let (ret, s) = call_int R ''__vfprintf_chk'' [C_ptr stream, C_int flag, C_ptr format', C_ptr args'] s;
     let ev = upd_val ''ret'' (int_value ret) ev;
     s \<leftarrow> end_event R ''STDIO'' ''__vfprintf_chk'' ev s;
     Some (ret, s) }"

lemma stdio_vfprintf_chk_wrapped [wrapped_rules]:
  "wrapped R ''STDIO'' ''__vfprintf_chk'' ''__vfprintf_chk'' [C_ptr stream, C_int flag, C_ptr format',
    C_ptr args'] [] ucast
    (start_fh R stream) keep (stdio___vfprintf_chk R stream flag format' args')"
  by (rule wrappedI, rule start_rules) (auto simp: stdio___vfprintf_chk_def wrapper_simps intro!: post_rules)

definition stdio_dprintf where "stdio_dprintf R fd format' args' s = do {
     (ev, s) \<leftarrow> start_stream_fd R fd s;
     let (ret, s) = call_int R ''vdprintf'' [C_int fd, C_ptr format', C_ptr args'] s;
     let ev = upd_val ''ret'' (int_value ret) ev;
     s \<leftarrow> end_event R ''STDIO'' ''dprintf'' ev s;
     Some (ret, s) }"

lemma stdio_dprintf_wrapped [wrapped_rules]:
  "wrapped R ''STDIO'' ''dprintf'' ''vdprintf'' [C_int fd, C_ptr format', C_ptr args'] [] ucast
    (start_stream_fd R fd) keep (stdio_dprintf R fd format' args')"
  by (rule wrappedI, rule start_rules) (auto simp: stdio_dprintf_def wrapper_simps intro!: post_rules)

definition stdio_vdprintf where "stdio_vdprintf R fd format' args' s = do {
     (ev, s) \<leftarrow> start_stream_fd R fd s;
     let (ret, s) = call_int R ''vdprintf'' [C_int fd, C_ptr format', C_ptr args'] s;
     let ev = upd_val ''ret'' (int_value ret) ev;
     s \<leftarrow> end_event R ''STDIO'' ''vdprintf'' ev s;
     Some (ret, s) }"

lemma stdio_vdprintf_wrapped [wrapped_rules]:
  "wrapped R ''STDIO'' ''vdprintf'' ''vdprintf'' [C_int fd, C_ptr format', C_ptr args'] [] ucast
    (start_stream_fd R fd) keep (stdio_vdprintf R fd format' args')"
  by (rule wrappedI, rule start_rules) (auto simp: stdio_vdprintf_def wrapper_simps intro!: post_rules)

definition stdio___dprintf_chk where "stdio___dprintf_chk R fd flag format' args' s = do {
     (ev, s) \<leftarrow> start_stream_fd R fd s;
     let (ret, s) = call_int R ''__vdprintf_chk'' [C_int fd, C_int flag, C_ptr format', C_ptr args'] s;
     let ev = upd_val ''ret'' (int_value ret) ev;
     s \<leftarrow> end_event R ''STDIO'' ''__dprintf_chk'' ev s;
     Some (ret, s) }"

lemma stdio_dprintf_chk_wrapped [wrapped_rules]:
  "wrapped R ''STDIO'' ''__dprintf_chk'' ''__vdprintf_chk'' [C_int fd, C_int flag, C_ptr format', C_ptr args']
    [] ucast
    (start_stream_fd R fd) keep (stdio___dprintf_chk R fd flag format' args')"
  by (rule wrappedI, rule start_rules) (auto simp: stdio___dprintf_chk_def wrapper_simps intro!: post_rules)

definition stdio___vdprintf_chk where "stdio___vdprintf_chk R fd flag format' args' s = do {
     (ev, s) \<leftarrow> start_stream_fd R fd s;
     let (ret, s) = call_int R ''__vdprintf_chk'' [C_int fd, C_int flag, C_ptr format', C_ptr args'] s;
     let ev = upd_val ''ret'' (int_value ret) ev;
     s \<leftarrow> end_event R ''STDIO'' ''__vdprintf_chk'' ev s;
     Some (ret, s) }"

lemma stdio_vdprintf_chk_wrapped [wrapped_rules]:
  "wrapped R ''STDIO'' ''__vdprintf_chk'' ''__vdprintf_chk'' [C_int fd, C_int flag, C_ptr format',
    C_ptr args'] [] ucast
    (start_stream_fd R fd) keep (stdio___vdprintf_chk R fd flag format' args')"
  by (rule wrappedI, rule start_rules) (auto simp: stdio___vdprintf_chk_def wrapper_simps intro!: post_rules)

definition stdio_fwrite_unlocked where "stdio_fwrite_unlocked R ptr size' n stream s = do {
     (ev, s) \<leftarrow> start_fh R stream s;
     let ev = upd_val ''size'' (size_value size') ev;
     let ev = upd_val ''n'' (size_value n) ev;
     let (ret, s) = call_long R ''fwrite_unlocked'' [C_ptr ptr, C_long size', C_long n, C_ptr stream] s;
     let ev = upd_val ''ret'' (size_value ret) ev;
     s \<leftarrow> end_event R ''STDIO'' ''fwrite_unlocked'' ev s;
     Some (ret, s) }"

lemma stdio_fwrite_unlocked_wrapped [wrapped_rules]:
  "wrapped R ''STDIO'' ''fwrite_unlocked'' ''fwrite_unlocked'' [C_ptr ptr, C_long size', C_long n,
    C_ptr stream] [] (\<lambda>r. r)
    (start_fh R stream) keep (stdio_fwrite_unlocked R ptr size' n stream)"
  by (rule wrappedI, rule start_rules) (auto simp: stdio_fwrite_unlocked_def wrapper_simps intro!: post_rules)

definition stdio_fread_unlocked where "stdio_fread_unlocked R ptr size' n stream s = do {
     (ev, s) \<leftarrow> start_fh R stream s;
     let ev = upd_val ''size'' (size_value size') ev;
     let ev = upd_val ''n'' (size_value n) ev;
     let (ret, s) = call_long R ''fread_unlocked'' [C_ptr ptr, C_long size', C_long n, C_ptr stream] s;
     let ev = upd_val ''ret'' (size_value ret) ev;
     s \<leftarrow> end_event R ''STDIO'' ''fread_unlocked'' ev s;
     Some (ret, s) }"

lemma stdio_fread_unlocked_wrapped [wrapped_rules]:
  "wrapped R ''STDIO'' ''fread_unlocked'' ''fread_unlocked'' [C_ptr ptr, C_long size', C_long n, C_ptr stream]
    [] (\<lambda>r. r)
    (start_fh R stream) keep (stdio_fread_unlocked R ptr size' n stream)"
  by (rule wrappedI, rule start_rules) (auto simp: stdio_fread_unlocked_def wrapper_simps intro!: post_rules)

definition stdio_fputs_unlocked where "stdio_fputs_unlocked R str stream s = do {
     (ev, s) \<leftarrow> start_fh R stream s;
     let ev = upd_strlen R ''str_len'' str ev s;
     let (ret, s) = call_int R ''fputs_unlocked'' [C_ptr str, C_ptr stream] s;
     let ev = upd_val ''ret'' (int_value ret) ev;
     s \<leftarrow> end_event R ''STDIO'' ''fputs_unlocked'' ev s;
     Some (ret, s) }"

lemma stdio_fputs_unlocked_wrapped [wrapped_rules]:
  "wrapped R ''STDIO'' ''fputs_unlocked'' ''fputs_unlocked'' [C_ptr str, C_ptr stream] [] ucast
    (start_fh R stream) keep (stdio_fputs_unlocked R str stream)"
  by (rule wrappedI, rule start_rules) (auto simp: stdio_fputs_unlocked_def wrapper_simps intro!: post_rules)

definition stdio_fgets_unlocked where "stdio_fgets_unlocked R str n stream s = do {
     (ev, s) \<leftarrow> start_fh R stream s;
     let ev = upd_val ''n'' (int_value n) ev;
     let (ret, s) = call_long R ''fgets_unlocked'' [C_ptr str, C_int n, C_ptr stream] s;
     let ev = upd_strlen R ''ret_len'' ret ev s;
     s \<leftarrow> end_event R ''STDIO'' ''fgets_unlocked'' ev s;
     Some (ret, s) }"

lemma stdio_fgets_unlocked_wrapped [wrapped_rules]:
  "wrapped R ''STDIO'' ''fgets_unlocked'' ''fgets_unlocked'' [C_ptr str, C_int n, C_ptr stream]
    [] (\<lambda>r. r)
    (start_fh R stream) keep (stdio_fgets_unlocked R str n stream)"
  by (rule wrappedI, rule start_rules) (auto simp: stdio_fgets_unlocked_def wrapper_simps intro!: post_rules)

definition stdio_fputc_unlocked where "stdio_fputc_unlocked R chr stream s = do {
     (ev, s) \<leftarrow> start_fh R stream s;
     let (ret, s) = call_int R ''fputc_unlocked'' [C_int chr, C_ptr stream] s;
     let ev = upd_val ''ret'' (int_value ret) ev;
     s \<leftarrow> end_event R ''STDIO'' ''fputc_unlocked'' ev s;
     Some (ret, s) }"

lemma stdio_fputc_unlocked_wrapped [wrapped_rules]:
  "wrapped R ''STDIO'' ''fputc_unlocked'' ''fputc_unlocked'' [C_int chr, C_ptr stream] [] ucast
    (start_fh R stream) keep (stdio_fputc_unlocked R chr stream)"
  by (rule wrappedI, rule start_rules) (auto simp: stdio_fputc_unlocked_def wrapper_simps intro!: post_rules)

definition stdio_fgetc_unlocked where "stdio_fgetc_unlocked R stream s = do {
     (ev, s) \<leftarrow> start_fh R stream s;
     let (ret, s) = call_int R ''fgetc_unlocked'' [C_ptr stream] s;
     let ev = upd_val ''ret'' (int_value ret) ev;
     s \<leftarrow> end_event R ''STDIO'' ''fgetc_unlocked'' ev s;
     Some (ret, s) }"

lemma stdio_fgetc_unlocked_wrapped [wrapped_rules]:
  "wrapped R ''STDIO'' ''fgetc_unlocked'' ''fgetc_unlocked'' [C_ptr stream] [] ucast
    (start_fh R stream) keep (stdio_fgetc_unlocked R stream)"
  by (rule wrappedI, rule start_rules) (auto simp: stdio_fgetc_unlocked_def wrapper_simps intro!: post_rules)

definition stdio_fscanf where "stdio_fscanf R stream format' args' s = do {
     (ev, s) \<leftarrow> start_fh R stream s;
     let (ret, s) = call_int R ''vfscanf'' [C_ptr stream, C_ptr format', C_ptr args'] s;
     let ev = upd_val ''ret'' (int_value ret) ev;
     s \<leftarrow> end_event R ''STDIO'' ''fscanf'' ev s;
     Some (ret, s) }"

lemma stdio_fscanf_wrapped [wrapped_rules]:
  "wrapped R ''STDIO'' ''fscanf'' ''vfscanf'' [C_ptr stream, C_ptr format', C_ptr args'] [] ucast
    (start_fh R stream) keep (stdio_fscanf R stream format' args')"
  by (rule wrappedI, rule start_rules) (auto simp: stdio_fscanf_def wrapper_simps intro!: post_rules)

definition stdio_vfscanf where "stdio_vfscanf R stream format' args' s = do {
     (ev, s) \<leftarrow> start_fh R stream s;
     let (ret, s) = call_int R ''vfscanf'' [C_ptr stream, C_ptr format', C_ptr args'] s;
     let ev = upd_val ''ret'' (int_value ret) ev;
     s \<leftarrow> end_event R ''STDIO'' ''vfscanf'' ev s;
     Some (ret, s) }"

lemma stdio_vfscanf_wrapped [wrapped_rules]:
  "wrapped R ''STDIO'' ''vfscanf'' ''vfscanf'' [C_ptr stream, C_ptr format', C_ptr args'] [] ucast
    (start_fh R stream) keep (stdio_vfscanf R stream format' args')"
  by (rule wrappedI, rule start_rules) (auto simp: stdio_vfscanf_def wrapper_simps intro!: post_rules)

definition stdio___isoc99_fscanf where "stdio___isoc99_fscanf R stream format' args' s = do {
     (ev, s) \<leftarrow> start_fh R stream s;
     let (ret, s) = call_int R ''__isoc99_vfscanf'' [C_ptr stream, C_ptr format', C_ptr args'] s;
     let ev = upd_val ''ret'' (int_value ret) ev;
     s \<leftarrow> end_event R ''STDIO'' ''__isoc99_fscanf'' ev s;
     Some (ret, s) }"

lemma stdio_isoc99_fscanf_wrapped [wrapped_rules]:
  "wrapped R ''STDIO'' ''__isoc99_fscanf'' ''__isoc99_vfscanf'' [C_ptr stream, C_ptr format', C_ptr args']
    [] ucast
    (start_fh R stream) keep (stdio___isoc99_fscanf R stream format' args')"
  by (rule wrappedI, rule start_rules) (auto simp: stdio___isoc99_fscanf_def wrapper_simps intro!: post_rules)

definition stdio___isoc99_vfscanf where "stdio___isoc99_vfscanf R stream format' args' s = do {
     (ev, s) \<leftarrow> start_fh R stream s;
     let (ret, s) = call_int R ''__isoc99_vfscanf'' [C_ptr stream, C_ptr format', C_ptr args'] s;
     let ev = upd_val ''ret'' (int_value ret) ev;
     s \<leftarrow> end_event R ''STDIO'' ''__isoc99_vfscanf'' ev s;
     Some (ret, s) }"

lemma stdio_isoc99_vfscanf_wrapped [wrapped_rules]:
  "wrapped R ''STDIO'' ''__isoc99_vfscanf'' ''__isoc99_vfscanf'' [C_ptr stream, C_ptr format', C_ptr args']
    [] ucast
    (start_fh R stream) keep (stdio___isoc99_vfscanf R stream format' args')"
  by (rule wrappedI, rule start_rules) (auto simp: stdio___isoc99_vfscanf_def wrapper_simps intro!: post_rules)

definition stdio___isoc23_fscanf where "stdio___isoc23_fscanf R stream format' args' s = do {
     (ev, s) \<leftarrow> start_fh R stream s;
     let (ret, s) = call_int R ''__isoc23_vfscanf'' [C_ptr stream, C_ptr format', C_ptr args'] s;
     let ev = upd_val ''ret'' (int_value ret) ev;
     s \<leftarrow> end_event R ''STDIO'' ''__isoc23_fscanf'' ev s;
     Some (ret, s) }"

lemma stdio_isoc23_fscanf_wrapped [wrapped_rules]:
  "wrapped R ''STDIO'' ''__isoc23_fscanf'' ''__isoc23_vfscanf'' [C_ptr stream, C_ptr format', C_ptr args']
    [] ucast
    (start_fh R stream) keep (stdio___isoc23_fscanf R stream format' args')"
  by (rule wrappedI, rule start_rules) (auto simp: stdio___isoc23_fscanf_def wrapper_simps intro!: post_rules)

definition stdio___isoc23_vfscanf where "stdio___isoc23_vfscanf R stream format' args' s = do {
     (ev, s) \<leftarrow> start_fh R stream s;
     let (ret, s) = call_int R ''__isoc23_vfscanf'' [C_ptr stream, C_ptr format', C_ptr args'] s;
     let ev = upd_val ''ret'' (int_value ret) ev;
     s \<leftarrow> end_event R ''STDIO'' ''__isoc23_vfscanf'' ev s;
     Some (ret, s) }"

lemma stdio_isoc23_vfscanf_wrapped [wrapped_rules]:
  "wrapped R ''STDIO'' ''__isoc23_vfscanf'' ''__isoc23_vfscanf'' [C_ptr stream, C_ptr format', C_ptr args']
    [] ucast
    (start_fh R stream) keep (stdio___isoc23_vfscanf R stream format' args')"
  by (rule wrappedI, rule start_rules) (auto simp: stdio___isoc23_vfscanf_def wrapper_simps intro!: post_rules)

definition stdio_puts where "stdio_puts R str s = do {
     (ev, s) \<leftarrow> start_fh R (c_stdout R) s;
     let ev = upd_strlen R ''s_len'' str ev s;
     let (ret, s) = call_int R ''puts'' [C_ptr str] s;
     let ev = upd_val ''ret'' (int_value ret) ev;
     s \<leftarrow> end_event R ''STDIO'' ''puts'' ev s;
     Some (ret, s) }"

lemma stdio_puts_wrapped [wrapped_rules]:
  "wrapped R ''STDIO'' ''puts'' ''puts'' [C_ptr str] [] ucast
    (start_fh R (c_stdout R)) keep (stdio_puts R str)"
  by (rule wrappedI, rule start_rules) (auto simp: stdio_puts_def wrapper_simps intro!: post_rules)

definition stdio_putchar where "stdio_putchar R chr s = do {
     (ev, s) \<leftarrow> start_fh R (c_stdout R) s;
     let (ret, s) = call_int R ''putchar'' [C_int chr] s;
     let ev = upd_val ''ret'' (int_value ret) ev;
     s \<leftarrow> end_event R ''STDIO'' ''putchar'' ev s;
     Some (ret, s) }"

lemma stdio_putchar_wrapped [wrapped_rules]:
  "wrapped R ''STDIO'' ''putchar'' ''putchar'' [C_int chr] [] ucast
    (start_fh R (c_stdout R)) keep (stdio_putchar R chr)"
  by (rule wrappedI, rule start_rules) (auto simp: stdio_putchar_def wrapper_simps intro!: post_rules)

definition stdio_putc where "stdio_putc R chr stream s = do {
     (ev, s) \<leftarrow> start_fh R stream s;
     let (ret, s) = call_int R ''putc'' [C_int chr, C_ptr stream] s;
     let ev = upd_val ''ret'' (int_value ret) ev;
     s \<leftarrow> end_event R ''STDIO'' ''putc'' ev s;
     Some (ret, s) }"

lemma stdio_putc_wrapped [wrapped_rules]:
  "wrapped R ''STDIO'' ''putc'' ''putc'' [C_int chr, C_ptr stream] [] ucast
    (start_fh R stream) keep (stdio_putc R chr stream)"
  by (rule wrappedI, rule start_rules) (auto simp: stdio_putc_def wrapper_simps intro!: post_rules)

definition stdio_putc_unlocked where "stdio_putc_unlocked R chr stream s = do {
     (ev, s) \<leftarrow> start_fh R stream s;
     let (ret, s) = call_int R ''putc_unlocked'' [C_int chr, C_ptr stream] s;
     let ev = upd_val ''ret'' (int_value ret) ev;
     s \<leftarrow> end_event R ''STDIO'' ''putc_unlocked'' ev s;
     Some (ret, s) }"

lemma stdio_putc_unlocked_wrapped [wrapped_rules]:
  "wrapped R ''STDIO'' ''putc_unlocked'' ''putc_unlocked'' [C_int chr, C_ptr stream] [] ucast
    (start_fh R stream) keep (stdio_putc_unlocked R chr stream)"
  by (rule wrappedI, rule start_rules) (auto simp: stdio_putc_unlocked_def wrapper_simps intro!: post_rules)

definition stdio_getchar where "stdio_getchar R s = do {
     (ev, s) \<leftarrow> start_fh R (c_stdin R) s;
     let (ret, s) = call_int R ''getchar'' [] s;
     let ev = upd_val ''ret'' (int_value ret) ev;
     s \<leftarrow> end_event R ''STDIO'' ''getchar'' ev s;
     Some (ret, s) }"

lemma stdio_getchar_wrapped [wrapped_rules]:
  "wrapped R ''STDIO'' ''getchar'' ''getchar'' [] [] ucast
    (start_fh R (c_stdin R)) keep (stdio_getchar R)"
  by (rule wrappedI, rule start_rules) (auto simp: stdio_getchar_def wrapper_simps intro!: post_rules)

definition stdio_getchar_unlocked where "stdio_getchar_unlocked R s = do {
     (ev, s) \<leftarrow> start_fh R (c_stdin R) s;
     let (ret, s) = call_int R ''getchar_unlocked'' [] s;
     let ev = upd_val ''ret'' (int_value ret) ev;
     s \<leftarrow> end_event R ''STDIO'' ''getchar_unlocked'' ev s;
     Some (ret, s) }"

lemma stdio_getchar_unlocked_wrapped [wrapped_rules]:
  "wrapped R ''STDIO'' ''getchar_unlocked'' ''getchar_unlocked'' [] [] ucast
    (start_fh R (c_stdin R)) keep (stdio_getchar_unlocked R)"
  by (rule wrappedI, rule start_rules) (auto simp: stdio_getchar_unlocked_def wrapper_simps intro!: post_rules)

definition stdio_perror where "stdio_perror R str s = do {
     (ev, s) \<leftarrow> start_fh R (c_stderr R) s;
     let (_, s) = call_void R ''perror'' [C_ptr str] s;
     s \<leftarrow> end_event R ''STDIO'' ''perror'' ev s;
     Some ((), s) }"

lemma stdio_perror_wrapped [wrapped_rules]:
  "wrapped R ''STDIO'' ''perror'' ''perror'' [C_ptr str] [] (\<lambda>r. ())
    (start_fh R (c_stderr R)) keep (stdio_perror R str)"
  by (rule wrappedI, rule start_rules) (auto simp: stdio_perror_def wrapper_simps intro!: post_rules)

definition stdio_setbuf where "stdio_setbuf R stream buf s = do {
     (ev, s) \<leftarrow> start_fh R stream s;
     let (_, s) = call_void R ''setbuf'' [C_ptr stream, C_ptr buf] s;
     s \<leftarrow> end_event R ''STDIO'' ''setbuf'' ev s;
     Some ((), s) }"

lemma stdio_setbuf_wrapped [wrapped_rules]:
  "wrapped R ''STDIO'' ''setbuf'' ''setbuf'' [C_ptr stream, C_ptr buf] [] (\<lambda>r. ())
    (start_fh R stream) keep (stdio_setbuf R stream buf)"
  by (rule wrappedI, rule start_rules) (auto simp: stdio_setbuf_def wrapper_simps intro!: post_rules)

definition stdio_setbuffer where "stdio_setbuffer R stream buf size' s = do {
     (ev, s) \<leftarrow> start_fh R stream s;
     let ev = upd_val ''size'' (size_value size') ev;
     let (_, s) = call_void R ''setbuffer'' [C_ptr stream, C_ptr buf, C_long size'] s;
     s \<leftarrow> end_event R ''STDIO'' ''setbuffer'' ev s;
     Some ((), s) }"

lemma stdio_setbuffer_wrapped [wrapped_rules]:
  "wrapped R ''STDIO'' ''setbuffer'' ''setbuffer'' [C_ptr stream, C_ptr buf, C_long size'] [] (\<lambda>r. ())
    (start_fh R stream) keep (stdio_setbuffer R stream buf size')"
  by (rule wrappedI, rule start_rules) (auto simp: stdio_setbuffer_def wrapper_simps intro!: post_rules)

definition stdio_setlinebuf where "stdio_setlinebuf R stream s = do {
     (ev, s) \<leftarrow> start_fh R stream s;
     let (_, s) = call_void R ''setlinebuf'' [C_ptr stream] s;
     s \<leftarrow> end_event R ''STDIO'' ''setlinebuf'' ev s;
     Some ((), s) }"

lemma stdio_setlinebuf_wrapped [wrapped_rules]:
  "wrapped R ''STDIO'' ''setlinebuf'' ''setlinebuf'' [C_ptr stream] [] (\<lambda>r. ())
    (start_fh R stream) keep (stdio_setlinebuf R stream)"
  by (rule wrappedI, rule start_rules) (auto simp: stdio_setlinebuf_def wrapper_simps intro!: post_rules)

definition stdio_getline where "stdio_getline R lineptr n stream s = do {
     (ev, s) \<leftarrow> start_fh R stream s;
     let (ret, s) = call_long R ''getline'' [C_ptr lineptr, C_ptr n, C_ptr stream] s;
     let ev = upd_val ''ret'' (long_value ret) ev;
     s \<leftarrow> end_event R ''STDIO'' ''getline'' ev s;
     Some (ret, s) }"

lemma stdio_getline_wrapped [wrapped_rules]:
  "wrapped R ''STDIO'' ''getline'' ''getline'' [C_ptr lineptr, C_ptr n, C_ptr stream] [] (\<lambda>r. r)
    (start_fh R stream) keep (stdio_getline R lineptr n stream)"
  by (rule wrappedI, rule start_rules) (auto simp: stdio_getline_def wrapper_simps intro!: post_rules)

definition stdio_getdelim where "stdio_getdelim R lineptr n delim stream s = do {
     (ev, s) \<leftarrow> start_fh R stream s;
     let ev = upd_val ''delim'' (int_value delim) ev;
     let (ret, s) = call_long R ''getdelim'' [C_ptr lineptr, C_ptr n, C_int delim, C_ptr stream] s;
     let ev = upd_val ''ret'' (long_value ret) ev;
     s \<leftarrow> end_event R ''STDIO'' ''getdelim'' ev s;
     Some (ret, s) }"

lemma stdio_getdelim_wrapped [wrapped_rules]:
  "wrapped R ''STDIO'' ''getdelim'' ''getdelim'' [C_ptr lineptr, C_ptr n, C_int delim, C_ptr stream]
    [] (\<lambda>r. r)
    (start_fh R stream) keep (stdio_getdelim R lineptr n delim stream)"
  by (rule wrappedI, rule start_rules) (auto simp: stdio_getdelim_def wrapper_simps intro!: post_rules)

definition stdio_fmemopen where "stdio_fmemopen R buf size' mode s = do {
     (ev, s) \<leftarrow> start_always R s;
     let ev = upd_val ''size'' (size_value size') ev;
     let (ret, s) = call_long R ''fmemopen'' [C_ptr buf, C_long size', C_ptr mode] s;
     s \<leftarrow> end_event R ''STDIO'' ''fmemopen'' ev s;
     Some (ret, s) }"

lemma stdio_fmemopen_wrapped [wrapped_rules]:
  "wrapped R ''STDIO'' ''fmemopen'' ''fmemopen'' [C_ptr buf, C_long size', C_ptr mode] [] (\<lambda>r. r)
    (start_always R) keep (stdio_fmemopen R buf size' mode)"
  by (rule wrappedI, rule start_rules) (auto simp: stdio_fmemopen_def wrapper_simps intro!: post_rules)

definition stdio_open_memstream where "stdio_open_memstream R ptr sizeloc s = do {
     (ev, s) \<leftarrow> start_always R s;
     let (ret, s) = call_long R ''open_memstream'' [C_ptr ptr, C_ptr sizeloc] s;
     s \<leftarrow> end_event R ''STDIO'' ''open_memstream'' ev s;
     Some (ret, s) }"

lemma stdio_open_memstream_wrapped [wrapped_rules]:
  "wrapped R ''STDIO'' ''open_memstream'' ''open_memstream'' [C_ptr ptr, C_ptr sizeloc] [] (\<lambda>r. r)
    (start_always R) keep (stdio_open_memstream R ptr sizeloc)"
  by (rule wrappedI, rule start_rules) (auto simp: stdio_open_memstream_def wrapper_simps intro!: post_rules)

definition stdio_popen where "stdio_popen R command type' s = do {
     (ev, s) \<leftarrow> start_stream_path R command s;
     let ev = upd_val ''type'' (text_at R type' s) ev;
     let (ret, s) = call_long R ''popen'' [C_ptr command, C_ptr type'] s;
     s \<leftarrow> end_event R ''STDIO'' ''popen'' ev s;
     let s = (if ev_traced ev then trace_fh R ret (ev_hash ev) s else s);
     Some (ret, s) }"

lemma stdio_popen_wrapped [wrapped_rules]:
  "wrapped R ''STDIO'' ''popen'' ''popen'' [C_ptr command, C_ptr type'] [] (\<lambda>r. r)
    (start_stream_path R command) (track_fh R) (stdio_popen R command type')"
  by (rule wrappedI, rule start_rules) (auto simp: stdio_popen_def wrapper_simps intro!: post_rules)

definition stdio_tmpnam where "stdio_tmpnam R str s = do {
     (ev, s) \<leftarrow> start_always R s;
     let (ret, s) = call_long R ''tmpnam'' [C_ptr str] s;
     s \<leftarrow> end_event R ''STDIO'' ''tmpnam'' ev s;
     Some (ret, s) }"

lemma stdio_tmpnam_wrapped [wrapped_rules]:
  "wrapped R ''STDIO'' ''tmpnam'' ''tmpnam'' [C_ptr str] [] (\<lambda>r. r)
    (start_always R) keep (stdio_tmpnam R str)"
  by (rule wrappedI, rule start_rules) (auto simp: stdio_tmpnam_def wrapper_simps intro!: post_rules)

definition stdio_fileno where "stdio_fileno R stream s = do {
     (ev, s) \<leftarrow> start_fh R stream s;
     let (ret, s) = call_int R ''fileno'' [C_ptr stream] s;
     let ev = upd_val ''ret'' (int_value ret) ev;
     s \<leftarrow> end_event R ''STDIO'' ''fileno'' ev s;
     Some (ret, s) }"

lemma stdio_fileno_wrapped [wrapped_rules]:
  "wrapped R ''STDIO'' ''fileno'' ''fileno'' [C_ptr stream] [] ucast
    (start_fh R stream) keep (stdio_fileno R stream)"
  by (rule wrappedI, rule start_rules) (auto simp: stdio_fileno_def wrapper_simps intro!: post_rules)

definition stdio_fdopen where "stdio_fdopen R fd mode s = do {
     (ev, s) \<leftarrow> start_stream_fd R fd s;
     let ev = upd_val ''fd'' (int_value fd) ev;
     let ev = upd_val ''mode'' (text_at R mode s) ev;
     let (ret, s) = call_long R ''fdopen'' [C_int fd, C_ptr mode] s;
     s \<leftarrow> end_event R ''STDIO'' ''fdopen'' ev s;
     let s = (if ev_traced ev \<and> ret \<noteq> NULL then trace_fh R ret (ev_hash ev) s else s);
     Some (ret, s) }"

definition stdio_tmpfile where "stdio_tmpfile R s = do {
     (ev, s) \<leftarrow> start_always R s;
     let (ret, s) = call_long R ''tmpfile'' [] s;
     s \<leftarrow> end_event R ''STDIO'' ''tmpfile'' ev s;
     Some (ret, s) }"

lemma stdio_tmpfile_wrapped [wrapped_rules]:
  "wrapped R ''STDIO'' ''tmpfile'' ''tmpfile'' [] [] (\<lambda>r. r)
    (start_always R) keep (stdio_tmpfile R)"
  by (rule wrappedI, rule start_rules) (auto simp: stdio_tmpfile_def wrapper_simps intro!: post_rules)

definition stdio_tmpfile64 where "stdio_tmpfile64 R s = do {
     (ev, s) \<leftarrow> start_always R s;
     let (ret, s) = call_long R ''tmpfile64'' [] s;
     s \<leftarrow> end_event R ''STDIO'' ''tmpfile64'' ev s;
     Some (ret, s) }"

lemma stdio_tmpfile64_wrapped [wrapped_rules]:
  "wrapped R ''STDIO'' ''tmpfile64'' ''tmpfile64'' [] [] (\<lambda>r. r)
    (start_always R) keep (stdio_tmpfile64 R)"
  by (rule wrappedI, rule start_rules) (auto simp: stdio_tmpfile64_def wrapper_simps intro!: post_rules)

definition stdio_fseeko where "stdio_fseeko R stream offset whence s = do {
     (ev, s) \<leftarrow> start_fh R stream s;
     let ev = upd_val ''offset'' (long_value offset) ev;
     let ev = upd_val ''whence'' (int_value whence) ev;
     let (ret, s) = call_int R ''fseeko'' [C_ptr stream, C_long offset, C_int whence] s;
     let ev = upd_val ''ret'' (int_value ret) ev;
     s \<leftarrow> end_event R ''STDIO'' ''fseeko'' ev s;
     Some (ret, s) }"

lemma stdio_fseeko_wrapped [wrapped_rules]:
  "wrapped R ''STDIO'' ''fseeko'' ''fseeko'' [C_ptr stream, C_long offset, C_int whence] [] ucast
    (start_fh R stream) keep (stdio_fseeko R stream offset whence)"
  by (rule wrappedI, rule start_rules) (auto simp: stdio_fseeko_def wrapper_simps intro!: post_rules)

definition stdio_fseeko64 where "stdio_fseeko64 R stream offset whence s = do {
     (ev, s) \<leftarrow> start_fh R stream s;
     let ev = upd_val ''offset'' (long_value offset) ev;
     let ev = upd_val ''whence'' (int_value whence) ev;
     let (ret, s) = call_int R ''fseeko64'' [C_ptr stream, C_long offset, C_int whence] s;
     let ev = upd_val ''ret'' (int_value ret) ev;
     s \<leftarrow> end_event R ''STDIO'' ''fseeko64'' ev s;
     Some (ret, s) }"

lemma stdio_fseeko64_wrapped [wrapped_rules]:
  "wrapped R ''STDIO'' ''fseeko64'' ''fseeko64'' [C_ptr stream, C_long offset, C_int whence] [] ucast
    (start_fh R stream) keep (stdio_fseeko64 R stream offset whence)"
  by (rule wrappedI, rule start_rules) (auto simp: stdio_fseeko64_def wrapper_simps intro!: post_rules)

definition stdio_ftello where "stdio_ftello R stream s = do {
     (ev, s) \<leftarrow> start_fh R stream s;
     let (ret, s) = call_long R ''ftello'' [C_ptr stream] s;
     let ev = upd_val ''ret'' (long_value ret) ev;
     s \<leftarrow> end_event R ''STDIO'' ''ftello'' ev s;
     Some (ret, s) }"

lemma stdio_ftello_wrapped [wrapped_rules]:
  "wrapped R ''STDIO'' ''ftello'' ''ftello'' [C_ptr stream] [] (\<lambda>r. r)
    (start_fh R stream) keep (stdio_ftello R stream)"
  by (rule wrappedI, rule start_rules) (auto simp: stdio_ftello_def wrapper_simps intro!: post_rules)

definition stdio_ftello64 where "stdio_ftello64 R stream s = do {
     (ev, s) \<leftarrow> start_fh R stream s;
     let (ret, s) = call_long R ''ftello64'' [C_ptr stream] s;
     let ev = upd_val ''ret'' (long_value ret) ev;
     s \<leftarrow> end_event R ''STDIO'' ''ftello64'' ev s;
     Some (ret, s) }"

lemma stdio_ftello64_wrapped [wrapped_rules]:
  "wrapped R ''STDIO'' ''ftello64'' ''ftello64'' [C_ptr stream] [] (\<lambda>r. r)
    (start_fh R stream) keep (stdio_ftello64 R stream)"
  by (rule wrappedI, rule start_rules) (auto simp: stdio_ftello64_def wrapper_simps intro!: post_rules)

definition stdio_fgetpos64 where "stdio_fgetpos64 R stream pos s = do {
     (ev, s) \<leftarrow> start_fh R stream s;
     let (ret, s) = call_int R ''fgetpos64'' [C_ptr stream, C_ptr pos] s;
     let ev = upd_val ''ret'' (int_value ret) ev;
     s \<leftarrow> end_event R ''STDIO'' ''fgetpos64'' ev s;
     Some (ret, s) }"

lemma stdio_fgetpos64_wrapped [wrapped_rules]:
  "wrapped R ''STDIO'' ''fgetpos64'' ''fgetpos64'' [C_ptr stream, C_ptr pos] [] ucast
    (start_fh R stream) keep (stdio_fgetpos64 R stream pos)"
  by (rule wrappedI, rule start_rules) (auto simp: stdio_fgetpos64_def wrapper_simps intro!: post_rules)

definition stdio_fsetpos64 where "stdio_fsetpos64 R stream pos s = do {
     (ev, s) \<leftarrow> start_fh R stream s;
     let (ret, s) = call_int R ''fsetpos64'' [C_ptr stream, C_ptr pos] s;
     let ev = upd_val ''ret'' (int_value ret) ev;
     s \<leftarrow> end_event R ''STDIO'' ''fsetpos64'' ev s;
     Some (ret, s) }"

lemma stdio_fsetpos64_wrapped [wrapped_rules]:
  "wrapped R ''STDIO'' ''fsetpos64'' ''fsetpos64'' [C_ptr stream, C_ptr pos] [] ucast
    (start_fh R stream) keep (stdio_fsetpos64 R stream pos)"
  by (rule wrappedI, rule start_rules) (auto simp: stdio_fsetpos64_def wrapper_simps intro!: post_rules)

definition stdio___fread_chk where "stdio___fread_chk R ptr ptrlen size' count' fp s = do {
     (ev, s) \<leftarrow> start_fh R fp s;
     let ev = upd_val ''size'' (size_value size') ev;
     let ev = upd_val ''count'' (size_value count') ev;
     let (ret, s) = call_long R ''__fread_chk'' [C_ptr ptr, C_long ptrlen, C_long size', C_long count',
       C_ptr fp] s;
     let ev = upd_val ''ret'' (size_value ret) ev;
     s \<leftarrow> end_event R ''STDIO'' ''__fread_chk'' ev s;
     Some (ret, s) }"

lemma stdio_fread_chk_wrapped [wrapped_rules]:
  "wrapped R ''STDIO'' ''__fread_chk'' ''__fread_chk'' [C_ptr ptr, C_long ptrlen, C_long size', C_long count',
    C_ptr fp] [] (\<lambda>r. r)
    (start_fh R fp) keep (stdio___fread_chk R ptr ptrlen size' count' fp)"
  by (rule wrappedI, rule start_rules) (auto simp: stdio___fread_chk_def wrapper_simps intro!: post_rules)

definition stdio___fread_unlocked_chk where "stdio___fread_unlocked_chk R ptr ptrlen size' count' fp s = do {
     (ev, s) \<leftarrow> start_fh R fp s;
     let ev = upd_val ''size'' (size_value size') ev;
     let ev = upd_val ''count'' (size_value count') ev;
     let (ret, s) = call_long R ''__fread_unlocked_chk'' [C_ptr ptr, C_long ptrlen, C_long size',
       C_long count', C_ptr fp] s;
     let ev = upd_val ''ret'' (size_value ret) ev;
     s \<leftarrow> end_event R ''STDIO'' ''__fread_unlocked_chk'' ev s;
     Some (ret, s) }"

lemma stdio_fread_unlocked_chk_wrapped [wrapped_rules]:
  "wrapped R ''STDIO'' ''__fread_unlocked_chk'' ''__fread_unlocked_chk'' [C_ptr ptr, C_long ptrlen,
    C_long size', C_long count', C_ptr fp] [] (\<lambda>r. r)
    (start_fh R fp) keep (stdio___fread_unlocked_chk R ptr ptrlen size' count' fp)"
  by (rule wrappedI, rule start_rules)
    (auto simp: stdio___fread_unlocked_chk_def wrapper_simps intro!: post_rules)

definition stdio___fgets_chk where "stdio___fgets_chk R str buflen num fp s = do {
     (ev, s) \<leftarrow> start_fh R fp s;
     let ev = upd_val ''num'' (int_value num) ev;
     let (ret, s) = call_long R ''__fgets_chk'' [C_ptr str, C_long buflen, C_int num, C_ptr fp] s;
     s \<leftarrow> end_event R ''STDIO'' ''__fgets_chk'' ev s;
     Some (ret, s) }"

lemma stdio_fgets_chk_wrapped [wrapped_rules]:
  "wrapped R ''STDIO'' ''__fgets_chk'' ''__fgets_chk'' [C_ptr str, C_long buflen, C_int num, C_ptr fp]
    [] (\<lambda>r. r)
    (start_fh R fp) keep (stdio___fgets_chk R str buflen num fp)"
  by (rule wrappedI, rule start_rules) (auto simp: stdio___fgets_chk_def wrapper_simps intro!: post_rules)

definition stdio___fgets_unlocked_chk where "stdio___fgets_unlocked_chk R str buflen num fp s = do {
     (ev, s) \<leftarrow> start_fh R fp s;
     let ev = upd_val ''num'' (int_value num) ev;
     let (ret, s) = call_long R ''__fgets_unlocked_chk'' [C_ptr str, C_long buflen, C_int num, C_ptr fp] s;
     s \<leftarrow> end_event R ''STDIO'' ''__fgets_unlocked_chk'' ev s;
     Some (ret, s) }"

lemma stdio_fgets_unlocked_chk_wrapped [wrapped_rules]:
  "wrapped R ''STDIO'' ''__fgets_unlocked_chk'' ''__fgets_unlocked_chk'' [C_ptr str, C_long buflen, C_int num,
    C_ptr fp] [] (\<lambda>r. r)
    (start_fh R fp) keep (stdio___fgets_unlocked_chk R str buflen num fp)"
  by (rule wrappedI, rule start_rules)
    (auto simp: stdio___fgets_unlocked_chk_def wrapper_simps intro!: post_rules)

definition fcloseall_traced where "fcloseall_traced R s = do {
     (ev, s) \<leftarrow> start_always R s;
     let (ret, s) = call_int R ''fcloseall'' [] s;
     let ev = upd_val ''ret'' (int_value ret) ev;
     s \<leftarrow> end_event R ''STDIO'' ''fcloseall'' ev s;
     Some (ret, s) }"

definition stdio_fcloseall where "stdio_fcloseall R s =
     (if tp_tracked_fh s = [] then Some (call_int R ''fcloseall'' [] s) else fcloseall_traced R s)"

definition stdio_fopencookie where "stdio_fopencookie R cookie mode funcs s = do {
     (ev, s) \<leftarrow> start_always R s;
     let ev = upd_val ''mode'' (text_at R mode s) ev;
     let (ret, s) = call_long R ''fopencookie'' [C_ptr cookie, C_ptr mode, C_ptr funcs] s;
     s \<leftarrow> end_event R ''STDIO'' ''fopencookie'' ev s;
     Some (ret, s) }"

lemma stdio_fopencookie_wrapped [wrapped_rules]:
  "wrapped R ''STDIO'' ''fopencookie'' ''fopencookie'' [C_ptr cookie, C_ptr mode, C_ptr funcs]
    [] (\<lambda>r. r)
    (start_always R) keep (stdio_fopencookie R cookie mode funcs)"
  by (rule wrappedI, rule start_rules) (auto simp: stdio_fopencookie_def wrapper_simps intro!: post_rules)

definition stdio_open_wmemstream where "stdio_open_wmemstream R ptr sizeloc s = do {
     (ev, s) \<leftarrow> start_always R s;
     let (ret, s) = call_long R ''open_wmemstream'' [C_ptr ptr, C_ptr sizeloc] s;
     s \<leftarrow> end_event R ''STDIO'' ''open_wmemstream'' ev s;
     Some (ret, s) }"

lemma stdio_open_wmemstream_wrapped [wrapped_rules]:
  "wrapped R ''STDIO'' ''open_wmemstream'' ''open_wmemstream'' [C_ptr ptr, C_ptr sizeloc] [] (\<lambda>r. r)
    (start_always R) keep (stdio_open_wmemstream R ptr sizeloc)"
  by (rule wrappedI, rule start_rules) (auto simp: stdio_open_wmemstream_def wrapper_simps intro!: post_rules)

definition stdio_fflush_unlocked where "stdio_fflush_unlocked R stream s = do {
     (ev, s) \<leftarrow> start_fh R stream s;
     let (ret, s) = call_int R ''fflush_unlocked'' [C_ptr stream] s;
     let ev = upd_val ''ret'' (int_value ret) ev;
     s \<leftarrow> end_event R ''STDIO'' ''fflush_unlocked'' ev s;
     Some (ret, s) }"

lemma stdio_fflush_unlocked_wrapped [wrapped_rules]:
  "wrapped R ''STDIO'' ''fflush_unlocked'' ''fflush_unlocked'' [C_ptr stream] [] ucast
    (start_fh R stream) keep (stdio_fflush_unlocked R stream)"
  by (rule wrappedI, rule start_rules) (auto simp: stdio_fflush_unlocked_def wrapper_simps intro!: post_rules)

definition stdio_feof_unlocked where "stdio_feof_unlocked R stream s = do {
     (ev, s) \<leftarrow> start_fh R stream s;
     let (ret, s) = call_int R ''feof_unlocked'' [C_ptr stream] s;
     s \<leftarrow> end_event R ''STDIO'' ''feof_unlocked'' ev s;
     Some (ret, s) }"

lemma stdio_feof_unlocked_wrapped [wrapped_rules]:
  "wrapped R ''STDIO'' ''feof_unlocked'' ''feof_unlocked'' [C_ptr stream] [] ucast
    (start_fh R stream) keep (stdio_feof_unlocked R stream)"
  by (rule wrappedI, rule start_rules) (auto simp: stdio_feof_unlocked_def wrapper_simps intro!: post_rules)

definition stdio_ferror_unlocked where "stdio_ferror_unlocked R stream s = do {
     (ev, s) \<leftarrow> start_fh R stream s;
     let (ret, s) = call_int R ''ferror_unlocked'' [C_ptr stream] s;
     s \<leftarrow> end_event R ''STDIO'' ''ferror_unlocked'' ev s;
     Some (ret, s) }"

lemma stdio_ferror_unlocked_wrapped [wrapped_rules]:
  "wrapped R ''STDIO'' ''ferror_unlocked'' ''ferror_unlocked'' [C_ptr stream] [] ucast
    (start_fh R stream) keep (stdio_ferror_unlocked R stream)"
  by (rule wrappedI, rule start_rules) (auto simp: stdio_ferror_unlocked_def wrapper_simps intro!: post_rules)

definition stdio_fileno_unlocked where "stdio_fileno_unlocked R stream s = do {
     (ev, s) \<leftarrow> start_fh R stream s;
     let (ret, s) = call_int R ''fileno_unlocked'' [C_ptr stream] s;
     let ev = upd_val ''ret'' (int_value ret) ev;
     s \<leftarrow> end_event R ''STDIO'' ''fileno_unlocked'' ev s;
     Some (ret, s) }"

lemma stdio_fileno_unlocked_wrapped [wrapped_rules]:
  "wrapped R ''STDIO'' ''fileno_unlocked'' ''fileno_unlocked'' [C_ptr stream] [] ucast
    (start_fh R stream) keep (stdio_fileno_unlocked R stream)"
  by (rule wrappedI, rule start_rules) (auto simp: stdio_fileno_unlocked_def wrapper_simps intro!: post_rules)

definition stdio_clearerr_unlocked where "stdio_clearerr_unlocked R stream s = do {
     (ev, s) \<leftarrow> start_fh R stream s;
     let (_, s) = call_void R ''clearerr_unlocked'' [C_ptr stream] s;
     s \<leftarrow> end_event R ''STDIO'' ''clearerr_unlocked'' ev s;
     Some ((), s) }"

lemma stdio_clearerr_unlocked_wrapped [wrapped_rules]:
  "wrapped R ''STDIO'' ''clearerr_unlocked'' ''clearerr_unlocked'' [C_ptr stream] [] (\<lambda>r. ())
    (start_fh R stream) keep (stdio_clearerr_unlocked R stream)"
  by (rule wrappedI, rule start_rules) (auto simp: stdio_clearerr_unlocked_def wrapper_simps intro!: post_rules)

definition stdio__IO_getc where "stdio__IO_getc R stream s = do {
     (ev, s) \<leftarrow> start_fh R stream s;
     let (ret, s) = call_int R ''_IO_getc'' [C_ptr stream] s;
     let ev = upd_val ''ret'' (int_value ret) ev;
     s \<leftarrow> end_event R ''STDIO'' ''_IO_getc'' ev s;
     Some (ret, s) }"

lemma stdio_IO_getc_wrapped [wrapped_rules]:
  "wrapped R ''STDIO'' ''_IO_getc'' ''_IO_getc'' [C_ptr stream] [] ucast
    (start_fh R stream) keep (stdio__IO_getc R stream)"
  by (rule wrappedI, rule start_rules) (auto simp: stdio__IO_getc_def wrapper_simps intro!: post_rules)

definition stdio__IO_putc where "stdio__IO_putc R chr stream s = do {
     (ev, s) \<leftarrow> start_fh R stream s;
     let (ret, s) = call_int R ''_IO_putc'' [C_int chr, C_ptr stream] s;
     let ev = upd_val ''ret'' (int_value ret) ev;
     s \<leftarrow> end_event R ''STDIO'' ''_IO_putc'' ev s;
     Some (ret, s) }"

lemma stdio_IO_putc_wrapped [wrapped_rules]:
  "wrapped R ''STDIO'' ''_IO_putc'' ''_IO_putc'' [C_int chr, C_ptr stream] [] ucast
    (start_fh R stream) keep (stdio__IO_putc R chr stream)"
  by (rule wrappedI, rule start_rules) (auto simp: stdio__IO_putc_def wrapper_simps intro!: post_rules)

definition stdio_fgetwc where "stdio_fgetwc R stream s = do {
     (ev, s) \<leftarrow> start_fh R stream s;
     let (ret, s) = call_int R ''fgetwc'' [C_ptr stream] s;
     let ev = upd_val ''ret'' (unsigned_value ret) ev;
     s \<leftarrow> end_event R ''STDIO'' ''fgetwc'' ev s;
     Some (ret, s) }"

lemma stdio_fgetwc_wrapped [wrapped_rules]:
  "wrapped R ''STDIO'' ''fgetwc'' ''fgetwc'' [C_ptr stream] [] ucast
    (start_fh R stream) keep (stdio_fgetwc R stream)"
  by (rule wrappedI, rule start_rules) (auto simp: stdio_fgetwc_def wrapper_simps intro!: post_rules)

definition stdio_getwc where "stdio_getwc R stream s = do {
     (ev, s) \<leftarrow> start_fh R stream s;
     let (ret, s) = call_int R ''getwc'' [C_ptr stream] s;
     let ev = upd_val ''ret'' (unsigned_value ret) ev;
     s \<leftarrow> end_event R ''STDIO'' ''getwc'' ev s;
     Some (ret, s) }"

lemma stdio_getwc_wrapped [wrapped_rules]:
  "wrapped R ''STDIO'' ''getwc'' ''getwc'' [C_ptr stream] [] ucast
    (start_fh R stream) keep (stdio_getwc R stream)"
  by (rule wrappedI, rule start_rules) (auto simp: stdio_getwc_def wrapper_simps intro!: post_rules)

definition stdio_fputwc where "stdio_fputwc R wc stream s = do {
     (ev, s) \<leftarrow> start_fh R stream s;
     let (ret, s) = call_int R ''fputwc'' [C_int wc, C_ptr stream] s;
     let ev = upd_val ''ret'' (unsigned_value ret) ev;
     s \<leftarrow> end_event R ''STDIO'' ''fputwc'' ev s;
     Some (ret, s) }"

lemma stdio_fputwc_wrapped [wrapped_rules]:
  "wrapped R ''STDIO'' ''fputwc'' ''fputwc'' [C_int wc, C_ptr stream] [] ucast
    (start_fh R stream) keep (stdio_fputwc R wc stream)"
  by (rule wrappedI, rule start_rules) (auto simp: stdio_fputwc_def wrapper_simps intro!: post_rules)

definition stdio_putwc where "stdio_putwc R wc stream s = do {
     (ev, s) \<leftarrow> start_fh R stream s;
     let (ret, s) = call_int R ''putwc'' [C_int wc, C_ptr stream] s;
     let ev = upd_val ''ret'' (unsigned_value ret) ev;
     s \<leftarrow> end_event R ''STDIO'' ''putwc'' ev s;
     Some (ret, s) }"

lemma stdio_putwc_wrapped [wrapped_rules]:
  "wrapped R ''STDIO'' ''putwc'' ''putwc'' [C_int wc, C_ptr stream] [] ucast
    (start_fh R stream) keep (stdio_putwc R wc stream)"
  by (rule wrappedI, rule start_rules) (auto simp: stdio_putwc_def wrapper_simps intro!: post_rules)

definition stdio_ungetwc where "stdio_ungetwc R wc stream s = do {
     (ev, s) \<leftarrow> start_fh R stream s;
     let (ret, s) = call_int R ''ungetwc'' [C_int wc, C_ptr stream] s;
     let ev = upd_val ''ret'' (unsigned_value ret) ev;
     s \<leftarrow> end_event R ''STDIO'' ''ungetwc'' ev s;
     Some (ret, s) }"

lemma stdio_ungetwc_wrapped [wrapped_rules]:
  "wrapped R ''STDIO'' ''ungetwc'' ''ungetwc'' [C_int wc, C_ptr stream] [] ucast
    (start_fh R stream) keep (stdio_ungetwc R wc stream)"
  by (rule wrappedI, rule start_rules) (auto simp: stdio_ungetwc_def wrapper_simps intro!: post_rules)

definition stdio_fgetws where "stdio_fgetws R ws n stream s = do {
     (ev, s) \<leftarrow> start_fh R stream s;
     let ev = upd_val ''n'' (int_value n) ev;
     let (ret, s) = call_long R ''fgetws'' [C_ptr ws, C_int n, C_ptr stream] s;
     let ev = upd_wcslen R ''ret_len'' ret ev s;
     s \<leftarrow> end_event R ''STDIO'' ''fgetws'' ev s;
     Some (ret, s) }"

lemma stdio_fgetws_wrapped [wrapped_rules]:
  "wrapped R ''STDIO'' ''fgetws'' ''fgetws'' [C_ptr ws, C_int n, C_ptr stream] [] (\<lambda>r. r)
    (start_fh R stream) keep (stdio_fgetws R ws n stream)"
  by (rule wrappedI, rule start_rules) (auto simp: stdio_fgetws_def wrapper_simps intro!: post_rules)

definition stdio_fputws where "stdio_fputws R ws stream s = do {
     (ev, s) \<leftarrow> start_fh R stream s;
     let (ret, s) = call_int R ''fputws'' [C_ptr ws, C_ptr stream] s;
     let ev = upd_val ''ret'' (int_value ret) ev;
     s \<leftarrow> end_event R ''STDIO'' ''fputws'' ev s;
     Some (ret, s) }"

lemma stdio_fputws_wrapped [wrapped_rules]:
  "wrapped R ''STDIO'' ''fputws'' ''fputws'' [C_ptr ws, C_ptr stream] [] ucast
    (start_fh R stream) keep (stdio_fputws R ws stream)"
  by (rule wrappedI, rule start_rules) (auto simp: stdio_fputws_def wrapper_simps intro!: post_rules)

definition stdio_fwprintf where "stdio_fwprintf R stream format' args' s = do {
     (ev, s) \<leftarrow> start_fh R stream s;
     let (ret, s) = call_int R ''vfwprintf'' [C_ptr stream, C_ptr format', C_ptr args'] s;
     let ev = upd_val ''ret'' (int_value ret) ev;
     s \<leftarrow> end_event R ''STDIO'' ''fwprintf'' ev s;
     Some (ret, s) }"

lemma stdio_fwprintf_wrapped [wrapped_rules]:
  "wrapped R ''STDIO'' ''fwprintf'' ''vfwprintf'' [C_ptr stream, C_ptr format', C_ptr args'] [] ucast
    (start_fh R stream) keep (stdio_fwprintf R stream format' args')"
  by (rule wrappedI, rule start_rules) (auto simp: stdio_fwprintf_def wrapper_simps intro!: post_rules)

definition stdio_vfwprintf where "stdio_vfwprintf R stream format' args' s = do {
     (ev, s) \<leftarrow> start_fh R stream s;
     let (ret, s) = call_int R ''vfwprintf'' [C_ptr stream, C_ptr format', C_ptr args'] s;
     let ev = upd_val ''ret'' (int_value ret) ev;
     s \<leftarrow> end_event R ''STDIO'' ''vfwprintf'' ev s;
     Some (ret, s) }"

lemma stdio_vfwprintf_wrapped [wrapped_rules]:
  "wrapped R ''STDIO'' ''vfwprintf'' ''vfwprintf'' [C_ptr stream, C_ptr format', C_ptr args'] [] ucast
    (start_fh R stream) keep (stdio_vfwprintf R stream format' args')"
  by (rule wrappedI, rule start_rules) (auto simp: stdio_vfwprintf_def wrapper_simps intro!: post_rules)

definition stdio___fwprintf_chk where "stdio___fwprintf_chk R stream flag format' args' s = do {
     (ev, s) \<leftarrow> start_fh R stream s;
     let (ret, s) = call_int R ''__vfwprintf_chk'' [C_ptr stream, C_int flag, C_ptr format', C_ptr args'] s;
     let ev = upd_val ''ret'' (int_value ret) ev;
     s \<leftarrow> end_event R ''STDIO'' ''__fwprintf_chk'' ev s;
     Some (ret, s) }"

lemma stdio_fwprintf_chk_wrapped [wrapped_rules]:
  "wrapped R ''STDIO'' ''__fwprintf_chk'' ''__vfwprintf_chk'' [C_ptr stream, C_int flag, C_ptr format',
    C_ptr args'] [] ucast
    (start_fh R stream) keep (stdio___fwprintf_chk R stream flag format' args')"
  by (rule wrappedI, rule start_rules) (auto simp: stdio___fwprintf_chk_def wrapper_simps intro!: post_rules)

definition stdio___vfwprintf_chk where "stdio___vfwprintf_chk R stream flag format' args' s = do {
     (ev, s) \<leftarrow> start_fh R stream s;
     let (ret, s) = call_int R ''__vfwprintf_chk'' [C_ptr stream, C_int flag, C_ptr format', C_ptr args'] s;
     let ev = upd_val ''ret'' (int_value ret) ev;
     s \<leftarrow> end_event R ''STDIO'' ''__vfwprintf_chk'' ev s;
     Some (ret, s) }"

lemma stdio_vfwprintf_chk_wrapped [wrapped_rules]:
  "wrapped R ''STDIO'' ''__vfwprintf_chk'' ''__vfwprintf_chk'' [C_ptr stream, C_int flag, C_ptr format',
    C_ptr args'] [] ucast
    (start_fh R stream) keep (stdio___vfwprintf_chk R stream flag format' args')"
  by (rule wrappedI, rule start_rules) (auto simp: stdio___vfwprintf_chk_def wrapper_simps intro!: post_rules)

definition stdio_fwscanf where "stdio_fwscanf R stream format' args' s = do {
     (ev, s) \<leftarrow> start_fh R stream s;
     let (ret, s) = call_int R ''vfwscanf'' [C_ptr stream, C_ptr format', C_ptr args'] s;
     let ev = upd_val ''ret'' (int_value ret) ev;
     s \<leftarrow> end_event R ''STDIO'' ''fwscanf'' ev s;
     Some (ret, s) }"

lemma stdio_fwscanf_wrapped [wrapped_rules]:
  "wrapped R ''STDIO'' ''fwscanf'' ''vfwscanf'' [C_ptr stream, C_ptr format', C_ptr args'] [] ucast
    (start_fh R stream) keep (stdio_fwscanf R stream format' args')"
  by (rule wrappedI, rule start_rules) (auto simp: stdio_fwscanf_def wrapper_simps intro!: post_rules)

definition stdio_vfwscanf where "stdio_vfwscanf R stream format' args' s = do {
     (ev, s) \<leftarrow> start_fh R stream s;
     let (ret, s) = call_int R ''vfwscanf'' [C_ptr stream, C_ptr format', C_ptr args'] s;
     let ev = upd_val ''ret'' (int_value ret) ev;
     s \<leftarrow> end_event R ''STDIO'' ''vfwscanf'' ev s;
     Some (ret, s) }"

lemma stdio_vfwscanf_wrapped [wrapped_rules]:
  "wrapped R ''STDIO'' ''vfwscanf'' ''vfwscanf'' [C_ptr stream, C_ptr format', C_ptr args'] [] ucast
    (start_fh R stream) keep (stdio_vfwscanf R stream format' args')"
  by (rule wrappedI, rule start_rules) (auto simp: stdio_vfwscanf_def wrapper_simps intro!: post_rules)

definition stdio___isoc99_fwscanf where "stdio___isoc99_fwscanf R stream format' args' s = do {
     (ev, s) \<leftarrow> start_fh R stream s;
     let (ret, s) = call_int R ''__isoc99_vfwscanf'' [C_ptr stream, C_ptr format', C_ptr args'] s;
     let ev = upd_val ''ret'' (int_value ret) ev;
     s \<leftarrow> end_event R ''STDIO'' ''__isoc99_fwscanf'' ev s;
     Some (ret, s) }"

lemma stdio_isoc99_fwscanf_wrapped [wrapped_rules]:
  "wrapped R ''STDIO'' ''__isoc99_fwscanf'' ''__isoc99_vfwscanf'' [C_ptr stream, C_ptr format', C_ptr args']
    [] ucast
    (start_fh R stream) keep (stdio___isoc99_fwscanf R stream format' args')"
  by (rule wrappedI, rule start_rules) (auto simp: stdio___isoc99_fwscanf_def wrapper_simps intro!: post_rules)

definition stdio___isoc99_vfwscanf where "stdio___isoc99_vfwscanf R stream format' args' s = do {
     (ev, s) \<leftarrow> start_fh R stream s;
     let (ret, s) = call_int R ''__isoc99_vfwscanf'' [C_ptr stream, C_ptr format', C_ptr args'] s;
     let ev = upd_val ''ret'' (int_value ret) ev;
     s \<leftarrow> end_event R ''STDIO'' ''__isoc99_vfwscanf'' ev s;
     Some (ret, s) }"

lemma stdio_isoc99_vfwscanf_wrapped [wrapped_rules]:
  "wrapped R ''STDIO'' ''__isoc99_vfwscanf'' ''__isoc99_vfwscanf'' [C_ptr stream, C_ptr format', C_ptr args']
    [] ucast
    (start_fh R stream) keep (stdio___isoc99_vfwscanf R stream format' args')"
  by (rule wrappedI, rule start_rules) (auto simp: stdio___isoc99_vfwscanf_def wrapper_simps intro!: post_rules)

definition stdio___isoc23_fwscanf where "stdio___isoc23_fwscanf R stream format' args' s = do {
     (ev, s) \<leftarrow> start_fh R stream s;
     let (ret, s) = call_int R ''__isoc23_vfwscanf'' [C_ptr stream, C_ptr format', C_ptr args'] s;
     let ev = upd_val ''ret'' (int_value ret) ev;
     s \<leftarrow> end_event R ''STDIO'' ''__isoc23_fwscanf'' ev s;
     Some (ret, s) }"

lemma stdio_isoc23_fwscanf_wrapped [wrapped_rules]:
  "wrapped R ''STDIO'' ''__isoc23_fwscanf'' ''__isoc23_vfwscanf'' [C_ptr stream, C_ptr format', C_ptr args']
    [] ucast
    (start_fh R stream) keep (stdio___isoc23_fwscanf R stream format' args')"
  by (rule wrappedI, rule start_rules) (auto simp: stdio___isoc23_fwscanf_def wrapper_simps intro!: post_rules)

definition stdio___isoc23_vfwscanf where "stdio___isoc23_vfwscanf R stream format' args' s = do {
     (ev, s) \<leftarrow> start_fh R stream s;
     let (ret, s) = call_int R ''__isoc23_vfwscanf'' [C_ptr stream, C_ptr format', C_ptr args'] s;
     let ev = upd_val ''ret'' (int_value ret) ev;
     s \<leftarrow> end_event R ''STDIO'' ''__isoc23_vfwscanf'' ev s;
     Some (ret, s) }"

lemma stdio_isoc23_vfwscanf_wrapped [wrapped_rules]:
  "wrapped R ''STDIO'' ''__isoc23_vfwscanf'' ''__isoc23_vfwscanf'' [C_ptr stream, C_ptr format', C_ptr args']
    [] ucast
    (start_fh R stream) keep (stdio___isoc23_vfwscanf R stream format' args')"
  by (rule wrappedI, rule start_rules) (auto simp: stdio___isoc23_vfwscanf_def wrapper_simps intro!: post_rules)

end
