(* ===== verification/Special_Calls.thy ===== *)
theory Special_Calls
  imports Posix_More Stdio_Calls
begin

text \<open>
  The wrappers that do more than pass a call on: those that find out in two ways whether a call is
  traced, those that change the tables of traced descriptors and streams before or after the call,
  and the \<open>exec\<close> family, which flushes the trace first.
\<close>

section \<open>Wrappers of the usual shape\<close>

lemma untraced_text_key [simp]: "untraced c \<Longrightarrow> upd_text_key key v c = Some c"
  by (simp add: untraced_def upd_text_key_def)

lemma text_key_fits [simp]: "names_fit R \<Longrightarrow> p \<noteq> NULL \<Longrightarrow> upd_text_key key (text_at R p s) c = Some (upd_key key (text_at R p s) c)"
  using names_fit_null [of R p "tp_world s"] by (auto simp: upd_text_key_def text_at_def unhashable_def)

lemma readlinkat_wrapped:
  "fd \<noteq> AT_FDCWD \<Longrightarrow>
     wrapped R ''POSIX'' ''readlinkat'' ''readlinkat'' [C_int fd, C_ptr path, C_ptr buf, C_long bufsize] [path] (\<lambda>r. r)
       (start_fd R fd) keep (posix_readlinkat R fd path buf bufsize)"
  "wrapped R ''POSIX'' ''readlinkat'' ''readlinkat'' [C_int AT_FDCWD, C_ptr path, C_ptr buf, C_long bufsize] [] (\<lambda>r. r)
     (start_path R path) keep (posix_readlinkat R AT_FDCWD path buf bufsize)"
  by (rule wrappedI, rule start_rules; auto simp: posix_readlinkat_def wrapper_simps intro!: post_rules)+

lemma fstatat_wrapped:
  "dirfd \<noteq> AT_FDCWD \<Longrightarrow>
     wrapped R ''POSIX'' ''fstatat'' ''fstatat'' [C_int dirfd, C_ptr path, C_ptr buf, C_int flags] [path] ucast
       (start_fd R dirfd) keep (posix_fstatat R dirfd path buf flags)"
  "wrapped R ''POSIX'' ''fstatat'' ''fstatat'' [C_int AT_FDCWD, C_ptr path, C_ptr buf, C_int flags] [] ucast
     (start_path R path) keep (posix_fstatat R AT_FDCWD path buf flags)"
  "dirfd \<noteq> AT_FDCWD \<Longrightarrow>
     wrapped R ''POSIX'' ''fstatat64'' ''fstatat64'' [C_int dirfd, C_ptr path, C_ptr buf, C_int flags] [path] ucast
       (start_fd R dirfd) keep (posix_fstatat64 R dirfd path buf flags)"
  "wrapped R ''POSIX'' ''fstatat64'' ''fstatat64'' [C_int AT_FDCWD, C_ptr path, C_ptr buf, C_int flags] [] ucast
     (start_path R path) keep (posix_fstatat64 R AT_FDCWD path buf flags)"
  by (rule wrappedI, rule start_rules; auto simp: posix_fstatat_def posix_fstatat64_def wrapper_simps intro!: post_rules)+

lemma opendir_wrapped [wrapped_rules]:
  "wrapped R ''POSIX'' ''opendir'' ''opendir'' [C_ptr name'] [] (\<lambda>r. r) (start_path R name')
     (\<lambda>h r s. if r \<noteq> NULL then set_trace (dir_fd R r s) h s else s) (posix_opendir R name')"
  by (rule wrappedI, rule start_rules) (auto simp: posix_opendir_def wrapper_simps intro!: post_rules)

definition track_dup :: "u32 \<Rightarrow> string option \<Rightarrow> u32 \<Rightarrow> 'w traced_process \<Rightarrow> 'w traced_process" where
  "track_dup cmd h r s = (if cmd \<in> {F_DUPFD, F_DUPFD_CLOEXEC} then set_trace r h s else s)"

lemma fcntl_wrapped [wrapped_rules]:
  "wrapped R ''POSIX'' ''fcntl'' ''fcntl'' (fcntl_args fd cmd arg) [] ucast (start_fd R fd) (track_dup cmd)
     (posix_fcntl R fd cmd arg)"
  "wrapped R ''POSIX'' ''fcntl64'' ''fcntl64'' [C_int fd, C_int cmd, C_ptr arg] [] ucast (start_fd R fd) (track_dup cmd)
     (posix_fcntl64 R fd cmd arg)"
  by (rule wrappedI, rule start_rules;
      auto simp: posix_fcntl_def posix_fcntl64_def wrapper_simps track_dup_def intro!: post_rules)+

lemma mremap_wrapped [wrapped_rules]:
  "wrapped R ''POSIX'' ''mremap'' ''mremap''
     (if flags AND MREMAP_FIXED \<noteq> 0
      then [C_ptr old_addr, C_long old_size, C_long new_size, C_int flags, C_ptr new_addr]
      else [C_ptr old_addr, C_long old_size, C_long new_size, C_int flags]) [] (\<lambda>r. r)
     (start_always R) keep (posix_mremap R old_addr old_size new_size flags new_addr)"
  by (rule wrappedI, rule start_rules) (auto simp: posix_mremap_def wrapper_simps intro!: post_rules)

lemma fdopen_wrapped [wrapped_rules]:
  "wrapped R ''STDIO'' ''fdopen'' ''fdopen'' [C_int fd, C_ptr mode] [] (\<lambda>r. r) (start_stream_fd R fd)
     (\<lambda>h r s. if r \<noteq> NULL then trace_fh R r h s else s) (stdio_fdopen R fd mode)"
  by (rule wrappedI, rule start_rules) (auto simp: stdio_fdopen_def wrapper_simps intro!: post_rules)

section \<open>Other wrappers pass the call on as well\<close>

text \<open>What the program sees of a call, whatever the tracer does around it.\<close>

definition forwards ::
  "'w libc \<Rightarrow> string \<Rightarrow> c_arg list \<Rightarrow> u64 list \<Rightarrow> (u64 \<Rightarrow> 'r) \<Rightarrow> ('w traced_process \<Rightarrow> ('r \<times> 'w traced_process) option) \<Rightarrow> bool" where
  "forwards R f args names conv w \<longleftrightarrow> (\<forall>s. names_fit R \<and> NULL \<notin> set names \<and> lg_manager (tp_logger s) \<longrightarrow>
     (\<exists>s'. w s = Some (conv (fst (libc_call R f args (tp_world s))), s') \<and>
       tp_world s' = snd (libc_call R f args (tp_world s))))"

lemma forwardsI:
  assumes "\<And>s :: 'w traced_process. names_fit R \<Longrightarrow> NULL \<notin> set names \<Longrightarrow> lg_manager (tp_logger s) \<Longrightarrow>
    post (w s) (\<lambda>(r, s'). r = conv (fst (libc_call R f args (tp_world s))) \<and>
      tp_world s' = snd (libc_call R f args (tp_world s)))"
  shows "forwards R f args names conv w"
  unfolding forwards_def
proof (intro allI impI)
  fix s :: "'w traced_process" assume "names_fit R \<and> NULL \<notin> set names \<and> lg_manager (tp_logger s)"
  then show "\<exists>s'. w s = Some (conv (fst (libc_call R f args (tp_world s))), s') \<and>
      tp_world s' = snd (libc_call R f args (tp_world s))"
    using assms [of s] by (cases "w s") auto
qed

named_theorems any_rules

lemma start_any [any_rules]:
  "(\<And>c. no_tid (ev_args c) \<Longrightarrow> Q (c, s)) \<Longrightarrow> post (start_fd R fd s) Q"
  "(\<And>c. no_tid (ev_args c) \<Longrightarrow> Q (c, s)) \<Longrightarrow> post (start_fh R fh s) Q"
  "(\<And>c. no_tid (ev_args c) \<Longrightarrow> Q (c, s)) \<Longrightarrow> post (start_always R s) Q"
  by (auto simp: start_fd_def start_fh_def start_always_def start_hash_def no_tid_def find_insert_or_assign
      metadata_find_def [of _ "[]"] Let_def)

lemma no_tid_upd [simp]: "key \<noteq> ''tid'' \<Longrightarrow> no_tid (ev_args (upd ty key v c)) = no_tid (ev_args c)"
  by (cases "ev_args c") (simp_all add: upd_def no_tid_def find_insert_or_assign)

lemma upd_hash_any [any_rules]:
  assumes "names_fit R" "p \<noteq> NULL" "lg_manager (tp_logger s)" "no_tid (ev_args c)" "key \<noteq> ''tid''"
    and "\<And>c' lg. no_tid (ev_args c') \<Longrightarrow> lg_manager lg \<Longrightarrow> Q (c', s\<lparr>tp_logger := lg\<rparr>)"
  shows "post (upd_hash R key p c s) Q"
proof (cases "ev_args c")
  case None
  then show ?thesis using assms(6) [of c "tp_logger s"] assms(3,4) by (simp add: upd_hash_def)
next
  case (Some m)
  then show ?thesis using assms(1,3-5) names_fit_null [OF assms(1,2), of "tp_world s"]
    by (auto simp: upd_hash_def upd_text_key_def unhashable_def name_fits
        intro!: post_bind hash_post assms(6) dest: grows_manager)
qed

lemma end_event_any [any_rules]:
  assumes "lg_manager (tp_logger s)" "no_tid (ev_args c)"
    and "\<And>lg. lg_manager lg \<Longrightarrow> Q (s\<lparr>tp_logger := lg\<rparr>)"
  shows "post (end_event R cat name c s) Q"
proof (cases "ev_traced c")
  case True
  then show ?thesis using assms(1,2) by (auto simp: end_event_def intro!: log_post assms(3) dest: grows_manager)
next
  case False
  then show ?thesis using assms(1) assms(3) [of "tp_logger s"] by (simp add: end_event_def)
qed

lemma upd_args_any [any_rules]:
  assumes "names_fit R" "lg_manager (tp_logger s)" "no_tid (ev_args c)" "\<forall>(k, p) \<in> set kps. k \<noteq> ''tid'' \<and> p \<noteq> NULL"
    and "\<And>c' lg. no_tid (ev_args c') \<Longrightarrow> lg_manager lg \<Longrightarrow> Q (c', s\<lparr>tp_logger := lg\<rparr>)"
  shows "post (upd_args R kps c s) Q"
  using assms
proof (induction kps arbitrary: c s)
  case Nil
  then show ?case using Nil(5) [of c "tp_logger s"] by simp
next
  case (Cons kp kps)
  obtain k p where kp: "kp = (k, p)" by (cases kp)
  show ?case unfolding kp upd_args.simps
    using Cons.prems kp by (auto intro!: post_bind upd_hash_any Cons.IH)
qed

text \<open>The tables are no part of what the program sees.\<close>

lemma trace_keeps [simp]:
  "tp_world (set_trace fd h s) = tp_world s" "tp_logger (set_trace fd h s) = tp_logger s"
  "tp_world (remove_trace R fd s) = tp_world s" "tp_logger (remove_trace R fd s) = tp_logger s"
  "tp_world (remove_trace_fh R fh s) = tp_world s" "tp_logger (remove_trace_fh R fh s) = tp_logger s"
  by (simp_all add: set_trace_def remove_trace_def remove_trace_fh_def trace_stream_fd_def)

lemma remove_range_keeps [simp]:
  fixes s :: "'w traced_process"
  shows "tp_world (snd (remove_trace_range a b s)) = tp_world s"
    "tp_logger (snd (remove_trace_range a b s)) = tp_logger s"
proof -
  let ?f = "\<lambda>fd (removed, s). if tp_tracked_fd s fd \<noteq> None
    then (True, s\<lparr>tp_tracked_fd := (tp_tracked_fd s)(fd := None)\<rparr>) else (removed, s)"
  have "tp_world (snd (fold ?f fds (d, s))) = tp_world s \<and> tp_logger (snd (fold ?f fds (d, s))) = tp_logger s"
    for fds d and s :: "'w traced_process"
    by (induction fds arbitrary: d s) auto
  then show "tp_world (snd (remove_trace_range a b s)) = tp_world s"
    "tp_logger (snd (remove_trace_range a b s)) = tp_logger s"
    by (simp_all add: remove_trace_range_def)
qed

lemma flush_keeps [simp]:
  "tp_world (flush_all_events s) = tp_world s" "lg_manager (tp_logger (flush_all_events s)) = lg_manager (tp_logger s)"
  by (simp_all add: flush_all_events_def logger_flush_def)

lemma arg_keys_fit [simp]:
  "(''tid'', p) \<notin> set (zip arg_keys ps)" "(k, NULL) \<notin> set (zip ks (takeWhile (\<lambda>p. p \<noteq> NULL) ps))"
proof -
  show "(''tid'', p) \<notin> set (zip arg_keys ps)" by (auto simp: arg_keys_def dest!: set_zip_leftD)
  show "(k, NULL) \<notin> set (zip ks (takeWhile (\<lambda>p. p \<noteq> NULL) ps))"
    by (auto dest!: set_zip_rightD dest: set_takeWhileD)
qed

lemma exec_now_any [any_rules]:
  assumes "lg_manager (tp_logger s)" "no_tid (ev_args c)"
    and "\<And>s'. tp_world s' = snd (libc_call R f args (tp_world s)) \<Longrightarrow>
      Q (ucast (fst (libc_call R f args (tp_world s))), s')"
  shows "post (exec_now R fn f args c s) Q"
  using assms unfolding exec_now_def by (auto simp: call_defs intro!: post_rules(1) end_event_any)

lemma tables_forward:
  "forwards R ''close'' [C_int fd] [] ucast (posix_close R fd)"
  "forwards R ''dup2'' [C_int oldfd, C_int newfd] [] ucast (posix_dup2 R oldfd newfd)"
  "forwards R ''dup3'' [C_int oldfd, C_int newfd, C_int flags] [] ucast (posix_dup3 R oldfd newfd flags)"
  "forwards R ''closedir'' [C_ptr dir] [] ucast (posix_closedir R dir)"
  "forwards R ''fclose'' [C_ptr fp] [] ucast (stdio_fclose R fp)"
  by (rule forwardsI; auto simp: call_defs posix_close_def posix_dup2_def posix_dup3_def posix_closedir_def
      stdio_fclose_def intro!: post_bind any_rules)+

lemma exec_forward:
  "forwards R ''execv'' [C_ptr pathname, C_array (arg # takeWhile (\<lambda>p. p \<noteq> NULL) rest)] [pathname, arg] ucast (posix_execl R pathname arg rest)"
  "forwards R ''execvp'' [C_ptr pathname, C_array (arg # takeWhile (\<lambda>p. p \<noteq> NULL) rest)] [pathname, arg] ucast (posix_execlp R pathname arg rest)"
  "forwards R ''execv'' [C_ptr pathname, C_ptr argv] [pathname] ucast (posix_execv R pathname argv)"
  "forwards R ''execvp'' [C_ptr pathname, C_ptr argv] [pathname] ucast (posix_execvp R pathname argv)"
  "forwards R ''execvpe'' [C_ptr pathname, C_ptr argv, C_ptr envp] [pathname] ucast (posix_execvpe R pathname argv envp)"
  "forwards R ''execve'' [C_ptr pathname, C_ptr argv, C_ptr envp] [pathname] ucast (posix_execve R pathname argv envp)"
  by (rule forwardsI; auto simp: call_defs posix_execl_def posix_execlp_def posix_execv_def posix_execvp_def
      posix_execvpe_def posix_execve_def intro!: post_bind any_rules)+

lemma ranges_forward:
  "forwards R ''close_range'' [C_int first', C_int last', C_int flags] [] ucast (posix_close_range R first' last' flags)"
  "forwards R ''closefrom'' [C_int lowfd] [] (\<lambda>r. ()) (posix_closefrom R lowfd)"
  "forwards R ''fcloseall'' [] [] ucast (stdio_fcloseall R)"
  by (rule forwardsI; auto simp: call_defs posix_close_range_def close_range_traced_def posix_closefrom_def
      closefrom_traced_def stdio_fcloseall_def fcloseall_traced_def
      intro!: post_bind any_rules split: prod.split bool.split)+

end
