(* ===== verification/Interception.thy ===== *)
theory Interception
  imports Special_Calls
begin

text \<open>
  What the wrappers of the POSIX and STDIO functions promise together.
\<close>



end
