(* ===== verification/Fd_Table.thy ===== *)
theory Fd_Table
  imports Special_Calls
begin

text \<open>
  The table of traced descriptors against the descriptors of the kernel: what the wrappers that
  open, duplicate and close descriptors keep of it, and where a wrapper leaves it behind.
\<close>

section \<open>What the kernel promises\<close>

text \<open>
  \<open>files w fd\<close> is the absolute path that the process opened \<open>fd\<close> with; nothing for a closed or an
  inherited descriptor. A call that makes a descriptor makes one that was closed, or fails and
  changes nothing; \<open>n\<close> bounds the descriptors.
\<close>

definition open_calls :: "string list" where
  "open_calls = [''open'', ''open64'', ''creat'', ''creat64'']"

definition named_file :: "'w libc \<Rightarrow> 'w \<Rightarrow> u64 \<Rightarrow> string option" where
  "named_file R w p = map_option (absolute_path (le_cwd (logger_world R w))) (string_at R w p)"

definition makes_fd :: "('w \<Rightarrow> u32 \<Rightarrow> string option) \<Rightarrow> 'w \<Rightarrow> string option \<Rightarrow> u64 \<times> 'w \<Rightarrow> bool" where
  "makes_fd files w file result \<longleftrightarrow> (let fd = ucast (fst result); w' = snd result in
     if sint fd < 0 then files w' = files w else files w fd = None \<and> files w' = (files w)(fd := file))"

definition copies_fd :: "('w \<Rightarrow> u32 \<Rightarrow> string option) \<Rightarrow> 'w \<Rightarrow> u32 \<Rightarrow> u32 \<Rightarrow> u64 \<times> 'w \<Rightarrow> bool" where
  "copies_fd files w oldfd newfd result \<longleftrightarrow> (let fd = ucast (fst result); w' = snd result in
     if sint fd < 0 then files w' = files w else fd = newfd \<and> files w' = (files w)(newfd := files w oldfd))"

definition fd_laws :: "'w libc \<Rightarrow> ('w \<Rightarrow> u32 \<Rightarrow> string option) \<Rightarrow> u64 \<Rightarrow> bool" where
  "fd_laws R files n \<longleftrightarrow>
     (\<forall>w f p args. f \<in> set open_calls \<longrightarrow> makes_fd files w (named_file R w p) (libc_call R f (C_ptr p # args) w)) \<and>
     (\<forall>w fd. files (snd (libc_call R ''close'' [C_int fd] w)) = (files w)(fd := None)) \<and>
     (\<forall>w fd. makes_fd files w (files w fd) (libc_call R ''dup'' [C_int fd] w)) \<and>
     (\<forall>w a b. copies_fd files w a b (libc_call R ''dup2'' [C_int a, C_int b] w)) \<and>
     (\<forall>w a b flags. copies_fd files w a b (libc_call R ''dup3'' [C_int a, C_int b, C_int flags] w)) \<and>
     (\<forall>w fd. files w fd \<noteq> None \<longrightarrow> 0 \<le> sint fd \<and> ucast fd < n)"

section \<open>Runs\<close>

text \<open>What a call that makes, closes and copies no descriptor leaves as it is.\<close>

definition same_descriptors ::
  "('w \<Rightarrow> u32 \<Rightarrow> string option) \<Rightarrow> 'w traced_process \<Rightarrow> 'w traced_process \<Rightarrow> bool" where
  "same_descriptors files s t \<longleftrightarrow> files (tp_world t) = files (tp_world s) \<and> tp_tracked_fd t = tp_tracked_fd s \<and>
     tp_max_fd t = tp_max_fd s \<and> tp_posix_stop t = tp_posix_stop s \<and> tp_trace_all t = tp_trace_all s \<and>
     tp_trie t = tp_trie s \<and> (names_defined (tp_logger s) \<longrightarrow> names_defined (tp_logger t))"

inductive fd_run ::
  "'w libc \<Rightarrow> ('w \<Rightarrow> u32 \<Rightarrow> string option) \<Rightarrow> 'w traced_process \<Rightarrow> 'w traced_process \<Rightarrow> bool"
  for R files s where
  here: "fd_run R files s s"
| opened: "fd_run R files s t \<Longrightarrow> posix_open R p flags mode t = Some (r, t') \<Longrightarrow> fd_run R files s t'"
| opened64: "fd_run R files s t \<Longrightarrow> posix_open64 R p flags mode t = Some (r, t') \<Longrightarrow> fd_run R files s t'"
| created: "fd_run R files s t \<Longrightarrow> posix_creat R p cmode t = Some (r, t') \<Longrightarrow> fd_run R files s t'"
| created64: "fd_run R files s t \<Longrightarrow> posix_creat64 R p cmode t = Some (r, t') \<Longrightarrow> fd_run R files s t'"
| closed: "fd_run R files s t \<Longrightarrow> \<not> in_vfork_child R t \<Longrightarrow> posix_close R fd t = Some (r, t') \<Longrightarrow> fd_run R files s t'"
| duped: "fd_run R files s t \<Longrightarrow> posix_dup R oldfd t = Some (r, t') \<Longrightarrow> fd_run R files s t'"
| duped2: "fd_run R files s t \<Longrightarrow> posix_dup2 R oldfd newfd t = Some (r, t') \<Longrightarrow> fd_run R files s t'"
| duped3: "fd_run R files s t \<Longrightarrow> posix_dup3 R oldfd newfd dflags t = Some (r, t') \<Longrightarrow> fd_run R files s t'"
| other: "fd_run R files s t \<Longrightarrow> same_descriptors files t t' \<Longrightarrow> fd_run R files s t'"

section \<open>The table table_agrees with the kernel\<close>

definition expected :: "'w traced_process \<Rightarrow> string \<Rightarrow> string option" where
  "expected s f = (if tp_trace_all s \<or> is_traced_common (tp_trie s) f = Some f then Some (get_hash f) else None)"

definition table_agrees :: "('w \<Rightarrow> u32 \<Rightarrow> string option) \<Rightarrow> u64 \<Rightarrow> 'w traced_process \<Rightarrow> bool" where
  "table_agrees files n s \<longleftrightarrow> \<not> tp_posix_stop s \<and> tp_max_fd s = n \<and> names_defined (tp_logger s) \<and>
     (\<forall>fd. fd_in_table s fd \<longrightarrow> tp_tracked_fd s (unat fd) = Option.bind (files (tp_world s) fd) (expected s))"

text \<open>\<open>t\<close> is \<open>s\<close> but for its logger, its world and its table, which holds \<open>table\<close>.\<close>

definition moved :: "'w traced_process \<Rightarrow> 'w \<Rightarrow> (nat \<Rightarrow> string option) \<Rightarrow> 'w traced_process \<Rightarrow> bool" where
  "moved s w table t \<longleftrightarrow> tp_world t = w \<and> tp_tracked_fd t = table \<and> tp_max_fd t = tp_max_fd s \<and>
     tp_posix_stop t = tp_posix_stop s \<and> tp_trace_all t = tp_trace_all s \<and> tp_trie t = tp_trie s \<and>
     (names_defined (tp_logger s) \<longrightarrow> names_defined (tp_logger t))"

lemma moved_expected: "moved s w table t \<Longrightarrow> expected t = expected s"
  by (simp add: moved_def expected_def fun_eq_iff)

lemma moved_in_table: "moved s w table t \<Longrightarrow> fd_in_table t fd = fd_in_table s fd"
  by (simp add: moved_def fd_in_table_def)

lemma agrees_moved:
  assumes "table_agrees files n s" "moved s w table t"
    and "\<And>fd. fd_in_table s fd \<Longrightarrow> table (unat fd) = Option.bind (files w fd) (expected s)"
  shows "table_agrees files n t"
  using assms moved_expected [OF assms(2)] moved_in_table [OF assms(2)]
  by (auto simp: table_agrees_def moved_def)

definition entered :: "'w traced_process \<Rightarrow> u32 \<Rightarrow> string option \<Rightarrow> nat \<Rightarrow> string option" where
  "entered s fd h = (if fd_in_table s fd then (tp_tracked_fd s)(unat fd := h) else tp_tracked_fd s)"

lemma unat_eq_32: "unat (a :: u32) = unat b \<longleftrightarrow> a = b" by (simp add: word_unat_eq_iff)

lemma agrees_made:
  assumes a: "table_agrees files n s" and m: "makes_fd files (tp_world s) file (r, w)"
    and t: "moved s w (if h \<noteq> None then entered s (ucast r) h else tp_tracked_fd s) t"
    and h: "h = Option.bind file (expected s)"
  shows "table_agrees files n t"
proof (rule agrees_moved [OF a t])
  fix fd assume fd: "fd_in_table s fd"
  have old: "tp_tracked_fd s (unat fd) = Option.bind (files (tp_world s) fd) (expected s)"
    using a fd by (simp add: table_agrees_def)
  show "(if h \<noteq> None then entered s (ucast r) h else tp_tracked_fd s) (unat fd) = Option.bind (files w fd) (expected s)"
  proof (cases "sint (ucast r :: u32) < 0")
    case True
    then show ?thesis using m old by (auto simp: makes_fd_def entered_def fd_in_table_def Let_def)
  next
    case False
    then show ?thesis using m old fd h
      by (cases "fd = ucast r") (auto simp: makes_fd_def entered_def unat_eq_32 Let_def)
  qed
qed

lemma agrees_copied:
  assumes a: "table_agrees files n s" and m: "copies_fd files (tp_world s) oldfd newfd (r, w)"
    and t: "moved s w (if 0 \<le> sint (ucast r :: u32) \<and> ucast r \<noteq> oldfd then entered s (ucast r) (fd_hash s oldfd)
      else tp_tracked_fd s) t"
    and h: "fd_hash s oldfd = Option.bind (files (tp_world s) oldfd) (expected s)"
  shows "table_agrees files n t"
proof (rule agrees_moved [OF a t])
  fix fd assume fd: "fd_in_table s fd"
  have old: "tp_tracked_fd s (unat fd) = Option.bind (files (tp_world s) fd) (expected s)"
    using a fd by (simp add: table_agrees_def)
  show "(if 0 \<le> sint (ucast r :: u32) \<and> ucast r \<noteq> oldfd then entered s (ucast r) (fd_hash s oldfd)
      else tp_tracked_fd s) (unat fd) = Option.bind (files w fd) (expected s)"
    using m old fd h
    by (cases "fd = ucast r") (auto simp: copies_fd_def entered_def unat_eq_32 Let_def split: if_splits)
qed

text \<open>Every descriptor has a slot, so the hash a call starts with is the expected one.\<close>

lemma agrees_hash:
  assumes "table_agrees files n s" "fd_laws R files n"
  shows "fd_hash s fd = Option.bind (files (tp_world s) fd) (expected s)"
proof (cases "fd_in_table s fd")
  case True
  then show ?thesis using assms(1) by (simp add: table_agrees_def fd_hash_def)
next
  case False
  then have "\<not> (0 \<le> sint fd \<and> ucast fd < n)" using assms(1) by (simp add: fd_in_table_def table_agrees_def)
  then have "files (tp_world s) fd = None" using assms(2) unfolding fd_laws_def by blast
  then show ?thesis using False by (simp add: fd_hash_def)
qed

section \<open>The steps of a wrapper\<close>

lemma upd_locals [simp]:
  "ev_traced (upd ty key v c) = ev_traced c" "ev_hash (upd ty key v c) = ev_hash c"
  by (simp_all add: upd_def)

definition logger_only :: "'w traced_process \<Rightarrow> 'w traced_process \<Rightarrow> bool" where
  "logger_only s t \<longleftrightarrow> (\<exists>lg. t = s\<lparr>tp_logger := lg\<rparr> \<and> (names_defined (tp_logger s) \<longrightarrow> names_defined lg))"

lemma start_fd_spec: "start_fd R fd s = Some (c, t) \<Longrightarrow> t = s \<and> ev_hash c = fd_hash s fd \<and> (ev_traced c \<longleftrightarrow> ev_hash c \<noteq> None)"
  by (auto simp: start_fd_def start_hash_def)

lemma traced_common_same: "is_traced_common trie f = Some g \<Longrightarrow> g = f"
  by (auto simp: is_traced_common_def split: option.splits if_splits)

lemma name_hash_spec:
  assumes "name_hash R p s = Some (h, t)" "names_defined (tp_logger s)"
  shows "logger_only s t \<and> h = Option.bind (named_file R (tp_world s) p) (expected s)"
proof -
  have hash: "hash_and_store (logger_world R (tp_world s)) f METADATA_NAME_FILE_HASH (tp_logger s) = Some (h, lg) \<Longrightarrow>
      h = map_option get_hash f \<and> names_defined lg" for f lg
    using hash_and_store_spec [OF _ assms(2)] by blast
  show ?thesis
  proof (cases "tp_trace_all s")
    case True
    then show ?thesis using assms(1)
      by (cases "string_at R (tp_world s) p")
        (auto simp: name_hash_def named_file_def logger_only_def expected_def Let_def dest!: hash)
  next
    case all: False
    show ?thesis
    proof (cases "string_at R (tp_world s) p")
      case None
      then show ?thesis using assms(1) all
        by (auto simp: name_hash_def named_file_def logger_only_def Let_def split: if_splits intro!: exI [of _ "tp_logger s"])
    next
      case (Some f)
      let ?f = "absolute_path (le_cwd (logger_world R (tp_world s))) f"
      obtain lg where lg: "hash_and_store (logger_world R (tp_world s)) (is_traced_common (tp_trie s) ?f)
          METADATA_NAME_FILE_HASH (tp_logger s) = Some (h, lg)" "t = s\<lparr>tp_logger := lg\<rparr>"
        using assms(1) all Some by (auto simp: name_hash_def Let_def)
      then show ?thesis using hash [OF lg(1)] all Some traced_common_same [of "tp_trie s" ?f]
        by (cases "is_traced_common (tp_trie s) ?f") (auto simp: named_file_def logger_only_def expected_def)
    qed
  qed
qed

lemma start_path_spec:
  assumes "start_path R p s = Some (c, t)" "names_defined (tp_logger s)" "\<not> tp_posix_stop s"
  shows "logger_only s t \<and> ev_hash c = Option.bind (named_file R (tp_world s) p) (expected s) \<and>
    (ev_traced c \<longleftrightarrow> ev_hash c \<noteq> None)"
proof -
  obtain h where h: "name_hash R p s = Some (h, t)" "c = start_hash R h t"
    using assms(1,3) by (auto simp: start_path_def path_hash_def)
  then show ?thesis using name_hash_spec [OF h(1) assms(2)] by (simp add: start_hash_def)
qed

lemma end_event_spec: "end_event R cat name c s = Some t \<Longrightarrow> logger_only s t"
  using logger_log_names [of "tp_logger s"]
  by (fastforce simp: end_event_def logger_only_def split: if_splits intro: exI [of _ "tp_logger s"])

lemma set_trace_entered: "set_trace fd h s = s\<lparr>tp_tracked_fd := entered s fd h\<rparr>"
  by (simp add: set_trace_def entered_def)

lemma entered_world [simp]:
  "entered (s\<lparr>tp_world := w\<rparr>) fd h = entered s fd h" "entered (s\<lparr>tp_logger := lg\<rparr>) fd h = entered s fd h"
  by (simp_all add: entered_def fd_in_table_def fun_eq_iff)

lemmas step_simps = call_defs Option.bind_eq_Some_conv set_trace_entered

text \<open>A function that opens a path.\<close>

lemma opened_agrees:
  assumes a: "table_agrees files n s" and l: "fd_laws R files n" and f: "f \<in> set open_calls"
    and c: "start_path R p s = Some (c, s1)"
    and e: "end_event R ''POSIX'' name c' (s1\<lparr>tp_world := snd (libc_call R f (C_ptr p # args) (tp_world s1))\<rparr>) = Some s2"
    and t: "t = (if ev_traced c then set_trace (ucast (fst (libc_call R f (C_ptr p # args) (tp_world s1)))) (ev_hash c) s2 else s2)"
  shows "table_agrees files n t"
proof -
  have s: "names_defined (tp_logger s)" "\<not> tp_posix_stop s" using a by (simp_all add: table_agrees_def)
  obtain lg1 where 1: "s1 = s\<lparr>tp_logger := lg1\<rparr>" "names_defined lg1"
      "ev_hash c = Option.bind (named_file R (tp_world s) p) (expected s)" "ev_traced c \<longleftrightarrow> ev_hash c \<noteq> None"
    using start_path_spec [OF c s] s(1) by (auto simp: logger_only_def)
  obtain r w where rw: "libc_call R f (C_ptr p # args) (tp_world s) = (r, w)" by (cases "libc_call R f (C_ptr p # args) (tp_world s)")
  obtain lg2 where 2: "s2 = s\<lparr>tp_world := w, tp_logger := lg2\<rparr>" "names_defined lg2"
    using end_event_spec [OF e] 1 rw by (auto simp: logger_only_def)
  have "makes_fd files (tp_world s) (named_file R (tp_world s) p) (r, w)"
    using l f rw unfolding fd_laws_def by metis
  moreover have "moved s w (if ev_hash c \<noteq> None then entered s (ucast r) (ev_hash c) else tp_tracked_fd s) t"
    unfolding t using 1 2 rw by (simp add: moved_def set_trace_entered)
  ultimately show ?thesis using agrees_made [OF a _ _ 1(3)] by blast
qed

lemma open_agrees:
  assumes "table_agrees files n s" "fd_laws R files n"
  shows "posix_open R p flags mode s = Some (r, t) \<Longrightarrow> table_agrees files n t"
    "posix_open64 R p flags mode s = Some (r, t) \<Longrightarrow> table_agrees files n t"
    "posix_creat R p cmode s = Some (r, t) \<Longrightarrow> table_agrees files n t"
    "posix_creat64 R p cmode s = Some (r, t) \<Longrightarrow> table_agrees files n t"
  by (auto simp: posix_open_def posix_open64_def posix_creat_def posix_creat64_def step_simps open_calls_def split: if_splits
      intro: opened_agrees [OF assms, where f = "''open''"] opened_agrees [OF assms, where f = "''open64''"]
        opened_agrees [OF assms, where f = "''creat''"] opened_agrees [OF assms, where f = "''creat64''"])

text \<open>Functions that copy a descriptor.\<close>

lemma dup_agrees:
  assumes a: "table_agrees files n s" and l: "fd_laws R files n" and d: "posix_dup R oldfd s = Some (r, t)"
  shows "table_agrees files n t"
proof -
  let ?call = "libc_call R ''dup'' [C_int oldfd] (tp_world s)"
  obtain c s2 where c: "start_fd R oldfd s = Some (c, s)"
    and e: "end_event R ''POSIX'' ''dup'' c (s\<lparr>tp_world := snd ?call\<rparr>) = Some s2"
    and t: "t = (if ev_traced c then set_trace (ucast (fst ?call)) (ev_hash c) s2 else s2)"
    using d start_fd_spec [of R oldfd s] by (auto simp: posix_dup_def step_simps split: if_splits)
  have h: "ev_hash c = fd_hash s oldfd" "ev_traced c \<longleftrightarrow> ev_hash c \<noteq> None" using start_fd_spec [OF c] by simp_all
  obtain lg where s2: "s2 = s\<lparr>tp_world := snd ?call, tp_logger := lg\<rparr>" "names_defined (tp_logger s) \<longrightarrow> names_defined lg"
    using end_event_spec [OF e] by (auto simp: logger_only_def)
  have "makes_fd files (tp_world s) (files (tp_world s) oldfd) (fst ?call, snd ?call)"
    using l unfolding fd_laws_def by simp
  moreover have "moved s (snd ?call) (if ev_hash c \<noteq> None then entered s (ucast (fst ?call)) (ev_hash c) else tp_tracked_fd s) t"
    unfolding t s2(1) using h s2(2) by (simp add: moved_def set_trace_entered)
  ultimately show ?thesis using agrees_made [OF a] agrees_hash [OF a l] h(1) by metis
qed

lemma copied_agrees:
  assumes a: "table_agrees files n s" and l: "fd_laws R files n"
    and c: "start_fd R oldfd s = Some (c, s)"
    and m: "copies_fd files (tp_world s) oldfd newfd (r, w)"
    and e: "end_event R ''POSIX'' name c' (s\<lparr>tp_world := w\<rparr>) = Some s2"
    and t: "t = (if 0 \<le> sint (ucast r :: u32) \<and> ucast r \<noteq> oldfd then set_trace (ucast r) (ev_hash c) s2 else s2)"
  shows "table_agrees files n t"
proof -
  have h: "ev_hash c = fd_hash s oldfd" using start_fd_spec [OF c] by simp
  obtain lg where s2: "s2 = s\<lparr>tp_world := w, tp_logger := lg\<rparr>" "names_defined (tp_logger s) \<longrightarrow> names_defined lg"
    using end_event_spec [OF e] by (auto simp: logger_only_def)
  have "moved s w (if 0 \<le> sint (ucast r :: u32) \<and> ucast r \<noteq> oldfd then entered s (ucast r) (fd_hash s oldfd)
      else tp_tracked_fd s) t"
    unfolding t s2(1) using h s2(2) by (simp add: moved_def set_trace_entered)
  then show ?thesis by (rule agrees_copied [OF a m _ agrees_hash [OF a l]])
qed

lemma dup2_agrees:
  assumes a: "table_agrees files n s" and l: "fd_laws R files n" and d: "posix_dup2 R oldfd newfd s = Some (r, t)"
  shows "table_agrees files n t"
proof -
  let ?call = "libc_call R ''dup2'' [C_int oldfd, C_int newfd] (tp_world s)"
  obtain c s2 where c: "start_fd R oldfd s = Some (c, s)"
    and e: "end_event R ''POSIX'' ''dup2'' c (s\<lparr>tp_world := snd ?call\<rparr>) = Some s2"
    and t: "t = (if 0 \<le> sint (ucast (fst ?call) :: u32) \<and> ucast (fst ?call) \<noteq> oldfd
      then set_trace (ucast (fst ?call)) (ev_hash c) s2 else s2)"
    using d start_fd_spec [of R oldfd s] by (auto simp: posix_dup2_def step_simps)
  have m: "copies_fd files (tp_world s) oldfd newfd (fst ?call, snd ?call)" using l unfolding fd_laws_def by simp
  show ?thesis by (rule copied_agrees [OF a l c m e t])
qed

text \<open>\<open>dup3\<close> of a descriptor onto itself fails, so its table update without a check does no harm.\<close>

lemma dup3_agrees:
  assumes a: "table_agrees files n s" and l: "fd_laws R files n" and d: "posix_dup3 R oldfd newfd flags s = Some (r, t)"
  shows "table_agrees files n t"
proof -
  let ?call = "libc_call R ''dup3'' [C_int oldfd, C_int newfd, C_int flags] (tp_world s)"
  obtain c s2 where c: "start_fd R oldfd s = Some (c, s)"
    and e: "end_event R ''POSIX'' ''dup3'' (upd_val ''flags'' (int_value flags) c) (s\<lparr>tp_world := snd ?call\<rparr>) = Some s2"
    and t: "t = (if 0 \<le> sint (ucast (fst ?call) :: u32) then set_trace (ucast (fst ?call)) (ev_hash c) s2 else s2)"
    using d start_fd_spec [of R oldfd s] by (auto simp: posix_dup3_def step_simps)
  have m: "copies_fd files (tp_world s) oldfd newfd (fst ?call, snd ?call)" using l unfolding fd_laws_def by simp
  show ?thesis
  proof (cases "ucast (fst ?call) = oldfd")
    case False
    then show ?thesis using t by (intro copied_agrees [OF a l c m e]) simp
  next
    case True
    have h: "ev_hash c = fd_hash s oldfd" using start_fd_spec [OF c] by simp
    have "set_trace oldfd (fd_hash s oldfd) s2 = s2" if "fd_in_table s2 oldfd \<Longrightarrow> tp_tracked_fd s2 (unat oldfd) = fd_hash s oldfd"
      using that by (cases s2) (auto simp: set_trace_def fun_upd_idem)
    moreover have "fd_in_table s2 oldfd \<Longrightarrow> tp_tracked_fd s2 (unat oldfd) = fd_hash s oldfd"
      using end_event_spec [OF e] a by (auto simp: logger_only_def fd_hash_def fd_in_table_def table_agrees_def)
    ultimately have "t = s2" using t h True by auto
    then show ?thesis using True by (intro copied_agrees [OF a l c m e]) simp
  qed
qed

lemma close_agrees:
  assumes a: "table_agrees files n s" and l: "fd_laws R files n" and v: "\<not> in_vfork_child R s"
    and d: "posix_close R fd s = Some (r, t)"
  shows "table_agrees files n t"
proof -
  define s1 where "s1 = (if fd_hash s fd \<noteq> None then remove_trace R fd s else s)"
  define w where "w = snd (libc_call R ''close'' [C_int fd] (tp_world s))"
  have w1: "tp_world s1 = tp_world s" by (simp add: s1_def)
  obtain c where c: "start_fd R fd s = Some (c, s)" "ev_hash c = fd_hash s fd" "ev_traced c \<longleftrightarrow> fd_hash s fd \<noteq> None"
    using start_fd_spec [of R fd s] by (auto simp: start_fd_def)
  have "\<exists>c'. end_event R ''POSIX'' ''close'' c' (s1\<lparr>tp_world := w\<rparr>) = Some t"
    using d c w1 by (cases "ev_traced c") (auto simp: posix_close_def step_simps s1_def w_def)
  then obtain c' where e: "end_event R ''POSIX'' ''close'' c' (s1\<lparr>tp_world := w\<rparr>) = Some t" by blast
  obtain lg where t: "t = s1\<lparr>tp_world := w, tp_logger := lg\<rparr>" "names_defined (tp_logger s1) \<longrightarrow> names_defined lg"
    using end_event_spec [OF e] by (auto simp: logger_only_def)
  have fw: "files w = (files (tp_world s))(fd := None)" using l unfolding fd_laws_def w_def by blast
  have "moved s w (if fd_hash s fd \<noteq> None then entered s fd None else tp_tracked_fd s) t"
    using t v by (auto simp: moved_def s1_def remove_trace_def entered_def)
  then show ?thesis
  proof (rule agrees_moved [OF a])
    fix fd' assume f: "fd_in_table s fd'"
    have old: "tp_tracked_fd s (unat fd') = Option.bind (files (tp_world s) fd') (expected s)"
      using a f by (simp add: table_agrees_def)
    show "(if fd_hash s fd \<noteq> None then entered s fd None else tp_tracked_fd s) (unat fd') = Option.bind (files w fd') (expected s)"
      using old f a by (cases "fd' = fd") (auto simp: fw entered_def unat_eq_32 fd_hash_def table_agrees_def)
  qed
qed

lemma other_agrees: "table_agrees files n s \<Longrightarrow> same_descriptors files s t \<Longrightarrow> table_agrees files n t"
  by (rule agrees_moved [where w = "tp_world t" and table = "tp_tracked_fd t"])
    (auto simp: same_descriptors_def moved_def table_agrees_def)

lemma run_agrees:
  assumes "fd_run R files s t" "fd_laws R files n" "table_agrees files n s"
  shows "table_agrees files n t"
  using assms
  by (induction rule: fd_run.induct)
    (blast intro: open_agrees dup_agrees dup2_agrees dup3_agrees close_agrees other_agrees)+

text \<open>The table of a process that starts: \<open>calloc\<close> leaves it empty.\<close>

definition fresh_process :: "('w \<Rightarrow> u32 \<Rightarrow> string option) \<Rightarrow> u64 \<Rightarrow> 'w traced_process \<Rightarrow> bool" where
  "fresh_process files n s \<longleftrightarrow> \<not> tp_posix_stop s \<and> tp_max_fd s = n \<and> tp_tracked_fd s = (\<lambda>_. None) \<and>
     files (tp_world s) = (\<lambda>_. None) \<and> logger_run (tp_logger s)"

lemma fresh_agrees: "fresh_process files n s \<Longrightarrow> table_agrees files n s"
  using logger_run_sound by (fastforce simp: fresh_process_def table_agrees_def sound_def)

section \<open>Properties\<close>

text \<open>
  C37: the table of traced descriptors follows the kernel. From the start of a process that is no
  \<open>vfork\<close> child, whatever sequence of \<open>open\<close>, \<open>creat\<close>, \<open>close\<close> and \<open>dup\<close> calls it makes,
  successful or not, and whatever calls that leave the descriptors alone come between, a call on a
  descriptor is traced exactly when the descriptor goes back to an \<open>open\<close> of a path that is traced,
  and then under the hash of that path: no stale entry outlives a \<open>close\<close> or a \<open>dup2\<close>.
\<close>

theorem table_follows_kernel:
  assumes "fd_laws R files n" and "fresh_process files n s" and "fd_run R files s t"
  shows "fd_hash t fd = Option.bind (files (tp_world t) fd) (expected t)"
  by (rule agrees_hash [OF run_agrees [OF assms(3,1) fresh_agrees [OF assms(2)]] assms(1)])

text \<open>A kernel with the descriptors 3, which \<open>open\<close> gives, and 4, which a \<open>dup2\<close> can make.\<close>

type_synonym small_world = "string option \<times> string option"

definition small_files :: "small_world \<Rightarrow> u32 \<Rightarrow> string option" where
  "small_files w fd = (if fd = 3 then fst w else if fd = 4 then snd w else None)"

definition small_call :: "string \<Rightarrow> c_arg list \<Rightarrow> small_world \<Rightarrow> u64 \<times> small_world" where
  "small_call f args w =
     (if f \<in> set open_calls then (if fst w = None \<and> hd args \<noteq> C_ptr NULL then (3, (Some ''/a'', snd w)) else (0xFFFFFFFF, w))
      else if f = ''close'' then
        (case args of C_int fd # _ \<Rightarrow> (0, (if fd = 3 then None else fst w, if fd = 4 then None else snd w)) | _ \<Rightarrow> (0xFFFFFFFF, w))
      else if f = ''dup2'' \<or> f = ''dup3'' then
        (case args of C_int a # C_int b # _ \<Rightarrow> if b = 4 then (4, (fst w, small_files w a)) else (0xFFFFFFFF, w) | _ \<Rightarrow> (0xFFFFFFFF, w))
      else (0xFFFFFFFF, w))"

definition small_libc :: "small_world libc" where
  "small_libc = \<lparr>libc_call = small_call, string_at = (\<lambda>_ p. if p = NULL then None else Some ''/a''), wide_length_at = (\<lambda>_ _. 0),
     int_at = (\<lambda>_ _ _. 0), pointers_at = (\<lambda>_ _. []), pointer_at = (\<lambda>_ _ _. 0), dirfd_of = (\<lambda>_ _. - 1),
     fileno_of = (\<lambda>_ _. 5), aio_fildes = (\<lambda>_ _. 0), aio_nbytes = (\<lambda>_ _. 0), aio_offset = (\<lambda>_ _. 0),
     logger_world = (\<lambda>_. sample_logger_env), c_stdin = 100, c_stdout = 101, c_stderr = 102\<rparr>"

lemma small_simps [simp]:
  "libc_call small_libc = small_call" "string_at small_libc w p = (if p = NULL then None else Some ''/a'')" "logger_world small_libc w = sample_logger_env"
  by (simp_all add: small_libc_def)

lemma absolute_a [simp]: "absolute_path cwd ''/a'' = ''/a''"
  by (simp add: absolute_path_def slash_def)

lemma small_laws: "fd_laws small_libc small_files 5"
  unfolding fd_laws_def
proof (intro conjI allI impI)
  fix w f p args assume "f \<in> set open_calls"
  then show "makes_fd small_files w (named_file small_libc w p) (libc_call small_libc f (C_ptr p # args) w)"
    by (auto simp: makes_fd_def small_call_def small_files_def named_file_def fun_eq_iff Let_def)
qed (auto simp: makes_fd_def copies_fd_def small_call_def small_files_def fun_eq_iff open_calls_def Let_def split: if_splits)

lemma small_names_fit: "names_fit small_libc"
  by (simp add: names_fit_def PATH_MAX_def)

definition small_process :: "df_logger \<Rightarrow> small_world traced_process" where
  "small_process lg = \<lparr>tp_posix_stop = False, tp_stdio_stop = False, tp_max_fd = 5, tp_tracked_fd = (\<lambda>_. None),
     tp_tracked_fh = [], tp_trace_all = True, tp_trie = None, tp_logger = lg, tp_world = (None, None)\<rparr>"

lemma small_process_fresh: "logger_run lg \<Longrightarrow> fresh_process small_files 5 (small_process lg)"
  by (simp add: fresh_process_def small_process_def small_files_def fun_eq_iff)

lemma small_open:
  assumes "lg_manager lg" and p: "p \<noteq> NULL"
  shows "\<exists>t. posix_open small_libc p 0 0 (small_process lg) = Some (3, t) \<and> lg_manager (tp_logger t) \<and>
    tp_world t = (Some ''/a'', None) \<and> tp_trace_all t"
proof -
  obtain h lg1 where h: "hash_and_store sample_logger_env (Some ''/a'') METADATA_NAME_FILE_HASH lg = Some (h, lg1)"
    using hash_and_store_returns [OF assms(1), of "''/a''" sample_logger_env METADATA_NAME_FILE_HASH]
    by (auto simp: PATH_MAX_def)
  have "post (hash_and_store sample_logger_env (Some ''/a'') METADATA_NAME_FILE_HASH lg)
      (\<lambda>x. lg_manager (snd x))"
    by (rule hash_post [OF assms(1)]) (auto simp: PATH_MAX_def dest: grows_manager)
  then have m: "lg_manager lg1" using h by simp
  have n: "h \<noteq> None" using h by (auto simp: hash_and_store_def split: if_splits)
  let ?s1 = "(small_process lg)\<lparr>tp_logger := lg1\<rparr>"
  have st: "start_path small_libc p (small_process lg) = Some (start_hash small_libc h ?s1, ?s1)"
    using h p by (simp add: start_path_def path_hash_def name_hash_def small_process_def)
  have w: "wrapped small_libc ''POSIX'' ''open'' ''open'' [C_ptr p, C_int 0] [] ucast (start_path small_libc p) track_fd
      (posix_open small_libc p 0 0)"
    using posix_open_wrapped [of small_libc 0 p 0] by simp
  obtain lg2 where "posix_open small_libc p 0 0 (small_process lg) =
      Some (3, set_trace 3 h (?s1\<lparr>tp_world := (Some ''/a'', None), tp_logger := lg2\<rparr>))" "lg_manager lg2"
    using wrapped_traced [OF w st _ small_names_fit, of 3 "(Some ''/a'', None)"] m n p
    by (auto simp: start_hash_def small_call_def open_calls_def small_process_def track_fd_def p dest: grows_manager)
  then show ?thesis by (simp add: set_trace_def small_process_def)
qed

lemma table_follows_kernel_witness:
  "\<exists>s t. fd_run small_libc small_files s t \<and> tp_tracked_fd s 4 = None \<and> fd_hash t 4 = Some (get_hash ''/a'')"
proof -
  obtain lg where lg: "logger_run lg" "lg_manager lg" using sample_logger_opens by blast
  obtain t where t: "posix_open small_libc 8 0 0 (small_process lg) = Some (3, t)" "lg_manager (tp_logger t)"
      "tp_world t = (Some ''/a'', None)" "tp_trace_all t"
    using small_open [OF lg(2), of 8] by auto
  obtain u where u: "posix_dup2 small_libc 3 4 t = Some (4, u)" "tp_world u = (Some ''/a'', Some ''/a'')"
    using tables_forward(2) [of small_libc 3 4, unfolded forwards_def, rule_format, of t] t small_names_fit
    by (auto simp: small_call_def open_calls_def small_files_def)
  have run: "fd_run small_libc small_files (small_process lg) u"
    by (rule fd_run.duped2 [OF fd_run.opened [OF fd_run.here t(1)] u(1)])
  have "tp_trace_all u" using u(1) t(4) start_fd_spec [of small_libc 3 t]
    by (auto simp: posix_dup2_def step_simps dest!: end_event_spec split: if_splits) (auto simp: logger_only_def)
  then show ?thesis
    using table_follows_kernel [OF small_laws small_process_fresh [OF lg(1)] run, of 4] run u(2)
    by (intro exI [of _ "small_process lg"] exI [of _ u]) (simp add: small_files_def expected_def, simp add: small_process_def)
qed

text \<open>
  C38: a \<open>vfork\<close> child changes its parent's table after all. \<open>close\<close> leaves the table alone in
  such a child, but \<open>dup2\<close> of an untraced descriptor onto a traced one, as a child does with a
  pipe before it runs a program, clears the entry the parent still needs.
\<close>

theorem vfork_child_untracks_parent:
  assumes "in_vfork_child R s" and "fd_hash s oldfd = None" and "fd_in_table s newfd" and "newfd \<noteq> oldfd"
    and "libc_call R ''dup2'' [C_int oldfd, C_int newfd] (tp_world s) = (r, w)" and "ucast r = newfd"
  shows "(\<exists>s'. posix_dup2 R oldfd newfd s = Some (newfd, s') \<and>
      tp_tracked_fd s' = (tp_tracked_fd s)(unat newfd := None)) \<and>
    (\<forall>fd x s'. posix_close R fd s = Some (x, s') \<longrightarrow> tp_tracked_fd s' = tp_tracked_fd s)"
proof
  have "start_fd R oldfd s = Some (start_hash R None s, s)" using assms(2) by (simp add: start_fd_def)
  moreover have "untraced (start_hash R None s)" "ev_hash (start_hash R None s) = None"
    by (simp_all add: start_hash_def untraced_def)
  ultimately show "\<exists>s'. posix_dup2 R oldfd newfd s = Some (newfd, s') \<and>
      tp_tracked_fd s' = (tp_tracked_fd s)(unat newfd := None)"
    using assms(3-6) by (auto simp: posix_dup2_def call_defs set_trace_def fd_in_table_def)
  show "\<forall>fd x s'. posix_close R fd s = Some (x, s') \<longrightarrow> tp_tracked_fd s' = tp_tracked_fd s"
  proof (intro allI impI)
    fix fd x s' assume c: "posix_close R fd s = Some (x, s')"
    have "remove_trace R fd s = s" using assms(1) by (simp add: remove_trace_def)
    then show "tp_tracked_fd s' = tp_tracked_fd s"
      using c start_fd_spec [of R fd s]
      by (auto simp: posix_close_def step_simps logger_only_def dest!: end_event_spec)
  qed
qed

text \<open>A child of the process 9, whose logger it still has, with the parent's descriptor 4 traced.\<close>

definition small_child :: "small_world traced_process" where
  "small_child = (small_process (sample_logger\<lparr>lg_process_id := 9\<rparr>))\<lparr>tp_tracked_fd := [4 \<mapsto> ''h'']\<rparr>"

lemma vfork_child_untracks_parent_witness:
  "fd_hash small_child 4 = Some ''h'' \<and>
   (\<exists>s'. posix_dup2 small_libc 3 4 small_child = Some (4, s') \<and> tp_tracked_fd s' = (tp_tracked_fd small_child)(4 := None))"
proof -
  have f: "in_vfork_child small_libc small_child" "fd_hash small_child 3 = None" "fd_in_table small_child 4"
      "fd_hash small_child 4 = Some ''h''"
    by (simp_all add: in_vfork_child_def small_child_def small_process_def sample_logger_def new_logger_def
        sample_logger_env_def fd_hash_def fd_in_table_def)
  have "libc_call small_libc ''dup2'' [C_int 3, C_int 4] (tp_world small_child) = (4, tp_world small_child)"
    by (simp add: small_call_def small_files_def small_child_def small_process_def open_calls_def)
  from vfork_child_untracks_parent [OF f(1-3) _ this] f(4) show ?thesis by simp
qed

text \<open>
  C39: \<open>fcntl\<close> drops the argument of every command it does not know, such as \<open>F_SETPIPE_SZ\<close>, \<open>F_OFD_SETLK\<close> or
  \<open>F_ADD_SEALS\<close>: the real function is called without it, so the program's value never reaches
  the kernel. \<open>fcntl64\<close> passes it on.
\<close>

theorem fcntl_drops_argument:
  assumes "cmd \<notin> set int_commands \<union> set plain_commands \<union> set lock_commands"
  shows "posix_fcntl R fd cmd arg = posix_fcntl R fd cmd 0 \<and>
    wrapped R ''POSIX'' ''fcntl'' ''fcntl'' [C_int fd, C_int cmd] [] ucast (start_fd R fd) keep (posix_fcntl R fd cmd arg) \<and>
    wrapped R ''POSIX'' ''fcntl64'' ''fcntl64'' [C_int fd, C_int cmd, C_ptr arg] [] ucast (start_fd R fd) keep
      (posix_fcntl64 R fd cmd arg)"
proof -
  have a: "fcntl_args fd cmd a = [C_int fd, C_int cmd]" for a using assms by (simp add: fcntl_args_def)
  have t: "track_dup cmd = keep" using assms by (intro ext) (auto simp: track_dup_def keep_def int_commands_def)
  show ?thesis
    using fcntl_wrapped [of R fd cmd arg] unfolding a t by (simp add: posix_fcntl_def a fun_eq_iff)
qed

lemma fcntl_drops_argument_witness:
  "posix_fcntl small_libc 3 1031 4096 = posix_fcntl small_libc 3 1031 0"
  using fcntl_drops_argument [of 1031 small_libc 3 4096]
  by (simp add: int_commands_def plain_commands_def lock_commands_def F_DUPFD_def F_DUPFD_CLOEXEC_def)

text \<open>
  C40: \<open>pclose\<close> leaves a stream that \<open>popen\<close> traced in the table, where \<open>fclose\<close> takes it out.
  When the C library hands the same \<open>FILE\<close> out again, for a file that is not traced, the calls
  on it are logged, with the hash of the command.
\<close>

theorem pclose_leaves_stream_traced:
  assumes "names_fit R" and "lg_manager (tp_logger s)" and "fh_hash s fh = Some h"
  shows "(\<exists>r s1. stdio_pclose R fh s = Some (r, s1) \<and> fh_hash s1 fh = Some h \<and>
      (\<forall>path mode c s2 s3. start_stream_path R path s1 = Some (c, s2) \<and> \<not> ev_traced c \<and>
         stdio_fopen R path mode s1 = Some (fh, s3) \<longrightarrow> fh_hash s3 fh = Some h)) \<and>
    (\<exists>r s1. stdio_fclose R fh s = Some (r, s1) \<and> fh_hash s1 fh = None)"
proof
  have fh: "fh_hash (s\<lparr>tp_world := w, tp_logger := lg\<rparr>) fh = fh_hash s fh" for w lg by (simp add: fh_hash_def)
  have st: "start_fh R fh s = Some (start_hash R (Some h) s, s)" "ev_traced (start_hash R (Some h) s)"
    using assms(3) by (simp_all add: start_fh_def start_hash_def)
  obtain r s1 where p: "stdio_pclose R fh s = Some (r, s1)" "fh_hash s1 fh = Some h"
    using wrapped_traced [OF stdio_pclose_wrapped st assms(1) _ assms(2) surjective_pairing] assms(3)
    by (auto simp: keep_def fh)
  moreover have "fh_hash s3 fh = Some h"
    if "start_stream_path R path s1 = Some (c, s2)" "\<not> ev_traced c" "stdio_fopen R path mode s1 = Some (fh, s3)"
    for path mode c s2 s3
  proof -
    have "tp_stdio_stop s2 = tp_stdio_stop s1 \<and> tp_tracked_fh s2 = tp_tracked_fh s1"
      using that(1) by (auto simp: start_stream_path_def stream_path_hash_def name_hash_def Let_def split: if_splits option.splits)
    then show ?thesis
      using wrapped_untraced [OF stdio_fopen_wrapped that(1,2) surjective_pairing, of mode] that(3) p(2)
      by (auto simp: fh_hash_def)
  qed
  ultimately show "\<exists>r s1. stdio_pclose R fh s = Some (r, s1) \<and> fh_hash s1 fh = Some h \<and>
      (\<forall>path mode c s2 s3. start_stream_path R path s1 = Some (c, s2) \<and> \<not> ev_traced c \<and>
         stdio_fopen R path mode s1 = Some (fh, s3) \<longrightarrow> fh_hash s3 fh = Some h)" by blast
  define s0 where "s0 = remove_trace_fh R fh s"
  have s0: "fh_hash s0 fh = None" "lg_manager (tp_logger s0)" using assms(2)
    by (auto simp: s0_def remove_trace_fh_def trace_stream_fd_def set_trace_def fh_hash_def delete_conv' fd_in_table_def)
  have "traced_as (Some h) (start_hash R (Some h) s)" using start_hash_starts [of R "Some h" s] by (simp add: start_hash_def)
  then have "post (stdio_fclose R fh s) (\<lambda>(r, s1). fh_hash s1 fh = None)"
    using s0 grows_refl [OF s0(2)] st unfolding stdio_fclose_def
    by (auto simp: call_defs fh_hash_def simp flip: s0_def intro!: post_rules)
  then show "\<exists>r s1. stdio_fclose R fh s = Some (r, s1) \<and> fh_hash s1 fh = None"
    by (cases "stdio_fclose R fh s") auto
qed

lemma pclose_leaves_stream_traced_witness:
  "\<exists>s r s1. fh_hash s 200 = Some ''h'' \<and> stdio_pclose small_libc 200 s = Some (r, s1) \<and> fh_hash s1 200 = Some ''h''"
proof -
  define s where "s = (small_process sample_logger)\<lparr>tp_tracked_fh := [(200, Some ''h'')]\<rparr>"
  have "lg_manager (tp_logger s)" "fh_hash s 200 = Some ''h''"
    by (simp_all add: s_def small_process_def sample_logger_def new_logger_def fh_hash_def)
  then show ?thesis using pclose_leaves_stream_traced [OF small_names_fit, of s 200 "''h''"] by blast
qed

text \<open>
  C0: reopening a traced stream in place crashes the program. \<open>freopen\<close> with a null path changes
  the mode of the stream, and the wrapper provides for it when it enters the new stream in the
  table; but with metadata in the events it first hashes the path, and inserting the hash of no
  name throws. Without metadata the stream keeps its hash.
\<close>

theorem freopen_of_null_path_throws:
  assumes "fh_hash s fp = Some h" and "string_at R (tp_world s) NULL = None" and "lg_manager (tp_logger s)"
  shows "if lg_include_metadata (tp_logger s)
    then stdio_freopen R NULL mode fp s = None \<and> stdio_freopen64 R NULL mode fp s = None
    else \<exists>ret s'. stdio_freopen R NULL mode fp s = Some (ret, s') \<and> (ret \<noteq> NULL \<longrightarrow> fh_hash s' ret = Some h)"
proof (cases "lg_include_metadata (tp_logger s)")
  case True
  define c where "c = start_hash R (Some h) s"
  have "start_fh R fp s = Some (c, s)" "ev_args c \<noteq> None"
    using assms(1) True by (simp_all add: c_def start_fh_def start_hash_def)
  then show ?thesis using upd_hash_null [OF assms(2)] True by (simp add: stdio_freopen_def stdio_freopen64_def)
next
  case False
  define c where "c = start_hash R (Some h) s"
  have st: "start_fh R fp s = Some (c, s)" using assms(1) by (simp add: c_def start_fh_def)
  have c: "traced_as (Some h) c" "ev_args c = None"
    using False start_hash_starts [of R "Some h" s] by (simp_all add: c_def start_hash_def)
  have none: "upd ty k v c = c" for ty k v using c(2) by (cases c) (simp add: upd_def)
  have stop: "\<not> tp_stdio_stop s" using assms(1) by (auto simp: fh_hash_def)
  have "post (stdio_freopen R NULL mode fp s) (\<lambda>(ret, s'). ret \<noteq> NULL \<longrightarrow> fh_hash s' ret = Some h)"
    using c st stop grows_refl [OF assms(3)] none unfolding stdio_freopen_def
    by (auto simp: upd_hash_def call_defs trace_reopened_def fh_hash_def trace_fh_def remove_trace_fh_def
        trace_stream_fd_def set_trace_def update_conv' traced_asD intro!: post_rules)
  then show ?thesis using False by (cases "stdio_freopen R NULL mode fp s") auto
qed

lemma freopen_of_null_path_throws_witness:
  "\<exists>s. fh_hash s 200 = Some ''h'' \<and> stdio_freopen small_libc NULL 8 200 s = None"
proof -
  define s where "s = (small_process (sample_logger\<lparr>lg_include_metadata := True\<rparr>))\<lparr>tp_tracked_fh := [(200, Some ''h'')]\<rparr>"
  have "lg_manager (tp_logger s)" "fh_hash s 200 = Some ''h''" "lg_include_metadata (tp_logger s)"
    by (simp_all add: s_def small_process_def sample_logger_def new_logger_def fh_hash_def)
  then show ?thesis using freopen_of_null_path_throws [of s 200 "''h''" small_libc 8] by auto
qed

end
