(* ===== verification/Spec2Isabelle.thy ===== *)
theory Spec2Isabelle
  imports DFT_Prelude Ring_Layout Ring_Block Ring_Producer Ring_Consumer Ring_Fifo Trace_Types DFT_Text Metadata_Json Event_Codec Json_Line Ring_Protocol Ring_Safety Rules Packed_Aggregator Bucket_Table Aggregation Path_Filter Md5 Node_Trace Consumer_Scaler Local_Buffer Service_Buffer Drain_Sink Configuration DFT_Logger Intercept Posix_Calls Posix_More Stdio_Calls Special_Calls Interception Fd_Table
begin

text \<open>The verification development of dftracer.\<close>

end
